(* ===== verification/Prelude.thy ===== *)
theory Prelude
  imports Complex_Main "HOL-Library.Word" "HOL-Library.Sublist" "HOL-Library.Multiset"
begin

text \<open>
  What every component of the development shares.

  \<^item> C++ exceptions and undefined behaviour as values (\<open>exn\<close>), results of fallible code
    (\<open>'a res\<close>), and sequencing (\<open>rbind\<close>, \<open>rmap\<close>).
  \<^item> The parts of the standard library and of Boost's string algorithms that the sources use:
    printing and reading of decimal integers (\<open>show_int\<close>, \<open>lexical_cast_int\<close>),
    \<open>boost::split\<close> (\<open>split_on\<close>), conversion of integers to the width of a C++ type.
  \<^item> Event loops: \<open>run\<close> drives a step function over a list of events, and the locale
    \<open>stepper\<close> is the contract (an invariant every step keeps) that the message loops, the
    request parser and the XML parser satisfy.
\<close>

section \<open>Collections of facts\<close>

named_theorems res_simps \<open>equations that take sequenced results apart\<close>
named_theorems char_simps \<open>evaluation of character classes on literals\<close>

section \<open>Exceptions and results\<close>

text \<open>
  One constructor per kind of exception that the modelled code can throw or catch.
  \<open>Runtime_error\<close> is a \<open>std::runtime_error\<close> thrown by value; \<open>Thrown_pointer\<close> is the
  idiom \<open>throw new runtime_error(..)\<close>, which throws a pointer and is not caught by a handler
  for \<open>runtime_error &\<close> or \<open>std::exception &\<close>.  \<open>Error_position\<close> is json_spirit's, with its
  reason; it has no base class.  \<open>Undefined\<close> is undefined behaviour
  (a null pointer dereferenced, an index past the end, a division by zero): nothing catches it.
\<close>

datatype exn =
    Runtime_error string
  | Bad_lexical_cast
  | Out_of_range
  | Msgpack_error
  | Zmq_error string
  | Thrown_pointer string
  | Error_position string
  | Undefined string

type_synonym 'a res = "exn + 'a"

fun is_runtime_error :: "exn \<Rightarrow> bool" where
  "is_runtime_error (Runtime_error _) = True"
| "is_runtime_error _ = False"

fun is_std_exception :: "exn \<Rightarrow> bool" where
  "is_std_exception (Thrown_pointer _) = False"
| "is_std_exception (Error_position _) = False"
| "is_std_exception (Undefined _) = False"
| "is_std_exception _ = True"

definition rbind :: "'a res \<Rightarrow> ('a \<Rightarrow> 'b res) \<Rightarrow> 'b res" where
  "rbind m f = (case m of Inl e \<Rightarrow> Inl e | Inr x \<Rightarrow> f x)"

definition rmap :: "('a \<Rightarrow> 'b) \<Rightarrow> 'a res \<Rightarrow> 'b res" where
  "rmap f m = (case m of Inl e \<Rightarrow> Inl e | Inr x \<Rightarrow> Inr (f x))"

lemma rbind_simps [simp, res_simps]:
  "rbind (Inl e) f = Inl e"
  "rbind (Inr x) f = f x"
  by (simp_all add: rbind_def)

lemma rmap_simps [simp, res_simps]:
  "rmap f (Inl e) = Inl e"
  "rmap f (Inr x) = Inr (f x)"
  by (simp_all add: rmap_def)

lemma rmap_rmap [simp]: "rmap f (rmap g m) = rmap (\<lambda>x. f (g x)) m"
  by (cases m) auto

lemma rbind_Inr [simp]: "rbind m Inr = m"
  by (cases m) auto

lemma rbind_assoc: "rbind (rbind m f) g = rbind m (\<lambda>x. rbind (f x) g)"
  by (cases m) auto

lemma rbind_cong [fundef_cong]:
  assumes "m = m'" and "\<And>x. m' = Inr x \<Longrightarrow> f x = f' x"
  shows "rbind m f = rbind m' f'"
  using assms by (cases m') (auto simp: rbind_def)

lemma rbind_eq_Inr [res_simps]: "rbind m f = Inr y \<longleftrightarrow> (\<exists>x. m = Inr x \<and> f x = Inr y)"
  by (cases m) auto

lemma rbind_eq_Inl [res_simps]:
  "rbind m f = Inl e \<longleftrightarrow> m = Inl e \<or> (\<exists>x. m = Inr x \<and> f x = Inl e)"
  by (cases m) auto

lemma rmap_eq_Inr [res_simps]: "rmap f m = Inr y \<longleftrightarrow> (\<exists>x. m = Inr x \<and> f x = y)"
  by (cases m) auto

lemma rmap_eq_Inl [res_simps]: "rmap f m = Inl e \<longleftrightarrow> m = Inl e"
  by (cases m) auto

lemma case_sum_eq_Inr [res_simps]:
  "(case r of Inl a \<Rightarrow> f a | Inr b \<Rightarrow> g b) = Inr y \<longleftrightarrow>
     (\<exists>a. r = Inl a \<and> f a = Inr y) \<or> (\<exists>b. r = Inr b \<and> g b = Inr y)"
  by (cases r) auto

text \<open>A loop that may fail at every turn.\<close>

fun rfold :: "('a \<Rightarrow> 's \<Rightarrow> 's res) \<Rightarrow> 'a list \<Rightarrow> 's \<Rightarrow> 's res" where
  "rfold f [] s = Inr s"
| "rfold f (x # xs) s = rbind (f x s) (rfold f xs)"

lemma rfold_append: "rfold f (xs @ ys) s = rbind (rfold f xs s) (rfold f ys)"
  by (induction xs arbitrary: s) (simp_all add: rbind_assoc cong: rbind_cong)

section \<open>State and exceptions\<close>

text \<open>An operation that changes a state and may throw: what it changed before it threw stays
  changed.\<close>

type_synonym ('s, 'a) prog = "'s \<Rightarrow> 'a res \<times> 's"

definition sreturn :: "'a \<Rightarrow> ('s, 'a) prog" where
  "sreturn x s = (Inr x, s)"

definition slift :: "'a res \<Rightarrow> ('s, 'a) prog" where
  "slift r s = (r, s)"

definition sbind :: "('s, 'a) prog \<Rightarrow> ('a \<Rightarrow> ('s, 'b) prog) \<Rightarrow> ('s, 'b) prog" where
  "sbind m f s = (case m s of (Inl e, s') \<Rightarrow> (Inl e, s') | (Inr x, s') \<Rightarrow> f x s')"

text \<open>\<open>try { m } catch (..) { h }\<close> for the exceptions that satisfy \<open>p\<close>.\<close>

definition scatch :: "(exn \<Rightarrow> bool) \<Rightarrow> ('s, 'a) prog \<Rightarrow> ('s, 'a) prog \<Rightarrow> ('s, 'a) prog" where
  "scatch p m h s =
     (case m s of (Inl e, s') \<Rightarrow> if p e then h s' else (Inl e, s') | (Inr x, s') \<Rightarrow> (Inr x, s'))"

lemma sbind_simps [simp]:
  "sbind (sreturn x) f s = f x s"
  "sbind (slift (Inr x)) f s = f x s"
  "sbind (slift (Inl e)) f s = (Inl e, s)"
  by (simp_all add: sbind_def sreturn_def slift_def)

text \<open>\<open>keeps R m\<close>: however \<open>m\<close> ends, the states before and after it are related by \<open>R\<close>.\<close>

definition keeps :: "('s \<Rightarrow> 's \<Rightarrow> bool) \<Rightarrow> ('s, 'a) prog \<Rightarrow> bool" where
  "keeps R m \<longleftrightarrow> (\<forall>s. R s (snd (m s)))"

lemma keeps_basic [simp]:
  "reflp R \<Longrightarrow> keeps R (sreturn x)" "reflp R \<Longrightarrow> keeps R (slift r)"
  by (simp_all add: keeps_def sreturn_def slift_def reflp_def)

lemma keeps_sbind: "transp R \<Longrightarrow> keeps R m \<Longrightarrow> (\<And>x. keeps R (f x)) \<Longrightarrow> keeps R (sbind m f)"
  unfolding keeps_def sbind_def
  by (intro allI) (auto split: prod.split sum.split dest: transpD, (metis snd_conv transpD)+)

lemma keeps_scatch: "transp R \<Longrightarrow> keeps R m \<Longrightarrow> keeps R h \<Longrightarrow> keeps R (scatch p m h)"
  unfolding keeps_def scatch_def
  by (intro allI) (auto split: prod.split sum.split, (metis snd_conv transpD)+)

section \<open>Integers of a C++ width\<close>

text \<open>
  \<open>int\<close> is a 32-bit two's complement integer, \<open>size_t\<close> an unsigned 64-bit one (the
  program is built for 64-bit Unix).  The conversions take a mathematical integer to the value
  that a C++ conversion to the type leaves.
\<close>

definition to_int32 :: "int \<Rightarrow> int" where
  "to_int32 x = (x + 2147483648) mod 4294967296 - 2147483648"

definition to_size_t :: "int \<Rightarrow> int" where
  "to_size_t x = x mod 18446744073709551616"

definition in_int32 :: "int \<Rightarrow> bool" where
  "in_int32 x \<longleftrightarrow> -2147483648 \<le> x \<and> x \<le> 2147483647"

lemma to_int32_id [simp]: "in_int32 x \<Longrightarrow> to_int32 x = x"
  by (simp add: to_int32_def in_int32_def)

lemma in_int32_to_int32 [simp]: "in_int32 (to_int32 x)"
proof -
  have "0 \<le> (x + 2147483648) mod 4294967296" "(x + 2147483648) mod 4294967296 < 4294967296"
    by (rule pos_mod_sign, simp, rule pos_mod_bound, simp)
  then show ?thesis by (simp add: to_int32_def in_int32_def)
qed

lemma to_int32_sint: "to_int32 x = sint (word_of_int x :: 32 word)"
  by (simp add: to_int32_def signed_of_int signed_take_bit_eq_take_bit_shift take_bit_eq_mod)

text \<open>Signed overflow is undefined.\<close>

definition add_int32 :: "int \<Rightarrow> int \<Rightarrow> int res" where
  "add_int32 a b = (if in_int32 (a + b) then Inr (a + b) else Inl (Undefined ''signed overflow''))"

definition sub_int32 :: "int \<Rightarrow> int \<Rightarrow> int res" where
  "sub_int32 a b = (if in_int32 (a - b) then Inr (a - b) else Inl (Undefined ''signed overflow''))"

lemma to_size_t_id [simp]: "0 \<le> x \<Longrightarrow> x < 18446744073709551616 \<Longrightarrow> to_size_t x = x"
  by (simp add: to_size_t_def)

section \<open>Characters\<close>

text \<open>A \<open>char\<close> of C++ is a byte; \<open>code\<close> is its value as an unsigned number.\<close>

abbreviation code :: "char \<Rightarrow> nat" where
  "code c \<equiv> of_char c"

definition is_digit_char :: "char \<Rightarrow> bool" where
  "is_digit_char c \<longleftrightarrow> 48 \<le> code c \<and> code c \<le> 57"

definition digit_char :: "nat \<Rightarrow> char" where
  "digit_char n = char_of (48 + n)"

lemma code_digit_char [simp]: "n < 10 \<Longrightarrow> code (digit_char n) = 48 + n"
  by (simp add: digit_char_def)

lemma is_digit_digit_char [simp]: "n < 10 \<Longrightarrow> is_digit_char (digit_char n)"
  by (simp add: is_digit_char_def)

lemma code_less_256 [simp]: "code c < 256"
  by (simp add: of_char_def)

lemma code_eq_iff: "code c = code d \<longleftrightarrow> c = d"
  by simp

text \<open>The C locale: \<open>isspace\<close>, \<open>isalnum\<close> and \<open>tolower\<close>.\<close>

definition is_space :: "char \<Rightarrow> bool" where
  "is_space c \<longleftrightarrow> code c = 32 \<or> (9 \<le> code c \<and> code c \<le> 13)"

definition is_upper :: "char \<Rightarrow> bool" where
  "is_upper c \<longleftrightarrow> 65 \<le> code c \<and> code c \<le> 90"

definition is_alnum :: "char \<Rightarrow> bool" where
  "is_alnum c \<longleftrightarrow> is_digit_char c \<or> is_upper c \<or> (97 \<le> code c \<and> code c \<le> 122)"

definition lower_char :: "char \<Rightarrow> char" where
  "lower_char c = (if is_upper c then char_of (code c + 32) else c)"

definition to_lower :: "string \<Rightarrow> string" where
  "to_lower s = map lower_char s"

text \<open>\<open>char\<close> is signed: what its conversion to \<open>int\<close> gives.\<close>

definition signed_char :: "char \<Rightarrow> int" where
  "signed_char c = (if code c < 128 then int (code c) else int (code c) - 256)"

section \<open>Decimal integers\<close>

text \<open>
  \<open>stream << n\<close> and \<open>boost::lexical_cast<string>(n)\<close> for an \<open>int\<close>: a minus sign where
  the value is negative, then the decimal digits.
\<close>

fun show_nat :: "nat \<Rightarrow> string" where
  "show_nat n = (if n < 10 then [digit_char n] else show_nat (n div 10) @ [digit_char (n mod 10)])"

declare show_nat.simps [simp del]

definition show_int :: "int \<Rightarrow> string" where
  "show_int i = (if i < 0 then CHR ''-'' # show_nat (nat (- i)) else show_nat (nat i))"

text \<open>
  \<open>boost::lexical_cast<int>(s)\<close>: an optional sign, then decimal digits to the end of the
  string, and the value in range; anything else throws \<open>bad_lexical_cast\<close>.
\<close>

definition parse_digits :: "string \<Rightarrow> nat" where
  "parse_digits s = foldl (\<lambda>n c. 10 * n + (code c - 48)) 0 s"

definition lexical_cast_int :: "string \<Rightarrow> int res" where
  "lexical_cast_int s =
     (let neg = (case s of c # _ \<Rightarrow> c = CHR ''-'' | [] \<Rightarrow> False);
          digits = (case s of c # cs \<Rightarrow> if c = CHR ''-'' \<or> c = CHR ''+'' then cs else s | [] \<Rightarrow> []);
          v = (if neg then - int (parse_digits digits) else int (parse_digits digits))
      in if digits \<noteq> [] \<and> list_all is_digit_char digits \<and> in_int32 v then Inr v
         else Inl Bad_lexical_cast)"

lemma show_nat_small: "n < 10 \<Longrightarrow> show_nat n = [digit_char n]"
  by (simp add: show_nat.simps)

lemma show_nat_big: "\<not> n < 10 \<Longrightarrow> show_nat n = show_nat (n div 10) @ [digit_char (n mod 10)]"
  by (simp add: show_nat.simps [of n])

lemma show_nat_nonempty [simp]: "show_nat n \<noteq> []"
  by (subst show_nat.simps) simp

lemma show_nat_digits [simp]: "list_all is_digit_char (show_nat n)"
proof (induction n rule: show_nat.induct)
  case (1 n)
  then show ?case by (cases "n < 10") (simp_all add: show_nat_small show_nat_big)
qed

lemma parse_digits_snoc: "parse_digits (s @ [c]) = 10 * parse_digits s + (code c - 48)"
  by (simp add: parse_digits_def)

lemma parse_digits_show_nat [simp]: "parse_digits (show_nat n) = n"
proof (induction n rule: show_nat.induct)
  case (1 n)
  then show ?case
    by (cases "n < 10") (simp_all add: show_nat_small show_nat_big parse_digits_snoc,
        simp add: parse_digits_def)
qed

lemma show_nat_hd_digit: "is_digit_char (hd (show_nat n))"
  using show_nat_digits [of n] by (cases "show_nat n") auto

lemma show_nat_no_sign: "show_nat n = c # cs \<Longrightarrow> c \<noteq> CHR ''-'' \<and> c \<noteq> CHR ''+''"
  using show_nat_hd_digit [of n] by (auto simp: is_digit_char_def)

lemma lexical_cast_show_int: "in_int32 i \<Longrightarrow> lexical_cast_int (show_int i) = Inr i"
proof (cases "i < 0")
  case True
  assume "in_int32 i"
  with True show ?thesis by (simp add: lexical_cast_int_def show_int_def)
next
  case False
  assume "in_int32 i"
  obtain c cs where sn: "show_nat (nat i) = c # cs" by (cases "show_nat (nat i)") auto
  have "parse_digits (c # cs) = nat i" "list_all is_digit_char (c # cs)"
    using parse_digits_show_nat [of "nat i"] show_nat_digits [of "nat i"] by (simp_all add: sn)
  with False show_nat_no_sign [OF sn] sn \<open>in_int32 i\<close> show ?thesis
    by (simp add: lexical_cast_int_def show_int_def)
qed

section \<open>Strings\<close>

text \<open>\<open>s.substr(pos)\<close> past a position that is known to be inside is \<open>drop\<close>; a part
  before a character that may be missing is cut with \<open>break_at\<close>: the prefix up to the first
  character of a set, and the rest starting with it.\<close>

definition break_at :: "(char \<Rightarrow> bool) \<Rightarrow> string \<Rightarrow> string \<times> string" where
  "break_at p s = (takeWhile (\<lambda>c. \<not> p c) s, dropWhile (\<lambda>c. \<not> p c) s)"

lemma break_at_append: "break_at p s = (a, b) \<Longrightarrow> s = a @ b"
  by (auto simp: break_at_def)

lemma length_break_at: "break_at p s = (a, b) \<Longrightarrow> length a + length b = length s"
  by (metis break_at_append length_append)

text \<open>\<open>boost::split(v, s, is_any_of(sep))\<close> without token compression: the pieces between
  separators, empty ones included.\<close>

fun split_on :: "char \<Rightarrow> string \<Rightarrow> string list" where
  "split_on sep [] = [[]]"
| "split_on sep (c # cs) =
     (if c = sep then [] # split_on sep cs
      else (case split_on sep cs of p # ps \<Rightarrow> (c # p) # ps | [] \<Rightarrow> [[c]]))"

fun join_with :: "char \<Rightarrow> string list \<Rightarrow> string" where
  "join_with sep [] = []"
| "join_with sep [p] = p"
| "join_with sep (p # q # ps) = p @ sep # join_with sep (q # ps)"

lemma split_on_nonempty [simp]: "split_on sep s \<noteq> []"
  by (induction s) (auto split: list.split)

lemma length_split_on: "length (split_on sep s) = Suc (count_list s sep)"
  by (induction s) (auto split: list.split)

lemma join_split_on: "join_with sep (split_on sep s) = s"
proof (induction s)
  case (Cons c cs)
  obtain p ps where sp: "split_on sep cs = p # ps"
    by (cases "split_on sep cs") auto
  with Cons show ?case by (cases ps) auto
qed simp

lemma split_on_no_sep: "sep \<notin> set s \<Longrightarrow> split_on sep s = [s]"
  by (induction s) auto

lemma split_on_append:
  "sep \<notin> set a \<Longrightarrow> split_on sep (a @ sep # b) = a # split_on sep b"
  by (induction a) auto

lemma split_join_with:
  assumes "ps \<noteq> []" and "\<forall>p \<in> set ps. sep \<notin> set p"
  shows "split_on sep (join_with sep ps) = ps"
  using assms by (induction sep ps rule: join_with.induct) (auto simp: split_on_no_sep split_on_append)

section \<open>Event loops\<close>

text \<open>
  A loop of the program that handles one event (a polled message, a character) per turn is a
  step function that continues with a new state or stops with a result.  \<open>run\<close> drives it over
  a list of events and also returns the events it did not look at.
\<close>

datatype ('s, 'r) outcome = Continue 's | Stop 'r

fun run :: "('s \<Rightarrow> 'e \<Rightarrow> ('s, 'r) outcome) \<Rightarrow> 's \<Rightarrow> 'e list \<Rightarrow> ('s, 'r) outcome \<times> 'e list" where
  "run step s [] = (Continue s, [])"
| "run step s (e # es) =
     (case step s e of Continue s' \<Rightarrow> run step s' es | Stop r \<Rightarrow> (Stop r, es))"

lemma run_append:
  "run step s (xs @ ys) =
     (case run step s xs of
        (Continue s', _) \<Rightarrow> run step s' ys
      | (Stop r, rest) \<Rightarrow> (Stop r, rest @ ys))"
  by (induction xs arbitrary: s) (auto split: outcome.split)

lemma run_Continue_rest: "run step s xs = (Continue s', rest) \<Longrightarrow> rest = []"
  by (induction xs arbitrary: s) (auto split: outcome.splits)

lemma run_rest_suffix: "suffix (snd (run step s xs)) xs"
  by (induction xs arbitrary: s) (auto split: outcome.split simp: suffix_Cons)

text \<open>The contract of a loop: every step on an admissible event keeps an invariant, and the
  result it stops with, if it stops, is acceptable.\<close>

locale stepper =
  fixes step :: "'s \<Rightarrow> 'e \<Rightarrow> ('s, 'r) outcome"
    and inv :: "'s \<Rightarrow> bool"
    and good :: "'e \<Rightarrow> bool"
    and acceptable :: "'r \<Rightarrow> bool"
  assumes step_inv: "inv s \<Longrightarrow> good e \<Longrightarrow> step s e = Continue s' \<Longrightarrow> inv s'"
    and step_acceptable: "inv s \<Longrightarrow> good e \<Longrightarrow> step s e = Stop r \<Longrightarrow> acceptable r"
begin

lemma run_inv:
  "inv s \<Longrightarrow> list_all good es \<Longrightarrow> run step s es = (Continue s', rest) \<Longrightarrow> inv s'"
  by (induction es arbitrary: s) (auto split: outcome.splits dest: step_inv)

lemma run_acceptable:
  "inv s \<Longrightarrow> list_all good es \<Longrightarrow> run step s es = (Stop r, rest) \<Longrightarrow> acceptable r"
  by (induction es arbitrary: s)
    (auto split: outcome.splits dest: step_inv step_acceptable)

end

end
