(* ===== verification/Doubles.thy ===== *)
theory Doubles
  imports Prelude
begin

text \<open>
  The \<open>double\<close> of C++ as far as the program uses it: division and multiplication rounded to
  53 significant bits (to nearest, ties to even), truncation to \<open>int\<close>, and printing with a
  number of significant digits (\<open>%g\<close> of \<open>printf\<close>, which is what \<open>setprecision\<close> and
  \<open>lexical_cast<string>\<close> of a double come to; the flag \<open>showpoint\<close> is \<open>%#g\<close>).

  A finite double is \<open>m * 2 ^ e\<close>.  The program's doubles are quotients and products of
  32-bit integers and literals of configuration files, so the bounds on the exponent
  (overflow to infinity, subnormal numbers) are left out, as are the sign of zero and of NaN.
\<close>

datatype dbl = Fin int int | Inf bool | NaN

fun bit_len :: "nat \<Rightarrow> nat" where
  "bit_len n = (if n = 0 then 0 else Suc (bit_len (n div 2)))"

declare bit_len.simps [simp del]

text \<open>The quotient of two numbers, rounded to nearest with ties to even.\<close>

definition round_div :: "nat \<Rightarrow> nat \<Rightarrow> nat" where
  "round_div n d =
     (let q = n div d; r = n mod d
      in if 2 * r < d \<or> (2 * r = d \<and> even q) then q else Suc q)"

definition scale_num :: "int \<Rightarrow> nat \<Rightarrow> nat" where
  "scale_num e n = n * 2 ^ nat (- e)"

definition scale_den :: "int \<Rightarrow> nat \<Rightarrow> nat" where
  "scale_den e d = d * 2 ^ nat e"

text \<open>The double nearest to \<open>n / d\<close>.\<close>

definition round53 :: "bool \<Rightarrow> nat \<Rightarrow> nat \<Rightarrow> dbl" where
  "round53 neg n d =
     (if n = 0 then Fin 0 0
      else let e1 = int (bit_len n) - int (bit_len d) - 53;
               e = (if scale_num e1 n \<ge> scale_den e1 d * 2 ^ 53 then e1 + 1 else e1);
               m = int (round_div (scale_num e n) (scale_den e d))
           in Fin (if neg then - m else m) e)"

definition dbl_of_int :: "int \<Rightarrow> dbl" where
  "dbl_of_int i = (if \<bar>i\<bar> \<le> 2 ^ 53 then Fin i 0 else round53 (i < 0) (nat \<bar>i\<bar>) 1)"

fun dbl_neg :: "dbl \<Rightarrow> bool" where
  "dbl_neg (Fin m e) = (m < 0)"
| "dbl_neg (Inf b) = b"
| "dbl_neg NaN = False"

fun dbl_div :: "dbl \<Rightarrow> dbl \<Rightarrow> dbl" where
  "dbl_div (Fin m e) (Fin m' e') =
     (if m' = 0 then (if m = 0 then NaN else Inf (m < 0))
      else round53 ((m < 0) \<noteq> (m' < 0))
             (nat \<bar>m\<bar> * 2 ^ nat (e - e')) (nat \<bar>m'\<bar> * 2 ^ nat (e' - e)))"
| "dbl_div (Fin m e) (Inf b) = Fin 0 0"
| "dbl_div (Inf b) (Fin m e) = Inf (b \<noteq> (m < 0))"
| "dbl_div _ _ = NaN"

fun dbl_mult :: "dbl \<Rightarrow> dbl \<Rightarrow> dbl" where
  "dbl_mult (Fin m e) (Fin m' e') =
     round53 ((m < 0) \<noteq> (m' < 0)) (nat \<bar>m * m'\<bar> * 2 ^ nat (e + e')) (2 ^ nat (- (e + e')))"
| "dbl_mult NaN _ = NaN"
| "dbl_mult _ NaN = NaN"
| "dbl_mult (Inf b) (Fin m e) = (if m = 0 then NaN else Inf (b \<noteq> (m < 0)))"
| "dbl_mult (Fin m e) (Inf b) = (if m = 0 then NaN else Inf (b \<noteq> (m < 0)))"
| "dbl_mult (Inf a) (Inf b) = Inf (a \<noteq> b)"

fun dbl_add :: "dbl \<Rightarrow> dbl \<Rightarrow> dbl" where
  "dbl_add (Fin m e) (Fin m' e') =
     (let b = min e e'; s = m * 2 ^ nat (e - b) + m' * 2 ^ nat (e' - b)
      in round53 (s < 0) (nat \<bar>s\<bar> * 2 ^ nat b) (2 ^ nat (- b)))"
| "dbl_add NaN _ = NaN"
| "dbl_add _ NaN = NaN"
| "dbl_add (Inf b) (Fin m e) = Inf b"
| "dbl_add (Fin m e) (Inf b) = Inf b"
| "dbl_add (Inf a) (Inf b) = (if a = b then Inf a else NaN)"

fun dbl_uminus :: "dbl \<Rightarrow> dbl" where
  "dbl_uminus (Fin m e) = Fin (- m) e"
| "dbl_uminus (Inf b) = Inf (\<not> b)"
| "dbl_uminus NaN = NaN"

definition dbl_sub :: "dbl \<Rightarrow> dbl \<Rightarrow> dbl" where
  "dbl_sub a b = dbl_add a (dbl_uminus b)"

text \<open>\<open>a > b\<close> on doubles (false on NaN), and \<open>abs\<close>.\<close>

fun dbl_greater :: "dbl \<Rightarrow> dbl \<Rightarrow> bool" where
  "dbl_greater (Fin m e) (Fin m' e') =
     (let b = min e e' in m * 2 ^ nat (e - b) > m' * 2 ^ nat (e' - b))"
| "dbl_greater (Inf a) (Fin m e) = (\<not> a)"
| "dbl_greater (Fin m e) (Inf a) = a"
| "dbl_greater (Inf a) (Inf b) = (\<not> a \<and> b)"
| "dbl_greater _ _ = False"

fun dbl_abs :: "dbl \<Rightarrow> dbl" where
  "dbl_abs (Fin m e) = Fin \<bar>m\<bar> e"
| "dbl_abs (Inf b) = Inf False"
| "dbl_abs NaN = NaN"

text \<open>\<open>(int) d\<close>: towards zero, undefined where the value does not fit.\<close>

fun dbl_to_int :: "dbl \<Rightarrow> int res" where
  "dbl_to_int (Fin m e) =
     (let t = (nat \<bar>m\<bar> * 2 ^ nat e) div 2 ^ nat (- e);
          v = (if m < 0 then - int t else int t)
      in if in_int32 v then Inr v else Inl (Undefined ''double out of range of int''))"
| "dbl_to_int _ = Inl (Undefined ''double out of range of int'')"

section \<open>Printing\<close>

text \<open>The least number of multiplications by ten that brings \<open>n / d\<close> to one or above.\<close>

function neg_log10 :: "nat \<Rightarrow> nat \<Rightarrow> nat" where
  "neg_log10 n d = (if n = 0 \<or> d \<le> n then 0 else Suc (neg_log10 (n * 10) d))"
  by pat_completeness auto
termination
  by (relation "measure (\<lambda>(n, d). d - n)") auto

declare neg_log10.simps [simp del]

definition floor_log10 :: "nat \<Rightarrow> nat \<Rightarrow> int" where
  "floor_log10 n d =
     (if d \<le> n then int (length (show_nat (n div d))) - 1 else - int (neg_log10 n d))"

text \<open>The decimal exponent and the \<open>p\<close> significant digits of \<open>n / d\<close>.\<close>

definition sig_digits :: "nat \<Rightarrow> nat \<Rightarrow> nat \<Rightarrow> int \<times> string" where
  "sig_digits p n d =
     (if n = 0 then (0, replicate p CHR ''0'')
      else let x = floor_log10 n d;
               s = int p - 1 - x;
               k = round_div (n * 10 ^ nat s) (d * 10 ^ nat (- s))
           in if k = 10 ^ p then (x + 1, show_nat (10 ^ (p - 1))) else (x, show_nat k))"

definition strip_zeros :: "string \<Rightarrow> string" where
  "strip_zeros s = rev (dropWhile (\<lambda>c. c = CHR ''0'') (rev s))"

definition show_exponent :: "int \<Rightarrow> string" where
  "show_exponent x =
     CHR ''e'' # (if x < 0 then CHR ''-'' else CHR ''+'') #
     (if \<bar>x\<bar> < 10 then CHR ''0'' # show_nat (nat \<bar>x\<bar>) else show_nat (nat \<bar>x\<bar>))"

text \<open>\<open>point_part alt f\<close> is the point and the digits after it: without the flag trailing
  zeros go, and the point with them where nothing is left.\<close>

definition point_part :: "bool \<Rightarrow> string \<Rightarrow> string" where
  "point_part alt f =
     (let f' = (if alt then f else strip_zeros f)
      in if alt \<or> f' \<noteq> [] then CHR ''.'' # f' else [])"

definition fmt_abs :: "bool \<Rightarrow> nat \<Rightarrow> nat \<Rightarrow> nat \<Rightarrow> string" where
  "fmt_abs alt p n d =
     (let (x, ds) = sig_digits p n d
      in if x < -4 \<or> int p \<le> x
         then take 1 ds @ point_part alt (drop 1 ds) @ show_exponent x
         else if 0 \<le> x
         then take (nat x + 1) ds @ point_part alt (drop (nat x + 1) ds)
         else ''0'' @ point_part alt (replicate (nat (- x) - 1) CHR ''0'' @ ds))"

text \<open>\<open>fmt_g alt p d\<close>: \<open>printf("%.*g", p, d)\<close>, and \<open>"%#.*g"\<close> where \<open>alt\<close> is set.\<close>

fun fmt_g :: "bool \<Rightarrow> nat \<Rightarrow> dbl \<Rightarrow> string" where
  "fmt_g alt p (Fin m e) =
     (if m < 0 then ''-'' else []) @ fmt_abs alt p (nat \<bar>m\<bar> * 2 ^ nat e) (2 ^ nat (- e))"
| "fmt_g alt p (Inf b) = (if b then ''-inf'' else ''inf'')"
| "fmt_g alt p NaN = ''nan''"

text \<open>\<open>boost::lexical_cast<string>(double)\<close> prints 17 significant digits; a stream prints 6
  by default.\<close>

definition lexical_cast_double :: "dbl \<Rightarrow> string" where
  "lexical_cast_double d = fmt_g False 17 d"

definition stream_double :: "dbl \<Rightarrow> string" where
  "stream_double d = fmt_g False 6 d"

section \<open>Lengths and quotients\<close>

lemma bit_len_le: "n < 2 ^ k \<Longrightarrow> bit_len n \<le> k"
proof (induction n arbitrary: k rule: bit_len.induct)
  case (1 n)
  show ?case
  proof (cases "n = 0")
    case False
    with 1(2) obtain j where "k = Suc j" by (cases k) auto
    with 1 False show ?thesis by (subst bit_len.simps) auto
  qed (simp add: bit_len.simps)
qed

lemma bit_len_upper: "n < 2 ^ bit_len n"
proof (induction n rule: bit_len.induct)
  case (1 n)
  show ?case
  proof (cases "n = 0")
    case False
    then have "n div 2 < 2 ^ bit_len (n div 2)" using 1 by simp
    with False show ?thesis by (subst bit_len.simps) simp
  qed simp
qed

lemma bit_len_lower: "n \<noteq> 0 \<Longrightarrow> 2 ^ (bit_len n - 1) \<le> n"
proof (induction n rule: bit_len.induct)
  case (1 n)
  show ?case
  proof (cases "n div 2 = 0")
    case True
    with 1(2) have "n = 1" by linarith
    then show ?thesis by (simp add: bit_len.simps)
  next
    case False
    with 1 have "2 ^ (bit_len (n div 2) - 1) \<le> n div 2" by simp
    moreover have "bit_len (n div 2) \<noteq> 0" using False by (subst bit_len.simps) simp
    ultimately show ?thesis using 1(2)
      by (subst bit_len.simps) (cases "bit_len (n div 2)", auto)
  qed
qed

lemma round_div_le: "n \<le> q * d \<Longrightarrow> 0 < d \<Longrightarrow> round_div n d \<le> q"
proof -
  assume n: "n \<le> q * d" and d: "0 < d"
  show ?thesis
  proof (cases "n mod d = 0")
    case True
    then have "round_div n d = n div d" using d by (simp add: round_div_def)
    also have "\<dots> \<le> q" using n d by (metis div_le_mono nonzero_mult_div_cancel_right less_irrefl)
    finally show ?thesis .
  next
    case False
    have "n div d * d + n mod d = n" by simp
    then have "n div d * d < q * d" using False n by linarith
    then have "n div d < q" using d by simp
    then show ?thesis by (simp add: round_div_def Let_def)
  qed
qed

section \<open>Accuracy\<close>

text \<open>The number a finite double stands for.\<close>

fun dbl_val :: "dbl \<Rightarrow> real" where
  "dbl_val (Fin m e) = real_of_int m * 2 powi e"
| "dbl_val _ = 0"

lemma scale_ratio:
  assumes "0 < d"
  shows "real (scale_num e n) / real (scale_den e d) = real n / real d / 2 powi e"
proof (cases "0 \<le> e")
  case True
  then show ?thesis by (simp add: scale_num_def scale_den_def power_int_def)
next
  case False
  then show ?thesis by (simp add: scale_num_def scale_den_def power_int_def field_simps)
qed

lemma round_div_error:
  assumes "0 < d"
  shows "\<bar>real (round_div n d) - real n / real d\<bar> \<le> 1 / 2"
proof -
  have n: "real n = real (n div d) * real d + real (n mod d)"
    by (metis div_mult_mod_eq of_nat_add of_nat_mult)
  then have q: "real n / real d = real (n div d) + real (n mod d) / real d"
    using assms by (simp add: field_simps)
  have r: "0 \<le> real (n mod d) / real d" "real (n mod d) / real d < 1" using assms by simp_all
  show ?thesis
  proof (cases "2 * (n mod d) < d \<or> (2 * (n mod d) = d \<and> even (n div d))")
    case True
    then have "2 * real (n mod d) \<le> real d" by linarith
    then have "real (n mod d) / real d \<le> 1 / 2" using assms by (simp add: field_simps)
    with True q r show ?thesis by (simp add: round_div_def Let_def)
  next
    case False
    then have "real d \<le> 2 * real (n mod d)" by linarith
    then have "1 / 2 \<le> real (n mod d) / real d" using assms by (simp add: field_simps)
    moreover have "round_div n d = Suc (n div d)" using False by (auto simp: round_div_def Let_def)
    ultimately show ?thesis using q r by simp
  qed
qed

text \<open>Rounding to 53 bits has a relative error of at most \<open>2 ^ -53\<close>.\<close>

lemma round53_accurate:
  assumes "0 < n" and "0 < d"
  obtains m e where "round53 neg n d = Fin (if neg then - int m else int m) e"
    "\<bar>real m * 2 powi e - real n / real d\<bar> \<le> real n / real d / 2 ^ 53"
proof -
  define e1 where "e1 = int (bit_len n) - int (bit_len d) - 53"
  define e where "e = (if scale_num e1 n \<ge> scale_den e1 d * 2 ^ 53 then e1 + 1 else e1)"
  define m where "m = round_div (scale_num e n) (scale_den e d)"
  have x: "0 < real n / real d" using assms by simp
  have den: "0 < scale_den k d" for k using assms(2) by (simp add: scale_den_def)
  have n0: "bit_len n \<noteq> 0" using assms(1) by (subst bit_len.simps) simp
  have "(2::real) powi (e1 + 52) \<le> real n / real d"
  proof -
    have "real n \<ge> 2 ^ (bit_len n - 1)" using bit_len_lower [of n] assms(1)
      by (metis of_nat_le_iff of_nat_numeral of_nat_power neq0_conv)
    moreover have "real d \<le> 2 ^ bit_len d" using bit_len_upper [of d]
      by (metis less_imp_le of_nat_le_iff of_nat_numeral of_nat_power)
    ultimately have "(2::real) ^ (bit_len n - 1) / 2 ^ bit_len d \<le> real n / real d"
      using assms(2) by (intro frac_le) auto
    moreover have "(2::real) ^ (bit_len n - 1) / 2 ^ bit_len d = 2 powi (e1 + 52)"
      using n0 by (simp add: e1_def power_int_diff power_int_add flip: power_int_of_nat)
    ultimately show ?thesis by simp
  qed
  moreover have "(2::real) powi (e1 + 1 + 52) \<le> real n / real d" if "scale_num e1 n \<ge> scale_den e1 d * 2 ^ 53"
  proof -
    have "real (scale_den e1 d) * 2 ^ 53 \<le> real (scale_num e1 n)"
      using that by (metis of_nat_le_iff of_nat_mult of_nat_numeral of_nat_power)
    then have "2 ^ 53 \<le> real n / real d / 2 powi e1"
      unfolding scale_ratio [OF assms(2), of e1 n, symmetric]
      using den [of e1] by (subst pos_le_divide_eq) (simp_all add: mult.commute)
    then have "2 ^ 53 * 2 powi e1 \<le> real n / real d" by (subst (asm) pos_le_divide_eq) simp_all
    then show ?thesis by (simp add: power_int_add mult.commute)
  qed
  ultimately have "(2::real) powi (e + 52) \<le> real n / real d" by (simp add: e_def)
  then have big: "2 powi e \<le> real n / real d / 2 ^ 52" by (simp add: field_simps power_int_add)
  have "\<bar>real m - real n / real d / 2 powi e\<bar> \<le> 1 / 2"
    using round_div_error [OF den, of "scale_num e n" e] scale_ratio [OF assms(2), of e n] by (simp add: m_def)
  then have "\<bar>real m - real n / real d / 2 powi e\<bar> * 2 powi e \<le> 1 / 2 * 2 powi e"
    by (intro mult_right_mono) simp_all
  moreover have "\<bar>real m - real n / real d / 2 powi e\<bar> * 2 powi e = \<bar>real m * 2 powi e - real n / real d\<bar>"
  proof -
    have "(real m - real n / real d / 2 powi e) * 2 powi e = real m * 2 powi e - real n / real d"
      by (simp add: left_diff_distrib)
    then show ?thesis by (metis abs_mult abs_of_nonneg zero_le_power_int zero_le_numeral)
  qed
  ultimately have "\<bar>real m * 2 powi e - real n / real d\<bar> \<le> 1 / 2 * 2 powi e" by (simp only:)
  also have "\<dots> \<le> 1 / 2 * (real n / real d / 2 ^ 52)" using big by (intro mult_left_mono) simp_all
  finally have "\<bar>real m * 2 powi e - real n / real d\<bar> \<le> real n / real d / 2 ^ 53" by simp
  moreover have "round53 neg n d = Fin (if neg then - int m else int m) e"
    using assms(1) by (simp add: round53_def Let_def e1_def e_def m_def)
  ultimately show thesis by (intro that)
qed

text \<open>The value of a product or a quotient before it is rounded.\<close>

lemma scaled_val:
  "real (n * 2 ^ nat k) / real (2 ^ nat (- k)) = real n * 2 powi k"
  by (cases "0 \<le> k") (simp_all add: power_int_def field_simps)

text \<open>Truncation of a double that is not negative.\<close>

lemma dbl_to_int_floor:
  assumes "0 \<le> m" and "real_of_int m * 2 powi e < 2147483648"
  shows "dbl_to_int (Fin m e) = Inr \<lfloor>real_of_int m * 2 powi e\<rfloor>"
proof -
  let ?t = "(nat m * 2 ^ nat e) div 2 ^ nat (- e)"
  have "\<lfloor>real (nat m * 2 ^ nat e) / real (2 ^ nat (- e))\<rfloor> = int ?t"
    by (simp add: floor_divide_of_nat_eq del: of_nat_mult of_nat_power)
  moreover have "real (nat m) = real_of_int m" using assms(1) by simp
  ultimately have t: "\<lfloor>real_of_int m * 2 powi e\<rfloor> = int ?t"
    using scaled_val [of "nat m" e] by metis
  then have "int ?t < 2147483648" using assms(2) by linarith
  with assms(1) t show ?thesis by (simp add: in_int32_def Let_def)
qed

text \<open>A product of three rounded factors close to one.\<close>

lemma product_close:
  fixes x u s y :: real
  assumes "\<bar>u - r / m\<bar> \<le> r / m / 2 ^ 53" and "\<bar>s - k\<bar> \<le> k / 2 ^ 53" and "\<bar>x - u * s\<bar> \<le> u * s / 2 ^ 53"
    and "0 < r" and "r \<le> 2 ^ 31" and "0 < k" and "k \<le> m"
  shows "\<bar>x - r * k / m\<bar> < 1" "0 \<le> x" "x < r + 1"
proof -
  define eps :: real where "eps = 1 / 2 ^ 53"
  have m: "0 < m" using assms by simp
  define q where "q = r / m"
  have q: "0 < q" using assms m by (simp add: q_def)
  have "\<bar>u - q\<bar> \<le> q * eps" "\<bar>s - k\<bar> \<le> k * eps" "\<bar>x - u * s\<bar> \<le> u * s * eps"
    using assms(1-3) unfolding q_def eps_def by simp_all
  then have u: "q * (1 - eps) \<le> u" "u \<le> q * (1 + eps)" and s: "k * (1 - eps) \<le> s" "s \<le> k * (1 + eps)"
    and x: "u * s * (1 - eps) \<le> x" "x \<le> u * s * (1 + eps)"
    unfolding right_diff_distrib distrib_left by linarith+
  have e: "0 < 1 - eps" "0 < 1 + eps" by (simp_all add: eps_def)
  have pos: "0 < u" "0 < s" using u(1) s(1) q assms(6) e(1) by (smt (verit) mult_pos_pos)+
  have us: "q * k * (1 - eps)\<^sup>2 \<le> u * s" "u * s \<le> q * k * (1 + eps)\<^sup>2"
  proof -
    have "0 \<le> q * (1 - eps)" "0 \<le> k * (1 - eps)" "0 \<le> q * (1 + eps)" using q assms(6) e by simp_all
    then have "q * (1 - eps) * (k * (1 - eps)) \<le> u * s" "u * s \<le> q * (1 + eps) * (k * (1 + eps))"
      using mult_mono [OF u(1) s(1)] mult_mono [OF u(2) s(2)] pos by simp_all
    then show "q * k * (1 - eps)\<^sup>2 \<le> u * s" "u * s \<le> q * k * (1 + eps)\<^sup>2"
      by (simp_all add: power2_eq_square mult_ac)
  qed
  have lo: "q * k * (1 - eps) ^ 3 \<le> x"
    using order.trans [OF mult_right_mono [OF us(1), of "1 - eps"] x(1)] e(1)
    by (simp add: power3_eq_cube power2_eq_square algebra_simps)
  have hi: "x \<le> q * k * (1 + eps) ^ 3"
    using order.trans [OF x(2) mult_right_mono [OF us(2), of "1 + eps"]] e(2)
    by (simp add: power3_eq_cube power2_eq_square algebra_simps)
  have qk: "q * k \<le> r" using assms(4,7) m by (simp add: q_def field_simps)
  have qk0: "0 < q * k" using q assms(6) by simp
  have c: "(1 + eps) ^ 3 \<le> 1 + 4 * eps" "1 - 4 * eps \<le> (1 - eps) ^ 3"
    by (simp_all add: eps_def power3_eq_cube)
  have "x \<le> q * k * (1 + 4 * eps)" using hi c(1) qk0 by (smt (verit) mult_left_mono)
  moreover have "q * k * (1 - 4 * eps) \<le> x" using lo c(2) qk0 by (smt (verit) mult_left_mono)
  moreover have "q * k * (4 * eps) < 1" using qk assms(5) by (simp add: eps_def)
  ultimately have "\<bar>x - q * k\<bar> < 1" "x < r + 1" using qk by (simp_all add: algebra_simps)
  then show "\<bar>x - r * k / m\<bar> < 1" "x < r + 1" by (simp_all add: q_def field_simps)
  show "0 \<le> x" using x(1) pos e(1) by (smt (verit) mult_pos_pos)
qed

lemma dbl_div_accurate:
  assumes "0 < r" and "0 < m"
  obtains u e where "dbl_div (Fin r 0) (Fin m 0) = Fin u e" "0 \<le> u"
    "\<bar>dbl_val (Fin u e) - real_of_int r / real_of_int m\<bar> \<le> real_of_int r / real_of_int m / 2 ^ 53"
proof -
  from round53_accurate [of "nat r" "nat m" False] assms
  obtain u e where "round53 False (nat r) (nat m) = Fin (int u) e"
    "\<bar>real u * 2 powi e - real (nat r) / real (nat m)\<bar> \<le> real (nat r) / real (nat m) / 2 ^ 53"
    by auto
  with assms show thesis by (intro that [of "int u" e]) simp_all
qed

lemma dbl_sub_accurate:
  assumes "k < m"
  obtains s e where "dbl_sub (Fin m 0) (Fin k 0) = Fin s e" "0 \<le> s"
    "\<bar>dbl_val (Fin s e) - real_of_int (m - k)\<bar> \<le> real_of_int (m - k) / 2 ^ 53"
proof -
  from round53_accurate [of "nat (m - k)" 1 False] assms
  obtain s e where "round53 False (nat (m - k)) 1 = Fin (int s) e"
    "\<bar>real s * 2 powi e - real (nat (m - k))\<bar> \<le> real (nat (m - k)) / 2 ^ 53"
    by auto
  with assms show thesis by (intro that [of "int s" e]) (simp_all add: dbl_sub_def)
qed

lemma close_pos: "\<bar>a - q\<bar> \<le> q / 2 ^ 53 \<Longrightarrow> 0 < q \<Longrightarrow> 0 < a"
  for a q :: real
proof -
  assume "\<bar>a - q\<bar> \<le> q / 2 ^ 53" and "0 < q"
  moreover from this have "q / 2 ^ 53 < q" by simp
  ultimately show "0 < a" by linarith
qed

lemma dbl_mult_accurate:
  assumes "0 \<le> u" and "0 \<le> s" and "0 < dbl_val (Fin u e) * dbl_val (Fin s f)"
  obtains x g where "dbl_mult (Fin u e) (Fin s f) = Fin x g" "0 \<le> x"
    "\<bar>dbl_val (Fin x g) - dbl_val (Fin u e) * dbl_val (Fin s f)\<bar> \<le> dbl_val (Fin u e) * dbl_val (Fin s f) / 2 ^ 53"
proof -
  have "u \<noteq> 0" "s \<noteq> 0" using assms(3) by auto
  with assms(1,2) have us: "0 < u * s" by simp
  let ?n = "nat (u * s) * 2 ^ nat (e + f)" and ?d = "2 ^ nat (- (e + f)) :: nat"
  have val: "real ?n / real ?d = dbl_val (Fin u e) * dbl_val (Fin s f)"
    using scaled_val [of "nat (u * s)" "e + f"] us by (simp add: power_int_add)
  have "0 < ?n" "0 < ?d" using us by simp_all
  from round53_accurate [OF this, of False, unfolded val]
  obtain m g where m: "round53 False ?n ?d = Fin (int m) g"
    "\<bar>real m * 2 powi g - dbl_val (Fin u e) * dbl_val (Fin s f)\<bar> \<le> dbl_val (Fin u e) * dbl_val (Fin s f) / 2 ^ 53"
    by auto
  have "dbl_mult (Fin u e) (Fin s f) = Fin (int m) g"
    using m(1) us assms(1,2) by simp
  moreover have "dbl_val (Fin (int m) g) = real m * 2 powi g" by simp
  ultimately show thesis using m(2) by (intro that [of "int m" g]) (simp_all only: of_nat_0_le_iff)
qed

end
