(* ===== verification/Json_Value.thy ===== *)
theory Json_Value
  imports Doubles
begin

text \<open>
  JSON values, \<open>json_spirit_v4.06/json_spirit/json_spirit_value.h\<close>: the variant with its
  alternatives in the order of the source, the type of a value, and the accessors that check
  the type and throw \<open>runtime_error\<close>.  An object is a vector of pairs, so names may repeat.
  Integers are held at 64 bits, signed (\<open>Int64\<close>) or unsigned (\<open>Uint64\<close>).
\<close>

datatype jvalue =
    Obj "(string \<times> jvalue) list"
  | Arr "jvalue list"
  | Str string
  | Bool bool
  | Int64 "64 word"
  | Real dbl
  | Null
  | Uint64 "64 word"

datatype value_type = obj_type | array_type | str_type | bool_type | int_type | real_type | null_type

type_synonym members = "(string \<times> jvalue) list"

fun is_uint64 :: "jvalue \<Rightarrow> bool" where
  "is_uint64 (Uint64 _) = True"
| "is_uint64 _ = False"

fun vtype :: "jvalue \<Rightarrow> value_type" where
  "vtype (Obj _) = obj_type"
| "vtype (Arr _) = array_type"
| "vtype (Str _) = str_type"
| "vtype (Bool _) = bool_type"
| "vtype (Int64 _) = int_type"
| "vtype (Real _) = real_type"
| "vtype Null = null_type"
| "vtype (Uint64 _) = int_type"

definition is_null :: "jvalue \<Rightarrow> bool" where
  "is_null v \<longleftrightarrow> vtype v = null_type"

fun value_type_to_string :: "value_type \<Rightarrow> string" where
  "value_type_to_string obj_type = ''Object''"
| "value_type_to_string array_type = ''Array''"
| "value_type_to_string str_type = ''string''"
| "value_type_to_string bool_type = ''boolean''"
| "value_type_to_string int_type = ''integer''"
| "value_type_to_string real_type = ''real''"
| "value_type_to_string null_type = ''null''"

definition check_type :: "jvalue \<Rightarrow> value_type \<Rightarrow> unit res" where
  "check_type v t =
     (if vtype v \<noteq> t
      then Inl (Runtime_error (''get_value< '' @ value_type_to_string t @ '' > called on ''
                               @ value_type_to_string (vtype v) @ '' Value''))
      else Inr ())"

text \<open>The accessors.  After \<open>check_type\<close> the alternative is known; the last equation of each
  is the dereferenced null pointer of \<open>boost::get\<close> that the check rules out.\<close>

fun the_str :: "jvalue \<Rightarrow> string res" where
  "the_str (Str s) = Inr s"
| "the_str _ = Inl (Undefined ''boost::get'')"

fun the_obj :: "jvalue \<Rightarrow> members res" where
  "the_obj (Obj o1) = Inr o1"
| "the_obj _ = Inl (Undefined ''boost::get'')"

fun the_arr :: "jvalue \<Rightarrow> jvalue list res" where
  "the_arr (Arr a) = Inr a"
| "the_arr _ = Inl (Undefined ''boost::get'')"

fun the_bool :: "jvalue \<Rightarrow> bool res" where
  "the_bool (Bool b) = Inr b"
| "the_bool _ = Inl (Undefined ''boost::get'')"

fun the_int64 :: "jvalue \<Rightarrow> 64 word res" where
  "the_int64 (Int64 i) = Inr i"
| "the_int64 _ = Inl (Undefined ''boost::get'')"

fun the_uint64 :: "jvalue \<Rightarrow> 64 word res" where
  "the_uint64 (Uint64 i) = Inr i"
| "the_uint64 _ = Inl (Undefined ''boost::get'')"

fun the_real :: "jvalue \<Rightarrow> dbl res" where
  "the_real (Real d) = Inr d"
| "the_real _ = Inl (Undefined ''boost::get'')"

definition get_str :: "jvalue \<Rightarrow> string res" where
  "get_str v = rbind (check_type v str_type) (\<lambda>_. the_str v)"

definition get_obj :: "jvalue \<Rightarrow> members res" where
  "get_obj v = rbind (check_type v obj_type) (\<lambda>_. the_obj v)"

definition get_array :: "jvalue \<Rightarrow> jvalue list res" where
  "get_array v = rbind (check_type v array_type) (\<lambda>_. the_arr v)"

definition get_bool :: "jvalue \<Rightarrow> bool res" where
  "get_bool v = rbind (check_type v bool_type) (\<lambda>_. the_bool v)"

text \<open>The 64-bit pattern of an integer value; the two casts between \<open>int64_t\<close> and
  \<open>uint64_t\<close> keep the pattern.\<close>

definition get_uint64 :: "jvalue \<Rightarrow> 64 word res" where
  "get_uint64 v =
     rbind (check_type v int_type) (\<lambda>_. if \<not> is_uint64 v then the_int64 v else the_uint64 v)"

definition get_int64 :: "jvalue \<Rightarrow> 64 word res" where
  "get_int64 v =
     rbind (check_type v int_type) (\<lambda>_. if is_uint64 v then get_uint64 v else the_int64 v)"

text \<open>\<open>static_cast<int>\<close> keeps the low 32 bits.\<close>

definition get_int :: "jvalue \<Rightarrow> int res" where
  "get_int v =
     rbind (check_type v int_type) (\<lambda>_. rmap (\<lambda>w. sint (ucast w :: 32 word)) (get_int64 v))"

definition get_real :: "jvalue \<Rightarrow> dbl res" where
  "get_real v =
     (if vtype v = int_type
      then if is_uint64 v then rmap (\<lambda>w. dbl_of_int (uint w)) (get_uint64 v)
           else rmap (\<lambda>w. dbl_of_int (sint w)) (get_int64 v)
      else rbind (check_type v real_type) (\<lambda>_. the_real v))"

text \<open>\<open>Value(int)\<close>: the sign is extended to 64 bits.\<close>

definition Value_of_int :: "int \<Rightarrow> jvalue" where
  "Value_of_int i = Int64 (word_of_int i)"

section \<open>Facts\<close>

lemmas accessor_defs = get_str_def get_obj_def get_array_def get_bool_def get_int_def
  get_int64_def get_uint64_def get_real_def check_type_def

lemma vtype_cases:
  "vtype v = obj_type \<longleftrightarrow> (\<exists>ms. v = Obj ms)"
  "vtype v = array_type \<longleftrightarrow> (\<exists>vs. v = Arr vs)"
  "vtype v = str_type \<longleftrightarrow> (\<exists>s. v = Str s)"
  "vtype v = bool_type \<longleftrightarrow> (\<exists>b. v = Bool b)"
  "vtype v = int_type \<longleftrightarrow> (\<exists>w. v = Int64 w \<or> v = Uint64 w)"
  "vtype v = real_type \<longleftrightarrow> (\<exists>d. v = Real d)"
  "vtype v = null_type \<longleftrightarrow> v = Null"
  by (cases v; simp)+

lemma get_obj_simps [simp]:
  "get_obj (Obj ms) = Inr ms"
  "get_obj v = Inr ms \<longleftrightarrow> v = Obj ms"
  by (simp add: accessor_defs) (cases v; simp add: accessor_defs)

lemma get_array_simps [simp]:
  "get_array (Arr vs) = Inr vs"
  "get_array v = Inr vs \<longleftrightarrow> v = Arr vs"
  by (simp add: accessor_defs) (cases v; simp add: accessor_defs)

lemma get_str_simps [simp]:
  "get_str (Str s) = Inr s"
  "get_str v = Inr s \<longleftrightarrow> v = Str s"
  by (simp add: accessor_defs) (cases v; simp add: accessor_defs)

lemma get_bool_simps [simp]:
  "get_bool (Bool b) = Inr b"
  "get_bool v = Inr b \<longleftrightarrow> v = Bool b"
  by (simp add: accessor_defs) (cases v; simp add: accessor_defs)

text \<open>No accessor reaches the null pointer of \<open>boost::get\<close>: the error of an accessor is
  always the \<open>runtime_error\<close> of the type check.\<close>

lemma accessor_error:
  "get_obj v = Inl e \<Longrightarrow> is_runtime_error e"
  "get_array v = Inl e \<Longrightarrow> is_runtime_error e"
  "get_str v = Inl e \<Longrightarrow> is_runtime_error e"
  "get_bool v = Inl e \<Longrightarrow> is_runtime_error e"
  "get_int v = Inl e \<Longrightarrow> is_runtime_error e"
  "get_real v = Inl e \<Longrightarrow> is_runtime_error e"
  by (cases v; auto simp: accessor_defs)+

lemma sint32_range: "in_int32 (sint (w :: 32 word))"
  using sint_range_size [of w] by (auto simp: in_int32_def word_size)

lemma get_int_range: "get_int v = Inr i \<Longrightarrow> in_int32 i"
  by (auto simp: get_int_def res_simps sint32_range)

lemma ucast_word_of_int_64_32: "(ucast (word_of_int i :: 64 word) :: 32 word) = word_of_int i"
  by (rule bit_word_eqI) (simp add: bit_simps)

lemma get_int_of_int: "in_int32 i \<Longrightarrow> get_int (Value_of_int i) = Inr i"
  using to_int32_sint [of i] to_int32_id [of i]
  by (simp add: accessor_defs Value_of_int_def ucast_word_of_int_64_32 del: to_int32_id)

end
