(* ===== verification/Json_Writer.thy ===== *)
theory Json_Writer
  imports Json_Value
begin

unbundle bit_operations_syntax

text \<open>
  The JSON generator, \<open>json_spirit_v4.06/json_spirit/json_spirit_writer_template.h\<close>.  A
  method that writes to the stream returns the text it appends; \<open>indentation_level_\<close> is an
  argument.  \<open>remove_trailing\<close> can throw \<open>out_of_range\<close> (\<open>string::erase\<close> past the end), so
  the text is a result.
\<close>

section \<open>Options\<close>

text \<open>\<open>json_spirit_writer_options.h\<close>.\<close>

definition pretty_print :: "32 word" where "pretty_print = 1"
definition opt_raw_utf8 :: "32 word" where "opt_raw_utf8 = 2"
definition remove_trailing_zeros :: "32 word" where "remove_trailing_zeros = 4"
definition opt_single_line_arrays :: "32 word" where "opt_single_line_arrays = 8"
definition always_escape_nonascii :: "32 word" where "always_escape_nonascii = 16"

record generator =
  g_pretty :: bool
  g_raw_utf8 :: bool
  g_esc_nonascii :: bool
  g_remove_trailing_zeros :: bool
  g_single_line_arrays :: bool

definition Generator :: "32 word \<Rightarrow> generator" where
  "Generator options =
     \<lparr> g_pretty = ((options AND pretty_print) \<noteq> 0 \<or> (options AND opt_single_line_arrays) \<noteq> 0),
       g_raw_utf8 = ((options AND opt_raw_utf8) \<noteq> 0),
       g_esc_nonascii = ((options AND always_escape_nonascii) \<noteq> 0),
       g_remove_trailing_zeros = ((options AND remove_trailing_zeros) \<noteq> 0),
       g_single_line_arrays = ((options AND opt_single_line_arrays) \<noteq> 0) \<rparr>"

section \<open>Strings\<close>

definition to_hex_char :: "nat \<Rightarrow> char" where
  "to_hex_char c = (if c < 10 then char_of (48 + c) else char_of (65 - 10 + c))"

definition non_printable_to_string :: "nat \<Rightarrow> string" where
  "non_printable_to_string c =
     [CHR 0x5C, CHR ''u'',
      to_hex_char (c div 4096 mod 16), to_hex_char (c div 256 mod 16),
      to_hex_char (c div 16 mod 16), to_hex_char (c mod 16)]"

definition add_esc_char :: "char \<Rightarrow> string option" where
  "add_esc_char c =
     (if c = CHR 0x22 then Some [CHR 0x5C, CHR 0x22]
      else if c = CHR 0x5C then Some [CHR 0x5C, CHR 0x5C]
      else if c = CHR 0x08 then Some [CHR 0x5C, CHR ''b'']
      else if c = CHR 0x0C then Some [CHR 0x5C, CHR ''f'']
      else if c = CHR 0x0A then Some [CHR 0x5C, CHR ''n'']
      else if c = CHR 0x0D then Some [CHR 0x5C, CHR ''r'']
      else if c = CHR 0x09 then Some [CHR 0x5C, CHR ''t'']
      else None)"

text \<open>\<open>iswprint\<close> in the C locale, which the program never leaves.\<close>

definition iswprint :: "nat \<Rightarrow> bool" where
  "iswprint c \<longleftrightarrow> 32 \<le> c \<and> c \<le> 126"

definition esc_one :: "bool \<Rightarrow> bool \<Rightarrow> char \<Rightarrow> string" where
  "esc_one raw_utf8 esc_nonascii c =
     (case add_esc_char c of
        Some e \<Rightarrow> e
      | None \<Rightarrow>
          if raw_utf8 then [c]
          else if \<not> esc_nonascii \<and> iswprint (code c) then [c]
          else non_printable_to_string (code c))"

definition add_esc_chars :: "string \<Rightarrow> bool \<Rightarrow> bool \<Rightarrow> string" where
  "add_esc_chars s raw_utf8 esc_nonascii = concat (map (esc_one raw_utf8 esc_nonascii) s)"

section \<open>Doubles\<close>

definition append_double :: "dbl \<Rightarrow> nat \<Rightarrow> string" where
  "append_double d precision = fmt_g True precision d"

definition erase_and_extract_exponent :: "string \<Rightarrow> string \<times> string" where
  "erase_and_extract_exponent str = break_at (\<lambda>c. c = CHR ''e'') str"

fun find_first_non_zero_from :: "string \<Rightarrow> nat \<Rightarrow> nat" where
  "find_first_non_zero_from str 0 = 0"
| "find_first_non_zero_from str (Suc r) =
     (if str ! Suc r \<noteq> CHR ''0'' then Suc r else find_first_non_zero_from str r)"

definition find_first_non_zero :: "string \<Rightarrow> nat" where
  "find_first_non_zero str = find_first_non_zero_from str (length str - 1)"

definition string_erase :: "string \<Rightarrow> nat \<Rightarrow> string res" where
  "string_erase str pos = (if length str < pos then Inl Out_of_range else Inr (take pos str))"

definition remove_trailing :: "string \<Rightarrow> string res" where
  "remove_trailing str0 =
     (let (str, ex) = erase_and_extract_exponent str0
      in if str = [] then Inl (Undefined ''index past the end'')
         else let first_non_zero = find_first_non_zero str
              in if first_non_zero \<noteq> 0
                 then let offset = (if str ! first_non_zero = CHR ''.'' then 2 else 1)
                      in rmap (\<lambda>s. s @ ex) (string_erase str (first_non_zero + offset))
                 else Inr (str @ ex))"

section \<open>The generator\<close>

definition indent :: "generator \<Rightarrow> nat \<Rightarrow> string" where
  "indent g level = (if g_pretty g then concat (replicate level ''    '') else [])"

definition space :: "generator \<Rightarrow> string" where
  "space g = (if g_pretty g then '' '' else [])"

definition new_line :: "generator \<Rightarrow> string" where
  "new_line g = (if g_pretty g then [CHR 0x0A] else [])"

definition output_str :: "generator \<Rightarrow> string \<Rightarrow> string" where
  "output_str g s = CHR 0x22 # add_esc_chars s (g_raw_utf8 g) (g_esc_nonascii g) @ [CHR 0x22]"

definition output_double :: "generator \<Rightarrow> dbl \<Rightarrow> string res" where
  "output_double g d =
     (if g_remove_trailing_zeros g then remove_trailing (append_double d 16)
      else Inr (append_double d 17))"

definition contains_composite_elements :: "jvalue list \<Rightarrow> bool" where
  "contains_composite_elements arr \<longleftrightarrow>
     list_ex (\<lambda>v. vtype v = obj_type \<or> vtype v = array_type) arr"

text \<open>Texts one after the other; the first exception ends the output.\<close>

fun rconcat :: "string res list \<Rightarrow> string res" where
  "rconcat [] = Inr []"
| "rconcat (r # rs) = rbind r (\<lambda>s. rmap (\<lambda>t. s @ t) (rconcat rs))"

fun output_value :: "generator \<Rightarrow> nat \<Rightarrow> jvalue \<Rightarrow> string res"
  and output_members :: "generator \<Rightarrow> nat \<Rightarrow> members \<Rightarrow> string res"
  and output_elements :: "generator \<Rightarrow> nat \<Rightarrow> jvalue list \<Rightarrow> string res"
  and output_single_line :: "generator \<Rightarrow> nat \<Rightarrow> jvalue list \<Rightarrow> string res"
where
  "output_value g level (Obj ms) =
     rconcat [Inr ''{'', Inr (new_line g), output_members g (Suc level) ms,
              Inr (indent g level), Inr ''}'']"
| "output_value g level (Arr vs) =
     (if g_single_line_arrays g \<and> \<not> contains_composite_elements vs
      then rconcat [Inr ''['', Inr (space g), output_single_line g level vs, Inr '']'']
      else rconcat [Inr ''['', Inr (new_line g), output_elements g (Suc level) vs,
                    Inr (indent g level), Inr '']''])"
| "output_value g level (Str s) = Inr (output_str g s)"
| "output_value g level (Bool b) = Inr (if b then ''true'' else ''false'')"
| "output_value g level (Real d) = output_double g d"
| "output_value g level (Int64 w) = Inr (show_int (sint w))"
| "output_value g level (Uint64 w) = Inr (show_nat (unat w))"
| "output_value g level Null = Inr ''null''"
| "output_members g level [] = Inr []"
| "output_members g level ((k, v) # ms) =
     rconcat [Inr (indent g level), Inr (output_str g k), Inr (space g), Inr '':'', Inr (space g),
              output_value g level v, Inr (if ms \<noteq> [] then '','' else []), Inr (new_line g),
              output_members g level ms]"
| "output_elements g level [] = Inr []"
| "output_elements g level (v # vs) =
     rconcat [Inr (indent g level), output_value g level v, Inr (if vs \<noteq> [] then '','' else []),
              Inr (new_line g), output_elements g level vs]"
| "output_single_line g level [] = Inr []"
| "output_single_line g level (v # vs) =
     rconcat [output_value g level v, Inr (if vs \<noteq> [] then '','' else []), Inr (space g),
              output_single_line g level vs]"

definition write_string :: "jvalue \<Rightarrow> 32 word \<Rightarrow> string res" where
  "write_string v options = output_value (Generator options) 0 v"

section \<open>The compact text\<close>

text \<open>
  A reference printer without levels, lines or spaces: the members of an object and the
  elements of an array joined with commas.  Without \<open>pretty_print\<close> the generator's text is
  this text, at every indentation level.
\<close>

fun rseq :: "'a res list \<Rightarrow> 'a list res" where
  "rseq [] = Inr []"
| "rseq (r # rs) = rbind r (\<lambda>x. rmap (\<lambda>xs. x # xs) (rseq rs))"

fun json_text :: "generator \<Rightarrow> jvalue \<Rightarrow> string res" where
  "json_text g (Obj ms) =
     rmap (\<lambda>ts. ''{'' @ join_with CHR '','' ts @ ''}'')
       (rseq (map (\<lambda>(k, v). rmap (\<lambda>t. output_str g k @ '':'' @ t) (json_text g v)) ms))"
| "json_text g (Arr vs) =
     rmap (\<lambda>ts. ''['' @ join_with CHR '','' ts @ '']'') (rseq (map (json_text g) vs))"
| "json_text g (Str s) = Inr (output_str g s)"
| "json_text g (Bool b) = Inr (if b then ''true'' else ''false'')"
| "json_text g (Real d) = output_double g d"
| "json_text g (Int64 w) = Inr (show_int (sint w))"
| "json_text g (Uint64 w) = Inr (show_nat (unat w))"
| "json_text g Null = Inr ''null''"

lemma rseq_join_Cons:
  "rmap (join_with sep) (rseq (r # rs)) =
     rbind r (\<lambda>s. rmap (\<lambda>t. s @ (if rs \<noteq> [] then [sep] else []) @ t)
                     (rmap (join_with sep) (rseq rs)))"
proof (cases rs)
  case (Cons r' rs')
  then show ?thesis by (cases r; cases r'; cases "rseq rs'") auto
qed (cases r, auto)

lemma output_not_pretty:
  assumes "\<not> g_pretty g" and "\<not> g_single_line_arrays g"
  shows "output_value g l v = json_text g v"
    and "output_members g l ms =
      rmap (join_with CHR '','')
        (rseq (map (\<lambda>(k, v). rmap (\<lambda>t. output_str g k @ '':'' @ t) (json_text g v)) ms))"
    and "output_elements g l vs = rmap (join_with CHR '','') (rseq (map (json_text g) vs))"
    and "output_single_line g l vs = output_single_line g l vs"
  using assms
proof (induction g l v and g l ms and g l vs and g l vs
    rule: output_value_output_members_output_elements_output_single_line.induct)
  case (1 g level ms)
  then show ?case
    by (cases "rseq (map (\<lambda>(k, v). rmap (\<lambda>t. output_str g k @ '':'' @ t) (json_text g v)) ms)")
      (auto simp: new_line_def indent_def)
next
  case (2 g level vs)
  then show ?case
    by (cases "rseq (map (json_text g) vs)") (auto simp: new_line_def indent_def)
next
  case (10 g level k v ms)
  then show ?case
    by (cases "json_text g v")
      (auto simp: rseq_join_Cons new_line_def indent_def space_def simp del: rseq.simps(2))
next
  case (12 g level v vs)
  then show ?case
    by (cases "json_text g v")
      (auto simp: rseq_join_Cons new_line_def indent_def simp del: rseq.simps(2))
qed auto

section \<open>Removing trailing zeros\<close>

lemma find_first_non_zero_from_zeros:
  assumes "\<And>k. i < k \<Longrightarrow> k \<le> i + j \<Longrightarrow> t ! k = CHR ''0''" and "t ! i \<noteq> CHR ''0''"
  shows "find_first_non_zero_from t (i + j) = i"
  using assms by (induction j) (cases i, auto)

lemma find_first_non_zero_strip:
  assumes "s \<noteq> []" and "last s \<noteq> CHR ''0''"
  shows "find_first_non_zero (s @ replicate n CHR ''0'') = length s - 1"
proof -
  have "(s @ replicate n CHR ''0'') ! k = CHR ''0''"
    if "length s - 1 < k" "k \<le> length s - 1 + n" for k
    using that assms by (cases s) (auto simp: nth_append)
  then have "find_first_non_zero_from (s @ replicate n CHR ''0'') (length s - 1 + n) = length s - 1"
    by (rule find_first_non_zero_from_zeros) (use assms in \<open>auto simp: last_conv_nth nth_append\<close>)
  moreover have "length (s @ replicate n CHR ''0'') - 1 = length s - 1 + n"
    using assms(1) by (cases s) auto
  ultimately show ?thesis by (simp add: find_first_non_zero_def)
qed

text \<open>A mantissa whose last significant digit follows the point keeps that digit; one with
  only zeros after the point keeps one zero.\<close>

lemma remove_trailing_fraction:
  assumes "CHR ''e'' \<notin> set (a @ f)" and "f \<noteq> []" and "last f \<noteq> CHR ''0''" and "last f \<noteq> CHR ''.''"
    and "a \<noteq> []"
  shows "remove_trailing (a @ CHR ''.'' # f @ replicate n CHR ''0'') = Inr (a @ CHR ''.'' # f)"
proof -
  let ?s = "a @ CHR ''.'' # f"
  have "find_first_non_zero (?s @ replicate n CHR ''0'') = length ?s - 1"
    by (rule find_first_non_zero_strip) (use assms in auto)
  moreover have "break_at (\<lambda>c. c = CHR ''e'') (?s @ replicate n CHR ''0'')
      = (?s @ replicate n CHR ''0'', [])"
    using assms(1) by (auto simp: break_at_def takeWhile_eq_all_conv dropWhile_eq_Nil_conv)
  moreover have "(?s @ replicate n CHR ''0'') ! (length ?s - 1) = last f"
    using assms by (auto simp: nth_append last_conv_nth nth_Cons')
  ultimately show ?thesis
    using assms
    by (auto simp: remove_trailing_def erase_and_extract_exponent_def string_erase_def Let_def)
qed

lemma remove_trailing_integral:
  assumes "CHR ''e'' \<notin> set a" and "a \<noteq> []"
  shows "remove_trailing (a @ CHR ''.'' # replicate (Suc n) CHR ''0'') = Inr (a @ ''.0'')"
proof -
  let ?s = "a @ ''.''"
  have "find_first_non_zero (?s @ replicate (Suc n) CHR ''0'') = length ?s - 1"
    by (rule find_first_non_zero_strip) auto
  moreover have "break_at (\<lambda>c. c = CHR ''e'') (?s @ replicate (Suc n) CHR ''0'')
      = (?s @ replicate (Suc n) CHR ''0'', [])"
    using assms(1) by (auto simp: break_at_def takeWhile_eq_all_conv dropWhile_eq_Nil_conv)
  ultimately show ?thesis
    using assms
    by (auto simp: remove_trailing_def erase_and_extract_exponent_def string_erase_def Let_def)
qed

text \<open>A mantissa that ends in the point, which \<open>showpoint\<close> prints for 16 digits before it,
  makes \<open>erase\<close> throw.\<close>

lemma remove_trailing_bare_point:
  assumes "CHR ''e'' \<notin> set a" and "a \<noteq> []"
  shows "remove_trailing (a @ ''.'') = Inl Out_of_range"
proof -
  have "find_first_non_zero ((a @ ''.'') @ replicate 0 CHR ''0'') = length (a @ ''.'') - 1"
    by (rule find_first_non_zero_strip) auto
  moreover have "break_at (\<lambda>c. c = CHR ''e'') (a @ ''.'') = (a @ ''.'', [])"
    using assms(1) by (auto simp: break_at_def takeWhile_eq_all_conv dropWhile_eq_Nil_conv)
  ultimately show ?thesis
    using assms
    by (auto simp: remove_trailing_def erase_and_extract_exponent_def string_erase_def Let_def)
qed

end
