(* ===== verification/Json_Strings.thy ===== *)
theory Json_Strings
  imports Json_Writer
begin

text \<open>
  The reader's treatment of string literals,
  \<open>json_spirit_v4.06/json_spirit/json_spirit_reader_template.h\<close>: the quotes are dropped and
  escape sequences substituted.  An iterator into the literal is the list of the characters
  from it on.  The main fact is the round trip with the writer: what \<open>output_str\<close> writes for
  a string of bytes, \<open>get_str_literal\<close> reads back.
\<close>

definition hex_to_num :: "char \<Rightarrow> nat" where
  "hex_to_num c =
     (if 48 \<le> code c \<and> code c \<le> 57 then code c - 48
      else if 97 \<le> code c \<and> code c \<le> 102 then code c - 97 + 10
      else if 65 \<le> code c \<and> code c \<le> 70 then code c - 65 + 10
      else 0)"

text \<open>The sums are stored in a \<open>char\<close>, which keeps the low eight bits; \<open>char_of\<close> does the
  same.\<close>

definition hex_str_to_char :: "char \<Rightarrow> char \<Rightarrow> char" where
  "hex_str_to_char c1 c2 = char_of (hex_to_num c1 * 16 + hex_to_num c2)"

definition unicode_str_to_char :: "char \<Rightarrow> char \<Rightarrow> char \<Rightarrow> char \<Rightarrow> char" where
  "unicode_str_to_char c1 c2 c3 c4 =
     char_of (hex_to_num c1 * 4096 + hex_to_num c2 * 256 + hex_to_num c3 * 16 + hex_to_num c4)"

text \<open>\<open>append_esc_char_and_incr_iter\<close>: for the characters from the one after the backslash
  on, the text appended and the number of characters used up.\<close>

fun append_esc_char :: "string \<Rightarrow> string \<times> nat" where
  "append_esc_char [] = ([], 0)"
| "append_esc_char (c2 # rest) =
     (if c2 = CHR ''t'' then ([CHR 0x09], 1)
      else if c2 = CHR ''b'' then ([CHR 0x08], 1)
      else if c2 = CHR ''f'' then ([CHR 0x0C], 1)
      else if c2 = CHR ''n'' then ([CHR 0x0A], 1)
      else if c2 = CHR ''r'' then ([CHR 0x0D], 1)
      else if c2 = CHR 0x5C then ([CHR 0x5C], 1)
      else if c2 = CHR ''/'' then (''/'', 1)
      else if c2 = CHR 0x22 then ([CHR 0x22], 1)
      else if c2 = CHR ''x'' then
        (case rest of h1 # h2 # _ \<Rightarrow> ([hex_str_to_char h1 h2], 3) | _ \<Rightarrow> ([], 1))
      else if c2 = CHR ''u'' then
        (case rest of h1 # h2 # h3 # h4 # _ \<Rightarrow> ([unicode_str_to_char h1 h2 h3 h4], 5)
         | _ \<Rightarrow> ([], 1))
      else ([], 1))"

text \<open>\<open>substitute_esc_chars\<close>: a backslash in the last position is not looked at.\<close>

function substitute_esc_chars :: "string \<Rightarrow> string" where
  "substitute_esc_chars [] = []"
| "substitute_esc_chars [c] = [c]"
| "substitute_esc_chars (c # d # rest) =
     (if c = CHR 0x5C
      then let (out, used) = append_esc_char (d # rest)
           in out @ substitute_esc_chars (drop used (d # rest))
      else c # substitute_esc_chars (d # rest))"
  by pat_completeness auto
termination
  by (relation "measure length") auto

definition get_str_literal :: "string \<Rightarrow> string" where
  "get_str_literal lit = substitute_esc_chars (butlast (tl lit))"

section \<open>Round trip\<close>

lemma hex_to_num_to_hex_char [simp]: "n < 16 \<Longrightarrow> hex_to_num (to_hex_char n) = n"
  by (auto simp: hex_to_num_def to_hex_char_def)

lemma unicode_of_non_printable:
  "unicode_str_to_char (to_hex_char (code c div 4096 mod 16)) (to_hex_char (code c div 256 mod 16))
     (to_hex_char (code c div 16 mod 16)) (to_hex_char (code c mod 16)) = c"
proof -
  obtain n where n: "code c = n" "n < 256" using code_less_256 [of c] by blast
  then have "n div 4096 = 0" "n div 256 = 0" "n div 16 < 16" by auto
  moreover have "char_of n = c" using n(1) by (metis char_of_char)
  ultimately show ?thesis
    by (simp add: unicode_str_to_char_def n(1))
qed

lemma substitute_esc_one:
  "substitute_esc_chars (esc_one False esc c @ rest) = c # substitute_esc_chars rest"
proof (cases "add_esc_char c")
  case None
  then have c: "c \<noteq> CHR 0x5C" by (auto simp: add_esc_char_def)
  show ?thesis
  proof (cases "\<not> esc \<and> iswprint (code c)")
    case True
    with None c show ?thesis by (cases rest) (simp_all add: esc_one_def)
  next
    case False
    with None have "esc_one False esc c = non_printable_to_string (code c)"
      by (auto simp: esc_one_def)
    then show ?thesis
      using unicode_of_non_printable [of c] by (simp add: non_printable_to_string_def)
  qed
next
  case (Some e)
  then show ?thesis
    by (auto simp: esc_one_def add_esc_char_def split: if_splits)
qed

lemma substitute_add_esc_chars:
  "substitute_esc_chars (add_esc_chars s False esc) = s"
  by (induction s) (simp_all add: add_esc_chars_def substitute_esc_one)

lemma get_str_literal_output_str:
  "\<not> g_raw_utf8 g \<Longrightarrow> get_str_literal (output_str g s) = s"
  by (simp add: get_str_literal_def output_str_def substitute_add_esc_chars butlast_append)

end
