(* ===== verification/Json_Object.thy ===== *)
theory Json_Object
  imports Json_Strings
begin

text \<open>
  \<open>config/JsonObject.cpp\<close>, \<open>config/JsonArray.cpp\<close> and \<open>config/JsonNamePredicate.cpp\<close>.  A
  \<open>JsonObject\<close> is its field \<open>_value\<close>, a \<open>JsonArray\<close> its field \<open>_array\<close>; a method that
  changes the object returns the new one.  An iterator is what it points to: a pair of an
  object, an element of an array.

  The locale \<open>keyed_store\<close> is the interface the rest of the program uses an object through:
  \<open>has\<close>, \<open>get\<close> and \<open>set\<close> of a name.
\<close>

type_synonym JsonObject = jvalue
type_synonym JsonArray = "jvalue list"

section \<open>The static operations on the pairs of an object\<close>

fun obj_has :: "members \<Rightarrow> string \<Rightarrow> bool" where
  "obj_has [] key = False"
| "obj_has ((n, v) # o1) key = (if key = n then True else obj_has o1 key)"

lemma obj_has_Cons [simp]: "obj_has ((n, v) # o1) key \<longleftrightarrow> key = n \<or> obj_has o1 key"
  by simp

declare obj_has.simps(2) [simp del]

fun obj_get :: "members \<Rightarrow> string \<Rightarrow> jvalue" where
  "obj_get [] name = Null"
| "obj_get ((n, v) # o1) name = (if name = n then v else obj_get o1 name)"

text \<open>\<open>set\<close> does not stop at the first match and adds nothing.\<close>

fun obj_set :: "members \<Rightarrow> string \<Rightarrow> jvalue \<Rightarrow> members" where
  "obj_set [] name v = []"
| "obj_set ((n, w) # o1) name v = (n, if name = n then v else w) # obj_set o1 name v"

section \<open>JsonObject\<close>

definition JsonObject_isObject :: "JsonObject \<Rightarrow> bool" where
  "JsonObject_isObject j \<longleftrightarrow> vtype j = obj_type"

definition JsonObject_isArray :: "JsonObject \<Rightarrow> bool" where
  "JsonObject_isArray j \<longleftrightarrow> vtype j = array_type"

definition JsonObject_asArray :: "JsonObject \<Rightarrow> JsonArray res" where
  "JsonObject_asArray j = get_array j"

definition JsonObject_empty :: "JsonObject \<Rightarrow> bool" where
  "JsonObject_empty j \<longleftrightarrow> vtype j = null_type"

text \<open>\<open>pretty_print || remove_trailing_zeros\<close> is the logical or of two non-zero numbers, so the
  options are the number 1.\<close>

definition logical_or :: "32 word \<Rightarrow> 32 word \<Rightarrow> 32 word" where
  "logical_or a b = (if a \<noteq> 0 \<or> b \<noteq> 0 then 1 else 0)"

definition JsonObject_write :: "JsonObject \<Rightarrow> bool \<Rightarrow> string res" where
  "JsonObject_write j pp =
     (if vtype j = null_type then Inr ''{}''
      else if pp then write_string j (logical_or pretty_print remove_trailing_zeros)
      else write_string j remove_trailing_zeros)"

definition JsonObject_getChild :: "JsonObject \<Rightarrow> string \<Rightarrow> JsonObject res" where
  "JsonObject_getChild j key = rmap (\<lambda>o1. obj_get o1 key) (get_obj j)"

definition JsonObject_getChildAsString :: "JsonObject \<Rightarrow> string \<Rightarrow> string res" where
  "JsonObject_getChildAsString j key =
     rbind (JsonObject_getChild j key) (\<lambda>c. JsonObject_write c False)"

definition JsonObject_has :: "JsonObject \<Rightarrow> string \<Rightarrow> bool res" where
  "JsonObject_has j key = rmap (\<lambda>o1. obj_has o1 key) (get_obj j)"

definition JsonObject_set :: "JsonObject \<Rightarrow> string \<Rightarrow> jvalue \<Rightarrow> JsonObject res" where
  "JsonObject_set j name v = rmap (\<lambda>o1. Obj (obj_set o1 name v)) (get_obj j)"

definition JsonObject_setString :: "JsonObject \<Rightarrow> string \<Rightarrow> string \<Rightarrow> JsonObject res" where
  "JsonObject_setString j key s = JsonObject_set j key (Str s)"

definition JsonObject_setInt :: "JsonObject \<Rightarrow> string \<Rightarrow> int \<Rightarrow> JsonObject res" where
  "JsonObject_setInt j key n = JsonObject_set j key (Value_of_int n)"

definition JsonObject_setBool :: "JsonObject \<Rightarrow> string \<Rightarrow> bool \<Rightarrow> JsonObject res" where
  "JsonObject_setBool j key n = JsonObject_set j key (Bool n)"

definition JsonObject_replace :: "JsonObject \<Rightarrow> string \<Rightarrow> JsonObject \<Rightarrow> JsonObject res" where
  "JsonObject_replace j name o1 = JsonObject_set j name o1"

definition JsonObject_getString :: "JsonObject \<Rightarrow> string \<Rightarrow> string res" where
  "JsonObject_getString j key = rbind (get_obj j) (\<lambda>o1. get_str (obj_get o1 key))"

definition JsonObject_isDouble :: "JsonObject \<Rightarrow> string \<Rightarrow> bool res" where
  "JsonObject_isDouble j key = rmap (\<lambda>o1. vtype (obj_get o1 key) = real_type) (get_obj j)"

definition JsonObject_getDouble :: "JsonObject \<Rightarrow> string \<Rightarrow> dbl res" where
  "JsonObject_getDouble j key = rbind (get_obj j) (\<lambda>o1. get_real (obj_get o1 key))"

text \<open>The switch that \<open>getAsString\<close> and \<open>getValueString\<close> share.\<close>

definition value_as_string :: "jvalue \<Rightarrow> string res" where
  "value_as_string v =
     (case vtype v of
        str_type \<Rightarrow> get_str v
      | int_type \<Rightarrow> rmap show_int (get_int v)
      | bool_type \<Rightarrow> rmap (\<lambda>b. if b then ''1'' else ''0'') (get_bool v)
      | real_type \<Rightarrow> rmap lexical_cast_double (get_real v)
      | _ \<Rightarrow> Inr ''?'')"

definition JsonObject_getAsString :: "JsonObject \<Rightarrow> string \<Rightarrow> string res" where
  "JsonObject_getAsString j key = rbind (get_obj j) (\<lambda>o1. value_as_string (obj_get o1 key))"

definition JsonObject_getInt :: "JsonObject \<Rightarrow> string \<Rightarrow> int \<Rightarrow> int res" where
  "JsonObject_getInt j key def =
     rbind (get_obj j)
       (\<lambda>o1. let v = obj_get o1 key in if vtype v = int_type then get_int v else Inr def)"

definition JsonObject_getBool :: "JsonObject \<Rightarrow> string \<Rightarrow> bool res" where
  "JsonObject_getBool j key =
     rbind (get_obj j)
       (\<lambda>o1. let v = obj_get o1 key in if vtype v = bool_type then get_bool v else Inr False)"

definition JsonObject_getArray :: "JsonObject \<Rightarrow> string \<Rightarrow> JsonArray res" where
  "JsonObject_getArray j key =
     rbind (get_obj j)
       (\<lambda>o1. let v = obj_get o1 key in if vtype v = array_type then get_array v else Inr [])"

text \<open>The five overloads of \<open>add\<close>: a value that is not an object becomes an empty one first.\<close>

definition JsonObject_add :: "JsonObject \<Rightarrow> string \<Rightarrow> jvalue \<Rightarrow> JsonObject" where
  "JsonObject_add j name v =
     (let j' = (if vtype j \<noteq> obj_type then Obj [] else j)
      in case j' of Obj o1 \<Rightarrow> Obj (o1 @ [(name, v)]) | _ \<Rightarrow> j')"

definition JsonObject_add_string :: "JsonObject \<Rightarrow> string \<Rightarrow> string \<Rightarrow> JsonObject" where
  "JsonObject_add_string j name s = JsonObject_add j name (Str s)"

definition JsonObject_add_int :: "JsonObject \<Rightarrow> string \<Rightarrow> int \<Rightarrow> JsonObject" where
  "JsonObject_add_int j name n = JsonObject_add j name (Value_of_int n)"

definition JsonObject_add_double :: "JsonObject \<Rightarrow> string \<Rightarrow> dbl \<Rightarrow> JsonObject" where
  "JsonObject_add_double j name n = JsonObject_add j name (Real n)"

definition JsonObject_add_object :: "JsonObject \<Rightarrow> string \<Rightarrow> JsonObject \<Rightarrow> JsonObject" where
  "JsonObject_add_object j name o1 = JsonObject_add j name o1"

definition JsonObject_add_array :: "JsonObject \<Rightarrow> string \<Rightarrow> JsonArray \<Rightarrow> JsonObject" where
  "JsonObject_add_array j name a = JsonObject_add j name (Arr a)"

text \<open>Iteration: \<open>begin()\<close> to \<open>end()\<close> are the pairs, and the operations on an iterator.\<close>

definition JsonObject_iter :: "JsonObject \<Rightarrow> members res" where
  "JsonObject_iter j = get_obj j"

definition JsonObject_getKey :: "string \<times> jvalue \<Rightarrow> string" where
  "JsonObject_getKey it = fst it"

definition JsonObject_getValue :: "string \<times> jvalue \<Rightarrow> JsonObject" where
  "JsonObject_getValue it = snd it"

definition JsonObject_isValueArray :: "string \<times> jvalue \<Rightarrow> bool" where
  "JsonObject_isValueArray it \<longleftrightarrow> vtype (snd it) = array_type"

definition JsonObject_getValueArray :: "string \<times> jvalue \<Rightarrow> JsonArray res" where
  "JsonObject_getValueArray it = get_array (snd it)"

definition JsonObject_getValueString :: "string \<times> jvalue \<Rightarrow> string res" where
  "JsonObject_getValueString it = value_as_string (snd it)"

definition JsonObject_isValueDouble :: "string \<times> jvalue \<Rightarrow> bool" where
  "JsonObject_isValueDouble it \<longleftrightarrow> vtype (snd it) = real_type"

definition JsonObject_getValueDouble :: "string \<times> jvalue \<Rightarrow> dbl res" where
  "JsonObject_getValueDouble it = get_real (snd it)"

text \<open>\<open>JsonObject::read\<close> over the JSON reader, which is an argument here: for a text and the
  old value it says whether the text parsed and what it left in the value (a failed parse
  leaves what it had built).\<close>

type_synonym json_reader = "string \<Rightarrow> jvalue \<Rightarrow> bool \<times> jvalue"

definition JsonObject_read :: "json_reader \<Rightarrow> JsonObject \<Rightarrow> string \<Rightarrow> bool \<times> JsonObject" where
  "JsonObject_read reader j s =
     (let (parsed, v) = reader s j in if \<not> parsed then (False, v) else (True, v))"

section \<open>JsonArray\<close>

definition JsonArray_has :: "jvalue \<Rightarrow> string \<Rightarrow> bool res" where
  "JsonArray_has it name = rmap (\<lambda>o1. obj_has o1 name) (get_obj it)"

definition JsonArray_getInt :: "jvalue \<Rightarrow> string \<Rightarrow> int res" where
  "JsonArray_getInt it name =
     rbind (get_obj it)
       (\<lambda>o1. let v = obj_get o1 name in if vtype v = null_type then Inr 0 else get_int v)"

definition JsonArray_getString :: "jvalue \<Rightarrow> string \<Rightarrow> string res" where
  "JsonArray_getString it name =
     rbind (get_obj it)
       (\<lambda>o1. let v = obj_get o1 name in if vtype v = null_type then Inr [] else get_str v)"

definition JsonArray_getChildAsString :: "jvalue \<Rightarrow> string \<Rightarrow> string res" where
  "JsonArray_getChildAsString it name =
     rbind (get_obj it) (\<lambda>o1. JsonObject_write (obj_get o1 name) False)"

definition JsonArray_getValue :: "jvalue \<Rightarrow> JsonObject" where
  "JsonArray_getValue it = it"

definition JsonArray_add_object :: "JsonArray \<Rightarrow> JsonObject \<Rightarrow> JsonArray" where
  "JsonArray_add_object a o1 = a @ [o1]"

definition JsonArray_add_string :: "JsonArray \<Rightarrow> string \<Rightarrow> JsonArray" where
  "JsonArray_add_string a s = a @ [Str s]"

definition JsonArray_getValue_at :: "JsonArray \<Rightarrow> int \<Rightarrow> JsonObject res" where
  "JsonArray_getValue_at a i =
     (if 0 \<le> i \<and> i < int (length a) then Inr (a ! nat i)
      else Inl (Undefined ''index past the end''))"

definition JsonArray_size :: "JsonArray \<Rightarrow> int" where
  "JsonArray_size a = to_int32 (int (length a))"

section \<open>Searching\<close>

text \<open>\<open>JsonNamePredicate::match\<close>; a predicate may throw.\<close>

definition JsonNamePredicate_match :: "string \<Rightarrow> JsonObject \<Rightarrow> bool res" where
  "JsonNamePredicate_match name obj =
     (if \<not> JsonObject_isObject obj then Inr False
      else rmap (\<lambda>s. s = name) (JsonObject_getString obj ''name''))"

text \<open>The inner and the outer loop of \<open>findObj\<close>; \<open>None\<close> is a loop that ran to its end.\<close>

fun findObj_array :: "(JsonObject \<Rightarrow> bool res) \<Rightarrow> JsonArray \<Rightarrow> JsonObject option res" where
  "findObj_array pred [] = Inr None"
| "findObj_array pred (j # a) =
     rbind (pred (JsonArray_getValue j))
       (\<lambda>m. if m then Inr (Some (JsonArray_getValue j)) else findObj_array pred a)"

fun findObj_members :: "(JsonObject \<Rightarrow> bool res) \<Rightarrow> members \<Rightarrow> JsonObject res" where
  "findObj_members pred [] = Inr Null"
| "findObj_members pred (i # ms) =
     (if JsonObject_isValueArray i
      then rbind (JsonObject_getValueArray i)
             (\<lambda>a. rbind (findObj_array pred a)
               (\<lambda>r. case r of Some o1 \<Rightarrow> Inr o1 | None \<Rightarrow> findObj_members pred ms))
      else let o1 = JsonObject_getValue i
           in rbind (pred o1) (\<lambda>m. if m then Inr o1 else findObj_members pred ms))"

definition JsonObject_findObj :: "JsonObject \<Rightarrow> (JsonObject \<Rightarrow> bool res) \<Rightarrow> JsonObject res" where
  "JsonObject_findObj j pred = rbind (JsonObject_iter j) (findObj_members pred)"

section \<open>The interface of an object as a store of named values\<close>

text \<open>
  What a client of an object may rely on: \<open>set\<close> changes the value of a name that is present
  and nothing else, it never makes a name present, and an absent name reads as the default.
\<close>

locale keyed_store =
  fixes has :: "'s \<Rightarrow> 'k \<Rightarrow> bool"
    and get :: "'s \<Rightarrow> 'k \<Rightarrow> 'v"
    and set_at :: "'s \<Rightarrow> 'k \<Rightarrow> 'v \<Rightarrow> 's"
    and absent :: "'v"
  assumes get_set: "get (set_at s k v) k' = (if k' = k \<and> has s k then v else get s k')"
    and has_set: "has (set_at s k v) k' = has s k'"
    and get_absent: "\<not> has s k \<Longrightarrow> get s k = absent"
begin

lemma get_set_same: "has s k \<Longrightarrow> get (set_at s k v) k = v"
  by (simp add: get_set)

lemma get_set_other: "k' \<noteq> k \<Longrightarrow> get (set_at s k v) k' = get s k'"
  by (simp add: get_set)

lemma get_set_missing: "\<not> has s k \<Longrightarrow> get (set_at s k v) k' = get s k'"
  by (simp add: get_set)

lemma has_sets: "has (foldl (\<lambda>s (k, v). set_at s k v) s kvs) k' = has s k'"
proof (induction kvs arbitrary: s)
  case (Cons kv kvs)
  then show ?case by (cases kv) (simp add: has_set)
qed simp

lemma get_sets:
  "get (foldl (\<lambda>s (k, v). set_at s k v) s kvs) k' =
     (if has s k' then (case map_of (rev kvs) k' of Some v \<Rightarrow> v | None \<Rightarrow> get s k') else absent)"
proof (induction kvs rule: rev_induct)
  case Nil
  then show ?case by (simp add: get_absent)
next
  case (snoc kv kvs)
  then show ?case by (cases kv) (auto simp: get_set has_sets)
qed

end

text \<open>A store that can also grow: \<open>add\<close> makes a name present and is hidden by a value that
  was there before.\<close>

locale growing_store = keyed_store has get set_at absent
  for has :: "'s \<Rightarrow> 'k \<Rightarrow> bool" and get :: "'s \<Rightarrow> 'k \<Rightarrow> 'v"
    and set_at :: "'s \<Rightarrow> 'k \<Rightarrow> 'v \<Rightarrow> 's" and absent :: "'v" +
  fixes add :: "'s \<Rightarrow> 'k \<Rightarrow> 'v \<Rightarrow> 's"
  assumes get_add: "get (add s k v) k' = (if k' = k \<and> \<not> has s k then v else get s k')"
    and has_add: "has (add s k v) k' \<longleftrightarrow> k' = k \<or> has s k'"
begin

lemma get_add_shadowed: "has s k \<Longrightarrow> get (add s k v) k' = get s k'"
  by (simp add: get_add)

lemma set_after_add: "\<not> has s k \<Longrightarrow> get (set_at (add s k v) k w) k = w"
  by (simp add: get_set has_add)

lemma has_adds: "has (foldl (\<lambda>s (k, v). add s k v) s kvs) k' \<longleftrightarrow> has s k' \<or> k' \<in> fst ` set kvs"
proof (induction kvs arbitrary: s)
  case (Cons kv kvs)
  then show ?case by (cases kv) (auto simp: has_add)
qed simp

lemma get_adds:
  "get (foldl (\<lambda>s (k, v). add s k v) s kvs) k' =
     (if has s k' then get s k' else (case map_of kvs k' of Some v \<Rightarrow> v | None \<Rightarrow> absent))"
proof (induction kvs arbitrary: s)
  case Nil
  then show ?case by (simp add: get_absent)
next
  case (Cons kv kvs)
  then show ?case by (cases kv) (simp add: get_add has_add)
qed

end

lemma obj_get_set:
  "obj_get (obj_set o1 k v) k' = (if k' = k \<and> obj_has o1 k then v else obj_get o1 k')"
  by (induction o1) (auto split: if_splits)

lemma obj_has_set: "obj_has (obj_set o1 k v) k' = obj_has o1 k'"
  by (induction o1) (auto split: if_splits)

lemma obj_get_absent: "\<not> obj_has o1 k \<Longrightarrow> obj_get o1 k = Null"
  by (induction o1) (auto split: if_splits)

lemma obj_get_append: "obj_get (a @ b) k = (if obj_has a k then obj_get a k else obj_get b k)"
  by (induction a) (auto split: if_splits)

lemma obj_has_append: "obj_has (a @ b) k \<longleftrightarrow> obj_has a k \<or> obj_has b k"
  by (induction a) (auto split: if_splits)

lemma obj_has_iff: "obj_has o1 k \<longleftrightarrow> k \<in> fst ` set o1"
  by (induction o1) (auto split: if_splits)

interpretation members_store: growing_store obj_has obj_get obj_set Null
  "\<lambda>o1 k v. o1 @ [(k, v)]"
  by unfold_locales
    (auto simp: obj_get_set obj_has_set obj_get_absent obj_get_append obj_has_append)

section \<open>Properties\<close>

lemma JsonObject_add_Obj [simp]: "JsonObject_add (Obj o1) name v = Obj (o1 @ [(name, v)])"
  by (simp add: JsonObject_add_def)

lemma JsonObject_add_other [simp]:
  "vtype j \<noteq> obj_type \<Longrightarrow> JsonObject_add j name v = Obj [(name, v)]"
  by (simp add: JsonObject_add_def)

lemma JsonObject_add_is_obj [simp]: "vtype (JsonObject_add j name v) = obj_type"
  by (cases "vtype j = obj_type") (auto simp: vtype_cases)

lemmas JsonObject_adds = JsonObject_add_string_def JsonObject_add_int_def
  JsonObject_add_double_def JsonObject_add_object_def JsonObject_add_array_def

lemmas JsonObject_gets = JsonObject_getChild_def JsonObject_getString_def JsonObject_getInt_def
  JsonObject_getBool_def JsonObject_getArray_def JsonObject_isDouble_def JsonObject_getDouble_def
  JsonObject_getAsString_def JsonObject_has_def

text \<open>
  Reading after writing a member: on an object, \<open>setInt\<close> succeeds, and afterwards
  \<open>getInt\<close> of the same name gives the number if the name was present and the default if it
  was not (nothing is added), while every other name, and the presence of every name, is as
  before.
\<close>

theorem JsonObject_setInt_getInt:
  assumes "in_int32 n"
  shows "\<exists>j'. JsonObject_setInt (Obj o1) key n = Inr j'
    \<and> JsonObject_getInt j' key d = Inr (if obj_has o1 key then n else d)
    \<and> JsonObject_has j' key' = JsonObject_has (Obj o1) key'
    \<and> JsonObject_getChild j' key' =
        Inr (if key' = key \<and> obj_has o1 key then Value_of_int n else obj_get o1 key')"
proof -
  have int: "vtype (Value_of_int n) = int_type" by (simp add: Value_of_int_def)
  show ?thesis
  proof (cases "obj_has o1 key")
    case True
    with assms int show ?thesis
      by (simp add: JsonObject_setInt_def JsonObject_set_def JsonObject_gets
          members_store.get_set members_store.has_set get_int_of_int)
  next
    case False
    then have "obj_get (obj_set o1 key (Value_of_int n)) key = Null"
      by (simp add: members_store.get_set_missing members_store.get_absent)
    with assms False show ?thesis
      by (simp add: JsonObject_setInt_def JsonObject_set_def JsonObject_gets
          members_store.get_set members_store.has_set)
  qed
qed

theorem JsonObject_setInt_getInt_witness:
  "\<exists>j'. JsonObject_setInt (Obj [(''port'', Value_of_int 1), (''name'', Str ''x'')]) ''port'' 7000 = Inr j'
    \<and> JsonObject_getInt j' ''port'' 0 = Inr 7000
    \<and> JsonObject_getChild j' ''name'' = Inr (Str ''x'')"
  using JsonObject_setInt_getInt [where ?o1.0 = "[(''port'', Value_of_int 1), (''name'', Str ''x'')]"
      and n = 7000 and key = "''port''" and d = 0 and key' = "''name''"]
  by (auto simp: in_int32_def)

text \<open>The candidates that \<open>findObj\<close> looks at, in order: the elements of members that are
  arrays, and the other members themselves.\<close>

definition findObj_candidates :: "members \<Rightarrow> JsonObject list" where
  "findObj_candidates ms = concat (map (\<lambda>(k, v). case v of Arr a \<Rightarrow> a | _ \<Rightarrow> [v]) ms)"

fun first_match :: "('a \<Rightarrow> bool res) \<Rightarrow> 'a list \<Rightarrow> 'a option res" where
  "first_match pred [] = Inr None"
| "first_match pred (x # xs) = rbind (pred x) (\<lambda>m. if m then Inr (Some x) else first_match pred xs)"

lemma first_match_append:
  "first_match pred (xs @ ys) =
     rbind (first_match pred xs) (\<lambda>r. case r of Some x \<Rightarrow> Inr (Some x) | None \<Rightarrow> first_match pred ys)"
proof (induction xs)
  case (Cons x xs)
  then show ?case by (cases "pred x") auto
qed simp

lemma first_match_Some:
  "first_match pred xs = Inr (Some x) \<longleftrightarrow>
     (\<exists>ys zs. xs = ys @ x # zs \<and> (\<forall>y \<in> set ys. pred y = Inr False) \<and> pred x = Inr True)"
proof (induction xs)
  case (Cons a xs)
  show ?case
  proof (cases "pred a")
    case (Inr m)
    show ?thesis
    proof (cases m)
      case True
      with Inr show ?thesis
        by (auto simp: Cons_eq_append_conv)
    next
      case False
      with Inr Cons show ?thesis
        by (auto simp: Cons_eq_append_conv) (metis set_ConsD append_Cons)+
    qed
  qed (auto simp: Cons_eq_append_conv)
qed simp

lemma findObj_array_first_match: "findObj_array pred a = first_match pred a"
proof (induction a)
  case (Cons j a)
  then show ?case by (cases "pred j") (simp_all add: JsonArray_getValue_def)
qed simp

lemma findObj_members_first_match:
  "findObj_members pred ms =
     rmap (\<lambda>r. case r of Some o1 \<Rightarrow> o1 | None \<Rightarrow> Null) (first_match pred (findObj_candidates ms))"
proof (induction ms)
  case Nil
  then show ?case by (simp add: findObj_candidates_def)
next
  case (Cons i ms)
  obtain k v where i: "i = (k, v)" by (cases i)
  show ?case
  proof (cases "\<exists>a. v = Arr a")
    case True
    then obtain a where v: "v = Arr a" ..
    with Cons i show ?thesis
      by (cases "first_match pred a")
        (auto simp: JsonObject_isValueArray_def JsonObject_getValueArray_def
          findObj_array_first_match findObj_candidates_def first_match_append split: option.split)
  next
    case False
    then have "\<not> JsonObject_isValueArray i" "findObj_candidates (i # ms) = v # findObj_candidates ms"
      by (auto simp: i JsonObject_isValueArray_def vtype_cases findObj_candidates_def
          split: jvalue.split)
    with Cons i show ?thesis
      by (cases "pred v") (auto simp: JsonObject_getValue_def)
  qed
qed

text \<open>
  Looking up a component by name: \<open>findObj\<close> with a \<open>JsonNamePredicate\<close> returns
  the first candidate whose \<open>name\<close> is the one asked for, when every candidate before it
  is an object with a \<open>name\<close> that is a different string, or no object at all.
\<close>

theorem JsonObject_findObj_first:
  assumes "findObj_candidates ms = before @ c # after"
    and "\<forall>b \<in> set before. JsonObject_isObject b \<longrightarrow> (\<exists>s. JsonObject_getString b ''name'' = Inr s \<and> s \<noteq> name)"
    and "JsonObject_isObject c" and "JsonObject_getString c ''name'' = Inr name"
  shows "JsonObject_findObj (Obj ms) (JsonNamePredicate_match name) = Inr c"
proof -
  have "\<forall>b \<in> set before. JsonNamePredicate_match name b = Inr False"
    using assms(2) by (auto simp: JsonNamePredicate_match_def)
  moreover have "JsonNamePredicate_match name c = Inr True"
    using assms(3,4) by (simp add: JsonNamePredicate_match_def)
  ultimately have "first_match (JsonNamePredicate_match name) (findObj_candidates ms) = Inr (Some c)"
    using assms(1) by (auto simp: first_match_Some)
  then show ?thesis
    by (simp add: JsonObject_findObj_def JsonObject_iter_def findObj_members_first_match)
qed

theorem JsonObject_findObj_first_witness:
  "JsonObject_findObj
     (Obj [(''port'', Value_of_int 5), (''work'', Arr [Obj [(''name'', Str ''a'')], Obj [(''name'', Str ''b'')]]),
           (''sink'', Obj [(''name'', Str ''c'')])])
     (JsonNamePredicate_match ''b'') = Inr (Obj [(''name'', Str ''b'')])"
  by (rule JsonObject_findObj_first
      [where before = "[Value_of_int 5, Obj [(''name'', Str ''a'')]]" and after = "[Obj [(''name'', Str ''c'')]]"])
    (simp_all add: findObj_candidates_def JsonObject_isObject_def JsonObject_getString_def Value_of_int_def
      accessor_defs check_type_def)

end
