(* ===== verification/Json_Path.thy ===== *)
theory Json_Path
  imports Json_Object
begin

text \<open>
  \<open>config/JsonPath.cpp\<close>: paths such as \<open>work.first[0]\<close> or \<open>[name=x].port\<close> into a JSON
  value.  The code follows a path with a pointer into the tree and \<open>setPathInt\<close> writes through
  it, so a \<open>Value *\<close> is modelled as the position it points to: \<open>None\<close> is \<open>NULL\<close>, \<open>Some l\<close>
  the value reached from the root by the list \<open>l\<close> of child indices.  Using \<open>NULL\<close> is
  \<open>Undefined\<close>.
\<close>

section \<open>Pointers into a value\<close>

type_synonym loc = "nat list"
type_synonym ptr = "loc option"

fun children :: "jvalue \<Rightarrow> jvalue list" where
  "children (Obj ms) = map snd ms"
| "children (Arr a) = a"
| "children _ = []"

fun replace_child :: "jvalue \<Rightarrow> nat \<Rightarrow> jvalue \<Rightarrow> jvalue" where
  "replace_child (Obj ms) i w = Obj (ms[i := (fst (ms ! i), w)])"
| "replace_child (Arr a) i w = Arr (a[i := w])"
| "replace_child v i w = v"

fun value_at :: "jvalue \<Rightarrow> loc \<Rightarrow> jvalue option" where
  "value_at v [] = Some v"
| "value_at v (i # l) = (if i < length (children v) then value_at (children v ! i) l else None)"

fun assign_at :: "jvalue \<Rightarrow> loc \<Rightarrow> jvalue \<Rightarrow> jvalue" where
  "assign_at v [] w = w"
| "assign_at v (i # l) w = replace_child v i (assign_at (children v ! i) l w)"

definition deref :: "jvalue \<Rightarrow> ptr \<Rightarrow> jvalue res" where
  "deref doc p =
     (case p of
        None \<Rightarrow> Inl (Undefined ''NULL'')
      | Some l \<Rightarrow> (case value_at doc l of
                     None \<Rightarrow> Inl (Undefined ''dangling'') | Some v \<Rightarrow> Inr v))"

section \<open>Tokens and conditions\<close>

definition nextToken :: "string \<Rightarrow> string \<times> string" where
  "nextToken remain = break_at (\<lambda>c. c = CHR ''.'' \<or> c = CHR ''['') remain"

definition getCondition :: "string \<Rightarrow> (string \<times> string) res" where
  "getCondition remain =
     (case break_at (\<lambda>c. c = CHR '']'') remain of
        (cond, _ # rest) \<Rightarrow> Inr (cond, rest)
      | (_, []) \<Rightarrow> Inl (Runtime_error ''no end for condition''))"

text \<open>\<open>get\<close>: the first pair of an object with a name, here as its index.\<close>

fun get_pair :: "members \<Rightarrow> string \<Rightarrow> nat option" where
  "get_pair [] name = None"
| "get_pair ((n, v) # ms) name = (if name = n then Some 0 else map_option Suc (get_pair ms name))"

definition get_ptr :: "loc \<Rightarrow> members \<Rightarrow> string \<Rightarrow> ptr" where
  "get_ptr l ms name = map_option (\<lambda>i. l @ [i]) (get_pair ms name)"

definition valueMatches :: "jvalue \<Rightarrow> string \<Rightarrow> string \<Rightarrow> bool res" where
  "valueMatches obj key val =
     rbind (get_obj obj) (\<lambda>ms.
       case get_pair ms key of
         None \<Rightarrow> Inr False
       | Some i \<Rightarrow>
           let v = snd (ms ! i) in
           if vtype v = int_type
           then rbind (lexical_cast_int val) (\<lambda>n. rmap (\<lambda>m. m = n) (get_int v))
           else if vtype v = str_type then rmap (\<lambda>s. s = val) (get_str v)
           else Inr False)"

definition childMatches :: "jvalue \<Rightarrow> string \<Rightarrow> bool res" where
  "childMatches obj condition =
     (let s = split_on (CHR ''='') condition;
          s0 = s ! 0;
          key = (if s0 \<noteq> [] \<and> hd s0 = CHR ''\"'' then take (length s0 - 2) (drop 1 s0) else s0)
      in if length s < 2 then Inl (Undefined ''s[1]'') else valueMatches obj key (s ! 1))"

fun getChildWithCondition_from :: "nat \<Rightarrow> members \<Rightarrow> string \<Rightarrow> nat option res" where
  "getChildWithCondition_from i [] condition = Inr None"
| "getChildWithCondition_from i ((n, v) # ms) condition =
     rbind (childMatches v condition)
       (\<lambda>m. if m then Inr (Some i) else getChildWithCondition_from (Suc i) ms condition)"

definition getChildWithCondition :: "loc \<Rightarrow> members \<Rightarrow> string \<Rightarrow> ptr res" where
  "getChildWithCondition l ms condition =
     rmap (map_option (\<lambda>i. l @ [i])) (getChildWithCondition_from 0 ms condition)"

section \<open>getPath and setPathInt\<close>

text \<open>One turn of the loop of \<open>getPath\<close>: what is left of the path and the new pointer.\<close>

definition loc_of :: "ptr \<Rightarrow> loc" where
  "loc_of p = (case p of Some l \<Rightarrow> l | None \<Rightarrow> [])"

definition path_step :: "jvalue \<Rightarrow> ptr \<Rightarrow> string \<Rightarrow> (ptr \<times> string) res" where
  "path_step doc p remain =
     (if hd remain = CHR ''.''
      then let (token, remain') = nextToken (tl remain) in
           rbind (deref doc p) (\<lambda>o1.
           rbind (get_obj o1) (\<lambda>ms.
             let p' = get_ptr (loc_of p) ms token;
                 bad = Inl (Runtime_error (''token returned a non-object '' @ [CHR 0x27] @ token @ [CHR 0x27]))
             in if p' = None then bad
                else rbind (deref doc p') (\<lambda>v.
                     if vtype v \<noteq> obj_type then bad else Inr (p', remain'))))
      else if hd remain = CHR ''[''
      then rbind (getCondition (tl remain)) (\<lambda>(condition, remain').
           rbind (deref doc p) (\<lambda>o1.
             if CHR ''='' \<notin> set condition
             then if vtype o1 \<noteq> array_type
                  then Inl (Runtime_error ''tried to take index of non-array'')
                  else rbind (lexical_cast_int condition) (\<lambda>index.
                       rbind (get_array o1) (\<lambda>a.
                         if 0 \<le> index \<and> index < int (length a)
                         then Inr (Some (loc_of p @ [nat index]), remain')
                         else Inl Out_of_range))
             else rbind (get_obj o1) (\<lambda>ms.
                  rmap (\<lambda>p'. (p', remain')) (getChildWithCondition (loc_of p) ms condition))))
      else let (token, remain') = nextToken remain in
           rbind (deref doc p) (\<lambda>o1.
           rmap (\<lambda>ms. (get_ptr (loc_of p) ms token, remain')) (get_obj o1)))"

lemma length_nextToken:
  "nextToken s = (token, r) \<Longrightarrow> length r \<le> length s"
  "s \<noteq> [] \<Longrightarrow> hd s \<noteq> CHR ''.'' \<Longrightarrow> hd s \<noteq> CHR ''['' \<Longrightarrow> nextToken s = (token, r) \<Longrightarrow> length r < length s"
  by (auto simp: nextToken_def break_at_def length_dropWhile_le)
    (cases s; auto simp: less_Suc_eq_le length_dropWhile_le)

lemma length_getCondition: "getCondition s = Inr (c, r) \<Longrightarrow> length r < length s"
proof (cases "break_at (\<lambda>c. c = CHR '']'') s")
  case (Pair a b)
  assume "getCondition s = Inr (c, r)"
  with Pair have "b \<noteq> []" "r = tl b" by (auto simp: getCondition_def split: list.splits)
  with length_break_at [OF Pair] show ?thesis by (cases b) auto
qed

lemma path_step_shorter:
  assumes "path_step doc p s = Inr (p', r)" and "s \<noteq> []"
  shows "length r < length s"
proof -
  consider "hd s = CHR ''.''" | "hd s = CHR ''[''" | "hd s \<noteq> CHR ''.''" "hd s \<noteq> CHR ''[''" by blast
  then show ?thesis
  proof cases
    case 1
    then obtain token where "nextToken (tl s) = (token, r)"
      using assms(1)
      by (cases "nextToken (tl s)") (auto simp: path_step_def res_simps Let_def split: if_splits)
    then show ?thesis using length_nextToken(1) assms(2) by (cases s) fastforce+
  next
    case 2
    then obtain c where "getCondition (tl s) = Inr (c, r)"
      using assms(1) by (auto simp: path_step_def res_simps split: if_splits)
    then show ?thesis using length_getCondition assms(2) by (cases s) fastforce+
  next
    case 3
    then obtain token where "nextToken s = (token, r)"
      using assms(1) by (cases "nextToken s") (auto simp: path_step_def res_simps)
    then show ?thesis using length_nextToken(2) assms(2) 3 by blast
  qed
qed

function path_loop :: "jvalue \<Rightarrow> ptr \<Rightarrow> string \<Rightarrow> ptr res" where
  "path_loop doc p remain =
     (if remain = [] then Inr p
      else rbind (path_step doc p remain) (\<lambda>pr. path_loop doc (fst pr) (snd pr)))"
  by pat_completeness auto
termination
  by (relation "measure (\<lambda>(doc, p, remain). length remain)") (auto dest: path_step_shorter)

declare path_loop.simps [simp del]

lemma path_loop_Nil [simp]: "path_loop doc p [] = Inr p"
  by (simp add: path_loop.simps)

definition getPath_ptr :: "jvalue \<Rightarrow> string \<Rightarrow> ptr res" where
  "getPath_ptr obj path = path_loop obj (Some []) path"

text \<open>The public \<open>getPath\<close> copies what the pointer points to.\<close>

definition JsonPath_getPath :: "JsonObject \<Rightarrow> string \<Rightarrow> JsonObject res" where
  "JsonPath_getPath obj path = rbind (getPath_ptr obj path) (deref obj)"

definition JsonPath_setPathInt :: "JsonObject \<Rightarrow> string \<Rightarrow> string \<Rightarrow> int \<Rightarrow> JsonObject res" where
  "JsonPath_setPathInt obj path var n =
     rbind (getPath_ptr obj path) (\<lambda>p.
     rbind (deref obj p) (\<lambda>o1.
     rmap (\<lambda>vo. assign_at obj (loc_of p) (Obj (obj_set vo var (Value_of_int n)))) (get_obj o1)))"

section \<open>Pointers stay valid\<close>

lemma value_at_append:
  "value_at v (l @ l') = (case value_at v l of Some w \<Rightarrow> value_at w l' | None \<Rightarrow> None)"
  by (induction l arbitrary: v) auto

lemma get_pair_less: "get_pair ms k = Some i \<Longrightarrow> i < length ms \<and> snd (ms ! i) = obj_get ms k \<and> obj_has ms k"
  by (induction ms k arbitrary: i rule: get_pair.induct) (auto split: if_splits)

lemma get_pair_None: "get_pair ms k = None \<longleftrightarrow> \<not> obj_has ms k"
  by (induction ms k rule: get_pair.induct) (auto split: if_splits)

lemma children_replace:
  "i < length (children v) \<Longrightarrow> children (replace_child v i w) = (children v)[i := w]"
  by (cases v) (auto simp: map_update)

lemma value_at_assign_same:
  "value_at v l = Some u \<Longrightarrow> value_at (assign_at v l w) l = Some w"
  by (induction v l w rule: assign_at.induct)
    (auto simp: children_replace split: if_splits)

lemma deref_Some [simp]: "deref v (Some l) = Inr w \<longleftrightarrow> value_at v l = Some w"
  by (simp add: deref_def split: option.split)

lemma deref_None [simp]: "deref v None = Inl (Undefined ''NULL'')"
  by (simp add: deref_def)

lemma get_ptr_value:
  "value_at v l = Some (Obj ms) \<Longrightarrow>
   value_at v (l @ [i]) = (if i < length ms then Some (snd (ms ! i)) else None)"
  by (simp add: value_at_append)

section \<open>Properties\<close>

text \<open>The reference meaning of a dotted path: nested lookups.  \<open>lookup_loc\<close> is the position
  it ends at.\<close>

fun lookup :: "jvalue \<Rightarrow> string list \<Rightarrow> jvalue option" where
  "lookup v [] = Some v"
| "lookup (Obj ms) (t # ts) = (if obj_has ms t then lookup (obj_get ms t) ts else None)"
| "lookup _ (t # ts) = None"

fun lookup_loc :: "jvalue \<Rightarrow> string list \<Rightarrow> loc option" where
  "lookup_loc v [] = Some []"
| "lookup_loc (Obj ms) (t # ts) =
     (case get_pair ms t of
        None \<Rightarrow> None | Some i \<Rightarrow> map_option ((#) i) (lookup_loc (snd (ms ! i)) ts))"
| "lookup_loc _ (t # ts) = None"

definition plain_token :: "string \<Rightarrow> bool" where
  "plain_token t \<longleftrightarrow> CHR ''.'' \<notin> set t \<and> CHR ''['' \<notin> set t"

definition dotted :: "string list \<Rightarrow> string" where
  "dotted ts = concat (map ((#) (CHR ''.'')) ts)"

lemma join_dotted: "join_with (CHR ''.'') (t # ts) = t @ dotted ts"
  by (induction ts arbitrary: t) (auto simp: dotted_def)

lemma deref_value [simp]: "value_at v l = Some w \<Longrightarrow> deref v (Some l) = Inr w"
  by simp

lemma lookup_value_at: "lookup v ts = Some w \<longleftrightarrow> (\<exists>l. lookup_loc v ts = Some l \<and> value_at v l = Some w)"
proof (induction v ts arbitrary: w rule: lookup.induct)
  case (2 ms t ts)
  show ?case
  proof (cases "get_pair ms t")
    case None
    then have "\<not> obj_has ms t" by (simp add: get_pair_None)
    with None show ?thesis by simp
  next
    case (Some i)
    with get_pair_less [OF Some] 2 show ?thesis by auto
  qed
qed auto

lemma get_pair_update:
  "i < length ms \<Longrightarrow> get_pair (ms[i := (fst (ms ! i), w)]) t = get_pair ms t"
  by (induction ms t arbitrary: i rule: get_pair.induct) (auto simp: nth_Cons split: nat.splits)

lemma lookup_loc_assign:
  "lookup_loc v ts = Some l \<Longrightarrow> lookup_loc (assign_at v l w) ts = Some l"
proof (induction v ts arbitrary: l rule: lookup_loc.induct)
  case (2 ms t ts)
  then obtain i l' where i: "get_pair ms t = Some i" "l = i # l'"
      "lookup_loc (snd (ms ! i)) ts = Some l'"
    by (auto split: option.splits)
  then have "i < length ms" by (simp add: get_pair_less)
  with 2 i show ?case
    by (simp add: get_pair_update)
qed auto

lemma value_at_assign_other:
  assumes "value_at v l = Some u" and "\<not> prefix l l'" and "\<not> prefix l' l"
  shows "value_at (assign_at v l w) l' = value_at v l'"
  using assms
proof (induction v l w arbitrary: l' rule: assign_at.induct)
  case (2 v i l w)
  then obtain j k where l': "l' = j # k" by (cases l') auto
  have i: "i < length (children v)" using 2 by (auto split: if_splits)
  with 2 l' show ?case
    by (cases "i = j") (auto simp: children_replace)
qed auto

lemma nextToken_plain: "plain_token t \<Longrightarrow> nextToken (t @ dotted ts) = (t, dotted ts)"
proof -
  assume t: "plain_token t"
  then have "\<forall>c \<in> set t. \<not> (c = CHR ''.'' \<or> c = CHR ''['')" by (auto simp: plain_token_def)
  then show ?thesis
    by (cases ts) (auto simp: nextToken_def break_at_def dotted_def takeWhile_append dropWhile_append)
qed

lemma dotted_Cons: "dotted (t # ts) = CHR ''.'' # t @ dotted ts"
  by (simp add: dotted_def)

lemma path_loop_dotted:
  assumes "value_at doc l = Some v" and "\<forall>t \<in> set ts. plain_token t"
  shows "path_loop doc (Some l) (dotted ts) = Inr p \<and> deref doc p = Inr w \<longleftrightarrow>
    (\<exists>l'. lookup_loc v ts = Some l' \<and> p = Some (l @ l') \<and> value_at doc (l @ l') = Some w
       \<and> (ts \<noteq> [] \<longrightarrow> vtype w = obj_type))"
  using assms
proof (induction ts arbitrary: l v)
  case Nil
  then show ?case by (auto simp: dotted_def)
next
  case (Cons t ts)
  have ne: "dotted (t # ts) \<noteq> []" by (simp add: dotted_Cons)
  have step: "path_step doc (Some l) (dotted (t # ts)) =
      rbind (get_obj v) (\<lambda>ms.
             let p' = get_ptr l ms t;
                 bad = Inl (Runtime_error (''token returned a non-object '' @ [CHR 0x27] @ t @ [CHR 0x27]))
             in if p' = None then bad
                else rbind (deref doc p') (\<lambda>v.
                     if vtype v \<noteq> obj_type then bad else Inr (p', dotted ts)))"
    using Cons.prems by (simp add: path_step_def dotted_Cons nextToken_plain deref_def loc_of_def)
  show ?case
  proof (cases "\<exists>ms. v = Obj ms")
    case False
    then have "lookup_loc v (t # ts) = None" by (cases v) auto
    moreover have "\<exists>e. get_obj v = Inl e" using False by (cases "get_obj v") auto
    ultimately show ?thesis
      by (auto simp: ne path_loop.simps [of doc "Some l" "dotted (t # ts)"] step)
  next
    case True
    then obtain ms where v: "v = Obj ms" ..
    show ?thesis
    proof (cases "get_pair ms t")
      case None
      then show ?thesis
        by (auto simp: ne path_loop.simps [of doc "Some l" "dotted (t # ts)"] step v get_ptr_def)
    next
      case (Some i)
      then have i: "i < length ms" by (auto dest: get_pair_less)
      let ?u = "snd (ms ! i)"
      have u: "value_at doc (l @ [i]) = Some ?u"
        using Cons.prems i by (simp add: v get_ptr_value)
      have du: "deref doc (Some (l @ [i])) = Inr ?u" using u by simp
      show ?thesis
      proof (cases "vtype ?u = obj_type")
        case True
        have "path_loop doc (Some l) (dotted (t # ts)) = path_loop doc (Some (l @ [i])) (dotted ts)"
          using True Some
          by (subst path_loop.simps) (simp add: step v get_ptr_def du, simp add: dotted_Cons)
        moreover have "ts = [] \<Longrightarrow> value_at doc (l @ [i]) = Some w \<Longrightarrow> vtype w = obj_type"
          using u True by simp
        ultimately show ?thesis
          using Cons.IH [OF u] Cons.prems Some by (auto simp: v)
      next
        case False
        then have "ts = [] \<or> lookup_loc ?u ts = None" by (cases ts; cases ?u) auto
        then show ?thesis
          using False Some u
          by (auto simp: ne path_loop.simps [of doc "Some l" "dotted (t # ts)"] step v get_ptr_def du)
      qed
    qed
  qed
qed

lemma getPath_ptr_join:
  assumes "plain_token t" and "t \<noteq> []" and "\<forall>t \<in> set ts. plain_token t"
  shows "getPath_ptr doc (join_with (CHR ''.'') (t # ts)) = Inr p \<and> deref doc p = Inr w \<longleftrightarrow>
    (\<exists>l. lookup_loc doc (t # ts) = Some l \<and> p = Some l \<and> value_at doc l = Some w
       \<and> (ts \<noteq> [] \<longrightarrow> vtype w = obj_type))"
proof -
  have hd: "hd (t @ dotted ts) \<noteq> CHR ''.''" "hd (t @ dotted ts) \<noteq> CHR ''[''"
    using assms(1,2) by (cases t; auto simp: plain_token_def)+
  have step: "path_step doc (Some []) (t @ dotted ts) =
      rmap (\<lambda>ms. (get_ptr [] ms t, dotted ts)) (get_obj doc)"
    using hd assms by (simp add: path_step_def nextToken_plain deref_def loc_of_def)
  have loop: "getPath_ptr doc (join_with (CHR ''.'') (t # ts)) =
      rbind (get_obj doc) (\<lambda>ms. path_loop doc (get_ptr [] ms t) (dotted ts))"
    using assms(2)
    by (simp add: getPath_ptr_def join_dotted path_loop.simps [of doc "Some []"] step)
      (cases "get_obj doc"; simp)
  show ?thesis
  proof (cases "\<exists>ms i. doc = Obj ms \<and> get_pair ms t = Some i")
    case False
    then have none: "lookup_loc doc (t # ts) = None" by (cases doc) (auto split: option.split)
    have "get_obj doc = Inr ms \<Longrightarrow> get_ptr [] ms t = None" for ms
      using False by (cases "get_pair ms t") (auto simp: get_ptr_def)
    moreover have "path_loop doc None (dotted ts) = Inr p \<Longrightarrow> p = None" for p
      by (cases ts) (auto simp: dotted_def path_loop.simps [of doc None] path_step_def res_simps
          split: prod.splits)
    ultimately show ?thesis
      using assms(2) none loop by (cases "get_obj doc") auto
  next
    case True
    then obtain ms i where d: "doc = Obj ms" and i: "get_pair ms t = Some i" by auto
    have v: "value_at doc [i] = Some (snd (ms ! i))"
      using get_pair_less [OF i] by (simp add: d)
    have "getPath_ptr doc (join_with (CHR ''.'') (t # ts)) = path_loop doc (Some [i]) (dotted ts)"
      using i loop by (simp add: d get_ptr_def)
    with path_loop_dotted [OF v assms(3)] i get_pair_less [OF i] show ?thesis by (auto simp: d)
  qed
qed

text \<open>
  Claim C6.  A dotted path means nested lookups: for a path \<open>t1.t2...tn\<close> of plain tokens,
  \<open>getPath\<close> returns a value exactly when looking the names up one after the other reaches that
  value and, if the path has a dot, it is an object; in every other case it fails.
\<close>

theorem JsonPath_getPath_lookup:
  assumes "plain_token t" and "t \<noteq> []" and "\<forall>t \<in> set ts. plain_token t"
  shows "JsonPath_getPath doc (join_with (CHR ''.'') (t # ts)) = Inr w \<longleftrightarrow>
    lookup doc (t # ts) = Some w \<and> (ts \<noteq> [] \<longrightarrow> vtype w = obj_type)"
  using getPath_ptr_join [OF assms, of doc]
  by (auto simp: JsonPath_getPath_def res_simps lookup_value_at simp del: lookup_loc.simps)

theorem JsonPath_getPath_lookup_witness:
  "JsonPath_getPath (Obj [(''sink'', Obj [(''opt'', Obj [(''k'', Null)])])]) ''sink.opt''
     = Inr (Obj [(''k'', Null)])"
  using JsonPath_getPath_lookup [of "''sink''" "[''opt'']"
      "Obj [(''sink'', Obj [(''opt'', Obj [(''k'', Null)])])]" "Obj [(''k'', Null)]"]
  by (simp add: plain_token_def)

lemma JsonPath_getPath_dot_free:
  assumes "plain_token t" and "t \<noteq> []" and "obj_has ms t"
  shows "JsonPath_getPath (Obj ms) t = Inr (obj_get ms t)"
proof -
  obtain i where "get_pair ms t = Some i" using assms(3) get_pair_None by (cases "get_pair ms t") auto
  then have "lookup_loc (Obj ms) [t] = Some [i]" "value_at (Obj ms) [i] = Some (obj_get ms t)"
    using get_pair_less by auto
  with getPath_ptr_join [OF assms(1,2), of "[]" "Obj ms" "Some [i]" "obj_get ms t"] show ?thesis
    by (simp add: JsonPath_getPath_def)
qed

lemma obj_set_members:
  "map fst (obj_set ms k v) = map fst ms"
  "i < length ms \<Longrightarrow> snd (obj_set ms k v ! i) = (if fst (ms ! i) = k then v else snd (ms ! i))"
proof -
  have "obj_set ms k v = map (\<lambda>(n, w). (n, if k = n then v else w)) ms"
    by (induction ms) auto
  then show "map fst (obj_set ms k v) = map fst ms"
    "i < length ms \<Longrightarrow> snd (obj_set ms k v ! i) = (if fst (ms ! i) = k then v else snd (ms ! i))"
    by (auto simp: split_def)
qed

lemma getInt_after_set:
  assumes "in_int32 n"
  shows "JsonObject_getInt (Obj (obj_set ms var (Value_of_int n))) var d = Inr (if var \<in> fst ` set ms then n else d)"
  using get_int_of_int [OF assms] obj_get_absent [of "obj_set ms var (Value_of_int n)" var]
  by (simp add: JsonObject_getInt_def obj_get_set obj_has_iff [symmetric] obj_has_set) (simp add: Value_of_int_def)

text \<open>
  Claim C7.  Tuning writes one number: where a dotted path leads to an object, \<open>setPathInt\<close>
  succeeds and the path then leads to an object with the same names, in which every member called
  \<open>var\<close> has the new number and every other member its old value; so \<open>getInt\<close> gives the number
  if the object has the variable.  If it does not, the variable is not added, and the object is as
  before.  Every part of the document that is neither around nor inside that object is as before.
\<close>

theorem JsonPath_setPathInt_getPath:
  assumes "plain_token t" and "t \<noteq> []" and "\<forall>t \<in> set ts. plain_token t"
    and "lookup doc (t # ts) = Some (Obj vo)" and "in_int32 n"
  shows "\<exists>doc' vo' l. JsonPath_setPathInt doc (join_with (CHR ''.'') (t # ts)) var n = Inr doc'
    \<and> JsonPath_getPath doc' (join_with (CHR ''.'') (t # ts)) = Inr (Obj vo')
    \<and> map fst vo' = map fst vo
    \<and> (\<forall>i < length vo. snd (vo' ! i) = (if fst (vo ! i) = var then Value_of_int n else snd (vo ! i)))
    \<and> JsonObject_getInt (Obj vo') var d = Inr (if var \<in> fst ` set vo then n else d)
    \<and> value_at doc l = Some (Obj vo) \<and> value_at doc' l = Some (Obj vo')
    \<and> (\<forall>l'. \<not> prefix l l' \<and> \<not> prefix l' l \<longrightarrow> value_at doc' l' = value_at doc l')"
proof -
  let ?path = "join_with (CHR ''.'') (t # ts)" and ?vo = "obj_set vo var (Value_of_int n)"
  obtain l where l: "lookup_loc doc (t # ts) = Some l" "value_at doc l = Some (Obj vo)"
    using assms(4) unfolding lookup_value_at by blast
  then have p: "getPath_ptr doc ?path = Inr (Some l)" "deref doc (Some l) = Inr (Obj vo)"
    using getPath_ptr_join [OF assms(1-3), of doc "Some l" "Obj vo"] by auto
  then have set: "JsonPath_setPathInt doc ?path var n = Inr (assign_at doc l (Obj ?vo))"
    by (simp add: JsonPath_setPathInt_def loc_of_def)
  have at: "value_at (assign_at doc l (Obj ?vo)) l = Some (Obj ?vo)" by (rule value_at_assign_same [OF l(2)])
  have "lookup (assign_at doc l (Obj ?vo)) (t # ts) = Some (Obj ?vo)"
    using lookup_loc_assign [OF l(1)] at unfolding lookup_value_at by blast
  then have "JsonPath_getPath (assign_at doc l (Obj ?vo)) ?path = Inr (Obj ?vo)"
    using getPath_ptr_join [OF assms(1-3), of "assign_at doc l (Obj ?vo)" "Some l" "Obj ?vo"]
      lookup_loc_assign [OF l(1)] at
    by (simp add: JsonPath_getPath_def del: lookup_loc.simps)
  with set l(2) at value_at_assign_other [OF l(2)] obj_set_members getInt_after_set [OF assms(5)] show ?thesis by blast
qed

theorem JsonPath_setPathInt_getPath_witness:
  "\<exists>doc' vo'. JsonPath_setPathInt (Obj [(''sink'', Obj [(''n'', Null)]), (''x'', Null)]) ''sink'' ''n'' 3 = Inr doc'
    \<and> JsonPath_getPath doc' ''sink'' = Inr (Obj vo') \<and> JsonObject_getInt (Obj vo') ''n'' 0 = Inr 3"
  using JsonPath_setPathInt_getPath [of "''sink''" "[]" "Obj [(''sink'', Obj [(''n'', Null)]), (''x'', Null)]"
      "[(''n'', Null)]" 3 "''n''" 0]
  by (auto simp: plain_token_def in_int32_def)

text \<open>A missing first name leaves \<open>NULL\<close>, which the public \<open>getPath\<close> dereferences.\<close>

lemma JsonPath_getPath_missing:
  assumes "plain_token t" and "t \<noteq> []" and "\<not> obj_has ms t"
  shows "JsonPath_getPath (Obj ms) t = Inl (Undefined ''NULL'')"
proof -
  have "hd t \<noteq> CHR ''.''" "hd t \<noteq> CHR ''[''"
    using assms(1,2) by (cases t; auto simp: plain_token_def)+
  then have "path_step (Obj ms) (Some []) t = Inr (None, [])"
    using assms nextToken_plain [of t "[]"]
    by (simp add: path_step_def dotted_def deref_def get_ptr_def get_pair_None)
  then show ?thesis
    using assms(2) by (simp add: JsonPath_getPath_def getPath_ptr_def path_loop.simps [of _ _ t])
qed

end
