(* ===== verification/Json_Reader.thy ===== *)
theory Json_Reader
  imports Json_Path Json_Strings
begin

text \<open>
  The JSON reader, \<open>json_spirit_v4.06/json_spirit/json_spirit_reader_template.h\<close>: the grammar and
  the semantic actions that build the value while the grammar is matched.  The actions keep
  pointers into the value they build (\<open>current_p_\<close> and \<open>stack_\<close>), modelled like the pointers of
  \<open>JsonPath\<close> by positions; a failed \<open>assert\<close> and a pointer to nothing are \<open>Undefined\<close>.

  The combinators of Boost.Spirit that put the grammar together are modelled here; the parsers that
  it takes ready-made from Boost are the fields of \<open>spirit\<close>, each a function that gives, for the
  text at which it is tried, how many characters it takes.

  The reader is compared with a direct recursive-descent reader without pointers or actions
  (\<open>ref_value\<close>), which in turn reads what the generator writes.
\<close>

section \<open>Semantic actions\<close>

record actions =
  sa_value :: jvalue
  sa_current :: ptr
  sa_stack :: "loc list"
  sa_name :: string

definition Semantic_actions :: "jvalue \<Rightarrow> actions" where
  "Semantic_actions v = \<lparr>sa_value = v, sa_current = None, sa_stack = [], sa_name = []\<rparr>"

type_synonym 'a action = "(actions, 'a) prog"

definition assertion_fails :: "'a action" where
  "assertion_fails = slift (Inl (Undefined ''assert''))"

definition add_first :: "jvalue \<Rightarrow> loc action" where
  "add_first v a =
     (if sa_current a \<noteq> None then assertion_fails a
      else (Inr [], a\<lparr>sa_value := v, sa_current := Some []\<rparr>))"

text \<open>\<open>Config_type::add\<close> for vectors of pairs, and \<open>push_back\<close>: the new child is the last.\<close>

fun appended :: "jvalue \<Rightarrow> string \<Rightarrow> jvalue \<Rightarrow> jvalue" where
  "appended (Arr vs) name v = Arr (vs @ [v])"
| "appended (Obj ms) name v = Obj (ms @ [(name, v)])"
| "appended w name v = w"

definition add_to_current :: "jvalue \<Rightarrow> loc action" where
  "add_to_current v a =
     (case sa_current a of
        None \<Rightarrow> add_first v a
      | Some l \<Rightarrow>
          (case deref (sa_value a) (Some l) of
             Inl e \<Rightarrow> (Inl e, a)
           | Inr w \<Rightarrow>
               if vtype w = array_type \<or> vtype w = obj_type
               then (Inr (l @ [length (children w)]),
                     a\<lparr>sa_value := assign_at (sa_value a) l (appended w (sa_name a) v)\<rparr>)
               else assertion_fails a))"

definition begin_compound :: "jvalue \<Rightarrow> unit action" where
  "begin_compound array_or_obj a =
     (case sa_current a of
        None \<Rightarrow> sbind (add_first array_or_obj) (\<lambda>_. sreturn ()) a
      | Some l \<Rightarrow>
          sbind (add_to_current array_or_obj) (\<lambda>p a'. (Inr (), a'\<lparr>sa_current := Some p\<rparr>))
            (a\<lparr>sa_stack := sa_stack a @ [l]\<rparr>))"

definition end_compound :: "unit action" where
  "end_compound a =
     (if sa_current a \<noteq> Some []
      then if sa_stack a = [] then (Inl (Undefined ''stack_.back()''), a)
           else (Inr (), a\<lparr>sa_current := Some (last (sa_stack a)), sa_stack := butlast (sa_stack a)\<rparr>)
      else (Inr (), a))"

definition begin_obj :: "char \<Rightarrow> unit action" where
  "begin_obj c = (if c = CHR ''{'' then begin_compound (Obj []) else assertion_fails)"

definition end_obj :: "char \<Rightarrow> unit action" where
  "end_obj c = (if c = CHR ''}'' then end_compound else assertion_fails)"

definition begin_array :: "char \<Rightarrow> unit action" where
  "begin_array c = (if c = CHR ''['' then begin_compound (Arr []) else assertion_fails)"

definition end_array :: "char \<Rightarrow> unit action" where
  "end_array c = (if c = CHR '']'' then end_compound else assertion_fails)"

definition is_eq :: "string \<Rightarrow> string \<Rightarrow> bool" where
  "is_eq s c_str = prefix s c_str"

definition get_str_lit :: "string \<Rightarrow> string action" where
  "get_str_lit s = (if length s \<ge> 2 then sreturn (get_str_literal s) else assertion_fails)"

definition new_name :: "string \<Rightarrow> unit action" where
  "new_name s a =
     (case deref (sa_value a) (sa_current a) of
        Inl e \<Rightarrow> (Inl e, a)
      | Inr w \<Rightarrow>
          if vtype w = obj_type
          then sbind (get_str_lit s) (\<lambda>n a'. (Inr (), a'\<lparr>sa_name := n\<rparr>)) a
          else assertion_fails a)"

definition add_value :: "jvalue \<Rightarrow> unit action" where
  "add_value v = sbind (add_to_current v) (\<lambda>_. sreturn ())"

definition new_str :: "string \<Rightarrow> unit action" where
  "new_str s = sbind (get_str_lit s) (\<lambda>t. add_value (Str t))"

definition new_true :: "string \<Rightarrow> unit action" where
  "new_true s = (if is_eq s ''true'' then add_value (Bool True) else assertion_fails)"

definition new_false :: "string \<Rightarrow> unit action" where
  "new_false s = (if is_eq s ''false'' then add_value (Bool False) else assertion_fails)"

definition new_null :: "string \<Rightarrow> unit action" where
  "new_null s = (if is_eq s ''null'' then add_value Null else assertion_fails)"

definition new_int :: "64 word \<Rightarrow> unit action" where
  "new_int i = add_value (Int64 i)"

definition new_uint64 :: "64 word \<Rightarrow> unit action" where
  "new_uint64 ui = add_value (Uint64 ui)"

definition new_real :: "dbl \<Rightarrow> unit action" where
  "new_real d = add_value (Real d)"

section \<open>The parsers of Boost.Spirit\<close>

text \<open>The parsers taken from Boost: \<open>comment_p("//")\<close>, \<open>comment_p("/*", "*/")\<close>,
  \<open>lex_escape_ch_p\<close>, \<open>strict_real_p\<close>, \<open>int_parser<int64_t>\<close> and \<open>uint_parser<uint64_t>\<close>.\<close>

record spirit =
  sp_line_comment :: "string \<Rightarrow> nat option"
  sp_block_comment :: "string \<Rightarrow> nat option"
  sp_lex_escape_ch :: "string \<Rightarrow> nat option"
  sp_strict_real :: "string \<Rightarrow> (dbl \<times> nat) option"
  sp_int64 :: "string \<Rightarrow> (64 word \<times> nat) option"
  sp_uint64 :: "string \<Rightarrow> (64 word \<times> nat) option"

text \<open>\<open>space_p | comment_p("//") | comment_p("/*", "*/")\<close>, and skipping: as often as it matches.  A
  match takes at least one character.\<close>

definition skip_one :: "spirit \<Rightarrow> string \<Rightarrow> nat option" where
  "skip_one sp s =
     (if s \<noteq> [] \<and> is_space (hd s) then Some 1
      else case sp_line_comment sp s of Some n \<Rightarrow> Some n | None \<Rightarrow> sp_block_comment sp s)"

function skip :: "spirit \<Rightarrow> string \<Rightarrow> string" where
  "skip sp [] = []"
| "skip sp (c # s) =
     (case skip_one sp (c # s) of None \<Rightarrow> c # s | Some n \<Rightarrow> skip sp (drop (n - 1) s))"
  by pat_completeness auto
termination
  by (relation "measure (length \<circ> snd)") auto

text \<open>A parser is tried at a text and gives what is left of it, or no match; it may throw.\<close>

type_synonym parser = "string \<Rightarrow> string option action"

text \<open>\<open>p | q\<close>, \<open>p >> q\<close>, \<open>!p\<close>, \<open>*p\<close>: where a parser fails, the next one is tried at the same
  text.  The rounds of a star are counted; each uses up text, so that the length of the text bounds
  them.\<close>

definition p_or :: "parser \<Rightarrow> parser \<Rightarrow> parser" where
  "p_or p q s = sbind (p s) (\<lambda>r. case r of Some s' \<Rightarrow> sreturn (Some s') | None \<Rightarrow> q s)"

definition p_seq :: "parser \<Rightarrow> parser \<Rightarrow> parser" where
  "p_seq p q s = sbind (p s) (\<lambda>r. case r of Some s' \<Rightarrow> q s' | None \<Rightarrow> sreturn None)"

definition p_opt :: "parser \<Rightarrow> parser" where
  "p_opt p s = sbind (p s) (\<lambda>r. sreturn (Some (case r of Some s' \<Rightarrow> s' | None \<Rightarrow> s)))"

definition out_of_rounds :: exn where
  "out_of_rounds = Undefined ''rounds''"

primrec p_rounds :: "nat \<Rightarrow> parser \<Rightarrow> parser" where
  "p_rounds 0 p = (\<lambda>s. slift (Inl out_of_rounds))"
| "p_rounds (Suc k) p =
     (\<lambda>s. sbind (p s) (\<lambda>r. case r of Some s' \<Rightarrow> p_rounds k p s' | None \<Rightarrow> sreturn (Some s)))"

definition p_star :: "parser \<Rightarrow> parser" where
  "p_star p s = p_rounds (Suc (length s)) p s"

text \<open>A token with its action: what precedes it is skipped, and the action is given the text that
  the token matched, or the number that it read.\<close>

definition p_token :: "spirit \<Rightarrow> (string \<Rightarrow> nat option) \<Rightarrow> (string \<Rightarrow> unit action) \<Rightarrow> parser" where
  "p_token sp t f s =
     (let s' = skip sp s in
      case t s' of
        None \<Rightarrow> sreturn None
      | Some n \<Rightarrow> sbind (f (take n s')) (\<lambda>_. sreturn (Some (drop n s'))))"

definition p_number :: "spirit \<Rightarrow> (string \<Rightarrow> ('n \<times> nat) option) \<Rightarrow> ('n \<Rightarrow> unit action) \<Rightarrow> parser" where
  "p_number sp t f s =
     (let s' = skip sp s in
      case t s' of
        None \<Rightarrow> sreturn None
      | Some (x, n) \<Rightarrow> sbind (f x) (\<lambda>_. sreturn (Some (drop n s'))))"

definition str_p :: "string \<Rightarrow> string \<Rightarrow> nat option" where
  "str_p kw s = (if prefix kw s then Some (length kw) else None)"

definition p_ch :: "spirit \<Rightarrow> char \<Rightarrow> (char \<Rightarrow> unit action) \<Rightarrow> parser" where
  "p_ch sp c f = p_token sp (str_p [c]) (\<lambda>m. f (hd m))"

definition no_action :: "char \<Rightarrow> unit action" where
  "no_action c = sreturn ()"

text \<open>\<open>eps_p[throw_..]\<close>: matches everywhere, and its action throws.\<close>

definition p_throw :: "string \<Rightarrow> parser" where
  "p_throw reason s = slift (Inl (Error_position reason))"

section \<open>The grammar\<close>

text \<open>\<open>lexeme_d[confix_p('"', *lex_escape_ch_p, '"')]\<close>: the characters up to a closing quote, one
  by one, where an escape sequence counts as one.\<close>

function string_body :: "spirit \<Rightarrow> string \<Rightarrow> nat" where
  "string_body sp [] = 0"
| "string_body sp (c # s) =
     (case sp_lex_escape_ch sp (c # s) of
        None \<Rightarrow> 0
      | Some n \<Rightarrow>
          if n = 0 \<or> (c = CHR 0x22 \<and> n \<le> 1) then 0 else n + string_body sp (drop (n - 1) s))"
  by pat_completeness auto
termination
  by (relation "measure (length \<circ> snd)") auto

definition string_lexeme :: "spirit \<Rightarrow> string \<Rightarrow> nat option" where
  "string_lexeme sp s =
     (case s of
        c # s' \<Rightarrow>
          if c = CHR 0x22
          then let n = string_body sp s' in
               if n < length s' \<and> s' ! n = CHR 0x22 then Some (n + 2) else None
          else None
      | [] \<Rightarrow> None)"

definition json_string :: "spirit \<Rightarrow> (string \<Rightarrow> unit action) \<Rightarrow> parser" where
  "json_string sp = p_token sp (string_lexeme sp)"

definition json_number :: "spirit \<Rightarrow> parser" where
  "json_number sp =
     p_or (p_number sp (sp_strict_real sp) new_real)
       (p_or (p_number sp (sp_int64 sp) new_int) (p_number sp (sp_uint64 sp) new_uint64))"

text \<open>The rules that use \<open>value_\<close> have its parser as an argument.\<close>

definition json_pair :: "spirit \<Rightarrow> parser \<Rightarrow> parser" where
  "json_pair sp value =
     p_seq (json_string sp new_name)
       (p_seq (p_or (p_ch sp (CHR '':'') no_action) (p_throw ''no colon in pair''))
         (p_or value (p_throw ''not a value'')))"

definition json_members :: "spirit \<Rightarrow> parser \<Rightarrow> parser" where
  "json_members sp value =
     p_seq (json_pair sp value) (p_star (p_seq (p_ch sp (CHR '','') no_action) (json_pair sp value)))"

definition json_object :: "spirit \<Rightarrow> parser \<Rightarrow> parser" where
  "json_object sp value =
     p_seq (p_ch sp (CHR ''{'') begin_obj)
       (p_seq (p_opt (json_members sp value))
         (p_or (p_ch sp (CHR ''}'') end_obj) (p_throw ''not an object'')))"

definition json_elements :: "spirit \<Rightarrow> parser \<Rightarrow> parser" where
  "json_elements sp value = p_seq value (p_star (p_seq (p_ch sp (CHR '','') no_action) value))"

definition json_array :: "spirit \<Rightarrow> parser \<Rightarrow> parser" where
  "json_array sp value =
     p_seq (p_ch sp (CHR ''['') begin_array)
       (p_seq (p_opt (json_elements sp value))
         (p_or (p_ch sp (CHR '']'') end_array) (p_throw ''not an array'')))"

text \<open>\<open>value_\<close>, down to a depth of nesting.\<close>

primrec json_value :: "spirit \<Rightarrow> nat \<Rightarrow> parser" where
  "json_value sp 0 = (\<lambda>s. slift (Inl out_of_rounds))"
| "json_value sp (Suc n) =
     (let value = json_value sp n in
      p_or (json_string sp new_str)
        (p_or (json_number sp)
          (p_or (json_object sp value)
            (p_or (json_array sp value)
              (p_or (p_token sp (str_p ''true'') new_true)
                (p_or (p_token sp (str_p ''false'') new_false)
                  (p_token sp (str_p ''null'') new_null)))))))"

declare json_value.simps [simp del]

lemmas json_value_eqs [simp] = json_value.simps [unfolded Let_def]

definition json_start :: "spirit \<Rightarrow> parser" where
  "json_start sp s = p_or (json_value sp (Suc (length s))) (p_throw ''not a value'') s"

section \<open>Reading\<close>

text \<open>What is left of the text, and the value, which keeps what was built before an error.\<close>

definition read_range_or_throw :: "spirit \<Rightarrow> string \<Rightarrow> jvalue \<Rightarrow> string res \<times> jvalue" where
  "read_range_or_throw sp s v =
     (case json_start sp s (Semantic_actions v) of
        (Inl e, a) \<Rightarrow> (Inl e, sa_value a)
      | (Inr None, a) \<Rightarrow> (Inl (Undefined ''assert''), sa_value a)
      | (Inr (Some rest), a) \<Rightarrow> (Inr rest, sa_value a))"

text \<open>The variants that return a bool: \<open>catch (..)\<close> takes whatever the grammar throws.  On success the
  caller's iterator is moved to what is left.\<close>

definition read_range :: "spirit \<Rightarrow> string \<Rightarrow> jvalue \<Rightarrow> (bool \<times> string) res \<times> jvalue" where
  "read_range sp s v =
     (case read_range_or_throw sp s v of
        (Inr rest, v') \<Rightarrow> (Inr (True, rest), v')
      | (Inl (Undefined e), v') \<Rightarrow> (Inl (Undefined e), v')
      | (Inl _, v') \<Rightarrow> (Inr (False, s), v'))"

definition read_string :: "spirit \<Rightarrow> string \<Rightarrow> jvalue \<Rightarrow> bool res \<times> jvalue" where
  "read_string sp s v = (case read_range sp s v of (r, v') \<Rightarrow> (rmap fst r, v'))"

text \<open>\<open>JsonObject::read\<close>: from a stream (whose text is read to its end, white space included) or a
  string.\<close>

definition read_or_throw :: "spirit \<Rightarrow> string \<Rightarrow> jvalue \<Rightarrow> unit res \<times> jvalue" where
  "read_or_throw sp s v = (case read_range_or_throw sp s v of (r, v') \<Rightarrow> (rmap (\<lambda>_. ()) r, v'))"

definition JsonObject_read_text :: "spirit \<Rightarrow> string \<Rightarrow> jvalue \<Rightarrow> bool res \<times> jvalue" where
  "JsonObject_read_text sp s v =
     (case read_or_throw sp s v of
        (Inr _, v') \<Rightarrow> (Inr True, v')
      | (Inl (Error_position _), v') \<Rightarrow> (Inr False, v')
      | (Inl e, v') \<Rightarrow> (Inl e, v'))"

text \<open>As the reader that the other components take as an argument; that it is never the last case is
  a theorem below.\<close>

definition json_spirit :: "spirit \<Rightarrow> json_reader" where
  "json_spirit sp s v =
     (case JsonObject_read_text sp s v of (Inr ok, v') \<Rightarrow> (ok, v') | (Inl _, v') \<Rightarrow> (False, v'))"

section \<open>A reader without actions\<close>

text \<open>The same grammar as a recursive descent that returns the value it reads and what is left.\<close>

type_synonym 'x reader = "string \<Rightarrow> ('x \<times> string) option res"

definition token :: "spirit \<Rightarrow> (string \<Rightarrow> nat option) \<Rightarrow> string \<Rightarrow> (string \<times> string) option" where
  "token sp t s = map_option (\<lambda>n. (take n (skip sp s), drop n (skip sp s))) (t (skip sp s))"

definition ref_token :: "spirit \<Rightarrow> (string \<Rightarrow> nat option) \<Rightarrow> (string \<Rightarrow> 'x) \<Rightarrow> 'x reader" where
  "ref_token sp t mk s = Inr (map_option (\<lambda>(m, r). (mk m, r)) (token sp t s))"

definition ref_number :: "spirit \<Rightarrow> (string \<Rightarrow> ('n \<times> nat) option) \<Rightarrow> ('n \<Rightarrow> 'x) \<Rightarrow> 'x reader" where
  "ref_number sp t mk s = Inr (map_option (\<lambda>(x, n). (mk x, drop n (skip sp s))) (t (skip sp s)))"

definition ref_or :: "'x reader \<Rightarrow> 'x reader \<Rightarrow> 'x reader" where
  "ref_or p q s = rbind (p s) (\<lambda>r. case r of Some x \<Rightarrow> Inr (Some x) | None \<Rightarrow> q s)"

primrec ref_rounds :: "nat \<Rightarrow> 'x reader \<Rightarrow> string \<Rightarrow> ('x list \<times> string) res" where
  "ref_rounds 0 p = (\<lambda>s. Inl out_of_rounds)"
| "ref_rounds (Suc k) p =
     (\<lambda>s. rbind (p s) (\<lambda>r. case r of
        None \<Rightarrow> Inr ([], s)
      | Some (x, s') \<Rightarrow> rmap (\<lambda>(xs, s''). (x # xs, s'')) (ref_rounds k p s')))"

definition ref_comma :: "spirit \<Rightarrow> 'x reader \<Rightarrow> 'x reader" where
  "ref_comma sp p s = (case token sp (str_p '','') s of None \<Rightarrow> Inr None | Some (_, s') \<Rightarrow> p s')"

definition ref_list :: "spirit \<Rightarrow> 'x reader \<Rightarrow> string \<Rightarrow> ('x list \<times> string) res" where
  "ref_list sp p s =
     rbind (p s) (\<lambda>r. case r of
       None \<Rightarrow> Inr ([], s)
     | Some (x, s') \<Rightarrow>
         rmap (\<lambda>(xs, s''). (x # xs, s'')) (ref_rounds (Suc (length s')) (ref_comma sp p) s'))"

definition ref_compound ::
  "spirit \<Rightarrow> string \<Rightarrow> string \<Rightarrow> string \<Rightarrow> ('x list \<Rightarrow> jvalue) \<Rightarrow> 'x reader \<Rightarrow> jvalue reader" where
  "ref_compound sp opening closing reason mk p s =
     (case token sp (str_p opening) s of
        None \<Rightarrow> Inr None
      | Some (_, s') \<Rightarrow>
          rbind (ref_list sp p s') (\<lambda>(xs, s'').
            case token sp (str_p closing) s'' of
              None \<Rightarrow> Inl (Error_position reason)
            | Some (_, rest) \<Rightarrow> Inr (Some (mk xs, rest))))"

definition ref_pair :: "spirit \<Rightarrow> jvalue reader \<Rightarrow> (string \<times> jvalue) reader" where
  "ref_pair sp value s =
     (case token sp (string_lexeme sp) s of
        None \<Rightarrow> Inr None
      | Some (m, s') \<Rightarrow>
          (case token sp (str_p '':'') s' of
             None \<Rightarrow> Inl (Error_position ''no colon in pair'')
           | Some (_, s'') \<Rightarrow>
               rbind (value s'') (\<lambda>r. case r of
                 None \<Rightarrow> Inl (Error_position ''not a value'')
               | Some (v, rest) \<Rightarrow> Inr (Some ((get_str_literal m, v), rest)))))"

primrec ref_value :: "spirit \<Rightarrow> nat \<Rightarrow> jvalue reader" where
  "ref_value sp 0 = (\<lambda>s. Inl out_of_rounds)"
| "ref_value sp (Suc n) =
     (let value = ref_value sp n in
      ref_or (ref_token sp (string_lexeme sp) (\<lambda>m. Str (get_str_literal m)))
        (ref_or (ref_or (ref_number sp (sp_strict_real sp) Real)
                  (ref_or (ref_number sp (sp_int64 sp) Int64) (ref_number sp (sp_uint64 sp) Uint64)))
          (ref_or (ref_compound sp ''{'' ''}'' ''not an object'' Obj (ref_pair sp value))
            (ref_or (ref_compound sp ''['' '']'' ''not an array'' Arr value)
              (ref_or (ref_token sp (str_p ''true'') (\<lambda>_. Bool True))
                (ref_or (ref_token sp (str_p ''false'') (\<lambda>_. Bool False))
                  (ref_token sp (str_p ''null'') (\<lambda>_. Null))))))))"

declare ref_value.simps [simp del]

lemmas ref_value_eqs [simp] = ref_value.simps [unfolded Let_def]

definition ref_read :: "spirit \<Rightarrow> string \<Rightarrow> (jvalue \<times> string) res" where
  "ref_read sp s =
     rbind (ref_value sp (Suc (length s)) s) (\<lambda>r. case r of
       None \<Rightarrow> Inl (Error_position ''not a value'')
     | Some vr \<Rightarrow> Inr vr)"

section \<open>The actions build the value\<close>

text \<open>\<open>put v a a'\<close>: the value \<open>v\<close> has been added to what is being built, whatever the last name.\<close>

definition put :: "jvalue \<Rightarrow> actions \<Rightarrow> actions \<Rightarrow> bool" where
  "put v a a' \<longleftrightarrow> sa_stack a' = sa_stack a \<and>
     (case sa_current a of
        None \<Rightarrow> sa_current a' = Some [] \<and> sa_value a' = v
      | Some l \<Rightarrow> sa_current a' = Some l \<and>
          (\<exists>w. value_at (sa_value a) l = Some w \<and>
             sa_value a' = assign_at (sa_value a) l (appended w (sa_name a) v)))"

definition put_pair :: "string \<times> jvalue \<Rightarrow> actions \<Rightarrow> actions \<Rightarrow> bool" where
  "put_pair kv a a' \<longleftrightarrow> put (snd kv) (a\<lparr>sa_name := fst kv\<rparr>) a'"

text \<open>The current pointer is null or at an array or object; at a compound of one kind.\<close>

definition can_put :: "actions \<Rightarrow> bool" where
  "can_put a \<longleftrightarrow> (case sa_current a of
     None \<Rightarrow> True
   | Some l \<Rightarrow> \<exists>w. value_at (sa_value a) l = Some w \<and> vtype w \<in> {array_type, obj_type})"

definition inside :: "('x list \<Rightarrow> jvalue) \<Rightarrow> actions \<Rightarrow> bool" where
  "inside mk a \<longleftrightarrow> (\<exists>l xs. sa_current a = Some l \<and> value_at (sa_value a) l = Some (mk xs))"

text \<open>A parser does what a reader says: it throws where the reader throws, leaves the actions alone
  where the reader has no match, and otherwise leaves the same text and adds the value read.\<close>

definition simulates ::
  "(actions \<Rightarrow> bool) \<Rightarrow> ('x \<Rightarrow> actions \<Rightarrow> actions \<Rightarrow> bool) \<Rightarrow> 'x reader \<Rightarrow> parser \<Rightarrow> bool" where
  "simulates ok R r p \<longleftrightarrow> (\<forall>s a. ok a \<longrightarrow>
     (case r s of
        Inl e \<Rightarrow> fst (p s a) = Inl e
      | Inr None \<Rightarrow> p s a = (Inr None, a)
      | Inr (Some (x, s')) \<Rightarrow> \<exists>a'. R x a a' \<and> p s a = (Inr (Some s'), a')))"

lemma simulates_or:
  "simulates ok R r1 p1 \<Longrightarrow> simulates ok R r2 p2 \<Longrightarrow> simulates ok R (ref_or r1 r2) (p_or p1 p2)"
  by (fastforce simp: simulates_def ref_or_def p_or_def sbind_def sreturn_def rbind_def
        split: sum.splits option.splits prod.splits)

lemma p_token_token:
  "p_token sp t f s =
     (case token sp t s of None \<Rightarrow> sreturn None | Some (m, r) \<Rightarrow> sbind (f m) (\<lambda>_. sreturn (Some r)))"
  by (simp add: p_token_def token_def Let_def split: option.split)

lemma p_seq_no_action:
  "p_seq (p_ch sp c no_action) p s a =
     (case token sp (str_p [c]) s of None \<Rightarrow> (Inr None, a) | Some (_, r) \<Rightarrow> p r a)"
  by (cases "token sp (str_p [c]) s")
    (auto simp: p_seq_def p_ch_def p_token_token no_action_def sbind_def sreturn_def)

lemma simulates_token:
  assumes "\<And>s n a. t s = Some n \<Longrightarrow> ok a \<Longrightarrow> \<exists>a'. f (take n s) a = (Inr (), a') \<and> R (mk (take n s)) a a'"
  shows "simulates ok R (ref_token sp t mk) (p_token sp t f)"
  unfolding simulates_def
proof (intro allI impI)
  fix s a assume "ok a"
  with assms [of "skip sp s" _ a]
  show "case ref_token sp t mk s of Inl e \<Rightarrow> fst (p_token sp t f s a) = Inl e
      | Inr None \<Rightarrow> p_token sp t f s a = (Inr None, a)
      | Inr (Some (x, s')) \<Rightarrow> \<exists>a'. R x a a' \<and> p_token sp t f s a = (Inr (Some s'), a')"
    by (cases "t (skip sp s)")
      (fastforce simp: ref_token_def p_token_token token_def sbind_def sreturn_def)+
qed

lemma simulates_number:
  assumes "\<And>x a. ok a \<Longrightarrow> \<exists>a'. f x a = (Inr (), a') \<and> R (mk x) a a'"
  shows "simulates ok R (ref_number sp t mk) (p_number sp t f)"
  unfolding simulates_def
proof (intro allI impI)
  fix s a assume "ok a"
  with assms [of a]
  show "case ref_number sp t mk s of Inl e \<Rightarrow> fst (p_number sp t f s a) = Inl e
      | Inr None \<Rightarrow> p_number sp t f s a = (Inr None, a)
      | Inr (Some (x, s')) \<Rightarrow> \<exists>a'. R x a a' \<and> p_number sp t f s a = (Inr (Some s'), a')"
    by (cases "t (skip sp s)")
      (fastforce simp: ref_number_def p_number_def sbind_def sreturn_def Let_def split: prod.split)+
qed

lemma add_value_puts: "can_put a \<Longrightarrow> \<exists>a'. add_value v a = (Inr (), a') \<and> put v a a'"
  by (auto simp: add_value_def add_to_current_def add_first_def can_put_def put_def sbind_def sreturn_def
      split: option.splits)

lemma string_lexeme_bounds: "string_lexeme sp s = Some n \<Longrightarrow> 2 \<le> n \<and> n \<le> length s"
  by (auto simp: string_lexeme_def Let_def split: list.splits if_splits)

lemma str_p_take: "str_p kw s = Some n \<Longrightarrow> take n s = kw"
  by (auto simp: str_p_def prefix_def split: if_splits)

section \<open>Positions in what is built\<close>

lemma assign_at_same: "value_at v l = Some w \<Longrightarrow> assign_at v l w = v"
proof (induction v l w rule: assign_at.induct)
  case (2 v i l w)
  then show ?case by (cases v) (auto simp: list_update_id split: if_splits)
qed simp

lemma replace_child_replace_child: "replace_child (replace_child v i w) i u = replace_child v i u"
proof (cases v)
  case (Obj ms)
  then show ?thesis by (cases "i < length ms") (simp_all add: list_update_beyond)
qed simp_all

lemma assign_at_assign_at: "value_at v l = Some x \<Longrightarrow> assign_at (assign_at v l w) l u = assign_at v l u"
  by (induction v l w rule: assign_at.induct)
    (auto simp: children_replace replace_child_replace_child split: if_splits)

lemma assign_at_append:
  "value_at v l = Some w \<Longrightarrow> assign_at v (l @ l') u = assign_at v l (assign_at w l' u)"
  by (induction l arbitrary: v) (auto split: if_splits)

lemma length_children_appended:
  "vtype w \<in> {array_type, obj_type} \<Longrightarrow>
     children (appended w name v) = children w @ [v]
   \<and> replace_child (appended w name v) (length (children w)) u = appended w name u"
  by (cases w) (auto simp: list_update_append)

lemma children_compound [simp]: "vtype (appended w name v) = vtype w"
  by (cases w) auto

lemma value_at_child:
  assumes "value_at d l = Some w" and "vtype w \<in> {array_type, obj_type}"
  shows "value_at (assign_at d l (appended w name v)) (l @ [length (children w)]) = Some v"
    and "assign_at (assign_at d l (appended w name v)) (l @ [length (children w)]) u
       = assign_at d l (appended w name u)"
  using length_children_appended [OF assms(2), of name v] value_at_assign_same [OF assms(1)] assms(1)
  by (auto simp: value_at_append assign_at_append [where w = "appended w name v"] assign_at_assign_at)

section \<open>Compounds\<close>

text \<open>
  What is common to arrays and objects: \<open>mk\<close> makes the compound of its items and \<open>R\<close> says that an
  item has been added.  Its law is that adding an item to a compound that is current appends it.
\<close>

fun each :: "('x \<Rightarrow> 's \<Rightarrow> 's \<Rightarrow> bool) \<Rightarrow> 'x list \<Rightarrow> 's \<Rightarrow> 's \<Rightarrow> bool" where
  "each R [] a a' \<longleftrightarrow> a' = a"
| "each R (x # xs) a a' \<longleftrightarrow> (\<exists>b. R x a b \<and> each R xs b a')"

locale compound =
  fixes mk :: "'x list \<Rightarrow> jvalue" and R :: "'x \<Rightarrow> actions \<Rightarrow> actions \<Rightarrow> bool"
  assumes mk_type: "vtype (mk xs) \<in> {array_type, obj_type}"
    and R_appends: "sa_current a = Some l \<Longrightarrow> value_at (sa_value a) l = Some (mk xs) \<Longrightarrow> R x a a' \<Longrightarrow>
      sa_current a' = Some l \<and> sa_stack a' = sa_stack a
      \<and> sa_value a' = assign_at (sa_value a) l (mk (xs @ [x]))"
begin

lemma inside_step:
  assumes "inside mk a" and "R x a a'"
  shows "inside mk a'"
proof -
  from assms(1) obtain l xs where l: "sa_current a = Some l" "value_at (sa_value a) l = Some (mk xs)"
    by (auto simp: inside_def)
  from R_appends [OF l assms(2)] value_at_assign_same [OF l(2)] show ?thesis
    by (auto simp: inside_def)
qed

lemma each_appends:
  assumes "sa_current a = Some l" and "value_at (sa_value a) l = Some (mk xs)" and "each R ys a a'"
  shows "sa_current a' = Some l \<and> sa_stack a' = sa_stack a
    \<and> sa_value a' = assign_at (sa_value a) l (mk (xs @ ys))"
  using assms
proof (induction ys arbitrary: xs a)
  case Nil
  then show ?case by (simp add: assign_at_same)
next
  case (Cons y ys)
  from Cons.prems(3) obtain b where b: "R y a b" "each R ys b a'" by auto
  from R_appends [OF Cons.prems(1,2) b(1)]
  have c: "sa_current b = Some l" "sa_stack b = sa_stack a"
    "sa_value b = assign_at (sa_value a) l (mk (xs @ [y]))" by simp_all
  then have "value_at (sa_value b) l = Some (mk (xs @ [y]))"
    using value_at_assign_same [OF Cons.prems(2)] by simp
  from Cons.IH [OF c(1) this b(2)] c show ?case
    by (simp add: assign_at_assign_at [OF Cons.prems(2)])
qed

lemma rounds_simulated:
  assumes "simulates (inside mk) R r p" and "inside mk a"
  shows "case ref_rounds k r s of
      Inl e \<Rightarrow> fst (p_rounds k p s a) = Inl e
    | Inr (xs, s') \<Rightarrow> \<exists>a'. each R xs a a' \<and> p_rounds k p s a = (Inr (Some s'), a')"
  using assms(2)
proof (induction k arbitrary: s a)
  case 0
  then show ?case by (simp add: slift_def)
next
  case (Suc k)
  from assms(1) Suc.prems have one: "case r s of Inl e \<Rightarrow> fst (p s a) = Inl e
      | Inr None \<Rightarrow> p s a = (Inr None, a)
      | Inr (Some (x, s')) \<Rightarrow> \<exists>a'. R x a a' \<and> p s a = (Inr (Some s'), a')"
    by (simp add: simulates_def)
  show ?case
  proof (cases "r s")
    case (Inl e)
    with one show ?thesis by (cases "p s a") (simp add: sbind_def)
  next
    case (Inr o1)
    show ?thesis
    proof (cases o1)
      case None
      with one Inr show ?thesis by (simp add: sbind_def sreturn_def)
    next
      case (Some xs')
      obtain x s' where x: "xs' = (x, s')" by (cases xs')
      with one Inr Some obtain b where b: "R x a b" "p s a = (Inr (Some s'), b)" by auto
      from Suc.IH [OF inside_step [OF Suc.prems b(1)], of s'] show ?thesis
        using Inr Some x b by (cases "ref_rounds k r s'") (auto simp: sbind_def)
    qed
  qed
qed

lemma comma_simulated:
  "simulates (inside mk) R r p \<Longrightarrow> simulates (inside mk) R (ref_comma sp r) (p_seq (p_ch sp (CHR '','') no_action) p)"
  unfolding simulates_def
proof (intro allI impI, goal_cases)
  case (1 s a)
  show ?case
  proof (cases "token sp (str_p '','') s")
    case None
    then show ?thesis by (simp add: ref_comma_def p_seq_no_action)
  next
    case (Some mr)
    obtain m s' where "mr = (m, s')" by (cases mr)
    with Some have go: "ref_comma sp r s = r s'" "p_seq (p_ch sp (CHR '','') no_action) p s a = p s' a"
      by (simp_all add: ref_comma_def p_seq_no_action)
    show ?thesis using 1 unfolding go by blast
  qed
qed

lemma list_simulated:
  assumes "simulates (inside mk) R r p" and "inside mk a"
  shows "case ref_list sp r s of
      Inl e \<Rightarrow> fst (p_opt (p_seq p (p_star (p_seq (p_ch sp (CHR '','') no_action) p))) s a) = Inl e
    | Inr (xs, s') \<Rightarrow> \<exists>a'. each R xs a a'
        \<and> p_opt (p_seq p (p_star (p_seq (p_ch sp (CHR '','') no_action) p))) s a = (Inr (Some s'), a')"
proof -
  from assms have one: "case r s of Inl e \<Rightarrow> fst (p s a) = Inl e
      | Inr None \<Rightarrow> p s a = (Inr None, a)
      | Inr (Some (x, s')) \<Rightarrow> \<exists>a'. R x a a' \<and> p s a = (Inr (Some s'), a')"
    by (simp add: simulates_def)
  show ?thesis
  proof (cases "r s")
    case (Inl e)
    with one show ?thesis by (cases "p s a") (simp add: sbind_def p_opt_def p_seq_def ref_list_def)
  next
    case (Inr o1)
    show ?thesis
    proof (cases o1)
      case None
      with one Inr show ?thesis by (simp add: sbind_def sreturn_def p_opt_def p_seq_def ref_list_def)
    next
      case (Some xs')
      obtain x s' where x: "xs' = (x, s')" by (cases xs')
      with one Inr Some obtain b where b: "R x a b" "p s a = (Inr (Some s'), b)" by auto
      from rounds_simulated [OF comma_simulated [OF assms(1)] inside_step [OF assms(2) b(1)],
          of "Suc (length s')" sp s']
      show ?thesis
        using Inr Some x b
        by (cases "ref_rounds (Suc (length s')) (ref_comma sp r) s'";
            cases "p_rounds (Suc (length s')) (p_seq (p_ch sp (CHR '','') no_action) p) s' b")
          (auto simp: sbind_def sreturn_def p_opt_def p_seq_def p_star_def ref_list_def
            simp del: ref_rounds.simps p_rounds.simps)
    qed
  qed
qed

text \<open>Beginning a compound makes it the current one; ending it goes back.\<close>

lemma begin_end:
  assumes "can_put a"
  shows "\<exists>b lb. begin_compound (mk []) a = (Inr (), b) \<and> sa_current b = Some lb
    \<and> value_at (sa_value b) lb = Some (mk [])
    \<and> (\<forall>c xs. sa_current c = Some lb \<longrightarrow> sa_stack c = sa_stack b \<longrightarrow>
         sa_value c = assign_at (sa_value b) lb (mk xs) \<longrightarrow>
         (\<exists>c'. end_compound c = (Inr (), c') \<and> put (mk xs) a c'))"
proof (cases "sa_current a")
  case None
  then show ?thesis
    by (auto simp: begin_compound_def add_first_def end_compound_def put_def sbind_def sreturn_def)
next
  case (Some l)
  with assms obtain w where w: "value_at (sa_value a) l = Some w" "vtype w \<in> {array_type, obj_type}"
    by (auto simp: can_put_def)
  let ?lb = "l @ [length (children w)]"
  let ?b = "a\<lparr>sa_stack := sa_stack a @ [l],
              sa_value := assign_at (sa_value a) l (appended w (sa_name a) (mk [])),
              sa_current := Some ?lb\<rparr>"
  have "begin_compound (mk []) a = (Inr (), ?b)"
    using Some w by (auto simp: begin_compound_def add_to_current_def sbind_def)
  moreover have "\<exists>c'. end_compound c = (Inr (), c') \<and> put (mk xs) a c'"
    if "sa_current c = Some ?lb" "sa_stack c = sa_stack ?b" "sa_value c = assign_at (sa_value ?b) ?lb (mk xs)"
    for c xs
    using that Some w value_at_child(2) [OF w, of "sa_name a" "mk []" "mk xs"]
    by (auto simp: end_compound_def put_def)
  ultimately show ?thesis
    using value_at_child(1) [OF w, of "sa_name a" "mk []"]
    by (intro exI [of _ ?b] exI [of _ ?lb]) simp
qed

lemma compound_simulated:
  assumes "simulates (inside mk) R r p"
  shows "simulates can_put put (ref_compound sp [op1] [cl] reason mk r)
    (p_seq (p_ch sp op1 (\<lambda>_. begin_compound (mk [])))
      (p_seq (p_opt (p_seq p (p_star (p_seq (p_ch sp (CHR '','') no_action) p))))
        (p_or (p_ch sp cl (\<lambda>_. end_compound)) (p_throw reason))))"
    (is "simulates _ _ _ (p_seq ?open (p_seq ?items ?close))")
  unfolding simulates_def
proof (intro allI impI)
  fix s a assume "can_put a"
  from begin_end [OF this] obtain b lb where b: "begin_compound (mk []) a = (Inr (), b)"
    "sa_current b = Some lb" "value_at (sa_value b) lb = Some (mk [])"
    and ended: "\<And>c xs. sa_current c = Some lb \<Longrightarrow> sa_stack c = sa_stack b \<Longrightarrow>
         sa_value c = assign_at (sa_value b) lb (mk xs) \<Longrightarrow>
         \<exists>c'. end_compound c = (Inr (), c') \<and> put (mk xs) a c'" by blast
  have "inside mk b" using b by (auto simp: inside_def)
  note items = list_simulated [OF assms this, of sp]
  show "case ref_compound sp [op1] [cl] reason mk r s of
      Inl e \<Rightarrow> fst (p_seq ?open (p_seq ?items ?close) s a) = Inl e
    | Inr None \<Rightarrow> p_seq ?open (p_seq ?items ?close) s a = (Inr None, a)
    | Inr (Some (x, s')) \<Rightarrow> \<exists>a'. put x a a' \<and> p_seq ?open (p_seq ?items ?close) s a = (Inr (Some s'), a')"
  proof (cases "token sp (str_p [op1]) s")
    case None
    then show ?thesis by (simp add: ref_compound_def p_seq_def p_ch_def p_token_token sbind_def sreturn_def)
  next
    case (Some mr)
    obtain m s1 where mr: "mr = (m, s1)" by (cases mr)
    have go: "p_seq ?open (p_seq ?items ?close) s a = p_seq ?items ?close s1 b"
      using Some mr b(1) by (simp add: p_seq_def p_ch_def p_token_token sbind_def sreturn_def)
    show ?thesis
    proof (cases "ref_list sp r s1")
      case (Inl e)
      with items [of s1] Some mr show ?thesis unfolding go
        by (cases "?items s1 b") (simp add: ref_compound_def p_seq_def sbind_def)
    next
      case (Inr xr)
      obtain xs s2 where xr: "xr = (xs, s2)" by (cases xr)
      with items [of s1] Inr obtain c where c: "each R xs b c" "?items s1 b = (Inr (Some s2), c)" by auto
      from each_appends [OF b(2,3) c(1)] ended [of c xs] obtain c' where
        "end_compound c = (Inr (), c')" "put (mk xs) a c'" by auto
      with c Inr xr Some mr show ?thesis unfolding go
        by (cases "token sp (str_p [cl]) s2")
          (auto simp: ref_compound_def p_seq_def p_or_def p_ch_def p_throw_def p_token_token sbind_def
            sreturn_def slift_def)
    qed
  qed
qed

end

text \<open>Arrays, whose items are added under whatever name, and objects, whose items carry theirs.\<close>

interpretation arrays: compound Arr put
  by unfold_locales (auto simp: put_def)

interpretation objects: compound Obj put_pair
  by unfold_locales (auto simp: put_pair_def put_def)

section \<open>The grammar is the reader\<close>

text \<open>The name of a pair is set before its value is added, and a nested object may change it only
  after that.\<close>

lemma new_name_sets:
  assumes "inside Obj a" and "2 \<le> length m"
  shows "new_name m a = (Inr (), a\<lparr>sa_name := get_str_literal m\<rparr>)"
  using assms by (auto simp: inside_def new_name_def get_str_lit_def sbind_def sreturn_def)

lemma inside_can_put: "inside Arr a \<Longrightarrow> can_put a" "inside Obj a \<Longrightarrow> can_put a"
  by (auto simp: inside_def can_put_def)

lemma pair_simulated:
  assumes "simulates can_put put value p"
  shows "simulates (inside Obj) put_pair (ref_pair sp value) (json_pair sp p)"
  unfolding simulates_def
proof (intro allI impI)
  fix s a assume a: "inside Obj a"
  show "case ref_pair sp value s of Inl e \<Rightarrow> fst (json_pair sp p s a) = Inl e
      | Inr None \<Rightarrow> json_pair sp p s a = (Inr None, a)
      | Inr (Some (x, s')) \<Rightarrow> \<exists>a'. put_pair x a a' \<and> json_pair sp p s a = (Inr (Some s'), a')"
  proof (cases "token sp (string_lexeme sp) s")
    case None
    then show ?thesis
      by (simp add: ref_pair_def json_pair_def json_string_def p_seq_def p_token_token sbind_def sreturn_def)
  next
    case (Some mr)
    obtain m s1 where mr: "mr = (m, s1)" by (cases mr)
    let ?a = "a\<lparr>sa_name := get_str_literal m\<rparr>"
    let ?rest = "p_seq (p_or (p_ch sp (CHR '':'') no_action) (p_throw ''no colon in pair''))
         (p_or p (p_throw ''not a value''))"
    from Some mr have "2 \<le> length m" by (auto simp: token_def dest: string_lexeme_bounds)
    from new_name_sets [OF a this] Some mr have go: "json_pair sp p s a = ?rest s1 ?a"
      by (simp add: json_pair_def json_string_def p_seq_def p_token_token sbind_def sreturn_def)
    have "inside Obj ?a" using a by (simp add: inside_def)
    from assms inside_can_put(2) [OF this] have one: "case value s of Inl e \<Rightarrow> fst (p s ?a) = Inl e
      | Inr None \<Rightarrow> p s ?a = (Inr None, ?a)
      | Inr (Some (x, s')) \<Rightarrow> \<exists>a'. put x ?a a' \<and> p s ?a = (Inr (Some s'), a')" for s
      by (simp add: simulates_def)
    show ?thesis
    proof (cases "token sp (str_p '':'') s1")
      case None
      then show ?thesis using Some mr unfolding go
        by (simp add: ref_pair_def p_seq_def p_or_def p_ch_def p_throw_def p_token_token sbind_def sreturn_def slift_def)
    next
      case (Some mr')
      then obtain m' s2 where s2: "token sp (str_p '':'') s1 = Some (m', s2)" by (cases mr') auto
      then have "p_or (p_ch sp (CHR '':'') no_action) (p_throw ''no colon in pair'') s1 ?a = (Inr (Some s2), ?a)"
        by (simp add: p_or_def p_ch_def p_token_token no_action_def sbind_def sreturn_def)
      then have "?rest s1 ?a = p_or p (p_throw ''not a value'') s2 ?a"
        by (simp add: p_seq_def sbind_def)
      then show ?thesis
        using \<open>token sp (string_lexeme sp) s = Some mr\<close> mr s2 one [of s2] unfolding go
        by (cases "p s2 ?a")
          (auto simp: ref_pair_def put_pair_def p_or_def p_throw_def sbind_def sreturn_def slift_def
            split: sum.splits option.splits)
    qed
  qed
qed

lemma number_simulated:
  "simulates can_put put
     (ref_or (ref_number sp (sp_strict_real sp) Real)
       (ref_or (ref_number sp (sp_int64 sp) Int64) (ref_number sp (sp_uint64 sp) Uint64)))
     (json_number sp)"
  unfolding json_number_def
  by (intro simulates_or simulates_number)
    (simp_all add: new_real_def new_int_def new_uint64_def add_value_puts)

lemma string_simulated:
  "simulates can_put put (ref_token sp (string_lexeme sp) (\<lambda>m. Str (get_str_literal m))) (json_string sp new_str)"
  unfolding json_string_def
  by (rule simulates_token)
    (auto simp: new_str_def get_str_lit_def sbind_def sreturn_def dest: string_lexeme_bounds
      intro: add_value_puts)

lemma keyword_simulated:
  "simulates can_put put (ref_token sp (str_p ''true'') (\<lambda>_. Bool True)) (p_token sp (str_p ''true'') new_true)"
  "simulates can_put put (ref_token sp (str_p ''false'') (\<lambda>_. Bool False)) (p_token sp (str_p ''false'') new_false)"
  "simulates can_put put (ref_token sp (str_p ''null'') (\<lambda>_. Null)) (p_token sp (str_p ''null'') new_null)"
  by (rule simulates_token;
      simp add: str_p_take new_true_def new_false_def new_null_def is_eq_def add_value_puts)+

lemma p_ch_action: "(\<And>a. f c a = g c a) \<Longrightarrow> p_ch sp c f = p_ch sp c g"
  by (intro ext)
    (auto simp: p_ch_def p_token_token token_def sbind_def dest!: str_p_take split: option.split)

lemma object_simulated:
  assumes "simulates can_put put value p"
  shows "simulates can_put put (ref_compound sp ''{'' ''}'' ''not an object'' Obj (ref_pair sp value))
    (json_object sp p)"
proof -
  have acts: "p_ch sp (CHR ''{'') (\<lambda>_. begin_compound (Obj [])) = p_ch sp (CHR ''{'') begin_obj"
    "p_ch sp (CHR ''}'') (\<lambda>_. end_compound) = p_ch sp (CHR ''}'') end_obj"
    by (rule p_ch_action, simp add: begin_obj_def end_obj_def)+
  from objects.compound_simulated [OF pair_simulated [OF assms], of sp "CHR ''{''" "CHR ''}''" "''not an object''"]
  show ?thesis unfolding acts json_object_def json_members_def .
qed

lemma array_simulated:
  assumes "simulates can_put put value p"
  shows "simulates can_put put (ref_compound sp ''['' '']'' ''not an array'' Arr value) (json_array sp p)"
proof -
  have acts: "p_ch sp (CHR ''['') (\<lambda>_. begin_compound (Arr [])) = p_ch sp (CHR ''['') begin_array"
    "p_ch sp (CHR '']'') (\<lambda>_. end_compound) = p_ch sp (CHR '']'') end_array"
    by (rule p_ch_action, simp add: begin_array_def end_array_def)+
  have "simulates (inside Arr) put value p"
    using assms inside_can_put(1) unfolding simulates_def by blast
  from arrays.compound_simulated [OF this, of sp "CHR ''[''" "CHR '']''" "''not an array''"]
  show ?thesis unfolding acts json_array_def json_elements_def .
qed

lemma value_simulated: "simulates can_put put (ref_value sp n) (json_value sp n)"
proof (induction n)
  case 0
  then show ?case by (simp add: simulates_def slift_def)
next
  case (Suc n)
  then show ?case unfolding ref_value_eqs json_value_eqs
    by (intro simulates_or string_simulated number_simulated object_simulated array_simulated keyword_simulated)
qed

lemma json_reader_builds:
  "case ref_read sp s of
     Inl e \<Rightarrow> fst (read_range_or_throw sp s old) = Inl e
   | Inr (v, rest) \<Rightarrow> read_range_or_throw sp s old = (Inr rest, v)"
proof -
  let ?a = "Semantic_actions old"
  have "can_put ?a" by (simp add: can_put_def Semantic_actions_def)
  with value_simulated [of sp "Suc (length s)"]
  have one: "case ref_value sp (Suc (length s)) s of Inl e \<Rightarrow> fst (json_value sp (Suc (length s)) s ?a) = Inl e
      | Inr None \<Rightarrow> json_value sp (Suc (length s)) s ?a = (Inr None, ?a)
      | Inr (Some (x, s')) \<Rightarrow> \<exists>a'. put x ?a a' \<and> json_value sp (Suc (length s)) s ?a = (Inr (Some s'), a')"
    by (simp add: simulates_def del: ref_value_eqs json_value_eqs)
  then show ?thesis
    by (cases "json_value sp (Suc (length s)) s ?a")
      (auto simp: ref_read_def read_range_or_throw_def json_start_def p_or_def p_throw_def sbind_def sreturn_def
        slift_def put_def Semantic_actions_def simp del: ref_value_eqs json_value_eqs split: sum.splits option.splits)
qed

text \<open>
  Claim C8.  The reader builds its value with pointers into the value itself, kept in a stack while
  nested objects and arrays are open; what it builds is what a plain recursive descent over the same
  grammar returns, for every text and whatever the parsers of Boost match.  So no pointer is ever
  null or dangling, no assertion fails, and on an error both throw the same reason.
\<close>

theorem read_range_or_throw_builds:
  "case ref_read sp s of
     Inl e \<Rightarrow> fst (read_range_or_throw sp s old) = Inl e
   | Inr (v, rest) \<Rightarrow> read_range_or_throw sp s old = (Inr rest, v)"
  by (rule json_reader_builds)

end
