(* ===== verification/Json_Text.thy ===== *)
theory Json_Text
  imports Json_Reader
begin

text \<open>
  What the JSON reader does with texts: it always ends, with a value or with the exception of the
  grammar; and what the generator writes, pretty or not, it reads back, integers that fit in 64 bits
  with a sign as signed ones.
\<close>

section \<open>Reading ends\<close>

text \<open>The number parsers take at least one character and not more than there are.\<close>

definition takes_text :: "(string \<Rightarrow> ('n \<times> nat) option) \<Rightarrow> bool" where
  "takes_text t \<longleftrightarrow> (\<forall>s x n. t s = Some (x, n) \<longrightarrow> 0 < n \<and> n \<le> length s)"

definition numbers_take_text :: "spirit \<Rightarrow> bool" where
  "numbers_take_text sp \<longleftrightarrow>
     takes_text (sp_strict_real sp) \<and> takes_text (sp_int64 sp) \<and> takes_text (sp_uint64 sp)"

text \<open>On a text shorter than \<open>k\<close>, a reader ends with an exception of the grammar, without a match, or
  with less text.\<close>

definition progresses :: "nat \<Rightarrow> 'x reader \<Rightarrow> bool" where
  "progresses k r \<longleftrightarrow> (\<forall>s. length s < k \<longrightarrow>
     (case r s of
        Inl e \<Rightarrow> \<exists>reason. e = Error_position reason
      | Inr None \<Rightarrow> True
      | Inr (Some (x, s')) \<Rightarrow> strict_suffix s' s))"

lemma skip_suffix: "suffix (skip sp s) s"
proof (induction sp s rule: skip.induct)
  case (2 sp c s)
  show ?case
  proof (cases "skip_one sp (c # s)")
    case (Some n)
    with 2 have "suffix (skip sp (c # s)) (drop (n - 1) s)" by simp
    also have "suffix (drop (n - 1) s) (c # s)" by (simp add: suffix_ConsI suffix_drop)
    finally show ?thesis .
  qed simp
qed simp

lemma drop_skip_suffix: "0 < n \<Longrightarrow> n \<le> length (skip sp s) \<Longrightarrow> strict_suffix (drop n (skip sp s)) s"
  using skip_suffix [of sp s] suffix_drop [of n "skip sp s"]
  by (metis diff_less length_drop order_less_le_trans less_irrefl strict_suffix_def suffix_order.trans suffix_length_le)

lemma token_suffix:
  assumes "token sp t s = Some (m, r)" and "\<And>s n. t s = Some n \<Longrightarrow> 0 < n \<and> n \<le> length s"
  shows "strict_suffix r s"
  using assms drop_skip_suffix by (fastforce simp: token_def)

lemma token_str_suffix: "token sp (str_p (c # cs)) s = Some (m, r) \<Longrightarrow> strict_suffix r s"
  by (erule token_suffix) (auto simp: str_p_def split: if_splits dest: prefix_length_le)

lemma token_string_suffix: "token sp (string_lexeme sp) s = Some (m, r) \<Longrightarrow> strict_suffix r s"
  by (rule token_suffix) (auto dest: string_lexeme_bounds)

lemma progresses_or: "progresses k p \<Longrightarrow> progresses k q \<Longrightarrow> progresses k (ref_or p q)"
  unfolding progresses_def ref_or_def
  by (fastforce simp: rbind_def split: sum.splits option.splits)

lemma progresses_token:
  assumes "\<And>s m r. token sp t s = Some (m, r) \<Longrightarrow> strict_suffix r s"
  shows "progresses k (ref_token sp t mk)"
  using assms by (auto simp: progresses_def ref_token_def split: option.split)

lemma progresses_number: "takes_text t \<Longrightarrow> progresses k (ref_number sp t mk)"
  by (auto simp: progresses_def ref_number_def takes_text_def drop_skip_suffix split: option.split)

lemma progresses_comma: "progresses k p \<Longrightarrow> progresses k (ref_comma sp p)"
  unfolding progresses_def
proof (intro allI impI, goal_cases)
  case (1 s)
  show ?case
  proof (cases "token sp (str_p '','') s")
    case (Some mr)
    then obtain m r where r: "token sp (str_p '','') s = Some (m, r)" by (cases mr) auto
    note suf = token_str_suffix [OF r]
    with 1 suffix_length_less [OF suf] have "case p r of Inl e \<Rightarrow> \<exists>reason. e = Error_position reason
      | Inr None \<Rightarrow> True | Inr (Some (x, s')) \<Rightarrow> strict_suffix s' r" by simp
    with r suf show ?thesis
      by (auto simp: ref_comma_def split: sum.splits option.splits intro: suffix_order.less_trans)
  qed (simp add: ref_comma_def)
qed

lemma rounds_progress:
  assumes "progresses k p"
  shows "length s < j \<Longrightarrow> length s < k \<Longrightarrow>
    (case ref_rounds j p s of Inl e \<Rightarrow> \<exists>reason. e = Error_position reason | Inr (xs, s') \<Rightarrow> suffix s' s)"
proof (induction j arbitrary: s)
  case (Suc j)
  from assms Suc.prems have one: "case p s of Inl e \<Rightarrow> \<exists>reason. e = Error_position reason
      | Inr None \<Rightarrow> True | Inr (Some (x, s')) \<Rightarrow> strict_suffix s' s"
    by (simp add: progresses_def)
  show ?case
  proof (cases "p s")
    case (Inr o1)
    show ?thesis
    proof (cases o1)
      case (Some xs')
      obtain x s' where x: "xs' = (x, s')" by (cases xs')
      with one Inr Some have s': "strict_suffix s' s" by simp
      with Suc.IH [of s'] Suc.prems suffix_length_less [OF s'] Inr Some x show ?thesis
        by (cases "ref_rounds j p s'") (auto intro: suffix_order.trans suffix_order.less_imp_le)
    qed (use Inr in simp)
  qed (use one in simp)
qed simp

lemma list_progress:
  assumes "progresses k p" and "length s < k"
  shows "case ref_list sp p s of Inl e \<Rightarrow> \<exists>reason. e = Error_position reason | Inr (xs, s') \<Rightarrow> suffix s' s"
proof -
  from assms have one: "case p s of Inl e \<Rightarrow> \<exists>reason. e = Error_position reason
      | Inr None \<Rightarrow> True | Inr (Some (x, s')) \<Rightarrow> strict_suffix s' s"
    by (simp add: progresses_def)
  show ?thesis
  proof (cases "p s")
    case (Inr o1)
    show ?thesis
    proof (cases o1)
      case (Some xs')
      obtain x s' where x: "xs' = (x, s')" by (cases xs')
      with one Inr Some have s': "strict_suffix s' s" by simp
      with rounds_progress [OF progresses_comma [OF assms(1)], of s' "Suc (length s')" sp] assms(2)
        suffix_length_less [OF s'] Inr Some x
      show ?thesis
        by (cases "ref_rounds (Suc (length s')) (ref_comma sp p) s'")
          (auto simp: ref_list_def simp del: ref_rounds.simps intro: suffix_order.trans suffix_order.less_imp_le)
    qed (use Inr in \<open>simp add: ref_list_def\<close>)
  qed (use one in \<open>simp add: ref_list_def\<close>)
qed

lemma progresses_compound:
  assumes "progresses k p"
  shows "progresses (Suc k) (ref_compound sp [op1] [cl] reason mk p)"
  unfolding progresses_def
proof (intro allI impI)
  fix s :: string assume len: "length s < Suc k"
  show "case ref_compound sp [op1] [cl] reason mk p s of Inl e \<Rightarrow> \<exists>reason. e = Error_position reason
      | Inr None \<Rightarrow> True | Inr (Some (x, s')) \<Rightarrow> strict_suffix s' s"
  proof (cases "token sp (str_p [op1]) s")
    case None
    then show ?thesis by (simp add: ref_compound_def)
  next
    case (Some mr)
    then obtain m s1 where s1: "token sp (str_p [op1]) s = Some (m, s1)" by (cases mr) auto
    from token_str_suffix [OF s1] have suf: "strict_suffix s1 s" .
    with len suffix_length_less [OF suf] list_progress [OF assms, of s1 sp]
    have one: "case ref_list sp p s1 of Inl e \<Rightarrow> \<exists>reason. e = Error_position reason | Inr (xs, s') \<Rightarrow> suffix s' s1"
      by simp
    show ?thesis
    proof (cases "ref_list sp p s1")
      case (Inl e)
      with one s1 show ?thesis by (simp add: ref_compound_def)
    next
      case (Inr xr)
      obtain xs s2 where xr: "xr = (xs, s2)" by (cases xr)
      with one Inr have "suffix s2 s1" by simp
      with suf have s2: "strict_suffix s2 s" by (metis suffix_order.le_less_trans)
      then show ?thesis using Inr xr s1
        by (cases "token sp (str_p [cl]) s2")
          (auto simp: ref_compound_def dest!: token_str_suffix intro: suffix_order.less_trans)
    qed
  qed
qed

lemma progresses_pair:
  assumes "progresses k value"
  shows "progresses k (ref_pair sp value)"
  unfolding progresses_def
proof (intro allI impI)
  fix s :: string assume len: "length s < k"
  show "case ref_pair sp value s of Inl e \<Rightarrow> \<exists>reason. e = Error_position reason
      | Inr None \<Rightarrow> True | Inr (Some (x, s')) \<Rightarrow> strict_suffix s' s"
  proof (cases "token sp (string_lexeme sp) s")
    case None
    then show ?thesis by (simp add: ref_pair_def)
  next
    case (Some mr)
    then obtain m s1 where s1: "token sp (string_lexeme sp) s = Some (m, s1)" by (cases mr) auto
    show ?thesis
    proof (cases "token sp (str_p '':'') s1")
      case None
      with s1 show ?thesis by (simp add: ref_pair_def)
    next
      case (Some mr')
      then obtain m' s2 where s2: "token sp (str_p '':'') s1 = Some (m', s2)" by (cases mr') auto
      have suf: "strict_suffix s2 s"
        using token_string_suffix [OF s1] token_str_suffix [OF s2] by (rule suffix_order.less_trans [rotated])
      with assms len suffix_length_less [OF suf]
      have "case value s2 of Inl e \<Rightarrow> \<exists>reason. e = Error_position reason
        | Inr None \<Rightarrow> True | Inr (Some (x, s')) \<Rightarrow> strict_suffix s' s2"
        by (simp add: progresses_def)
      then show ?thesis using s1 s2 suf
        by (auto simp: ref_pair_def rbind_def split: sum.splits option.splits intro: suffix_order.less_trans)
    qed
  qed
qed

lemma value_progresses: "numbers_take_text sp \<Longrightarrow> progresses n (ref_value sp n)"
proof (induction n)
  case 0
  then show ?case by (simp add: progresses_def)
next
  case (Suc n)
  then show ?case unfolding ref_value_eqs numbers_take_text_def
    by (intro progresses_or progresses_token progresses_number progresses_compound progresses_pair)
      (auto intro: token_string_suffix token_str_suffix)
qed

lemma ref_read_ends:
  assumes "numbers_take_text sp"
  shows "case ref_read sp s of Inl e \<Rightarrow> \<exists>reason. e = Error_position reason | Inr (v, rest) \<Rightarrow> strict_suffix rest s"
  using value_progresses [OF assms, of "Suc (length s)"]
  by (auto simp: progresses_def ref_read_def rbind_def simp del: ref_value_eqs split: sum.splits option.splits)

lemma read_string_total:
  assumes "numbers_take_text sp"
  shows "read_string sp s old = JsonObject_read_text sp s old"
  using ref_read_ends [OF assms, of s] json_reader_builds [of sp s old]
  by (cases "read_range_or_throw sp s old")
    (auto simp: read_string_def read_range_def JsonObject_read_text_def read_or_throw_def split: sum.splits)

text \<open>
  Claim C10.  Reading ends on every text: the depth of nesting and the rounds of the lists that the
  length of the text allows are enough.  The reader returns a value and has used up some of the text,
  or throws the exception of the grammar; \<open>JsonObject::read\<close> returns true or false and throws nothing.
\<close>

theorem json_reading_ends:
  assumes "numbers_take_text sp"
  shows "(case fst (read_range_or_throw sp s old) of
      Inl e \<Rightarrow> \<exists>reason. e = Error_position reason
    | Inr rest \<Rightarrow> strict_suffix rest s)
    \<and> JsonObject_read_text sp s old
        = map_prod Inr (\<lambda>v. v) (json_spirit sp s old)"
proof -
  from ref_read_ends [OF assms, of s] json_reader_builds [of sp s old]
  have "case fst (read_range_or_throw sp s old) of Inl e \<Rightarrow> \<exists>reason. e = Error_position reason
    | Inr rest \<Rightarrow> strict_suffix rest s"
    by (auto split: sum.splits)
  then show ?thesis
    by (cases "read_range_or_throw sp s old")
      (auto simp: JsonObject_read_text_def json_spirit_def read_or_throw_def split: sum.splits)
qed

section \<open>Texts of the generator\<close>

text \<open>What the documentation of Boost.Spirit says of the parsers: comments begin with a slash, numbers
  with a digit, a sign or a point; a backslash and a letter are one escape sequence; \<open>strict_real_p\<close> does
  not take integers; the integer parsers read decimal numbers that fit.\<close>

definition ends_number :: "string \<Rightarrow> bool" where
  "ends_number r \<longleftrightarrow> (case r of [] \<Rightarrow> True | c # _ \<Rightarrow> \<not> is_digit_char c \<and> c \<notin> set ''.eE'')"

definition number_start :: "char \<Rightarrow> bool" where
  "number_start c \<longleftrightarrow> is_digit_char c \<or> c \<in> set ''+-.''"

definition fits_int64 :: "int \<Rightarrow> bool" where
  "fits_int64 i \<longleftrightarrow> -9223372036854775808 \<le> i \<and> i < 9223372036854775808"

definition escaped_chars :: string where
  "escaped_chars = [CHR 0x22, CHR 0x5C] @ ''bfnrtu''"

definition spirit_documented :: "spirit \<Rightarrow> bool" where
  "spirit_documented sp \<longleftrightarrow>
     numbers_take_text sp
   \<and> (\<forall>c s. c \<noteq> CHR ''/'' \<longrightarrow> sp_line_comment sp (c # s) = None \<and> sp_block_comment sp (c # s) = None)
   \<and> (\<forall>c s. c \<noteq> CHR 0x5C \<longrightarrow> sp_lex_escape_ch sp (c # s) = Some 1)
   \<and> (\<forall>c s. c \<in> set escaped_chars \<longrightarrow> sp_lex_escape_ch sp (CHR 0x5C # c # s) = Some 2)
   \<and> (\<forall>c s. \<not> number_start c \<longrightarrow>
        sp_strict_real sp (c # s) = None \<and> sp_int64 sp (c # s) = None \<and> sp_uint64 sp (c # s) = None)
   \<and> (\<forall>i r. ends_number r \<longrightarrow> sp_strict_real sp (show_int i @ r) = None)
   \<and> (\<forall>i r. ends_number r \<longrightarrow> sp_int64 sp (show_int i @ r) =
        (if fits_int64 i then Some (word_of_int i, length (show_int i)) else None))
   \<and> (\<forall>n r. ends_number r \<longrightarrow> n < 18446744073709551616 \<longrightarrow>
        sp_uint64 sp (show_nat n @ r) = Some (of_nat n, length (show_nat n)))"

text \<open>A value without reals, and the value that is read from its text.\<close>

fun no_reals :: "jvalue \<Rightarrow> bool" where
  "no_reals (Obj ms) = list_all (\<lambda>(k, v). no_reals v) ms"
| "no_reals (Arr vs) = list_all no_reals vs"
| "no_reals (Real _) = False"
| "no_reals _ = True"

fun as_read :: "jvalue \<Rightarrow> jvalue" where
  "as_read (Obj ms) = Obj (map (\<lambda>(k, v). (k, as_read v)) ms)"
| "as_read (Arr vs) = Arr (map as_read vs)"
| "as_read (Uint64 w) = (if unat w < 9223372036854775808 then Int64 w else Uint64 w)"
| "as_read v = v"

text \<open>The items of a list as the generator lays them out: each after an indentation and before a line
  end, with commas between.\<close>

fun listed :: "string \<Rightarrow> string \<Rightarrow> string list \<Rightarrow> string" where
  "listed pre post [] = []"
| "listed pre post (u # us) = pre @ u @ (if us \<noteq> [] then '','' else []) @ post @ listed pre post us"

lemma output_elements_listed:
  assumes "output_elements g l vs = Inr t"
  shows "\<exists>us. list_all2 (\<lambda>v u. output_value g l v = Inr u) vs us \<and> t = listed (indent g l) (new_line g) us"
  using assms
proof (induction vs arbitrary: t)
  case (Cons v vs)
  then obtain w t' where w: "output_value g l v = Inr w" "output_elements g l vs = Inr t'"
    "t = (indent g l) @ w @ (if vs \<noteq> [] then '','' else []) @ (new_line g) @ t'"
    by (auto simp: res_simps)
  from Cons.IH [OF w(2)] obtain us where us: "list_all2 (\<lambda>v u. output_value g l v = Inr u) vs us" "t' = listed (indent g l) (new_line g) us" by blast
  then have "vs \<noteq> [] \<longleftrightarrow> us \<noteq> []" by auto
  with us w show ?case by (intro exI [of _ "(w) # us"]) simp
qed simp

lemma output_single_line_listed:
  assumes "output_single_line g l vs = Inr t"
  shows "\<exists>us. list_all2 (\<lambda>v u. output_value g l v = Inr u) vs us \<and> t = listed [] (space g) us"
  using assms
proof (induction vs arbitrary: t)
  case (Cons v vs)
  then obtain w t' where w: "output_value g l v = Inr w" "output_single_line g l vs = Inr t'"
    "t = w @ (if vs \<noteq> [] then '','' else []) @ (space g) @ t'"
    by (auto simp: res_simps)
  from Cons.IH [OF w(2)] obtain us where us: "list_all2 (\<lambda>v u. output_value g l v = Inr u) vs us" "t' = listed [] (space g) us" by blast
  then have "vs \<noteq> [] \<longleftrightarrow> us \<noteq> []" by auto
  with us w show ?case by (intro exI [of _ "(w) # us"]) simp
qed simp

definition member_text :: "generator \<Rightarrow> string \<Rightarrow> string \<Rightarrow> string" where
  "member_text g k w = output_str g k @ space g @ '':'' @ space g @ w"

lemma output_members_listed:
  assumes "output_members g l vs = Inr t"
  shows "\<exists>us. list_all2 (\<lambda>kv u. \<exists>w. output_value g l (snd kv) = Inr w \<and> u = member_text g (fst kv) w) vs us \<and> t = listed (indent g l) (new_line g) us"
  using assms
proof (induction vs arbitrary: t)
  case (Cons v vs)
  then obtain w t' where w: "output_value g l (snd v) = Inr w" "output_members g l vs = Inr t'"
    "t = (indent g l) @ member_text g (fst v) w @ (if vs \<noteq> [] then '','' else []) @ (new_line g) @ t'"
    by (cases v) (auto simp: res_simps member_text_def)
  from Cons.IH [OF w(2)] obtain us where us: "list_all2 (\<lambda>kv u. \<exists>w. output_value g l (snd kv) = Inr w \<and> u = member_text g (fst kv) w) vs us" "t' = listed (indent g l) (new_line g) us" by blast
  then have "vs \<noteq> [] \<longleftrightarrow> us \<noteq> []" by auto
  with us w show ?case by (intro exI [of _ "(member_text g (fst v) w) # us"]) simp
qed simp

section \<open>Tokens of written texts\<close>

text \<open>\<open>reads sp p x u\<close>: whatever follows, the reader \<open>p\<close> takes the text \<open>u\<close> for \<open>x\<close>.\<close>

definition reads :: "spirit \<Rightarrow> 'x reader \<Rightarrow> 'x \<Rightarrow> string \<Rightarrow> bool" where
  "reads sp p x u \<longleftrightarrow>
     (\<forall>s r. skip sp s = u @ r \<longrightarrow> ends_number r \<longrightarrow> p s = Inr (Some (x, r)))"

definition visible :: "char \<Rightarrow> bool" where
  "visible c \<longleftrightarrow> \<not> is_space c \<and> c \<noteq> CHR ''/''"

lemma skip_spaces: "list_all is_space ws \<Longrightarrow> skip sp (ws @ s) = skip sp s"
  by (induction ws) (simp_all add: skip_one_def)

lemma skip_visible: "spirit_documented sp \<Longrightarrow> visible c \<Longrightarrow> skip sp (c # s) = c # s"
  by (simp add: skip_one_def spirit_documented_def visible_def)

declare skip.simps(2) [simp del]

lemma token_char:
  "skip sp s = c # s' \<Longrightarrow> token sp (str_p [d]) s = (if c = d then Some ([c], s') else None)"
  by (simp add: token_def str_p_def)

lemma layout_spaces [simp]:
  "list_all is_space (indent g l)" "list_all is_space (new_line g)" "list_all is_space (space g)"
  by (auto simp: indent_def new_line_def space_def is_space_def list_all_iff)

lemma ends_number_simps [simp]:
  "ends_number []" "ends_number (CHR '','' # s)" "ends_number (CHR '']'' # s)" "ends_number (CHR ''}'' # s)"
  by (simp_all add: ends_number_def is_digit_char_def)

lemma ends_number_spaces: "list_all is_space ws \<Longrightarrow> ends_number r \<Longrightarrow> ends_number (ws @ r)"
  by (cases ws) (auto simp: ends_number_def is_space_def is_digit_char_def)

lemma string_body_plain:
  "spirit_documented sp \<Longrightarrow> c \<noteq> CHR 0x22 \<Longrightarrow> c \<noteq> CHR 0x5C \<Longrightarrow>
     string_body sp (c # s) = Suc (string_body sp s)"
  by (simp add: spirit_documented_def)

lemma string_body_escape:
  "spirit_documented sp \<Longrightarrow> c \<in> set escaped_chars \<Longrightarrow>
     string_body sp (CHR 0x5C # c # s) = Suc (Suc (string_body sp s))"
  by (simp add: spirit_documented_def)

lemma string_body_quote: "spirit_documented sp \<Longrightarrow> string_body sp (CHR 0x22 # s) = 0"
  by (simp add: spirit_documented_def)

lemma to_hex_char_plain:
  "n < 16 \<Longrightarrow> to_hex_char n \<noteq> CHR 0x22 \<and> to_hex_char n \<noteq> CHR 0x5C"
  by (auto simp: to_hex_char_def code_eq_iff [symmetric])

lemma string_body_esc_one:
  assumes "spirit_documented sp"
  shows "string_body sp (esc_one False esc c @ s) = length (esc_one False esc c) + string_body sp s"
proof (cases "add_esc_char c")
  case (Some e)
  then have "esc_one False esc c = e" by (simp add: esc_one_def)
  moreover from Some obtain d where "e = [CHR 0x5C, d]" "d \<in> set escaped_chars"
    by (auto simp: add_esc_char_def escaped_chars_def split: if_splits)
  ultimately show ?thesis using string_body_escape [OF assms] by simp
next
  case None
  then have c: "c \<noteq> CHR 0x22" "c \<noteq> CHR 0x5C" by (auto simp: add_esc_char_def)
  have u: "CHR ''u'' \<in> set escaped_chars" by (simp add: escaped_chars_def)
  show ?thesis
    using None c string_body_plain [OF assms] string_body_escape [OF assms u] to_hex_char_plain
    by (auto simp: esc_one_def non_printable_to_string_def simp del: string_body.simps)
qed

lemma string_body_esc_chars:
  assumes "spirit_documented sp"
  shows "string_body sp (add_esc_chars k False esc @ CHR 0x22 # r) = length (add_esc_chars k False esc)"
  by (induction k)
    (simp_all add: add_esc_chars_def string_body_esc_one [OF assms] string_body_quote [OF assms]
      del: string_body.simps)

lemma string_lexeme_output_str:
  assumes "spirit_documented sp" and "\<not> g_raw_utf8 g"
  shows "string_lexeme sp (output_str g k @ r) = Some (length (output_str g k))"
  using string_body_esc_chars [OF assms(1), of k "g_esc_nonascii g" r] assms(2)
  by (simp add: string_lexeme_def output_str_def Let_def nth_append del: string_body.simps)

lemma token_output_str:
  assumes "spirit_documented sp" and "\<not> g_raw_utf8 g" and "skip sp s = output_str g k @ r"
  shows "token sp (string_lexeme sp) s = Some (output_str g k, r)"
  using string_lexeme_output_str [OF assms(1,2)] assms(3) by (simp add: token_def)

section \<open>Lists\<close>

text \<open>A list ends before a closing bracket, where neither a comma nor an item can be read.\<close>

definition closing :: "string \<Rightarrow> bool" where
  "closing r \<longleftrightarrow> (\<exists>ws c r'. r = ws @ c # r' \<and> list_all is_space ws \<and> c \<in> set ''}]'')"

definition stops :: "spirit \<Rightarrow> 'x reader \<Rightarrow> bool" where
  "stops sp p \<longleftrightarrow> (\<forall>s c r'. skip sp s = c # r' \<longrightarrow> c \<in> set ''}]'' \<longrightarrow> p s = Inr None)"

definition starts_visible :: "string \<Rightarrow> bool" where
  "starts_visible u \<longleftrightarrow> (\<exists>c u'. u = c # u' \<and> visible c)"

lemma visible_brackets [simp]:
  "visible (CHR ''}'')" "visible (CHR '']'')" "visible (CHR ''{'')" "visible (CHR ''['')"
  "visible (CHR '','')" "visible (CHR '':'')" "visible (CHR 0x22)"
  "visible (CHR ''t'')" "visible (CHR ''f'')" "visible (CHR ''n'')"
  by (simp_all add: visible_def is_space_def)

lemma skip_closing:
  assumes "spirit_documented sp" and "closing r"
  shows "\<exists>c r'. skip sp r = c # r' \<and> c \<in> set ''}]''"
proof -
  from assms(2) obtain ws c r' where r: "r = ws @ c # r'" "list_all is_space ws" "c \<in> set ''}]''"
    by (auto simp: closing_def)
  then have "visible c" by auto
  with r skip_visible [OF assms(1)] show ?thesis by (simp add: skip_spaces)
qed

lemma closing_ends_number: "closing r \<Longrightarrow> list_all is_space ws \<Longrightarrow> ends_number (ws @ r)"
  by (auto simp: closing_def intro!: ends_number_spaces)

lemma skip_starts_visible:
  "spirit_documented sp \<Longrightarrow> starts_visible u \<Longrightarrow> skip sp (u @ r) = u @ r"
  by (auto simp: starts_visible_def skip_visible)

lemma rounds_listed:
  assumes "spirit_documented sp" and "closing r" and "list_all is_space pre" and "list_all is_space post"
    and "list_all2 (reads sp p) xs us" and "\<forall>u \<in> set us. starts_visible u" and "length us < j"
    and "skip sp s = skip sp ((if us \<noteq> [] then '','' else []) @ post @ listed pre post us @ r)"
  shows "\<exists>r0. ref_rounds j (ref_comma sp p) s = Inr (xs, r0) \<and> skip sp r0 = skip sp r"
  using assms(5-8)
proof (induction us arbitrary: xs j s rule: list.induct)
  case Nil
  then have "xs = []" and "0 < j" by simp_all
  from Nil have "skip sp s = skip sp r" using skip_spaces [OF assms(4)] by simp
  moreover from \<open>skip sp s = skip sp r\<close> skip_closing [OF assms(1,2)] have "ref_comma sp p s = Inr None"
    by (auto simp: ref_comma_def token_char)
  ultimately show ?case using \<open>xs = []\<close> \<open>0 < j\<close> by (cases j) auto
next
  case (Cons u us)
  from Cons.prems(1) obtain x xs' where x: "xs = x # xs'" "reads sp p x u" "list_all2 (reads sp p) xs' us"
    by (auto simp: list_all2_Cons2)
  let ?R = "(if us \<noteq> [] then '','' else []) @ post @ listed pre post us @ r"
  from Cons.prems(4) skip_visible [OF assms(1), of "CHR '',''"]
  have s: "skip sp s = CHR '','' # post @ pre @ u @ ?R" by simp
  have "skip sp (post @ pre @ u @ ?R) = u @ ?R"
    using Cons.prems(2) skip_starts_visible [OF assms(1), of u] by (simp add: skip_spaces [OF assms(3)] skip_spaces [OF assms(4)])
  moreover have R: "ends_number ?R" using closing_ends_number [OF assms(2,4)] by auto
  ultimately have one: "ref_comma sp p s = Inr (Some (x, ?R))"
    using x(2) s by (simp add: ref_comma_def token_char reads_def)
  obtain j' where j: "j = Suc j'" "length us < j'" using Cons.prems(3) by (cases j) auto
  from Cons.IH [OF x(3) _ j(2), of ?R] Cons.prems(2) obtain r0 where
    "ref_rounds j' (ref_comma sp p) ?R = Inr (xs', r0)" "skip sp r0 = skip sp r" by auto
  with one j(1) x(1) show ?case by simp
qed

lemma length_listed: "u \<in> set us \<Longrightarrow> length u \<le> length (listed pre post us)"
  "\<forall>u \<in> set us. starts_visible u \<Longrightarrow> length us \<le> length (listed pre post us)"
  by (induction us) (auto simp: starts_visible_def)

lemma list_listed:
  assumes "spirit_documented sp" and "closing r" and "list_all is_space pre" and "list_all is_space post"
    and "list_all2 (reads sp p) xs us" and "\<forall>u \<in> set us. starts_visible u" and "stops sp p"
    and "skip sp s = skip sp (listed pre post us @ r)"
  shows "\<exists>r0. ref_list sp p s = Inr (xs, r0) \<and> skip sp r0 = skip sp r"
proof (cases us)
  case Nil
  with assms(8) skip_closing [OF assms(1,2)] assms(7) have "p s = Inr None" by (auto simp: stops_def)
  with Nil assms(5,8) show ?thesis by (auto simp: ref_list_def)
next
  case (Cons u us')
  with assms(5) obtain x xs' where x: "xs = x # xs'" "reads sp p x u" "list_all2 (reads sp p) xs' us'"
    by (auto simp: list_all2_Cons2)
  let ?R = "(if us' \<noteq> [] then '','' else []) @ post @ listed pre post us' @ r"
  have "skip sp s = u @ ?R"
    using assms(6,8) Cons skip_starts_visible [OF assms(1), of u] by (simp add: skip_spaces [OF assms(3)])
  moreover have "ends_number ?R" using closing_ends_number [OF assms(2,4)] by auto
  ultimately have one: "p s = Inr (Some (x, ?R))" using x(2) by (simp add: reads_def)
  have "length us' < Suc (length ?R)"
    using length_listed(2) [of us' pre post] assms(6) Cons by simp
  from rounds_listed [OF assms(1-4) x(3) _ this refl] assms(6) Cons obtain r0 where
    "ref_rounds (Suc (length ?R)) (ref_comma sp p) ?R = Inr (xs', r0)" "skip sp r0 = skip sp r" by auto
  with one x(1) show ?thesis by (auto simp: ref_list_def simp del: ref_rounds.simps)
qed

text \<open>A compound, from its opening to its closing bracket.\<close>

lemma compound_listed:
  assumes "spirit_documented sp" and "list_all is_space pre" and "list_all is_space post" and "list_all is_space start"
    and "list_all is_space stop"
    and "list_all2 (reads sp p) xs us" and "\<forall>u \<in> set us. starts_visible u" and "stops sp p"
    and "visible op1" and "cl \<in> set ''}]''"
  shows "reads sp (ref_compound sp [op1] [cl] reason mk p) (mk xs)
    (op1 # start @ listed pre post us @ stop @ [cl])"
  unfolding reads_def
proof (intro allI impI)
  fix s r assume s: "skip sp s = (op1 # start @ listed pre post us @ stop @ [cl]) @ r"
  let ?r = "stop @ cl # r"
  have "closing ?r" using assms(5,10) by (auto simp: closing_def)
  from list_listed [OF assms(1) this assms(2,3,6,7,8), of "start @ listed pre post us @ ?r"]
  obtain r0 where r0: "ref_list sp p (start @ listed pre post us @ ?r) = Inr (xs, r0)" "skip sp r0 = skip sp ?r"
    by (auto simp: skip_spaces [OF assms(4)])
  moreover have "skip sp ?r = cl # r"
    using skip_visible [OF assms(1), of cl] assms(10) by (auto simp: skip_spaces [OF assms(5)])
  ultimately show "ref_compound sp [op1] [cl] reason mk p s = Inr (Some (mk xs, r))"
    using s by (simp add: ref_compound_def token_char)
qed

section \<open>Values\<close>

text \<open>What a value's text begins with decides which alternative reads it.\<close>

lemma head_not_string: "skip sp s = c # s' \<Longrightarrow> c \<noteq> CHR 0x22 \<Longrightarrow> token sp (string_lexeme sp) s = None"
  by (simp add: token_def string_lexeme_def)

lemma head_not_number:
  assumes "spirit_documented sp" and "skip sp s = c # s'" and "\<not> number_start c"
  shows "ref_number sp (sp_strict_real sp) mk1 s = Inr None" "ref_number sp (sp_int64 sp) mk2 s = Inr None"
    "ref_number sp (sp_uint64 sp) mk2 s = Inr None"
  using assms by (simp_all add: ref_number_def spirit_documented_def)

lemma head_not_compound: "skip sp s = c # s' \<Longrightarrow> c \<noteq> d \<Longrightarrow> ref_compound sp [d] cl reason mk p s = Inr None"
  by (simp add: ref_compound_def token_char)

lemma head_not_keyword: "skip sp s = c # s' \<Longrightarrow> c \<noteq> d \<Longrightarrow> token sp (str_p (d # ds)) s = None"
  by (simp add: token_def str_p_def)

lemma token_keyword:
  "skip sp s = c1 # c2 # c3 # c4 # r \<Longrightarrow> token sp (str_p [c1, c2, c3, c4]) s = Some ([c1, c2, c3, c4], r)"
  "skip sp s = c1 # c2 # c3 # c4 # c5 # r \<Longrightarrow> token sp (str_p [c1, c2, c3, c4, c5]) s = Some ([c1, c2, c3, c4, c5], r)"
  by (simp_all add: token_def str_p_def)

lemma stops_value: "spirit_documented sp \<Longrightarrow> stops sp (ref_value sp (Suc n))"
  unfolding stops_def
  by (auto simp: ref_or_def ref_token_def head_not_string head_not_number head_not_compound head_not_keyword
      number_start_def is_digit_char_def)

lemma stops_pair: "stops sp (ref_pair sp p)"
  unfolding stops_def by (auto simp: ref_pair_def head_not_string)

lemma reads_string:
  assumes "spirit_documented sp" and "\<not> g_raw_utf8 g"
  shows "reads sp (ref_value sp (Suc n)) (Str k) (output_str g k)"
  using token_output_str [OF assms] get_str_literal_output_str [OF assms(2)]
  by (simp add: reads_def ref_or_def ref_token_def)

lemma reads_keywords:
  assumes "spirit_documented sp"
  shows "reads sp (ref_value sp (Suc n)) (Bool True) ''true''" "reads sp (ref_value sp (Suc n)) (Bool False) ''false''"
    "reads sp (ref_value sp (Suc n)) Null ''null''"
  by (simp_all add: reads_def ref_or_def ref_token_def head_not_string head_not_number [OF assms] head_not_compound
      head_not_keyword token_keyword number_start_def is_digit_char_def)

lemma show_int_start: "\<exists>c s. show_int i = c # s \<and> number_start c \<and> visible c \<and> c \<noteq> CHR 0x22"
proof -
  have "\<exists>c s. show_nat n = c # s \<and> is_digit_char c" for n
    using show_nat_hd_digit [of n] show_nat_nonempty [of n] by (cases "show_nat n") auto
  then obtain c s where c: "show_nat (nat i) = c # s" "is_digit_char c" by blast
  moreover from c(2) have "visible c \<and> c \<noteq> CHR 0x22"
    by (auto simp: is_digit_char_def visible_def is_space_def)
  moreover have "visible (CHR ''-'')" by (simp add: visible_def is_space_def)
  ultimately show ?thesis by (auto simp: show_int_def number_start_def)
qed

lemma reads_int64:
  assumes "spirit_documented sp"
  shows "reads sp (ref_value sp (Suc n)) (Int64 w) (show_int (sint w))"
  unfolding reads_def
proof (intro allI impI)
  fix s r assume s: "skip sp s = show_int (sint w) @ r" "ends_number r"
  have "fits_int64 (sint w)" using sint_range_size [of w] by (auto simp: fits_int64_def word_size)
  with s assms have "sp_strict_real sp (skip sp s) = None"
    "sp_int64 sp (skip sp s) = Some (w, length (show_int (sint w)))"
    by (simp_all add: spirit_documented_def)
  moreover have "token sp (string_lexeme sp) s = None"
    using show_int_start [of "sint w"] s(1) by (auto intro: head_not_string)
  ultimately show "ref_value sp (Suc n) s = Inr (Some (Int64 w, r))"
    using s(1) by (simp add: ref_or_def ref_token_def ref_number_def)
qed

lemma show_nat_unat: "show_nat (unat w) = show_int (uint w)"
  by (simp add: show_int_def)

lemma reads_uint64:
  assumes "spirit_documented sp"
  shows "reads sp (ref_value sp (Suc n)) (as_read (Uint64 w)) (show_nat (unat w))"
  unfolding reads_def
proof (intro allI impI)
  fix s r assume s: "skip sp s = show_nat (unat w) @ r" "ends_number r"
  note s' = s(1) [unfolded show_nat_unat]
  have n: "unat w < 18446744073709551616" using unsigned_less [of w] by simp
  have "uint w < 9223372036854775808 \<longleftrightarrow> unat w < 9223372036854775808"
    and "- 9223372036854775808 \<le> uint w"
    unfolding uint_nat by linarith+
  then have "sp_strict_real sp (skip sp s) = None"
    "sp_int64 sp (skip sp s) = (if unat w < 9223372036854775808 then Some (w, length (show_int (uint w))) else None)"
    using assms s(2) unfolding s' by (simp_all add: spirit_documented_def fits_int64_def)
  moreover have "sp_uint64 sp (skip sp s) = Some (w, length (show_nat (unat w)))"
    using assms n s(2) unfolding s(1) by (simp add: spirit_documented_def)
  moreover have "token sp (string_lexeme sp) s = None"
    using show_int_start [of "uint w"] s' by (auto intro: head_not_string)
  ultimately show "ref_value sp (Suc n) s = Inr (Some (as_read (Uint64 w), r))"
    using s(1) s' by (simp add: ref_or_def ref_token_def ref_number_def)
qed

lemma starts_visible_Cons: "visible c \<Longrightarrow> starts_visible (c # u)"
  by (simp add: starts_visible_def)

lemma output_value_visible:
  assumes "output_value g l v = Inr t" and "no_reals v"
  shows "starts_visible t"
proof (cases v)
  case (Obj ms)
  with assms obtain u where "t = CHR ''{'' # u" by (auto simp: res_simps)
  then show ?thesis by (simp add: starts_visible_Cons)
next
  case (Arr vs)
  with assms obtain u where "t = CHR ''['' # u" by (auto simp: res_simps split: if_splits)
  then show ?thesis by (simp add: starts_visible_Cons)
next
  case (Int64 w)
  with assms show_int_start [of "sint w"] show ?thesis by (auto simp: starts_visible_Cons)
next
  case (Uint64 w)
  with assms have "t = show_int (uint w)" unfolding show_nat_unat [symmetric] by simp
  with show_int_start [of "uint w"] show ?thesis by (auto simp: starts_visible_Cons)
next
  case (Bool b)
  with assms show ?thesis by (cases b) (auto simp: starts_visible_Cons)
next
  case Null
  with assms show ?thesis by (auto simp: starts_visible_Cons)
next
  case (Str k)
  with assms show ?thesis by (auto simp: output_str_def starts_visible_Cons)
next
  case (Real d)
  with assms show ?thesis by simp
qed

lemma reads_pair:
  assumes "spirit_documented sp" and "\<not> g_raw_utf8 g" and "reads sp p x w" and "starts_visible w"
  shows "reads sp (ref_pair sp p) (k, x) (member_text g k w)"
  unfolding reads_def
proof (intro allI impI)
  fix s r assume s: "skip sp s = member_text g k w @ r" "ends_number r"
  let ?s1 = "space g @ CHR '':'' # space g @ w @ r"
  have "token sp (string_lexeme sp) s = Some (output_str g k, ?s1)"
    by (rule token_output_str [OF assms(1,2)]) (simp add: s(1) member_text_def)
  moreover have "token sp (str_p '':'') ?s1 = Some ('':'', space g @ w @ r)"
    using skip_visible [OF assms(1), of "CHR '':''"] by (simp add: token_char skip_spaces)
  moreover have "p (space g @ w @ r) = Inr (Some (x, r))"
    using assms(3) s(2) skip_starts_visible [OF assms(1,4)] by (simp add: reads_def skip_spaces)
  ultimately show "ref_pair sp p s = Inr (Some ((k, x), r))"
    using get_str_literal_output_str [OF assms(2)] by (simp add: ref_pair_def)
qed

text \<open>An alternative that a text's first character rules out can be left out.\<close>

lemma reads_or_right:
  assumes "reads sp q x (c # u)" and "\<And>s s'. skip sp s = c # s' \<Longrightarrow> p s = Inr None"
  shows "reads sp (ref_or p q) x (c # u)"
  using assms by (simp add: reads_def ref_or_def)

lemma reads_or_left: "reads sp p x u \<Longrightarrow> reads sp (ref_or p q) x u"
  by (simp add: reads_def ref_or_def)

lemma reads_object:
  assumes "spirit_documented sp"
    and "reads sp (ref_compound sp ''{'' ''}'' ''not an object'' Obj (ref_pair sp (ref_value sp n))) v (CHR ''{'' # u)"
  shows "reads sp (ref_value sp (Suc n)) v (CHR ''{'' # u)"
  unfolding ref_value_eqs
  by (intro reads_or_right [OF reads_or_right] reads_or_left assms(2))
    (auto simp: ref_or_def ref_token_def head_not_string head_not_number [OF assms(1)] number_start_def is_digit_char_def)

lemma reads_array:
  assumes "spirit_documented sp"
    and "reads sp (ref_compound sp ''['' '']'' ''not an array'' Arr (ref_value sp n)) v (CHR ''['' # u)"
  shows "reads sp (ref_value sp (Suc n)) v (CHR ''['' # u)"
  unfolding ref_value_eqs
  by (intro reads_or_right [OF reads_or_right [OF reads_or_right]] reads_or_left assms(2))
    (auto simp: ref_or_def ref_token_def head_not_string head_not_number [OF assms(1)] head_not_compound
      number_start_def is_digit_char_def)

lemma reads_elements:
  assumes "spirit_documented sp" and "list_all is_space pre" and "list_all is_space post"
    and "list_all is_space start" and "list_all is_space stop"
    and "list_all2 (\<lambda>v u. output_value g l v = Inr u) vs us" and "list_all no_reals vs"
    and "t = ''['' @ start @ listed pre post us @ stop @ '']''" and "length t < Suc n"
    and "\<And>v u n. v \<in> set vs \<Longrightarrow> output_value g l v = Inr u \<Longrightarrow> no_reals v \<Longrightarrow> length u < n \<Longrightarrow>
      reads sp (ref_value sp n) (as_read v) u"
  shows "reads sp (ref_value sp (Suc n)) (Arr (map as_read vs)) t"
proof -
  obtain n' where n: "n = Suc n'" using assms(8,9) by (cases n) auto
  have short: "u \<in> set us \<Longrightarrow> length u < n" for u
    using length_listed(1) [of u us pre post] assms(8,9) by fastforce
  have "list_all2 (\<lambda>v u. reads sp (ref_value sp n) (as_read v) u \<and> starts_visible u) vs us"
    using assms(6)
    by (rule list.rel_mono_strong)
      (use assms(7,10) short output_value_visible in \<open>auto simp: list_all_iff\<close>)
  then have us: "list_all2 (reads sp (ref_value sp n)) (map as_read vs) us" "\<forall>u \<in> set us. starts_visible u"
    by (auto simp: list_all2_map1 list_all2_conv_all_nth in_set_conv_nth)
  from compound_listed [OF assms(1-5) us stops_value [OF assms(1), of n', folded n], of "CHR ''[''" "CHR '']''"]
  have "reads sp (ref_compound sp ''['' '']'' ''not an array'' Arr (ref_value sp n)) (Arr (map as_read vs))
     (CHR ''['' # start @ listed pre post us @ stop @ '']'')" by simp
  from reads_array [OF assms(1) this] assms(8) show ?thesis by simp
qed

lemma value_reads:
  assumes "spirit_documented sp" and "\<not> g_raw_utf8 g"
  shows "output_value g l v = Inr t \<Longrightarrow> no_reals v \<Longrightarrow> length t < n \<Longrightarrow>
    reads sp (ref_value sp n) (as_read v) t"
proof (induction v arbitrary: l t n)
  case (Obj ms)
  obtain n' where n: "n = Suc n'" using Obj.prems(3) by (cases n) auto
  from Obj.prems(1) obtain m where m: "output_members g (Suc l) ms = Inr m"
    "t = ''{'' @ new_line g @ m @ indent g l @ ''}''" by (auto simp: res_simps)
  from output_members_listed [OF m(1)] obtain us where us:
    "list_all2 (\<lambda>kv u. \<exists>w. output_value g (Suc l) (snd kv) = Inr w \<and> u = member_text g (fst kv) w) ms us"
    "m = listed (indent g (Suc l)) (new_line g) us" by blast
  have short: "u \<in> set us \<Longrightarrow> length u < n'" for u
    using length_listed(1) [of u us "indent g (Suc l)" "new_line g"] Obj.prems(3) m(2) us(2) n by fastforce
  have "list_all2 (\<lambda>kv u. reads sp (ref_pair sp (ref_value sp n')) (fst kv, as_read (snd kv)) u \<and> starts_visible u) ms us"
    using us(1)
  proof (rule list.rel_mono_strong)
    fix kv u assume kv: "kv \<in> set ms" "u \<in> set us"
      and "\<exists>w. output_value g (Suc l) (snd kv) = Inr w \<and> u = member_text g (fst kv) w"
    then obtain w where w: "output_value g (Suc l) (snd kv) = Inr w" "u = member_text g (fst kv) w" by blast
    have nr: "no_reals (snd kv)" using Obj.prems(2) kv(1) by (auto simp: list_all_iff)
    have "length w < n'" using short [OF kv(2)] w(2) by (simp add: member_text_def)
    from Obj.IH [OF kv(1) _ w(1) nr this] have "reads sp (ref_value sp n') (as_read (snd kv)) w"
      by (cases kv) auto
    from reads_pair [OF assms this output_value_visible [OF w(1) nr]] w(2)
    show "reads sp (ref_pair sp (ref_value sp n')) (fst kv, as_read (snd kv)) u \<and> starts_visible u"
      by (auto simp: starts_visible_def member_text_def output_str_def)
  qed
  then have r: "list_all2 (reads sp (ref_pair sp (ref_value sp n'))) (map (\<lambda>(k, v). (k, as_read v)) ms) us"
    "\<forall>u \<in> set us. starts_visible u"
    by (auto simp: list_all2_map1 list_all2_conv_all_nth in_set_conv_nth split_beta)
  from compound_listed [OF assms(1) layout_spaces(1,2,2,1) r stops_pair, of "CHR ''{''" "CHR ''}''"]
  have "reads sp (ref_compound sp ''{'' ''}'' ''not an object'' Obj (ref_pair sp (ref_value sp n')))
    (Obj (map (\<lambda>(k, v). (k, as_read v)) ms)) (CHR ''{'' # new_line g @ m @ indent g l @ ''}'')"
    unfolding us(2) by simp
  from reads_object [OF assms(1) this] m(2) n show ?case by simp
next
  case (Arr vs)
  obtain n' where n: "n = Suc n'" using Arr.prems(3) by (cases n) auto
  have nr: "list_all no_reals vs" using Arr.prems(2) by simp
  show ?case
  proof (cases "g_single_line_arrays g \<and> \<not> contains_composite_elements vs")
    case True
    with Arr.prems(1) obtain m where m: "output_single_line g l vs = Inr m"
      "t = ''['' @ space g @ m @ [] @ '']''" by (auto simp: res_simps)
    from output_single_line_listed [OF m(1)] obtain us where us:
      "list_all2 (\<lambda>v u. output_value g l v = Inr u) vs us" "m = listed [] (space g) us" by blast
    from reads_elements [OF assms(1) _ layout_spaces(3,3) _ us(1) nr m(2) [unfolded us(2)]
        Arr.prems(3) [unfolded n] Arr.IH] n
    show ?thesis by simp
  next
    case False
    with Arr.prems(1) obtain m where m: "output_elements g (Suc l) vs = Inr m"
      "t = ''['' @ new_line g @ m @ indent g l @ '']''" by (auto simp: res_simps)
    from output_elements_listed [OF m(1)] obtain us where us:
      "list_all2 (\<lambda>v u. output_value g (Suc l) v = Inr u) vs us"
      "m = listed (indent g (Suc l)) (new_line g) us" by blast
    from reads_elements [OF assms(1) layout_spaces(1,2,2,1) us(1) nr m(2) [unfolded us(2)]
        Arr.prems(3) [unfolded n] Arr.IH] n
    show ?thesis by simp
  qed
next
  case (Str k)
  then show ?case using reads_string [OF assms] by (cases n) auto
next
  case (Bool b)
  then show ?case using reads_keywords [OF assms(1)] by (cases n; cases b) auto
next
  case (Int64 w)
  then show ?case using reads_int64 [OF assms(1)] by (cases n) auto
next
  case Null
  then show ?case using reads_keywords [OF assms(1)] by (cases n) auto
next
  case (Uint64 w)
  then show ?case using reads_uint64 [OF assms(1)] by (cases n) (auto simp del: as_read.simps ref_value_eqs)
qed simp

lemma output_total:
  shows "no_reals v \<Longrightarrow> \<exists>t. output_value g l v = Inr t"
    and "list_all (\<lambda>(k, v). no_reals v) ms \<Longrightarrow> \<exists>t. output_members g l ms = Inr t"
    and "list_all no_reals vs \<Longrightarrow> \<exists>t. output_elements g l vs = Inr t"
    and "list_all no_reals vs \<Longrightarrow> \<exists>t. output_single_line g l vs = Inr t"
proof (induction g l v and g l ms and g l vs and g l vs
    rule: output_value_output_members_output_elements_output_single_line.induct)
  case (2 g level vs)
  then show ?case by (cases "g_single_line_arrays g \<and> \<not> contains_composite_elements vs") auto
qed (fastforce simp: res_simps)+

section \<open>Round trip\<close>

lemma Generator_not_raw [simp]:
  "\<not> g_raw_utf8 (Generator (logical_or pretty_print remove_trailing_zeros))"
  "\<not> g_raw_utf8 (Generator remove_trailing_zeros)"
  by (simp_all add: Generator_def logical_or_def pretty_print_def remove_trailing_zeros_def opt_raw_utf8_def)

lemma json_spirit_reads_back:
  assumes "spirit_documented sp" and "\<not> g_raw_utf8 g" and "no_reals v" and "output_value g 0 v = Inr t"
    and "ends_number r"
  shows "ref_read sp (t @ r) = Inr (as_read v, r)"
proof -
  have "reads sp (ref_value sp (Suc (length (t @ r)))) (as_read v) t"
    by (rule value_reads [OF assms(1,2,4,3)]) simp
  moreover have "skip sp (t @ r) = t @ r"
    by (rule skip_starts_visible [OF assms(1) output_value_visible [OF assms(4,3)]])
  ultimately show ?thesis
    using assms(5) by (simp add: reads_def ref_read_def del: ref_value_eqs)
qed

definition read_back :: "jvalue \<Rightarrow> jvalue" where
  "read_back j = (if j = Null then Obj [] else as_read j)"

lemma JsonObject_write_read:
  assumes "spirit_documented sp" and "no_reals j"
  shows "\<exists>t. JsonObject_write j pp = Inr t
    \<and> (\<forall>r. ends_number r \<longrightarrow> JsonObject_read (json_spirit sp) old (t @ r) = (True, read_back j))"
proof -
  have reread: "JsonObject_read (json_spirit sp) old (t @ r) = (True, as_read v)"
    if "\<not> g_raw_utf8 g" "no_reals v" "output_value g 0 v = Inr t" "ends_number r" for g v t r
    using json_spirit_reads_back [OF assms(1) that] json_reader_builds [of sp "t @ r" old]
    by (simp add: JsonObject_read_def json_spirit_def JsonObject_read_text_def read_or_throw_def)
  show ?thesis
  proof (cases "j = Null")
    case True
    with reread [of "Generator remove_trailing_zeros" "Obj []" "''{}''"] show ?thesis
      by (simp add: JsonObject_write_def read_back_def new_line_def indent_def Generator_def
          pretty_print_def remove_trailing_zeros_def opt_single_line_arrays_def opt_raw_utf8_def)
  next
    case False
    let ?g = "Generator (if pp then logical_or pretty_print remove_trailing_zeros else remove_trailing_zeros)"
    obtain t where t: "output_value ?g 0 j = Inr t" using output_total(1) [OF assms(2)] by blast
    have "JsonObject_write j pp = Inr t"
      using False t by (cases j; cases pp) (auto simp: JsonObject_write_def write_string_def)
    moreover have "\<not> g_raw_utf8 ?g" by (cases pp) simp_all
    ultimately show ?thesis using reread [OF _ assms(2) t] False by (auto simp: read_back_def)
  qed
qed

text \<open>
  Claim C9.  What \<open>JsonObject::write\<close> prints, pretty or compact, \<open>JsonObject::read\<close> reads back: for every
  value without reals, of any depth, with any bytes in its strings and names, writing succeeds and
  reading the text gives the value, where unsigned integers that fit in a signed one have become
  signed and a null document has become the empty object it is printed as.  What follows the text,
  unless it goes on with a last number, is not looked at.
\<close>

theorem JsonObject_write_read_roundtrip:
  assumes "spirit_documented sp" and "no_reals j"
  shows "\<exists>t. JsonObject_write j pp = Inr t
    \<and> (\<forall>r. ends_number r \<longrightarrow> JsonObject_read (json_spirit sp) old (t @ r) = (True, read_back j))"
  by (rule JsonObject_write_read [OF assms])

section \<open>An instance\<close>

text \<open>Parsers that do what the documentation says, on texts without reals.\<close>

fun comment_end :: "string \<Rightarrow> nat option" where
  "comment_end (c # d # s) =
     (if c = CHR ''*'' \<and> d = CHR ''/'' then Some 2 else map_option Suc (comment_end (d # s)))"
| "comment_end s = None"

definition simple_int :: "string \<Rightarrow> (64 word \<times> nat) option" where
  "simple_int s =
     (let body = (case s of c # cs \<Rightarrow> if c = CHR ''-'' \<or> c = CHR ''+'' then cs else s | [] \<Rightarrow> []);
          ds = takeWhile is_digit_char body;
          v = (if prefix ''-'' s then - int (parse_digits ds) else int (parse_digits ds))
      in if ds = [] \<or> \<not> fits_int64 v then None
         else Some (word_of_int v, length s - length body + length ds))"

definition simple_uint :: "string \<Rightarrow> (64 word \<times> nat) option" where
  "simple_uint s =
     (let ds = takeWhile is_digit_char s
      in if ds = [] \<or> parse_digits ds \<ge> 18446744073709551616 then None
         else Some (of_nat (parse_digits ds), length ds))"

definition simple_spirit :: spirit where
  "simple_spirit =
     \<lparr>sp_line_comment = (\<lambda>s. if prefix ''//'' s then Some (length (takeWhile (\<lambda>c. c \<noteq> CHR 0x0A) s)) else None),
      sp_block_comment = (\<lambda>s. if prefix ''/*'' s then map_option (\<lambda>n. n + 2) (comment_end (drop 2 s)) else None),
      sp_lex_escape_ch = (\<lambda>s. case s of [] \<Rightarrow> None
        | c # cs \<Rightarrow> if c \<noteq> CHR 0x5C then Some 1 else if cs \<noteq> [] then Some 2 else None),
      sp_strict_real = (\<lambda>s. None),
      sp_int64 = simple_int,
      sp_uint64 = simple_uint\<rparr>"

lemma takeWhile_show_nat:
  assumes "ends_number r"
  shows "takeWhile is_digit_char (show_nat n @ r) = show_nat n"
proof -
  have "\<forall>c \<in> set (show_nat n). is_digit_char c" using show_nat_digits [of n] by (simp add: list_all_iff)
  then have "takeWhile is_digit_char (show_nat n @ r) = show_nat n @ takeWhile is_digit_char r"
    by (simp add: takeWhile_append2)
  also have "takeWhile is_digit_char r = []" using assms by (cases r) (auto simp: ends_number_def)
  finally show ?thesis by simp
qed

lemma simple_int_show:
  assumes "ends_number r"
  shows "simple_int (show_int i @ r) = (if fits_int64 i then Some (word_of_int i, length (show_int i)) else None)"
proof (cases "i < 0")
  case True
  then show ?thesis using takeWhile_show_nat [OF assms, of "nat (- i)"]
    by (simp add: simple_int_def show_int_def Let_def)
next
  case False
  obtain c cs where c: "show_nat (nat i) = c # cs" by (cases "show_nat (nat i)") auto
  then have "c \<noteq> CHR ''-''" "c \<noteq> CHR ''+''" using show_nat_no_sign by auto
  then show ?thesis using takeWhile_show_nat [OF assms, of "nat i"] parse_digits_show_nat [of "nat i"] False c
    by (auto simp: simple_int_def show_int_def Let_def)
qed

lemma simple_uint_show:
  "ends_number r \<Longrightarrow> n < 18446744073709551616 \<Longrightarrow> simple_uint (show_nat n @ r) = Some (of_nat n, length (show_nat n))"
  by (simp add: simple_uint_def takeWhile_show_nat Let_def)

lemma length_takeWhile_tl: "s \<noteq> [] \<Longrightarrow> Suc (length (takeWhile p (tl s))) \<le> length s"
  using length_takeWhile_le [of p "tl s"] by (cases s) auto

lemma simple_numbers: "numbers_take_text simple_spirit"
  using length_takeWhile_le [of is_digit_char]
  by (auto simp: numbers_take_text_def takes_text_def simple_spirit_def simple_int_def simple_uint_def Let_def le_SucI
      split: list.splits if_splits)

lemma simple_documented: "spirit_documented simple_spirit"
  unfolding spirit_documented_def
proof (intro conjI simple_numbers allI impI)
  fix c s assume "\<not> number_start c"
  then show "sp_int64 simple_spirit (c # s) = None" "sp_uint64 simple_spirit (c # s) = None"
    by (auto simp: simple_spirit_def simple_int_def simple_uint_def number_start_def Let_def)
qed (auto simp: simple_spirit_def simple_int_show simple_uint_show)

theorem json_reading_ends_witness:
  "JsonObject_read_text simple_spirit ''{true'' Null = map_prod Inr (\<lambda>v. v) (json_spirit simple_spirit ''{true'' Null)"
  using json_reading_ends [OF simple_numbers, of "''{true''" Null] by blast

theorem JsonObject_write_read_roundtrip_witness:
  "\<exists>t. JsonObject_write (Obj [(''a'', Arr [Int64 (-5), Str [CHR 0x0A]]), (''a'', Uint64 7)]) True = Inr t
    \<and> JsonObject_read (json_spirit simple_spirit) Null (t @ ''}'')
        = (True, Obj [(''a'', Arr [Int64 (-5), Str [CHR 0x0A]]), (''a'', Int64 7)])"
  using JsonObject_write_read_roundtrip [OF simple_documented,
      of "Obj [(''a'', Arr [Int64 (-5), Str [CHR 0x0A]]), (''a'', Uint64 7)]" True Null]
  by (auto simp: read_back_def)

end
