(* ===== verification/Json_Compare.thy ===== *)
theory Json_Compare
  imports Json_Value
begin

text \<open>
  The rest of \<open>json_spirit_v4.06/json_spirit/json_spirit_value.h\<close>: \<open>operator==\<close>, which
  compares the alternatives of the variants and so takes no signed integer for an unsigned one, and
  \<open>get_value<T>\<close>, whose instances are the alternatives of \<open>wanted\<close>.
\<close>

section \<open>Equality\<close>

text \<open>\<open>==\<close> on doubles.\<close>

fun dbl_eq :: "dbl \<Rightarrow> dbl \<Rightarrow> bool" where
  "dbl_eq (Fin m e) (Fin m' e') \<longleftrightarrow>
     (let b = min e e' in m * 2 ^ nat (e - b) = m' * 2 ^ nat (e' - b))"
| "dbl_eq (Inf a) (Inf b) \<longleftrightarrow> a = b"
| "dbl_eq _ _ \<longleftrightarrow> False"

text \<open>Two values at different addresses; a value is always equal to itself.\<close>

fun value_eq :: "jvalue \<Rightarrow> jvalue \<Rightarrow> bool"
  and members_eq :: "members \<Rightarrow> members \<Rightarrow> bool"
  and elements_eq :: "jvalue list \<Rightarrow> jvalue list \<Rightarrow> bool"
where
  "value_eq (Obj ms) w = (case w of Obj ms' \<Rightarrow> members_eq ms ms' | _ \<Rightarrow> False)"
| "value_eq (Arr vs) w = (case w of Arr vs' \<Rightarrow> elements_eq vs vs' | _ \<Rightarrow> False)"
| "value_eq (Str s) w = (case w of Str s' \<Rightarrow> s = s' | _ \<Rightarrow> False)"
| "value_eq (Bool b) w = (case w of Bool b' \<Rightarrow> b = b' | _ \<Rightarrow> False)"
| "value_eq (Int64 i) w = (case w of Int64 i' \<Rightarrow> i = i' | _ \<Rightarrow> False)"
| "value_eq (Real d) w = (case w of Real d' \<Rightarrow> dbl_eq d d' | _ \<Rightarrow> False)"
| "value_eq Null w = (case w of Null \<Rightarrow> True | _ \<Rightarrow> False)"
| "value_eq (Uint64 i) w = (case w of Uint64 i' \<Rightarrow> i = i' | _ \<Rightarrow> False)"
| "members_eq [] ms' = (ms' = [])"
| "members_eq ((k, v) # ms) ms' =
     (case ms' of [] \<Rightarrow> False | (k', v') # ms'' \<Rightarrow> k = k' \<and> value_eq v v' \<and> members_eq ms ms'')"
| "elements_eq [] vs' = (vs' = [])"
| "elements_eq (v # vs) vs' = (case vs' of [] \<Rightarrow> False | v' # vs'' \<Rightarrow> value_eq v v' \<and> elements_eq vs vs'')"

section \<open>get\_value\<close>

datatype wanted =
    want_int | want_int64 | want_uint64 | want_real | want_str | want_array | want_obj | want_bool

datatype got =
    Got_int int | Got_int64 "64 word" | Got_uint64 "64 word" | Got_real dbl | Got_str string
  | Got_array "jvalue list" | Got_obj members | Got_bool bool

fun get_value :: "wanted \<Rightarrow> jvalue \<Rightarrow> got res" where
  "get_value want_int v = rmap Got_int (get_int v)"
| "get_value want_int64 v = rmap Got_int64 (get_int64 v)"
| "get_value want_uint64 v = rmap Got_uint64 (get_uint64 v)"
| "get_value want_real v = rmap Got_real (get_real v)"
| "get_value want_str v = rmap Got_str (get_str v)"
| "get_value want_array v = rmap Got_array (get_array v)"
| "get_value want_obj v = rmap Got_obj (get_obj v)"
| "get_value want_bool v = rmap Got_bool (get_bool v)"

section \<open>Properties\<close>

text \<open>The type of value that a result was asked of, and the types of values that can give it.\<close>

fun asks_for :: "wanted \<Rightarrow> value_type" where
  "asks_for want_int = int_type"
| "asks_for want_int64 = int_type"
| "asks_for want_uint64 = int_type"
| "asks_for want_real = real_type"
| "asks_for want_str = str_type"
| "asks_for want_array = array_type"
| "asks_for want_obj = obj_type"
| "asks_for want_bool = bool_type"

fun has_wanted :: "wanted \<Rightarrow> got \<Rightarrow> bool" where
  "has_wanted want_int (Got_int i) = in_int32 i"
| "has_wanted want_int64 (Got_int64 _) = True"
| "has_wanted want_uint64 (Got_uint64 _) = True"
| "has_wanted want_real (Got_real _) = True"
| "has_wanted want_str (Got_str _) = True"
| "has_wanted want_array (Got_array _) = True"
| "has_wanted want_obj (Got_obj _) = True"
| "has_wanted want_bool (Got_bool _) = True"
| "has_wanted _ _ = False"

lemma get_int_of_type: "vtype v = int_type \<Longrightarrow> \<exists>i. get_int v = Inr i \<and> in_int32 i"
  by (cases v) (auto simp: accessor_defs sint32_range)

lemma get_value_cases:
  "case get_value t v of
     Inr r \<Rightarrow> has_wanted t r \<and> (vtype v = asks_for t \<or> t = want_real \<and> vtype v = int_type)
   | Inl e \<Rightarrow> vtype v \<noteq> asks_for t \<and> \<not> (t = want_real \<and> vtype v = int_type)
       \<and> e = Runtime_error (''get_value< '' @ value_type_to_string (asks_for t) @ '' > called on ''
                            @ value_type_to_string (vtype v) @ '' Value'')"
proof (cases "t = want_int")
  case True
  show ?thesis
  proof (cases "vtype v = int_type")
    case vt: True
    from get_int_of_type [OF this] obtain i where "get_int v = Inr i" "in_int32 i" by blast
    with True vt show ?thesis by simp
  next
    case False
    with True show ?thesis by (simp add: get_int_def check_type_def)
  qed
next
  case False
  then show ?thesis by (cases t; cases v; simp add: accessor_defs)
qed

text \<open>
  Claim C40.  \<open>get_value<T>\<close> is sound and complete for the types: it gives a value of type T exactly when
  the JSON value has the type that T is stored as, or is an integer and a double is wanted; an
  \<open>int\<close> it gives is one, whatever the 64 bits; and otherwise the exception names the two types.  It
  never reaches the null pointer of \<open>boost::get\<close>.
\<close>

theorem get_value_typed:
  "case get_value t v of
     Inr r \<Rightarrow> has_wanted t r \<and> (vtype v = asks_for t \<or> t = want_real \<and> vtype v = int_type)
   | Inl e \<Rightarrow> vtype v \<noteq> asks_for t \<and> \<not> (t = want_real \<and> vtype v = int_type)
       \<and> e = Runtime_error (''get_value< '' @ value_type_to_string (asks_for t) @ '' > called on ''
                            @ value_type_to_string (vtype v) @ '' Value'')"
  by (rule get_value_cases)

text \<open>\<open>==\<close> is an equivalence but for values that hold a NaN.\<close>

fun has_nan :: "jvalue \<Rightarrow> bool" where
  "has_nan (Obj ms) = list_ex (\<lambda>(k, v). has_nan v) ms"
| "has_nan (Arr vs) = list_ex has_nan vs"
| "has_nan (Real d) = (d = NaN)"
| "has_nan _ = False"

lemma dbl_eq_refl: "dbl_eq d d \<longleftrightarrow> d \<noteq> NaN"
  by (cases d) auto

lemma dbl_eq_sym: "dbl_eq c d \<longleftrightarrow> dbl_eq d c"
  by (cases c; cases d) (auto simp: Let_def min.commute)

lemma value_eq_refl: "value_eq v v \<longleftrightarrow> \<not> has_nan v"
proof (induction v)
  case (Obj ms)
  then have "\<forall>kv \<in> set ms. value_eq (snd kv) (snd kv) \<longleftrightarrow> \<not> has_nan (snd kv)" by fastforce
  then show ?case by (induction ms) auto
next
  case (Arr vs)
  then show ?case by (induction vs) auto
qed (auto simp: dbl_eq_refl)

lemma value_eq_sym:
  "value_eq v w \<longleftrightarrow> value_eq w v" "members_eq ms ms' \<longleftrightarrow> members_eq ms' ms"
  "elements_eq vs vs' \<longleftrightarrow> elements_eq vs' vs"
proof (induction v w and ms ms' and vs vs' rule: value_eq_members_eq_elements_eq.induct)
  case (9 ms')
  then show ?case by (cases ms') auto
next
  case (10 k v ms ms')
  then show ?case by (cases ms') auto
next
  case (11 vs')
  then show ?case by (cases vs') auto
next
  case (12 v vs vs')
  then show ?case by (cases vs') auto
qed (auto simp: dbl_eq_sym split: jvalue.splits)

lemma value_eq_same_type: "value_eq v w \<Longrightarrow> vtype v = vtype w \<and> is_uint64 v = is_uint64 w"
  by (cases v; cases w) auto

text \<open>The same number held with and without a sign is not the same value.\<close>

lemma value_eq_signedness: "\<not> value_eq (Int64 w) (Uint64 w)"
  by simp

end
