(* ===== verification/Messages.thy ===== *)
theory Messages
  imports Prelude
begin

text \<open>
  The messages of the machine: \<open>core/Msg.hpp\<close> and what derives from it (\<open>core/SinkMsg.hpp\<close>,
  \<open>core/KillMsg.hpp\<close>, \<open>msg/DataMsg.hpp\<close>, \<open>msg/IntMsg.hpp\<close>, \<open>msg/StringMsg.hpp\<close>,
  \<open>msg/MachineMsg.hpp\<close>), the rule for ignoring messages (\<open>msg/IgnoreWhileWorking.cpp\<close>) and
  the stop watch (\<open>core/Elapsed.cpp\<close>).

  msgpack is a library: a \<open>codec\<close> holds its packing and unpacking of one C++ type, and is an
  argument of everything that reads or builds a message.  A message on the wire has any type.
\<close>

section \<open>Msg\<close>

record ('m, 'a) codec =
  pack :: "'a \<Rightarrow> 'm"
  unpack :: "'m \<Rightarrow> 'a res"

text \<open>What msgpack promises: unpacking what was packed gives it back.\<close>

definition codec_ok :: "('m, 'a) codec \<Rightarrow> bool" where
  "codec_ok c \<longleftrightarrow> (\<forall>x. unpack c (pack c x) = Inr x)"

definition Msg_of_message :: "('m, 'a) codec \<Rightarrow> 'm \<Rightarrow> 'a res" where
  "Msg_of_message c message = unpack c message"

definition Msg_set :: "('m, 'a) codec \<Rightarrow> 'a \<Rightarrow> 'm" where
  "Msg_set c d = pack c d"

lemma Msg_of_set [simp]: "codec_ok c \<Longrightarrow> Msg_of_message c (Msg_set c d) = Inr d"
  by (simp add: codec_ok_def Msg_of_message_def Msg_set_def)

section \<open>SinkMsg and KillMsg\<close>

type_synonym SinkMsg = "int \<times> int \<times> string list"

definition SinkMsg_init :: SinkMsg where
  "SinkMsg_init = (0, 0, [])"

definition SinkMsg_getCode :: "SinkMsg \<Rightarrow> int" where
  "SinkMsg_getCode m = fst m"

definition SinkMsg_getId :: "SinkMsg \<Rightarrow> int" where
  "SinkMsg_getId m = fst (snd m)"

definition SinkMsg_getData :: "SinkMsg \<Rightarrow> string list" where
  "SinkMsg_getData m = snd (snd m)"

definition SinkMsg_firstMsg :: "int \<Rightarrow> SinkMsg \<Rightarrow> SinkMsg" where
  "SinkMsg_firstMsg i m = (1, i, snd (snd m))"

definition SinkMsg_lastMsg :: "int \<Rightarrow> SinkMsg \<Rightarrow> SinkMsg" where
  "SinkMsg_lastMsg i m = (3, i, snd (snd m))"

definition SinkMsg_dataMsg :: "int \<Rightarrow> string list \<Rightarrow> SinkMsg \<Rightarrow> SinkMsg" where
  "SinkMsg_dataMsg i d m = (2, i, d)"

type_synonym KillMsg = int

definition KillMsg_init :: KillMsg where
  "KillMsg_init = 0"

definition KillMsg_value :: "KillMsg \<Rightarrow> int" where
  "KillMsg_value d = d"

lemmas SinkMsg_defs = SinkMsg_init_def SinkMsg_getCode_def SinkMsg_getId_def SinkMsg_getData_def
  SinkMsg_firstMsg_def SinkMsg_lastMsg_def SinkMsg_dataMsg_def

section \<open>DataMsg, IntMsg and StringMsg\<close>

text \<open>An id, the clock of the sender and the data.  \<open>clock_t\<close> is a number of ticks.\<close>

type_synonym 'd DataMsg = "int \<times> int \<times> 'd"

definition DataMsg_make :: "int \<Rightarrow> int \<Rightarrow> 'd \<Rightarrow> 'd DataMsg" where
  "DataMsg_make i t n = (i, t, n)"

definition DataMsg_getId :: "'d DataMsg \<Rightarrow> int" where
  "DataMsg_getId m = fst m"

definition DataMsg_getTime :: "'d DataMsg \<Rightarrow> int" where
  "DataMsg_getTime m = fst (snd m)"

definition DataMsg_getPayload :: "'d DataMsg \<Rightarrow> 'd" where
  "DataMsg_getPayload m = snd (snd m)"

type_synonym IntMsg = "int DataMsg"
type_synonym StringMsg = "string DataMsg"

lemmas DataMsg_defs = DataMsg_make_def DataMsg_getId_def DataMsg_getTime_def DataMsg_getPayload_def

section \<open>MachineMsg\<close>

type_synonym MachineMsg = "int \<times> string"

definition MachineMsg_init :: MachineMsg where
  "MachineMsg_init = (0, '''')"

definition MachineMsg_getCode :: "MachineMsg \<Rightarrow> int" where
  "MachineMsg_getCode m = fst m"

definition MachineMsg_getData :: "MachineMsg \<Rightarrow> string" where
  "MachineMsg_getData m = snd m"

definition MachineMsg_startMsg :: "string \<Rightarrow> MachineMsg \<Rightarrow> MachineMsg" where
  "MachineMsg_startMsg config m = (1, config)"

definition MachineMsg_startMachineIdMsg :: "string \<Rightarrow> MachineMsg \<Rightarrow> MachineMsg" where
  "MachineMsg_startMachineIdMsg ident m = (2, ident)"

definition MachineMsg_ventMsg :: "MachineMsg \<Rightarrow> MachineMsg" where
  "MachineMsg_ventMsg m = (3, snd m)"

definition MachineMsg_stopMsg :: "MachineMsg \<Rightarrow> MachineMsg" where
  "MachineMsg_stopMsg m = (4, snd m)"

definition MachineMsg_quitMsg :: "MachineMsg \<Rightarrow> MachineMsg" where
  "MachineMsg_quitMsg m = (5, snd m)"

lemmas MachineMsg_defs = MachineMsg_init_def MachineMsg_getCode_def MachineMsg_getData_def
  MachineMsg_startMsg_def MachineMsg_startMachineIdMsg_def MachineMsg_ventMsg_def
  MachineMsg_stopMsg_def MachineMsg_quitMsg_def

section \<open>Elapsed\<close>

text \<open>A \<open>struct timeval\<close>: seconds, and microseconds below a million.\<close>

record timeval =
  tv_sec :: int
  tv_usec :: int

definition timeval_ok :: "timeval \<Rightarrow> bool" where
  "timeval_ok t \<longleftrightarrow> 0 \<le> tv_usec t \<and> tv_usec t < 1000000"

definition timeval_us :: "timeval \<Rightarrow> int" where
  "timeval_us t = 1000000 * tv_sec t + tv_usec t"

type_synonym Elapsed = timeval

definition Elapsed_start :: "timeval \<Rightarrow> Elapsed" where
  "Elapsed_start now = now"

text \<open>\<open>int\<close> division of C++ truncates towards zero; the sum is converted to \<open>int\<close>.\<close>

definition Elapsed_getTotal :: "Elapsed \<Rightarrow> timeval \<Rightarrow> int" where
  "Elapsed_getTotal tstart tend =
     (let tdiff = (if tv_usec tend < tv_usec tstart
                   then \<lparr>tv_sec = tv_sec tend - tv_sec tstart - 1,
                         tv_usec = 1000000 + tv_usec tend - tv_usec tstart\<rparr>
                   else \<lparr>tv_sec = tv_sec tend - tv_sec tstart,
                         tv_usec = tv_usec tend - tv_usec tstart\<rparr>)
      in to_int32 (tv_sec tdiff * 1000 + (tv_usec tdiff div 1000)))"

text \<open>
  The stop watch: whatever the borrow between the fields, \<open>getTotal\<close> is the
  difference of the two times in whole milliseconds, rounded down, as long as that fits an
  \<open>int\<close>.
\<close>

theorem Elapsed_getTotal_ms:
  assumes "timeval_ok tstart" and "timeval_ok tend"
    and "in_int32 ((timeval_us tend - timeval_us tstart) div 1000)"
  shows "Elapsed_getTotal (Elapsed_start tstart) tend = (timeval_us tend - timeval_us tstart) div 1000"
proof -
  have ms: "(1000000 * a + x - (1000000 * b + y)) div 1000 = (a - b) * 1000 + (x - y) div 1000"
      "(1000000 * a + x - (1000000 * b + y)) div 1000 = (a - b - 1) * 1000 + (1000000 + x - y) div 1000"
    for a b x y :: int
  proof -
    have "1000000 * a + x - (1000000 * b + y) = (x - y) + ((a - b) * 1000) * 1000"
      "1000000 * a + x - (1000000 * b + y) = (1000000 + x - y) + ((a - b - 1) * 1000) * 1000"
      by (simp_all add: algebra_simps)
    then show "(1000000 * a + x - (1000000 * b + y)) div 1000 = (a - b) * 1000 + (x - y) div 1000"
      "(1000000 * a + x - (1000000 * b + y)) div 1000 = (a - b - 1) * 1000 + (1000000 + x - y) div 1000"
      by (metis add.commute div_mult_self1 zero_neq_numeral)+
  qed
  have "(timeval_us tend - timeval_us tstart) div 1000 =
      (if tv_usec tend < tv_usec tstart
       then (tv_sec tend - tv_sec tstart - 1) * 1000 + (1000000 + tv_usec tend - tv_usec tstart) div 1000
       else (tv_sec tend - tv_sec tstart) * 1000 + (tv_usec tend - tv_usec tstart) div 1000)"
    unfolding timeval_us_def using ms by (simp split: if_splits)
  then show ?thesis
    using assms(3) by (simp add: Elapsed_getTotal_def Elapsed_start_def Let_def split: if_splits)
qed

theorem Elapsed_getTotal_ms_witness:
  "Elapsed_getTotal (Elapsed_start \<lparr>tv_sec = 10, tv_usec = 900000\<rparr>) \<lparr>tv_sec = 12, tv_usec = 100500\<rparr> = 1200"
  using Elapsed_getTotal_ms [of "\<lparr>tv_sec = 10, tv_usec = 900000\<rparr>" "\<lparr>tv_sec = 12, tv_usec = 100500\<rparr>"]
  by (simp add: timeval_ok_def timeval_us_def in_int32_def)

section \<open>IgnoreWhileWorking\<close>

record IgnoreWhileWorking =
  localStart :: int
  localEnd :: int
  remoteStart :: int

definition IgnoreWhileWorking_init :: IgnoreWhileWorking where
  "IgnoreWhileWorking_init = \<lparr>localStart = 0, localEnd = 0, remoteStart = 0\<rparr>"

definition IgnoreWhileWorking_start :: "int \<Rightarrow> 'd DataMsg \<Rightarrow> IgnoreWhileWorking \<Rightarrow> IgnoreWhileWorking" where
  "IgnoreWhileWorking_start now msg s = s\<lparr>remoteStart := DataMsg_getTime msg, localStart := now\<rparr>"

definition IgnoreWhileWorking_end :: "int \<Rightarrow> IgnoreWhileWorking \<Rightarrow> IgnoreWhileWorking" where
  "IgnoreWhileWorking_end now s = s\<lparr>localEnd := now\<rparr>"

definition IgnoreWhileWorking_canIgnore :: "'d DataMsg \<Rightarrow> IgnoreWhileWorking \<Rightarrow> bool" where
  "IgnoreWhileWorking_canIgnore msg s =
     (if remoteStart s = 0 \<or> localEnd s = 0 \<or> localStart s = 0 then False
      else let t = DataMsg_getTime msg in t - remoteStart s < localEnd s - localStart s)"

lemma canIgnore_fresh: "\<not> IgnoreWhileWorking_canIgnore m IgnoreWhileWorking_init"
  by (simp add: IgnoreWhileWorking_canIgnore_def IgnoreWhileWorking_init_def)

text \<open>
  After a piece of work that began at the local time \<open>t0\<close> with a message sent at
  \<open>r\<close> and ended at \<open>t1\<close>, exactly the messages sent before \<open>r + (t1 - t0)\<close>, while the work
  was going on, can be ignored.
\<close>

theorem canIgnore_iff_sent_while_working:
  assumes "DataMsg_getTime m0 \<noteq> 0" and "t0 \<noteq> 0" and "t1 \<noteq> 0"
  shows "IgnoreWhileWorking_canIgnore m
           (IgnoreWhileWorking_end t1 (IgnoreWhileWorking_start t0 m0 s)) \<longleftrightarrow>
         DataMsg_getTime m < DataMsg_getTime m0 + (t1 - t0)"
  using assms
  by (auto simp: IgnoreWhileWorking_canIgnore_def IgnoreWhileWorking_end_def
      IgnoreWhileWorking_start_def Let_def)

theorem canIgnore_iff_sent_while_working_witness:
  "IgnoreWhileWorking_canIgnore (DataMsg_make 2 104 ''b'')
     (IgnoreWhileWorking_end 15 (IgnoreWhileWorking_start 10 (DataMsg_make 1 100 ''a'') IgnoreWhileWorking_init))"
  using canIgnore_iff_sent_while_working [of "DataMsg_make 1 100 ''a''" 10 15 "DataMsg_make 2 104 ''b''"
      IgnoreWhileWorking_init]
  by (simp add: DataMsg_defs)

end
