(* ===== verification/Msg_Tracker.thy ===== *)
theory Msg_Tracker
  imports Prelude
begin

text \<open>
  \<open>core/MsgTracker.cpp\<close>: which ids of a batch have arrived, kept as buckets of a thousand
  bits, and whether the batch is complete.

  The contract a sink relies on is the locale \<open>batch_tracker\<close>: the tracker behaves as a set
  of ids with an optional first and last id, and is complete when the whole range is in the
  set.  \<open>represents\<close> is the abstraction relation under which the buckets satisfy it.
\<close>

section \<open>The tracker\<close>

text \<open>\<open>SIZE\<close> is a \<open>size_t\<close>, so that the quotient and the remainder of \<open>n-first\<close> by it are
  computed on unsigned 64-bit numbers.\<close>

definition tracker_SIZE :: int where
  "tracker_SIZE = 1000"

record MsgTracker =
  tr_first :: int
  tr_last :: int
  tr_bits :: "bool list list"

definition MsgTracker_init :: MsgTracker where
  "MsgTracker_init = \<lparr>tr_first = -1, tr_last = -1, tr_bits = []\<rparr>"

definition bucket_of :: "int \<Rightarrow> int" where
  "bucket_of d = to_int32 (to_size_t d div tracker_SIZE)"

definition index_of :: "int \<Rightarrow> nat" where
  "index_of d = nat (to_size_t d mod tracker_SIZE)"

definition MsgTracker_grow :: "int \<Rightarrow> MsgTracker \<Rightarrow> MsgTracker" where
  "MsgTracker_grow n t =
     (let k = to_int32 (to_size_t (n - int (length (tr_bits t))))
      in if k > 0 then t\<lparr>tr_bits := tr_bits t @ replicate (nat k) (replicate (nat tracker_SIZE) False)\<rparr>
         else t)"

definition MsgTracker_track :: "int \<Rightarrow> MsgTracker \<Rightarrow> MsgTracker res" where
  "MsgTracker_track n t =
     rbind (sub_int32 n (tr_first t)) (\<lambda>d.
       let bkt = bucket_of d; idx = index_of d in
       rbind (add_int32 bkt 1) (\<lambda>m.
         let t' = MsgTracker_grow m t in
         if 0 \<le> bkt \<and> bkt < int (length (tr_bits t'))
         then Inr (t'\<lparr>tr_bits := (tr_bits t')[nat bkt := (tr_bits t' ! nat bkt)[idx := True]]\<rparr>)
         else Inl (Undefined ''bits[bkt]'')))"

definition MsgTracker_reset :: "MsgTracker \<Rightarrow> MsgTracker" where
  "MsgTracker_reset t = t\<lparr>tr_bits := [], tr_first := -1, tr_last := -1\<rparr>"

definition MsgTracker_setFirst :: "int \<Rightarrow> MsgTracker \<Rightarrow> MsgTracker" where
  "MsgTracker_setFirst f t = t\<lparr>tr_first := f\<rparr>"

definition MsgTracker_setLast :: "int \<Rightarrow> MsgTracker \<Rightarrow> MsgTracker res" where
  "MsgTracker_setLast l t =
     rbind (sub_int32 l (tr_first t)) (\<lambda>d.
     rbind (add_int32 (bucket_of d) 1) (\<lambda>m.
       Inr (MsgTracker_grow m (t\<lparr>tr_last := l\<rparr>))))"

definition bitset_count :: "bool list \<Rightarrow> nat" where
  "bitset_count b = length (filter (\<lambda>x. x) b)"

definition MsgTracker_complete :: "MsgTracker \<Rightarrow> bool res" where
  "MsgTracker_complete t =
     (if tr_first t = -1 \<and> tr_last t = -1 then Inr True
      else if tr_first t = -1 then Inr False
      else if tr_last t = -1 then Inr False
      else if length (tr_bits t) = 0 then Inr True
      else if \<not> list_all (\<lambda>i. bitset_count (tr_bits t ! i) = nat tracker_SIZE) [0..<length (tr_bits t) - 1]
      then Inr False
      else rbind (sub_int32 (tr_last t) (tr_first t)) (\<lambda>d.
             Inr (list_all (\<lambda>i. tr_bits t ! (length (tr_bits t) - 1) ! i) [0..<Suc (index_of d)])))"

text \<open>What \<open>dump\<close> logs: the buckets that are not full, each with the number of missing bits
  among those up to the index of the last id.\<close>

definition MsgTracker_dump :: "MsgTracker \<Rightarrow> (nat \<times> nat) list res" where
  "MsgTracker_dump t =
     rbind (MsgTracker_complete t) (\<lambda>_.
     rbind (sub_int32 (tr_last t) (tr_first t)) (\<lambda>d.
       let idx = index_of d in
       Inr (map (\<lambda>i. (i, length (filter (\<lambda>j. \<not> tr_bits t ! i ! j) [0..<Suc idx])))
              (filter (\<lambda>i. bitset_count (tr_bits t ! i) \<noteq> nat tracker_SIZE) [0..<length (tr_bits t)]))))"

section \<open>The contract\<close>

text \<open>\<open>rep t fst S lst\<close> says that the tracker \<open>t\<close> stands for the first id \<open>fst\<close>, the ids
  \<open>S\<close> received and the last id \<open>lst\<close>.\<close>

definition id_ok :: "int \<Rightarrow> bool" where
  "id_ok n \<longleftrightarrow> 0 \<le> n \<and> n \<le> 2147483647"

locale batch_tracker =
  fixes init :: "'t"
    and set_first :: "int \<Rightarrow> 't \<Rightarrow> 't"
    and track :: "int \<Rightarrow> 't \<Rightarrow> 't res"
    and set_last :: "int \<Rightarrow> 't \<Rightarrow> 't res"
    and complete :: "'t \<Rightarrow> bool res"
    and reset :: "'t \<Rightarrow> 't"
    and rep :: "'t \<Rightarrow> int option \<Rightarrow> int set \<Rightarrow> int option \<Rightarrow> bool"
  assumes rep_init: "rep init None {} None"
    and rep_first: "rep t None {} None \<Longrightarrow> id_ok f \<Longrightarrow> rep (set_first f t) (Some f) {} None"
    and rep_track: "rep t (Some f) S lo \<Longrightarrow> id_ok n \<Longrightarrow> f \<le> n \<Longrightarrow> (\<forall>l. lo = Some l \<longrightarrow> n \<le> l) \<Longrightarrow>
        \<exists>t'. track n t = Inr t' \<and> rep t' (Some f) (insert n S) lo"
    and rep_last: "rep t (Some f) S None \<Longrightarrow> id_ok l \<Longrightarrow> f \<le> l \<Longrightarrow> (\<forall>n\<in>S. n \<le> l) \<Longrightarrow>
        \<exists>t'. set_last l t = Inr t' \<and> rep t' (Some f) S (Some l)"
    and complete_iff: "rep t fo S lo \<Longrightarrow> complete t =
        Inr (case fo of None \<Rightarrow> lo = None
             | Some f \<Rightarrow> (case lo of None \<Rightarrow> False | Some l \<Rightarrow> {f..l} \<subseteq> S))"
    and rep_reset: "rep (reset t) None {} None"

text \<open>The operations between the first message and the completion, in any order.\<close>

datatype track_op = Track int | SetLast int

definition op_ids :: "track_op list \<Rightarrow> int set" where
  "op_ids ops = {n. Track n \<in> set ops}"

definition op_lasts :: "track_op list \<Rightarrow> int list" where
  "op_lasts ops = concat (map (\<lambda>x. case x of SetLast l \<Rightarrow> [l] | Track _ \<Rightarrow> []) ops)"

text \<open>A batch from \<open>f\<close> to \<open>l\<close>: ids of the range only, and the last id announced at most once.\<close>

definition batch_ops :: "int \<Rightarrow> int \<Rightarrow> track_op list \<Rightarrow> bool" where
  "batch_ops f l ops \<longleftrightarrow> op_ids ops \<subseteq> {f..l} \<and> op_lasts ops \<in> {[], [l]}"

lemma batch_ops_simps:
  "batch_ops f l (ops @ [Track n]) \<longleftrightarrow> batch_ops f l ops \<and> f \<le> n \<and> n \<le> l"
  "batch_ops f l (ops @ [SetLast m]) \<longleftrightarrow> batch_ops f l ops \<and> op_lasts ops = [] \<and> m = l"
  "op_ids (ops @ [Track n]) = insert n (op_ids ops)" "op_ids (ops @ [SetLast m]) = op_ids ops"
  "op_lasts (ops @ [Track n]) = op_lasts ops" "op_lasts (ops @ [SetLast m]) = op_lasts ops @ [m]"
  by (auto simp: batch_ops_def op_ids_def op_lasts_def)

lemma batch_ops_butlast: "batch_ops f l (ops @ [x]) \<Longrightarrow> batch_ops f l ops"
  by (cases x) (simp_all add: batch_ops_simps)

context batch_tracker
begin

definition apply_op :: "track_op \<Rightarrow> 't \<Rightarrow> 't res" where
  "apply_op x t = (case x of Track n \<Rightarrow> track n t | SetLast l \<Rightarrow> set_last l t)"

definition apply_ops :: "track_op list \<Rightarrow> 't \<Rightarrow> 't res" where
  "apply_ops ops t = foldl (\<lambda>r x. rbind r (apply_op x)) (Inr t) ops"

lemma apply_ops_simps:
  "apply_ops [] t = Inr t"
  "apply_ops (ops @ [x]) t = rbind (apply_ops ops t) (apply_op x)"
  by (simp_all add: apply_ops_def)

lemma rep_ops:
  assumes "rep t None {} None" and "id_ok f" and "id_ok l" and "f \<le> l" and "batch_ops f l ops"
  shows "\<exists>t'. apply_ops ops (set_first f t) = Inr t' \<and>
           rep t' (Some f) (op_ids ops) (if op_lasts ops = [] then None else Some l)"
  using assms(5)
proof (induction ops rule: rev_induct)
  case Nil
  then show ?case using rep_first [OF assms(1,2)] by (simp add: apply_ops_simps op_ids_def op_lasts_def)
next
  case (snoc x ops)
  then obtain t' where t': "apply_ops ops (set_first f t) = Inr t'"
      "rep t' (Some f) (op_ids ops) (if op_lasts ops = [] then None else Some l)"
    by (auto dest: batch_ops_butlast)
  show ?case
  proof (cases x)
    case (Track n)
    with snoc.prems have n: "f \<le> n" "n \<le> l" "id_ok n"
      using assms(2,3) by (auto simp: batch_ops_simps id_ok_def)
    from rep_track [OF t'(2) n(3) n(1)] n(2) Track t'(1) show ?thesis
      by (auto simp: apply_ops_simps apply_op_def batch_ops_simps split: if_splits)
  next
    case (SetLast m)
    with snoc.prems have m: "op_lasts ops = []" "m = l" "\<forall>n \<in> op_ids ops. n \<le> l"
      by (auto simp: batch_ops_simps) (auto simp: batch_ops_def)
    from rep_last [of t' f "op_ids ops" l] t' m assms(3,4) SetLast show ?thesis
      by (auto simp: apply_ops_simps apply_op_def batch_ops_simps)
  qed
qed

lemma complete_ops:
  assumes "rep t None {} None" and "id_ok f" and "id_ok l" and "f \<le> l" and "batch_ops f l ops"
  shows "rbind (apply_ops ops (set_first f t)) complete =
    Inr (op_lasts ops = [l] \<and> {f..l} \<subseteq> op_ids ops)"
  using rep_ops [OF assms] complete_iff assms(5)
  by (auto simp: batch_ops_def split: if_splits)

text \<open>The order of arrival does not matter.\<close>

lemma complete_ops_perm:
  assumes "rep t None {} None" and "id_ok f" and "id_ok l" and "f \<le> l" and "batch_ops f l ops"
    and "mset ops' = mset ops"
  shows "rbind (apply_ops ops' (set_first f t)) complete = rbind (apply_ops ops (set_first f t)) complete"
proof -
  have ids: "op_ids ops' = op_ids ops"
    using mset_eq_setD [OF assms(6)] by (simp add: op_ids_def)
  have "mset (op_lasts xs) = sum_mset (image_mset (\<lambda>x. case x of SetLast l \<Rightarrow> {#l#} | Track _ \<Rightarrow> {#}) (mset xs))"
    for xs by (induction xs) (auto simp: op_lasts_def split: track_op.split)
  then have "mset (op_lasts ops') = mset (op_lasts ops)" using assms(6) by simp
  then have lasts: "op_lasts ops' = op_lasts ops" using assms(5) by (auto simp: batch_ops_def)
  then have "batch_ops f l ops'" using assms(5) ids by (simp add: batch_ops_def)
  from complete_ops [OF assms(1-4) this] complete_ops [OF assms(1-5)] ids lasts show ?thesis by simp
qed

end

section \<open>The buckets represent a set of ids\<close>

definition bit_at :: "MsgTracker \<Rightarrow> nat \<Rightarrow> bool" where
  "bit_at t p \<longleftrightarrow> p div 1000 < length (tr_bits t) \<and> tr_bits t ! (p div 1000) ! (p mod 1000)"

definition represents :: "MsgTracker \<Rightarrow> int option \<Rightarrow> int set \<Rightarrow> int option \<Rightarrow> bool" where
  "represents t fo S lo \<longleftrightarrow>
     (case fo of
        None \<Rightarrow> t = MsgTracker_init \<and> S = {} \<and> lo = None
      | Some f \<Rightarrow>
          id_ok f \<and> tr_first t = f \<and> tr_last t = (case lo of None \<Rightarrow> -1 | Some l \<Rightarrow> l)
          \<and> (\<forall>b \<in> set (tr_bits t). length b = 1000)
          \<and> S \<subseteq> {f..2147483647} \<and> (\<forall>p. bit_at t p \<longleftrightarrow> f + int p \<in> S)
          \<and> (case lo of
               None \<Rightarrow> (tr_bits t \<noteq> [] \<longrightarrow> (\<exists>n \<in> S. length (tr_bits t) = Suc (nat (n - f) div 1000)))
             | Some l \<Rightarrow> id_ok l \<and> S \<subseteq> {f..l} \<and> f \<le> l \<and> length (tr_bits t) = Suc (nat (l - f) div 1000)))"

lemma bucket_index:
  assumes "0 \<le> d" and "d \<le> 2147483647"
  shows "bucket_of d = int (nat d div 1000)" "index_of d = nat d mod 1000"
proof -
  have "to_size_t d = d" using assms by simp
  moreover have "to_int32 (d div 1000) = d div 1000"
  proof (rule to_int32_id)
    have "0 \<le> d div 1000" "d div 1000 \<le> 2147483647" using assms by linarith+
    then show "in_int32 (d div 1000)" by (simp add: in_int32_def)
  qed
  moreover obtain k where k: "d = int k" using assms(1) nonneg_int_cases by blast
  moreover have "int k div 1000 = int (k div 1000)" "int k mod 1000 = int (k mod 1000)"
    by (simp_all add: zdiv_int zmod_int)
  ultimately show "bucket_of d = int (nat d div 1000)" "index_of d = nat d mod 1000"
    unfolding bucket_of_def index_of_def tracker_SIZE_def by (simp_all only: nat_int)
qed

lemma to_int32_to_size_t: "to_int32 (to_size_t x) = to_int32 x"
proof -
  have "(x mod 18446744073709551616) mod 4294967296 = x mod (4294967296 :: int)"
    by (rule mod_mod_cancel) simp
  then have "(x mod 18446744073709551616 + 2147483648) mod 4294967296 = (x + 2147483648) mod (4294967296 :: int)"
    by (metis mod_add_left_eq)
  then show ?thesis by (simp add: to_int32_def to_size_t_def)
qed

lemma grow_bits:
  assumes "0 \<le> n" and "n \<le> 2147483647" and "length (tr_bits t) < 2147483648"
  shows "MsgTracker_grow n t =
    t\<lparr>tr_bits := tr_bits t @ replicate (nat n - length (tr_bits t)) (replicate 1000 False)\<rparr>"
proof -
  have "to_int32 (to_size_t (n - int (length (tr_bits t)))) = n - int (length (tr_bits t))"
    using assms by (simp add: to_int32_to_size_t in_int32_def)
  then show ?thesis
    by (auto simp: MsgTracker_grow_def tracker_SIZE_def nat_diff_distrib' )
qed

lemma bit_at_grow:
  "bit_at (t\<lparr>tr_bits := tr_bits t @ replicate k (replicate 1000 False)\<rparr>) p = bit_at t p"
  by (auto simp: bit_at_def nth_append)

definition set_bit :: "nat \<Rightarrow> MsgTracker \<Rightarrow> MsgTracker" where
  "set_bit p t = t\<lparr>tr_bits := (tr_bits t)[p div 1000 := (tr_bits t ! (p div 1000))[p mod 1000 := True]]\<rparr>"

lemma bit_at_set:
  assumes "\<forall>b \<in> set (tr_bits t). length b = 1000" and "p div 1000 < length (tr_bits t)"
  shows "bit_at (set_bit p t) q \<longleftrightarrow> q = p \<or> bit_at t q"
proof -
  have len: "length (tr_bits t ! (p div 1000)) = 1000" using assms by simp
  have "q = p \<longleftrightarrow> q div 1000 = p div 1000 \<and> q mod 1000 = p mod 1000"
    by (metis div_mult_mod_eq)
  with len assms(2) show ?thesis
    by (auto simp: bit_at_def set_bit_def nth_list_update)
qed

lemma bucket_count_bound: "id_ok n \<Longrightarrow> id_ok f \<Longrightarrow> nat (n - f) div 1000 \<le> 2147483"
  unfolding id_ok_def by linarith

lemma grow_at_least:
  "k \<le> 2147483 \<Longrightarrow> length (tr_bits t) < 2147483648 \<Longrightarrow>
   k < length (tr_bits (MsgTracker_grow (int (Suc k)) t))"
  by (subst grow_bits) simp_all

lemma track_eq:
  assumes "0 \<le> n - tr_first t" and "n - tr_first t \<le> 2147483647" and "length (tr_bits t) < 2147483648"
  shows "MsgTracker_track n t =
    Inr (set_bit (nat (n - tr_first t)) (MsgTracker_grow (int (Suc (nat (n - tr_first t) div 1000))) t))"
proof -
  let ?p = "nat (n - tr_first t)"
  have p: "?p div 1000 \<le> 2147483" using assms by linarith
  have sub: "sub_int32 n (tr_first t) = Inr (n - tr_first t)"
    using assms by (simp add: sub_int32_def in_int32_def)
  have add: "add_int32 (int (?p div 1000)) 1 = Inr (int (Suc (?p div 1000)))"
    using p by (simp add: add_int32_def in_int32_def)
  have grow: "?p div 1000 < length (tr_bits (MsgTracker_grow (int (Suc (?p div 1000))) t))"
    using grow_at_least p assms(3) by blast
  show ?thesis
    using grow unfolding MsgTracker_track_def sub rbind_simps bucket_index [OF assms(1,2)] Let_def add
    by (simp only: rbind_simps set_bit_def nat_int of_nat_0_le_iff of_nat_less_iff simp_thms if_True)
qed

lemma representsD:
  assumes "represents t (Some f) S lo"
  shows "id_ok f" "tr_first t = f" "tr_last t = (case lo of None \<Rightarrow> -1 | Some l \<Rightarrow> l)"
    "\<forall>b \<in> set (tr_bits t). length b = 1000" "S \<subseteq> {f..2147483647}"
    "bit_at t p \<longleftrightarrow> f + int p \<in> S"
    "lo = None \<Longrightarrow> tr_bits t \<noteq> [] \<Longrightarrow> \<exists>n \<in> S. length (tr_bits t) = Suc (nat (n - f) div 1000)"
    "lo = Some l \<Longrightarrow> id_ok l \<and> S \<subseteq> {f..l} \<and> f \<le> l \<and> length (tr_bits t) = Suc (nat (l - f) div 1000)"
  using assms by (simp_all add: represents_def)

lemma represents_length:
  assumes r: "represents t (Some f) S lo"
  shows "length (tr_bits t) \<le> 2147484"
proof (cases "tr_bits t = []")
  case False
  obtain n where n: "id_ok n" "length (tr_bits t) = Suc (nat (n - f) div 1000)"
  proof (cases lo)
    case None
    from representsD(7) [OF r None False] obtain n where
      "n \<in> S" "length (tr_bits t) = Suc (nat (n - f) div 1000)" by blast
    moreover have "id_ok n"
      using \<open>n \<in> S\<close> representsD(1,5) [OF r] by (auto simp: id_ok_def)
    ultimately show ?thesis using that by blast
  next
    case (Some l)
    from representsD(8) [OF r Some] show ?thesis using that by blast
  qed
  then show ?thesis using bucket_count_bound [OF n(1) representsD(1) [OF r]] by simp
qed simp

lemma set_bit_buckets:
  assumes "\<forall>b \<in> set (tr_bits t). length b = 1000" and "p div 1000 < length (tr_bits t)"
  shows "\<forall>b \<in> set (tr_bits (set_bit p t)). length b = 1000"
proof
  fix b assume "b \<in> set (tr_bits (set_bit p t))"
  then have "b = (tr_bits t ! (p div 1000))[p mod 1000 := True] \<or> b \<in> set (tr_bits t)"
    using set_update_subset_insert by (fastforce simp: set_bit_def)
  then show "length b = 1000" using assms by auto
qed

text \<open>The tracker after an id that is in range: grown to the bucket of the id, with its bit.\<close>

lemma track_represented:
  assumes r: "represents t (Some f) S lo" and n: "id_ok n" "f \<le> n"
  obtains t' where "MsgTracker_track n t = Inr t'"
    "tr_first t' = f" "tr_last t' = tr_last t" "\<forall>b \<in> set (tr_bits t'). length b = 1000"
    "\<And>q. bit_at t' q \<longleftrightarrow> f + int q \<in> insert n S"
    "length (tr_bits t') = max (length (tr_bits t)) (Suc (nat (n - f) div 1000))"
proof -
  define p where "p = nat (n - f)"
  define k where "k = p div 1000"
  define g where "g = MsgTracker_grow (int (Suc k)) t"
  note D = representsD [OF r]
  have pb: "k \<le> 2147483" using bucket_count_bound [OF n(1) D(1)] by (simp add: k_def p_def)
  have len: "length (tr_bits t) < 2147483648" using represents_length [OF r] by simp
  have g: "g = t\<lparr>tr_bits := tr_bits t @ replicate (Suc k - length (tr_bits t)) (replicate 1000 False)\<rparr>"
    unfolding g_def using pb len by (subst grow_bits) simp_all
  have bnd: "p div 1000 < length (tr_bits g)" by (simp add: g flip: k_def)
  have lens: "\<forall>b \<in> set (tr_bits g). length b = 1000" using D(4) by (auto simp: g)
  have fp: "f + int p = n" using n(2) by (simp add: p_def)
  have nf: "0 \<le> n - tr_first t" "n - tr_first t \<le> 2147483647"
    using n D(1,2) unfolding id_ok_def by linarith+
  have track: "MsgTracker_track n t = Inr (set_bit p g)"
    using track_eq [OF nf len] by (simp only: D(2) p_def k_def g_def)
  have bits: "bit_at (set_bit p g) q \<longleftrightarrow> f + int q \<in> insert n S" for q
    using bit_at_set [OF lens bnd, of q] D(6) [of q] fp by (auto simp: g bit_at_grow)
  show thesis
  proof (rule that [OF track _ _ set_bit_buckets [OF lens bnd] bits])
    show "tr_first (set_bit p g) = f" "tr_last (set_bit p g) = tr_last t"
      by (simp_all add: set_bit_def g D(2))
    show "length (tr_bits (set_bit p g)) = max (length (tr_bits t)) (Suc (nat (n - f) div 1000))"
      by (simp add: set_bit_def g flip: k_def p_def)
  qed
qed

lemma bucket_mono: "n \<le> l \<Longrightarrow> nat (n - f) div 1000 \<le> nat (l - f) div 1000"
  by (intro div_le_mono nat_mono) simp

lemma represents_track:
  assumes r: "represents t (Some f) S lo" and n: "id_ok n" "f \<le> n" and l: "\<forall>l. lo = Some l \<longrightarrow> n \<le> l"
  shows "\<exists>t'. MsgTracker_track n t = Inr t' \<and> represents t' (Some f) (insert n S) lo"
proof -
  note D = representsD [OF r]
  from track_represented [OF r n] obtain t' where t': "MsgTracker_track n t = Inr t'"
    "tr_first t' = f" "tr_last t' = tr_last t" "\<forall>b \<in> set (tr_bits t'). length b = 1000"
    "\<And>q. bit_at t' q \<longleftrightarrow> f + int q \<in> insert n S"
    and cnt: "length (tr_bits t') = max (length (tr_bits t)) (Suc (nat (n - f) div 1000))" by metis
  have sub: "insert n S \<subseteq> {f..2147483647}" using n D(5) by (auto simp: id_ok_def)
  have "represents t' (Some f) (insert n S) lo"
  proof (cases lo)
    case None
    have "\<exists>m \<in> insert n S. length (tr_bits t') = Suc (nat (m - f) div 1000)"
    proof (cases "length (tr_bits t) \<le> Suc (nat (n - f) div 1000)")
      case True
      then show ?thesis by (simp add: cnt max_def)
    next
      case False
      then have "tr_bits t \<noteq> []" by auto
      with D(7) None False show ?thesis by (auto simp: cnt)
    qed
    then show ?thesis unfolding represents_def using t'(2-5) sub D(1,3) None by simp
  next
    case (Some m)
    then have "n \<le> m" using l by blast
    then have "length (tr_bits t') = Suc (nat (m - f) div 1000)"
      using D(8) [OF Some] bucket_mono [of n m f] by (simp add: cnt)
    then show ?thesis unfolding represents_def
      using t'(2-5) sub D(1,3) Some D(8) [OF Some] \<open>n \<le> m\<close> n(2) by simp
  qed
  with t'(1) show ?thesis by blast
qed

lemma represents_setLast:
  assumes r: "represents t (Some f) S None" and l: "id_ok l" "f \<le> l" "\<forall>n \<in> S. n \<le> l"
  shows "\<exists>t'. MsgTracker_setLast l t = Inr t' \<and> represents t' (Some f) S (Some l)"
proof -
  note D = representsD [OF r]
  define k where "k = nat (l - f) div 1000"
  define t2 where "t2 = t\<lparr>tr_last := l\<rparr>"
  have lf: "0 \<le> l - f" "l - f \<le> 2147483647" using l D(1) unfolding id_ok_def by linarith+
  have kb: "k \<le> 2147483" using bucket_count_bound [OF l(1) D(1)] by (simp add: k_def)
  have len: "length (tr_bits t2) < 2147483648" using represents_length [OF r] by (simp add: t2_def)
  have sub: "sub_int32 l (tr_first t) = Inr (l - f)" using lf by (simp add: sub_int32_def in_int32_def D(2))
  have add: "add_int32 (bucket_of (l - f)) 1 = Inr (int (Suc k))"
    using kb by (simp add: bucket_index [OF lf] add_int32_def in_int32_def flip: k_def)
  have set: "MsgTracker_setLast l t = Inr (MsgTracker_grow (int (Suc k)) t2)"
    by (simp only: MsgTracker_setLast_def sub rbind_simps add t2_def)
  have g: "MsgTracker_grow (int (Suc k)) t2 =
      t2\<lparr>tr_bits := tr_bits t2 @ replicate (Suc k - length (tr_bits t2)) (replicate 1000 False)\<rparr>"
    using kb len by (subst grow_bits) simp_all
  have "length (tr_bits t) \<le> Suc k"
  proof (cases "tr_bits t = []")
    case False
    from D(7) [OF refl False] obtain n where "n \<in> S" "length (tr_bits t) = Suc (nat (n - f) div 1000)" by blast
    then show ?thesis using bucket_mono [of n l f] l(3) by (simp add: k_def)
  qed simp
  then have cnt: "length (tr_bits (MsgTracker_grow (int (Suc k)) t2)) = Suc k"
    unfolding g by (simp add: t2_def)
  have "bit_at (MsgTracker_grow (int (Suc k)) t2) p \<longleftrightarrow> f + int p \<in> S" for p
    unfolding g bit_at_grow using D(6) by (simp add: t2_def bit_at_def)
  moreover have "\<forall>b \<in> set (tr_bits (MsgTracker_grow (int (Suc k)) t2)). length b = 1000"
    unfolding g using D(4) by (auto simp: t2_def)
  moreover have "tr_first (MsgTracker_grow (int (Suc k)) t2) = f" "tr_last (MsgTracker_grow (int (Suc k)) t2) = l"
    unfolding g by (simp_all add: t2_def D(2))
  ultimately have "represents (MsgTracker_grow (int (Suc k)) t2) (Some f) S (Some l)"
    unfolding represents_def using D(1,5) l cnt by (auto simp: k_def)
  with set show ?thesis by blast
qed


lemma bitset_count_full: "length b = 1000 \<Longrightarrow> bitset_count b = 1000 \<longleftrightarrow> (\<forall>j < 1000. b ! j)"
proof -
  assume "length b = 1000"
  then have "bitset_count b = 1000 \<longleftrightarrow> length (filter (\<lambda>x. x) b) = length b"
    by (simp add: bitset_count_def)
  also have "\<dots> \<longleftrightarrow> (\<forall>x \<in> set b. x)"
    by (metis filter_True length_filter_less less_irrefl)
  finally show ?thesis using \<open>length b = 1000\<close> by (simp add: all_set_conv_all_nth)
qed

text \<open>Testing the full buckets and then the bits of the last one tests every bit up to \<open>K\<close>.\<close>

lemma buckets_cover:
  "(\<forall>i < K div 1000. \<forall>j < 1000. P i j) \<and> (\<forall>j \<le> K mod 1000. P (K div 1000) j) \<longleftrightarrow>
   (\<forall>p \<le> K. P (p div 1000) (p mod (1000::nat)))"
proof (intro iffI conjI allI impI)
  fix p assume h: "(\<forall>i < K div 1000. \<forall>j < 1000. P i j) \<and> (\<forall>j \<le> K mod 1000. P (K div 1000) j)" and "p \<le> K"
  then have "p div 1000 < K div 1000 \<or> p div 1000 = K div 1000 \<and> p mod 1000 \<le> K mod 1000"
    using div_le_mono [OF \<open>p \<le> K\<close>, of 1000]
    by (metis div_mult_mod_eq le_neq_implies_less nat_add_left_cancel_le)
  with h show "P (p div 1000) (p mod 1000)" by auto
next
  fix i j assume h: "\<forall>p \<le> K. P (p div 1000) (p mod 1000)" and ij: "i < K div 1000" "(j :: nat) < 1000"
  have "1000 * i + j \<le> K" using ij by linarith
  moreover have "(1000 * i + j) div 1000 = i" "(1000 * i + j) mod 1000 = j" using ij by simp_all
  ultimately show "P i j" using h by metis
next
  fix j assume h: "\<forall>p \<le> K. P (p div 1000) (p mod 1000)" and j: "j \<le> K mod 1000"
  have "j < 1000" using j mod_less_divisor [of 1000 K] by linarith
  moreover have "1000 * (K div 1000) + j \<le> K" using j by (metis add.commute add_le_cancel_left mult_div_mod_eq)
  moreover have "(1000 * (K div 1000) + j) div 1000 = K div 1000" "(1000 * (K div 1000) + j) mod 1000 = j"
    using \<open>j < 1000\<close> by simp_all
  ultimately show "P (K div 1000) j" using h by metis
qed

lemma complete_represented:
  assumes r: "represents t (Some f) S (Some l)"
  shows "MsgTracker_complete t = Inr ({f..l} \<subseteq> S)"
proof -
  note D = representsD [OF r]
  define K where "K = nat (l - f)"
  have l: "id_ok l" "f \<le> l" "length (tr_bits t) = Suc (K div 1000)" using D(8) [OF refl] by (simp_all add: K_def)
  have lf: "0 \<le> l - f" "l - f \<le> 2147483647" using l D(1) unfolding id_ok_def by linarith+
  have t: "tr_first t = f" "tr_last t = l" "f \<noteq> -1" "l \<noteq> -1" "tr_bits t \<noteq> []"
    using D(1-3) l by (auto simp: id_ok_def)
  have sub: "sub_int32 l f = Inr (l - f)" using lf by (simp add: sub_int32_def in_int32_def)
  have idx: "index_of (l - f) = K mod 1000" by (simp add: bucket_index [OF lf] K_def)
  let ?full = "list_all (\<lambda>i. bitset_count (tr_bits t ! i) = nat tracker_SIZE) [0..<length (tr_bits t) - 1]"
  let ?last = "list_all (\<lambda>i. tr_bits t ! (length (tr_bits t) - 1) ! i) [0..<Suc (K mod 1000)]"
  have "?full \<longleftrightarrow> (\<forall>i < K div 1000. \<forall>j < 1000. tr_bits t ! i ! j)"
    using D(4) by (auto simp: list_all_iff l(3) tracker_SIZE_def bitset_count_full)
  moreover have "?last \<longleftrightarrow> (\<forall>j \<le> K mod 1000. tr_bits t ! (K div 1000) ! j)"
    by (auto simp: list_all_iff l(3) less_Suc_eq_le)
  ultimately have "?full \<and> ?last \<longleftrightarrow> (\<forall>p \<le> K. tr_bits t ! (p div 1000) ! (p mod 1000))"
    using buckets_cover [of K "\<lambda>i j. tr_bits t ! i ! j"] by blast
  also have "\<dots> \<longleftrightarrow> (\<forall>p \<le> K. bit_at t p)"
    using l(3) by (auto simp: bit_at_def less_Suc_eq_le intro: div_le_mono)
  also have "\<dots> \<longleftrightarrow> {f..l} \<subseteq> S"
  proof
    assume h: "\<forall>p \<le> K. bit_at t p"
    show "{f..l} \<subseteq> S"
    proof
      fix n assume "n \<in> {f..l}"
      then have "nat (n - f) \<le> K" "f + int (nat (n - f)) = n" by (auto simp: K_def)
      then show "n \<in> S" using h D(6) [of "nat (n - f)"] by simp
    qed
  next
    assume "{f..l} \<subseteq> S"
    then show "\<forall>p \<le> K. bit_at t p" using D(6) lf by (auto simp: K_def subset_iff)
  qed
  finally have iff: "?full \<and> ?last \<longleftrightarrow> {f..l} \<subseteq> S" .
  show ?thesis
    using iff by (simp add: MsgTracker_complete_def t sub idx del: upt_Suc) blast
qed

lemma represents_complete:
  assumes "represents t fo S lo"
  shows "MsgTracker_complete t =
    Inr (case fo of None \<Rightarrow> lo = None | Some f \<Rightarrow> (case lo of None \<Rightarrow> False | Some l \<Rightarrow> {f..l} \<subseteq> S))"
proof (cases fo)
  case None
  with assms show ?thesis by (simp add: represents_def MsgTracker_complete_def MsgTracker_init_def)
next
  case (Some f)
  show ?thesis
  proof (cases lo)
    case None
    with Some assms show ?thesis
      by (auto simp: represents_def MsgTracker_complete_def id_ok_def)
  next
    case (Some l)
    with \<open>fo = Some f\<close> complete_represented assms show ?thesis by simp
  qed
qed

interpretation tracker: batch_tracker MsgTracker_init MsgTracker_setFirst MsgTracker_track
  MsgTracker_setLast MsgTracker_complete MsgTracker_reset represents
proof unfold_locales
  show "represents MsgTracker_init None {} None" by (simp add: represents_def)
  show "represents (MsgTracker_reset t) None {} None" for t
    by (simp add: represents_def MsgTracker_reset_def MsgTracker_init_def)
  show "represents (MsgTracker_setFirst f t) (Some f) {} None"
    if "represents t None {} None" "id_ok f" for t f
    using that by (simp add: represents_def MsgTracker_setFirst_def MsgTracker_init_def bit_at_def)
qed (use represents_track represents_setLast represents_complete in blast)+

section \<open>Properties\<close>

text \<open>
  Claim C4.  A batch is complete exactly when everything has arrived: once the first id \<open>f\<close> is
  set, tracking ids between \<open>f\<close> and \<open>l\<close> (repetitions included) and setting the last id \<open>l\<close>,
  in any order, never fails, and afterwards \<open>complete()\<close> holds if and only if the last id has
  been set and every id from \<open>f\<close> to \<open>l\<close> has been tracked.
\<close>

theorem MsgTracker_complete_iff_all_tracked:
  assumes "id_ok f" and "id_ok l" and "f \<le> l" and "batch_ops f l ops"
  shows "rbind (foldl (\<lambda>r x. rbind r (\<lambda>t. case x of Track n \<Rightarrow> MsgTracker_track n t
                                            | SetLast m \<Rightarrow> MsgTracker_setLast m t))
                  (Inr (MsgTracker_setFirst f MsgTracker_init)) ops) MsgTracker_complete =
         Inr (op_lasts ops = [l] \<and> {f..l} \<subseteq> op_ids ops)"
  using tracker.complete_ops [OF tracker.rep_init assms]
  by (simp add: tracker.apply_ops_def tracker.apply_op_def [abs_def])

theorem MsgTracker_complete_iff_all_tracked_witness:
  "rbind (foldl (\<lambda>r x. rbind r (\<lambda>t. case x of Track n \<Rightarrow> MsgTracker_track n t
                                            | SetLast m \<Rightarrow> MsgTracker_setLast m t))
                  (Inr (MsgTracker_setFirst 7 MsgTracker_init)) [Track 8, SetLast 9, Track 7, Track 9, Track 7])
     MsgTracker_complete = Inr True"
proof -
  have "{7..9} = {7, 8, 9 :: int}" by auto
  with MsgTracker_complete_iff_all_tracked [of 7 9 "[Track 8, SetLast 9, Track 7, Track 9, Track 7]"]
  show ?thesis by (auto simp: id_ok_def batch_ops_def op_ids_def op_lasts_def)
qed

text \<open>
  An id that arrives before the first message is put down as its successor, because the
  unset \<open>first\<close> is -1; until then the tracker also reports a complete batch.
\<close>

theorem MsgTracker_track_before_first:
  assumes "0 \<le> n" and "n < 2147483647"
  shows "\<exists>t. MsgTracker_track n MsgTracker_init = Inr t \<and> MsgTracker_complete t = Inr True
    \<and> (\<forall>p. bit_at (MsgTracker_setFirst 0 t) p \<longleftrightarrow> int p = n + 1)"
proof -
  define g where "g = MsgTracker_grow (int (Suc (nat (n + 1) div 1000))) MsgTracker_init"
  have pb: "nat (n + 1) div 1000 \<le> 2147483" using assms by linarith
  have g: "g = MsgTracker_init\<lparr>tr_bits := replicate (Suc (nat (n + 1) div 1000)) (replicate 1000 False)\<rparr>"
    unfolding g_def using pb by (subst grow_bits) (simp_all add: MsgTracker_init_def nat_add_distrib)
  have lens: "\<forall>b \<in> set (tr_bits g). length b = 1000" "nat (n + 1) div 1000 < length (tr_bits g)"
    unfolding g by (simp_all del: replicate_Suc)
  have no: "\<not> bit_at g p" for p unfolding g by (simp add: bit_at_def del: replicate_Suc)
  have track: "MsgTracker_track n MsgTracker_init = Inr (set_bit (nat (n + 1)) g)"
    using track_eq [of n MsgTracker_init] assms by (simp add: g_def) (simp add: MsgTracker_init_def)
  have first: "tr_first (set_bit p g) = -1" "tr_last (set_bit p g) = -1" for p
    unfolding g by (simp_all add: set_bit_def MsgTracker_init_def)
  have "bit_at (MsgTracker_setFirst 0 (set_bit (nat (n + 1)) g)) p \<longleftrightarrow> int p = n + 1" for p
    using bit_at_set [OF lens, of p] no [of p] assms by (auto simp: bit_at_def MsgTracker_setFirst_def)
  then show ?thesis
    unfolding track by (auto simp: MsgTracker_complete_def first)
qed

theorem MsgTracker_track_before_first_witness:
  "\<exists>t. MsgTracker_track 0 MsgTracker_init = Inr t \<and> \<not> bit_at (MsgTracker_setFirst 0 t) 0"
  using MsgTracker_track_before_first [of 0] by auto

end
