(* ===== verification/Sink_Loop.thy ===== *)
theory Sink_Loop
  imports Messages Msg_Tracker
begin

text \<open>
  \<open>core/Poller.cpp\<close> and \<open>core/Sink.cpp\<close>: the message loop of a sink.

  One turn of the loop sees a \<open>turn\<close>: what the environment does to it (whether a signal has
  come, what is polled and received, the clock).  Sockets are libraries: a poll and a receive
  give a value or a \<open>zmq::error_t\<close>.  The worker is an interface in the code
  (\<open>core/ISinkWorker.hpp\<close>), so it is a record of functions on a state of any type.
\<close>

section \<open>Polling\<close>

definition Poller_NONE :: int where "Poller_NONE = 0"
definition Poller_MSG :: int where "Poller_MSG = 1"
definition Poller_CONTROL :: int where "Poller_CONTROL = 2"

lemmas Poller_defs = Poller_NONE_def Poller_MSG_def Poller_CONTROL_def

text \<open>\<open>zmq::poll\<close> says for each of the two sockets whether it is readable, or throws.\<close>

definition Poller_poll :: "(bool \<times> bool) res \<Rightarrow> int res" where
  "Poller_poll zpoll =
     rmap (\<lambda>(in0, in1). if in0 then Poller_MSG else if in1 then Poller_CONTROL else Poller_NONE) zpoll"

text \<open>A handler for \<open>zmq::error_t &\<close> only logs: the variable keeps the value it had.  Any
  other exception goes on.\<close>

definition catch_zmq :: "'a \<Rightarrow> 'a res \<Rightarrow> 'a res" where
  "catch_zmq old r = (case r of Inl (Zmq_error _) \<Rightarrow> Inr old | _ \<Rightarrow> r)"

lemma catch_zmq_simps [simp, res_simps]:
  "catch_zmq old (Inr x) = Inr x" "catch_zmq old (Inl (Zmq_error s)) = Inr old"
  by (simp_all add: catch_zmq_def)

lemma catch_zmq_Inr [res_simps]:
  "catch_zmq old r = Inr y \<longleftrightarrow> r = Inr y \<or> (\<exists>s. r = Inl (Zmq_error s) \<and> y = old)"
  by (auto simp: catch_zmq_def split: sum.split exn.split)

section \<open>The worker and the state of the loop\<close>

record 'w ISinkWorker =
  isw_first :: "int \<Rightarrow> 'w \<Rightarrow> 'w res"
  isw_process :: "int \<Rightarrow> string list \<Rightarrow> 'w \<Rightarrow> 'w res"
  isw_last :: "int \<Rightarrow> 'w \<Rightarrow> 'w res"
  isw_results :: "int \<Rightarrow> 'w \<Rightarrow> 'w res"

text \<open>What a turn meets: \<open>shouldQuit()\<close> at the head of the loop and after a receive, the
  outcome of the poll and of the receive, and the clock when the stop watch is started and
  when it is read.\<close>

record 'm turn =
  quit_head :: bool
  zpolled :: "(bool \<times> bool) res"
  received :: "'m res"
  quit_after :: bool
  clock_start :: timeval
  clock_total :: timeval

record 'w sink_state =
  ss_worker :: 'w
  ss_tracker :: MsgTracker
  ss_elapsed :: Elapsed
  ss_retries :: int

definition sink_timeout :: int where "sink_timeout = 5000"
definition sink_maxretries :: int where "sink_maxretries = 5"

definition sink_init :: "timeval \<Rightarrow> 'w \<Rightarrow> 'w sink_state" where
  "sink_init now w = \<lparr>ss_worker = w, ss_tracker = MsgTracker_init, ss_elapsed = now, ss_retries = 0\<rparr>"

section \<open>Sink::process\<close>

text \<open>The switch on the code of a message; \<open>None\<close> is the \<open>default\<close> branch, which leaves the
  loop with \<open>false\<close>.\<close>

definition sink_dispatch :: "'w ISinkWorker \<Rightarrow> SinkMsg \<Rightarrow> timeval \<Rightarrow> 'w sink_state \<Rightarrow> 'w sink_state option res" where
  "sink_dispatch wk sinkmsg now s =
     (let i = SinkMsg_getId sinkmsg in
      if SinkMsg_getCode sinkmsg = 1
      then rmap (\<lambda>w. Some (s\<lparr>ss_worker := w, ss_tracker := MsgTracker_setFirst i (ss_tracker s),
                              ss_elapsed := Elapsed_start now\<rparr>))
             (isw_first wk i (ss_worker s))
      else if SinkMsg_getCode sinkmsg = 2
      then rbind (isw_process wk i (SinkMsg_getData sinkmsg) (ss_worker s)) (\<lambda>w.
           rmap (\<lambda>t. Some (s\<lparr>ss_worker := w, ss_tracker := t\<rparr>)) (MsgTracker_track i (ss_tracker s)))
      else if SinkMsg_getCode sinkmsg = 3
      then rbind (isw_last wk i (ss_worker s)) (\<lambda>w.
           rmap (\<lambda>t. Some (s\<lparr>ss_worker := w, ss_tracker := t\<rparr>)) (MsgTracker_setLast i (ss_tracker s)))
      else Inr None)"

text \<open>Results and a new start once the batch is complete.\<close>

definition sink_finish :: "'w ISinkWorker \<Rightarrow> timeval \<Rightarrow> 'w sink_state \<Rightarrow> 'w sink_state res" where
  "sink_finish wk now s =
     rmap (\<lambda>w. s\<lparr>ss_worker := w, ss_tracker := MsgTracker_reset (ss_tracker s)\<rparr>)
       (isw_results wk (Elapsed_getTotal (ss_elapsed s) now) (ss_worker s))"

text \<open>The body of the loop.  It stops with the value \<open>process\<close> returns and the worker, or with
  an exception that leaves \<open>process\<close>.  \<open>no_msg\<close> is the empty message a failed receive leaves.\<close>

type_synonym 'w sink_outcome = "('w sink_state, (bool \<times> 'w) res) outcome"

definition outcome_of :: "('s, 'r res) outcome res \<Rightarrow> ('s, 'r res) outcome" where
  "outcome_of r = (case r of Inl e \<Rightarrow> Stop (Inl e) | Inr out \<Rightarrow> out)"

lemma outcome_of_simps [simp]:
  "outcome_of (Inl e) = Stop (Inl e)" "outcome_of (Inr out) = out"
  by (simp_all add: outcome_of_def)

definition sink_on_msg ::
  "('m, SinkMsg) codec \<Rightarrow> 'm \<Rightarrow> 'w ISinkWorker \<Rightarrow> 'm turn \<Rightarrow> 'w sink_state \<Rightarrow> 'w sink_outcome res" where
  "sink_on_msg sc no_msg wk ev s0 =
     (let s = s0\<lparr>ss_retries := 0\<rparr> in
      rbind (catch_zmq no_msg (received ev)) (\<lambda>message.
      if quit_after ev then Inr (Stop (Inr (True, ss_worker s)))
      else rbind (Msg_of_message sc message) (\<lambda>sinkmsg.
           rbind (sink_dispatch wk sinkmsg (clock_start ev) s) (\<lambda>d.
             case d of
               None \<Rightarrow> Inr (Stop (Inr (False, ss_worker s)))
             | Some s' \<Rightarrow>
                 rbind (MsgTracker_complete (ss_tracker s')) (\<lambda>c.
                   if c then rmap Continue (sink_finish wk (clock_total ev) s')
                   else Inr (Continue s'))))))"

definition sink_on_control :: "('m, KillMsg) codec \<Rightarrow> 'm turn \<Rightarrow> 'w sink_state \<Rightarrow> 'w sink_outcome res" where
  "sink_on_control kc ev s =
     catch_zmq (Continue s)
       (rbind (received ev) (\<lambda>message.
        rbind (Msg_of_message kc message) (\<lambda>kill.
          if KillMsg_value kill = 0
          then rmap (\<lambda>_. Stop (Inr (True, ss_worker s))) (MsgTracker_complete (ss_tracker s))
          else Inr (Continue s))))"

definition sink_on_timeout :: "'w ISinkWorker \<Rightarrow> 'm turn \<Rightarrow> 'w sink_state \<Rightarrow> 'w sink_outcome res" where
  "sink_on_timeout wk ev s =
     rbind (MsgTracker_dump (ss_tracker s)) (\<lambda>_.
       if ss_retries s > sink_maxretries
       then rmap Continue (sink_finish wk (clock_total ev) s)
       else Inr (Continue (s\<lparr>ss_retries := ss_retries s + 1\<rparr>)))"

definition sink_turn ::
  "('m, SinkMsg) codec \<Rightarrow> ('m, KillMsg) codec \<Rightarrow> 'm \<Rightarrow> 'w ISinkWorker \<Rightarrow>
   'w sink_state \<Rightarrow> 'm turn \<Rightarrow> 'w sink_outcome" where
  "sink_turn sc kc no_msg wk s ev =
     (if quit_head ev
      then outcome_of (rmap (\<lambda>_. Stop (Inr (True, ss_worker s))) (MsgTracker_complete (ss_tracker s)))
      else outcome_of
        (rbind (catch_zmq Poller_NONE (Poller_poll (zpolled ev))) (\<lambda>recved.
           if recved = Poller_MSG then sink_on_msg sc no_msg wk ev s
           else if recved = Poller_CONTROL then sink_on_control kc ev s
           else if recved = Poller_NONE then sink_on_timeout wk ev s
           else Inr (Continue s))))"

definition Sink_process ::
  "('m, SinkMsg) codec \<Rightarrow> ('m, KillMsg) codec \<Rightarrow> 'm \<Rightarrow> 'w ISinkWorker \<Rightarrow> timeval \<Rightarrow> 'w \<Rightarrow> 'm turn list \<Rightarrow>
   'w sink_outcome \<times> 'm turn list" where
  "Sink_process sc kc no_msg wk now w evs = run (sink_turn sc kc no_msg wk) (sink_init now w) evs"

section \<open>A worker that records its calls\<close>

datatype sink_call =
    Call_first int
  | Call_process int "string list"
  | Call_last int
  | Call_results int

definition trace_worker :: "sink_call list ISinkWorker" where
  "trace_worker =
     \<lparr>isw_first = \<lambda>i w. Inr (w @ [Call_first i]),
      isw_process = \<lambda>i d w. Inr (w @ [Call_process i d]),
      isw_last = \<lambda>i w. Inr (w @ [Call_last i]),
      isw_results = \<lambda>t w. Inr (w @ [Call_results t])\<rparr>"

lemma trace_worker_simps [simp]:
  "isw_first trace_worker i w = Inr (w @ [Call_first i])"
  "isw_process trace_worker i d w = Inr (w @ [Call_process i d])"
  "isw_last trace_worker i w = Inr (w @ [Call_last i])"
  "isw_results trace_worker t w = Inr (w @ [Call_results t])"
  by (simp_all add: trace_worker_def)

section \<open>Turns\<close>

text \<open>A turn that delivers a message, and a quiet turn: a timeout or an interrupted poll.\<close>

definition delivers :: "('m, SinkMsg) codec \<Rightarrow> 'm turn \<Rightarrow> SinkMsg \<Rightarrow> bool" where
  "delivers sc ev m \<longleftrightarrow> \<not> quit_head ev \<and> \<not> quit_after ev
     \<and> (case zpolled ev of Inr (in0, _) \<Rightarrow> in0 | Inl _ \<Rightarrow> False)
     \<and> (case received ev of Inr x \<Rightarrow> unpack sc x = Inr m | Inl _ \<Rightarrow> False)"

definition quiet :: "'m turn \<Rightarrow> bool" where
  "quiet ev \<longleftrightarrow> \<not> quit_head ev
     \<and> (case zpolled ev of Inr (in0, in1) \<Rightarrow> \<not> in0 \<and> \<not> in1 | Inl (Zmq_error _) \<Rightarrow> True | Inl _ \<Rightarrow> False)"

lemma turn_quiet:
  "quiet ev \<Longrightarrow> sink_turn sc kc no_msg wk s ev = outcome_of (sink_on_timeout wk ev s)"
  by (auto simp: quiet_def sink_turn_def Poller_poll_def Poller_defs split: sum.splits exn.splits)

lemma turn_delivers:
  assumes "delivers sc ev m"
  shows "sink_turn sc kc no_msg wk s ev = outcome_of
    (rbind (sink_dispatch wk m (clock_start ev) (s\<lparr>ss_retries := 0\<rparr>)) (\<lambda>d.
             case d of
               None \<Rightarrow> Inr (Stop (Inr (False, ss_worker s)))
             | Some s' \<Rightarrow>
                 rbind (MsgTracker_complete (ss_tracker s')) (\<lambda>c.
                   if c then rmap Continue (sink_finish wk (clock_total ev) s')
                   else Inr (Continue s'))))"
  using assms
  by (auto simp: delivers_def sink_turn_def sink_on_msg_def Poller_poll_def Poller_defs Msg_of_message_def
      split: sum.splits)

section \<open>A whole batch\<close>

text \<open>The data and last messages of a batch as operations on the tracker and as calls of the
  worker.\<close>

definition body_msg :: "SinkMsg \<Rightarrow> bool" where
  "body_msg m \<longleftrightarrow> SinkMsg_getCode m = 2 \<or> SinkMsg_getCode m = 3"

definition op_of :: "SinkMsg \<Rightarrow> track_op" where
  "op_of m = (if SinkMsg_getCode m = 2 then Track (SinkMsg_getId m) else SetLast (SinkMsg_getId m))"

definition call_of :: "SinkMsg \<Rightarrow> sink_call" where
  "call_of m = (if SinkMsg_getCode m = 2 then Call_process (SinkMsg_getId m) (SinkMsg_getData m)
                else Call_last (SinkMsg_getId m))"

definition all_received :: "int \<Rightarrow> int \<Rightarrow> SinkMsg list \<Rightarrow> bool" where
  "all_received f l ms \<longleftrightarrow> op_lasts (map op_of ms) = [l] \<and> {f..l} \<subseteq> op_ids (map op_of ms)"

lemma dispatch_body:
  assumes "body_msg m"
  shows "sink_dispatch trace_worker m now s =
    rmap (\<lambda>t. Some (s\<lparr>ss_worker := ss_worker s @ [call_of m], ss_tracker := t\<rparr>))
      (tracker.apply_op (op_of m) (ss_tracker s))"
  using assms
  by (auto simp: body_msg_def sink_dispatch_def Let_def call_of_def op_of_def tracker.apply_op_def)

lemma run_snoc:
  "run step s xs = (Continue s', []) \<Longrightarrow>
   run step s (xs @ [x]) = (case step s' x of Continue s2 \<Rightarrow> (Continue s2, []) | Stop r \<Rightarrow> (Stop r, []))"
  by (simp add: run_append split: outcome.split)

lemma sink_start:
  assumes "delivers sc ev (1, f, d)" and "id_ok f" and "ss_tracker s = MsgTracker_init"
  shows "sink_turn sc kc no_msg trace_worker s ev =
    Continue (s\<lparr>ss_worker := ss_worker s @ [Call_first f], ss_tracker := MsgTracker_setFirst f MsgTracker_init,
                 ss_elapsed := clock_start ev, ss_retries := 0\<rparr>)"
proof -
  have "MsgTracker_complete (MsgTracker_setFirst f MsgTracker_init) = Inr False"
    using tracker.complete_iff [OF tracker.rep_first [OF tracker.rep_init assms(2)]] by simp
  then show ?thesis
    by (simp add: turn_delivers [OF assms(1)] sink_dispatch_def SinkMsg_defs Let_def Elapsed_start_def
        assms(3))
qed

lemma all_received_mono: "batch_ops f l (map op_of (ms @ ms')) \<Longrightarrow> all_received f l ms \<Longrightarrow> all_received f l (ms @ ms')"
proof (induction ms' rule: rev_induct)
  case (snoc m ms')
  then have "batch_ops f l (map op_of (ms @ ms'))"
    using batch_ops_butlast [of f l "map op_of (ms @ ms')" "op_of m"] by simp
  with snoc have "all_received f l (ms @ ms')" by blast
  with snoc.prems(1) show ?case
    by (cases "op_of m")
      (auto simp: all_received_def batch_ops_simps(3-6) batch_ops_simps(1,2) [of f l "map op_of ms @ map op_of ms'"]
        simp flip: append_assoc)
qed simp

text \<open>While the batch is incomplete the worker sees the messages and nothing else.\<close>

lemma sink_collects:
  assumes f: "id_ok f" "id_ok l" "f \<le> l" and s: "ss_tracker s = MsgTracker_init"
    and ev: "delivers sc ev (1, f, d)"
    and evs: "list_all2 (delivers sc) evs ms" "list_all body_msg ms"
    and b: "batch_ops f l (map op_of ms)" "\<not> all_received f l ms"
  shows "\<exists>t. run (sink_turn sc kc no_msg trace_worker) s (ev # evs) =
      (Continue (s\<lparr>ss_worker := ss_worker s @ Call_first f # map call_of ms, ss_tracker := t,
                   ss_elapsed := clock_start ev, ss_retries := 0\<rparr>), [])
    \<and> tracker.apply_ops (map op_of ms) (MsgTracker_setFirst f MsgTracker_init) = Inr t"
  using evs b
proof (induction ms arbitrary: evs rule: rev_induct)
  case Nil
  then show ?case using sink_start [OF ev f(1) s] by (simp add: tracker.apply_ops_simps)
next
  case (snoc m ms)
  from snoc.prems(1) obtain es e where es: "evs = es @ [e]" "list_all2 (delivers sc) es ms" "delivers sc e m"
    by (auto simp: list_all2_append2 list_all2_Cons2)
  have bm: "batch_ops f l (map op_of ms)" "\<not> all_received f l ms"
    using snoc.prems(3,4) batch_ops_butlast [of f l "map op_of ms" "op_of m"] all_received_mono [of f l ms "[m]"]
    by auto
  obtain t where t: "run (sink_turn sc kc no_msg trace_worker) s (ev # es) =
      (Continue (s\<lparr>ss_worker := ss_worker s @ Call_first f # map call_of ms, ss_tracker := t,
                   ss_elapsed := clock_start ev, ss_retries := 0\<rparr>), [])"
      "tracker.apply_ops (map op_of ms) (MsgTracker_setFirst f MsgTracker_init) = Inr t"
    using snoc.IH [OF es(2) _ bm] snoc.prems(2) by auto
  obtain t' where t': "tracker.apply_ops (map op_of (ms @ [m])) (MsgTracker_setFirst f MsgTracker_init) = Inr t'"
    using tracker.rep_ops [OF tracker.rep_init f snoc.prems(3)] by blast
  then have op: "tracker.apply_op (op_of m) t = Inr t'" using t(2) by (simp add: tracker.apply_ops_simps)
  have "MsgTracker_complete t' = Inr False"
    using tracker.complete_ops [OF tracker.rep_init f snoc.prems(3)] t' snoc.prems(4)
    by (simp add: all_received_def)
  then show ?case
    using run_snoc [OF t(1), of e] snoc.prems(2) t' op
    by (simp add: es(1) turn_delivers [OF es(3)] dispatch_body)
qed

lemma sink_batch_trace:
  assumes "id_ok f" and "id_ok l" and "f \<le> l" and "ss_tracker s = MsgTracker_init"
    and "delivers sc ev (1, f, d)"
    and "list_all2 (delivers sc) evs ms" and "delivers sc e m" and "list_all body_msg (ms @ [m])"
    and "batch_ops f l (map op_of (ms @ [m]))"
    and "\<not> all_received f l ms" and "all_received f l (ms @ [m])"
  shows "run (sink_turn sc kc no_msg trace_worker) s (ev # evs @ [e]) =
    (Continue \<lparr>ss_worker = ss_worker s @ Call_first f # map call_of (ms @ [m])
                 @ [Call_results (Elapsed_getTotal (clock_start ev) (clock_total e))],
       ss_tracker = MsgTracker_init, ss_elapsed = clock_start ev, ss_retries = 0\<rparr>, [])"
proof -
  have bm: "batch_ops f l (map op_of ms)"
    using assms(9) batch_ops_butlast [of f l "map op_of ms" "op_of m"] by simp
  have "list_all body_msg ms" "body_msg m" using assms(8) by auto
  then obtain t where t: "run (sink_turn sc kc no_msg trace_worker) s (ev # evs) =
      (Continue (s\<lparr>ss_worker := ss_worker s @ Call_first f # map call_of ms, ss_tracker := t,
                   ss_elapsed := clock_start ev, ss_retries := 0\<rparr>), [])"
      "tracker.apply_ops (map op_of ms) (MsgTracker_setFirst f MsgTracker_init) = Inr t"
    using sink_collects [OF assms(1-6) _ bm assms(10)] by blast
  obtain t' where t': "tracker.apply_ops (map op_of (ms @ [m])) (MsgTracker_setFirst f MsgTracker_init) = Inr t'"
    using tracker.rep_ops [OF tracker.rep_init assms(1-3,9)] by blast
  then have op: "tracker.apply_op (op_of m) t = Inr t'" using t(2) by (simp add: tracker.apply_ops_simps)
  have "MsgTracker_complete t' = Inr True"
    using tracker.complete_ops [OF tracker.rep_init assms(1-3,9)] t' assms(11)
    by (simp add: all_received_def)
  then show ?thesis
    using run_snoc [OF t(1), of e] op \<open>body_msg m\<close>
    by (simp add: turn_delivers [OF assms(7)] dispatch_body sink_finish_def MsgTracker_reset_def
        MsgTracker_init_def)
qed

text \<open>
  Claim C3.  One batch, one report: let a sink that is between batches receive the first id \<open>f\<close>,
  then data messages with ids of the batch and one announcement of the last id \<open>l\<close>, in any
  order.  The worker is called for each message in the order of arrival, and \<open>results\<close> is called
  once, on the message that completes the batch, with the time since the first message; the
  tracker is then as at the start, ready for the next batch.
\<close>

theorem Sink_batch_reports_once:
  assumes "id_ok f" and "id_ok l" and "f \<le> l" and "ss_tracker s = MsgTracker_init"
    and "delivers sc ev (1, f, d)"
    and "list_all2 (delivers sc) evs ms" and "delivers sc e m" and "list_all body_msg (ms @ [m])"
    and "batch_ops f l (map op_of (ms @ [m]))"
    and "\<not> all_received f l ms" and "all_received f l (ms @ [m])"
  shows "run (sink_turn sc kc no_msg trace_worker) s (ev # evs @ [e]) =
    (Continue \<lparr>ss_worker = ss_worker s @ Call_first f # map call_of (ms @ [m])
                 @ [Call_results (Elapsed_getTotal (clock_start ev) (clock_total e))],
       ss_tracker = MsgTracker_init, ss_elapsed = clock_start ev, ss_retries = 0\<rparr>, [])"
  using assms by (rule sink_batch_trace)

text \<open>A turn on concrete data: the message itself is what travels.\<close>

definition plain_codec :: "('a, 'a) codec" where
  "plain_codec = \<lparr>pack = \<lambda>x. x, unpack = Inr\<rparr>"

lemma plain_codec_ok [simp]: "codec_ok plain_codec" "unpack plain_codec m = Inr m" "pack plain_codec m = m"
  by (simp_all add: plain_codec_def codec_ok_def)

definition kill_in_id :: "(SinkMsg, KillMsg) codec" where
  "kill_in_id = \<lparr>pack = \<lambda>k. (0, k, []), unpack = \<lambda>m. Inr (SinkMsg_getId m)\<rparr>"

definition msg_turn :: "'m \<Rightarrow> int \<Rightarrow> 'm turn" where
  "msg_turn m t = \<lparr>quit_head = False, zpolled = Inr (True, False), received = Inr m, quit_after = False,
     clock_start = \<lparr>tv_sec = t, tv_usec = 0\<rparr>, clock_total = \<lparr>tv_sec = t, tv_usec = 0\<rparr>\<rparr>"

lemma msg_turn_simps [simp]:
  "delivers plain_codec (msg_turn m t) m"
  "clock_start (msg_turn m t) = \<lparr>tv_sec = t, tv_usec = 0\<rparr>"
  "clock_total (msg_turn m t) = \<lparr>tv_sec = t, tv_usec = 0\<rparr>"
  by (simp_all add: delivers_def msg_turn_def)

theorem Sink_batch_reports_once_witness:
  "fst (Sink_process plain_codec kill_in_id (0, 0, []) trace_worker \<lparr>tv_sec = 0, tv_usec = 0\<rparr> []
     [msg_turn (1, 0, []) 3, msg_turn (3, 1, []) 4, msg_turn (2, 1, [''b'']) 5, msg_turn (2, 0, [''a'']) 7]) =
   Continue \<lparr>ss_worker = [Call_first 0, Call_last 1, Call_process 1 [''b''], Call_process 0 [''a''],
                          Call_results 4000],
     ss_tracker = MsgTracker_init, ss_elapsed = \<lparr>tv_sec = 3, tv_usec = 0\<rparr>, ss_retries = 0\<rparr>"
proof -
  have "{0..1} = {0, 1 :: int}" "{n. n = 1 \<or> n = 0} \<subseteq> {0, 1 :: int}" by auto
  then show ?thesis
    using Sink_batch_reports_once [of 0 1 "sink_init \<lparr>tv_sec = 0, tv_usec = 0\<rparr> []" plain_codec
        "msg_turn (1, 0, []) 3" "[]" "[msg_turn (3, 1, []) 4, msg_turn (2, 1, [''b'']) 5]"
        "[(3, 1, []), (2, 1, [''b''])]" "msg_turn (2, 0, [''a'']) 7" "(2, 0, [''a''])" kill_in_id "(0, 0, [])"]
    by (auto simp: id_ok_def sink_init_def body_msg_def op_of_def call_of_def SinkMsg_defs batch_ops_def
        op_ids_def op_lasts_def all_received_def Sink_process_def Elapsed_getTotal_def in_int32_def
        simp del: run.simps)
qed

section \<open>Giving up\<close>

lemma dump_ok:
  assumes "represents t fo S lo"
  shows "\<exists>x. MsgTracker_dump t = Inr x"
proof -
  have "\<exists>d. sub_int32 (tr_last t) (tr_first t) = Inr d"
  proof (cases fo)
    case None
    with assms show ?thesis by (simp add: represents_def MsgTracker_init_def sub_int32_def in_int32_def)
  next
    case (Some f)
    note D = representsD [OF assms [unfolded Some]]
    show ?thesis using D(1,2,3) D(8) by (cases lo) (auto simp: sub_int32_def in_int32_def id_ok_def)
  qed
  with tracker.complete_iff [OF assms] show ?thesis by (auto simp: MsgTracker_dump_def Let_def)
qed

definition results_calls :: "sink_call list \<Rightarrow> nat" where
  "results_calls w = length (filter (\<lambda>c. case c of Call_results _ \<Rightarrow> True | _ \<Rightarrow> False) w)"

lemma quiet_run:
  assumes "list_all quiet evs" and "represents (ss_tracker s) fo S lo" and "0 \<le> ss_retries s" and "ss_retries s \<le> 6"
  shows "\<exists>s'. run (sink_turn sc kc no_msg trace_worker) s evs = (Continue s', [])
    \<and> ss_retries s' = min 6 (ss_retries s + int (length evs))
    \<and> results_calls (ss_worker s') = results_calls (ss_worker s) + (nat (ss_retries s) + length evs - 6)
    \<and> (\<exists>fo S lo. represents (ss_tracker s') fo S lo)"
  using assms
proof (induction evs arbitrary: s fo S lo)
  case Nil
  then show ?case by (auto simp: min_def)
next
  case (Cons e evs)
  from dump_ok [OF Cons.prems(2)] obtain x where x: "MsgTracker_dump (ss_tracker s) = Inr x" ..
  have q: "quiet e" "list_all quiet evs" using Cons.prems(1) by auto
  show ?case
  proof (cases "ss_retries s > 5")
    case True
    then have six: "ss_retries s = 6" using Cons.prems(4) by simp
    let ?s' = "s\<lparr>ss_worker := ss_worker s @ [Call_results (Elapsed_getTotal (ss_elapsed s) (clock_total e))],
                 ss_tracker := MsgTracker_reset (ss_tracker s)\<rparr>"
    have "sink_turn sc kc no_msg trace_worker s e = Continue ?s'"
      using True by (simp add: turn_quiet [OF q(1)] sink_on_timeout_def x sink_maxretries_def sink_finish_def)
    moreover have "represents (ss_tracker ?s') None {} None"
      using tracker.rep_reset by simp
    moreover have "results_calls (ss_worker ?s') = results_calls (ss_worker s) + 1"
      by (simp add: results_calls_def)
    ultimately show ?thesis
      using Cons.IH [OF q(2), of ?s' None "{}" None] six
      by (auto simp: min_def)
  next
    case False
    then have "sink_turn sc kc no_msg trace_worker s e = Continue (s\<lparr>ss_retries := ss_retries s + 1\<rparr>)"
      by (simp add: turn_quiet [OF q(1)] sink_on_timeout_def x sink_maxretries_def)
    with Cons.IH [OF q(2), of "s\<lparr>ss_retries := ss_retries s + 1\<rparr>" fo S lo] Cons.prems(2-4) False
    show ?thesis by (auto simp: nat_add_distrib add.assoc)
  qed
qed

text \<open>
  Claim C33.  Giving up: six quiet turns (timeouts or interrupted polls) are waited for, but from
  then on every further one reports results again, since the count of retries is not reset;
  even a sink that never saw a batch does so.  In particular \<open>n\<close> quiet turns from the start
  make \<open>n - 6\<close> reports.
\<close>

theorem Sink_idle_reports:
  assumes "list_all quiet evs"
  shows "\<exists>s'. Sink_process sc kc no_msg trace_worker now [] evs = (Continue s', [])
    \<and> results_calls (ss_worker s') = length evs - 6"
  using quiet_run [OF assms, of "sink_init now []" None "{}" None sc kc no_msg]
  by (auto simp: Sink_process_def sink_init_def represents_def results_calls_def)

theorem Sink_idle_reports_witness:
  "\<exists>s'. Sink_process plain_codec kill_in_id (0, 0, []) trace_worker \<lparr>tv_sec = 0, tv_usec = 0\<rparr> []
          (replicate 9 ((msg_turn (0, 0, []) 0) \<lparr>zpolled := Inr (False, False)\<rparr>)) = (Continue s', [])
    \<and> results_calls (ss_worker s') = 3"
  using Sink_idle_reports [of "replicate 9 ((msg_turn (0, 0, []) 0) \<lparr>zpolled := Inr (False, False)\<rparr>)"
      plain_codec kill_in_id "(0, 0, [])" "\<lparr>tv_sec = 0, tv_usec = 0\<rparr>"]
  by (simp add: quiet_def msg_turn_def list_all_iff)

section \<open>How the loop ends\<close>

text \<open>No \<open>zmq::error_t\<close> leaves the loop unless the worker throws it.\<close>

definition no_zmq :: "'a res \<Rightarrow> bool" where
  "no_zmq r \<longleftrightarrow> (\<forall>s. r \<noteq> Inl (Zmq_error s))"

lemma no_zmq_rbind: "no_zmq r \<Longrightarrow> (\<And>x. r = Inr x \<Longrightarrow> no_zmq (f x)) \<Longrightarrow> no_zmq (rbind r f)"
  by (cases r) (auto simp: no_zmq_def)

lemma no_zmq_simps [simp]:
  "no_zmq (Inr x)" "no_zmq (rmap f r) = no_zmq r" "no_zmq (catch_zmq old r)"
  "no_zmq (sub_int32 a b)" "no_zmq (add_int32 a b)"
  by (auto simp: no_zmq_def rmap_def catch_zmq_def sub_int32_def add_int32_def
      split: sum.split exn.split)

lemma no_zmq_tracker [simp]:
  "no_zmq (MsgTracker_track n t)" "no_zmq (MsgTracker_setLast n t)" "no_zmq (MsgTracker_complete t)"
  "no_zmq (MsgTracker_dump t)"
  by (auto simp: MsgTracker_track_def MsgTracker_setLast_def MsgTracker_complete_def MsgTracker_dump_def Let_def
      intro!: no_zmq_rbind) (auto simp: no_zmq_def)

definition worker_no_zmq :: "'w ISinkWorker \<Rightarrow> bool" where
  "worker_no_zmq wk \<longleftrightarrow> (\<forall>i d w. no_zmq (isw_first wk i w) \<and> no_zmq (isw_process wk i d w)
     \<and> no_zmq (isw_last wk i w) \<and> no_zmq (isw_results wk i w))"

definition codec_no_zmq :: "('m, 'a) codec \<Rightarrow> bool" where
  "codec_no_zmq c \<longleftrightarrow> (\<forall>m. no_zmq (unpack c m))"

lemma sink_dispatch_no_zmq:
  assumes "worker_no_zmq wk" shows "no_zmq (sink_dispatch wk m now s)"
  using assms by (auto simp: sink_dispatch_def Let_def worker_no_zmq_def intro!: no_zmq_rbind)

lemma sink_finish_no_zmq: "worker_no_zmq wk \<Longrightarrow> no_zmq (sink_finish wk now s)"
  by (simp add: sink_finish_def worker_no_zmq_def)

lemma sink_turn_no_zmq:
  assumes "worker_no_zmq wk" and "codec_no_zmq sc" and "sink_turn sc kc no_msg wk s ev = Stop r"
  shows "no_zmq r"
proof -
  have out: "no_zmq q \<Longrightarrow> (\<And>r. q = Inr (Stop r) \<Longrightarrow> no_zmq r) \<Longrightarrow> outcome_of q = Stop r \<Longrightarrow> no_zmq r"
    for q :: "'a sink_outcome res" and r by (cases q) (auto simp: no_zmq_def)
  have msg: "no_zmq (sink_on_msg sc no_msg wk ev s)"
    using assms(1,2) sink_dispatch_no_zmq sink_finish_no_zmq
    by (auto simp: sink_on_msg_def Let_def codec_no_zmq_def Msg_of_message_def
        intro!: no_zmq_rbind split: option.split)
  have tmo: "no_zmq (sink_on_timeout wk ev s)"
    using sink_finish_no_zmq [OF assms(1)] by (auto simp: sink_on_timeout_def intro!: no_zmq_rbind)
  have stop: "no_zmq r" if "sink_on_msg sc no_msg wk ev s = Inr (Stop r) \<or> sink_on_control kc ev s = Inr (Stop r)
      \<or> sink_on_timeout wk ev s = Inr (Stop r)" for r
    using that
    by (auto simp: sink_on_msg_def sink_on_control_def sink_on_timeout_def Let_def res_simps catch_zmq_def
        split: if_splits option.splits sum.splits exn.splits)
  show ?thesis
  proof (cases "quit_head ev")
    case True
    with assms(3) no_zmq_tracker(3) [of "ss_tracker s"] show ?thesis
      by (cases "MsgTracker_complete (ss_tracker s)") (auto simp: sink_turn_def no_zmq_def)
  next
    case False
    show ?thesis
    proof (rule out [OF _ _ assms(3) [unfolded sink_turn_def if_not_P [OF False]]])
      show "no_zmq (rbind (catch_zmq Poller_NONE (Poller_poll (zpolled ev))) (\<lambda>recved.
           if recved = Poller_MSG then sink_on_msg sc no_msg wk ev s
           else if recved = Poller_CONTROL then sink_on_control kc ev s
           else if recved = Poller_NONE then sink_on_timeout wk ev s
           else Inr (Continue s)))"
        using msg tmo by (intro no_zmq_rbind) (auto simp: sink_on_control_def)
    qed (use stop in \<open>auto simp: res_simps split: if_splits\<close>)
  qed
qed

definition sink_inv :: "('m, SinkMsg) codec \<Rightarrow> 'w ISinkWorker \<Rightarrow> 'w sink_state \<Rightarrow> bool" where
  "sink_inv sc wk s \<longleftrightarrow> worker_no_zmq wk \<and> codec_no_zmq sc \<and> 0 \<le> ss_retries s \<and> ss_retries s \<le> sink_maxretries + 1"

lemma sink_turn_retries:
  assumes "sink_turn sc kc no_msg wk s ev = Continue s'" and "0 \<le> ss_retries s" and "ss_retries s \<le> 6"
  shows "0 \<le> ss_retries s' \<and> ss_retries s' \<le> 6"
proof -
  have d: "ss_retries s' = ss_retries s" if "sink_dispatch wk m now s = Inr (Some s')" for m now s s'
    using that by (auto simp: sink_dispatch_def Let_def res_simps split: if_splits)
  have f: "ss_retries s' = ss_retries s" if "sink_finish wk now s = Inr s'" for now s s'
    using that by (auto simp: sink_finish_def res_simps)
  have 1: "ss_retries s' = 0" if "sink_on_msg sc no_msg wk ev s = Inr (Continue s')"
    using that by (auto simp: sink_on_msg_def Let_def res_simps dest!: d f split: if_splits option.splits)
  have 2: "s' = s" if "sink_on_control kc ev s = Inr (Continue s')"
    using that by (auto simp: sink_on_control_def res_simps split: if_splits)
  have 3: "0 \<le> ss_retries s' \<and> ss_retries s' \<le> 6" if "sink_on_timeout wk ev s = Inr (Continue s')"
    using that assms(2,3)
    by (auto simp: sink_on_timeout_def sink_maxretries_def res_simps dest!: f split: if_splits)
  have out: "outcome_of r = Continue s' \<longleftrightarrow> r = Inr (Continue s')" for r :: "'a sink_outcome res"
    by (cases r) auto
  show ?thesis
    using assms 1 2 3 unfolding sink_turn_def by (auto simp: out res_simps split: if_splits)
qed

interpretation sink_loop: stepper "sink_turn sc kc no_msg wk" "sink_inv sc wk" "\<lambda>_. True" no_zmq
  by unfold_locales
    (auto simp: sink_inv_def sink_maxretries_def dest: sink_turn_retries sink_turn_no_zmq)

text \<open>
  Whatever arrives, however polls and receives fail and whenever a signal comes, no
  socket error ends \<open>Sink::process\<close>: if it stops, it returns a value or passes on an exception
  that is not a \<open>zmq::error_t\<close>, provided that the worker and msgpack throw none.
\<close>

theorem Sink_process_survives_socket_errors:
  assumes "worker_no_zmq wk" and "codec_no_zmq sc"
    and "Sink_process sc kc no_msg wk now w evs = (Stop r, rest)"
  shows "r \<noteq> Inl (Zmq_error e)"
  using sink_loop.run_acceptable [of sc wk "sink_init now w" evs kc no_msg r rest] assms
  by (auto simp: Sink_process_def sink_inv_def sink_init_def sink_maxretries_def list_all_iff no_zmq_def)

theorem Sink_process_survives_socket_errors_witness:
  "Sink_process plain_codec kill_in_id (9, 0, []) trace_worker \<lparr>tv_sec = 0, tv_usec = 0\<rparr> []
     [(msg_turn (1, 0, []) 0) \<lparr>received := Inl (Zmq_error ''closed'')\<rparr>] = (Stop (Inr (False, [])), [])
   \<and> (Inr (False, []) :: (bool \<times> sink_call list) res) \<noteq> Inl (Zmq_error ''closed'')"
proof -
  have r: "Sink_process plain_codec kill_in_id (9, 0, []) trace_worker \<lparr>tv_sec = 0, tv_usec = 0\<rparr> []
     [(msg_turn (1, 0, []) 0) \<lparr>received := Inl (Zmq_error ''closed'')\<rparr>] = (Stop (Inr (False, [])), [])"
    by (simp add: Sink_process_def sink_init_def sink_turn_def msg_turn_def Poller_poll_def Poller_defs
        sink_on_msg_def Msg_of_message_def sink_dispatch_def SinkMsg_defs Let_def)
  have "worker_no_zmq trace_worker" "codec_no_zmq plain_codec"
    by (simp_all add: worker_no_zmq_def codec_no_zmq_def)
  with Sink_process_survives_socket_errors [OF _ _ r] r show ?thesis by blast
qed

end
