(* ===== verification/Pipes.thy ===== *)
theory Pipes
  imports Json_Path Sink_Loop
begin

text \<open>
  \<open>machine/PipeBuilder.cpp\<close>, which turns the connections of a block of the machine's
  configuration into the pipes that the block's program is given, and \<open>core/Ports.cpp\<close>, which
  joins a socket to one of those pipes.
\<close>

section \<open>Ports\<close>

text \<open>What is asked of a socket; the socket itself is a function from requests to outcomes.\<close>

datatype sock_op = Sock_bind string | Sock_connect string | Sock_linger int | Sock_subscribe string

type_synonym socket = "sock_op \<Rightarrow> unit res"

definition tcp_url :: "string \<Rightarrow> int \<Rightarrow> string" where
  "tcp_url host port = ''tcp://'' @ host @ '':'' @ show_int port"

text \<open>A request in a \<open>try\<close> block whose handler returns \<open>false\<close>.\<close>

definition try_sock :: "socket \<Rightarrow> sock_op \<Rightarrow> bool res" where
  "try_sock sock x = catch_zmq False (rmap (\<lambda>_. True) (sock x))"

definition Ports_bind :: "socket \<Rightarrow> string \<Rightarrow> int \<Rightarrow> (bool \<times> sock_op list) res" where
  "Ports_bind sock address port =
     (let x = Sock_bind (tcp_url address port) in rmap (\<lambda>ok. (ok, [x])) (try_sock sock x))"

definition Ports_connect :: "socket \<Rightarrow> string \<Rightarrow> int \<Rightarrow> (bool \<times> sock_op list) res" where
  "Ports_connect sock node port =
     (let x = Sock_connect (tcp_url node port) in rmap (\<lambda>ok. (ok, [x])) (try_sock sock x))"

text \<open>\<open>Ports::join\<close>: its result and the requests it made, in order.\<close>

definition Ports_join :: "socket \<Rightarrow> JsonObject \<Rightarrow> string \<Rightarrow> (bool \<times> sock_op list) res" where
  "Ports_join sock ports name =
     rbind (JsonObject_getChild ports name) (\<lambda>pipe.
       if \<not> JsonObject_isObject pipe then Inr (True, [])
       else
         rbind (JsonObject_getInt pipe ''port'' (-1)) (\<lambda>port.
         rbind (JsonObject_getString pipe ''mode'') (\<lambda>mode.
         rbind (if mode = ''bind''
                then rbind (JsonObject_getString pipe ''address'') (\<lambda>address. Ports_bind sock address port)
                else if mode = ''connect''
                then rbind (JsonObject_getString pipe ''node'') (\<lambda>node. Ports_connect sock node port)
                else Inr (False, [])) (\<lambda>(ok, ops).
           if \<not> ok then Inr (False, ops)
           else rmap (\<lambda>ok. (ok, ops @ [Sock_linger (-1)])) (try_sock sock (Sock_linger (-1)))))))"

section \<open>PipeBuilder\<close>

text \<open>The body of the loop of \<open>collect\<close> for one connection: an early return of \<open>collect\<close>
  (\<open>Inl\<close>), or the pipe (\<open>Inr\<close>).  The handlers around the additions only log and throw again.\<close>

definition collect_one :: "JsonObject \<Rightarrow> JsonObject \<Rightarrow> (JsonObject + JsonObject) res" where
  "collect_one config val =
     rbind (JsonObject_getString val ''mode'') (\<lambda>mode.
       if mode = ''connect''
       then rbind (JsonObject_getString val ''block'') (\<lambda>block.
            rbind (JsonObject_findObj config (JsonNamePredicate_match block)) (\<lambda>b.
              if \<not> JsonObject_isObject b then Inr (Inl b)
              else rbind (JsonObject_getString val ''connection'') (\<lambda>conn.
                   rbind (JsonPath_getPath b (''connections.'' @ conn)) (\<lambda>c.
                     if \<not> JsonObject_isObject c then Inr (Inl c)
                     else rbind (JsonObject_getString b ''node'') (\<lambda>node.
                          rbind (JsonObject_getInt c ''port'' (-1)) (\<lambda>port.
                            let pipe = JsonObject_add_int (JsonObject_add_string Null ''node'' node) ''port'' port
                            in Inr (Inr (JsonObject_add_string pipe ''mode'' mode))))))))
       else if mode = ''bind''
       then rbind (JsonObject_getString val ''address'') (\<lambda>address.
            rbind (JsonObject_getInt val ''port'' (-1)) (\<lambda>port.
              let pipe = JsonObject_add_int (JsonObject_add_string Null ''address'' address) ''port'' port
              in Inr (Inr (JsonObject_add_string pipe ''mode'' mode))))
       else Inr (Inl Null))"

fun collect_pipes :: "JsonObject \<Rightarrow> members \<Rightarrow> JsonObject \<Rightarrow> (JsonObject + JsonObject) res" where
  "collect_pipes config [] pipes = Inr (Inr pipes)"
| "collect_pipes config (i # ms) pipes =
     rbind (collect_one config (JsonObject_getValue i)) (\<lambda>r.
       case r of
         Inl early \<Rightarrow> Inr (Inl early)
       | Inr pipe \<Rightarrow> collect_pipes config ms (JsonObject_add_object pipes (JsonObject_getKey i) pipe))"

definition control_pipe :: "int \<Rightarrow> JsonObject" where
  "control_pipe control =
     JsonObject_add_int (JsonObject_add_string (JsonObject_add_string Null ''mode'' ''connect'')
       ''node'' ''localhost'') ''port'' control"

definition PipeBuilder_collect :: "JsonObject \<Rightarrow> JsonObject \<Rightarrow> int \<Rightarrow> JsonObject res" where
  "PipeBuilder_collect config block control =
     rbind (JsonPath_getPath block ''connections'') (\<lambda>connections.
     rbind (JsonObject_iter connections) (\<lambda>ms.
     rmap (\<lambda>r. case r of
                 Inl early \<Rightarrow> early
               | Inr pipes \<Rightarrow>
                   if control > 0 then JsonObject_add_object pipes ''control'' (control_pipe control)
                   else pipes)
       (collect_pipes config ms Null)))"

section \<open>What the builder writes, the port reads\<close>

text \<open>The endpoint that a connection of the configuration stands for: its own address, or the
  node of the block and the port of the connection it names.\<close>

definition endpoint :: "JsonObject \<Rightarrow> JsonObject \<Rightarrow> sock_op \<Rightarrow> bool" where
  "endpoint config val x \<longleftrightarrow>
     (\<exists>address port. JsonObject_getString val ''mode'' = Inr ''bind''
        \<and> JsonObject_getString val ''address'' = Inr address \<and> JsonObject_getInt val ''port'' (-1) = Inr port
        \<and> x = Sock_bind (tcp_url address port))
   \<or> (\<exists>block b conn c node port. JsonObject_getString val ''mode'' = Inr ''connect''
        \<and> JsonObject_getString val ''block'' = Inr block
        \<and> JsonObject_findObj config (JsonNamePredicate_match block) = Inr b
        \<and> JsonObject_getString val ''connection'' = Inr conn
        \<and> JsonPath_getPath b (''connections.'' @ conn) = Inr c
        \<and> JsonObject_getString b ''node'' = Inr node \<and> JsonObject_getInt c ''port'' (-1) = Inr port
        \<and> x = Sock_connect (tcp_url node port))"

lemma JsonObject_getInt_range: "JsonObject_getInt j key (-1) = Inr n \<Longrightarrow> in_int32 n"
  by (auto simp: JsonObject_getInt_def res_simps Let_def split: if_splits dest: get_int_range)
    (simp add: in_int32_def)

definition joins_to :: "JsonObject \<Rightarrow> sock_op \<Rightarrow> bool" where
  "joins_to pipe x \<longleftrightarrow> JsonObject_isObject pipe
     \<and> (\<forall>sock name ms. (\<forall>y. sock y = Inr ()) \<longrightarrow> obj_get ms name = pipe \<longrightarrow>
          Ports_join sock (Obj ms) name = Inr (True, [x, Sock_linger (-1)]))"

lemma vtype_Value_of_int [simp]: "vtype (Value_of_int n) = int_type"
  by (simp add: Value_of_int_def)

lemma bind_pipe_joins:
  "in_int32 port \<Longrightarrow> joins_to (Obj [(''address'', Str address), (''port'', Value_of_int port), (''mode'', Str ''bind'')])
     (Sock_bind (tcp_url address port))"
  by (simp add: joins_to_def Ports_join_def JsonObject_gets JsonObject_isObject_def get_int_of_int
      Ports_bind_def try_sock_def Let_def)

lemma connect_pipe_joins:
  "in_int32 port \<Longrightarrow> joins_to (Obj [(''node'', Str node), (''port'', Value_of_int port), (''mode'', Str ''connect'')])
     (Sock_connect (tcp_url node port))"
  "in_int32 port \<Longrightarrow> joins_to (Obj [(''mode'', Str ''connect''), (''node'', Str node), (''port'', Value_of_int port)])
     (Sock_connect (tcp_url node port))"
  by (simp_all add: joins_to_def Ports_join_def JsonObject_gets JsonObject_isObject_def get_int_of_int
      Ports_connect_def try_sock_def Let_def)

lemma collect_one_joins:
  assumes "collect_one config val = Inr (Inr pipe)"
  shows "\<exists>x. endpoint config val x \<and> joins_to pipe x"
proof -
  have add: "JsonObject_add Null n v = Obj [(n, v)]" for n v by simp
  consider "JsonObject_getString val ''mode'' = Inr ''connect''" | "JsonObject_getString val ''mode'' = Inr ''bind''"
    using assms by (auto simp: collect_one_def res_simps split: if_splits)
  then show ?thesis
  proof cases
    case 1
    with assms obtain block b conn c node port where
      "JsonObject_getString val ''block'' = Inr block"
      "JsonObject_findObj config (JsonNamePredicate_match block) = Inr b"
      "JsonObject_getString val ''connection'' = Inr conn"
      "JsonPath_getPath b (''connections.'' @ conn) = Inr c"
      "JsonObject_getString b ''node'' = Inr node"
      and port: "JsonObject_getInt c ''port'' (-1) = Inr port"
      and pipe: "pipe = Obj [(''node'', Str node), (''port'', Value_of_int port), (''mode'', Str ''connect'')]"
      by (auto simp: collect_one_def res_simps JsonObject_adds Let_def split: if_splits)
    with 1 have "endpoint config val (Sock_connect (tcp_url node port))"
      unfolding endpoint_def by blast
    with connect_pipe_joins(1) [OF JsonObject_getInt_range [OF port]] pipe show ?thesis by blast
  next
    case 2
    with assms obtain address port where "JsonObject_getString val ''address'' = Inr address"
      and port: "JsonObject_getInt val ''port'' (-1) = Inr port"
      and pipe: "pipe = Obj [(''address'', Str address), (''port'', Value_of_int port), (''mode'', Str ''bind'')]"
      by (auto simp: collect_one_def res_simps JsonObject_adds Let_def)
    with 2 have "endpoint config val (Sock_bind (tcp_url address port))"
      unfolding endpoint_def by blast
    with bind_pipe_joins [OF JsonObject_getInt_range [OF port]] pipe show ?thesis by blast
  qed
qed

lemma collect_one_early: "collect_one config val = Inr (Inl early) \<Longrightarrow> vtype early \<noteq> obj_type"
  by (auto simp: collect_one_def res_simps Let_def JsonObject_isObject_def split: if_splits)

lemma collect_pipes_early: "collect_pipes config ms pipes = Inr (Inl early) \<Longrightarrow> vtype early \<noteq> obj_type"
  by (induction config ms pipes rule: collect_pipes.induct)
    (auto simp: res_simps collect_one_early)

definition pairs_of :: "jvalue \<Rightarrow> members" where
  "pairs_of v = (case v of Obj ms \<Rightarrow> ms | _ \<Rightarrow> [])"

lemma collect_pipes_pairs:
  assumes "collect_pipes config ms pipes = Inr (Inr out)" and "pipes = Null \<or> vtype pipes = obj_type"
  shows "(out = Null \<or> vtype out = obj_type)
    \<and> (\<exists>qs. pairs_of out = pairs_of pipes @ qs
         \<and> list_all2 (\<lambda>(n, v) (n', p). n' = n \<and> collect_one config v = Inr (Inr p)) ms qs)"
  using assms
proof (induction config ms pipes arbitrary: out rule: collect_pipes.induct)
  case (2 config i ms pipes)
  from 2(2) obtain p where p: "collect_one config (JsonObject_getValue i) = Inr (Inr p)"
      "collect_pipes config ms (JsonObject_add_object pipes (JsonObject_getKey i) p) = Inr (Inr out)"
    by (auto simp: res_simps)
  have pairs: "pairs_of (JsonObject_add_object pipes (JsonObject_getKey i) p) = pairs_of pipes @ [(JsonObject_getKey i, p)]"
    using 2(3) by (cases pipes) (auto simp: JsonObject_adds JsonObject_add_def pairs_of_def)
  from 2(1) [OF p(1) refl p(2)] obtain qs where
    "out = Null \<or> vtype out = obj_type" "pairs_of out = pairs_of pipes @ (JsonObject_getKey i, p) # qs"
    "list_all2 (\<lambda>(n, v) (n', p). n' = n \<and> collect_one config v = Inr (Inr p)) ms qs"
    by (auto simp: JsonObject_adds pairs [unfolded JsonObject_adds])
  with p(1) show ?case
    by (cases i) (auto simp: JsonObject_getKey_def JsonObject_getValue_def)
qed auto

lemma collected_get:
  assumes "list_all2 (\<lambda>(n, v) (n', p). n' = n \<and> P v p) ms qs"
  shows "obj_has qs name = obj_has ms name \<and> (obj_has ms name \<longrightarrow> P (obj_get ms name) (obj_get qs name))"
  using assms by (induction rule: list_all2_induct) auto

text \<open>The pipes of a block: those of its connections, in order, and the control pipe after them.\<close>

lemma collected_pipes:
  assumes "PipeBuilder_collect config (Obj bms) control = Inr (Obj ps)"
    and "obj_get bms ''connections'' = Obj cs" and "obj_has bms ''connections''"
  shows "\<exists>qs. list_all2 (\<lambda>(n, v) (n', p). n' = n \<and> collect_one config v = Inr (Inr p)) cs qs
    \<and> ps = qs @ (if control > 0 then [(''control'', control_pipe control)] else [])"
proof -
  have "JsonPath_getPath (Obj bms) ''connections'' = Inr (Obj cs)"
    using JsonPath_getPath_dot_free [of "''connections''" bms] assms(2,3) by (simp add: plain_token_def)
  with assms(1) obtain r where r: "collect_pipes config cs Null = Inr r"
      "Obj ps = (case r of Inl early \<Rightarrow> early
               | Inr pipes \<Rightarrow>
                   if control > 0 then JsonObject_add_object pipes ''control'' (control_pipe control)
                   else pipes)"
    by (auto simp: PipeBuilder_collect_def JsonObject_iter_def res_simps)
  then obtain pipes where pipes: "r = Inr pipes"
    using collect_pipes_early [of config cs Null] by (cases r) auto
  from collect_pipes_pairs [OF r(1) [unfolded pipes]] obtain qs where
    qs: "pairs_of pipes = qs" "pipes = Null \<or> vtype pipes = obj_type"
    "list_all2 (\<lambda>(n, v) (n', p). n' = n \<and> collect_one config v = Inr (Inr p)) cs qs"
    by (auto simp: pairs_of_def)
  have "ps = qs @ (if control > 0 then [(''control'', control_pipe control)] else [])"
    using r(2) qs(1,2) by (auto simp: pipes JsonObject_adds pairs_of_def vtype_cases split: if_splits)
  with qs(3) show ?thesis by blast
qed

text \<open>On sockets that work a block joins its connections and the control pipe, and skips the rest.\<close>

lemma pipes_join:
  assumes "PipeBuilder_collect config (Obj bms) control = Inr (Obj ps)"
    and "obj_get bms ''connections'' = Obj cs" and "obj_has bms ''connections''"
    and "in_int32 control" and sock: "\<forall>y. sock y = Inr ()"
  shows "obj_has cs name \<Longrightarrow> \<exists>x. endpoint config (obj_get cs name) x
               \<and> Ports_join sock (Obj ps) name = Inr (True, [x, Sock_linger (-1)])"
    and "0 < control \<Longrightarrow> \<not> obj_has cs ''control'' \<Longrightarrow>
            Ports_join sock (Obj ps) ''control'' =
              Inr (True, [Sock_connect (tcp_url ''localhost'' control), Sock_linger (-1)])"
    and "\<not> obj_has cs name \<Longrightarrow> 0 < control \<longrightarrow> name \<noteq> ''control'' \<Longrightarrow>
            Ports_join sock (Obj ps) name = Inr (True, [])"
proof -
  from collected_pipes [OF assms(1-3)] obtain qs where
    qs: "list_all2 (\<lambda>(n, v) (n', p). n' = n \<and> collect_one config v = Inr (Inr p)) cs qs"
    and ps: "ps = qs @ (if control > 0 then [(''control'', control_pipe control)] else [])" by blast
  {
    assume has: "obj_has cs name"
    with collected_get [OF qs, of name] have "collect_one config (obj_get cs name) = Inr (Inr (obj_get ps name))"
      by (auto simp: ps obj_get_append)
    with collect_one_joins sock show "\<exists>x. endpoint config (obj_get cs name) x
               \<and> Ports_join sock (Obj ps) name = Inr (True, [x, Sock_linger (-1)])"
      unfolding joins_to_def by blast
  next
    assume "0 < control" "\<not> obj_has cs ''control''"
    then have "obj_get ps ''control'' = control_pipe control"
      using collected_get [OF qs, of "''control''"] by (simp add: ps obj_get_append)
    then show "Ports_join sock (Obj ps) ''control'' =
              Inr (True, [Sock_connect (tcp_url ''localhost'' control), Sock_linger (-1)])"
      using connect_pipe_joins(2) [OF assms(4), of "''localhost''"] sock
      unfolding joins_to_def by (simp add: control_pipe_def JsonObject_adds)
  next
    assume "\<not> obj_has cs name" "0 < control \<longrightarrow> name \<noteq> ''control''"
    then have "obj_get ps name = Null"
      using collected_get [OF qs, of name] by (auto simp: ps obj_get_append obj_get_absent)
    then show "Ports_join sock (Obj ps) name = Inr (True, [])"
      by (simp add: Ports_join_def JsonObject_getChild_def JsonObject_isObject_def)
  }
qed

text \<open>
  Claim C22.  The pipes that the builder makes are the ones that the ports join: when \<open>collect\<close>
  gives an object, then on sockets that work \<open>join\<close> succeeds for every connection of the block,
  binding or connecting to the endpoint that the configuration says (with the port and node of
  the other block resolved), and then setting the linger option; and, unless a connection is
  named \<open>control\<close>, the \<open>control\<close> pipe joins to the control port of the local host.
\<close>

theorem PipeBuilder_Ports_agree:
  assumes "PipeBuilder_collect config (Obj bms) control = Inr (Obj ps)"
    and "obj_get bms ''connections'' = Obj cs" and "obj_has bms ''connections''"
    and "in_int32 control" and "\<forall>y. sock y = Inr ()"
  shows "(obj_has cs name \<longrightarrow>
            (\<exists>x. endpoint config (obj_get cs name) x
               \<and> Ports_join sock (Obj ps) name = Inr (True, [x, Sock_linger (-1)])))
       \<and> (0 < control \<and> \<not> obj_has cs ''control'' \<longrightarrow>
            Ports_join sock (Obj ps) ''control'' =
              Inr (True, [Sock_connect (tcp_url ''localhost'' control), Sock_linger (-1)]))"
  using pipes_join [OF assms] by blast

definition example_config :: JsonObject where
  "example_config = Obj [(''blocks'', Arr
     [Obj [(''name'', Str ''reduce''), (''node'', Str ''localhost''),
           (''connections'', Obj [(''pullFrom'', Obj [(''mode'', Str ''bind''), (''address'', Str ''*''),
                                                   (''port'', Value_of_int 5558)])])]])]"

definition example_block :: members where
  "example_block = [(''connections'', Obj
     [(''pushTo'', Obj [(''mode'', Str ''connect''), (''block'', Str ''reduce''), (''connection'', Str ''pullFrom'')])])]"

definition example_pipes :: members where
  "example_pipes = [(''pushTo'', Obj [(''node'', Str ''localhost''), (''port'', Value_of_int 5558), (''mode'', Str ''connect'')]),
     (''control'', Obj [(''mode'', Str ''connect''), (''node'', Str ''localhost''), (''port'', Value_of_int 7000)])]"

lemma example_collect: "PipeBuilder_collect example_config (Obj example_block) 7000 = Inr (Obj example_pipes)"
  by code_simp

theorem PipeBuilder_Ports_agree_witness:
  "\<exists>x. Ports_join (\<lambda>_. Inr ()) (Obj example_pipes) ''pushTo'' = Inr (True, [x, Sock_linger (-1)])"
  using PipeBuilder_Ports_agree [OF example_collect, of
      "[(''pushTo'', Obj [(''mode'', Str ''connect''), (''block'', Str ''reduce''), (''connection'', Str ''pullFrom'')])]"
      "\<lambda>_. Inr ()" "''pushTo''"]
  by (auto simp: example_block_def in_int32_def)

end
