(* ===== verification/Vent_Loop.thy ===== *)
theory Vent_Loop
  imports Messages Sink_Loop
begin

text \<open>
  \<open>core/Vent.cpp\<close> and \<open>core/Poll.cpp\<close>: the sources of messages.  A vent announces the first id,
  lets its worker send everything through \<open>sendOne\<close>, and announces the last id; a poll lets its
  worker send whenever something happens.

  Both throttle their sends in the same way; the locale \<open>throttled_sender\<close> is what the workers
  rely on: as long as nothing fails and nothing interrupts, the messages go out in order.
\<close>

section \<open>State\<close>

text \<open>What a vent or a poll has done (messages taken by the sockets, naps), its counter, and
  what the environment will do to the sends to come: the outcome of the socket and whether
  \<open>shouldQuit()\<close> holds afterwards.  Past the end of the list sends succeed.\<close>

record 'm vent_state =
  vs_count :: int
  vs_sink :: "'m list"
  vs_sender :: "'m list"
  vs_naps :: "int list"
  vs_env :: "(unit res \<times> bool) list"

definition Vent_init :: "(unit res \<times> bool) list \<Rightarrow> 'm vent_state" where
  "Vent_init env = \<lparr>vs_count = 0, vs_sink = [], vs_sender = [], vs_naps = [], vs_env = env\<rparr>"

definition next_send :: "(unit res \<times> bool) list \<Rightarrow> (unit res \<times> bool) \<times> (unit res \<times> bool) list" where
  "next_send env = (case env of [] \<Rightarrow> ((Inr (), False), []) | e # es \<Rightarrow> (e, es))"

text \<open>\<open>(count % sleepevery) == 0\<close>: a division by zero is undefined.\<close>

definition nap_after :: "int \<Rightarrow> int \<Rightarrow> int \<Rightarrow> bool res" where
  "nap_after cnt sleeptime sleepevery =
     (if sleeptime > 0
      then if sleepevery = 0 then Inl (Undefined ''division by zero'') else Inr (sleepevery dvd cnt)
      else Inr False)"

section \<open>Vent\<close>

definition Vent_sendOne :: "'m \<Rightarrow> int \<Rightarrow> int \<Rightarrow> 'm vent_state \<Rightarrow> (bool \<times> 'm vent_state) res" where
  "Vent_sendOne message sleeptime sleepevery s =
     (let ((out, quit), env) = next_send (vs_env s) in
      rbind (catch_zmq (vs_sender s) (rmap (\<lambda>_. vs_sender s @ [message]) out)) (\<lambda>sent.
      let s1 = s\<lparr>vs_sender := sent, vs_env := env\<rparr> in
      if quit then Inr (False, s1)
      else rbind (add_int32 (vs_count s1) 1) (\<lambda>cnt.
           rmap (\<lambda>nap. (True, s1\<lparr>vs_count := cnt,
                                 vs_naps := vs_naps s1 @ (if nap then [sleeptime] else [])\<rparr>))
             (nap_after cnt sleeptime sleepevery))))"

text \<open>\<open>Vent::process\<close>: the outcomes of the two sends to the sink and the worker's \<open>sendAll\<close>.
  The handler around a send to the sink returns \<open>false\<close>.\<close>

definition sink_send ::
  "('m, SinkMsg) codec \<Rightarrow> SinkMsg \<Rightarrow> unit res \<Rightarrow> 'm vent_state \<Rightarrow> 'm vent_state option res" where
  "sink_send sc msg out s =
     catch_zmq None (rmap (\<lambda>_. Some (s\<lparr>vs_sink := vs_sink s @ [Msg_set sc msg]\<rparr>)) out)"

definition Vent_process ::
  "('m, SinkMsg) codec \<Rightarrow> ('m vent_state \<Rightarrow> (int \<times> 'm vent_state) res) \<Rightarrow> unit res \<Rightarrow> unit res \<Rightarrow>
   'm vent_state \<Rightarrow> (bool \<times> 'm vent_state) res" where
  "Vent_process sc sendAll out1 out2 s =
     rbind (sink_send sc (SinkMsg_firstMsg 0 SinkMsg_init) out1 s) (\<lambda>r1.
       case r1 of
         None \<Rightarrow> Inr (False, s)
       | Some s1 \<Rightarrow>
           rbind (sendAll s1) (\<lambda>(lst, s2).
           rmap (\<lambda>r2. case r2 of None \<Rightarrow> (False, s2) | Some s3 \<Rightarrow> (True, s3))
             (sink_send sc (SinkMsg_lastMsg lst SinkMsg_init) out2 s2)))"

section \<open>Poll\<close>

definition Poll_send :: "'m \<Rightarrow> int \<Rightarrow> int \<Rightarrow> 'm vent_state \<Rightarrow> (bool \<times> 'm vent_state) res" where
  "Poll_send message sleeptime sleepevery s =
     (let ((out, quit), env) = next_send (vs_env s) in
      rbind (catch_zmq (vs_sender s) (rmap (\<lambda>_. vs_sender s @ [message]) out)) (\<lambda>sent.
      let s1 = s\<lparr>vs_sender := sent, vs_env := env\<rparr> in
      if quit then Inr (False, s1)
      else rbind (add_int32 (vs_count s1) 1) (\<lambda>cnt.
           rmap (\<lambda>nap. (True, s1\<lparr>vs_count := cnt,
                                 vs_naps := vs_naps s1 @ (if nap then [sleeptime] else [])\<rparr>))
             (nap_after cnt sleeptime sleepevery))))"

text \<open>One turn of \<open>Poll::process\<close>: the event says whether \<open>waitEvent()\<close> held and, after the
  worker's \<open>send\<close>, whether to quit.  The state is the worker's with \<open>msgNum\<close>.\<close>

definition poll_turn ::
  "(int \<Rightarrow> 's \<Rightarrow> (int \<times> 's) res) \<Rightarrow> int \<times> 's \<Rightarrow> bool \<times> bool \<Rightarrow> (int \<times> 's, (bool \<times> int \<times> 's) res) outcome" where
  "poll_turn send st ev =
     (let (msgNum, s) = st; (wait, quit) = ev in
      if \<not> wait then Stop (Inr (True, msgNum, s))
      else outcome_of
        (rmap (\<lambda>(msgNum', s'). if quit then Stop (Inr (False, msgNum', s')) else Continue (msgNum', s'))
           (send msgNum s)))"

definition Poll_process ::
  "(int \<Rightarrow> 's \<Rightarrow> (int \<times> 's) res) \<Rightarrow> 's \<Rightarrow> (bool \<times> bool) list \<Rightarrow>
   (int \<times> 's, (bool \<times> int \<times> 's) res) outcome \<times> (bool \<times> bool) list" where
  "Poll_process send s evs = run (poll_turn send) (0, s) evs"

section \<open>The contract of a throttled sender\<close>

text \<open>A loop over messages as the workers write it: send one, stop when told to.\<close>

fun send_list :: "('m \<Rightarrow> 's \<Rightarrow> (bool \<times> 's) res) \<Rightarrow> 'm list \<Rightarrow> 's \<Rightarrow> (bool \<times> 's) res" where
  "send_list send1 [] s = Inr (True, s)"
| "send_list send1 (m # ms) s =
     rbind (send1 m s) (\<lambda>(go, s'). if go then send_list send1 ms s' else Inr (False, s'))"

definition throttle_ok :: "int \<Rightarrow> int \<Rightarrow> bool" where
  "throttle_ok sleeptime sleepevery \<longleftrightarrow> sleeptime \<le> 0 \<or> sleepevery \<noteq> 0"

locale throttled_sender =
  fixes send1 :: "'m \<Rightarrow> int \<Rightarrow> int \<Rightarrow> 's \<Rightarrow> (bool \<times> 's) res"
    and sent :: "'s \<Rightarrow> 'm list"
    and other :: "'s \<Rightarrow> 'o"
    and ready :: "nat \<Rightarrow> 's \<Rightarrow> bool"
  assumes send1_ready: "ready (Suc n) s \<Longrightarrow> throttle_ok st ev \<Longrightarrow>
      \<exists>s'. send1 m st ev s = Inr (True, s') \<and> sent s' = sent s @ [m] \<and> other s' = other s \<and> ready n s'"
begin

lemma send_list_all:
  "ready (length ms + n) s \<Longrightarrow> throttle_ok st ev \<Longrightarrow>
   \<exists>s'. send_list (\<lambda>m. send1 m st ev) ms s = Inr (True, s') \<and> sent s' = sent s @ ms
     \<and> other s' = other s \<and> ready n s'"
proof (induction ms arbitrary: s)
  case (Cons m ms)
  from send1_ready [of "length ms + n" s st ev m] Cons.prems
  obtain s1 where s1: "send1 m st ev s = Inr (True, s1)" "sent s1 = sent s @ [m]" "other s1 = other s"
      "ready (length ms + n) s1" by auto
  with Cons.IH [OF s1(4) Cons.prems(2)] show ?case by auto
qed auto

end

definition vent_ready :: "nat \<Rightarrow> 'm vent_state \<Rightarrow> bool" where
  "vent_ready n s \<longleftrightarrow> list_all (\<lambda>e. e = (Inr (), False)) (vs_env s)
     \<and> -2147483648 \<le> vs_count s \<and> vs_count s + int n \<le> 2147483647"

lemma Vent_sendOne_ready:
  assumes "vent_ready (Suc n) s" and "throttle_ok st ev"
  shows "\<exists>s'. Vent_sendOne m st ev s = Inr (True, s') \<and> vs_sender s' = vs_sender s @ [m]
    \<and> vs_sink s' = vs_sink s \<and> vent_ready n s'"
proof -
  have env: "fst (next_send (vs_env s)) = (Inr (), False)"
      "list_all (\<lambda>e. e = (Inr (), False)) (snd (next_send (vs_env s)))"
    using assms(1) by (auto simp: vent_ready_def next_send_def split: list.split)
  then obtain es where es: "next_send (vs_env s) = ((Inr (), False), es)"
      "list_all (\<lambda>e. e = (Inr (), False)) es"
    by (metis prod.collapse)
  have add: "add_int32 (vs_count s) 1 = Inr (vs_count s + 1)"
    using assms(1) by (simp add: vent_ready_def add_int32_def in_int32_def)
  have "\<exists>b. nap_after (vs_count s + 1) st ev = Inr b"
    using assms(2) by (auto simp: nap_after_def throttle_ok_def)
  with es add assms(1) show ?thesis
    by (auto simp: Vent_sendOne_def vent_ready_def)
qed

lemma Poll_send_eq: "Poll_send = Vent_sendOne"
  by (intro ext) (simp add: Poll_send_def Vent_sendOne_def)

interpretation vent: throttled_sender Vent_sendOne vs_sender vs_sink vent_ready
  using Vent_sendOne_ready by unfold_locales

interpretation poll: throttled_sender Poll_send vs_sender vs_sink vent_ready
  using vent.send1_ready by unfold_locales (simp add: Poll_send_eq)

section \<open>Properties\<close>

text \<open>
  What a vent promises its sink: when both announcements can be sent, the sink is
  told the first id 0 before, and the last id, which is what \<open>sendAll\<close> returned, after whatever
  the worker sent to it; when the first cannot be sent nothing is sent at all, and when only the
  second fails the vent reports failure after the work is out.
\<close>

theorem Vent_process_brackets:
  assumes "sendAll (s\<lparr>vs_sink := vs_sink s @ [Msg_set sc (1, 0, [])]\<rparr>) = Inr (lst, s2)"
  shows "Vent_process sc sendAll (Inr ()) (Inr ()) s =
      Inr (True, s2\<lparr>vs_sink := vs_sink s2 @ [Msg_set sc (3, lst, [])]\<rparr>)
    \<and> Vent_process sc sendAll (Inl (Zmq_error e)) out2 s = Inr (False, s)
    \<and> Vent_process sc sendAll (Inr ()) (Inl (Zmq_error e)) s = Inr (False, s2)"
  using assms by (simp add: Vent_process_def sink_send_def SinkMsg_defs)

theorem Vent_process_brackets_witness:
  "Vent_process plain_codec (\<lambda>s. Inr (4, s\<lparr>vs_sender := [(2, 4, [''x''])]\<rparr>)) (Inr ()) (Inr ()) (Vent_init []) =
     Inr (True, (Vent_init []) \<lparr>vs_sink := [(1, 0, []), (3, 4, [])], vs_sender := [(2, 4, [''x''])]\<rparr>)"
  using Vent_process_brackets [of "\<lambda>s. Inr (4, s\<lparr>vs_sender := [(2, 4, [''x''])]\<rparr>)" "Vent_init []" plain_codec 4]
  by (simp add: Vent_init_def Msg_set_def)

text \<open>
  Sleeping without an interval: with a sleep time and a \<open>sleepevery\<close> of 0, the
  first message is handed to the socket and the process then divides by zero.
\<close>

theorem Vent_sendOne_divides_by_zero:
  assumes "0 < sleeptime" and "vs_env s = []" and "in_int32 (vs_count s + 1)"
  shows "Vent_sendOne m sleeptime 0 s = Inl (Undefined ''division by zero'')"
  using assms by (simp add: Vent_sendOne_def next_send_def add_int32_def nap_after_def)

theorem Vent_sendOne_divides_by_zero_witness:
  "Vent_sendOne ''m'' 10 0 (Vent_init []) = Inl (Undefined ''division by zero'')"
  using Vent_sendOne_divides_by_zero [of 10 "Vent_init []" "''m''"]
  by (simp add: Vent_init_def in_int32_def)

text \<open>The naps: after \<open>n\<close> undisturbed sends there was one nap for each full \<open>sleepevery\<close>.\<close>

lemma Vent_sendOne_naps:
  assumes "vs_env s = []" and "0 < sleeptime" and "0 < sleepevery" and "in_int32 (vs_count s + 1)"
  shows "Vent_sendOne m sleeptime sleepevery s =
    Inr (True, s\<lparr>vs_sender := vs_sender s @ [m], vs_count := vs_count s + 1,
                 vs_naps := vs_naps s @ (if sleepevery dvd vs_count s + 1 then [sleeptime] else [])\<rparr>)"
  using assms by (simp add: Vent_sendOne_def next_send_def add_int32_def nap_after_def)

end
