(* ===== verification/Work_Loop.thy ===== *)
theory Work_Loop
  imports Sink_Loop
begin

text \<open>
  \<open>core/Work.cpp\<close>: the message loop of a worker, and \<open>SinkWorker::sendSinkMsg\<close>, with which
  a worker answers.  As for a sink, a turn of the loop meets a \<open>work_turn\<close> of the environment
  and the worker (\<open>core/IWorkWorker.hpp\<close>) is a record of functions.
\<close>

section \<open>The worker and the loop\<close>

record ('m, 'w) IWorkWorker =
  iww_processMsg :: "'m \<Rightarrow> 'w \<Rightarrow> 'w res"
  iww_getTimeout :: "'w \<Rightarrow> int"
  iww_timeout :: "'w \<Rightarrow> 'w res"

text \<open>The defaults of the interface.\<close>

definition IWorkWorker_getTimeout :: "'w \<Rightarrow> int" where
  "IWorkWorker_getTimeout w = 1000"

definition IWorkWorker_timeout :: "'w \<Rightarrow> 'w res" where
  "IWorkWorker_timeout w = Inr w"

text \<open>\<open>shouldQuit()\<close> is asked at the head of the loop, after the poll and at the end; the poll
  is given the worker's timeout.\<close>

record 'm work_turn =
  wt_quit_head :: bool
  wt_zpolled :: "int \<Rightarrow> (bool \<times> bool) res"
  wt_quit_polled :: bool
  wt_received :: "'m res"
  wt_quit_tail :: bool

type_synonym 'w work_outcome = "('w, 'w res) outcome"

definition work_on_msg :: "'m \<Rightarrow> ('m, 'w) IWorkWorker \<Rightarrow> 'm work_turn \<Rightarrow> 'w \<Rightarrow> 'w work_outcome res" where
  "work_on_msg no_msg wk ev w =
     rbind (catch_zmq no_msg (wt_received ev)) (\<lambda>message.
     rmap Continue (iww_processMsg wk message w))"

definition work_on_control :: "('m, KillMsg) codec \<Rightarrow> 'm work_turn \<Rightarrow> 'w \<Rightarrow> 'w work_outcome res" where
  "work_on_control kc ev w =
     catch_zmq (Continue w)
       (rbind (wt_received ev) (\<lambda>message.
        rmap (\<lambda>kill. if KillMsg_value kill = 0 then Stop (Inr w) else Continue w)
          (Msg_of_message kc message)))"

definition work_turn ::
  "('m, KillMsg) codec \<Rightarrow> 'm \<Rightarrow> ('m, 'w) IWorkWorker \<Rightarrow> 'w \<Rightarrow> 'm work_turn \<Rightarrow> 'w work_outcome" where
  "work_turn kc no_msg wk w ev =
     (if wt_quit_head ev then Stop (Inr w)
      else outcome_of
        (rbind (catch_zmq Poller_NONE (Poller_poll (wt_zpolled ev (iww_getTimeout wk w)))) (\<lambda>recved.
           if wt_quit_polled ev then Inr (Stop (Inr w))
           else rmap (\<lambda>out. case out of
                        Continue w' \<Rightarrow> if wt_quit_tail ev then Stop (Inr w') else Continue w'
                      | Stop r \<Rightarrow> Stop r)
             (if recved = Poller_MSG then work_on_msg no_msg wk ev w
              else if recved = Poller_CONTROL then work_on_control kc ev w
              else if recved = Poller_NONE then rmap Continue (iww_timeout wk w)
              else Inr (Continue w)))))"

definition Work_process ::
  "('m, KillMsg) codec \<Rightarrow> 'm \<Rightarrow> ('m, 'w) IWorkWorker \<Rightarrow> 'w \<Rightarrow> 'm work_turn list \<Rightarrow>
   'w work_outcome \<times> 'm work_turn list" where
  "Work_process kc no_msg wk w evs = run (work_turn kc no_msg wk) w evs"

text \<open>\<open>sendSinkMsg\<close>: what the sender socket has taken so far, and the outcome of the send.\<close>

definition SinkWorker_sendSinkMsg ::
  "('m, SinkMsg) codec \<Rightarrow> SinkMsg \<Rightarrow> unit res \<Rightarrow> 'm list \<Rightarrow> 'm list res" where
  "SinkWorker_sendSinkMsg sc smsg out sent =
     catch_zmq sent (rmap (\<lambda>_. sent @ [Msg_set sc smsg]) out)"

section \<open>Properties\<close>

definition work_delivers :: "'m work_turn \<Rightarrow> 'm \<Rightarrow> bool" where
  "work_delivers ev m \<longleftrightarrow> \<not> wt_quit_head ev \<and> \<not> wt_quit_polled ev \<and> \<not> wt_quit_tail ev
     \<and> (\<forall>tm. case wt_zpolled ev tm of Inr (in0, _) \<Rightarrow> in0 | Inl _ \<Rightarrow> False) \<and> wt_received ev = Inr m"

definition work_killed :: "('m, KillMsg) codec \<Rightarrow> 'm work_turn \<Rightarrow> bool" where
  "work_killed kc ev \<longleftrightarrow> \<not> wt_quit_head ev \<and> \<not> wt_quit_polled ev
     \<and> (\<forall>tm. wt_zpolled ev tm = Inr (False, True))
     \<and> (\<exists>x. wt_received ev = Inr x \<and> unpack kc x = Inr 0)"

lemma work_turn_delivers:
  assumes "work_delivers ev m"
  shows "work_turn kc no_msg wk w ev =
    (case iww_processMsg wk m w of Inr w' \<Rightarrow> Continue w' | Inl e \<Rightarrow> Stop (Inl e))"
proof -
  obtain in1 where "wt_zpolled ev (iww_getTimeout wk w) = Inr (True, in1)"
    using assms [unfolded work_delivers_def, THEN conjunct2, THEN conjunct2, THEN conjunct2, THEN conjunct1,
        THEN spec, of "iww_getTimeout wk w"]
    by (auto split: sum.splits prod.splits)
  with assms show ?thesis
    by (auto simp: work_delivers_def work_turn_def Poller_poll_def Poller_defs work_on_msg_def
        split: sum.split)
qed

lemma work_turn_killed: "work_killed kc ev \<Longrightarrow> work_turn kc no_msg wk w ev = Stop (Inr w)"
  by (auto simp: work_killed_def work_turn_def Poller_poll_def Poller_defs work_on_control_def
      Msg_of_message_def KillMsg_value_def)

lemma work_handles:
  assumes "list_all2 work_delivers evs ms" and "work_killed kc ev"
  shows "fst (Work_process kc no_msg wk w (evs @ ev # rest)) = Stop (rfold (iww_processMsg wk) ms w)"
  using assms(1)
proof (induction arbitrary: w rule: list_all2_induct)
  case Nil
  then show ?case by (simp add: Work_process_def work_turn_killed [OF assms(2)])
next
  case (Cons e es m ms)
  then show ?case
    by (cases "iww_processMsg wk m w") (simp_all add: Work_process_def work_turn_delivers)
qed

text \<open>
  Claim C24.  A worker handles the messages it is sent one after the other, in the order of
  arrival and each once, and ends at a kill message with what it made of them; if handling one
  throws, the loop ends there with that exception.
\<close>

theorem Work_process_handles_in_order:
  assumes "list_all2 work_delivers evs ms" and "work_killed kc ev"
  shows "fst (Work_process kc no_msg wk w (evs @ ev # rest)) = Stop (rfold (iww_processMsg wk) ms w)"
  using assms by (rule work_handles)

definition msg_work_turn :: "'m \<Rightarrow> 'm work_turn" where
  "msg_work_turn m = \<lparr>wt_quit_head = False, wt_zpolled = \<lambda>_. Inr (True, False), wt_quit_polled = False,
     wt_received = Inr m, wt_quit_tail = False\<rparr>"

definition kill_work_turn :: "'m \<Rightarrow> 'm work_turn" where
  "kill_work_turn m = msg_work_turn m \<lparr>wt_zpolled := \<lambda>_. Inr (False, True)\<rparr>"

lemma work_turn_examples [simp]:
  "work_delivers (msg_work_turn m) m" "unpack kc m = Inr 0 \<Longrightarrow> work_killed kc (kill_work_turn m)"
  by (simp_all add: work_delivers_def work_killed_def msg_work_turn_def kill_work_turn_def)

theorem Work_process_handles_in_order_witness:
  "fst (Work_process plain_codec 0
         \<lparr>iww_processMsg = \<lambda>m w. Inr (w @ [m]), iww_getTimeout = IWorkWorker_getTimeout,
          iww_timeout = IWorkWorker_timeout\<rparr> []
         [msg_work_turn 5, msg_work_turn 3, kill_work_turn 0, msg_work_turn (4 :: int)]) = Stop (Inr [5, 3])"
  using Work_process_handles_in_order [of "[msg_work_turn 5, msg_work_turn 3]" "[5, 3 :: int]" plain_codec
      "kill_work_turn 0" 0
      "\<lparr>iww_processMsg = \<lambda>m w. Inr (w @ [m]), iww_getTimeout = IWorkWorker_getTimeout,
        iww_timeout = IWorkWorker_timeout\<rparr>" "[]" "[msg_work_turn 4]"]
  by simp

text \<open>The loop as a stepper.  \<open>sat P r\<close>: the result \<open>r\<close> is no socket error, and a value of
  it satisfies \<open>P\<close>.  What the worker keeps true of its state, the loop keeps true, and no
  socket error ends it.\<close>

definition sat :: "('a \<Rightarrow> bool) \<Rightarrow> 'a res \<Rightarrow> bool" where
  "sat P r \<longleftrightarrow> no_zmq r \<and> (\<forall>x. r = Inr x \<longrightarrow> P x)"

lemma sat_simps [simp]:
  "sat P (Inr x) \<longleftrightarrow> P x" "sat P (rmap f r) \<longleftrightarrow> sat (\<lambda>x. P (f x)) r"
  by (auto simp: sat_def res_simps)

lemma sat_rbind: "sat Q r \<Longrightarrow> (\<And>x. Q x \<Longrightarrow> sat P (f x)) \<Longrightarrow> sat P (rbind r f)"
  by (cases r) (auto simp: sat_def no_zmq_def)

lemma sat_catch: "P old \<Longrightarrow> (\<And>x. r = Inr x \<Longrightarrow> P x) \<Longrightarrow> sat P (catch_zmq old r)"
  by (auto simp: sat_def res_simps)

lemma sat_mono: "sat Q r \<Longrightarrow> (\<And>x. Q x \<Longrightarrow> P x) \<Longrightarrow> sat P r"
  by (auto simp: sat_def)

definition ok_outcome :: "('s \<Rightarrow> bool) \<Rightarrow> ('s, 's res) outcome \<Rightarrow> bool" where
  "ok_outcome P out = (case out of Continue s \<Rightarrow> P s | Stop r \<Rightarrow> sat P r)"

lemma ok_outcome_of: "sat (ok_outcome P) r \<Longrightarrow> ok_outcome P (outcome_of r)"
  by (cases r) (auto simp: sat_def ok_outcome_def no_zmq_def)

definition work_inv :: "('m, 'w) IWorkWorker \<Rightarrow> ('w \<Rightarrow> bool) \<Rightarrow> 'w \<Rightarrow> bool" where
  "work_inv wk P w \<longleftrightarrow> P w
     \<and> (\<forall>m w. P w \<longrightarrow> sat P (iww_processMsg wk m w)) \<and> (\<forall>w. P w \<longrightarrow> sat P (iww_timeout wk w))"

lemma work_turn_ok:
  assumes "work_inv wk P w"
  shows "ok_outcome P (work_turn kc no_msg wk w ev)"
proof -
  have P: "P w" and msg: "\<And>m. sat P (iww_processMsg wk m w)" and tmo: "sat P (iww_timeout wk w)"
    using assms by (auto simp: work_inv_def)
  have m: "sat (ok_outcome P) (work_on_msg no_msg wk ev w)"
    unfolding work_on_msg_def using msg
    by (intro sat_rbind [where Q = "\<lambda>_. True"] sat_catch) (auto simp: ok_outcome_def)
  have c: "sat (ok_outcome P) (work_on_control kc ev w)"
    unfolding work_on_control_def using P
    by (intro sat_catch) (auto simp: ok_outcome_def res_simps)
  have tail: "ok_outcome P out \<Longrightarrow>
      ok_outcome P (case out of Continue w' \<Rightarrow> if wt_quit_tail ev then Stop (Inr w') else Continue w'
                    | Stop r \<Rightarrow> Stop r)" for out
    by (auto simp: ok_outcome_def split: outcome.split)
  have "sat (ok_outcome P)
        (rbind (catch_zmq Poller_NONE (Poller_poll (wt_zpolled ev (iww_getTimeout wk w)))) (\<lambda>recved.
           if wt_quit_polled ev then Inr (Stop (Inr w))
           else rmap (\<lambda>out. case out of
                        Continue w' \<Rightarrow> if wt_quit_tail ev then Stop (Inr w') else Continue w'
                      | Stop r \<Rightarrow> Stop r)
             (if recved = Poller_MSG then work_on_msg no_msg wk ev w
              else if recved = Poller_CONTROL then work_on_control kc ev w
              else if recved = Poller_NONE then rmap Continue (iww_timeout wk w)
              else Inr (Continue w))))"
    using m c tmo P tail
    by (intro sat_rbind [where Q = "\<lambda>_. True"] sat_catch)
      (auto simp: ok_outcome_def elim!: sat_mono split: outcome.split)
  with P show ?thesis
    by (auto simp: work_turn_def ok_outcome_of) (simp add: ok_outcome_def)
qed

interpretation work_loop: stepper "work_turn kc no_msg wk" "work_inv wk P" "\<lambda>_. True" "sat P"
proof unfold_locales
  fix w ev assume inv: "work_inv wk P w"
  note ok = work_turn_ok [OF inv, of kc no_msg ev]
  show "work_inv wk P w'" if "work_turn kc no_msg wk w ev = Continue w'" for w'
    using inv ok that by (simp add: ok_outcome_def work_inv_def)
  show "sat P r" if "work_turn kc no_msg wk w ev = Stop r" for r
    using ok that by (simp add: ok_outcome_def)
qed

text \<open>
  An invariant \<open>P\<close> that the worker's own handlers keep is kept by \<open>Work::process\<close>
  for any sequence of messages, failing polls and receives, timeouts and signals; the loop never
  ends with a socket error, and the state it ends with satisfies \<open>P\<close>.
\<close>

theorem Work_process_invariant:
  assumes "P w" and "\<forall>m w. P w \<longrightarrow> sat P (iww_processMsg wk m w)" and "\<forall>w. P w \<longrightarrow> sat P (iww_timeout wk w)"
  shows "case fst (Work_process kc no_msg wk w evs) of Continue w' \<Rightarrow> P w' | Stop r \<Rightarrow> sat P r"
proof -
  have inv: "work_inv wk P w" using assms by (simp add: work_inv_def)
  obtain out rest where r: "run (work_turn kc no_msg wk) w evs = (out, rest)" by fastforce
  show ?thesis
  proof (cases out)
    case (Continue w')
    with work_loop.run_inv [OF inv _ r [unfolded Continue]] r show ?thesis
      by (auto simp: Work_process_def work_inv_def list_all_iff)
  next
    case (Stop x)
    with work_loop.run_acceptable [OF inv _ r [unfolded Stop]] r show ?thesis
      by (auto simp: Work_process_def list_all_iff)
  qed
qed

theorem Work_process_invariant_witness:
  "case fst (Work_process plain_codec 0
         \<lparr>iww_processMsg = \<lambda>m w. Inr (w + \<bar>m\<bar>), iww_getTimeout = IWorkWorker_getTimeout,
          iww_timeout = IWorkWorker_timeout\<rparr> 0 [msg_work_turn 5, kill_work_turn 0])
   of Continue w' \<Rightarrow> 0 \<le> w' | Stop r \<Rightarrow> sat ((\<le>) (0 :: int)) r"
  by (rule Work_process_invariant) (simp_all add: IWorkWorker_timeout_def)

end
