(* ===== verification/Mains.thy ===== *)
theory Mains
  imports Pipes Vent_Loop Work_Loop
begin

text \<open>
  What the programs of a machine's blocks have in common: \<open>core/Main.cpp\<close> (arguments),
  \<open>core/Logging.cpp\<close>, and the way each \<open>main\<close> opens its sockets.  The parsing of the command
  line is Boost's; the model starts from the options it found.
\<close>

section \<open>setup_main and setup_logging\<close>

record main_args =
  arg_help :: bool
  arg_pipes :: "string option"
  arg_config :: "string option"
  arg_name :: "string option"

text \<open>The result is the pipes, the configuration and the name of the logger.\<close>

definition setup_main :: "json_reader \<Rightarrow> main_args \<Rightarrow> (JsonObject \<times> JsonObject \<times> string) option" where
  "setup_main reader args =
     (case (arg_help args, arg_pipes args, arg_config args, arg_name args) of
        (False, Some pipes, Some config, Some name) \<Rightarrow>
          (case JsonObject_read reader Null pipes of
             (False, _) \<Rightarrow> None
           | (True, p) \<Rightarrow>
               (case JsonObject_read reader Null config of
                  (False, _) \<Rightarrow> None
                | (True, r) \<Rightarrow> Some (p, r, ''org.skweltch.'' @ name)))
      | _ \<Rightarrow> None)"

definition nl :: string where "nl = [CHR 0x0A]"

text \<open>The default configuration of the logger, written when there is none; the result is what
  the file then holds.\<close>

definition default_log_conf :: string where
  "default_log_conf =
     ''log4j.rootLogger=INFO, STDOUT'' @ nl @ nl
     @ ''log4j.appender.STDOUT=org.apache.log4j.ConsoleAppender'' @ nl
     @ ''log4j.appender.STDOUT.layout=org.apache.log4j.PatternLayout'' @ nl
     @ ''#log4j.appender.STDOUT.layout.ConversionPattern=%d %-5p %c - %m%n'' @ nl
     @ ''log4j.appender.STDOUT.layout.ConversionPattern=%m%n'' @ nl
     @ ''log4j.appender.STDOUT.threshold=INFO'' @ nl"

definition setup_logging :: "string option \<Rightarrow> string" where
  "setup_logging conf = (case conf of None \<Rightarrow> default_log_conf | Some text \<Rightarrow> text)"

section \<open>Opening the sockets\<close>

text \<open>A program joins its sockets one after the other and returns 1 at the first that fails; a
  subscription is not in a \<open>try\<close> block.\<close>

datatype port_step = Join string | Subscribe string

fun open_ports :: "(string \<Rightarrow> socket) \<Rightarrow> JsonObject \<Rightarrow> port_step list \<Rightarrow> bool res" where
  "open_ports socks pipes [] = Inr True"
| "open_ports socks pipes (Join name # steps) =
     rbind (Ports_join (socks name) pipes name)
       (\<lambda>(ok, _). if ok then open_ports socks pipes steps else Inr False)"
| "open_ports socks pipes (Subscribe name # steps) =
     rbind (socks name (Sock_subscribe '''')) (\<lambda>_. open_ports socks pipes steps)"

definition vent_ports :: "port_step list" where
  "vent_ports = [Join ''pushTo'', Join ''control'', Subscribe ''control'', Join ''syncTo'']"

definition work_ports :: "port_step list" where
  "work_ports = [Join ''pullFrom'', Join ''control'', Subscribe ''control'', Join ''pushTo'']"

definition sink_ports :: "port_step list" where
  "sink_ports = [Join ''pullFrom'', Join ''control'', Subscribe ''control'', Join ''resultsTo'']"

text \<open>The exit code of a vent's program.\<close>

definition exit_code :: "bool \<Rightarrow> int" where
  "exit_code ok = (if ok then 0 else 1)"

text \<open>A pipe that is not there is skipped: a program without pipes starts.\<close>

lemma open_ports_without_pipes:
  assumes "\<forall>name. obj_get ms name = Null" and "\<forall>s x. socks s x = Inr ()"
  shows "open_ports socks (Obj ms) steps = Inr True"
proof (induction steps)
  case (Cons x steps)
  with assms show ?case
    by (cases x) (simp_all add: Ports_join_def JsonObject_getChild_def JsonObject_isObject_def)
qed simp

section \<open>Numbered messages\<close>

text \<open>The three vents number what they send from 0 (\<open>id++\<close>), with the clock of the moment
  (\<open>clk i\<close> for the message \<open>i\<close>).  The state is the next id and the vent.\<close>

type_synonym 'm numbered = "int \<times> 'm vent_state"

definition send_numbered ::
  "('m, 'd DataMsg) codec \<Rightarrow> (int \<Rightarrow> int) \<Rightarrow> int \<Rightarrow> int \<Rightarrow> 'd \<Rightarrow> 'm numbered \<Rightarrow> (bool \<times> 'm numbered) res" where
  "send_numbered c clk sleeptime sleepevery d s =
     (let (i, vs) = s in
      rbind (add_int32 i 1) (\<lambda>i'.
      rmap (\<lambda>(go, vs'). (go, (i', vs')))
        (Vent_sendOne (Msg_set c (DataMsg_make i (clk i) d)) sleeptime sleepevery vs)))"

definition numbered_msgs :: "('m, 'd DataMsg) codec \<Rightarrow> (int \<Rightarrow> int) \<Rightarrow> int \<Rightarrow> 'd list \<Rightarrow> 'm list" where
  "numbered_msgs c clk i ds =
     map (\<lambda>(k, d). Msg_set c (DataMsg_make (i + int k) (clk (i + int k)) d)) (enumerate 0 ds)"

lemma numbered_msgs_simps [simp]:
  "numbered_msgs c clk i [] = []"
  "numbered_msgs c clk i (d # ds) = Msg_set c (DataMsg_make i (clk i) d) # numbered_msgs c clk (i + 1) ds"
proof -
  have "map (\<lambda>(k, d). f (i + int k) d) (enumerate (Suc n) ds) =
      map (\<lambda>(k, d). f (i + 1 + int k) d) (enumerate n ds)" for f :: "int \<Rightarrow> 'b \<Rightarrow> 'a" and n
    by (induction ds arbitrary: n) (auto simp: algebra_simps)
  from this [of "\<lambda>j d. Msg_set c (DataMsg_make j (clk j) d)" 0]
  show "numbered_msgs c clk i (d # ds) = Msg_set c (DataMsg_make i (clk i) d) # numbered_msgs c clk (i + 1) ds"
    by (simp add: numbered_msgs_def)
qed (simp add: numbered_msgs_def)

definition numbered_ready :: "nat \<Rightarrow> 'm numbered \<Rightarrow> bool" where
  "numbered_ready n s \<longleftrightarrow> vent_ready n (snd s) \<and> 0 \<le> fst s \<and> fst s + int n \<le> 2147483647"

lemma send_numbered_all:
  assumes "throttle_ok st ev"
  shows "numbered_ready (length ds) (i, vs) \<Longrightarrow>
    \<exists>vs'. send_list (send_numbered c clk st ev) ds (i, vs) = Inr (True, (i + int (length ds), vs'))
      \<and> vs_sender vs' = vs_sender vs @ numbered_msgs c clk i ds \<and> vs_sink vs' = vs_sink vs"
proof (induction ds arbitrary: i vs)
  case (Cons d ds)
  have i: "add_int32 i 1 = Inr (i + 1)"
    using Cons.prems by (simp add: add_int32_def in_int32_def numbered_ready_def)
  obtain vs1 where vs1: "Vent_sendOne (Msg_set c (DataMsg_make i (clk i) d)) st ev vs = Inr (True, vs1)"
      "vs_sender vs1 = vs_sender vs @ [Msg_set c (DataMsg_make i (clk i) d)]" "vs_sink vs1 = vs_sink vs"
      "vent_ready (length ds) vs1"
    using vent.send1_ready [OF _ assms, of "length ds" vs] Cons.prems by (auto simp: numbered_ready_def)
  have "numbered_ready (length ds) (i + 1, vs1)"
    using vs1(4) Cons.prems by (simp add: numbered_ready_def)
  with Cons.IH [OF this] i vs1 show ?case
    by (auto simp: send_numbered_def algebra_simps)
qed auto

lemma send_list_map:
  "(\<And>x s. x \<in> set xs \<Longrightarrow> f x s = g (h x) s) \<Longrightarrow> send_list f xs s = send_list g (map h xs) s"
proof (induction xs arbitrary: s)
  case (Cons x xs)
  then have "f x s = g (h x) s" "\<And>s. send_list f xs s = send_list g (map h xs) s" by auto
  then show ?case by (simp cong: if_cong)
qed simp

end
