(* ===== verification/Random_Vent.thy ===== *)
theory Random_Vent
  imports Mains Doubles
begin

text \<open>
  \<open>vent/VentRandomNum.cpp\<close>: a source of numbered messages that hold pseudo-random numbers.  The
  numbers of \<open>random()\<close>, between 0 and \<open>RAND_MAX\<close>, are the function \<open>rnd\<close>.
\<close>

section \<open>The macro within\<close>

text \<open>A \<open>float\<close> has 24 significant bits; this rounds a natural number to the nearest one.\<close>

definition round24 :: "nat \<Rightarrow> nat" where
  "round24 n =
     (if bit_len n \<le> 24 then n else round_div n (2 ^ (bit_len n - 24)) * 2 ^ (bit_len n - 24))"

definition RAND_MAX :: int where
  "RAND_MAX = 2147483647"

text \<open>\<open>(int) ((float) num * random () / (RAND_MAX + 1.0))\<close>: the product is one of \<open>float\<close>s, the
  quotient by a power of two is exact, and the conversion truncates towards zero.\<close>

definition within_num :: "int \<Rightarrow> int \<Rightarrow> int res" where
  "within_num num r =
     (let q = round24 (round24 (nat \<bar>num\<bar>) * round24 (nat r)) div nat (RAND_MAX + 1);
          v = (if num < 0 then - int q else int q)
      in if in_int32 v then Inr v else Inl (Undefined ''float out of range of int''))"

section \<open>VWorker and main\<close>

definition ventrandomnum_send ::
  "('m, IntMsg) codec \<Rightarrow> (int \<Rightarrow> int) \<Rightarrow> int \<Rightarrow> int \<Rightarrow> int \<Rightarrow> int \<Rightarrow> 'm numbered \<Rightarrow> (bool \<times> 'm numbered) res" where
  "ventrandomnum_send c clk low high sleeptime r st =
     rbind (within_num high r) (\<lambda>w.
     rbind (add_int32 w low) (\<lambda>num. send_numbered c clk sleeptime 1 num st))"

definition ventrandomnum_sendAll ::
  "('m, IntMsg) codec \<Rightarrow> (int \<Rightarrow> int) \<Rightarrow> (nat \<Rightarrow> int) \<Rightarrow> int \<Rightarrow> int \<Rightarrow> int \<Rightarrow> int \<Rightarrow>
   'm vent_state \<Rightarrow> (int \<times> 'm vent_state) res" where
  "ventrandomnum_sendAll c clk rnd cnt low high sleeptime vs =
     rmap (\<lambda>(ok, (i, vs')). (if \<not> ok then 0 else i - 1, vs'))
       (send_list (ventrandomnum_send c clk low high sleeptime) (map rnd [0..<nat cnt]) (0, vs))"

definition ventrandomnum_main ::
  "json_reader \<Rightarrow> main_args \<Rightarrow> (string \<Rightarrow> socket) \<Rightarrow> (nat \<Rightarrow> int) \<Rightarrow>
   ('m, SinkMsg) codec \<Rightarrow> ('m, IntMsg) codec \<Rightarrow> (int \<Rightarrow> int) \<Rightarrow> unit res \<Rightarrow> unit res \<Rightarrow>
   (unit res \<times> bool) list \<Rightarrow> (int \<times> 'm vent_state) res" where
  "ventrandomnum_main reader args socks rnd sc c clk out1 out2 env =
     (case setup_main reader args of
        None \<Rightarrow> Inr (1, Vent_init env)
      | Some (pipes, r, _) \<Rightarrow>
          rbind (JsonObject_getInt r ''low'' 1) (\<lambda>low.
          rbind (JsonObject_getInt r ''high'' 100) (\<lambda>high.
          rbind (open_ports socks pipes vent_ports) (\<lambda>ok.
            if \<not> ok then Inr (1, Vent_init env)
            else rbind (JsonObject_getInt r ''count'' 10) (\<lambda>cnt.
                 rbind (JsonObject_getInt r ''sleep'' 0) (\<lambda>sleeptime.
                 rmap (\<lambda>(ok, vs). (exit_code ok, vs))
                   (Vent_process sc (ventrandomnum_sendAll c clk rnd cnt low high sleeptime)
                      out1 out2 (Vent_init env))))))))"

section \<open>The range of the numbers\<close>

lemma round24_small: "n < 2 ^ 24 \<Longrightarrow> round24 n = n"
  using bit_len_le [of n 24] by (simp add: round24_def)

text \<open>Rounding does not pass a number of the form \<open>h * 2 ^ j\<close> with a small \<open>h\<close>.\<close>

lemma round24_le:
  assumes "n \<le> h * 2 ^ j" and "h < 2 ^ 24"
  shows "round24 n \<le> h * 2 ^ j"
proof (cases "bit_len n \<le> 24")
  case True
  with assms show ?thesis by (simp add: round24_def)
next
  case False
  let ?k = "bit_len n - 24"
  have n0: "n \<noteq> 0" using False by (cases "n = 0") (simp_all add: bit_len.simps)
  have "2 ^ (bit_len n - 1) \<le> n" using n0 by (rule bit_len_lower)
  also have "\<dots> \<le> h * 2 ^ j" by (rule assms(1))
  also have "\<dots> < 2 ^ 24 * 2 ^ j" using assms(2) by simp
  also have "\<dots> = (2 :: nat) ^ (24 + j)" by (simp only: power_add)
  finally have "bit_len n - 1 < 24 + j" by (rule power_less_imp_less_exp [rotated]) simp
  then have kj: "?k \<le> j" using False by simp
  have split: "h * 2 ^ j = h * 2 ^ (j - ?k) * 2 ^ ?k"
    using kj by (simp add: mult.assoc flip: power_add)
  with assms(1) have "round_div n (2 ^ ?k) \<le> h * 2 ^ (j - ?k)"
    by (intro round_div_le) simp_all
  then have "round_div n (2 ^ ?k) * 2 ^ ?k \<le> h * 2 ^ j" unfolding split by (rule mult_le_mono1)
  with False show ?thesis by (simp add: round24_def)
qed

lemma within_defined:
  assumes "0 \<le> num" and "num < 2 ^ 24" and "0 \<le> r" and "r \<le> RAND_MAX"
  shows "\<exists>v. within_num num r = Inr v \<and> 0 \<le> v \<and> v \<le> num"
proof -
  let ?n = "nat num"
  have n: "?n < 2 ^ 24" using assms by simp
  have "round24 (nat r) \<le> 1 * 2 ^ 31" using assms by (intro round24_le) (simp_all add: RAND_MAX_def)
  then have "?n * round24 (nat r) \<le> ?n * 2 ^ 31" by simp
  then have "round24 (?n * round24 (nat r)) \<le> ?n * 2 ^ 31" using n by (rule round24_le)
  then have "round24 (?n * round24 (nat r)) div 2147483648 \<le> ?n" by simp
  with assms n show ?thesis
    by (simp add: within_num_def Let_def round24_small RAND_MAX_def in_int32_def)
qed

text \<open>
  For a range that a \<open>float\<close> holds exactly, \<open>within\<close> of any number of \<open>random()\<close> is
  defined and between 0 and the range, both included.
\<close>

theorem within_bounds:
  assumes "0 \<le> num" and "num < 2 ^ 24" and "0 \<le> r" and "r \<le> RAND_MAX"
  shows "\<exists>v. within_num num r = Inr v \<and> 0 \<le> v \<and> v \<le> num"
  using assms by (rule within_defined)

theorem within_bounds_witness: "\<exists>v. within_num 100 1073741824 = Inr v \<and> 0 \<le> v \<and> v \<le> 100"
  by (rule within_bounds) (simp_all add: RAND_MAX_def)

text \<open>
  The range itself is reached: the largest numbers of \<open>random()\<close> round up to
  \<open>RAND_MAX + 1\<close> as \<open>float\<close>s, so that a vent with \<open>low\<close> 1 and \<open>high\<close> 100 can send 101.
\<close>

theorem within_reaches_range:
  assumes "0 \<le> num" and "num < 2 ^ 24"
  shows "within_num num RAND_MAX = Inr num"
proof -
  have "bit_len 2147483647 \<le> 31" by (rule bit_len_le) simp
  moreover have "\<not> bit_len 2147483647 \<le> 30"
  proof
    assume "bit_len 2147483647 \<le> 30"
    then have "(2 :: nat) ^ bit_len 2147483647 \<le> 2 ^ 30" by (intro power_increasing) simp_all
    then show False using bit_len_upper [of 2147483647] by simp
  qed
  ultimately have "bit_len 2147483647 = 31" by simp
  then have r: "round24 (nat RAND_MAX) = 2 ^ 31"
    by (simp add: round24_def RAND_MAX_def round_div_def)
  have le: "round24 (nat num * 2 ^ 31) \<le> nat num * 2 ^ 31" using assms by (intro round24_le) simp_all
  have "nat num * 2 ^ 31 \<le> round24 (nat num * 2 ^ 31)"
  proof (cases "bit_len (nat num * 2 ^ 31) \<le> 24")
    case False
    let ?m = "nat num * 2 ^ 31" and ?k = "bit_len (nat num * 2 ^ 31) - 24"
    have "?m < 2 ^ 55" using assms by simp
    then have "bit_len ?m \<le> 55" by (rule bit_len_le)
    then have "?k \<le> 31" by simp
    then have "(2 :: nat) ^ ?k dvd 2 ^ 31" by (rule le_imp_power_dvd)
    then have "2 ^ ?k dvd ?m" by (rule dvd_mult)
    then have "round_div ?m (2 ^ ?k) = ?m div 2 ^ ?k" by (simp add: round_div_def Let_def)
    with False \<open>2 ^ ?k dvd ?m\<close> show ?thesis by (simp add: round24_def)
  qed (simp add: round24_def)
  with le have "round24 (nat num * 2 ^ 31) = nat num * 2 ^ 31" by simp
  with assms r show ?thesis
    by (simp add: within_num_def Let_def round24_small RAND_MAX_def in_int32_def)
qed

theorem within_reaches_range_witness: "within_num 100 RAND_MAX = Inr 100"
  by (rule within_reaches_range) simp_all

section \<open>What is sent\<close>

definition random_num :: "int \<Rightarrow> int \<Rightarrow> int \<Rightarrow> int" where
  "random_num low high r = (case within_num high r of Inr w \<Rightarrow> w + low | Inl _ \<Rightarrow> 0)"

definition random_ok :: "int \<Rightarrow> int \<Rightarrow> (nat \<Rightarrow> int) \<Rightarrow> bool" where
  "random_ok low high rnd \<longleftrightarrow> 0 \<le> high \<and> high < 2 ^ 24 \<and> in_int32 low \<and> in_int32 (low + high)
     \<and> (\<forall>i. 0 \<le> rnd i \<and> rnd i \<le> RAND_MAX)"

lemma random_num:
  assumes "random_ok low high rnd"
  shows "low \<le> random_num low high (rnd i) \<and> random_num low high (rnd i) \<le> low + high"
    and "ventrandomnum_send c clk low high st (rnd i) s = send_numbered c clk st 1 (random_num low high (rnd i)) s"
proof -
  have "0 \<le> high" "high < 2 ^ 24" "0 \<le> rnd i" "rnd i \<le> RAND_MAX" and
    low: "in_int32 low" "in_int32 (low + high)"
    using assms by (auto simp: random_ok_def)
  from within_defined [OF this(1-4)] obtain v where v: "within_num high (rnd i) = Inr v" "0 \<le> v" "v \<le> high"
    by blast
  then show "low \<le> random_num low high (rnd i) \<and> random_num low high (rnd i) \<le> low + high"
    by (simp add: random_num_def)
  have "add_int32 v low = Inr (v + low)" using v low by (simp add: add_int32_def in_int32_def)
  with v show "ventrandomnum_send c clk low high st (rnd i) s =
      send_numbered c clk st 1 (random_num low high (rnd i)) s"
    by (simp add: ventrandomnum_send_def random_num_def)
qed

text \<open>
  \<open>VentRandomNum\<close> sends \<open>count\<close> messages numbered from 0, each holding a number from
  \<open>low\<close> to \<open>low + high\<close>, and the last id it reports is that of the last message (so -1 when
  \<open>count\<close> is 0).
\<close>

theorem ventrandomnum_sendAll_numbers:
  assumes "random_ok low high rnd" and "0 \<le> cnt" and "cnt \<le> 2147483647" and "vent_ready (nat cnt) vs"
  shows "\<exists>vs' nums. ventrandomnum_sendAll c clk rnd cnt low high st vs = Inr (cnt - 1, vs')
    \<and> vs_sender vs' = vs_sender vs @ numbered_msgs c clk 0 nums
    \<and> length nums = nat cnt \<and> set nums \<subseteq> {low..low + high}"
proof -
  let ?nums = "map (random_num low high) (map rnd [0..<nat cnt])"
  have "send_list (ventrandomnum_send c clk low high st) (map rnd [0..<nat cnt]) (0, vs) =
      send_list (send_numbered c clk st 1) ?nums (0, vs)"
    using random_num(2) [OF assms(1)] by (intro send_list_map) auto
  moreover have "throttle_ok st 1" by (simp add: throttle_ok_def)
  then obtain vs' where "send_list (send_numbered c clk st 1) ?nums (0, vs) = Inr (True, (cnt, vs'))"
      "vs_sender vs' = vs_sender vs @ numbered_msgs c clk 0 ?nums"
    using send_numbered_all [of st 1 ?nums 0 vs c clk] assms by (auto simp: numbered_ready_def)
  ultimately have "ventrandomnum_sendAll c clk rnd cnt low high st vs = Inr (cnt - 1, vs')"
      "vs_sender vs' = vs_sender vs @ numbered_msgs c clk 0 ?nums"
    by (simp_all add: ventrandomnum_sendAll_def)
  moreover have "set ?nums \<subseteq> {low..low + high}" using random_num(1) [OF assms(1)] by auto
  ultimately show ?thesis by (intro exI [of _ vs'] exI [of _ ?nums]) auto
qed

theorem ventrandomnum_sendAll_numbers_witness:
  "\<exists>vs' nums. ventrandomnum_sendAll plain_codec (\<lambda>_. 7) (\<lambda>i. int i mod 1000) 3 1 100 0 (Vent_init []) = Inr (2, vs')
    \<and> vs_sender vs' = [] @ numbered_msgs plain_codec (\<lambda>_. 7) 0 nums
    \<and> length nums = nat 3 \<and> set nums \<subseteq> {1..1 + 100}"
proof -
  have m: "int i mod 1000 \<le> 999" for i using pos_mod_bound [of 1000 "int i"] by linarith
  have "random_ok 1 100 (\<lambda>i. int i mod 1000)"
    using order_trans [OF m] by (simp add: random_ok_def in_int32_def RAND_MAX_def)
  from ventrandomnum_sendAll_numbers [OF this, of 3 "Vent_init []" plain_codec "\<lambda>_. 7" 0]
  show ?thesis by (simp add: vent_ready_def Vent_init_def)
qed

end
