(* ===== verification/Words.thy ===== *)
theory Words
  imports Mains
begin

text \<open>
  \<open>vent/WordSplitter.cpp\<close> and \<open>vent/ventwords.cpp\<close>: a text split into words, each sent as a
  numbered message.
\<close>

section \<open>WordSplitter\<close>

text \<open>\<open>*input >> s\<close>: the next word, empty when only white space is left, and what remains; the
  stream is at its end when nothing remains.\<close>

definition read_word :: "string \<Rightarrow> string \<times> string" where
  "read_word rest = break_at is_space (dropWhile is_space rest)"

definition clean_word :: "string \<Rightarrow> string" where
  "clean_word s = to_lower (if \<not> is_alnum (last s) then butlast s else s)"

text \<open>The loop of \<open>process\<close>; \<open>s[s.length()-1]\<close> of an empty string is undefined.\<close>

function word_loop :: "(string \<Rightarrow> 's \<Rightarrow> (bool \<times> 's) res) \<Rightarrow> string \<Rightarrow> 's \<Rightarrow> (bool \<times> 's) res" where
  "word_loop word input st =
     (if fst (read_word input) = [] then Inl (Undefined ''s[s.length()-1]'')
      else rbind (word (clean_word (fst (read_word input))) st) (\<lambda>(go, st').
        if \<not> go then Inr (False, st')
        else if snd (read_word input) = [] then Inr (True, st')
        else word_loop word (snd (read_word input)) st'))"
  by pat_completeness auto
termination
proof (relation "measure (\<lambda>(word, input, st). length input)", simp)
  fix word :: "string \<Rightarrow> 's \<Rightarrow> (bool \<times> 's) res" and input st x and go and st' :: 's
  assume "fst (read_word input) \<noteq> []"
  moreover obtain a b where ab: "read_word input = (a, b)" by fastforce
  moreover have "length a + length b \<le> length input"
    using length_break_at [of is_space "dropWhile is_space input"] ab
    by (simp add: read_word_def) (metis length_dropWhile_le)
  ultimately show "((word, snd (read_word input), st'), (word, input, st))
      \<in> measure (\<lambda>(word, input, st). length input)"
    by (cases a) auto
qed

declare word_loop.simps [simp del]

lemma word_loop_step:
  "read_word input = (w, rest) \<Longrightarrow> w \<noteq> [] \<Longrightarrow> word_loop word input st =
     rbind (word (clean_word w) st) (\<lambda>(go, st').
        if \<not> go then Inr (False, st')
        else if rest = [] then Inr (True, st') else word_loop word rest st')"
  by (subst word_loop.simps) (simp cong: if_cong)

lemma word_loop_end:
  "read_word input = ([], rest) \<Longrightarrow> word_loop word input st = Inl (Undefined ''s[s.length()-1]'')"
  by (subst word_loop.simps) simp

definition WordSplitter_process :: "(string \<Rightarrow> 's \<Rightarrow> (bool \<times> 's) res) \<Rightarrow> string \<Rightarrow> 's \<Rightarrow> (bool \<times> 's) res" where
  "WordSplitter_process word input st = word_loop word input st"

section \<open>ventwords\<close>

definition SendWord_word ::
  "('m, StringMsg) codec \<Rightarrow> (int \<Rightarrow> int) \<Rightarrow> string \<Rightarrow> 'm numbered \<Rightarrow> (bool \<times> 'm numbered) res" where
  "SendWord_word c clk s st = send_numbered c clk 0 0 s st"

text \<open>\<open>VWorker::sendAll\<close> ignores the result of \<open>process\<close>.\<close>

definition ventwords_sendAll ::
  "('m, StringMsg) codec \<Rightarrow> (int \<Rightarrow> int) \<Rightarrow> string \<Rightarrow> 'm vent_state \<Rightarrow> (int \<times> 'm vent_state) res" where
  "ventwords_sendAll c clk input vs =
     rmap (\<lambda>(_, (i, vs')). (i - 1, vs')) (WordSplitter_process (SendWord_word c clk) input (0, vs))"

text \<open>\<open>main\<close>: the exit code and the vent; \<open>file\<close> gives the text of a file that can be opened.\<close>

definition ventwords_main ::
  "json_reader \<Rightarrow> main_args \<Rightarrow> (string \<Rightarrow> socket) \<Rightarrow> (string \<Rightarrow> string option) \<Rightarrow>
   ('m, SinkMsg) codec \<Rightarrow> ('m, StringMsg) codec \<Rightarrow> (int \<Rightarrow> int) \<Rightarrow> unit res \<Rightarrow> unit res \<Rightarrow>
   (unit res \<times> bool) list \<Rightarrow> (int \<times> 'm vent_state) res" where
  "ventwords_main reader args socks file sc c clk out1 out2 env =
     (case setup_main reader args of
        None \<Rightarrow> Inr (1, Vent_init env)
      | Some (pipes, r, _) \<Rightarrow>
          rbind (JsonObject_getString r ''filename'') (\<lambda>filename.
          rbind (open_ports socks pipes vent_ports) (\<lambda>ok.
            if \<not> ok then Inr (1, Vent_init env)
            else (case file filename of
                    None \<Rightarrow> Inr (1, Vent_init env)
                  | Some text \<Rightarrow>
                      rmap (\<lambda>(ok, vs). (exit_code ok, vs))
                        (Vent_process sc (ventwords_sendAll c clk text) out1 out2 (Vent_init env))))))"

section \<open>Properties\<close>

text \<open>Words separated by white space, without any at the end.\<close>

fun spaced :: "(string \<times> string) list \<Rightarrow> string" where
  "spaced [] = []"
| "spaced ((sp, w) # ws) = sp @ w @ spaced ws"

definition good_words :: "(string \<times> string) list \<Rightarrow> bool" where
  "good_words ws \<longleftrightarrow> (\<forall>(sp, w) \<in> set ws. list_all is_space sp \<and> w \<noteq> [] \<and> (\<forall>c \<in> set w. \<not> is_space c))
     \<and> (\<forall>(sp, w) \<in> set (tl ws). sp \<noteq> [])"

lemma read_word_spaced:
  assumes "list_all is_space sp" and "w \<noteq> []" and "\<forall>c \<in> set w. \<not> is_space c"
    and "rest = [] \<or> is_space (hd rest)"
  shows "read_word (sp @ w @ rest) = (w, rest)"
proof -
  have "dropWhile is_space (sp @ w @ rest) = w @ rest"
    using assms(1,2,3) by (induction sp) (auto simp: neq_Nil_conv)
  moreover have "takeWhile (\<lambda>c. \<not> is_space c) (w @ rest) = w" "dropWhile (\<lambda>c. \<not> is_space c) (w @ rest) = rest"
    using assms(3,4) by (induction w) (cases rest; auto)+
  ultimately show ?thesis by (simp add: read_word_def break_at_def)
qed

lemma good_words_Cons:
  "good_words ((sp, w) # ws) \<Longrightarrow> list_all is_space sp \<and> w \<noteq> [] \<and> (\<forall>c \<in> set w. \<not> is_space c)
     \<and> good_words ws \<and> (ws \<noteq> [] \<longrightarrow> spaced ws \<noteq> [] \<and> is_space (hd (spaced ws)))"
  by (cases ws) (auto simp: good_words_def list_all_iff neq_Nil_conv dest: list.set_sel(2))

lemma splitter_words:
  assumes "good_words ws" and "ws \<noteq> []"
  shows "WordSplitter_process word (spaced ws) st = send_list word (map (clean_word \<circ> snd) ws) st"
  using assms unfolding WordSplitter_process_def
proof (induction ws arbitrary: st)
  case (Cons p ws)
  obtain sp w where p: "p = (sp, w)" by fastforce
  note g = good_words_Cons [OF Cons.prems(1) [unfolded p]]
  have r: "read_word (spaced (p # ws)) = (w, spaced ws)"
    unfolding p spaced.simps using g by (intro read_word_spaced) (cases ws; auto)+
  note step = word_loop_step [OF r, of word st]
  show ?case
  proof (cases "word (clean_word w) st")
    case (Inl e)
    with g step show ?thesis by (simp add: p)
  next
    case (Inr x)
    with Cons.IH g step show ?thesis
      by (cases x; cases ws) (auto simp: p)
  qed
qed simp

text \<open>
  What a word of the text is to be handed on as, with letters and digits written out: without one
  character at its end that is neither, and with each capital letter replaced by the small one.
\<close>

definition capitals :: string where "capitals = ''ABCDEFGHIJKLMNOPQRSTUVWXYZ''"
definition small_letters :: string where "small_letters = ''abcdefghijklmnopqrstuvwxyz''"
definition letters_digits :: string where "letters_digits = small_letters @ capitals @ ''0123456789''"

definition small_letter :: "char \<Rightarrow> char" where
  "small_letter c = (case map_of (zip capitals small_letters) c of Some d \<Rightarrow> d | None \<Rightarrow> c)"

definition reads_as :: "string \<Rightarrow> string \<Rightarrow> bool" where
  "reads_as w v \<longleftrightarrow> (\<exists>u p. w = u @ p \<and> v = map small_letter u
     \<and> (p = [] \<and> u \<noteq> [] \<and> last u \<in> set letters_digits \<or> (\<exists>c. p = [c] \<and> c \<notin> set letters_digits)))"

lemma map_code_letters:
  "map code letters_digits = [97..<123] @ [65..<91] @ [48..<58]" "map code capitals = [65..<91]"
  by code_simp+

lemma is_alnum_letters: "is_alnum c \<longleftrightarrow> c \<in> set letters_digits"
proof -
  have "c \<in> set letters_digits \<longleftrightarrow> code c \<in> set (map code letters_digits)" by (auto simp: code_eq_iff)
  also have "\<dots> \<longleftrightarrow> is_alnum c" unfolding map_code_letters
    by (auto simp: is_alnum_def is_digit_char_def is_upper_def simp del: upt_rec_numeral)
  finally show ?thesis by simp
qed

lemma lower_char_small: "lower_char c = small_letter c"
proof (cases "is_upper c")
  case True
  have all: "list_all (\<lambda>k. small_letter (char_of k) = char_of (k + 32)) [65..<91]" by code_simp
  have "code c \<in> set [65..<91]" using True by (auto simp: is_upper_def simp del: upt_rec_numeral)
  with all have "small_letter (char_of (code c)) = char_of (code c + 32)" unfolding list_all_iff by blast
  with True show ?thesis by (simp add: lower_char_def)
next
  case False
  have "c \<in> set capitals \<longleftrightarrow> code c \<in> set (map code capitals)" by (auto simp: code_eq_iff)
  then have "c \<notin> set capitals" unfolding map_code_letters using False by (auto simp: is_upper_def simp del: upt_rec_numeral)
  moreover have "length small_letters = length capitals" by code_simp
  ultimately have "map_of (zip capitals small_letters) c = None" by (simp add: map_of_zip_is_None)
  with False show ?thesis by (simp add: lower_char_def small_letter_def)
qed

lemma clean_word_reads: "reads_as w v \<Longrightarrow> clean_word w = v"
  by (auto simp: reads_as_def clean_word_def to_lower_def is_alnum_letters lower_char_small)

lemma clean_words_read:
  "list_all2 reads_as (map snd ws) vs \<Longrightarrow> map (clean_word \<circ> snd) ws = vs"
  by (induction ws arbitrary: vs) (auto simp: list_all2_Cons1 clean_word_reads)

lemma reads_as_word:
  "u \<noteq> [] \<Longrightarrow> last u \<in> set letters_digits \<Longrightarrow> reads_as u (map small_letter u)"
  "c \<notin> set letters_digits \<Longrightarrow> reads_as (u @ [c]) (map small_letter u)"
  unfolding reads_as_def by blast+

text \<open>
  Claim C31.  Splitting a text into words: a text of words separated by white space, with none
  after the last, is split into exactly those words, handed on in order until the receiver declines:
  each in small letters, and without one trailing character that is not a letter or digit.
\<close>

theorem WordSplitter_process_words:
  assumes "good_words ws" and "ws \<noteq> []" and "list_all2 reads_as (map snd ws) vs"
  shows "WordSplitter_process word (spaced ws) st = send_list word vs st"
  using splitter_words [OF assms(1,2)] clean_words_read [OF assms(3)] by simp

theorem WordSplitter_process_words_witness:
  "WordSplitter_process (\<lambda>w st. Inr (True, st @ [w])) ''The  quick, fox.'' [] =
     Inr (True, [''the'', ''quick'', ''fox''])"
proof -
  have good: "good_words [('''', ''The''), (''  '', ''quick,''), ('' '', ''fox.'')]" by code_simp
  have "map small_letter ''The'' = ''the''" "map small_letter ''quick'' = ''quick''" "map small_letter ''fox'' = ''fox''"
    "last ''The'' \<in> set letters_digits" "CHR '','' \<notin> set letters_digits" "CHR ''.'' \<notin> set letters_digits"
    by code_simp+
  then have "list_all2 reads_as [''The'', ''quick,'', ''fox.''] [''the'', ''quick'', ''fox'']"
    using reads_as_word(1) [of "''The''"] reads_as_word(2) [of "CHR '',''" "''quick''"] reads_as_word(2) [of "CHR ''.''" "''fox''"]
    by simp
  with WordSplitter_process_words [OF good, of "[''the'', ''quick'', ''fox'']" "\<lambda>w st. Inr (True, st @ [w])" "[]"]
  show ?thesis by simp
qed

lemma word_loop_trailing_space:
  assumes "good_words ws" and "list_all is_space tl_sp" and "tl_sp \<noteq> []"
    and "\<And>w st. \<exists>st'. word w st = Inr (True, st')"
  shows "word_loop word (spaced ws @ tl_sp) st = Inl (Undefined ''s[s.length()-1]'')"
  using assms(1)
proof (induction ws arbitrary: st)
  case Nil
  have "dropWhile is_space tl_sp = []" using assms(2) by (simp add: list_all_iff)
  then have "read_word (spaced [] @ tl_sp) = ([], [])" unfolding read_word_def spaced.simps append_Nil
    by (simp only: break_at_def takeWhile.simps dropWhile.simps)
  then show ?case by (rule word_loop_end)
next
  case (Cons p ws)
  obtain sp w where p: "p = (sp, w)" by fastforce
  note g = good_words_Cons [OF Cons.prems [unfolded p]]
  have "spaced ws @ tl_sp \<noteq> [] \<and> is_space (hd (spaced ws @ tl_sp))"
    using g assms(2,3) by (cases ws; cases tl_sp) auto
  then have r: "read_word (spaced (p # ws) @ tl_sp) = (w, spaced ws @ tl_sp)"
    unfolding p spaced.simps append_assoc using g by (intro read_word_spaced) auto
  obtain st' where st': "word (clean_word w) st = Inr (True, st')" using assms(4) by blast
  have w: "w \<noteq> []" using g by blast
  show ?case
    using word_loop_step [OF r w, of word st] st' Cons.IH g assms(3) by simp
qed

text \<open>
  White space at the end: on a text that ends in white space, as a file with a final
  newline does, the splitter hands on the words and then reads the character before an empty
  string, unless the receiver declined before.
\<close>

theorem WordSplitter_trailing_space_undefined:
  assumes "good_words ws" and "list_all is_space tl_sp" and "tl_sp \<noteq> []"
  shows "WordSplitter_process (\<lambda>w st. Inr (True, st @ [w])) (spaced ws @ tl_sp) st
    = Inl (Undefined ''s[s.length()-1]'')"
  unfolding WordSplitter_process_def by (rule word_loop_trailing_space [OF assms]) simp

theorem WordSplitter_trailing_space_undefined_witness:
  "WordSplitter_process (\<lambda>w st. Inr (True, st @ [w])) (''hello'' @ nl) [] = Inl (Undefined ''s[s.length()-1]'')"
  using WordSplitter_trailing_space_undefined [of "[('''', ''hello'')]" nl "[]"]
  by (simp add: good_words_def is_space_def nl_def)

lemma ventwords_sends:
  assumes "good_words ws" and "ws \<noteq> []" and "vent_ready (length ws) vs" and "int (length ws) \<le> 2147483647"
  shows "\<exists>vs'. ventwords_sendAll c clk (spaced ws) vs = Inr (int (length ws) - 1, vs')
    \<and> vs_sender vs' = vs_sender vs @ numbered_msgs c clk 0 (map (clean_word \<circ> snd) ws)
    \<and> vs_sink vs' = vs_sink vs"
proof -
  have "SendWord_word c clk = send_numbered c clk 0 0"
    by (intro ext) (simp add: SendWord_word_def)
  moreover have "throttle_ok 0 0" by (simp add: throttle_ok_def)
  ultimately show ?thesis
    using send_numbered_all [of 0 0 "map (clean_word \<circ> snd) ws" 0 vs c clk] assms
    by (auto simp: ventwords_sendAll_def splitter_words numbered_ready_def)
qed

text \<open>
  What \<open>ventwords\<close> sends: the words of the text as string messages numbered from 0
  in order, and the last id it reports is the number of words less one, so that the ids
  announced to the sink are exactly those of the messages.
\<close>

theorem ventwords_sendAll_numbers:
  assumes "good_words ws" and "ws \<noteq> []" and "vent_ready (length ws) vs" and "int (length ws) \<le> 2147483647"
  shows "\<exists>vs'. ventwords_sendAll c clk (spaced ws) vs = Inr (int (length ws) - 1, vs')
    \<and> vs_sender vs' = vs_sender vs @ numbered_msgs c clk 0 (map (clean_word \<circ> snd) ws)
    \<and> vs_sink vs' = vs_sink vs"
  by (rule ventwords_sends [OF assms])

theorem ventwords_sendAll_numbers_witness:
  "\<exists>vs'. ventwords_sendAll plain_codec (\<lambda>_. 7) ''a dog.'' (Vent_init []) = Inr (1, vs')
    \<and> vs_sender vs' = [(0, 7, ''a''), (1, 7, ''dog'')]"
proof -
  have "good_words [('''', ''a''), ('' '', ''dog.'')]" by code_simp
  moreover have "clean_word ''a'' = ''a''" "clean_word ''dog.'' = ''dog''" by code_simp+
  ultimately show ?thesis
    using ventwords_sendAll_numbers [of "[('''', ''a''), ('' '', ''dog.'')]" "Vent_init []" plain_codec "\<lambda>_. 7"]
    by (auto simp: vent_ready_def Vent_init_def Msg_set_def DataMsg_make_def)
qed

end
