(* ===== verification/Xml.thy ===== *)
theory Xml
  imports Words
begin

text \<open>
  \<open>vent/XmlParser.cpp\<close>, \<open>vent/XPathSplitter.cpp\<close> and \<open>vent/ventxml.cpp\<close>: an XML text cut
  into the elements at a path, each sent as a numbered message.

  The parser is a state machine over characters that calls an \<open>IXmlElement\<close>; here it is a step
  function driven by \<open>run\<close>, and the element is a function on the calls.
\<close>

section \<open>XmlParser\<close>

datatype xml_call =
    Pi string
  | StartTag string
  | Attr string
  | EndAttr
  | EndTag string
  | Content string

text \<open>An \<open>IXmlElement\<close> with a state; each call returns whether to go on.\<close>

type_synonym 'e IXmlElement = "xml_call \<Rightarrow> 'e \<Rightarrow> (bool \<times> 'e) res"

datatype xml_mode = START | INPI | INTAG | INATTR

record 'e xml_state =
  xs_mode :: xml_mode
  xs_s :: string
  xs_elem :: 'e

type_synonym 'e xml_outcome = "('e xml_state, (bool \<times> 'e) res) outcome"

text \<open>\<open>if (!elem->call(..)) return false;\<close> for each call of a list, and then go on in \<open>k\<close>.\<close>

definition call_all :: "'e IXmlElement \<Rightarrow> xml_call list \<Rightarrow> ('e \<Rightarrow> 'e xml_state) \<Rightarrow> 'e \<Rightarrow> 'e xml_outcome" where
  "call_all elem calls k e =
     (case send_list elem calls e of
        Inl ex \<Rightarrow> Stop (Inl ex)
      | Inr (True, e') \<Rightarrow> Continue (k e')
      | Inr (False, e') \<Rightarrow> Stop (Inr (False, e')))"

definition xml_less :: "'e IXmlElement \<Rightarrow> 'e xml_state \<Rightarrow> 'e xml_outcome" where
  "xml_less elem st =
     (case xs_mode st of
        START \<Rightarrow> call_all elem (if xs_s st \<noteq> [] then [Content (xs_s st)] else [])
                   (\<lambda>e. \<lparr>xs_mode = INTAG, xs_s = [], xs_elem = e\<rparr>) (xs_elem st)
      | _ \<Rightarrow> Continue st)"

definition xml_space :: "'e IXmlElement \<Rightarrow> 'e xml_state \<Rightarrow> 'e xml_outcome" where
  "xml_space elem st =
     (case xs_mode st of
        INATTR \<Rightarrow> call_all elem [Attr (xs_s st)] (\<lambda>e. \<lparr>xs_mode = INATTR, xs_s = [], xs_elem = e\<rparr>) (xs_elem st)
      | INTAG \<Rightarrow> call_all elem [StartTag (xs_s st)] (\<lambda>e. \<lparr>xs_mode = INATTR, xs_s = [], xs_elem = e\<rparr>) (xs_elem st)
      | _ \<Rightarrow> Continue (st\<lparr>xs_s := xs_s st @ [CHR '' '']\<rparr>))"

definition xml_greater :: "'e IXmlElement \<Rightarrow> 'e xml_state \<Rightarrow> 'e xml_outcome" where
  "xml_greater elem st =
     (let back = (\<lambda>e. \<lparr>xs_mode = START, xs_s = [], xs_elem = e\<rparr>) in
      case xs_mode st of
        START \<Rightarrow> Stop (Inr (False, xs_elem st))
      | INATTR \<Rightarrow> call_all elem [Attr (xs_s st), EndAttr] back (xs_elem st)
      | INTAG \<Rightarrow>
          if xs_s st \<noteq> [] \<and> hd (xs_s st) = CHR ''/''
          then call_all elem [EndTag (tl (xs_s st))] back (xs_elem st)
          else call_all elem [StartTag (xs_s st), EndAttr] back (xs_elem st)
      | INPI \<Rightarrow> call_all elem [Pi (xs_s st)] back (xs_elem st))"

definition xml_step :: "'e IXmlElement \<Rightarrow> 'e xml_state \<Rightarrow> char \<Rightarrow> 'e xml_outcome" where
  "xml_step elem st c =
     (if c = CHR ''<'' then xml_less elem st
      else if c = CHR ''?'' then
        (if xs_mode st = INTAG then Continue (st\<lparr>xs_mode := INPI\<rparr>)
         else Continue (st\<lparr>xs_s := xs_s st @ [c]\<rparr>))
      else if c = CHR '' '' then xml_space elem st
      else if c = CHR ''>'' then xml_greater elem st
      else Continue (st\<lparr>xs_s := xs_s st @ [c]\<rparr>))"

text \<open>The stream is at its end only after a read past it, which gives the character 255.\<close>

definition XmlParser_process :: "'e IXmlElement \<Rightarrow> string \<Rightarrow> 'e \<Rightarrow> (bool \<times> 'e) res" where
  "XmlParser_process elem input e =
     (case fst (run (xml_step elem) \<lparr>xs_mode = START, xs_s = [], xs_elem = e\<rparr> (input @ [CHR 0xFF])) of
        Continue st \<Rightarrow> Inr (True, xs_elem st)
      | Stop r \<Rightarrow> r)"

section \<open>XPathSplitter\<close>

record 's xpath_elem =
  xe_stack :: "string list"
  xe_spos :: nat
  xe_chunk :: string
  xe_inner :: 's

definition XPathSplitterElem_init :: "string \<Rightarrow> 's \<Rightarrow> 's xpath_elem" where
  "XPathSplitterElem_init xpath s =
     \<lparr>xe_stack = split_on (CHR ''/'') xpath, xe_spos = 0, xe_chunk = [], xe_inner = s\<rparr>"

definition XPathSplitterElem_startTag :: "string \<Rightarrow> 's xpath_elem \<Rightarrow> (bool \<times> 's xpath_elem) res" where
  "XPathSplitterElem_startTag s x =
     (let x1 = (if xe_spos x < length (xe_stack x) \<and> s = xe_stack x ! xe_spos x
                then x\<lparr>xe_spos := xe_spos x + 1, xe_chunk := []\<rparr> else x)
      in Inr (True, x1\<lparr>xe_chunk := xe_chunk x1 @ ''<'' @ s\<rparr>))"

definition XPathSplitterElem_attr :: "string \<Rightarrow> 's xpath_elem \<Rightarrow> (bool \<times> 's xpath_elem) res" where
  "XPathSplitterElem_attr s x = Inr (True, x\<lparr>xe_chunk := xe_chunk x @ '' '' @ s\<rparr>)"

definition XPathSplitterElem_endAttr :: "'s xpath_elem \<Rightarrow> (bool \<times> 's xpath_elem) res" where
  "XPathSplitterElem_endAttr x = Inr (True, x\<lparr>xe_chunk := xe_chunk x @ ''>''\<rparr>)"

definition XPathSplitterElem_endTag ::
  "(string \<Rightarrow> 's \<Rightarrow> (bool \<times> 's) res) \<Rightarrow> string \<Rightarrow> 's xpath_elem \<Rightarrow> (bool \<times> 's xpath_elem) res" where
  "XPathSplitterElem_endTag ch s x =
     (let x1 = x\<lparr>xe_chunk := xe_chunk x @ ''</'' @ s @ ''>''\<rparr> in
      if xe_spos x1 > 0 \<and> s = xe_stack x1 ! (xe_spos x1 - 1)
      then rbind (if xe_spos x1 = length (xe_stack x1) then ch (xe_chunk x1) (xe_inner x1)
                  else Inr (True, xe_inner x1))
             (\<lambda>(go, s'). if \<not> go then Inr (False, x1\<lparr>xe_inner := s'\<rparr>)
                         else Inr (True, x1\<lparr>xe_inner := s', xe_spos := xe_spos x1 - 1\<rparr>))
      else Inr (True, x1))"

definition XPathSplitterElem_content :: "string \<Rightarrow> 's xpath_elem \<Rightarrow> (bool \<times> 's xpath_elem) res" where
  "XPathSplitterElem_content s x = Inr (True, x\<lparr>xe_chunk := xe_chunk x @ s\<rparr>)"

fun XPathSplitterElem :: "(string \<Rightarrow> 's \<Rightarrow> (bool \<times> 's) res) \<Rightarrow> 's xpath_elem IXmlElement" where
  "XPathSplitterElem ch (Pi s) x = Inr (True, x)"
| "XPathSplitterElem ch (StartTag s) x = XPathSplitterElem_startTag s x"
| "XPathSplitterElem ch (Attr s) x = XPathSplitterElem_attr s x"
| "XPathSplitterElem ch EndAttr x = XPathSplitterElem_endAttr x"
| "XPathSplitterElem ch (EndTag s) x = XPathSplitterElem_endTag ch s x"
| "XPathSplitterElem ch (Content s) x = XPathSplitterElem_content s x"

definition XPathSplitter_process ::
  "(string \<Rightarrow> 's \<Rightarrow> (bool \<times> 's) res) \<Rightarrow> string \<Rightarrow> string \<Rightarrow> 's \<Rightarrow> (bool \<times> 's) res" where
  "XPathSplitter_process ch xpath input s =
     rmap (\<lambda>(ok, x). (ok, xe_inner x))
       (XmlParser_process (XPathSplitterElem ch) input (XPathSplitterElem_init xpath s))"

section \<open>ventxml\<close>

definition SendChunk_chunk ::
  "('m, StringMsg) codec \<Rightarrow> (int \<Rightarrow> int) \<Rightarrow> int \<Rightarrow> int \<Rightarrow> string \<Rightarrow> 'm numbered \<Rightarrow> (bool \<times> 'm numbered) res" where
  "SendChunk_chunk c clk sleeptime sleepevery s st = send_numbered c clk sleeptime sleepevery s st"

definition ventxml_sendAll ::
  "('m, StringMsg) codec \<Rightarrow> (int \<Rightarrow> int) \<Rightarrow> string \<Rightarrow> int \<Rightarrow> int \<Rightarrow> string \<Rightarrow> 'm vent_state \<Rightarrow>
   (int \<times> 'm vent_state) res" where
  "ventxml_sendAll c clk xpath sleeptime sleepevery input vs =
     rmap (\<lambda>(ok, (i, vs')). (if \<not> ok then 0 else i - 1, vs'))
       (XPathSplitter_process (SendChunk_chunk c clk sleeptime sleepevery) xpath input (0, vs))"

definition ventxml_doWork ::
  "(string \<Rightarrow> socket) \<Rightarrow> ('m, SinkMsg) codec \<Rightarrow> ('m, StringMsg) codec \<Rightarrow> (int \<Rightarrow> int) \<Rightarrow> unit res \<Rightarrow> unit res \<Rightarrow>
   JsonObject \<Rightarrow> JsonObject \<Rightarrow> string \<Rightarrow> 'm vent_state \<Rightarrow> (int \<times> 'm vent_state) res" where
  "ventxml_doWork socks sc c clk out1 out2 pipes r text vs =
     rbind (open_ports socks pipes vent_ports) (\<lambda>ok.
       if \<not> ok then Inr (1, vs)
       else rbind (JsonObject_getInt r ''sleep'' 0) (\<lambda>sleeptime.
            rbind (JsonObject_getInt r ''every'' 0) (\<lambda>sleepevery.
            rbind (JsonObject_getString r ''xpath'') (\<lambda>xpath.
            rmap (\<lambda>(ok, vs'). (exit_code ok, vs'))
              (Vent_process sc (ventxml_sendAll c clk xpath sleeptime sleepevery text) out1 out2 vs)))))"

text \<open>\<open>main\<close>: a name with \<open>.gz\<close> in it (not at the front) is read through the decompressor
  \<open>gunzip\<close>.\<close>

definition ventxml_main ::
  "json_reader \<Rightarrow> main_args \<Rightarrow> (string \<Rightarrow> socket) \<Rightarrow> (string \<Rightarrow> string option) \<Rightarrow> (string \<Rightarrow> string) \<Rightarrow>
   ('m, SinkMsg) codec \<Rightarrow> ('m, StringMsg) codec \<Rightarrow> (int \<Rightarrow> int) \<Rightarrow> unit res \<Rightarrow> unit res \<Rightarrow>
   (unit res \<times> bool) list \<Rightarrow> (int \<times> 'm vent_state) res" where
  "ventxml_main reader args socks file gunzip sc c clk out1 out2 env =
     (case setup_main reader args of
        None \<Rightarrow> Inr (1, Vent_init env)
      | Some (pipes, r, _) \<Rightarrow>
          rbind (JsonObject_getString r ''filename'') (\<lambda>filename.
            case file filename of
              None \<Rightarrow> Inr (1, Vent_init env)
            | Some text \<Rightarrow>
                ventxml_doWork socks sc c clk out1 out2 pipes r
                  (if sublist ''.gz'' filename \<and> \<not> prefix ''.gz'' filename then gunzip text else text)
                  (Vent_init env)))"

section \<open>Parsing what is printed\<close>

datatype xml_tag = Open string "string list" | Close string

fun tag_text :: "xml_tag \<Rightarrow> string" where
  "tag_text (Open n as) = ''<'' @ n @ concat (map (\<lambda>a. CHR '' '' # a) as) @ ''>''"
| "tag_text (Close n) = ''</'' @ n @ ''>''"

fun tag_calls :: "xml_tag \<Rightarrow> xml_call list" where
  "tag_calls (Open n as) = StartTag n # map Attr as @ [EndAttr]"
| "tag_calls (Close n) = [EndTag n]"

text \<open>A document: text in front of each tag.\<close>

type_synonym xml_doc = "(string \<times> xml_tag) list"

definition doc_text :: "xml_doc \<Rightarrow> string" where
  "doc_text d = concat (map (\<lambda>(t, tag). t @ tag_text tag) d)"

definition doc_calls :: "xml_doc \<Rightarrow> xml_call list" where
  "doc_calls d = concat (map (\<lambda>(t, tag). (if t \<noteq> [] then [Content t] else []) @ tag_calls tag) d)"

definition plain_text :: "string \<Rightarrow> bool" where
  "plain_text s \<longleftrightarrow> CHR ''<'' \<notin> set s \<and> CHR ''>'' \<notin> set s"

definition plain_name :: "string \<Rightarrow> bool" where
  "plain_name s \<longleftrightarrow> plain_text s \<and> CHR ''?'' \<notin> set s \<and> CHR '' '' \<notin> set s"

fun tag_ok :: "xml_tag \<Rightarrow> bool" where
  "tag_ok (Open n as) \<longleftrightarrow> plain_name n \<and> n \<noteq> [] \<and> hd n \<noteq> CHR ''/''
     \<and> (\<forall>a \<in> set as. plain_text a \<and> CHR '' '' \<notin> set a)"
| "tag_ok (Close n) \<longleftrightarrow> plain_name n"

definition doc_ok :: "xml_doc \<Rightarrow> bool" where
  "doc_ok d \<longleftrightarrow> (\<forall>(t, tag) \<in> set d. plain_text t \<and> tag_ok tag)"

text \<open>Reading characters that only extend the buffer.\<close>

lemma run_plain:
  assumes "\<forall>c \<in> set s. c \<noteq> CHR ''<'' \<and> c \<noteq> CHR ''>''"
    and "xs_mode st = INTAG \<Longrightarrow> CHR ''?'' \<notin> set s"
    and "xs_mode st = INTAG \<or> xs_mode st = INATTR \<Longrightarrow> CHR '' '' \<notin> set s"
  shows "run (xml_step elem) st (s @ rest) = run (xml_step elem) (st\<lparr>xs_s := xs_s st @ s\<rparr>) rest"
  using assms
proof (induction s arbitrary: st)
  case (Cons c s)
  have "xml_step elem st c = Continue (st\<lparr>xs_s := xs_s st @ [c]\<rparr>)"
    using Cons.prems by (cases "xs_mode st") (auto simp: xml_step_def xml_space_def)
  with Cons.IH [of "st\<lparr>xs_s := xs_s st @ [c]\<rparr>"] Cons.prems show ?case by simp
qed simp

lemma send_list_append:
  "send_list f (xs @ ys) s = rbind (send_list f xs s) (\<lambda>(go, s'). if go then send_list f ys s' else Inr (False, s'))"
proof (induction xs arbitrary: s)
  case (Cons x xs)
  then show ?case
    by (cases "f x s") (auto split: prod.split)
qed simp

text \<open>What the parser does once a list of calls is due: the calls, then \<open>f\<close> on the element's state.\<close>

definition after_calls ::
  "'e IXmlElement \<Rightarrow> xml_call list \<Rightarrow> 'e \<Rightarrow> ('e \<Rightarrow> 'e xml_outcome) \<Rightarrow> 'e xml_outcome" where
  "after_calls elem calls e f =
     (case send_list elem calls e of
        Inl ex \<Rightarrow> Stop (Inl ex)
      | Inr (go, e') \<Rightarrow> if go then f e' else Stop (Inr (False, e')))"

lemma after_calls_Nil [simp]: "after_calls elem [] e f = f e"
  by (simp add: after_calls_def)

lemma after_calls_append:
  "after_calls elem (as @ bs) e f = after_calls elem as e (\<lambda>e'. after_calls elem bs e' f)"
  by (auto simp: after_calls_def send_list_append split: sum.split)

lemma call_all_after: "call_all elem calls k e = after_calls elem calls e (\<lambda>e'. Continue (k e'))"
  by (auto simp: after_calls_def call_all_def split: sum.split bool.split)

lemma after_calls_bind:
  "(case after_calls elem calls e f of Continue st \<Rightarrow> g st | Stop r \<Rightarrow> Stop r) =
   after_calls elem calls e (\<lambda>e'. case f e' of Continue st \<Rightarrow> g st | Stop r \<Rightarrow> Stop r)"
  by (auto simp: after_calls_def split: sum.split)

lemma fst_run_Cons:
  "fst (run step s (x # xs)) = (case step s x of Continue s' \<Rightarrow> fst (run step s' xs) | Stop r \<Rightarrow> Stop r)"
  by (simp split: outcome.split)

lemma xml_step_chars:
  "xml_step elem st (CHR ''<'') = xml_less elem st"
  "xml_step elem st (CHR '' '') = xml_space elem st"
  "xml_step elem st (CHR ''>'') = xml_greater elem st"
  by (simp_all add: xml_step_def)

lemmas xml_markup = fst_run_Cons xml_step_chars xml_less_def xml_space_def xml_greater_def
  call_all_after after_calls_bind

abbreviation "xml_at m s e \<equiv> \<lparr>xs_mode = m, xs_s = s, xs_elem = e\<rparr>"

abbreviation "xml_run elem m s e input \<equiv> fst (run (xml_step elem) (xml_at m s e) input)"

lemma xml_run_plain:
  assumes "\<forall>c \<in> set s. c \<noteq> CHR ''<'' \<and> c \<noteq> CHR ''>''"
    and "m = INTAG \<Longrightarrow> CHR ''?'' \<notin> set s"
    and "m = INTAG \<or> m = INATTR \<Longrightarrow> CHR '' '' \<notin> set s"
  shows "xml_run elem m [] e (s @ rest) = xml_run elem m s e rest"
  using run_plain [of s "xml_at m [] e" elem rest] assms by simp

lemma run_attrs:
  assumes "\<forall>a \<in> set (a # as). plain_text a \<and> CHR '' '' \<notin> set a"
  shows "xml_run elem INATTR [] e (a @ concat (map (\<lambda>a. CHR '' '' # a) as) @ CHR ''>'' # rest) =
    after_calls elem (map Attr (a # as) @ [EndAttr]) e (\<lambda>e'. xml_run elem START [] e' rest)"
  using assms
proof (induction as arbitrary: a e)
  case Nil
  then have "xml_run elem INATTR [] e (a @ CHR ''>'' # rest) = xml_run elem INATTR a e (CHR ''>'' # rest)"
    by (intro xml_run_plain) (auto simp: plain_text_def)
  then show ?case by (simp add: xml_markup del: run.simps)
next
  case (Cons b as)
  let ?more = "b @ concat (map (\<lambda>a. CHR '' '' # a) as) @ CHR ''>'' # rest"
  have IH: "xml_run elem INATTR [] e' ?more =
      after_calls elem (map Attr (b # as) @ [EndAttr]) e' (\<lambda>e'. xml_run elem START [] e' rest)" for e'
    using Cons by simp
  have "xml_run elem INATTR [] e (a @ CHR '' '' # ?more) = xml_run elem INATTR a e (CHR '' '' # ?more)"
    using Cons.prems by (intro xml_run_plain) (auto simp: plain_text_def)
  also have "\<dots> = after_calls elem [Attr a] e (\<lambda>e'. xml_run elem INATTR [] e' ?more)"
    by (simp add: xml_markup del: run.simps)
  also have "\<dots> = after_calls elem ([Attr a] @ map Attr (b # as) @ [EndAttr]) e
      (\<lambda>e'. xml_run elem START [] e' rest)"
    by (simp only: IH after_calls_append)
  finally show ?case by simp
qed

lemma run_tag_inner:
  assumes "tag_ok tag"
  shows "xml_run elem INTAG [] e (tl (tag_text tag) @ rest) =
      after_calls elem (tag_calls tag) e (\<lambda>e'. xml_run elem START [] e' rest)"
proof (cases tag)
  case (Open n as)
  have n: "plain_name n" "n \<noteq> []" "hd n \<noteq> CHR ''/''" using assms Open by auto
  have name: "xml_run elem INTAG [] e (n @ xs) = xml_run elem INTAG n e xs" for xs
    using n(1) by (intro xml_run_plain) (auto simp: plain_name_def plain_text_def)
  show ?thesis
  proof (cases as)
    case Nil
    with Open n show ?thesis by (simp add: name xml_markup del: run.simps)
  next
    case (Cons a as')
    let ?more = "a @ concat (map (\<lambda>a. CHR '' '' # a) as') @ CHR ''>'' # rest"
    have attrs: "xml_run elem INATTR [] e' ?more =
        after_calls elem (map Attr (a # as') @ [EndAttr]) e' (\<lambda>e'. xml_run elem START [] e' rest)" for e'
      using assms Open Cons by (intro run_attrs) simp
    have "xml_run elem INTAG n e (CHR '' '' # ?more) =
        after_calls elem [StartTag n] e (\<lambda>e'. xml_run elem INATTR [] e' ?more)"
      by (simp add: xml_markup del: run.simps)
    also have "\<dots> = after_calls elem ([StartTag n] @ map Attr (a # as') @ [EndAttr]) e
        (\<lambda>e'. xml_run elem START [] e' rest)"
      by (simp only: attrs after_calls_append)
    finally show ?thesis by (simp add: Open Cons name)
  qed
next
  case (Close n)
  then have n: "plain_name n" using assms by auto
  have "xml_run elem INTAG [] e ((CHR ''/'' # n) @ xs) = xml_run elem INTAG (CHR ''/'' # n) e xs" for xs
    using n by (intro xml_run_plain) (auto simp: plain_name_def plain_text_def)
  with Close show ?thesis by (simp add: xml_markup del: run.simps)
qed

lemma run_tag:
  assumes "plain_text t" and "tag_ok tag"
  shows "xml_run elem START [] e (t @ tag_text tag @ rest) =
    after_calls elem ((if t \<noteq> [] then [Content t] else []) @ tag_calls tag) e
      (\<lambda>e'. xml_run elem START [] e' rest)"
proof -
  let ?more = "tl (tag_text tag) @ rest"
  have tag: "tag_text tag @ rest = CHR ''<'' # ?more" by (cases tag) auto
  have "xml_run elem START [] e (t @ CHR ''<'' # ?more) = xml_run elem START t e (CHR ''<'' # ?more)"
    using assms(1) by (intro xml_run_plain) (auto simp: plain_text_def)
  also have "\<dots> = after_calls elem (if t \<noteq> [] then [Content t] else []) e
      (\<lambda>e'. xml_run elem INTAG [] e' ?more)"
    by (simp add: xml_markup del: run.simps)
  finally show ?thesis
    by (simp only: tag run_tag_inner [OF assms(2)] after_calls_append)
qed

lemma run_doc:
  assumes "doc_ok d"
  shows "xml_run elem START [] e (doc_text d @ rest) =
    after_calls elem (doc_calls d) e (\<lambda>e'. xml_run elem START [] e' rest)"
  using assms
proof (induction d arbitrary: e)
  case Nil
  then show ?case by (simp add: doc_text_def doc_calls_def)
next
  case (Cons p d)
  obtain t tag where p: "p = (t, tag)" by fastforce
  have ok: "plain_text t" "tag_ok tag" "doc_ok d" using Cons.prems by (auto simp: doc_ok_def p)
  have 1: "doc_text (p # d) @ rest = t @ tag_text tag @ (doc_text d @ rest)"
    by (simp add: doc_text_def p)
  have 2: "doc_calls (p # d) = ((if t \<noteq> [] then [Content t] else []) @ tag_calls tag) @ doc_calls d"
    by (simp add: doc_calls_def p)
  show ?case
    by (simp only: 1 2 run_tag [OF ok(1,2)] after_calls_append [of _ "_ @ _"] Cons.IH [OF ok(3)])
qed

text \<open>
  Claim C25.  Parsing what is printed: on the text of a document (start tags with attributes, end
  tags, and text in front of each), followed by text without markup, the parser makes exactly
  the calls of the document in order, stops as soon as one declines or throws, and otherwise
  returns true; the character it reads at the end of the stream has no effect.
\<close>

theorem XmlParser_process_document:
  assumes "doc_ok d" and "plain_text trailing"
  shows "XmlParser_process elem (doc_text d @ trailing) e = send_list elem (doc_calls d) e"
proof -
  have "\<forall>c \<in> set (trailing @ [CHR 0xFF]). c \<noteq> CHR ''<'' \<and> c \<noteq> CHR ''>''"
    using assms(2) by (auto simp: plain_text_def)
  then have "xml_run elem START [] e' ((trailing @ [CHR 0xFF]) @ []) = xml_run elem START (trailing @ [CHR 0xFF]) e' []" for e'
    by (intro xml_run_plain) auto
  then have "xml_run elem START [] e' (trailing @ [CHR 0xFF]) = Continue (xml_at START (trailing @ [CHR 0xFF]) e')" for e'
    by simp
  then show ?thesis
    using run_doc [OF assms(1), of elem e "trailing @ [CHR 0xFF]"]
    by (auto simp: XmlParser_process_def after_calls_def split: sum.split)
qed

theorem XmlParser_process_document_witness:
  "XmlParser_process (\<lambda>c cs. Inr (True, cs @ [c])) ''hi <a x=1>b</a> '' [] =
     Inr (True, [Content ''hi '', StartTag ''a'', Attr ''x=1'', EndAttr, Content ''b'', EndTag ''a''])"
proof -
  have "doc_ok [(''hi '', Open ''a'' [''x=1'']), (''b'', Close ''a'')]" by code_simp
  from XmlParser_process_document [OF this, of "'' ''" "\<lambda>c cs. Inr (True, cs @ [c])" "[]"]
  show ?thesis by (simp add: plain_text_def doc_text_def doc_calls_def)
qed

section \<open>Splitting at a path\<close>

text \<open>A record: an element \<open>p\<close> with attributes whose content has no end tag \<open>p\<close>, and text in
  front that is not part of it.\<close>

type_synonym xml_record = "string \<times> string list \<times> xml_doc \<times> string"

definition record_doc :: "string \<Rightarrow> xml_record \<Rightarrow> xml_doc" where
  "record_doc p r = (case r of (before, as, inner, after) \<Rightarrow> (before, Open p as) # inner @ [(after, Close p)])"

definition record_text :: "string \<Rightarrow> xml_record \<Rightarrow> string" where
  "record_text p r = (case r of (before, as, inner, after) \<Rightarrow> doc_text (([], Open p as) # inner @ [(after, Close p)]))"

definition record_ok :: "string \<Rightarrow> xml_record \<Rightarrow> bool" where
  "record_ok p r \<longleftrightarrow> doc_ok (record_doc p r) \<and> (case r of (_, _, inner, _) \<Rightarrow> \<forall>(_, tag) \<in> set inner. tag \<noteq> Close p)"

lemma send_list_True:
  "send_list f xs s = Inr (True, s1) \<Longrightarrow> send_list f (xs @ ys) s = send_list f ys s1"
  by (simp add: send_list_append)

text \<open>Inside the element the calls rebuild its text.\<close>

lemma splitter_attrs:
  "send_list (XPathSplitterElem ch) (map Attr as) x =
     Inr (True, x\<lparr>xe_chunk := xe_chunk x @ concat (map (\<lambda>a. CHR '' '' # a) as)\<rparr>)"
  by (induction as arbitrary: x) (simp_all add: XPathSplitterElem_attr_def)

lemma splitter_inner:
  assumes "xe_spos x = length (xe_stack x)" and "xe_stack x \<noteq> []"
    and "\<forall>(_, tag) \<in> set inner. tag \<noteq> Close (last (xe_stack x))"
  shows "send_list (XPathSplitterElem ch) (doc_calls inner) x =
    Inr (True, x\<lparr>xe_chunk := xe_chunk x @ doc_text inner\<rparr>)"
  using assms
proof (induction inner arbitrary: x)
  case Nil
  then show ?case by (simp add: doc_calls_def doc_text_def)
next
  case (Cons q inner)
  obtain t tag where q: "q = (t, tag)" by fastforce
  let ?y = "x\<lparr>xe_chunk := xe_chunk x @ t\<rparr>"
  let ?z = "x\<lparr>xe_chunk := xe_chunk x @ t @ tag_text tag\<rparr>"
  have 1: "send_list (XPathSplitterElem ch) (if t \<noteq> [] then [Content t] else []) x = Inr (True, ?y)"
    by (simp add: XPathSplitterElem_content_def)
  have 2: "send_list (XPathSplitterElem ch) (tag_calls tag) ?y = Inr (True, ?z)"
  proof (cases tag)
    case (Open n as)
    then show ?thesis
      using Cons.prems
      by (simp add: XPathSplitterElem_startTag_def send_list_True [OF splitter_attrs] XPathSplitterElem_endAttr_def)
  next
    case (Close n)
    with Cons.prems have "n \<noteq> xe_stack x ! (xe_spos x - 1)" by (auto simp: q last_conv_nth)
    with Close show ?thesis by (simp add: XPathSplitterElem_endTag_def Let_def)
  qed
  have calls: "doc_calls (q # inner) = (if t \<noteq> [] then [Content t] else []) @ tag_calls tag @ doc_calls inner"
    by (simp add: doc_calls_def q)
  have str: "doc_text (q # inner) = t @ tag_text tag @ doc_text inner" by (simp add: doc_text_def q)
  show ?case
    using Cons.IH [of ?z] Cons.prems
    by (simp only: calls send_list_True [OF 1] send_list_True [OF 2] str) simp
qed

text \<open>One record, with the path open down to its parent: its text goes to the receiver.\<close>

lemma splitter_record:
  assumes "record_ok p r" and "xe_stack x = ps @ [p]" and "xe_spos x = length ps"
  shows "\<exists>chunk. send_list (XPathSplitterElem ch) (doc_calls (record_doc p r)) x =
    rmap (\<lambda>(go, s'). (go, x\<lparr>xe_chunk := chunk, xe_inner := s', xe_spos := length ps + (if go then 0 else 1)\<rparr>))
      (ch (record_text p r) (xe_inner x))"
proof -
  obtain before as inner after where r: "r = (before, as, inner, after)" by (metis prod_cases4)
  let ?elem = "XPathSplitterElem ch"
  let ?open = "''<'' @ p @ concat (map (\<lambda>a. CHR '' '' # a) as) @ ''>''"
  let ?x1 = "x\<lparr>xe_spos := Suc (length ps), xe_chunk := ?open\<rparr>"
  let ?x2 = "?x1\<lparr>xe_chunk := ?open @ doc_text inner\<rparr>"
  let ?x3 = "?x1\<lparr>xe_chunk := ?open @ doc_text inner @ after\<rparr>"
  have calls: "doc_calls (record_doc p r) = ((if before \<noteq> [] then [Content before] else []) @ tag_calls (Open p as))
      @ doc_calls inner @ (if after \<noteq> [] then [Content after] else []) @ [EndTag p]"
    by (simp add: doc_calls_def record_doc_def r)
  have str: "record_text p r = ?open @ doc_text inner @ after @ ''</'' @ p @ ''>''"
    by (simp add: record_text_def r doc_text_def)
  have 0: "send_list ?elem ((if before \<noteq> [] then [Content before] else []) @ tag_calls (Open p as)) x = Inr (True, ?x1)"
    using assms(2,3)
    by (simp add: XPathSplitterElem_content_def XPathSplitterElem_startTag_def nth_append
        send_list_True [OF splitter_attrs] XPathSplitterElem_endAttr_def)
  have 1: "send_list ?elem (doc_calls inner) ?x1 = Inr (True, ?x2)"
    using assms by (subst splitter_inner) (auto simp: record_ok_def r)
  have 2: "send_list ?elem (if after \<noteq> [] then [Content after] else []) ?x2 = Inr (True, ?x3)"
    by (simp add: XPathSplitterElem_content_def)
  have 3: "send_list ?elem [EndTag p] ?x3 =
      rmap (\<lambda>(go, s'). (go, x\<lparr>xe_chunk := record_text p r, xe_inner := s', xe_spos := length ps + (if go then 0 else 1)\<rparr>))
        (ch (record_text p r) (xe_inner x))"
    using assms(2)
    by (cases "ch (record_text p r) (xe_inner x)")
      (auto simp: XPathSplitterElem_endTag_def Let_def str nth_append)
  show ?thesis
    by (simp only: calls send_list_True [OF 0] send_list_True [OF 1] send_list_True [OF 2]) (use 3 in blast)
qed

lemma doc_calls_append [simp]: "doc_calls (a @ b) = doc_calls a @ doc_calls b"
  by (simp add: doc_calls_def)

lemma doc_calls_concat: "doc_calls (concat ds) = concat (map doc_calls ds)"
  by (induction ds) (simp_all, simp add: doc_calls_def)

lemma splitter_records:
  assumes "\<forall>r \<in> set rs. record_ok p r" and "xe_stack x = ps @ [p]" and "xe_spos x = length ps"
  shows "\<exists>chunk spos. send_list (XPathSplitterElem ch) (concat (map (\<lambda>q. doc_calls (record_doc p q)) rs)) x =
    rmap (\<lambda>(go, s'). (go, x\<lparr>xe_chunk := chunk go, xe_inner := s', xe_spos := spos go\<rparr>))
      (send_list ch (map (record_text p) rs) (xe_inner x)) \<and> spos True = length ps"
  using assms
proof (induction rs arbitrary: x)
  case Nil
  have "x = x\<lparr>xe_chunk := xe_chunk x, xe_inner := xe_inner x, xe_spos := length ps\<rparr>" using Nil by simp
  then show ?case by (intro exI [of _ "\<lambda>_. xe_chunk x"] exI [of _ "\<lambda>_. length ps"]) simp
next
  case (Cons r rs)
  obtain chunk where c: "send_list (XPathSplitterElem ch) (doc_calls (record_doc p r)) x =
    rmap (\<lambda>(go, s'). (go, x\<lparr>xe_chunk := chunk, xe_inner := s', xe_spos := length ps + (if go then 0 else 1)\<rparr>))
      (ch (record_text p r) (xe_inner x))"
    using splitter_record [of p r x ps ch] Cons.prems by auto
  show ?case
  proof (cases "ch (record_text p r) (xe_inner x)")
    case (Inl e)
    with c show ?thesis
      by (auto simp: send_list_append intro!: exI [of _ "\<lambda>_. []"] exI [of _ "\<lambda>_. length ps"])
  next
    case (Inr y)
    obtain go s' where y: "y = (go, s')" by fastforce
    show ?thesis
    proof (cases go)
      case False
      with c Inr y show ?thesis
        by (auto simp: send_list_append intro!: exI [of _ "\<lambda>_. chunk"] exI [of _ "\<lambda>b. length ps + (if b then 0 else 1)"])
    next
      case True
      let ?x = "x\<lparr>xe_chunk := chunk, xe_inner := s', xe_spos := length ps\<rparr>"
      from Cons.IH [of ?x] Cons.prems obtain chunk' spos where
        "send_list (XPathSplitterElem ch) (concat (map (\<lambda>q. doc_calls (record_doc p q)) rs)) ?x =
          rmap (\<lambda>(go, s'). (go, ?x\<lparr>xe_chunk := chunk' go, xe_inner := s', xe_spos := spos go\<rparr>))
           (send_list ch (map (record_text p) rs) (xe_inner ?x))" "spos True = length ps"
        by auto
      with c Inr y True show ?thesis
        by (auto simp: send_list_append intro!: exI [of _ chunk'] exI [of _ spos])
    qed
  qed
qed

lemma splitter_sends:
  assumes "doc_ok (([], Open r as) # [(after, Close r)])" and "\<forall>q \<in> set rs. record_ok p q"
    and "CHR ''/'' \<notin> set r" and "CHR ''/'' \<notin> set p" and "r \<noteq> p"
  shows "XPathSplitter_process ch (r @ ''/'' @ p)
      (doc_text (([], Open r as) # concat (map (record_doc p) rs) @ [(after, Close r)])) s =
    send_list ch (map (record_text p) rs) s"
proof -
  let ?elem = "XPathSplitterElem ch"
  let ?doc = "([], Open r as) # concat (map (record_doc p) rs) @ [(after, Close r)]"
  let ?x0 = "XPathSplitterElem_init (r @ ''/'' @ p) s"
  have stack: "split_on (CHR ''/'') (r @ ''/'' @ p) = [r, p]"
    using split_on_append [OF assms(3), of p] split_on_no_sep [OF assms(4)] by simp
  have ok: "doc_ok ?doc" using assms(1,2) by (auto simp: doc_ok_def record_ok_def)
  have calls: "doc_calls ?doc = tag_calls (Open r as) @ concat (map (\<lambda>q. doc_calls (record_doc p q)) rs)
      @ (if after \<noteq> [] then [Content after] else []) @ [EndTag r]"
    using doc_calls_append [of "[([], Open r as)]" "concat (map (record_doc p) rs) @ [(after, Close r)]"]
    by (simp add: doc_calls_concat comp_def) (simp add: doc_calls_def)
  let ?x1 = "?x0\<lparr>xe_spos := 1, xe_chunk := ''<'' @ r @ concat (map (\<lambda>a. CHR '' '' # a) as) @ ''>''\<rparr>"
  have 1: "send_list ?elem (tag_calls (Open r as)) ?x0 = Inr (True, ?x1)"
    using stack by (simp add: XPathSplitterElem_init_def XPathSplitterElem_startTag_def
        send_list_True [OF splitter_attrs] XPathSplitterElem_endAttr_def)
  obtain chunk spos where 2: "send_list ?elem (concat (map (\<lambda>q. doc_calls (record_doc p q)) rs)) ?x1 =
      rmap (\<lambda>(go, s'). (go, ?x1\<lparr>xe_chunk := chunk go, xe_inner := s', xe_spos := spos go\<rparr>))
      (send_list ch (map (record_text p) rs) s)" "spos True = 1"
    using splitter_records [OF assms(2), of ?x1 "[r]" ch] stack by (auto simp: XPathSplitterElem_init_def)
  have "rmap (\<lambda>(ok, x). (ok, xe_inner x)) (send_list ?elem (doc_calls ?doc) ?x0) =
      send_list ch (map (record_text p) rs) s"
    unfolding calls send_list_True [OF 1]
    using 2 stack
    by (cases "send_list ch (map (record_text p) rs) s")
      (auto simp: send_list_append XPathSplitterElem_content_def XPathSplitterElem_endTag_def Let_def
        XPathSplitterElem_init_def)
  then show ?thesis
    using XmlParser_process_document [OF ok, of "[]" ?elem ?x0]
    by (simp add: XPathSplitter_process_def plain_text_def)
qed

text \<open>
  Claim C26.  Splitting at the path \<open>r/p\<close>: in a document whose root \<open>r\<close> holds a sequence of
  elements \<open>p\<close> (with anything but an end tag \<open>p\<close> inside), the receiver is given the exact text
  of each element \<open>p\<close>, attributes and markup included and in order, until it declines.
\<close>

theorem XPathSplitter_process_records:
  assumes "doc_ok (([], Open r as) # [(after, Close r)])" and "\<forall>q \<in> set rs. record_ok p q"
    and "CHR ''/'' \<notin> set r" and "CHR ''/'' \<notin> set p" and "r \<noteq> p"
  shows "XPathSplitter_process ch (r @ ''/'' @ p)
      (doc_text (([], Open r as) # concat (map (record_doc p) rs) @ [(after, Close r)])) s =
    send_list ch (map (record_text p) rs) s"
  using assms by (rule splitter_sends)


theorem XPathSplitter_process_records_witness:
  "XPathSplitter_process (\<lambda>s ss. Inr (True, ss @ [s])) ''r/p''
      ''<r> <p x=1>one <b>two</b></p><p>three</p></r>'' [] =
     Inr (True, [''<p x=1>one <b>two</b></p>'', ''<p>three</p>''])"
proof -
  let ?rs = "[('' '', [''x=1''], [(''one '', Open ''b'' []), (''two'', Close ''b'')], []),
    ([], [], [], ''three'')]"
  have ok: "doc_ok (([], Open ''r'' []) # [([], Close ''r'')])" "\<forall>q \<in> set ?rs. record_ok ''p'' q"
    by code_simp+
  have "XPathSplitter_process (\<lambda>s ss. Inr (True, ss @ [s])) (''r'' @ ''/'' @ ''p'')
      (doc_text (([], Open ''r'' []) # concat (map (record_doc ''p'') ?rs) @ [([], Close ''r'')])) [] =
    send_list (\<lambda>s ss. Inr (True, ss @ [s])) (map (record_text ''p'') ?rs) []"
    by (rule XPathSplitter_process_records [OF ok]) simp_all
  then show ?thesis by (simp add: doc_text_def record_doc_def record_text_def)
qed

section \<open>What ventxml sends\<close>

text \<open>
  What \<open>ventxml\<close> sends: the elements at the path \<open>r/p\<close>, each as the text it has in the
  input, numbered from 0 in order, and the last id it reports is the number of elements less one.
\<close>

theorem ventxml_sendAll_numbers:
  assumes "doc_ok (([], Open r as) # [(after, Close r)])" and "\<forall>q \<in> set rs. record_ok p q"
    and "CHR ''/'' \<notin> set r" and "CHR ''/'' \<notin> set p" and "r \<noteq> p"
    and "throttle_ok st ev" and "vent_ready (length rs) vs" and "int (length rs) \<le> 2147483647"
  shows "\<exists>vs'. ventxml_sendAll c clk (r @ ''/'' @ p) st ev
      (doc_text (([], Open r as) # concat (map (record_doc p) rs) @ [(after, Close r)])) vs =
      Inr (int (length rs) - 1, vs')
    \<and> vs_sender vs' = vs_sender vs @ numbered_msgs c clk 0 (map (record_text p) rs)"
proof -
  have "SendChunk_chunk c clk st ev = send_numbered c clk st ev"
    by (intro ext) (simp add: SendChunk_chunk_def)
  then show ?thesis
    unfolding ventxml_sendAll_def
    by (subst splitter_sends [OF assms(1-5)])
      (use send_numbered_all [OF assms(6), of "map (record_text p) rs" 0 vs c clk] assms(7,8)
       in \<open>auto simp: numbered_ready_def\<close>)
qed

theorem ventxml_sendAll_numbers_witness:
  "\<exists>vs'. ventxml_sendAll plain_codec (\<lambda>_. 7) (''r'' @ ''/'' @ ''p'') 0 0
      (doc_text (([], Open ''r'' []) # concat (map (record_doc ''p'')
         [('' '', [''x=1''], [(''one '', Open ''b'' []), (''two'', Close ''b'')], []), ([], [], [], ''three'')])
         @ [([], Close ''r'')])) (Vent_init []) = Inr (1, vs')
    \<and> vs_sender vs' = [(0, 7, ''<p x=1>one <b>two</b></p>''), (1, 7, ''<p>three</p>'')]"
proof -
  let ?rs = "[('' '', [''x=1''], [(''one '', Open ''b'' []), (''two'', Close ''b'')], []), ([], [], [], ''three'')]"
  have ok: "doc_ok (([], Open ''r'' []) # [([], Close ''r'')])" "\<forall>q \<in> set ?rs. record_ok ''p'' q"
    by code_simp+
  have "map (record_text ''p'') ?rs = [''<p x=1>one <b>two</b></p>'', ''<p>three</p>'']"
    by (simp add: record_text_def doc_text_def)
  with ventxml_sendAll_numbers [OF ok, of 0 0 "Vent_init []" plain_codec "\<lambda>_. 7"]
  show ?thesis
    by (simp add: throttle_ok_def vent_ready_def Vent_init_def plain_codec_def Msg_set_def DataMsg_make_def)
qed

end
