(* ===== verification/Workers.thy ===== *)
theory Workers
  imports Mains Words
begin

text \<open>
  The workers (\<open>work/WorkSleep.cpp\<close>, \<open>work/workcharcount.cpp\<close>, \<open>work/workcharfreq.cpp\<close>,
  \<open>work/workxpath.cpp\<close>): each takes a message, works on it and sends a message with the same id
  to the sink.
\<close>

section \<open>What the workers share\<close>

text \<open>What a worker has sent, how long it has slept, and what the socket will do to the sends to
  come; past the end of the list sends succeed.\<close>

record 'm worker_state =
  wk_sent :: "'m list"
  wk_naps :: "int list"
  wk_env :: "unit res list"

definition worker_init :: "unit res list \<Rightarrow> 'm worker_state" where
  "worker_init env = \<lparr>wk_sent = [], wk_naps = [], wk_env = env\<rparr>"

definition worker_send ::
  "('m, SinkMsg) codec \<Rightarrow> int \<Rightarrow> string list \<Rightarrow> 'm worker_state \<Rightarrow> 'm worker_state res" where
  "worker_send sc i v w =
     (let (out, env) = (case wk_env w of [] \<Rightarrow> (Inr (), []) | e # es \<Rightarrow> (e, es)) in
      rmap (\<lambda>sent. w\<lparr>wk_sent := sent, wk_env := env\<rparr>)
        (SinkWorker_sendSinkMsg sc (SinkMsg_dataMsg i v SinkMsg_init) out (wk_sent w)))"

definition worker_of :: "('m \<Rightarrow> 'w \<Rightarrow> 'w res) \<Rightarrow> ('m, 'w) IWorkWorker" where
  "worker_of f = \<lparr>iww_processMsg = f, iww_getTimeout = IWorkWorker_getTimeout, iww_timeout = IWorkWorker_timeout\<rparr>"

text \<open>A \<open>main\<close>: \<open>Continue\<close> where the turns run out while it works, and otherwise the exit code,
  or the exception that ends the program.\<close>

definition worker_loop ::
  "('m, KillMsg) codec \<Rightarrow> 'm \<Rightarrow> ('m \<Rightarrow> 'w \<Rightarrow> 'w res) \<Rightarrow> 'w \<Rightarrow> 'm work_turn list \<Rightarrow> ('w, (int \<times> 'w) res) outcome" where
  "worker_loop kc no_msg f w evs =
     (case fst (Work_process kc no_msg (worker_of f) w evs) of
        Continue w' \<Rightarrow> Continue w'
      | Stop r \<Rightarrow> Stop (rmap (Pair 0) r))"

definition worker_main ::
  "json_reader \<Rightarrow> main_args \<Rightarrow> (string \<Rightarrow> socket) \<Rightarrow> ('m, KillMsg) codec \<Rightarrow> 'm \<Rightarrow> ('m \<Rightarrow> 'w \<Rightarrow> 'w res) \<Rightarrow>
   'w \<Rightarrow> 'm work_turn list \<Rightarrow> ('w, (int \<times> 'w) res) outcome" where
  "worker_main reader args socks kc no_msg f w evs =
     (case setup_main reader args of
        None \<Rightarrow> Stop (Inr (1, w))
      | Some (pipes, r, _) \<Rightarrow>
          (case open_ports socks pipes work_ports of
             Inl e \<Rightarrow> Stop (Inl e)
           | Inr ok \<Rightarrow> if ok then worker_loop kc no_msg f w evs else Stop (Inr (1, w))))"

section \<open>WorkSleep\<close>

definition worksleep_processMsg ::
  "('m, IntMsg) codec \<Rightarrow> ('m, SinkMsg) codec \<Rightarrow> 'm \<Rightarrow> 'm worker_state \<Rightarrow> 'm worker_state res" where
  "worksleep_processMsg c sc message w =
     rbind (Msg_of_message c message) (\<lambda>msg.
       worker_send sc (DataMsg_getId msg) [] (w\<lparr>wk_naps := wk_naps w @ [DataMsg_getPayload msg]\<rparr>))"

section \<open>workcharcount\<close>

definition workcharcount_processMsg ::
  "('m, StringMsg) codec \<Rightarrow> ('m, SinkMsg) codec \<Rightarrow> 'm \<Rightarrow> 'm worker_state \<Rightarrow> 'm worker_state res" where
  "workcharcount_processMsg c sc message w =
     rbind (Msg_of_message c message) (\<lambda>msg.
       worker_send sc (DataMsg_getId msg)
         [show_int (to_int32 (int (length (DataMsg_getPayload msg))))] w)"

section \<open>workcharfreq\<close>

text \<open>\<open>sscanf(ss, "%x", &c)\<close> of a string of one character reads a hexadecimal
  digit or nothing; \<open>sprintf(ss, "%x", c)\<close> writes past the two bytes of \<open>ss\<close> for 16 and above.\<close>

definition sscanf_x :: "char \<Rightarrow> int option" where
  "sscanf_x c =
     (if is_digit_char c then Some (int (code c) - 48)
      else if 97 \<le> code c \<and> code c \<le> 102 then Some (int (code c) - 87)
      else if 65 \<le> code c \<and> code c \<le> 70 then Some (int (code c) - 55)
      else None)"

definition hex_digit :: "nat \<Rightarrow> char" where
  "hex_digit n = char_of (if n < 10 then 48 + n else 87 + n)"

definition sprintf_x :: "int \<Rightarrow> char res" where
  "sprintf_x n = (if 0 \<le> n \<and> n < 16 then Inr (hex_digit (nat n)) else Inl (Undefined ''sprintf past the end of ss''))"

definition charfreq_letter :: "char \<Rightarrow> string \<Rightarrow> string res" where
  "charfreq_letter i result =
     (let index = signed_char i - 97 in
      if index < 0 \<or> index > 25 then Inl (Runtime_error ''letter not in range.'')
      else case sscanf_x (result ! nat index) of
             None \<Rightarrow> Inl (Undefined ''c is not initialised'')
           | Some c0 \<Rightarrow>
               (let c = c0 + 1 in
                if c > 16 then Inl (Runtime_error ''ony handle up to 16 of each letter.'')
                else rmap (\<lambda>d. result[nat index := d]) (sprintf_x c)))"

definition charfreq_word :: "string \<Rightarrow> string res" where
  "charfreq_word word = rfold charfreq_letter word (replicate 26 (CHR ''0''))"

definition workcharfreq_processMsg ::
  "('m, StringMsg) codec \<Rightarrow> ('m, SinkMsg) codec \<Rightarrow> 'm \<Rightarrow> 'm worker_state \<Rightarrow> 'm worker_state res" where
  "workcharfreq_processMsg c sc message w =
     rbind (Msg_of_message c message) (\<lambda>msg.
     rbind (charfreq_word (DataMsg_getPayload msg)) (\<lambda>result.
       worker_send sc (DataMsg_getId msg) [result] w))"

section \<open>workxpath\<close>

text \<open>pugixml is a library: \<open>select xml xpath\<close> gives the selected nodes, each a node with its
  value, or (where the node is empty) an attribute with its value.\<close>

datatype xpath_node = Attribute_node string | Tree_node string

fun xpath_value :: "xpath_node \<Rightarrow> string" where
  "xpath_value (Attribute_node v) = v"
| "xpath_value (Tree_node v) = v"

definition workxpath_processMsg ::
  "(string \<Rightarrow> string \<Rightarrow> xpath_node list res) \<Rightarrow> string \<Rightarrow>
   ('m, StringMsg) codec \<Rightarrow> ('m, SinkMsg) codec \<Rightarrow> 'm \<Rightarrow> 'm worker_state \<Rightarrow> 'm worker_state res" where
  "workxpath_processMsg select xpath c sc message w =
     rbind (Msg_of_message c message) (\<lambda>msg.
     rbind (select (DataMsg_getPayload msg) xpath) (\<lambda>nodes.
       worker_send sc (DataMsg_getId msg) (map xpath_value nodes) w))"

text \<open>Its \<open>main\<close> takes three bare arguments (\<open>argv[1..3]\<close>) and a configuration.\<close>

definition workxpath_main ::
  "json_reader \<Rightarrow> string list \<Rightarrow> (string \<Rightarrow> socket) \<Rightarrow> (string \<Rightarrow> string \<Rightarrow> xpath_node list res) \<Rightarrow>
   ('m, KillMsg) codec \<Rightarrow> 'm \<Rightarrow> ('m, StringMsg) codec \<Rightarrow> ('m, SinkMsg) codec \<Rightarrow>
   'm worker_state \<Rightarrow> 'm work_turn list \<Rightarrow> ('m worker_state, (int \<times> 'm worker_state) res) outcome" where
  "workxpath_main reader argv socks select kc no_msg c sc w evs =
     (case argv of
        [arg0, arg1, arg2, arg3] \<Rightarrow>
          (let (ok1, pipes) = JsonObject_read reader Null arg1 in
           if \<not> ok1 then Stop (Inr (1, w))
           else let (ok2, r) = JsonObject_read reader Null arg2 in
             if \<not> ok2 then Stop (Inr (1, w))
             else (case open_ports socks pipes work_ports of
                     Inl e \<Rightarrow> Stop (Inl e)
                   | Inr ok \<Rightarrow>
                       if \<not> ok then Stop (Inr (1, w))
                       else (case JsonObject_getString r ''xpath'' of
                               Inl e \<Rightarrow> Stop (Inl e)
                             | Inr xpath \<Rightarrow> worker_loop kc no_msg (workxpath_processMsg select xpath c sc) w evs)))
      | _ \<Rightarrow> Stop (Inr (1, w)))"

section \<open>The three other programs\<close>

definition worksleep_main ::
  "json_reader \<Rightarrow> main_args \<Rightarrow> (string \<Rightarrow> socket) \<Rightarrow> ('m, KillMsg) codec \<Rightarrow> 'm \<Rightarrow> ('m, IntMsg) codec \<Rightarrow>
   ('m, SinkMsg) codec \<Rightarrow> 'm worker_state \<Rightarrow> 'm work_turn list \<Rightarrow>
   ('m worker_state, (int \<times> 'm worker_state) res) outcome" where
  "worksleep_main reader args socks kc no_msg c sc w evs =
     worker_main reader args socks kc no_msg (worksleep_processMsg c sc) w evs"

definition workcharcount_main ::
  "json_reader \<Rightarrow> main_args \<Rightarrow> (string \<Rightarrow> socket) \<Rightarrow> ('m, KillMsg) codec \<Rightarrow> 'm \<Rightarrow> ('m, StringMsg) codec \<Rightarrow>
   ('m, SinkMsg) codec \<Rightarrow> 'm worker_state \<Rightarrow> 'm work_turn list \<Rightarrow>
   ('m worker_state, (int \<times> 'm worker_state) res) outcome" where
  "workcharcount_main reader args socks kc no_msg c sc w evs =
     worker_main reader args socks kc no_msg (workcharcount_processMsg c sc) w evs"

definition workcharfreq_main ::
  "json_reader \<Rightarrow> main_args \<Rightarrow> (string \<Rightarrow> socket) \<Rightarrow> ('m, KillMsg) codec \<Rightarrow> 'm \<Rightarrow> ('m, StringMsg) codec \<Rightarrow>
   ('m, SinkMsg) codec \<Rightarrow> 'm worker_state \<Rightarrow> 'm work_turn list \<Rightarrow>
   ('m worker_state, (int \<times> 'm worker_state) res) outcome" where
  "workcharfreq_main reader args socks kc no_msg c sc w evs =
     worker_main reader args socks kc no_msg (workcharfreq_processMsg c sc) w evs"

section \<open>The counts of workcharfreq\<close>

definition letter :: "nat \<Rightarrow> char" where
  "letter i = char_of (97 + i)"

definition is_lower :: "char \<Rightarrow> bool" where
  "is_lower c \<longleftrightarrow> 97 \<le> code c \<and> code c \<le> 122"

text \<open>The result for the counts \<open>f\<close>.\<close>

definition freq_string :: "(nat \<Rightarrow> nat) \<Rightarrow> string" where
  "freq_string f = map (\<lambda>i. hex_digit (f i)) [0..<26]"

lemma code_letter [simp]: "i < 26 \<Longrightarrow> code (letter i) = 97 + i"
  by (simp add: letter_def)

lemma is_lower_letter: "is_lower c \<longleftrightarrow> (\<exists>i < 26. c = letter i)"
proof
  assume "is_lower c"
  then have "code c - 97 < 26" "c = letter (code c - 97)" by (auto simp: is_lower_def letter_def)
  then show "\<exists>i < 26. c = letter i" by blast
qed (auto simp: is_lower_def)

lemma letter_eq [simp]: "i < 26 \<Longrightarrow> j < 26 \<Longrightarrow> letter i = letter j \<longleftrightarrow> i = j"
  by (metis code_letter add_left_cancel)

lemma sscanf_to_hex [simp]: "n < 16 \<Longrightarrow> sscanf_x (hex_digit n) = Some (int n)"
  by (auto simp: sscanf_x_def hex_digit_def is_digit_char_def)

lemma charfreq_letter_step:
  assumes "k < 26" and "f k < 16"
  shows "charfreq_letter (letter k) (freq_string f) =
    (if f k < 15 then Inr (freq_string (f(k := Suc (f k)))) else Inl (Undefined ''sprintf past the end of ss''))"
proof -
  have "(freq_string f)[k := hex_digit (Suc (f k))] = freq_string (f(k := Suc (f k)))"
    using assms(1) by (intro nth_equalityI) (auto simp: freq_string_def nth_list_update)
  with assms show ?thesis
    by (auto simp: charfreq_letter_def Let_def signed_char_def sprintf_x_def freq_string_def nat_add_distrib)
qed

definition letters_in :: "string \<Rightarrow> nat \<Rightarrow> nat" where
  "letters_in word i = count_list word (letter i)"

lemma charfreq_rfold:
  assumes "list_all is_lower word" and "\<forall>i < 26. f i < 16"
  shows "rfold charfreq_letter word (freq_string f) =
    (if \<forall>i < 26. f i + letters_in word i < 16 then Inr (freq_string (\<lambda>i. f i + letters_in word i))
     else Inl (Undefined ''sprintf past the end of ss''))"
  using assms
proof (induction word arbitrary: f)
  case Nil
  then show ?case by (simp add: letters_in_def)
next
  case (Cons c word)
  from Cons.prems(1) obtain k where k: "k < 26" "c = letter k" by (auto simp: is_lower_letter)
  have fk: "f k < 16" using Cons.prems(2) k by simp
  show ?case
  proof (cases "f k < 15")
    case False
    with fk have "\<not> f k + letters_in (c # word) k < 16" by (simp add: letters_in_def k)
    with k(1) have "\<not> (\<forall>i < 26. f i + letters_in (c # word) i < 16)" by blast
    with False show ?thesis by (simp only: rfold.simps k(2) charfreq_letter_step [of k f, OF k(1) fk]) simp
  next
    case True
    define g where "g = f(k := Suc (f k))"
    have g: "g i + letters_in word i = f i + letters_in (c # word) i" if "i < 26" for i
      using that k by (auto simp: letters_in_def g_def)
    have str: "freq_string (\<lambda>i. g i + letters_in word i) = freq_string (\<lambda>i. f i + letters_in (c # word) i)"
      using g by (auto simp: freq_string_def)
    have "\<forall>i < 26. g i < 16" using Cons.prems(2) True by (simp add: g_def)
    from Cons.IH [OF _ this] Cons.prems(1) have IH: "rfold charfreq_letter word (freq_string g) =
        (if \<forall>i < 26. f i + letters_in (c # word) i < 16 then Inr (freq_string (\<lambda>i. f i + letters_in (c # word) i))
         else Inl (Undefined ''sprintf past the end of ss''))"
      using g str by (simp cong: if_cong)
    from True fk k(1) have "charfreq_letter c (freq_string f) = Inr (freq_string g)"
      by (simp add: k(2) charfreq_letter_step g_def)
    with IH show ?thesis by (simp only: rfold.simps rbind_simps)
  qed
qed

lemma charfreq_word_freq:
  assumes "list_all is_lower word"
  shows "charfreq_word word =
    (if \<forall>i < 26. count_list word (letter i) \<le> 15 then Inr (freq_string (letters_in word))
     else Inl (Undefined ''sprintf past the end of ss''))"
proof -
  have "replicate 26 (CHR ''0'') = freq_string (\<lambda>_. 0)"
    by code_simp
  then show ?thesis
    using charfreq_rfold [OF assms, of "\<lambda>_. 0"]
    by (simp add: charfreq_word_def letters_in_def freq_string_def less_Suc_eq_le [of _ 15, simplified]
        cong: if_cong)
qed

text \<open>
  Claim C32.  The letter counts of a word: on a word of lower case letters the result has, for each
  letter, its number of occurrences as a hexadecimal digit, as long as each occurs at most 15
  times.  On the sixteenth occurrence of a letter the code writes past the end of a buffer: the
  guard that limits the count (\<open>c > 16\<close>) never refuses a word.
\<close>

theorem charfreq_word_counts:
  assumes "list_all is_lower word"
  shows "charfreq_word word =
    (if \<forall>i < 26. count_list word (letter i) \<le> 15
     then Inr (map (\<lambda>i. hex_digit (count_list word (letter i))) [0..<26])
     else Inl (Undefined ''sprintf past the end of ss''))"
  using charfreq_word_freq [OF assms] by (simp only: freq_string_def letters_in_def)

lemma letters: "map letter [0..<26] = ''abcdefghijklmnopqrstuvwxyz''"
  by code_simp

lemma letters_map: "map (\<lambda>i. f (letter i)) [0..<26] = map f ''abcdefghijklmnopqrstuvwxyz''"
  unfolding letters [symmetric] by simp

lemma letters_all: "(\<forall>i < 26. P (letter i)) \<longleftrightarrow> list_all P ''abcdefghijklmnopqrstuvwxyz''"
  unfolding letters [symmetric] by (auto simp: list_all_iff)

theorem charfreq_word_counts_witness:
  "charfreq_word ''aardvark'' = Inr ''30010000001000000200010000'' \<and>
   charfreq_word (replicate 16 (CHR ''z'')) = Inl (Undefined ''sprintf past the end of ss'')"
proof -
  have l: "list_all is_lower ''aardvark''" "list_all is_lower (replicate 16 (CHR ''z''))" by code_simp+
  have "\<not> (\<forall>i < 26. count_list (replicate 16 (CHR ''z'')) (letter i) \<le> 15)"
    by (subst letters_all) (simp add: numeral_eq_Suc)
  then have "charfreq_word (replicate 16 (CHR ''z'')) = Inl (Undefined ''sprintf past the end of ss'')"
    using charfreq_word_counts [OF l(2)] by (simp only: if_False)
  moreover have "\<forall>i < 26. count_list ''aardvark'' (letter i) \<le> 15" by (subst letters_all) simp
  moreover have "hex_digit 0 = CHR ''0''" "hex_digit 1 = CHR ''1''" "hex_digit 2 = CHR ''2''" "hex_digit 3 = CHR ''3''"
    by code_simp+
  then have "map (\<lambda>i. hex_digit (count_list ''aardvark'' (letter i))) [0..<26] = ''30010000001000000200010000''"
    by (subst letters_map) (simp add: numeral_2_eq_2 numeral_3_eq_3)
  ultimately show ?thesis using charfreq_word_counts [OF l(1)] by simp
qed

section \<open>Every message is answered\<close>

text \<open>The contract of a worker: a message that can be read (\<open>decode\<close>) and worked on (\<open>answer\<close>)
  is answered with a data message of the same id, as long as the socket takes what is sent.\<close>

locale answering_worker =
  fixes processMsg :: "'m \<Rightarrow> 'm worker_state \<Rightarrow> 'm worker_state res"
    and decode :: "'m \<Rightarrow> (int \<times> 'd) res"
    and answer :: "'d \<Rightarrow> string list res"
    and sc :: "('m, SinkMsg) codec"
  assumes answers: "decode m = Inr (i, d) \<Longrightarrow> answer d = Inr v \<Longrightarrow> wk_env w = [] \<Longrightarrow>
    \<exists>w'. processMsg m w = Inr w' \<and> wk_sent w' = wk_sent w @ [Msg_set sc (2, i, v)] \<and> wk_env w' = []"
begin

definition reply :: "'m \<Rightarrow> int \<times> string list \<Rightarrow> bool" where
  "reply m a \<longleftrightarrow> (\<exists>d. decode m = Inr (fst a, d) \<and> answer d = Inr (snd a))"

lemma answers_all:
  assumes "list_all2 reply ms as" and "wk_env w = []"
  shows "\<exists>w'. rfold processMsg ms w = Inr w' \<and> wk_env w' = []
    \<and> wk_sent w' = wk_sent w @ map (\<lambda>(i, v). Msg_set sc (2, i, v)) as"
  using assms
proof (induction arbitrary: w rule: list_all2_induct)
  case (Cons m ms a as)
  then obtain d where "decode m = Inr (fst a, d)" "answer d = Inr (snd a)" by (auto simp: reply_def)
  from answers [OF this Cons.prems] obtain w1 where w1: "processMsg m w = Inr w1"
      "wk_sent w1 = wk_sent w @ [Msg_set sc (2, fst a, snd a)]" "wk_env w1 = []" by blast
  from Cons.IH [OF w1(3)] w1 show ?case by (auto simp: split_beta)
qed simp

lemma loop_answers:
  assumes "list_all2 work_delivers evs ms" and "work_killed kc ev"
    and "list_all2 reply ms as" and "wk_env w = []"
  shows "\<exists>w'. worker_loop kc no_msg processMsg w (evs @ ev # rest) = Stop (Inr (0, w'))
    \<and> wk_sent w' = wk_sent w @ map (\<lambda>(i, v). Msg_set sc (2, i, v)) as"
proof -
  have "fst (Work_process kc no_msg (worker_of processMsg) w (evs @ ev # rest)) =
      Stop (rfold processMsg ms w)"
    using work_handles [OF assms(1,2), of no_msg "worker_of processMsg" w rest] by (simp add: worker_of_def)
  with answers_all [OF assms(3,4)] show ?thesis by (auto simp: worker_loop_def)
qed

end

definition decode_data :: "('m, 'd DataMsg) codec \<Rightarrow> 'm \<Rightarrow> (int \<times> 'd) res" where
  "decode_data c m = rmap (\<lambda>msg. (DataMsg_getId msg, DataMsg_getPayload msg)) (Msg_of_message c m)"

lemma worker_send_ok:
  "wk_env w = [] \<Longrightarrow> worker_send sc i v w = Inr (w\<lparr>wk_sent := wk_sent w @ [Msg_set sc (2, i, v)]\<rparr>)"
  by (simp add: worker_send_def SinkWorker_sendSinkMsg_def SinkMsg_defs)

interpretation sleeper: answering_worker "worksleep_processMsg c sc" "decode_data c" "\<lambda>_. Inr []" sc
  for c and sc :: "('m, SinkMsg) codec"
  by unfold_locales (auto simp: worksleep_processMsg_def decode_data_def worker_send_ok rmap_eq_Inr)

interpretation counter: answering_worker "workcharcount_processMsg c sc" "decode_data c"
    "\<lambda>s. Inr [show_int (to_int32 (int (length s)))]" sc
  for c and sc :: "('m, SinkMsg) codec"
  by unfold_locales (auto simp: workcharcount_processMsg_def decode_data_def worker_send_ok rmap_eq_Inr)

interpretation charfreq: answering_worker "workcharfreq_processMsg c sc" "decode_data c"
    "\<lambda>s. rmap (\<lambda>r. [r]) (charfreq_word s)" sc
  for c and sc :: "('m, SinkMsg) codec"
  by unfold_locales (auto simp: workcharfreq_processMsg_def decode_data_def worker_send_ok rmap_eq_Inr)

interpretation xpath: answering_worker "workxpath_processMsg select xp c sc" "decode_data c"
    "\<lambda>s. rmap (map xpath_value) (select s xp)" sc
  for select xp c and sc :: "('m, SinkMsg) codec"
  by unfold_locales (auto simp: workxpath_processMsg_def decode_data_def worker_send_ok rmap_eq_Inr)

text \<open>
  A character-counting worker that is given numbered strings and then told to quit
  ends with exit code 0, having answered each string, in order, with a data message of the same
  id that holds the string's length in decimal.
\<close>

theorem workcharcount_answers:
  assumes "codec_ok c" and "list_all2 (\<lambda>ev (i, s). work_delivers ev (Msg_set c (DataMsg_make i (clk i) s))) evs strs"
    and "work_killed kc ev" and "wk_env w = []" and "\<forall>(i, s) \<in> set strs. length s < 2147483648"
  shows "\<exists>w'. worker_loop kc no_msg (workcharcount_processMsg c sc) w (evs @ ev # rest) = Stop (Inr (0, w'))
    \<and> wk_sent w' = wk_sent w @ map (\<lambda>(i, s). Msg_set sc (2, i, [show_int (int (length s))])) strs"
proof -
  let ?as = "map (\<lambda>(i, s). (i, [show_int (int (length s))])) strs"
  let ?ms = "map (\<lambda>(i, s). Msg_set c (DataMsg_make i (clk i) s)) strs"
  have "list_all2 (counter.reply c) ?ms ?as"
    using assms(1,5)
    by (auto simp: list_all2_conv_all_nth counter.reply_def decode_data_def DataMsg_defs in_int32_def
        split: prod.split dest!: nth_mem)
  moreover have "list_all2 work_delivers evs ?ms"
    using assms(2) by (auto simp: list_all2_conv_all_nth split: prod.splits)
  moreover have sent: "map (\<lambda>(i, v). Msg_set sc (2, i, v)) ?as =
      map (\<lambda>(i, s). Msg_set sc (2, i, [show_int (int (length s))])) strs"
    by (auto split: prod.split)
  ultimately show ?thesis
    using counter.loop_answers [OF _ assms(3) _ assms(4), of evs ?ms c ?as no_msg sc rest] by (simp only: sent)
qed

theorem workcharcount_answers_witness:
  "\<exists>w'. worker_loop (\<lparr>pack = \<lambda>k. (k, 0, []), unpack = \<lambda>(i, t, s). Inr i\<rparr> :: (StringMsg, KillMsg) codec) (0, 0, [])
       (workcharcount_processMsg plain_codec \<lparr>pack = \<lambda>(a, b, d). (b, a, hd d), unpack = \<lambda>_. Inl Msgpack_error\<rparr>)
       (worker_init []) [msg_work_turn (4, 9, ''four''), msg_work_turn (5, 9, []), kill_work_turn (0, 0, [])]
     = Stop (Inr (0, w')) \<and> wk_sent w' = [(4, 2, ''4''), (5, 2, ''0'')]"
proof -
  have killed: "work_killed (\<lparr>pack = \<lambda>k. (k, 0, []), unpack = \<lambda>(i, t, s). Inr i\<rparr> :: (StringMsg, KillMsg) codec)
      (kill_work_turn (0, 0, []))"
    by simp
  have "show_int 4 = ''4''" "show_int 0 = ''0''" by code_simp+
  with workcharcount_answers [OF _ _ killed, of plain_codec "\<lambda>_. 9"
      "[msg_work_turn (4, 9, ''four''), msg_work_turn (5, 9, [])]" "[(4, ''four''), (5, [])]" "worker_init []"
      "(0, 0, [])" "\<lparr>pack = \<lambda>(a, b, d). (b, a, hd d), unpack = \<lambda>_. Inl Msgpack_error\<rparr>" "[]"]
  show ?thesis
    by (simp add: codec_ok_def plain_codec_def DataMsg_defs Msg_set_def worker_init_def)
qed

end
