(* ===== verification/Sinks.thy ===== *)
theory Sinks
  imports Mains Words Workers
begin

text \<open>
  The sinks (\<open>sink/SinkElapsed.cpp\<close>, \<open>sink/sinkavg.cpp\<close>, \<open>sink/sinkcharfreq.cpp\<close>,
  \<open>sink/sinkstrings.cpp\<close>): each is an \<open>ISinkWorker\<close> for the loop of \<open>Sink_Loop\<close>, which collects the
  data of a batch and sends its results, a JSON object, to a socket.

  \<open>sink_run_worker\<close> connects the two: whatever the worker, the loop makes on it the calls that it
  makes on the recording worker.
\<close>

section \<open>The calls of the loop\<close>

fun apply_call :: "'w ISinkWorker \<Rightarrow> sink_call \<Rightarrow> 'w \<Rightarrow> 'w res" where
  "apply_call wk (Call_first i) w = isw_first wk i w"
| "apply_call wk (Call_process i d) w = isw_process wk i d w"
| "apply_call wk (Call_last i) w = isw_last wk i w"
| "apply_call wk (Call_results t) w = isw_results wk t w"

definition with_worker :: "'w \<Rightarrow> 'v sink_state \<Rightarrow> 'w sink_state" where
  "with_worker w s = \<lparr>ss_worker = w, ss_tracker = ss_tracker s, ss_elapsed = ss_elapsed s, ss_retries = ss_retries s\<rparr>"

lemma with_worker_simps [simp]:
  "ss_worker (with_worker w s) = w" "ss_tracker (with_worker w s) = ss_tracker s"
  "ss_elapsed (with_worker w s) = ss_elapsed s" "ss_retries (with_worker w s) = ss_retries s"
  "(with_worker w s)\<lparr>ss_worker := w'\<rparr> = with_worker w' s"
  "(with_worker w s)\<lparr>ss_tracker := t\<rparr> = with_worker w (s\<lparr>ss_tracker := t\<rparr>)"
  "(with_worker w s)\<lparr>ss_elapsed := el\<rparr> = with_worker w (s\<lparr>ss_elapsed := el\<rparr>)"
  "(with_worker w s)\<lparr>ss_retries := r\<rparr> = with_worker w (s\<lparr>ss_retries := r\<rparr>)"
  "with_worker w (s\<lparr>ss_worker := v\<rparr>) = with_worker w s"
  by (simp_all add: with_worker_def)

lemma dispatch_call:
  assumes "sink_dispatch trace_worker m now s = Inr (Some s')"
  shows "\<exists>c. ss_worker s' = ss_worker s @ [c] \<and>
    (\<forall>w. sink_dispatch wk m now (with_worker w s) = rmap (\<lambda>w'. Some (with_worker w' s')) (apply_call wk c w))"
proof -
  let ?i = "SinkMsg_getId m"
  consider "SinkMsg_getCode m = 1" | "SinkMsg_getCode m = 2" | "SinkMsg_getCode m = 3"
    using assms by (auto simp: sink_dispatch_def Let_def split: if_splits)
  then show ?thesis
  proof cases
    case 1
    with assms show ?thesis
      by (intro exI [of _ "Call_first ?i"]) (auto simp: sink_dispatch_def Let_def with_worker_def)
  next
    case 2
    with assms obtain t where t: "MsgTracker_track ?i (ss_tracker s) = Inr t"
        "s' = s\<lparr>ss_worker := ss_worker s @ [Call_process ?i (SinkMsg_getData m)], ss_tracker := t\<rparr>"
      by (auto simp: sink_dispatch_def Let_def rmap_eq_Inr)
    then have "sink_dispatch wk m now (with_worker w s) =
        rmap (\<lambda>w'. Some (with_worker w' s')) (isw_process wk ?i (SinkMsg_getData m) w)" for w
      by (cases "isw_process wk ?i (SinkMsg_getData m) w") (simp_all add: sink_dispatch_def Let_def 2)
    with t show ?thesis by (intro exI [of _ "Call_process ?i (SinkMsg_getData m)"]) simp
  next
    case 3
    with assms obtain t where t: "MsgTracker_setLast ?i (ss_tracker s) = Inr t"
        "s' = s\<lparr>ss_worker := ss_worker s @ [Call_last ?i], ss_tracker := t\<rparr>"
      by (auto simp: sink_dispatch_def Let_def rmap_eq_Inr)
    then have "sink_dispatch wk m now (with_worker w s) =
        rmap (\<lambda>w'. Some (with_worker w' s')) (isw_last wk ?i w)" for w
      by (cases "isw_last wk ?i w") (simp_all add: sink_dispatch_def Let_def 3)
    with t show ?thesis by (intro exI [of _ "Call_last ?i"]) simp
  qed
qed

lemma finish_call:
  "sink_finish wk now (with_worker w s) =
     rmap (\<lambda>w'. with_worker w' (s\<lparr>ss_tracker := MsgTracker_reset (ss_tracker s)\<rparr>))
       (apply_call wk (Call_results (Elapsed_getTotal (ss_elapsed s) now)) w)"
  by (simp add: sink_finish_def)

lemma sink_on_msg_call:
  assumes "sink_on_msg sc no_msg trace_worker ev s = Inr (Continue s')"
  shows "\<exists>cs. ss_worker s' = ss_worker s @ cs \<and>
    (\<forall>w w'. rfold (apply_call wk) cs w = Inr w' \<longrightarrow>
       sink_on_msg sc no_msg wk ev (with_worker w s) = Inr (Continue (with_worker w' s')))"
proof -
  let ?s = "s\<lparr>ss_retries := 0\<rparr>"
  obtain message sinkmsg s1 b where
    m: "catch_zmq no_msg (received ev) = Inr message" "\<not> quit_after ev"
       "Msg_of_message sc message = Inr sinkmsg"
       "sink_dispatch trace_worker sinkmsg (clock_start ev) ?s = Inr (Some s1)"
       "MsgTracker_complete (ss_tracker s1) = Inr b"
    and s': "if b then sink_finish trace_worker (clock_total ev) s1 = Inr s' else s' = s1"
    using assms unfolding sink_on_msg_def Let_def
    by (auto simp: rbind_eq_Inr rmap_eq_Inr split: if_splits option.splits)
  obtain c where c: "ss_worker s1 = ss_worker s @ [c]"
      "\<And>w. sink_dispatch wk sinkmsg (clock_start ev) (with_worker w ?s) =
        rmap (\<lambda>w'. Some (with_worker w' s1)) (apply_call wk c w)"
    using dispatch_call [OF m(4), of wk] by auto
  have start: "sink_on_msg sc no_msg wk ev (with_worker w s) =
      rbind (apply_call wk c w) (\<lambda>w1. if b then rmap Continue (sink_finish wk (clock_total ev) (with_worker w1 s1))
                                     else Inr (Continue (with_worker w1 s1)))" for w
    using m c(2) [of w] by (cases "apply_call wk c w") (simp_all add: sink_on_msg_def cong: if_cong)
  show ?thesis
  proof (cases b)
    case False
    with s' c start show ?thesis by (intro exI [of _ "[c]"]) (auto simp: rbind_eq_Inr)
  next
    case True
    let ?r = "Call_results (Elapsed_getTotal (ss_elapsed s1) (clock_total ev))"
    from s' True have "s' = s1\<lparr>ss_worker := ss_worker s1 @ [?r], ss_tracker := MsgTracker_reset (ss_tracker s1)\<rparr>"
      by (simp add: sink_finish_def)
    with True c start show ?thesis
      by (intro exI [of _ "[c, ?r]"]) (auto simp: rbind_eq_Inr finish_call)
  qed
qed

lemma sink_on_timeout_call:
  assumes "sink_on_timeout trace_worker ev s = Inr (Continue s')"
  shows "\<exists>cs. ss_worker s' = ss_worker s @ cs \<and>
    (\<forall>w w'. rfold (apply_call wk) cs w = Inr w' \<longrightarrow>
       sink_on_timeout wk ev (with_worker w s) = Inr (Continue (with_worker w' s')))"
proof (cases "ss_retries s > sink_maxretries")
  case True
  let ?r = "Call_results (Elapsed_getTotal (ss_elapsed s) (clock_total ev))"
  from assms True have "s' = s\<lparr>ss_worker := ss_worker s @ [?r], ss_tracker := MsgTracker_reset (ss_tracker s)\<rparr>"
      and "\<exists>d. MsgTracker_dump (ss_tracker s) = Inr d"
    by (auto simp: sink_on_timeout_def rbind_eq_Inr sink_finish_def)
  with True show ?thesis
    by (intro exI [of _ "[?r]"]) (auto simp: sink_on_timeout_def rbind_eq_Inr finish_call)
next
  case False
  with assms have "s' = s\<lparr>ss_retries := ss_retries s + 1\<rparr>" and "\<exists>d. MsgTracker_dump (ss_tracker s) = Inr d"
    by (auto simp: sink_on_timeout_def rbind_eq_Inr)
  with False show ?thesis by (intro exI [of _ "[]"]) (auto simp: sink_on_timeout_def)
qed

lemma sink_on_control_call:
  assumes "sink_on_control kc ev s = Inr (Continue s')"
  shows "s' = s \<and> sink_on_control kc ev (with_worker w s) = Inr (Continue (with_worker w s'))"
proof (cases "received ev")
  case (Inl e)
  with assms show ?thesis
    by (cases e) (auto simp: sink_on_control_def catch_zmq_def)
next
  case (Inr m)
  show ?thesis
  proof (cases "Msg_of_message kc m")
    case (Inl e)
    with assms Inr show ?thesis by (cases e) (auto simp: sink_on_control_def catch_zmq_def)
  next
    case (Inr kill)
    with assms \<open>received ev = Inr m\<close> show ?thesis
      by (cases "MsgTracker_complete (ss_tracker s)")
        (auto simp: sink_on_control_def catch_zmq_def split: if_splits exn.splits)
  qed
qed

text \<open>One turn, then any number of them.\<close>

lemma outcome_of_Continue: "outcome_of x = Continue y \<longleftrightarrow> x = Inr (Continue y)"
  by (cases x) (auto simp: outcome_of_def)

lemma sink_turn_polled:
  "\<not> quit_head ev \<Longrightarrow> catch_zmq Poller_NONE (Poller_poll (zpolled ev)) = Inr r \<Longrightarrow>
   sink_turn sc kc no_msg wk s ev = outcome_of
      (if r = Poller_MSG then sink_on_msg sc no_msg wk ev s
       else if r = Poller_CONTROL then sink_on_control kc ev s
       else if r = Poller_NONE then sink_on_timeout wk ev s else Inr (Continue s))"
  by (simp add: sink_turn_def)

lemma sink_turn_call:
  assumes "sink_turn sc kc no_msg trace_worker s ev = Continue s'"
  shows "\<exists>cs. ss_worker s' = ss_worker s @ cs \<and>
    (\<forall>w w'. rfold (apply_call wk) cs w = Inr w' \<longrightarrow>
       sink_turn sc kc no_msg wk (with_worker w s) ev = Continue (with_worker w' s'))"
proof -
  have q: "\<not> quit_head ev"
    using assms by (cases "MsgTracker_complete (ss_tracker s)") (auto simp: sink_turn_def)
  obtain r where r: "catch_zmq Poller_NONE (Poller_poll (zpolled ev)) = Inr r"
    using assms q by (cases "catch_zmq Poller_NONE (Poller_poll (zpolled ev))") (auto simp: sink_turn_def)
  have r': "r \<in> {Poller_MSG, Poller_CONTROL, Poller_NONE}"
    using r by (auto simp: catch_zmq_Inr Poller_poll_def rmap_eq_Inr)
  note turn = sink_turn_polled [OF q r]
  note out = outcome_of_Continue
  from r' consider "r = Poller_MSG" | "r = Poller_CONTROL" | "r = Poller_NONE" by blast
  then show ?thesis
  proof cases
    case 1
    with assms have "sink_on_msg sc no_msg trace_worker ev s = Inr (Continue s')" by (simp add: turn out)
    from sink_on_msg_call [OF this, of wk] 1 show ?thesis by (simp add: turn out)
  next
    case 2
    with assms have "sink_on_control kc ev s = Inr (Continue s')" by (simp add: turn out Poller_defs)
    note control = sink_on_control_call [OF this]
    have "s' = s" by (rule control [THEN conjunct1])
    with 2 show ?thesis
      by (intro exI [of _ "[]"]) (auto simp: turn out Poller_defs control [THEN conjunct2])
  next
    case 3
    with assms have "sink_on_timeout trace_worker ev s = Inr (Continue s')" by (simp add: turn out Poller_defs)
    from sink_on_timeout_call [OF this, of wk] 3 show ?thesis by (simp add: turn out Poller_defs)
  qed
qed

lemma sink_run_worker:
  assumes "run (sink_turn sc kc no_msg trace_worker) s evs = (Continue s', [])"
  shows "\<exists>cs. ss_worker s' = ss_worker s @ cs \<and>
    (\<forall>w w'. rfold (apply_call wk) cs w = Inr w' \<longrightarrow>
       run (sink_turn sc kc no_msg wk) (with_worker w s) evs = (Continue (with_worker w' s'), []))"
  using assms
proof (induction evs arbitrary: s)
  case Nil
  then show ?case by (intro exI [of _ "[]"]) auto
next
  case (Cons ev evs)
  then obtain s1 where s1: "sink_turn sc kc no_msg trace_worker s ev = Continue s1"
      "run (sink_turn sc kc no_msg trace_worker) s1 evs = (Continue s', [])"
    by (auto split: outcome.splits)
  obtain cs where cs: "ss_worker s1 = ss_worker s @ cs"
      "\<And>w w'. rfold (apply_call wk) cs w = Inr w' \<Longrightarrow>
         sink_turn sc kc no_msg wk (with_worker w s) ev = Continue (with_worker w' s1)"
    using sink_turn_call [OF s1(1), of wk] by blast
  obtain ds where ds: "ss_worker s' = ss_worker s1 @ ds"
      "\<And>w w'. rfold (apply_call wk) ds w = Inr w' \<Longrightarrow>
         run (sink_turn sc kc no_msg wk) (with_worker w s1) evs = (Continue (with_worker w' s'), [])"
    using Cons.IH [OF s1(2)] by blast
  show ?case
  proof (intro exI [of _ "cs @ ds"] conjI allI impI)
    fix w w' assume "rfold (apply_call wk) (cs @ ds) w = Inr w'"
    then obtain w1 where "rfold (apply_call wk) cs w = Inr w1" "rfold (apply_call wk) ds w1 = Inr w'"
      by (auto simp: rfold_append rbind_eq_Inr)
    with cs(2) ds(2) show "run (sink_turn sc kc no_msg wk) (with_worker w s) (ev # evs) =
        (Continue (with_worker w' s'), [])"
      by simp
  qed (simp add: cs ds)
qed

text \<open>
  The loop and its worker are independent: whenever the loop, run on a worker that
  only records its calls, keeps going, every worker that handles those calls without an exception
  is called in the same way, ends in the state the calls leave, and the rest of the loop's state
  (tracker, stop watch, retries) does not depend on the worker.
\<close>

theorem Sink_run_refines_calls:
  assumes "run (sink_turn sc kc no_msg trace_worker) s evs = (Continue s', [])"
    and "ss_worker s = []" and "rfold (apply_call wk) (ss_worker s') w = Inr w'"
  shows "run (sink_turn sc kc no_msg wk) (with_worker w s) evs = (Continue (with_worker w' s'), [])"
  using sink_run_worker [OF assms(1), of wk] assms(2,3) by auto

section \<open>Sending the results\<close>

text \<open>The socket the results go to: what it has taken, and what it will do; past the end of the
  list sends succeed.  The send is not in a \<open>try\<close> block.\<close>

record 'm result_socket =
  rs_sent :: "'m list"
  rs_env :: "unit res list"

definition result_send :: "'m \<Rightarrow> ('m, 'z) result_socket_scheme \<Rightarrow> ('m, 'z) result_socket_scheme res" where
  "result_send message s =
     (let (out, env) = (case rs_env s of [] \<Rightarrow> (Inr (), []) | e # es \<Rightarrow> (e, es)) in
      rmap (\<lambda>_. s\<lparr>rs_sent := rs_sent s @ [message], rs_env := env\<rparr>) out)"

definition send_results ::
  "('m, StringMsg) codec \<Rightarrow> JsonObject \<Rightarrow> ('m, 'z) result_socket_scheme \<Rightarrow> ('m, 'z) result_socket_scheme res" where
  "send_results c r s =
     rbind (JsonObject_write r True) (\<lambda>text. result_send (Msg_set c (DataMsg_make 0 0 text)) s)"

text \<open>A \<open>main\<close>: \<open>Continue\<close> where the turns run out while the sink works, and otherwise the exit
  code, or the exception that ends the program.\<close>

definition sink_main ::
  "json_reader \<Rightarrow> main_args \<Rightarrow> (string \<Rightarrow> socket) \<Rightarrow> ('m, SinkMsg) codec \<Rightarrow> ('m, KillMsg) codec \<Rightarrow> 'm \<Rightarrow>
   'w ISinkWorker \<Rightarrow> timeval \<Rightarrow> 'w \<Rightarrow> 'm turn list \<Rightarrow> ('w sink_state, (int \<times> 'w) res) outcome" where
  "sink_main reader args socks sc kc no_msg wk now w evs =
     (case setup_main reader args of
        None \<Rightarrow> Stop (Inr (1, w))
      | Some (pipes, r, _) \<Rightarrow>
          (case open_ports socks pipes sink_ports of
             Inl e \<Rightarrow> Stop (Inl e)
           | Inr ok \<Rightarrow>
               if \<not> ok then Stop (Inr (1, w))
               else (case fst (Sink_process sc kc no_msg wk now w evs) of
                       Continue s \<Rightarrow> Continue s
                     | Stop out \<Rightarrow> Stop (rmap (\<lambda>(ok, w'). (exit_code ok, w')) out))))"

section \<open>SinkElapsed\<close>

definition SinkElapsed_results ::
  "('m, StringMsg) codec \<Rightarrow> int \<Rightarrow> 'm result_socket \<Rightarrow> 'm result_socket res" where
  "SinkElapsed_results c total_ms w = send_results c (JsonObject_add_int Null ''elapsed'' total_ms) w"

definition SinkElapsed :: "('m, StringMsg) codec \<Rightarrow> 'm result_socket ISinkWorker" where
  "SinkElapsed c =
     \<lparr>isw_first = \<lambda>i w. Inr w, isw_process = \<lambda>i d w. Inr w, isw_last = \<lambda>i w. Inr w,
      isw_results = SinkElapsed_results c\<rparr>"

definition SinkElapsed_main ::
  "json_reader \<Rightarrow> main_args \<Rightarrow> (string \<Rightarrow> socket) \<Rightarrow> ('m, SinkMsg) codec \<Rightarrow> ('m, KillMsg) codec \<Rightarrow> 'm \<Rightarrow>
   ('m, StringMsg) codec \<Rightarrow> timeval \<Rightarrow> 'm result_socket \<Rightarrow> 'm turn list \<Rightarrow>
   ('m result_socket sink_state, (int \<times> 'm result_socket) res) outcome" where
  "SinkElapsed_main reader args socks sc kc no_msg c now w evs =
     sink_main reader args socks sc kc no_msg (SinkElapsed c) now w evs"

section \<open>sinkavg\<close>

record 'm avg_sink = "'m result_socket" +
  av_count :: int
  av_total :: int

definition avg_init :: "unit res list \<Rightarrow> 'm avg_sink" where
  "avg_init env = \<lparr>rs_sent = [], rs_env = env, av_count = 0, av_total = 0\<rparr>"

definition sinkavg_process :: "int \<Rightarrow> string list \<Rightarrow> 'm avg_sink \<Rightarrow> 'm avg_sink res" where
  "sinkavg_process i data w =
     (if data = [] then Inl (Undefined ''(*data)[0]'')
      else rbind (lexical_cast_int (hd data)) (\<lambda>n.
           rbind (add_int32 (av_total w) n) (\<lambda>total.
           rmap (\<lambda>cnt. w\<lparr>av_total := total, av_count := cnt\<rparr>) (add_int32 (av_count w) 1))))"

definition sinkavg_results :: "('m, StringMsg) codec \<Rightarrow> int \<Rightarrow> 'm avg_sink \<Rightarrow> 'm avg_sink res" where
  "sinkavg_results c total_ms w =
     send_results c
       (JsonObject_add_double (JsonObject_add_int Null ''elapsed'' total_ms) ''average''
          (dbl_div (dbl_of_int (av_total w)) (dbl_of_int (av_count w)))) w"

definition sinkavg :: "('m, StringMsg) codec \<Rightarrow> 'm avg_sink ISinkWorker" where
  "sinkavg c =
     \<lparr>isw_first = \<lambda>i w. Inr w, isw_process = sinkavg_process, isw_last = \<lambda>i w. Inr w,
      isw_results = sinkavg_results c\<rparr>"

definition sinkavg_main ::
  "json_reader \<Rightarrow> main_args \<Rightarrow> (string \<Rightarrow> socket) \<Rightarrow> ('m, SinkMsg) codec \<Rightarrow> ('m, KillMsg) codec \<Rightarrow> 'm \<Rightarrow>
   ('m, StringMsg) codec \<Rightarrow> timeval \<Rightarrow> 'm avg_sink \<Rightarrow> 'm turn list \<Rightarrow>
   ('m avg_sink sink_state, (int \<times> 'm avg_sink) res) outcome" where
  "sinkavg_main reader args socks sc kc no_msg c now w evs =
     sink_main reader args socks sc kc no_msg (sinkavg c) now w evs"

section \<open>sinkcharfreq\<close>

record 'm freq_sink = "'m result_socket" +
  fq_counts :: "int list"

definition sinkcharfreq_init :: "('m, 'z) freq_sink_scheme \<Rightarrow> ('m, 'z) freq_sink_scheme" where
  "sinkcharfreq_init w = w\<lparr>fq_counts := replicate 26 0\<rparr>"

definition freq_init :: "unit res list \<Rightarrow> 'm freq_sink" where
  "freq_init env = sinkcharfreq_init \<lparr>rs_sent = [], rs_env = env, fq_counts = []\<rparr>"

text \<open>\<open>s[i]\<close> is the terminating zero at the end of the string and undefined past it.\<close>

definition string_at :: "string \<Rightarrow> nat \<Rightarrow> char res" where
  "string_at s i =
     (if i < length s then Inr (s ! i) else if i = length s then Inr (CHR 0x00)
      else Inl (Undefined ''string index''))"

definition charfreq_add :: "string \<Rightarrow> nat \<Rightarrow> int list \<Rightarrow> int list res" where
  "charfreq_add s i counts =
     rbind (string_at s i) (\<lambda>ch.
       case sscanf_x ch of
         None \<Rightarrow> Inl (Undefined ''c is not initialised'')
       | Some c \<Rightarrow> rmap (\<lambda>n. counts[i := n]) (add_int32 (counts ! i) c))"

definition sinkcharfreq_process :: "int \<Rightarrow> string list \<Rightarrow> 'm freq_sink \<Rightarrow> 'm freq_sink res" where
  "sinkcharfreq_process i data w =
     (if data = [] then Inl (Undefined ''(*data)[0]'')
      else if length (hd data) > 26 then Inl (Runtime_error ''ony handle up to 26 letters.'')
      else rmap (\<lambda>counts. w\<lparr>fq_counts := counts\<rparr>)
             (rfold (charfreq_add (hd data)) [0..<26] (fq_counts w)))"

definition charfreq_report :: "int \<Rightarrow> int list \<Rightarrow> JsonObject" where
  "charfreq_report total_ms counts =
     foldl (\<lambda>r i. JsonObject_add_int r [letter i] (counts ! i))
       (JsonObject_add_int Null ''elapsed'' total_ms) [0..<26]"

definition sinkcharfreq_results :: "('m, StringMsg) codec \<Rightarrow> int \<Rightarrow> 'm freq_sink \<Rightarrow> 'm freq_sink res" where
  "sinkcharfreq_results c total_ms w =
     rmap sinkcharfreq_init (send_results c (charfreq_report total_ms (fq_counts w)) w)"

definition sinkcharfreq :: "('m, StringMsg) codec \<Rightarrow> 'm freq_sink ISinkWorker" where
  "sinkcharfreq c =
     \<lparr>isw_first = \<lambda>i w. Inr w, isw_process = sinkcharfreq_process, isw_last = \<lambda>i w. Inr w,
      isw_results = sinkcharfreq_results c\<rparr>"

definition sinkcharfreq_main ::
  "json_reader \<Rightarrow> main_args \<Rightarrow> (string \<Rightarrow> socket) \<Rightarrow> ('m, SinkMsg) codec \<Rightarrow> ('m, KillMsg) codec \<Rightarrow> 'm \<Rightarrow>
   ('m, StringMsg) codec \<Rightarrow> timeval \<Rightarrow> 'm freq_sink \<Rightarrow> 'm turn list \<Rightarrow>
   ('m freq_sink sink_state, (int \<times> 'm freq_sink) res) outcome" where
  "sinkcharfreq_main reader args socks sc kc no_msg c now w evs =
     sink_main reader args socks sc kc no_msg (sinkcharfreq c) now w evs"

section \<open>sinkstrings\<close>

text \<open>The file \<open>results.dat\<close> and the socket.\<close>

record 'm strings_sink = "'m result_socket" +
  st_dat :: string

definition strings_init :: "unit res list \<Rightarrow> 'm strings_sink" where
  "strings_init env = \<lparr>rs_sent = [], rs_env = env, st_dat = []\<rparr>"

definition sinkstrings_process :: "int \<Rightarrow> string list \<Rightarrow> 'm strings_sink \<Rightarrow> 'm strings_sink res" where
  "sinkstrings_process i data w = Inr (w\<lparr>st_dat := st_dat w @ concat (map (\<lambda>s. s @ nl) data)\<rparr>)"

definition sinkstrings_results :: "('m, StringMsg) codec \<Rightarrow> int \<Rightarrow> 'm strings_sink \<Rightarrow> 'm strings_sink res" where
  "sinkstrings_results c total_ms w =
     send_results c (JsonObject_add_string (JsonObject_add_int Null ''elapsed'' total_ms) ''file'' ''results.dat'') w"

definition sinkstrings :: "('m, StringMsg) codec \<Rightarrow> 'm strings_sink ISinkWorker" where
  "sinkstrings c =
     \<lparr>isw_first = \<lambda>i w. Inr w, isw_process = sinkstrings_process, isw_last = \<lambda>i w. Inr w,
      isw_results = sinkstrings_results c\<rparr>"

definition sinkstrings_main ::
  "json_reader \<Rightarrow> main_args \<Rightarrow> (string \<Rightarrow> socket) \<Rightarrow> ('m, SinkMsg) codec \<Rightarrow> ('m, KillMsg) codec \<Rightarrow> 'm \<Rightarrow>
   ('m, StringMsg) codec \<Rightarrow> timeval \<Rightarrow> 'm strings_sink \<Rightarrow> 'm turn list \<Rightarrow>
   ('m strings_sink sink_state, (int \<times> 'm strings_sink) res) outcome" where
  "sinkstrings_main reader args socks sc kc no_msg c now w evs =
     sink_main reader args socks sc kc no_msg (sinkstrings c) now w evs"

section \<open>Pretty printing never fails\<close>

lemma output_pretty_total:
  "\<not> g_remove_trailing_zeros g \<Longrightarrow> \<exists>t. output_value g l v = Inr t"
  "\<not> g_remove_trailing_zeros g \<Longrightarrow> \<exists>t. output_members g l ms = Inr t"
  "\<not> g_remove_trailing_zeros g \<Longrightarrow> \<exists>t. output_elements g l vs = Inr t"
  "\<not> g_remove_trailing_zeros g \<Longrightarrow> \<exists>t. output_single_line g l us = Inr t"
  by (induction g l v and g l ms and g l vs and g l us
      rule: output_value_output_members_output_elements_output_single_line.induct)
    (auto simp: output_double_def)

lemma write_pretty_total: "\<exists>t. JsonObject_write j True = Inr t"
proof -
  have "\<not> g_remove_trailing_zeros (Generator 1)"
    by (simp add: Generator_def remove_trailing_zeros_def)
  then show ?thesis
    using output_pretty_total(1) [of "Generator 1" 0 j]
    by (simp add: JsonObject_write_def write_string_def logical_or_def pretty_print_def)
qed

section \<open>The average\<close>

definition avg_report :: "int \<Rightarrow> int list \<Rightarrow> JsonObject" where
  "avg_report total_ms ns =
     Obj [(''elapsed'', Value_of_int total_ms),
          (''average'', Real (dbl_div (dbl_of_int (sum_list ns)) (dbl_of_int (int (length ns)))))]"

definition avg_calls :: "int list \<Rightarrow> sink_call list" where
  "avg_calls ns = map (\<lambda>n. Call_process 0 [show_int n]) ns"

lemma avg_calls_sum:
  assumes "\<forall>n \<in> set ns. 0 \<le> n" and "0 \<le> av_total w" and "av_total w + sum_list ns \<le> 2147483647"
    and "0 \<le> av_count w" and "av_count w + int (length ns) \<le> 2147483647"
  shows "rfold (apply_call (sinkavg c)) (avg_calls ns) w =
    Inr (w\<lparr>av_total := av_total w + sum_list ns, av_count := av_count w + int (length ns)\<rparr>)"
  using assms
proof (induction ns arbitrary: w)
  case (Cons n ns)
  have "0 \<le> sum_list ns" using Cons.prems(1) by (intro sum_list_nonneg) auto
  with Cons.prems have n: "in_int32 n" "in_int32 (av_total w + n)" "in_int32 (av_count w + 1)"
    by (auto simp: in_int32_def)
  let ?w = "w\<lparr>av_total := av_total w + n, av_count := av_count w + 1\<rparr>"
  have "sinkavg_process 0 [show_int n] w = Inr ?w"
    using n by (simp add: sinkavg_process_def lexical_cast_show_int add_int32_def)
  then have "apply_call (sinkavg c) (Call_process 0 [show_int n]) w = Inr ?w" by (simp add: sinkavg_def)
  with Cons.IH [of ?w] Cons.prems show ?case by (simp add: avg_calls_def algebra_simps)
qed (simp add: avg_calls_def)

lemma avg_results:
  assumes "rs_env w = []" and "av_total w = sum_list ns" and "av_count w = int (length ns)"
    and "JsonObject_write (avg_report t ns) True = Inr js"
  shows "apply_call (sinkavg c) (Call_results t) w =
    Inr (w\<lparr>rs_sent := rs_sent w @ [Msg_set c (DataMsg_make 0 0 js)]\<rparr>)"
proof -
  have "JsonObject_add_double (JsonObject_add_int Null ''elapsed'' t) ''average''
      (dbl_div (dbl_of_int (av_total w)) (dbl_of_int (av_count w))) = avg_report t ns"
    using assms(2,3) by (simp add: JsonObject_add_double_def JsonObject_add_int_def JsonObject_add_def avg_report_def)
  then show ?thesis
    using assms(1,4) by (simp add: sinkavg_def sinkavg_results_def send_results_def result_send_def)
qed

text \<open>
  \<open>sinkavg\<close> averages over its whole life and not over a batch: after the numbers \<open>xs\<close> of a
  first batch it reports their average, and after the numbers \<open>ys\<close> of a second the average of all
  of them, because nothing resets the total and the count (as \<open>sinkcharfreq\<close> does).
\<close>

theorem sinkavg_never_resets:
  assumes "\<forall>n \<in> set (xs @ ys). 0 \<le> n" and "sum_list (xs @ ys) \<le> 2147483647"
    and "int (length (xs @ ys)) \<le> 2147483647"
  shows "\<exists>t1 t2 w. JsonObject_write (avg_report ms1 xs) True = Inr t1
    \<and> JsonObject_write (avg_report ms2 (xs @ ys)) True = Inr t2
    \<and> rfold (apply_call (sinkavg c))
        (avg_calls xs @ [Call_results ms1] @ avg_calls ys @ [Call_results ms2]) (avg_init []) = Inr w
    \<and> rs_sent w = [Msg_set c (DataMsg_make 0 0 t1), Msg_set c (DataMsg_make 0 0 t2)]"
proof -
  have pos: "0 \<le> sum_list xs" "0 \<le> sum_list ys" using assms(1) by (auto intro: sum_list_nonneg)
  obtain t1 where t1: "JsonObject_write (avg_report ms1 xs) True = Inr t1" using write_pretty_total by blast
  obtain t2 where t2: "JsonObject_write (avg_report ms2 (xs @ ys)) True = Inr t2" using write_pretty_total by blast
  let ?w0 = "avg_init [] :: 'a avg_sink"
  let ?w1 = "?w0\<lparr>av_total := sum_list xs, av_count := int (length xs)\<rparr>"
  let ?w2 = "?w1\<lparr>rs_sent := [Msg_set c (DataMsg_make 0 0 t1)]\<rparr>"
  let ?w3 = "?w2\<lparr>av_total := sum_list (xs @ ys), av_count := int (length (xs @ ys))\<rparr>"
  have 1: "rfold (apply_call (sinkavg c)) (avg_calls xs) ?w0 = Inr ?w1"
    using assms pos by (subst avg_calls_sum) (auto simp: avg_init_def)
  have 2: "apply_call (sinkavg c) (Call_results ms1) ?w1 = Inr ?w2"
    using avg_results [of ?w1 xs ms1 t1 c] t1 by (simp add: avg_init_def)
  have 3: "rfold (apply_call (sinkavg c)) (avg_calls ys) ?w2 = Inr ?w3"
    using assms pos by (subst avg_calls_sum) (auto simp: avg_init_def)
  have 4: "apply_call (sinkavg c) (Call_results ms2) ?w3 =
      Inr (?w3\<lparr>rs_sent := rs_sent ?w3 @ [Msg_set c (DataMsg_make 0 0 t2)]\<rparr>)"
    using t2 by (intro avg_results) (simp_all add: avg_init_def)
  have "rfold (apply_call (sinkavg c))
      (avg_calls xs @ [Call_results ms1] @ avg_calls ys @ [Call_results ms2]) ?w0 =
      Inr (?w3\<lparr>rs_sent := rs_sent ?w3 @ [Msg_set c (DataMsg_make 0 0 t2)]\<rparr>)"
    by (simp only: rfold_append rfold.simps rbind_simps 1 2 3 4)
  with t1 t2 show ?thesis by (auto simp: avg_init_def)
qed

theorem sinkavg_never_resets_witness:
  "\<exists>t1 t2 w. JsonObject_write (avg_report 10 [2, 4]) True = Inr t1
    \<and> JsonObject_write (avg_report 20 ([2, 4] @ [9])) True = Inr t2
    \<and> rfold (apply_call (sinkavg plain_codec))
        (avg_calls [2, 4] @ [Call_results 10] @ avg_calls [9] @ [Call_results 20]) (avg_init []) = Inr w
    \<and> rs_sent w = [Msg_set plain_codec (DataMsg_make 0 0 t1), Msg_set plain_codec (DataMsg_make 0 0 t2)]"
  by (rule sinkavg_never_resets) simp_all

theorem Sink_run_refines_calls_witness:
  "\<exists>js. run (sink_turn plain_codec kill_in_id (0, 0, []) (sinkstrings (plain_codec :: (StringMsg, StringMsg) codec)))
      (with_worker (strings_init []) (sink_init \<lparr>tv_sec = 0, tv_usec = 0\<rparr> []))
      [msg_turn (1, 0, []) 0, msg_turn (3, 0, []) 0, msg_turn (2, 0, [''b'', ''c'']) 0] =
    (Continue (with_worker ((strings_init []) \<lparr>st_dat := ''b'' @ nl @ ''c'' @ nl, rs_sent := [(0, 0, js)]\<rparr>)
       \<lparr>ss_worker = (), ss_tracker = MsgTracker_init, ss_elapsed = \<lparr>tv_sec = 0, tv_usec = 0\<rparr>, ss_retries = 0\<rparr>), [])"
proof -
  let ?s = "sink_init \<lparr>tv_sec = 0, tv_usec = 0\<rparr> [] :: sink_call list sink_state"
  let ?s' = "\<lparr>ss_worker = [Call_first 0, Call_last 0, Call_process 0 [''b'', ''c''], Call_results 0],
       ss_tracker = MsgTracker_init, ss_elapsed = \<lparr>tv_sec = 0, tv_usec = 0\<rparr>, ss_retries = 0\<rparr>"
  have "run (sink_turn plain_codec kill_in_id (0, 0, []) trace_worker) ?s
      [msg_turn (1, 0, []) 0, msg_turn (3, 0, []) 0, msg_turn (2, 0, [''b'', ''c'']) 0] = (Continue ?s', [])"
    using sink_batch_trace [of 0 0 ?s plain_codec "msg_turn (1, 0, []) 0" "[]" "[msg_turn (3, 0, []) 0]"
        "[(3, 0, [])]" "msg_turn (2, 0, [''b'', ''c'']) 0" "(2, 0, [''b'', ''c''])" kill_in_id "(0, 0, [])"]
    by (auto simp: id_ok_def sink_init_def body_msg_def op_of_def call_of_def SinkMsg_defs batch_ops_def
        op_ids_def op_lasts_def all_received_def Elapsed_getTotal_def in_int32_def simp del: run.simps)
  moreover obtain js where "JsonObject_write (JsonObject_add_string (JsonObject_add_int Null ''elapsed'' 0) ''file'' ''results.dat'') True = Inr js"
    using write_pretty_total by blast
  then have "rfold (apply_call (sinkstrings (plain_codec :: (StringMsg, StringMsg) codec))) (ss_worker ?s') (strings_init []) =
      Inr ((strings_init []) \<lparr>st_dat := ''b'' @ nl @ ''c'' @ nl, rs_sent := [(0, 0, js)]\<rparr>)"
    by (simp add: sinkstrings_def sinkstrings_process_def sinkstrings_results_def send_results_def result_send_def
        strings_init_def plain_codec_def Msg_set_def DataMsg_make_def)
  ultimately show ?thesis
    using Sink_run_refines_calls [of plain_codec kill_in_id "(0, 0, [])" ?s
        "[msg_turn (1, 0, []) 0, msg_turn (3, 0, []) 0, msg_turn (2, 0, [''b'', ''c'']) 0]" ?s'
        "sinkstrings (plain_codec :: (StringMsg, StringMsg) codec)" "strings_init []"]
    by (auto simp: sink_init_def with_worker_def simp del: run.simps)
qed

end
