(* ===== verification/Charfreq.thy ===== *)
theory Charfreq
  imports Sinks
begin

text \<open>
  The letter-frequency machine: what \<open>work/workcharfreq.cpp\<close> counts in each word,
  \<open>sink/sinkcharfreq.cpp\<close> adds up, through the tracker and the loop of \<open>core/Sink.cpp\<close>, in whatever
  order the workers' answers arrive.
\<close>

section \<open>Adding up\<close>

abbreviation counts_of :: "(nat \<Rightarrow> int) \<Rightarrow> int list" where
  "counts_of f \<equiv> map f [0..<26]"

lemma charfreq_add_step:
  assumes "k < 26" and "f k < 16" and "in_int32 (g k + int (f k))"
  shows "charfreq_add (freq_string f) k (counts_of g) = Inr (counts_of (g(k := g k + int (f k))))"
proof -
  have "(counts_of g)[k := g k + int (f k)] = counts_of (g(k := g k + int (f k)))"
    using assms(1) by (intro nth_equalityI) (auto simp: nth_list_update)
  with assms show ?thesis
    by (simp add: charfreq_add_def string_at_def freq_string_def add_int32_def)
qed

lemma charfreq_add_all:
  assumes "\<forall>k < 26. f k < 16 \<and> in_int32 (g k + int (f k))" and "n \<le> 26"
  shows "rfold (charfreq_add (freq_string f)) [0..<n] (counts_of g) =
    Inr (counts_of (\<lambda>k. if k < n then g k + int (f k) else g k))"
  using assms(2)
proof (induction n)
  case (Suc n)
  let ?h = "\<lambda>k. if k < n then g k + int (f k) else g k"
  have "charfreq_add (freq_string f) n (counts_of ?h) = Inr (counts_of (?h(n := ?h n + int (f n))))"
    using assms(1) Suc.prems by (intro charfreq_add_step) auto
  moreover have "counts_of (?h(n := ?h n + int (f n))) = counts_of (\<lambda>k. if k < Suc n then g k + int (f k) else g k)"
    by auto
  ultimately show ?case using Suc by (simp add: rfold_append)
qed simp

lemma sinkcharfreq_process_counts:
  assumes "\<forall>k < 26. f k < 16 \<and> in_int32 (g k + int (f k))" and "fq_counts w = counts_of g"
  shows "sinkcharfreq_process i [freq_string f] w = Inr (w\<lparr>fq_counts := counts_of (\<lambda>k. g k + int (f k))\<rparr>)"
proof -
  have "counts_of (\<lambda>k. if k < 26 then g k + int (f k) else g k) = counts_of (\<lambda>k. g k + int (f k))" by auto
  with charfreq_add_all [OF assms(1), of 26] assms(2) show ?thesis
    by (simp add: sinkcharfreq_process_def) (simp add: freq_string_def)
qed

text \<open>The messages of a batch as the sink sees them: an answer with the letters of a word, or the
  announcement of the last id.\<close>

definition answer_msg :: "int \<Rightarrow> string \<Rightarrow> SinkMsg" where
  "answer_msg i word = (2, i, [freq_string (letters_in word)])"

definition msg_letters :: "SinkMsg \<Rightarrow> nat \<Rightarrow> int" where
  "msg_letters m k =
     (if SinkMsg_getCode m = 2 then the (sscanf_x (hd (SinkMsg_getData m) ! k)) else 0)"

definition short_word :: "string \<Rightarrow> bool" where
  "short_word word \<longleftrightarrow> list_all is_lower word \<and> (\<forall>i < 26. count_list word (letter i) \<le> 15)"

lemma short_word_letters:
  "short_word word \<longleftrightarrow>
     list_all is_lower word \<and> list_all (\<lambda>c. count_list word c \<le> 15) ''abcdefghijklmnopqrstuvwxyz''"
  using letters_all [of "\<lambda>c. count_list word c \<le> 15"] by (simp only: short_word_def)

definition freq_msg :: "SinkMsg \<Rightarrow> bool" where
  "freq_msg m \<longleftrightarrow> (\<exists>i word. short_word word \<and> m = answer_msg i word) \<or> (\<exists>i d. m = (3, i, d))"

lemma freq_msg_intros: "short_word word \<Longrightarrow> freq_msg (answer_msg i word)" "freq_msg (3, i, d)"
  by (auto simp: freq_msg_def)

lemma letters_in_short: "short_word word \<Longrightarrow> i < 26 \<Longrightarrow> letters_in word i < 16"
  by (auto simp: short_word_def letters_in_def less_Suc_eq_le numeral_eq_Suc)

lemma msg_letters_answer [simp]:
  "short_word word \<Longrightarrow> k < 26 \<Longrightarrow> msg_letters (answer_msg i word) k = int (letters_in word k)"
  "msg_letters (3, i, d) k = 0"
  by (simp_all add: msg_letters_def answer_msg_def SinkMsg_defs freq_string_def letters_in_short)

lemma charfreq_calls:
  assumes "list_all freq_msg ms" and "fq_counts w = counts_of g" and "\<forall>k < 26. 0 \<le> g k"
    and "\<forall>k < 26. g k + (\<Sum>m\<leftarrow>ms. msg_letters m k) \<le> 2147483647"
  shows "rfold (apply_call (sinkcharfreq c)) (map call_of ms) w =
    Inr (w\<lparr>fq_counts := counts_of (\<lambda>k. g k + (\<Sum>m\<leftarrow>ms. msg_letters m k))\<rparr>)"
  using assms
proof (induction ms arbitrary: w g)
  case Nil
  then show ?case by simp
next
  case (Cons m ms)
  have nonneg: "0 \<le> msg_letters x k" if "x \<in> set ms" "k < 26" for x k
    using Cons.prems(1) that by (auto simp: list_all_iff freq_msg_def)
  then have sum: "0 \<le> (\<Sum>x\<leftarrow>ms. msg_letters x k)" if "k < 26" for k
    using that by (intro sum_list_nonneg) auto
  from Cons.prems(1) consider i word where "short_word word" "m = answer_msg i word" | i d where "m = (3, i, d)"
    by (auto simp: freq_msg_def)
  then show ?case
  proof cases
    case 1
    let ?g = "\<lambda>k. g k + int (letters_in word k)"
    have bound: "?g k + (\<Sum>x\<leftarrow>ms. msg_letters x k) \<le> 2147483647" "0 \<le> ?g k" if "k < 26" for k
      using Cons.prems(3,4) that 1 by (auto simp: algebra_simps)
    then have "\<forall>k < 26. letters_in word k < 16 \<and> in_int32 (?g k)"
      using sum letters_in_short [OF 1(1)] by (fastforce simp: in_int32_def)
    then have "sinkcharfreq_process i [freq_string (letters_in word)] w = Inr (w\<lparr>fq_counts := counts_of ?g\<rparr>)"
      using Cons.prems(2) by (rule sinkcharfreq_process_counts)
    then have "apply_call (sinkcharfreq c) (call_of m) w = Inr (w\<lparr>fq_counts := counts_of ?g\<rparr>)"
      by (simp add: 1(2) answer_msg_def call_of_def SinkMsg_defs sinkcharfreq_def)
    moreover have "counts_of (\<lambda>k. ?g k + (\<Sum>x\<leftarrow>ms. msg_letters x k)) =
        counts_of (\<lambda>k. g k + (\<Sum>x\<leftarrow>m # ms. msg_letters x k))"
      using 1 by (auto simp: algebra_simps)
    ultimately show ?thesis
      using Cons.IH [of "w\<lparr>fq_counts := counts_of ?g\<rparr>" ?g] Cons.prems(1) bound by simp
  next
    case 2
    then have "apply_call (sinkcharfreq c) (call_of m) w = Inr w"
      by (simp add: call_of_def SinkMsg_defs sinkcharfreq_def)
    with 2 Cons show ?thesis by simp
  qed
qed

section \<open>The batch\<close>

text \<open>What the workers answer to the words \<open>ws\<close>, numbered from 0, and the announcement of the
  last id by the vent.\<close>

definition batch_msgs :: "string list \<Rightarrow> string list \<Rightarrow> SinkMsg list" where
  "batch_msgs ws d = (3, int (length ws) - 1, d) # map (\<lambda>(i, word). answer_msg (int i) word) (enumerate 0 ws)"

lemma ops_batch: "map op_of (batch_msgs ws d) =
  SetLast (int (length ws) - 1) # map (\<lambda>i. Track (int i)) [0..<length ws]"
proof -
  have "map (\<lambda>x. op_of (case x of (i, word) \<Rightarrow> answer_msg (int i) word)) (enumerate k ws) =
      map (\<lambda>i. Track (int i)) [k..<k + length ws]" for k
  proof (induction ws arbitrary: k)
    case (Cons w ws)
    then show ?case by (simp add: op_of_def answer_msg_def SinkMsg_defs upt_conv_Cons del: upt_Suc)
  qed simp
  from this [of 0] show ?thesis by (simp add: batch_msgs_def op_of_def SinkMsg_defs comp_def)
qed

lemma mset_op_lasts:
  "mset (op_lasts xs) = sum_mset (image_mset (\<lambda>x. case x of SetLast l \<Rightarrow> {#l#} | Track _ \<Rightarrow> {#}) (mset xs))"
  by (induction xs) (auto simp: op_lasts_def split: track_op.split)

text \<open>However the messages of a batch are ordered, the sink has them all with the last one to
  come, and not before.\<close>

lemma batch_any_order:
  assumes "mset (ms @ [m]) = mset (batch_msgs ws d)"
  shows "batch_ops 0 (int (length ws) - 1) (map op_of (ms @ [m]))"
    and "all_received 0 (int (length ws) - 1) (ms @ [m])"
    and "ws \<noteq> [] \<Longrightarrow> \<not> all_received 0 (int (length ws) - 1) ms"
proof -
  let ?l = "int (length ws) - 1" and ?ops = "map op_of (ms @ [m])" and ?all = "map op_of (batch_msgs ws d)"
  have mset: "mset ?ops = mset ?all" using assms by (metis mset_map)
  then have set: "set ?ops = set ?all" by (rule mset_eq_setD)
  have ids: "op_ids ?ops = {0..?l}"
  proof -
    have "Track i \<in> set ?all \<longleftrightarrow> i \<in> {0..?l}" for i
      by (auto simp: ops_batch image_iff) (metis atLeastLessThan_iff int_nat_eq le0 nat_less_iff of_nat_0_le_iff zle_diff1_eq)
    with set show ?thesis by (auto simp: op_ids_def)
  qed
  have "mset (op_lasts ?ops) = mset (op_lasts ?all)" by (simp only: mset_op_lasts mset)
  moreover have "op_lasts ?all = [?l]" by (simp add: ops_batch op_lasts_def comp_def)
  ultimately have lasts: "op_lasts ?ops = [?l]" by simp
  show "batch_ops 0 ?l ?ops" using ids lasts by (simp add: batch_ops_def)
  show "all_received 0 ?l (ms @ [m])" using ids lasts by (simp add: all_received_def)
  have "distinct ?all" by (auto simp: ops_batch distinct_map inj_on_def)
  then have "distinct ?ops" using mset mset_eq_imp_distinct_iff by blast
  then have new: "op_of m \<notin> set (map op_of ms)" by simp
  show "\<not> all_received 0 ?l ms"
  proof (cases "op_of m")
    case (Track i)
    then have "i \<in> op_ids ?ops" by (simp add: op_ids_def)
    moreover have "i \<notin> op_ids (map op_of ms)" using new Track by (simp add: op_ids_def)
    ultimately show ?thesis using ids by (auto simp: all_received_def)
  next
    case (SetLast j)
    then have "op_lasts ?ops = op_lasts (map op_of ms) @ [j]" by (simp add: op_lasts_def)
    with lasts show ?thesis by (simp add: all_received_def)
  qed
qed

lemma batch_letters:
  assumes "mset ms = mset (batch_msgs ws d)" and "list_all short_word ws" and "k < 26"
  shows "(\<Sum>m\<leftarrow>ms. msg_letters m k) = int (count_list (concat ws) (letter k))"
proof -
  have "(\<Sum>m\<leftarrow>ms. msg_letters m k) = (\<Sum>m\<leftarrow>batch_msgs ws d. msg_letters m k)"
    using assms(1) by (metis mset_map sum_mset_sum_list)
  also have "\<dots> = (\<Sum>word\<leftarrow>ws. int (letters_in word k))"
  proof -
    have "(\<Sum>x\<leftarrow>enumerate j ws. msg_letters (case x of (i, word) \<Rightarrow> answer_msg (int i) word) k) =
        (\<Sum>word\<leftarrow>ws. int (letters_in word k))" for j
      using assms(2,3) by (induction ws arbitrary: j) auto
    then show ?thesis by (simp add: batch_msgs_def comp_def)
  qed
  also have "\<dots> = int (count_list (concat ws) (letter k))"
    by (induction ws) (simp_all add: letters_in_def)
  finally show ?thesis .
qed

lemma batch_ops_prefix: "batch_ops f l (xs @ ys) \<Longrightarrow> batch_ops f l xs"
proof (induction ys rule: rev_induct)
  case (snoc y ys)
  then show ?case using batch_ops_butlast [of f l "xs @ ys" y] by simp
qed simp

text \<open>Before the last message has come the sink has sent nothing.\<close>

lemma charfreq_partial:
  assumes "list_all short_word ws" and "ws \<noteq> []" and "int (length (concat ws)) \<le> 2147483647"
    and "int (length ws) \<le> 2147483647"
    and "mset (ms @ rest) = mset (batch_msgs ws d)" and "rest \<noteq> []"
    and "delivers sc ev (1, 0, d0)" and "list_all2 (delivers sc) evs ms"
  shows "\<exists>k. run (sink_turn sc kc no_msg (sinkcharfreq c)) (sink_init now (freq_init [])) (ev # evs) = (Continue k, [])
    \<and> rs_sent (ss_worker k) = []"
proof -
  let ?l = "int (length ws) - 1" and ?f = "\<lambda>k. \<Sum>m\<leftarrow>ms. msg_letters m k"
  let ?s = "sink_init now [] :: sink_call list sink_state" and ?w0 = "freq_init [] :: 'c freq_sink"
  let ?ms = "ms @ butlast rest" and ?m = "List.last rest"
  have all: "mset (?ms @ [?m]) = mset (batch_msgs ws d)" using assms(5,6) by simp
  have freq: "list_all freq_msg (?ms @ [?m])"
    using assms(1) unfolding list_all_iff mset_eq_setD [OF all] batch_msgs_def
    by (auto simp: in_set_enumerate_eq intro!: freq_msg_intros nth_mem)
  then have freq': "list_all freq_msg ms" "list_all freq_msg rest" using assms(6)
    by (auto simp: list_all_iff in_set_butlastD)
  then have body: "list_all body_msg ms"
    by (auto simp: list_all_iff freq_msg_def body_msg_def answer_msg_def SinkMsg_defs)
  have ids: "id_ok 0" "id_ok ?l" "0 \<le> ?l" using assms(2,4) by (cases ws; simp add: id_ok_def)+
  have ops: "batch_ops 0 ?l (map op_of ?ms)" "batch_ops 0 ?l (map op_of ms)"
    using batch_any_order(1) [OF all] batch_ops_prefix [of 0 ?l "map op_of ?ms" "[op_of ?m]"]
      batch_ops_prefix [of 0 ?l "map op_of ms" "map op_of (butlast rest)"] by simp_all
  have open_batch: "\<not> all_received 0 ?l ms"
    using all_received_mono [OF ops(1)] batch_any_order(3) [OF all assms(2)] by blast
  obtain t where t: "run (sink_turn sc kc no_msg trace_worker) ?s (ev # evs) =
      (Continue (?s\<lparr>ss_worker := ss_worker ?s @ Call_first 0 # map call_of ms, ss_tracker := t,
                    ss_elapsed := clock_start ev, ss_retries := 0\<rparr>), [])"
    using sink_collects [OF ids _ assms(7,8) body ops(2) open_batch, of ?s kc no_msg] by (auto simp: sink_init_def)
  have zero: "fq_counts ?w0 = counts_of (\<lambda>_. 0)"
    by (simp add: freq_init_def sinkcharfreq_init_def map_replicate_const)
  have le: "0 + ?f k \<le> 2147483647" if "k < 26" for k
  proof -
    have nonneg: "0 \<le> (\<Sum>m\<leftarrow>rest. msg_letters m k)"
      using freq'(2) that by (intro sum_list_nonneg) (auto simp: list_all_iff freq_msg_def)
    have "?f k + (\<Sum>m\<leftarrow>rest. msg_letters m k) = int (count_list (concat ws) (letter k))"
      using batch_letters [OF assms(5,1) that] by simp
    then show ?thesis using nonneg count_le_length [of "concat ws" "letter k"] assms(3) by linarith
  qed
  have calls: "rfold (apply_call (sinkcharfreq c)) (map call_of ms) ?w0 = Inr (?w0\<lparr>fq_counts := counts_of (\<lambda>k. 0 + ?f k)\<rparr>)"
    by (rule charfreq_calls [OF freq'(1) zero]) (use le in auto)
  have first: "apply_call (sinkcharfreq c) (Call_first 0) ?w0 = Inr ?w0" by (simp add: sinkcharfreq_def)
  have "rfold (apply_call (sinkcharfreq c)) (Call_first 0 # map call_of ms) ?w0 =
      Inr (?w0\<lparr>fq_counts := counts_of (\<lambda>k. 0 + ?f k)\<rparr>)"
    by (simp only: rfold.simps first calls rbind_simps)
  with sink_run_worker [OF t, of "sinkcharfreq c"] show ?thesis
    by (auto simp: sink_init_def with_worker_def freq_init_def sinkcharfreq_init_def)
qed

text \<open>The last message brings the report.\<close>

lemma charfreq_batch:
  assumes "list_all short_word ws" and "ws \<noteq> []" and "int (length (concat ws)) \<le> 2147483647"
    and "int (length ws) \<le> 2147483647"
    and "mset (ms @ [m]) = mset (batch_msgs ws d)"
    and "delivers sc ev (1, 0, d0)" and "list_all2 (delivers sc) evs ms" and "delivers sc e m"
  shows "\<exists>text. JsonObject_write (charfreq_report (Elapsed_getTotal (clock_start ev) (clock_total e))
        (map (\<lambda>k. int (count_list (concat ws) (letter k))) [0..<26])) True = Inr text
    \<and> run (sink_turn sc kc no_msg (sinkcharfreq c)) (sink_init now (freq_init [])) (ev # evs @ [e]) =
      (Continue \<lparr>ss_worker = (freq_init []) \<lparr>rs_sent := [Msg_set c (DataMsg_make 0 0 text)]\<rparr>,
         ss_tracker = MsgTracker_init, ss_elapsed = clock_start ev, ss_retries = 0\<rparr>, [])"
proof -
  let ?l = "int (length ws) - 1" and ?f = "\<lambda>k. int (count_list (concat ws) (letter k))"
  let ?s = "sink_init now [] :: sink_call list sink_state"
  let ?ms = "ms @ [m]" and ?ms_results = "Elapsed_getTotal (clock_start ev) (clock_total e)"
  have set: "set ?ms = set (batch_msgs ws d)" using assms(5) by (rule mset_eq_setD)
  have freq: "list_all freq_msg ?ms"
    using assms(1) unfolding list_all_iff set batch_msgs_def
    by (auto simp: in_set_enumerate_eq intro!: freq_msg_intros nth_mem)
  have body: "list_all body_msg ?ms"
    using freq by (auto simp: list_all_iff freq_msg_def body_msg_def answer_msg_def SinkMsg_defs)
  have ids: "id_ok 0" "id_ok ?l" "0 \<le> ?l" using assms(2,4) by (cases ws; simp add: id_ok_def)+
  have trace: "run (sink_turn sc kc no_msg trace_worker) ?s (ev # evs @ [e]) =
      (Continue \<lparr>ss_worker = Call_first 0 # map call_of ?ms @ [Call_results ?ms_results],
         ss_tracker = MsgTracker_init, ss_elapsed = clock_start ev, ss_retries = 0\<rparr>, [])"
    using sink_batch_trace [OF ids _ assms(6,7,8) body batch_any_order(1) [OF assms(5)]
        batch_any_order(3) [OF assms(5,2)] batch_any_order(2) [OF assms(5)], of ?s kc no_msg]
    by (simp add: sink_init_def)
  obtain js where report: "JsonObject_write (charfreq_report ?ms_results (counts_of ?f)) True = Inr js"
    using write_pretty_total by blast
  let ?w0 = "freq_init [] :: 'c freq_sink"
  have zero: "fq_counts ?w0 = counts_of (\<lambda>_. 0)"
    by (simp add: freq_init_def sinkcharfreq_init_def map_replicate_const)
  have sums: "(\<Sum>x\<leftarrow>?ms. msg_letters x k) = ?f k" if "k < 26" for k
    using batch_letters [OF assms(5,1) that] .
  have "?f k \<le> 2147483647" for k
    using count_le_length [of "concat ws" "letter k"] assms(3) by linarith
  then have "rfold (apply_call (sinkcharfreq c)) (map call_of ?ms) ?w0 =
      Inr (?w0\<lparr>fq_counts := counts_of (\<lambda>k. 0 + (\<Sum>x\<leftarrow>?ms. msg_letters x k))\<rparr>)"
    using sums by (intro charfreq_calls [OF freq zero]) auto
  also have "counts_of (\<lambda>k. 0 + (\<Sum>x\<leftarrow>?ms. msg_letters x k)) = counts_of ?f"
    using sums by auto
  finally have calls: "rfold (apply_call (sinkcharfreq c)) (map call_of ?ms) ?w0 = Inr (?w0\<lparr>fq_counts := counts_of ?f\<rparr>)" .
  have final: "apply_call (sinkcharfreq c) (Call_results ?ms_results) (?w0\<lparr>fq_counts := counts_of ?f\<rparr>) =
      Inr (?w0\<lparr>rs_sent := [Msg_set c (DataMsg_make 0 0 js)]\<rparr>)"
    by (simp add: sinkcharfreq_def sinkcharfreq_results_def send_results_def report result_send_def
        freq_init_def sinkcharfreq_init_def)
  have first: "apply_call (sinkcharfreq c) (Call_first 0) ?w0 = Inr ?w0" by (simp add: sinkcharfreq_def)
  have "rfold (apply_call (sinkcharfreq c)) (Call_first 0 # map call_of ?ms @ [Call_results ?ms_results]) ?w0 =
      Inr (?w0\<lparr>rs_sent := [Msg_set c (DataMsg_make 0 0 js)]\<rparr>)"
    by (simp only: rfold.simps first calls final rfold_append rbind_simps)
  with sink_run_worker [OF trace, of "sinkcharfreq c"] report show ?thesis
    by (auto simp: sink_init_def with_worker_def)
qed

text \<open>
  Claim C2.  The letter-frequency machine counts: give the sink the announcement of the first id,
  and then the workers' answers to the words \<open>ws\<close> and the announcement of the last id in any order.
  On the last of them to arrive, and not before, it sends one message, the report with the number
  of occurrences of each letter in all the words together; it is then ready for the next batch,
  with the counts back at zero.
\<close>

theorem charfreq_machine_counts:
  assumes "list_all short_word ws" and "ws \<noteq> []" and "int (length (concat ws)) \<le> 2147483647"
    and "int (length ws) \<le> 2147483647"
    and "mset (ms @ [m]) = mset (batch_msgs ws d)"
    and "delivers sc ev (1, 0, d0)" and "list_all2 (delivers sc) evs ms" and "delivers sc e m"
  shows "\<exists>text. JsonObject_write (charfreq_report (Elapsed_getTotal (clock_start ev) (clock_total e))
        (map (\<lambda>k. int (count_list (concat ws) (letter k))) [0..<26])) True = Inr text
    \<and> run (sink_turn sc kc no_msg (sinkcharfreq c)) (sink_init now (freq_init [])) (ev # evs @ [e]) =
      (Continue \<lparr>ss_worker = (freq_init []) \<lparr>rs_sent := [Msg_set c (DataMsg_make 0 0 text)]\<rparr>,
         ss_tracker = MsgTracker_init, ss_elapsed = clock_start ev, ss_retries = 0\<rparr>, [])"
  by (rule charfreq_batch [OF assms])

theorem charfreq_machine_counts_witness:
  "\<exists>text. JsonObject_write (charfreq_report 5000
        (map (\<lambda>k. int (count_list (concat [''ab'', ''b'']) (letter k))) [0..<26])) True = Inr text
    \<and> run (sink_turn plain_codec kill_in_id (0, 0, []) (sinkcharfreq \<lparr>pack = \<lambda>(i, t, s). (i, t, [s]), unpack = \<lambda>_. Inl Msgpack_error\<rparr>))
        (sink_init \<lparr>tv_sec = 0, tv_usec = 0\<rparr> (freq_init []))
        ([msg_turn (1, 0, []) 0, msg_turn (3, 1, []) 0, msg_turn (answer_msg 1 ''b'') 0, msg_turn (answer_msg 0 ''ab'') 5]) =
      (Continue \<lparr>ss_worker = (freq_init []) \<lparr>rs_sent := [(0, 0, [text])]\<rparr>,
         ss_tracker = MsgTracker_init, ss_elapsed = \<lparr>tv_sec = 0, tv_usec = 0\<rparr>, ss_retries = 0\<rparr>, [])"
proof -
  have words: "list_all short_word [''ab'', ''b'']" by (simp add: short_word_letters is_lower_def)
  have "Elapsed_getTotal (clock_start (msg_turn (1, 0, []) 0 :: SinkMsg turn)) (clock_total (msg_turn (answer_msg 0 ''ab'') 5)) = 5000"
    "clock_start (msg_turn (1, 0, []) 0 :: SinkMsg turn) = \<lparr>tv_sec = 0, tv_usec = 0\<rparr>"
    by (simp_all add: msg_turn_def Elapsed_getTotal_def to_int32_def)
  with charfreq_machine_counts [OF words, of "[(3, 1, []), answer_msg 1 ''b'']" "answer_msg 0 ''ab''" "[]"
      plain_codec "msg_turn (1, 0, []) 0" "[]" "[msg_turn (3, 1, []) 0, msg_turn (answer_msg 1 ''b'') 0]"
      "msg_turn (answer_msg 0 ''ab'') 5" kill_in_id "(0, 0, [])"
      "\<lparr>pack = \<lambda>(i, t, s). (i, t, [s]), unpack = \<lambda>_. Inl Msgpack_error\<rparr>" "\<lparr>tv_sec = 0, tv_usec = 0\<rparr>"]
  show ?thesis
    by (simp add: batch_msgs_def Msg_set_def DataMsg_make_def)
qed

section \<open>The workers\<close>

text \<open>
  The worker's side of the machine: given numbered words and then told to quit, it ends
  with exit code 0 and has sent, in order, the answers that the sink above adds up.
\<close>

theorem workcharfreq_answers:
  assumes "codec_ok c" and "list_all (short_word \<circ> snd) words"
    and "list_all2 (\<lambda>ev (i, word). work_delivers ev (Msg_set c (DataMsg_make i (clk i) word))) evs words"
    and "work_killed kc ev" and "wk_env w = []"
  shows "\<exists>w'. worker_loop kc no_msg (workcharfreq_processMsg c sc) w (evs @ ev # rest) = Stop (Inr (0, w'))
    \<and> wk_sent w' = wk_sent w @ map (\<lambda>(i, word). Msg_set sc (answer_msg i word)) words"
proof -
  let ?as = "map (\<lambda>(i, word). (i, [freq_string (letters_in word)])) words"
  let ?ms = "map (\<lambda>(i, word). Msg_set c (DataMsg_make i (clk i) word)) words"
  have word: "charfreq_word word = Inr (freq_string (letters_in word))" if "short_word word" for word
    using that charfreq_word_freq by (simp add: short_word_def)
  have "list_all2 (charfreq.reply c) ?ms ?as"
    using assms(1,2) word
    by (auto simp: list_all2_conv_all_nth charfreq.reply_def decode_data_def DataMsg_defs list_all_length
        split: prod.split)
  moreover have "list_all2 work_delivers evs ?ms"
    using assms(3) by (auto simp: list_all2_conv_all_nth split: prod.splits)
  moreover have sent: "map (\<lambda>(i, v). Msg_set sc (2, i, v)) ?as = map (\<lambda>(i, word). Msg_set sc (answer_msg i word)) words"
    by (auto simp: answer_msg_def split: prod.split)
  ultimately show ?thesis
    using charfreq.loop_answers [OF _ assms(4) _ assms(5), of evs ?ms c ?as no_msg sc rest] by (simp only: sent)
qed

theorem workcharfreq_answers_witness:
  "\<exists>w'. worker_loop (\<lparr>pack = \<lambda>k. (k, 0, []), unpack = \<lambda>(i, t, s). Inr i\<rparr> :: (StringMsg, KillMsg) codec) (0, 0, [])
       (workcharfreq_processMsg plain_codec \<lparr>pack = \<lambda>(a, b, d). (b, a, hd d), unpack = \<lambda>_. Inl Msgpack_error\<rparr>)
       (worker_init []) [msg_work_turn (4, 9, ''ab''), kill_work_turn (0, 0, [])]
     = Stop (Inr (0, w')) \<and> wk_sent w' = [(4, 2, freq_string (letters_in ''ab''))]"
proof -
  have killed: "work_killed (\<lparr>pack = \<lambda>k. (k, 0, []), unpack = \<lambda>(i, t, s). Inr i\<rparr> :: (StringMsg, KillMsg) codec)
      (kill_work_turn (0, 0, []))"
    by simp
  have words: "list_all (short_word \<circ> snd) [(4 :: int, ''ab'')]"
    by (simp add: short_word_letters is_lower_def)
  from workcharfreq_answers [OF _ words _ killed, of plain_codec "\<lambda>_. 9" "[msg_work_turn (4, 9, ''ab'')]" "worker_init []"
      "(0, 0, [])" "\<lparr>pack = \<lambda>(a, b, d). (b, a, hd d), unpack = \<lambda>_. Inl Msgpack_error\<rparr>" "[]"]
  show ?thesis
    by (simp add: codec_ok_def plain_codec_def DataMsg_defs Msg_set_def worker_init_def answer_msg_def)
qed

end
