(* ===== verification/Charfreq_Run.thy ===== *)
theory Charfreq_Run
  imports Charfreq
begin

text \<open>
  The letter-frequency machine as a whole: the vent of \<open>vent/ventwords.cpp\<close>, any number of workers
  (\<open>work/workcharfreq.cpp\<close>) and the sink (\<open>sink/sinkcharfreq.cpp\<close>) with messages on their way between
  them.  ZeroMQ may give any word to any worker and deliver the answers in any order, so what is on its
  way to the workers, and from them to the sink, is a multiset; the vent's own messages to the sink
  keep their order.

  The tracker of the sink needs the first id before anything else (\<open>Msg_Tracker\<close>,
  \<open>MsgTracker_track_before_first\<close>).  The vent sends it before the first word, over another connection
  than the answers take; that it arrives before the first answer is the one assumption on delivery, the
  guard of the rule \<open>collect\<close>.
\<close>

section \<open>The machine\<close>

record 'm net_params =
  np_words :: "('m, StringMsg) codec"
  np_answers :: "('m, SinkMsg) codec"
  np_results :: "('m, StringMsg) codec"
  np_kill :: "('m, KillMsg) codec"
  np_none :: 'm
  np_now :: timeval

record 'm net =
  nt_words :: "'m multiset"
  nt_vent :: "'m list"
  nt_answers :: "'m multiset"
  nt_workers :: "nat \<Rightarrow> 'm worker_state"
  nt_sink :: "'m freq_sink sink_state"

definition net_worker ::
  "'m net_params \<Rightarrow> 'm worker_state \<Rightarrow> 'm work_turn \<Rightarrow> 'm worker_state work_outcome" where
  "net_worker p = work_turn (np_kill p) (np_none p) (worker_of (workcharfreq_processMsg (np_words p) (np_answers p)))"

definition net_sink ::
  "'m net_params \<Rightarrow> 'm freq_sink sink_state \<Rightarrow> 'm turn \<Rightarrow> 'm freq_sink sink_outcome" where
  "net_sink p = sink_turn (np_answers p) (np_kill p) (np_none p) (sinkcharfreq (np_results p))"

text \<open>The turn of a sink at which the socket gives it a message, undisturbed.\<close>

definition gives :: "'m turn \<Rightarrow> 'm \<Rightarrow> bool" where
  "gives ev x \<longleftrightarrow> \<not> quit_head ev \<and> \<not> quit_after ev
     \<and> (case zpolled ev of Inr (in0, _) \<Rightarrow> in0 | Inl _ \<Rightarrow> False) \<and> received ev = Inr x"

text \<open>One step: a worker takes a word and hands what it sends to its socket, or the sink takes a message of
  the vent, or an answer.\<close>

inductive net_step :: "'m net_params \<Rightarrow> 'm net \<Rightarrow> 'm net \<Rightarrow> bool" for p where
  work: "x \<in># nt_words s \<Longrightarrow> work_delivers ev x \<Longrightarrow> net_worker p (nt_workers s i) ev = Continue w \<Longrightarrow>
    net_step p s (s\<lparr>nt_words := nt_words s - {#x#}, nt_workers := (nt_workers s)(i := w),
      nt_answers := nt_answers s + mset (drop (length (wk_sent (nt_workers s i))) (wk_sent w))\<rparr>)"
| announce: "nt_vent s = x # xs \<Longrightarrow> gives ev x \<Longrightarrow> net_sink p (nt_sink s) ev = Continue k \<Longrightarrow>
    net_step p s (s\<lparr>nt_vent := xs, nt_sink := k\<rparr>)"
| collect: "x \<in># nt_answers s \<Longrightarrow> length (nt_vent s) < 2 \<Longrightarrow> gives ev x \<Longrightarrow> net_sink p (nt_sink s) ev = Continue k \<Longrightarrow>
    net_step p s (s\<lparr>nt_answers := nt_answers s - {#x#}, nt_sink := k\<rparr>)"

inductive_cases net_stepE: "net_step p s s'"

text \<open>At the start the vent has sent everything: other interleavings only deliver later.\<close>

definition net_start :: "'m net_params \<Rightarrow> 'm vent_state \<Rightarrow> 'm net" where
  "net_start p vs = \<lparr>nt_words = mset (vs_sender vs), nt_vent = vs_sink vs, nt_answers = {#},
     nt_workers = \<lambda>_. worker_init [], nt_sink = sink_init (np_now p) (freq_init [])\<rparr>"

text \<open>How many deliveries are still to come, and whether the report has been sent.\<close>

definition net_left :: "'m net \<Rightarrow> nat" where
  "net_left s = 2 * size (nt_words s) + length (nt_vent s) + size (nt_answers s)"

definition net_reported :: "'m net_params \<Rightarrow> (nat \<Rightarrow> int) \<Rightarrow> 'm freq_sink sink_state \<Rightarrow> bool" where
  "net_reported p counts k \<longleftrightarrow> (\<exists>total_ms text.
     JsonObject_write (charfreq_report total_ms (map counts [0..<26])) True = Inr text
     \<and> rs_sent (ss_worker k) = [Msg_set (np_results p) (DataMsg_make 0 0 text)])"

section \<open>What has been delivered\<close>

definition freq_counts :: "string list \<Rightarrow> nat \<Rightarrow> int" where
  "freq_counts ws = (\<lambda>k. int (count_list (concat ws) (letter k)))"

definition words_ok :: "string list \<Rightarrow> bool" where
  "words_ok ws \<longleftrightarrow> list_all short_word ws \<and> ws \<noteq> [] \<and> int (length (concat ws)) \<le> 2147483647
     \<and> int (length ws) \<le> 2147483647"

text \<open>The sink after some of the messages of a batch, the first id before all others.\<close>

lemma net_sink_prefix:
  assumes ok: "words_ok ws" and evs: "list_all2 (delivers (np_answers p)) evs ms"
    and all: "mset ms + R = add_mset (1, 0, []) (mset (batch_msgs ws []))" and hd: "ms \<noteq> [] \<longrightarrow> hd ms = (1, 0, [])"
  shows "\<exists>k. run (net_sink p) (sink_init (np_now p) (freq_init [])) evs = (Continue k, [])
    \<and> (if R = {#} then net_reported p (freq_counts ws) k else rs_sent (ss_worker k) = [])"
proof (cases ms)
  case Nil
  with all have "R \<noteq> {#}" by auto
  with Nil evs show ?thesis by (simp add: sink_init_def freq_init_def sinkcharfreq_init_def)
next
  case (Cons m ms')
  with hd have m: "m = (1, 0, [])" by simp
  from evs Cons obtain ev evs' where e: "evs = ev # evs'" "delivers (np_answers p) ev (1, 0, [])"
    "list_all2 (delivers (np_answers p)) evs' ms'" using m by (auto simp: list_all2_Cons2)
  have rest: "mset ms' + R = mset (batch_msgs ws [])" using all Cons m by simp
  show ?thesis
  proof (cases "R = {#}")
    case True
    then have ne: "ms' \<noteq> []" using rest by (auto simp: batch_msgs_def)
    then obtain ms1 m1 where ms1: "ms' = ms1 @ [m1]" by (meson rev_exhaust)
    with e(3) obtain es1 e1 where es: "evs' = es1 @ [e1]" "list_all2 (delivers (np_answers p)) es1 ms1"
      "delivers (np_answers p) e1 m1" by (auto simp: list_all2_append2 list_all2_Cons2)
    have "mset (ms1 @ [m1]) = mset (batch_msgs ws [])" using rest True ms1 by simp
    from charfreq_batch [OF _ _ _ _ this e(2) es(2,3), of "np_kill p" "np_none p" "np_results p" "np_now p"] ok
    obtain js where js: "JsonObject_write (charfreq_report (Elapsed_getTotal (clock_start ev) (clock_total e1))
          (map (freq_counts ws) [0..<26])) True = Inr js"
      and run: "run (net_sink p) (sink_init (np_now p) (freq_init [])) evs =
        (Continue \<lparr>ss_worker = (freq_init []) \<lparr>rs_sent := [Msg_set (np_results p) (DataMsg_make 0 0 js)]\<rparr>,
           ss_tracker = MsgTracker_init, ss_elapsed = clock_start ev, ss_retries = 0\<rparr>, [])"
      by (auto simp: words_ok_def e(1) es(1) net_sink_def freq_counts_def simp del: run.simps)
    from js have "net_reported p (freq_counts ws)
        \<lparr>ss_worker = (freq_init []) \<lparr>rs_sent := [Msg_set (np_results p) (DataMsg_make 0 0 js)]\<rparr>,
         ss_tracker = MsgTracker_init, ss_elapsed = clock_start ev, ss_retries = 0\<rparr>"
      unfolding net_reported_def by (intro exI conjI) (assumption, simp)
    with run True show ?thesis by auto
  next
    case False
    obtain rs where rs: "R = mset rs" by (metis ex_mset)
    then have "mset (ms' @ rs) = mset (batch_msgs ws [])" "rs \<noteq> []" using rest False by auto
    from charfreq_partial [OF _ _ _ _ this e(2,3), of "np_kill p" "np_none p" "np_results p" "np_now p"] ok
    show ?thesis using False by (auto simp: words_ok_def e(1) net_sink_def)
  qed
qed

section \<open>The invariant\<close>

definition read_answer :: "'m net_params \<Rightarrow> 'm \<Rightarrow> SinkMsg" where
  "read_answer p x = (case unpack (np_answers p) x of Inr m \<Rightarrow> m | Inl _ \<Rightarrow> (0, 0, []))"

definition answer_of_word :: "'m net_params \<Rightarrow> 'm \<Rightarrow> SinkMsg" where
  "answer_of_word p x = (case unpack (np_words p) x of Inr (i, t, word) \<Rightarrow> answer_msg i word | Inl _ \<Rightarrow> (0, 0, []))"

definition readable :: "'m net_params \<Rightarrow> 'm \<Rightarrow> bool" where
  "readable p x \<longleftrightarrow> (\<exists>m. unpack (np_answers p) x = Inr m)"

definition good_word :: "'m net_params \<Rightarrow> 'm \<Rightarrow> bool" where
  "good_word p x \<longleftrightarrow> (\<exists>i t word. unpack (np_words p) x = Inr (i, t, word) \<and> short_word word)"

definition pending :: "'m net_params \<Rightarrow> 'm net \<Rightarrow> SinkMsg multiset" where
  "pending p s = image_mset (answer_of_word p) (nt_words s) + mset (map (read_answer p) (nt_vent s))
     + image_mset (read_answer p) (nt_answers s)"

definition net_inv :: "'m net_params \<Rightarrow> string list \<Rightarrow> 'm net \<Rightarrow> bool" where
  "net_inv p ws s \<longleftrightarrow> (\<forall>i. wk_env (nt_workers s i) = [])
     \<and> (\<forall>x \<in># nt_words s. good_word p x) \<and> (\<forall>x \<in> set (nt_vent s). readable p x)
     \<and> (\<forall>x \<in># nt_answers s. readable p x)
     \<and> (\<exists>evs ms. list_all2 (delivers (np_answers p)) evs ms
          \<and> run (net_sink p) (sink_init (np_now p) (freq_init [])) evs = (Continue (nt_sink s), [])
          \<and> mset ms + pending p s = add_mset (1, 0, []) (mset (batch_msgs ws []))
          \<and> (if ms = [] then map (read_answer p) (nt_vent s) = [(1, 0, []), (3, int (length ws) - 1, [])]
             else hd ms = (1, 0, []) \<and> length (nt_vent s) < 2))"

lemma gives_delivers: "gives ev x \<Longrightarrow> readable p x \<Longrightarrow> delivers (np_answers p) ev (read_answer p x)"
  by (auto simp: gives_def delivers_def readable_def read_answer_def)

lemma worker_answers:
  assumes "codec_ok (np_answers p)" and "good_word p x" and "work_delivers ev x" and "wk_env w = []"
  shows "\<exists>w'. net_worker p w ev = Continue w' \<and> wk_env w' = []
    \<and> wk_sent w' = wk_sent w @ [Msg_set (np_answers p) (answer_of_word p x)]"
proof -
  obtain i t word where x: "unpack (np_words p) x = Inr (i, t, word)" "short_word word"
    using assms(2) by (auto simp: good_word_def)
  have "charfreq_word word = Inr (freq_string (letters_in word))"
    using x(2) charfreq_word_freq by (simp add: short_word_def)
  moreover have "decode_data (np_words p) x = Inr (i, word)"
    using x(1) by (simp add: decode_data_def Msg_of_message_def DataMsg_defs)
  ultimately obtain w' where "workcharfreq_processMsg (np_words p) (np_answers p) x w = Inr w'" "wk_env w' = []"
    "wk_sent w' = wk_sent w @ [Msg_set (np_answers p) (2, i, [freq_string (letters_in word)])]"
    using charfreq.answers [of "np_words p" x i word "[freq_string (letters_in word)]" w "np_answers p"] assms(4) by auto
  then show ?thesis
    using x by (simp add: net_worker_def work_turn_delivers [OF assms(3)] worker_of_def answer_of_word_def answer_msg_def)
qed

lemma read_set [simp]:
  "codec_ok (np_answers p) \<Longrightarrow> read_answer p (Msg_set (np_answers p) m) = m"
  "codec_ok (np_answers p) \<Longrightarrow> readable p (Msg_set (np_answers p) m)"
  by (cases m, simp_all add: read_answer_def readable_def codec_ok_def Msg_set_def)+

lemma image_mset_remove: "x \<in># M \<Longrightarrow> image_mset f M = add_mset (f x) (image_mset f (M - {#x#}))"
  by (metis image_mset_add_mset insert_DiffM)

text \<open>The size of the batch: what has been delivered and what is still on its way.\<close>

lemma net_inv_sizes:
  assumes "net_inv p ws s"
  obtains evs ms where "list_all2 (delivers (np_answers p)) evs ms"
    "run (net_sink p) (sink_init (np_now p) (freq_init [])) evs = (Continue (nt_sink s), [])"
    "mset ms + pending p s = add_mset (1, 0, []) (mset (batch_msgs ws []))"
    "ms \<noteq> [] \<longrightarrow> hd ms = (1, 0, [])" "ms = [] \<longrightarrow> length (nt_vent s) = 2" "ms \<noteq> [] \<longrightarrow> length (nt_vent s) < 2"
proof -
  from assms obtain evs ms where h: "list_all2 (delivers (np_answers p)) evs ms"
    "run (net_sink p) (sink_init (np_now p) (freq_init [])) evs = (Continue (nt_sink s), [])"
    "mset ms + pending p s = add_mset (1, 0, []) (mset (batch_msgs ws []))"
    "if ms = [] then map (read_answer p) (nt_vent s) = [(1, 0, []), (3, int (length ws) - 1, [])]
     else hd ms = (1, 0, []) \<and> length (nt_vent s) < 2"
    by (auto simp: net_inv_def)
  have "ms = [] \<longrightarrow> length (nt_vent s) = 2" using h(4) by (metis length_map list.size(3,4) numeral_2_eq_2 One_nat_def plus_1_eq_Suc add.commute)
  with h that show ?thesis by (auto split: if_splits)
qed

lemma net_inv_start:
  assumes "codec_ok (np_words p)" "codec_ok (np_answers p)" and "words_ok ws"
    and "vs_sender vs = numbered_msgs (np_words p) clk 0 ws"
    and "vs_sink vs = [Msg_set (np_answers p) (1, 0, []), Msg_set (np_answers p) (3, int (length ws) - 1, [])]"
  shows "net_inv p ws (net_start p vs)" and "net_left (net_start p vs) = 2 * length ws + 2"
proof -
  have word: "unpack (np_words p) (Msg_set (np_words p) m) = Inr m" for m
    using assms(1) by (cases m) (simp add: codec_ok_def Msg_set_def)
  have words: "good_word p x" if "x \<in> set (numbered_msgs (np_words p) clk i ws)" "list_all short_word ws" for x i
    using that by (induction ws arbitrary: i) (auto simp: good_word_def word DataMsg_make_def)
  have answers: "map (answer_of_word p) (numbered_msgs (np_words p) clk (int k) ws) =
      map (\<lambda>(i, word). answer_msg (int i) word) (enumerate k ws)" for k
  proof (induction ws arbitrary: k)
    case (Cons w ws)
    from Cons [of "Suc k"] show ?case by (simp add: answer_of_word_def word DataMsg_make_def add.commute)
  qed simp
  have "image_mset (answer_of_word p) (mset (vs_sender vs)) = mset (map (\<lambda>(i, word). answer_msg (int i) word) (enumerate 0 ws))"
    using answers [of 0] by (simp add: assms(4) flip: mset_map)
  then have "pending p (net_start p vs) = add_mset (1, 0, []) (mset (batch_msgs ws []))"
    using assms(2) by (simp add: pending_def net_start_def assms(5) batch_msgs_def)
  moreover have "\<forall>x \<in># nt_words (net_start p vs). good_word p x"
    using words [of _ 0] assms(3,4) by (simp add: net_start_def words_ok_def)
  ultimately show "net_inv p ws (net_start p vs)"
    using assms(2) unfolding net_inv_def
    by (auto simp: net_start_def worker_init_def assms(5) intro!: exI [of _ "[]"])
  have "length (numbered_msgs c clk i ws) = length ws" for c :: "('m, StringMsg) codec" and i
    by (simp add: numbered_msgs_def)
  then show "net_left (net_start p vs) = 2 * length ws + 2"
    by (simp add: net_left_def net_start_def assms(4,5) numbered_msgs_def)
qed

text \<open>What the sink takes: the invariant afterwards, for either rule.\<close>

lemma net_inv_taken:
  assumes inv: "net_inv p ws s" and sink: "net_sink p (nt_sink s) ev = Continue k" and ev: "gives ev x"
    and x: "readable p x" and pend: "pending p s = add_mset (read_answer p x) (pending p s')"
    and same: "nt_words s' = nt_words s" "nt_workers s' = nt_workers s" "nt_sink s' = k"
      "set (nt_vent s') \<subseteq> set (nt_vent s)" "set_mset (nt_answers s') \<subseteq> set_mset (nt_answers s)"
    and first: "length (nt_vent s) = 2 \<longrightarrow> nt_vent s = x # nt_vent s'" "length (nt_vent s') < 2"
  shows "net_inv p ws s'"
proof -
  from inv obtain evs ms where h: "list_all2 (delivers (np_answers p)) evs ms"
    "run (net_sink p) (sink_init (np_now p) (freq_init [])) evs = (Continue (nt_sink s), [])"
    "mset ms + pending p s = add_mset (1, 0, []) (mset (batch_msgs ws []))"
    "if ms = [] then map (read_answer p) (nt_vent s) = [(1, 0, []), (3, int (length ws) - 1, [])]
     else hd ms = (1, 0, []) \<and> length (nt_vent s) < 2"
    by (auto simp: net_inv_def)
  have "list_all2 (delivers (np_answers p)) (evs @ [ev]) (ms @ [read_answer p x])"
    using h(1) gives_delivers [OF ev x] by (simp add: list_all2_appendI)
  moreover have "run (net_sink p) (sink_init (np_now p) (freq_init [])) (evs @ [ev]) = (Continue (nt_sink s'), [])"
    using run_snoc [OF h(2), of ev] sink same(3) by simp
  moreover have "mset (ms @ [read_answer p x]) + pending p s' = add_mset (1, 0, []) (mset (batch_msgs ws []))"
    using h(3) pend by simp
  moreover have "hd (ms @ [read_answer p x]) = (1, 0, [])"
  proof (cases "ms = []")
    case True
    with h(4) have m: "map (read_answer p) (nt_vent s) = [(1, 0, []), (3, int (length ws) - 1, [])]" by simp
    then have "length (nt_vent s) = 2" by (metis length_map list.size(3,4) numeral_2_eq_2 One_nat_def plus_1_eq_Suc add.commute)
    with first(1) m True show ?thesis by auto
  qed (use h(4) in auto)
  ultimately have "\<exists>evs ms. list_all2 (delivers (np_answers p)) evs ms
          \<and> run (net_sink p) (sink_init (np_now p) (freq_init [])) evs = (Continue (nt_sink s'), [])
          \<and> mset ms + pending p s' = add_mset (1, 0, []) (mset (batch_msgs ws []))
          \<and> (if ms = [] then map (read_answer p) (nt_vent s') = [(1, 0, []), (3, int (length ws) - 1, [])]
             else hd ms = (1, 0, []) \<and> length (nt_vent s') < 2)"
    using first(2) by (intro exI [of _ "evs @ [ev]"] exI [of _ "ms @ [read_answer p x]"]) auto
  with inv same show ?thesis unfolding net_inv_def by auto
qed

lemma net_step_inv:
  assumes "net_step p s s'" and inv: "net_inv p ws s" and ok: "codec_ok (np_answers p)"
  shows "net_inv p ws s' \<and> net_left s = Suc (net_left s')"
  using assms(1)
proof (cases rule: net_step.cases)
  case (work x ev i w)
  from inv work have "good_word p x" "wk_env (nt_workers s i) = []" by (auto simp: net_inv_def)
  from worker_answers [OF ok this(1) work(3) this(2)] work(4) have w: "wk_env w = []"
    "wk_sent w = wk_sent (nt_workers s i) @ [Msg_set (np_answers p) (answer_of_word p x)]" by auto
  have pend: "pending p s' = pending p s"
    using image_mset_remove [OF work(2), of "answer_of_word p"] ok by (simp add: pending_def work(1) w(2))
  have s': "nt_vent s' = nt_vent s" "nt_sink s' = nt_sink s"
    "\<forall>x \<in># nt_words s'. x \<in># nt_words s" "\<forall>j. wk_env (nt_workers s j) = [] \<longrightarrow> wk_env (nt_workers s' j) = []"
    "\<forall>y \<in># nt_answers s'. y \<in># nt_answers s \<or> readable p y"
    using w ok by (auto simp: work(1) dest: in_diffD)
  have "net_inv p ws s'"
    using inv s'(3-5) unfolding net_inv_def s'(1,2) pend by blast
  moreover have "size (nt_words s) = Suc (size (nt_words s - {#x#}))" using work(2) by (metis size_Suc_Diff1)
  ultimately show ?thesis by (simp add: net_left_def work(1) w(2))
next
  case (announce x xs ev k)
  from inv announce have x: "readable p x" by (auto simp: net_inv_def)
  have len: "length (nt_vent s) \<le> 2" using net_inv_sizes [OF inv] by (metis le_eq_less_or_eq)
  have "net_inv p ws s'"
    by (rule net_inv_taken [OF inv announce(4,3) x])
      (use len in \<open>simp_all add: announce(1,2) pending_def subset_insertI\<close>)
  then show ?thesis by (simp add: net_left_def announce(1,2))
next
  case (collect x ev k)
  from inv collect have x: "readable p x" by (auto simp: net_inv_def)
  have "net_inv p ws s'"
    by (rule net_inv_taken [OF inv collect(5,4) x])
      (use collect(3) image_mset_remove [OF collect(2), of "read_answer p"] in
        \<open>simp_all add: collect(1) pending_def set_mset_mono\<close>)
  moreover have "size (nt_answers s) = Suc (size (nt_answers s - {#x#}))" using collect(2) by (metis size_Suc_Diff1)
  ultimately show ?thesis by (simp add: net_left_def collect(1))
qed

section \<open>Every run ends with the report\<close>

lemma net_sink_accepts:
  assumes inv: "net_inv p ws s" and ok: "words_ok ws" and ev: "gives ev x" and x: "readable p x"
    and pend: "read_answer p x \<in># pending p s" and first: "length (nt_vent s) = 2 \<longrightarrow> hd (nt_vent s) = x"
  shows "\<exists>k. net_sink p (nt_sink s) ev = Continue k"
proof -
  from inv obtain evs ms where h: "list_all2 (delivers (np_answers p)) evs ms"
    "run (net_sink p) (sink_init (np_now p) (freq_init [])) evs = (Continue (nt_sink s), [])"
    "mset ms + pending p s = add_mset (1, 0, []) (mset (batch_msgs ws []))"
    "if ms = [] then map (read_answer p) (nt_vent s) = [(1, 0, []), (3, int (length ws) - 1, [])]
     else hd ms = (1, 0, []) \<and> length (nt_vent s) < 2"
    by (auto simp: net_inv_def)
  have hd: "hd (ms @ [read_answer p x]) = (1, 0, [])"
  proof (cases "ms = []")
    case True
    with h(4) obtain y z where v: "nt_vent s = [y, z]" "read_answer p y = (1, 0, [])" by (auto simp: map_eq_Cons_conv)
    with first True show ?thesis by simp
  qed (use h(4) in auto)
  obtain R where R: "pending p s = add_mset (read_answer p x) R" using pend by (blast dest: multi_member_split)
  then have "mset (ms @ [read_answer p x]) + R = add_mset (1, 0, []) (mset (batch_msgs ws []))"
    using h(3) by simp
  from net_sink_prefix [OF ok _ this, where evs = "evs @ [ev]"] h(1) gives_delivers [OF ev x] hd
  obtain k where "run (net_sink p) (sink_init (np_now p) (freq_init [])) (evs @ [ev]) = (Continue k, [])"
    by (auto intro: list_all2_appendI)
  then show ?thesis using run_snoc [OF h(2), of ev] by (auto split: outcome.splits)
qed

lemma gives_msg_turn: "gives (msg_turn x t) x"
  by (simp add: gives_def msg_turn_def)

lemma net_progress:
  assumes inv: "net_inv p ws s" and ok: "words_ok ws" "codec_ok (np_answers p)" and left: "0 < net_left s"
  shows "\<exists>s'. net_step p s s'"
proof -
  consider (words) x where "x \<in># nt_words s" | (vent) x xs where "nt_vent s = x # xs"
    | (answers) x where "x \<in># nt_answers s" "nt_vent s = []"
    using left by (cases "nt_vent s") (auto simp: net_left_def nonempty_has_size [symmetric] elim!: multiset_nonemptyE)
  then show ?thesis
  proof cases
    case words
    then have "good_word p x" "wk_env (nt_workers s 0) = []" using inv by (auto simp: net_inv_def)
    from worker_answers [OF ok(2) this(1) _ this(2), of "msg_work_turn x"] show ?thesis
      using net_step.work [OF words, of "msg_work_turn x" p 0] by auto
  next
    case vent
    have "readable p x" "read_answer p x \<in># pending p s" using inv vent by (auto simp: net_inv_def pending_def)
    with net_sink_accepts [OF inv ok(1) gives_msg_turn [of x 0]] vent
    show ?thesis using net_step.announce [OF vent gives_msg_turn [of x 0], of p] by auto
  next
    case answers
    have "readable p x" "read_answer p x \<in># pending p s" using inv answers by (auto simp: net_inv_def pending_def)
    with net_sink_accepts [OF inv ok(1) gives_msg_turn [of x 0]] answers
    show ?thesis using net_step.collect [OF answers(1) _ gives_msg_turn [of x 0], of p] by auto
  qed
qed

lemma net_report:
  assumes inv: "net_inv p ws s" and ok: "words_ok ws"
  shows "if net_left s = 0 then net_reported p (freq_counts ws) (nt_sink s) else rs_sent (ss_worker (nt_sink s)) = []"
proof -
  from inv obtain evs ms where h: "list_all2 (delivers (np_answers p)) evs ms"
    "run (net_sink p) (sink_init (np_now p) (freq_init [])) evs = (Continue (nt_sink s), [])"
    "mset ms + pending p s = add_mset (1, 0, []) (mset (batch_msgs ws []))" "ms \<noteq> [] \<longrightarrow> hd ms = (1, 0, [])"
    by (rule net_inv_sizes)
  have "net_left s = 0 \<longleftrightarrow> pending p s = {#}" by (auto simp: net_left_def pending_def)
  with net_sink_prefix [OF ok h(1,3,4)] h(2) show ?thesis by (auto split: if_splits)
qed

lemma net_run_inv:
  assumes "(net_step p ^^ n) s0 s" and "net_inv p ws s0" and "codec_ok (np_answers p)"
  shows "net_inv p ws s \<and> net_left s0 = n + net_left s"
  using assms(1)
proof (induction n arbitrary: s)
  case (Suc n)
  then obtain s1 where "(net_step p ^^ n) s0 s1" "net_step p s1 s" by auto
  with Suc.IH net_step_inv [OF _ _ assms(3), of s1 s ws] show ?case by fastforce
qed (simp add: assms(2))

text \<open>
  Claim C1.  The letter-frequency machine as a whole, on any number of workers.  The text is n words of
  letters, each with no more than 15 of any letter (more would overflow a buffer of the worker, see
  \<open>charfreq_word\<close>), perhaps with a punctuation mark behind it, and no white space at the end of the
  text; the announcement of the first id reaches the sink before any answer (the guard of
  \<open>collect\<close>: the tracker needs that, and the sockets do not ensure it); and no turn of a program passes
  without a message.  Then, whatever each worker takes and in whatever order else the messages are
  delivered, a run can go on until it has made 2 n + 2 deliveries, and then it is over; until the last
  delivery the sink has sent nothing, and at the end it has sent exactly one report, with the number
  of occurrences of each letter in the words of the text, capital or small.
\<close>

theorem charfreq_run_reports:
  assumes "codec_ok (np_words p)" and "codec_ok (np_answers p)" and "good_words ts"
    and "list_all2 reads_as (map snd ts) ws" and "words_ok ws"
  shows "\<exists>vs. Vent_process (np_answers p) (ventwords_sendAll (np_words p) clk (spaced ts)) (Inr ()) (Inr ()) (Vent_init [])
      = Inr (True, vs)
    \<and> (\<forall>n s. (net_step p ^^ n) (net_start p vs) s \<longrightarrow>
         n \<le> 2 * length ts + 2
         \<and> (if n < 2 * length ts + 2 then rs_sent (ss_worker (nt_sink s)) = [] \<and> (\<exists>s'. net_step p s s')
            else net_reported p (freq_counts ws) (nt_sink s) \<and> \<not> (\<exists>s'. net_step p s s')))"
proof -
  note ws = clean_words_read [OF assms(4)]
  have ok: "words_ok (map (clean_word \<circ> snd) ts)" using assms(5) ws by simp
  let ?ws = "map (clean_word \<circ> snd) ts"
  let ?vs0 = "(Vent_init []) \<lparr>vs_sink := [Msg_set (np_answers p) (1, 0, [])]\<rparr>"
  have "ts \<noteq> []" "int (length ts) \<le> 2147483647" using ok by (auto simp: words_ok_def)
  then obtain vs1 where vs1: "ventwords_sendAll (np_words p) clk (spaced ts) ?vs0 = Inr (int (length ts) - 1, vs1)"
    "vs_sender vs1 = vs_sender ?vs0 @ numbered_msgs (np_words p) clk 0 ?ws" "vs_sink vs1 = vs_sink ?vs0"
    using ventwords_sends [OF assms(3), of ?vs0 "np_words p" clk] by (auto simp: vent_ready_def Vent_init_def)
  let ?vs = "vs1\<lparr>vs_sink := vs_sink vs1 @ [Msg_set (np_answers p) (3, int (length ts) - 1, [])]\<rparr>"
  have vent: "Vent_process (np_answers p) (ventwords_sendAll (np_words p) clk (spaced ts)) (Inr ()) (Inr ()) (Vent_init []) = Inr (True, ?vs)"
    using vs1(1) by (simp add: Vent_process_def sink_send_def SinkMsg_defs Vent_init_def)
  have start: "net_inv p ?ws (net_start p ?vs)" "net_left (net_start p ?vs) = 2 * length ts + 2"
    using net_inv_start [OF assms(1,2) ok, of ?vs clk] vs1(2,3) by (simp_all add: Vent_init_def)
  show ?thesis unfolding ws [symmetric]
  proof (intro exI [of _ ?vs] conjI vent allI impI)
    fix n s assume "(net_step p ^^ n) (net_start p ?vs) s"
    from net_run_inv [OF this start(1) assms(2)] start(2)
    have inv: "net_inv p ?ws s" and n: "2 * length ts + 2 = n + net_left s" by simp_all
    show "n \<le> 2 * length ts + 2" using n by simp
    have over: "\<not> (\<exists>s'. net_step p s s')" if "net_left s = 0"
      using net_step_inv [OF _ inv assms(2)] that by fastforce
    show "if n < 2 * length ts + 2 then rs_sent (ss_worker (nt_sink s)) = [] \<and> (\<exists>s'. net_step p s s')
          else net_reported p (freq_counts ?ws) (nt_sink s) \<and> \<not> (\<exists>s'. net_step p s s')"
      using net_report [OF inv ok] net_progress [OF inv ok assms(2)] over n by (auto split: if_splits)
  qed
qed

text \<open>Six deliveries for two words.\<close>

definition net_example :: "(StringMsg + SinkMsg) net_params" where
  "net_example =
     \<lparr>np_words = \<lparr>pack = Inl, unpack = \<lambda>x. case x of Inl m \<Rightarrow> Inr m | Inr _ \<Rightarrow> Inl Msgpack_error\<rparr>,
      np_answers = \<lparr>pack = Inr, unpack = \<lambda>x. case x of Inr m \<Rightarrow> Inr m | Inl _ \<Rightarrow> Inl Msgpack_error\<rparr>,
      np_results = \<lparr>pack = Inl, unpack = \<lambda>x. case x of Inl m \<Rightarrow> Inr m | Inr _ \<Rightarrow> Inl Msgpack_error\<rparr>,
      np_kill = \<lparr>pack = \<lambda>k. Inl (k, 0, []), unpack = \<lambda>_. Inl Msgpack_error\<rparr>,
      np_none = Inl (0, 0, []), np_now = \<lparr>tv_sec = 0, tv_usec = 0\<rparr>\<rparr>"

theorem charfreq_run_reports_witness:
  "\<exists>vs s. Vent_process (np_answers net_example) (ventwords_sendAll (np_words net_example) (\<lambda>_. 7) ''Ab b.'') (Inr ()) (Inr ())
       (Vent_init []) = Inr (True, vs)
    \<and> (net_step net_example ^^ 6) (net_start net_example vs) s
    \<and> net_reported net_example (freq_counts [''ab'', ''b'']) (nt_sink s)"
proof -
  have ts: "good_words [('''', ''Ab''), ('' '', ''b.'')]" by code_simp
  have "map small_letter ''Ab'' = ''ab''" "map small_letter ''b'' = ''b''" "last ''Ab'' \<in> set letters_digits"
    "CHR ''.'' \<notin> set letters_digits" by code_simp+
  then have reads: "list_all2 reads_as (map snd [('''', ''Ab''), ('' '', ''b.'')]) [''ab'', ''b'']"
    using reads_as_word(1) [of "''Ab''"] reads_as_word(2) [of "CHR ''.''" "''b''"] by simp
  have ok: "words_ok [''ab'', ''b'']" by (simp add: words_ok_def short_word_letters is_lower_def)
  have codecs: "codec_ok (np_words net_example)" "codec_ok (np_answers net_example)"
    by (simp_all add: codec_ok_def net_example_def)
  from charfreq_run_reports [OF codecs ts reads ok, of "\<lambda>_. 7"] obtain vs where
    vs: "Vent_process (np_answers net_example) (ventwords_sendAll (np_words net_example) (\<lambda>_. 7) ''Ab b.'') (Inr ()) (Inr ())
       (Vent_init []) = Inr (True, vs)"
    and go: "\<And>n s. (net_step net_example ^^ n) (net_start net_example vs) s \<Longrightarrow> n < 6 \<Longrightarrow> \<exists>s'. net_step net_example s s'"
    and report: "\<And>s. (net_step net_example ^^ 6) (net_start net_example vs) s \<Longrightarrow>
       net_reported net_example (freq_counts [''ab'', ''b'']) (nt_sink s)"
    by (fastforce split: if_splits)
  have "n \<le> 6 \<Longrightarrow> \<exists>s. (net_step net_example ^^ n) (net_start net_example vs) s" for n
  proof (induction n)
    case (Suc n)
    then obtain s where s: "(net_step net_example ^^ n) (net_start net_example vs) s" by auto
    with go [OF s] Suc.prems show ?case by auto
  qed simp
  with vs report show ?thesis by blast
qed

end
