(* ===== verification/Task_Monitor.thy ===== *)
theory Task_Monitor
  imports Pipes
begin

text \<open>
  \<open>core/ExeRunner.cpp\<close> and \<open>machine/TaskMonitor.cpp\<close>: starting the programs of a machine and
  waiting for them.

  The operating system is a parameter: \<open>fork k\<close> is what the \<open>k\<close>-th call of \<open>fork\<close> returns to
  the parent (-1 or the id of the child).  The state records the commands handed to children,
  the vector of process ids that the caller passed, and the ids waited for.
\<close>

section \<open>Processes\<close>

record task_state =
  ts_cmds :: "(string \<times> int) list"
  ts_pids :: "int list"
  ts_waited :: "int list"

definition task_init :: task_state where
  "task_init = \<lparr>ts_cmds = [], ts_pids = [], ts_waited = []\<rparr>"

text \<open>\<open>ExeRunner::run\<close>, as the parent sees it: 0 when \<open>fork\<close> fails.  The child runs
  \<open>/bin/sh -c exe\<close>.\<close>

definition ExeRunner_run :: "(nat \<Rightarrow> int) \<Rightarrow> string \<Rightarrow> (task_state, int) prog" where
  "ExeRunner_run fork exe s =
     (let pid = fork (length (ts_cmds s)) in
      (Inr (if pid = -1 then 0 else pid), s\<lparr>ts_cmds := ts_cmds s @ [(exe, pid)]\<rparr>))"

text \<open>Running one command as \<open>start\<close> and \<open>runOne\<close> do it.\<close>

definition run_and_note :: "(nat \<Rightarrow> int) \<Rightarrow> string \<Rightarrow> (task_state, bool) prog" where
  "run_and_note fork cmd =
     sbind (ExeRunner_run fork cmd) (\<lambda>pid s.
       if pid = 0 then (Inr False, s) else (Inr True, s\<lparr>ts_pids := ts_pids s @ [pid]\<rparr>))"

section \<open>TaskMonitor\<close>

definition quoted :: "string \<Rightarrow> string" where
  "quoted s = [CHR 0x27] @ s @ [CHR 0x27]"

definition task_cmd :: "string \<Rightarrow> string \<Rightarrow> string \<Rightarrow> string \<Rightarrow> string" where
  "task_cmd exe pipes config name = exe @ '' '' @ quoted pipes @ '' '' @ quoted config @ '' '' @ name"

fun run_each :: "(nat \<Rightarrow> int) \<Rightarrow> string list \<Rightarrow> (task_state, bool) prog" where
  "run_each fork [] = sreturn True"
| "run_each fork (cmd # cmds) =
     sbind (run_and_note fork cmd) (\<lambda>ok. if ok then run_each fork cmds else sreturn False)"

text \<open>The commands of one block: \<open>None\<close> for the vent and for a block without a program.\<close>

definition block_name :: "string \<Rightarrow> int \<Rightarrow> int \<Rightarrow> string" where
  "block_name name cnt i = (if cnt > 0 then name @ ''['' @ show_int i @ '']'' else name)"

definition block_cmds :: "JsonObject \<Rightarrow> int \<Rightarrow> jvalue \<Rightarrow> string list res" where
  "block_cmds r control i =
     rbind (JsonArray_getString i ''name'') (\<lambda>name.
     rbind (JsonObject_has r ''vent'') (\<lambda>hasvent.
     rbind (if hasvent then rmap (\<lambda>v. v = name) (JsonObject_getString r ''vent'') else Inr False) (\<lambda>skip.
       if skip then Inr []
       else
         rbind (JsonArray_getInt i ''count'') (\<lambda>cnt.
         rbind (JsonArray_has i ''exe'') (\<lambda>hasexe.
           if \<not> hasexe then Inr []
           else
             rbind (JsonArray_getString i ''exe'') (\<lambda>exe.
             rbind (PipeBuilder_collect r (JsonArray_getValue i) control) (\<lambda>pipesjson.
             rbind (JsonObject_write pipesjson False) (\<lambda>pipes.
             rmap (\<lambda>config. map (\<lambda>k. task_cmd exe pipes config (block_name name cnt k))
                             (if cnt > 0 then [0..cnt - 1] else [0]))
               (JsonArray_getChildAsString i ''config'')))))))))"

fun start_blocks :: "(nat \<Rightarrow> int) \<Rightarrow> JsonObject \<Rightarrow> int \<Rightarrow> jvalue list \<Rightarrow> (task_state, bool) prog" where
  "start_blocks fork r control [] = sreturn True"
| "start_blocks fork r control (i # bg) =
     sbind (slift (block_cmds r control i)) (\<lambda>cmds.
     sbind (run_each fork cmds) (\<lambda>ok.
       if ok then start_blocks fork r control bg else sreturn False))"

definition TaskMonitor_start :: "(nat \<Rightarrow> int) \<Rightarrow> int \<Rightarrow> JsonObject \<Rightarrow> (task_state, bool) prog" where
  "TaskMonitor_start fork control r =
     scatch is_runtime_error
       (sbind (slift (JsonObject_getArray r ''blocks'')) (start_blocks fork r control))
       (sreturn False)"

definition TaskMonitor_runOne :: "(nat \<Rightarrow> int) \<Rightarrow> int \<Rightarrow> JsonObject \<Rightarrow> JsonObject \<Rightarrow> (task_state, bool) prog" where
  "TaskMonitor_runOne fork control r obj =
     sbind (slift (PipeBuilder_collect r obj control)) (\<lambda>pipesjson.
     sbind (slift (JsonObject_write pipesjson False)) (\<lambda>pipes.
     sbind (slift (JsonObject_getString obj ''exe'')) (\<lambda>exe.
     sbind (slift (JsonObject_getChildAsString obj ''config'')) (\<lambda>config.
     sbind (slift (JsonObject_getString obj ''name'')) (\<lambda>name.
       run_and_note fork (task_cmd exe pipes config name))))))"

definition TaskMonitor_doBlock :: "(nat \<Rightarrow> int) \<Rightarrow> int \<Rightarrow> JsonObject \<Rightarrow> string \<Rightarrow> (task_state, bool) prog" where
  "TaskMonitor_doBlock fork control r block =
     sbind (slift (JsonObject_findObj r (JsonNamePredicate_match block))) (TaskMonitor_runOne fork control r)"

definition TaskMonitor_doVent :: "(nat \<Rightarrow> int) \<Rightarrow> int \<Rightarrow> JsonObject \<Rightarrow> (task_state, bool) prog" where
  "TaskMonitor_doVent fork control r =
     sbind (slift (JsonObject_getString r ''vent'')) (TaskMonitor_doBlock fork control r)"

definition TaskMonitor_waitFinish :: "int list \<Rightarrow> task_state \<Rightarrow> task_state" where
  "TaskMonitor_waitFinish pids s = s\<lparr>ts_waited := ts_waited s @ pids\<rparr>"

text \<open>A call with a vector of its own, as the callers of \<open>doVent\<close> make it: the vector is
  returned, the one in the state is as before.\<close>

definition with_local_pids :: "(task_state, 'a) prog \<Rightarrow> (task_state, 'a \<times> int list) prog" where
  "with_local_pids m s =
     (let (r, s') = m (s\<lparr>ts_pids := []\<rparr>)
      in (rmap (\<lambda>x. (x, ts_pids s')) r, s'\<lparr>ts_pids := ts_pids s\<rparr>))"

section \<open>No process is lost\<close>

text \<open>The ids of the processes that commands started.\<close>

definition started :: "(string \<times> int) list \<Rightarrow> int list" where
  "started cmds = filter (\<lambda>p. p \<noteq> -1 \<and> p \<noteq> 0) (map snd cmds)"

lemma started_append [simp]: "started (a @ b) = started a @ started b"
  by (simp add: started_def)

text \<open>From one state to a later one, commands were added, and the ids of the processes they
  started were pushed on the vector, in order; nothing was waited for.\<close>

definition notes_all :: "task_state \<Rightarrow> task_state \<Rightarrow> bool" where
  "notes_all s s' \<longleftrightarrow> (\<exists>cmds. ts_cmds s' = ts_cmds s @ cmds \<and> ts_pids s' = ts_pids s @ started cmds)
     \<and> ts_waited s' = ts_waited s"

lemma notes_all_refl: "reflp notes_all"
  by (auto simp: reflp_def notes_all_def started_def)

lemma notes_all_trans: "transp notes_all"
  by (rule transpI) (fastforce simp: notes_all_def)

lemmas notes_all_keeps = keeps_basic [OF notes_all_refl] keeps_sbind [OF notes_all_trans]
  keeps_scatch [OF notes_all_trans]

lemma run_and_note_keeps: "keeps notes_all (run_and_note fork cmd)"
  by (auto simp: keeps_def run_and_note_def sbind_def ExeRunner_run_def Let_def notes_all_def started_def)

lemma run_each_keeps: "keeps notes_all (run_each fork cmds)"
  by (induction cmds) (auto intro!: notes_all_keeps run_and_note_keeps)

lemma start_blocks_keeps: "keeps notes_all (start_blocks fork r control bg)"
  by (induction bg) (auto intro!: notes_all_keeps run_each_keeps)

lemma TaskMonitor_keeps:
  "keeps notes_all (TaskMonitor_start fork control r)"
  "keeps notes_all (TaskMonitor_runOne fork control r obj)"
  "keeps notes_all (TaskMonitor_doBlock fork control r block)"
  "keeps notes_all (TaskMonitor_doVent fork control r)"
  by (auto simp: TaskMonitor_start_def TaskMonitor_runOne_def TaskMonitor_doBlock_def TaskMonitor_doVent_def
      intro!: notes_all_keeps start_blocks_keeps run_and_note_keeps)

text \<open>
  Claim C14.  However \<open>start\<close> ends (all blocks up, a fork that fails half way, an error in the
  configuration of a later block, even an exception it does not catch), the vector of process
  ids has been extended by exactly the processes that were started, in order: none is lost and
  none is invented.
\<close>

theorem TaskMonitor_start_notes_every_process:
  "\<exists>cmds. ts_cmds (snd (TaskMonitor_start fork control r s)) = ts_cmds s @ cmds
    \<and> ts_pids (snd (TaskMonitor_start fork control r s)) = ts_pids s @ started cmds"
  using TaskMonitor_keeps(1) by (auto simp: keeps_def notes_all_def)

section \<open>What is started\<close>

lemma run_each_ok:
  assumes "\<forall>k. 0 < fork k"
  shows "\<exists>s'. run_each fork cmds s = (Inr True, s') \<and> map fst (ts_cmds s') = map fst (ts_cmds s) @ cmds"
  using assms
proof (induction cmds arbitrary: s)
  case (Cons cmd cmds)
  let ?pid = "fork (length (ts_cmds s))"
  have "0 < ?pid" using Cons.prems by blast
  then have "run_and_note fork cmd s =
      (Inr True, s\<lparr>ts_cmds := ts_cmds s @ [(cmd, ?pid)], ts_pids := ts_pids s @ [?pid]\<rparr>)"
    by (simp add: run_and_note_def sbind_def ExeRunner_run_def Let_def)
  with Cons.IH [OF Cons.prems, of "s\<lparr>ts_cmds := ts_cmds s @ [(cmd, ?pid)], ts_pids := ts_pids s @ [?pid]\<rparr>"]
  show ?case by (simp add: sbind_def)
qed (simp add: sreturn_def)

lemma start_blocks_ok:
  assumes "\<forall>k. 0 < fork k" and "list_all2 (\<lambda>b cs. block_cmds r control b = Inr cs) bs css"
  shows "\<exists>s'. start_blocks fork r control bs s = (Inr True, s')
    \<and> map fst (ts_cmds s') = map fst (ts_cmds s) @ concat css"
  using assms(2)
proof (induction arbitrary: s rule: list_all2_induct)
  case Nil
  then show ?case by (simp add: sreturn_def)
next
  case (Cons b bs cs css)
  obtain s1 where s1: "run_each fork cs s = (Inr True, s1)"
      "map fst (ts_cmds s1) = map fst (ts_cmds s) @ cs"
    using run_each_ok [OF assms(1)] by blast
  with Cons.IH [of s1] Cons.hyps(1) show ?case
    by (simp add: sbind_def slift_def)
qed

text \<open>
  The commands that the configuration asks for, from its text: \<open>rms\<close> are the members of the machine's
  object and \<open>bms\<close> those of a block's.  A command is the program, the pipes of the block and its
  configuration, both as compact JSON text between apostrophes, and the block's name, which has an index
  in brackets where there is a count.
\<close>

definition is_vent :: "members \<Rightarrow> string \<Rightarrow> bool" where
  "is_vent rms name \<longleftrightarrow> obj_has rms ''vent'' \<and> obj_get rms ''vent'' = Str name"

definition not_vent :: "members \<Rightarrow> string \<Rightarrow> bool" where
  "not_vent rms name \<longleftrightarrow> \<not> obj_has rms ''vent'' \<or> (\<exists>v. obj_get rms ''vent'' = Str v \<and> v \<noteq> name)"

definition has_count :: "members \<Rightarrow> int \<Rightarrow> bool" where
  "has_count bms n \<longleftrightarrow> obj_get bms ''count'' = Null \<and> n = 0 \<or> obj_get bms ''count'' = Value_of_int n \<and> in_int32 n"

definition block_texts :: "members \<Rightarrow> int \<Rightarrow> members \<Rightarrow> string \<Rightarrow> string \<Rightarrow> bool" where
  "block_texts rms control bms pipes config \<longleftrightarrow>
     (\<exists>ps. PipeBuilder_collect (Obj rms) (Obj bms) control = Inr ps \<and> JsonObject_write ps False = Inr pipes)
     \<and> JsonObject_write (obj_get bms ''config'') False = Inr config"

inductive block_runs :: "members \<Rightarrow> int \<Rightarrow> members \<Rightarrow> string list \<Rightarrow> bool" for rms control where
  vent: "obj_get bms ''name'' = Str name \<Longrightarrow> is_vent rms name \<Longrightarrow> block_runs rms control bms []"
| no_program: "obj_get bms ''name'' = Str name \<Longrightarrow> not_vent rms name \<Longrightarrow> has_count bms n \<Longrightarrow>
    \<not> obj_has bms ''exe'' \<Longrightarrow> block_runs rms control bms []"
| single: "obj_get bms ''name'' = Str name \<Longrightarrow> not_vent rms name \<Longrightarrow> has_count bms n \<Longrightarrow> n \<le> 0 \<Longrightarrow>
    obj_has bms ''exe'' \<Longrightarrow> obj_get bms ''exe'' = Str exe \<Longrightarrow> block_texts rms control bms pipes config \<Longrightarrow>
    block_runs rms control bms
      [exe @ '' '' @ [CHR 0x27] @ pipes @ [CHR 0x27] @ '' '' @ [CHR 0x27] @ config @ [CHR 0x27] @ '' '' @ name]"
| copies: "obj_get bms ''name'' = Str name \<Longrightarrow> not_vent rms name \<Longrightarrow> has_count bms n \<Longrightarrow> 0 < n \<Longrightarrow>
    obj_has bms ''exe'' \<Longrightarrow> obj_get bms ''exe'' = Str exe \<Longrightarrow> block_texts rms control bms pipes config \<Longrightarrow>
    block_runs rms control bms
      (map (\<lambda>k. exe @ '' '' @ [CHR 0x27] @ pipes @ [CHR 0x27] @ '' '' @ [CHR 0x27] @ config @ [CHR 0x27]
                  @ '' '' @ name @ ''['' @ show_int (int k) @ '']'') [0..<nat n])"

lemma block_strings:
  "obj_get bms key = Str t \<Longrightarrow> JsonArray_getString (Obj bms) key = Inr t"
  by (simp add: JsonArray_getString_def accessor_defs)

lemma block_count: "has_count bms n \<Longrightarrow> JsonArray_getInt (Obj bms) ''count'' = Inr n"
  by (auto simp: has_count_def JsonArray_getInt_def get_int_of_int)

lemma upto_map_int: "[0..n - 1] = map int [0..<nat n]"
  by (rule nth_equalityI) auto

lemma skip_vent:
  "is_vent rms name \<or> not_vent rms name \<Longrightarrow>
     rbind (JsonObject_has (Obj rms) ''vent'') (\<lambda>hasvent.
       rbind (if hasvent then rmap (\<lambda>v. v = name) (JsonObject_getString (Obj rms) ''vent'') else Inr False) f)
     = f (is_vent rms name)"
  by (auto simp: is_vent_def not_vent_def JsonObject_has_def JsonObject_getString_def accessor_defs)

lemma not_is_vent: "not_vent rms name \<Longrightarrow> \<not> is_vent rms name"
  by (auto simp: is_vent_def not_vent_def)

lemma block_runs_cmds:
  assumes "block_runs rms control bms cmds"
  shows "block_cmds (Obj rms) control (Obj bms) = Inr cmds"
  using assms
proof cases
  case (vent name)
  then show ?thesis by (simp add: block_cmds_def block_strings skip_vent)
next
  case (no_program name n)
  then show ?thesis
    by (simp add: block_cmds_def block_strings skip_vent not_is_vent block_count JsonArray_has_def)
next
  case (single name n exe pipes config)
  then show ?thesis
    by (auto simp: block_cmds_def block_strings skip_vent not_is_vent block_count JsonArray_has_def block_texts_def
        JsonArray_getValue_def JsonArray_getChildAsString_def task_cmd_def quoted_def block_name_def)
next
  case (copies name n exe pipes config)
  then show ?thesis
    by (auto simp: block_cmds_def block_strings skip_vent not_is_vent block_count JsonArray_has_def block_texts_def
        JsonArray_getValue_def JsonArray_getChildAsString_def task_cmd_def quoted_def block_name_def upto_map_int)
qed

text \<open>
  Claim C21.  Where every block of the configuration is well formed and every fork succeeds, \<open>start\<close>
  returns true and runs, in the order of the blocks, exactly the commands that the configuration asks
  for: none for the vent and for a block without a program, one for a block without a positive count, and
  otherwise as many as the count says, numbered from 0.
\<close>

theorem TaskMonitor_start_runs_blocks:
  assumes "\<forall>k. 0 < fork k" and "obj_get rms ''blocks'' = Arr (map Obj blocks)"
    and "list_all2 (block_runs rms control) blocks css"
  shows "\<exists>s'. TaskMonitor_start fork control (Obj rms) s = (Inr True, s')
    \<and> map fst (ts_cmds s') = map fst (ts_cmds s) @ concat css"
proof -
  have "list_all2 (\<lambda>b cs. block_cmds (Obj rms) control b = Inr cs) (map Obj blocks) css"
    using assms(3) by (simp add: list_all2_map1 list_all2_mono [OF _ block_runs_cmds])
  moreover have "JsonObject_getArray (Obj rms) ''blocks'' = Inr (map Obj blocks)"
    using assms(2) by (simp add: JsonObject_getArray_def accessor_defs)
  ultimately show ?thesis
    using start_blocks_ok [OF assms(1), of "Obj rms" control "map Obj blocks" css s]
    by (auto simp: TaskMonitor_start_def scatch_def sbind_def slift_def)
qed

definition example_machine :: JsonObject where
  "example_machine = Obj [(''vent'', Str ''v''), (''blocks'', Arr
     [Obj [(''name'', Str ''v''), (''exe'', Str ''./vent'')],
      Obj [(''name'', Str ''w''), (''exe'', Str ''./work''), (''count'', Value_of_int 2),
           (''connections'', Obj [])]])]"

theorem TaskMonitor_start_runs_blocks_witness:
  "\<exists>s'. TaskMonitor_start (\<lambda>k. 100 + int k) 0 example_machine task_init = (Inr True, s')
    \<and> map fst (ts_cmds s') = [''./work '' @ [CHR 0x27] @ ''{}'' @ [CHR 0x27] @ '' '' @ [CHR 0x27] @ ''{}'' @ [CHR 0x27] @ '' w[0]'',
                               ''./work '' @ [CHR 0x27] @ ''{}'' @ [CHR 0x27] @ '' '' @ [CHR 0x27] @ ''{}'' @ [CHR 0x27] @ '' w[1]'']"
proof -
  let ?v = "[(''name'', Str ''v''), (''exe'', Str ''./vent'')]"
  let ?w = "[(''name'', Str ''w''), (''exe'', Str ''./work''), (''count'', Value_of_int 2), (''connections'', Obj [])]"
  let ?r = "[(''vent'', Str ''v''), (''blocks'', Arr (map Obj [?v, ?w]))]"
  have texts: "block_texts ?r 0 ?w ''{}'' ''{}''"
  proof -
    have "PipeBuilder_collect (Obj ?r) (Obj ?w) 0 = Inr Null"
      "JsonObject_write Null False = Inr ''{}''" by code_simp+
    then show ?thesis by (simp add: block_texts_def)
  qed
  have v: "block_runs ?r 0 ?v []" by (rule block_runs.vent [of _ "''v''"]) (simp_all add: is_vent_def)
  have "block_runs ?r 0 ?w (map (\<lambda>k. ''./work'' @ '' '' @ [CHR 0x27] @ ''{}'' @ [CHR 0x27] @ '' '' @ [CHR 0x27] @ ''{}'' @ [CHR 0x27]
      @ '' '' @ ''w'' @ ''['' @ show_int (int k) @ '']'') [0..<nat 2])"
    by (rule block_runs.copies [OF _ _ _ _ _ _ texts]) (simp_all add: not_vent_def has_count_def in_int32_def)
  moreover have "show_int 0 = ''0''" "show_int 1 = ''1''" by code_simp+
  moreover have "[0..<nat 2] = [0, 1]" by code_simp
  ultimately have "list_all2 (block_runs ?r 0) [?v, ?w] [[],
      [''./work '' @ [CHR 0x27] @ ''{}'' @ [CHR 0x27] @ '' '' @ [CHR 0x27] @ ''{}'' @ [CHR 0x27] @ '' w[0]'',
       ''./work '' @ [CHR 0x27] @ ''{}'' @ [CHR 0x27] @ '' '' @ [CHR 0x27] @ ''{}'' @ [CHR 0x27] @ '' w[1]'']]"
    using v by simp
  from TaskMonitor_start_runs_blocks [OF _ _ this, of "\<lambda>k. 100 + int k" task_init]
  show ?thesis by (auto simp: example_machine_def task_init_def)
qed

end
