(* ===== verification/Machine.thy ===== *)
theory Machine
  imports Task_Monitor Vent_Loop
begin

text \<open>
  \<open>machine/machine.cpp\<close>, the server that starts, vents and stops a machine on command, and
  \<open>machine/machinecmd.cpp\<close>, the program that sends it a command.

  The database, the file system and the sockets are parameters of a turn of the loop
  (\<open>machine_event\<close>), the JSON reader, msgpack and \<open>fork\<close> of the whole loop (\<open>machine_params\<close>).
\<close>

section \<open>State and environment\<close>

record 'm machine_state =
  mc_running :: bool
  mc_config :: JsonObject
  mc_task :: task_state
  mc_published :: "'m list"

definition machine_init :: "'m machine_state" where
  "machine_init = \<lparr>mc_running = False, mc_config = Null, mc_task = task_init, mc_published = []\<rparr>"

text \<open>\<open>me_query\<close> is the search by id: an exception of the driver, no machine, or its JSON text.
  \<open>me_file\<close> is what a stream on a file gives (nothing for a file that is not there).\<close>

record 'm machine_event =
  me_received :: "'m res"
  me_interrupted :: bool
  me_query :: "string \<Rightarrow> string option res"
  me_file :: "string \<Rightarrow> string"
  me_kill :: "unit res"

record 'm machine_params =
  mp_msgs :: "('m, MachineMsg) codec"
  mp_kills :: "('m, KillMsg) codec"
  mp_no_msg :: "'m"
  mp_reader :: json_reader
  mp_fork :: "nat \<Rightarrow> int"
  mp_control :: int

definition on_task :: "(task_state, 'a) prog \<Rightarrow> ('m machine_state, 'a) prog" where
  "on_task m s = (let (r, t) = m (mc_task s) in (r, s\<lparr>mc_task := t\<rparr>))"

section \<open>The server\<close>

text \<open>\<open>stop\<close>: publish a kill message and wait for the processes.\<close>

definition machine_stop :: "'m machine_params \<Rightarrow> 'm machine_event \<Rightarrow> ('m machine_state, bool) prog" where
  "machine_stop p ev s =
     (case catch_zmq False (rmap (\<lambda>_. True) (me_kill ev)) of
        Inl e \<Rightarrow> (Inl e, s)
      | Inr False \<Rightarrow> (Inr False, s)
      | Inr True \<Rightarrow>
          let t = TaskMonitor_waitFinish (ts_pids (mc_task s)) (mc_task s) in
          (Inr True, s\<lparr>mc_published := mc_published s @ [Msg_set (mp_kills p) KillMsg_init],
                       mc_task := t\<lparr>ts_pids := []\<rparr>\<rparr>))"

definition machine_read :: "'m machine_params \<Rightarrow> string \<Rightarrow> ('m machine_state, bool) prog" where
  "machine_read p text s =
     (let (ok, r) = JsonObject_read (mp_reader p) (mc_config s) text in (Inr ok, s\<lparr>mc_config := r\<rparr>))"

text \<open>Loading the configuration; \<open>false\<close> is the \<open>continue\<close> after a failed read.  A machine that
  is not in the database leaves the old configuration in place.\<close>

definition machine_load ::
  "'m machine_params \<Rightarrow> 'm machine_event \<Rightarrow> MachineMsg \<Rightarrow> ('m machine_state, bool) prog" where
  "machine_load p ev msg =
     (if MachineMsg_getCode msg = 1
      then sbind (slift (me_query ev (MachineMsg_getData msg))) (\<lambda>found.
             case found of None \<Rightarrow> sreturn True | Some text \<Rightarrow> machine_read p text)
      else machine_read p (me_file ev (MachineMsg_getData msg)))"

text \<open>The body of the loop: \<open>Some c\<close> leaves \<open>main\<close> with the exit code \<open>c\<close>.\<close>

definition stop_if_running :: "'m machine_params \<Rightarrow> 'm machine_event \<Rightarrow> ('m machine_state, bool) prog" where
  "stop_if_running p ev s = (if mc_running s then machine_stop p ev s else (Inr True, s))"

definition machine_on_start ::
  "'m machine_params \<Rightarrow> 'm machine_event \<Rightarrow> MachineMsg \<Rightarrow> ('m machine_state, int option) prog" where
  "machine_on_start p ev msg =
     sbind (stop_if_running p ev) (\<lambda>ok.
       if \<not> ok then sreturn (Some 1)
       else sbind (machine_load p ev msg) (\<lambda>loaded.
         if \<not> loaded then sreturn None
         else sbind (\<lambda>s. on_task (TaskMonitor_start (mp_fork p) (mp_control p) (mc_config s)) s) (\<lambda>ok.
           if \<not> ok then sreturn (Some 1) else (\<lambda>s. (Inr None, s\<lparr>mc_running := True\<rparr>)))))"

definition machine_on_vent :: "'m machine_params \<Rightarrow> ('m machine_state, int option) prog" where
  "machine_on_vent p s =
     (if \<not> mc_running s then (Inr None, s)
      else sbind (on_task (with_local_pids (TaskMonitor_doVent (mp_fork p) (mp_control p) (mc_config s))))
             (\<lambda>(ok, pids). if \<not> ok then sreturn (Some 1)
                           else (\<lambda>s. (Inr None, s\<lparr>mc_task := TaskMonitor_waitFinish pids (mc_task s)\<rparr>))) s)"

definition machine_on_stop :: "'m machine_params \<Rightarrow> 'm machine_event \<Rightarrow> ('m machine_state, int option) prog" where
  "machine_on_stop p ev s =
     (if \<not> mc_running s then (Inr None, s)
      else sbind (machine_stop p ev) (\<lambda>ok.
             if \<not> ok then sreturn (Some 1) else (\<lambda>s. (Inr None, s\<lparr>mc_running := False\<rparr>))) s)"

definition machine_on_quit :: "'m machine_params \<Rightarrow> 'm machine_event \<Rightarrow> ('m machine_state, int option) prog" where
  "machine_on_quit p ev =
     sbind (stop_if_running p ev) (\<lambda>ok. sreturn (Some (if ok then 0 else 1)))"

definition machine_body :: "'m machine_params \<Rightarrow> 'm machine_event \<Rightarrow> ('m machine_state, int option) prog" where
  "machine_body p ev =
     sbind (slift (catch_zmq (mp_no_msg p) (me_received ev))) (\<lambda>message.
       if me_interrupted ev then sreturn (Some 0)
       else sbind (slift (Msg_of_message (mp_msgs p) message)) (\<lambda>msg.
         if MachineMsg_getCode msg = 1 \<or> MachineMsg_getCode msg = 2 then machine_on_start p ev msg
         else if MachineMsg_getCode msg = 3 then machine_on_vent p
         else if MachineMsg_getCode msg = 4 then machine_on_stop p ev
         else if MachineMsg_getCode msg = 5 then machine_on_quit p ev
         else sreturn None))"

text \<open>A turn with the handler around the loop, which returns 0.\<close>

definition machine_turn ::
  "'m machine_params \<Rightarrow> 'm machine_state \<Rightarrow> 'm machine_event \<Rightarrow>
   ('m machine_state, int res \<times> 'm machine_state) outcome" where
  "machine_turn p s ev =
     (case machine_body p ev s of
        (Inr None, s') \<Rightarrow> Continue s'
      | (Inr (Some c), s') \<Rightarrow> Stop (Inr c, s')
      | (Inl e, s') \<Rightarrow> Stop (if is_std_exception e then Inr 0 else Inl e, s'))"

definition machine_main ::
  "'m machine_params \<Rightarrow> 'm machine_event list \<Rightarrow>
   ('m machine_state, int res \<times> 'm machine_state) outcome \<times> 'm machine_event list" where
  "machine_main p evs = run (machine_turn p) machine_init evs"

section \<open>machinecmd\<close>

text \<open>The message the program sends for its arguments; \<open>None\<close> when it does not understand the
  command.  Without a configuration for \<open>start\<close> it complains and sends the empty message.\<close>

definition machinecmd_msg :: "string \<Rightarrow> string option \<Rightarrow> string option \<Rightarrow> MachineMsg option" where
  "machinecmd_msg cmd jsonConfig machineID =
     (if cmd = ''start''
      then (case jsonConfig of
              Some config \<Rightarrow> Some (MachineMsg_startMsg config MachineMsg_init)
            | None \<Rightarrow> (case machineID of
                        Some i \<Rightarrow> Some (MachineMsg_startMsg i MachineMsg_init)
                      | None \<Rightarrow> Some MachineMsg_init))
      else if cmd = ''vent'' then Some (MachineMsg_ventMsg MachineMsg_init)
      else if cmd = ''stop'' then Some (MachineMsg_stopMsg MachineMsg_init)
      else if cmd = ''quit'' then Some (MachineMsg_quitMsg MachineMsg_init)
      else None)"

text \<open>\<open>main\<close> after its options: the exit code and what was sent.\<close>

definition machinecmd_main ::
  "('m, MachineMsg) codec \<Rightarrow> socket \<Rightarrow> int \<Rightarrow> string \<Rightarrow> string option \<Rightarrow> string option \<Rightarrow> unit res \<Rightarrow>
   (int \<times> 'm list) res" where
  "machinecmd_main c sock port cmd jsonConfig machineID sendout =
     rbind (try_sock sock (Sock_connect (tcp_url ''localhost'' port))) (\<lambda>ok.
       if \<not> ok then Inr (1, [])
       else (case machinecmd_msg cmd jsonConfig machineID of
               None \<Rightarrow> Inr (1, [])
             | Some msg \<Rightarrow> catch_zmq (1, []) (rmap (\<lambda>_. (0, [Msg_set c msg])) sendout)))"

section \<open>No process is left behind\<close>

text \<open>Every process that was started has been waited for or is in the vector; an idle machine
  has none in the vector.\<close>

definition accounted :: "task_state \<Rightarrow> bool" where
  "accounted t \<longleftrightarrow> mset (started (ts_cmds t)) = mset (ts_waited t) + mset (ts_pids t)"

definition machine_inv :: "'m machine_state \<Rightarrow> bool" where
  "machine_inv s \<longleftrightarrow> accounted (mc_task s) \<and> (\<not> mc_running s \<longrightarrow> ts_pids (mc_task s) = [])"

definition machine_acceptable :: "int res \<times> 'm machine_state \<Rightarrow> bool" where
  "machine_acceptable r \<longleftrightarrow> accounted (mc_task (snd r))"

lemma accounted_notes: "notes_all t t' \<Longrightarrow> accounted t \<Longrightarrow> accounted t'"
  by (auto simp: notes_all_def accounted_def)

lemma stop_accounted:
  assumes "machine_inv s"
  shows "accounted (mc_task (snd (machine_stop p ev s)))"
    "fst (machine_stop p ev s) = Inr True \<Longrightarrow> ts_pids (mc_task (snd (machine_stop p ev s))) = []"
    "mc_running (snd (machine_stop p ev s)) = mc_running s"
  using assms
  by (auto simp: machine_stop_def machine_inv_def accounted_def TaskMonitor_waitFinish_def Let_def
      split: sum.split bool.split)

lemma stop_if_running_accounted:
  assumes "machine_inv s"
  shows "accounted (mc_task (snd (stop_if_running p ev s)))"
    "fst (stop_if_running p ev s) = Inr True \<Longrightarrow> ts_pids (mc_task (snd (stop_if_running p ev s))) = []"
  using assms stop_accounted [OF assms] by (auto simp: stop_if_running_def machine_inv_def)

lemma machine_load_task: "mc_task (snd (machine_load p ev msg s)) = mc_task s"
  by (auto simp: machine_load_def machine_read_def sbind_def slift_def sreturn_def Let_def
      split: sum.split option.split prod.split)

lemma local_pids_accounted:
  assumes "keeps notes_all m" and "accounted t" and "with_local_pids m t = (r, t')"
  shows "\<exists>q. ts_pids t' = ts_pids t \<and> ts_waited t' = ts_waited t
    \<and> mset (started (ts_cmds t')) = mset (ts_waited t') + mset (ts_pids t') + mset q
    \<and> (\<forall>x. r = Inr x \<longrightarrow> q = snd x)"
proof -
  obtain r0 t0 where m: "m (t\<lparr>ts_pids := []\<rparr>) = (r0, t0)" by fastforce
  with assms(1) have "notes_all (t\<lparr>ts_pids := []\<rparr>) t0"
    unfolding keeps_def by (metis snd_conv)
  with assms(2,3) m show ?thesis
    by (intro exI [of _ "ts_pids t0"])
      (auto simp: with_local_pids_def notes_all_def accounted_def res_simps)
qed

text \<open>A command that is not run leaves no process.\<close>

definition clean_failure :: "(task_state, bool) prog \<Rightarrow> bool" where
  "clean_failure m \<longleftrightarrow> (\<forall>s. fst (m s) \<noteq> Inr True \<longrightarrow> ts_pids (snd (m s)) = ts_pids s)"

lemma clean_failure_lift: "(\<And>x. clean_failure (f x)) \<Longrightarrow> clean_failure (sbind (slift r) f)"
  by (cases r) (auto simp: clean_failure_def sbind_def slift_def)

lemma doVent_clean: "clean_failure (TaskMonitor_doVent fork control r)"
  unfolding TaskMonitor_doVent_def TaskMonitor_doBlock_def TaskMonitor_runOne_def
  by (intro clean_failure_lift)
    (auto simp: clean_failure_def run_and_note_def sbind_def ExeRunner_run_def Let_def)

lemma vent_accounted:
  assumes "machine_inv s"
  shows "accounted (mc_task (snd (machine_on_vent p s)))"
    "mc_running (snd (machine_on_vent p s)) = mc_running s"
    "\<not> mc_running s \<Longrightarrow> ts_pids (mc_task (snd (machine_on_vent p s))) = []"
proof -
  let ?m = "TaskMonitor_doVent (mp_fork p) (mp_control p) (mc_config s)"
  have acc: "accounted (mc_task s)" using assms by (simp add: machine_inv_def)
  obtain r t where m: "with_local_pids ?m (mc_task s) = (r, t)" by fastforce
  obtain r0 t0 where m0: "?m (mc_task s\<lparr>ts_pids := []\<rparr>) = (r0, t0)" by fastforce
  have "r0 \<noteq> Inr True \<Longrightarrow> ts_pids t0 = []"
    using doVent_clean [of "mp_fork p" "mp_control p" "mc_config s", unfolded clean_failure_def, rule_format,
        of "mc_task s\<lparr>ts_pids := []\<rparr>"]
    by (simp add: m0)
  moreover have r: "r = rmap (\<lambda>x. (x, ts_pids t0)) r0" "t = t0\<lparr>ts_pids := ts_pids (mc_task s)\<rparr>"
    using m by (auto simp: with_local_pids_def m0)
  moreover have "notes_all (mc_task s\<lparr>ts_pids := []\<rparr>) t0"
    using TaskMonitor_keeps(4) m0 unfolding keeps_def by (metis snd_conv)
  ultimately show "accounted (mc_task (snd (machine_on_vent p s)))"
    "mc_running (snd (machine_on_vent p s)) = mc_running s"
    "\<not> mc_running s \<Longrightarrow> ts_pids (mc_task (snd (machine_on_vent p s))) = []"
    using acc assms
    by (cases r0; auto simp: machine_on_vent_def sbind_def on_task_def m sreturn_def accounted_def notes_all_def
        TaskMonitor_waitFinish_def machine_inv_def)+
qed

lemma start_accounted:
  assumes "machine_inv s"
  shows "accounted (mc_task (snd (machine_on_start p ev msg s)))"
    "fst (machine_on_start p ev msg s) = Inr None \<Longrightarrow> machine_inv (snd (machine_on_start p ev msg s))"
proof -
  obtain r1 s1 where 1: "stop_if_running p ev s = (r1, s1)" by fastforce
  obtain r2 s2 where 2: "machine_load p ev msg s1 = (r2, s2)" by fastforce
  have a1: "accounted (mc_task s1)" "r1 = Inr True \<Longrightarrow> ts_pids (mc_task s1) = []"
    using stop_if_running_accounted [OF assms, of p ev] by (simp_all add: 1)
  have t2: "mc_task s2 = mc_task s1" using machine_load_task [of p ev msg s1] by (simp add: 2)
  obtain r3 t3 where 3: "TaskMonitor_start (mp_fork p) (mp_control p) (mc_config s2) (mc_task s1) = (r3, t3)"
    by fastforce
  have "notes_all (mc_task s1) t3"
    using TaskMonitor_keeps(1) 3 unfolding keeps_def by (metis snd_conv)
  then have a3: "accounted t3" using accounted_notes a1(1) by simp
  have run: "mc_running s2 = mc_running s1" if "r1 = Inr True"
    using 2 by (auto simp: machine_load_def machine_read_def sbind_def slift_def sreturn_def Let_def
        split: sum.splits option.splits prod.splits if_splits)
  show "accounted (mc_task (snd (machine_on_start p ev msg s)))"
    using a1 a3 t2
    by (cases r1; cases r2; cases r3)
      (auto simp: machine_on_start_def sbind_def 1 2 3 sreturn_def on_task_def)
  show "fst (machine_on_start p ev msg s) = Inr None \<Longrightarrow> machine_inv (snd (machine_on_start p ev msg s))"
    using a1 a3 t2
    by (cases r1; cases r2; cases r3)
      (auto simp: machine_on_start_def sbind_def 1 2 3 sreturn_def on_task_def machine_inv_def split: if_splits)
qed

lemma machine_body_accounted:
  assumes "machine_inv s"
  shows "accounted (mc_task (snd (machine_body p ev s)))
    \<and> (fst (machine_body p ev s) = Inr None \<longrightarrow> machine_inv (snd (machine_body p ev s)))"
proof -
  have acc: "accounted (mc_task s)" using assms by (simp add: machine_inv_def)
  have stop: "accounted (mc_task (snd (machine_on_stop p ev s)))
      \<and> (fst (machine_on_stop p ev s) = Inr None \<longrightarrow> machine_inv (snd (machine_on_stop p ev s)))"
    using stop_accounted [OF assms, of p ev] assms
    by (cases "machine_stop p ev s")
      (auto simp: machine_on_stop_def sbind_def sreturn_def machine_inv_def split: sum.splits if_splits)
  have quit: "accounted (mc_task (snd (machine_on_quit p ev s))) \<and> fst (machine_on_quit p ev s) \<noteq> Inr None"
    using stop_if_running_accounted [OF assms, of p ev]
    by (cases "stop_if_running p ev s")
      (auto simp: machine_on_quit_def sbind_def sreturn_def split: sum.splits)
  have vent: "accounted (mc_task (snd (machine_on_vent p s))) \<and> machine_inv (snd (machine_on_vent p s))"
    using vent_accounted [OF assms, of p] assms by (auto simp: machine_inv_def)
  note start = start_accounted [OF assms]
  show ?thesis
    using acc assms stop quit vent start
    unfolding machine_body_def
    by (cases "catch_zmq (mp_no_msg p) (me_received ev)")
      (auto simp: sbind_def slift_def sreturn_def split: sum.split)
qed

interpretation machine_loop: stepper "machine_turn (p :: 'm machine_params)" machine_inv "\<lambda>_. True" machine_acceptable
proof unfold_locales
  fix s :: "'m machine_state" and ev assume inv: "machine_inv s"
  note body = machine_body_accounted [OF inv, of p ev]
  show "machine_inv s'" if "machine_turn p s ev = Continue s'" for s'
    using that body by (auto simp: machine_turn_def split: prod.splits sum.splits option.splits)
  show "machine_acceptable r" if "machine_turn p s ev = Stop r" for r
    using that body by (auto simp: machine_turn_def machine_acceptable_def split: prod.splits sum.splits option.splits)
qed

lemma machine_inv_init: "machine_inv machine_init"
  by (simp add: machine_inv_def machine_init_def task_init_def accounted_def started_def)

section \<open>Properties\<close>

text \<open>
  Claim C12.  The server loses no process: after any sequence of messages, whatever the database,
  the files, the forks and the sockets do, each process it has started has been waited for or is
  in its vector, and when it is idle all have been waited for.  This holds too when it ends.
\<close>

theorem machine_accounts_for_processes:
  "case fst (machine_main p evs) of
     Continue s \<Rightarrow> accounted (mc_task s)
       \<and> (\<not> mc_running s \<longrightarrow> mset (started (ts_cmds (mc_task s))) = mset (ts_waited (mc_task s)))
   | Stop r \<Rightarrow> accounted (mc_task (snd r))"
proof -
  obtain out rest where r: "run (machine_turn p) machine_init evs = (out, rest)" by fastforce
  show ?thesis
  proof (cases out)
    case (Continue s)
    with machine_loop.run_inv [OF machine_inv_init _ r [unfolded Continue]] r show ?thesis
      by (auto simp: machine_main_def machine_inv_def accounted_def list_all_iff)
  next
    case (Stop x)
    with machine_loop.run_acceptable [OF machine_inv_init _ r [unfolded Stop]] r show ?thesis
      by (auto simp: machine_main_def machine_acceptable_def list_all_iff)
  qed
qed

lemma quit_turn:
  assumes "me_received ev = Inr m" and "unpack (mp_msgs p) m = Inr msg" and "MachineMsg_getCode msg = 5"
    and "\<not> me_interrupted ev" and "stop_if_running p ev s = (Inr ok, s')"
  shows "machine_turn p s ev = Stop (Inr (if ok then 0 else 1), s')"
  using assms
  by (simp add: machine_turn_def machine_body_def Msg_of_message_def machine_on_quit_def sbind_def sreturn_def slift_def)

text \<open>A machine that runs, stopped with a kill message that can be sent.\<close>

definition stopped :: "'m machine_params \<Rightarrow> 'm machine_state \<Rightarrow> 'm machine_state" where
  "stopped p s = s\<lparr>mc_published := mc_published s @ [pack (mp_kills p) 0],
     mc_task := mc_task s\<lparr>ts_waited := ts_waited (mc_task s) @ ts_pids (mc_task s), ts_pids := []\<rparr>\<rparr>"

lemma stop_running:
  "mc_running s \<Longrightarrow> me_kill ev = Inr () \<Longrightarrow> stop_if_running p ev s = (Inr True, stopped p s)"
  by (simp add: stop_if_running_def machine_stop_def TaskMonitor_waitFinish_def Msg_set_def KillMsg_init_def stopped_def)

text \<open>
  Claim C13.  The end by a quit message.  If the machine runs and the kill message can be sent, it is
  sent, once, then each process in the vector is waited for, in order, and the server returns 0 with
  every process it ever started waited for.  If the machine does not run there is nothing to wait for,
  and the server returns 0 without sending anything.  If the machine runs and the kill message cannot
  be sent, the server returns 1 without waiting for the processes.
\<close>

theorem machine_quit_waits_for_all:
  assumes "fst (machine_main p evs) = Continue s"
    and "me_received ev = Inr m" and "unpack (mp_msgs p) m = Inr msg" and "MachineMsg_getCode msg = 5"
    and "\<not> me_interrupted ev" and "me_kill ev = Inr () \<or> me_kill ev = Inl (Zmq_error what)"
  shows "\<exists>c s'. machine_turn p s ev = Stop (Inr c, s')
    \<and> (if \<not> mc_running s then c = 0 \<and> s' = s
       else if me_kill ev = Inr () then c = 0
         \<and> mc_published s' = mc_published s @ [pack (mp_kills p) 0]
         \<and> ts_waited (mc_task s') = ts_waited (mc_task s) @ ts_pids (mc_task s)
       else c = 1 \<and> s' = s)
    \<and> (c = 0 \<longrightarrow> mset (started (ts_cmds (mc_task s'))) = mset (ts_waited (mc_task s')))"
proof -
  obtain rest where "run (machine_turn p) machine_init evs = (Continue s, rest)"
    using assms(1) by (cases "run (machine_turn p) machine_init evs") (auto simp: machine_main_def)
  then have inv: "machine_inv s"
    using machine_loop.run_inv [OF machine_inv_init] by (auto simp: list_all_iff)
  note quit = quit_turn [OF assms(2-5)]
  consider "\<not> mc_running s" | "mc_running s" "me_kill ev = Inr ()" | "mc_running s" "me_kill ev = Inl (Zmq_error what)"
    using assms(6) by blast
  then show ?thesis
  proof cases
    case 1
    then show ?thesis
      using quit [of s True s] inv by (auto simp: stop_if_running_def machine_inv_def accounted_def)
  next
    case 2
    then show ?thesis
      using quit [OF stop_running] inv by (auto simp: stopped_def machine_inv_def accounted_def)
  next
    case 3
    then show ?thesis using quit [of s False s] by (auto simp: stop_if_running_def machine_stop_def)
  qed
qed

definition example_params :: "MachineMsg machine_params" where
  "example_params = \<lparr>mp_msgs = plain_codec, mp_kills = \<lparr>pack = \<lambda>k. (k, []), unpack = \<lambda>m. Inr (fst m)\<rparr>,
     mp_no_msg = (0, []), mp_reader = \<lambda>s v. (True, example_machine), mp_fork = \<lambda>k. 100 + int k, mp_control = 0\<rparr>"

definition example_event :: "MachineMsg \<Rightarrow> MachineMsg machine_event" where
  "example_event m = \<lparr>me_received = Inr m, me_interrupted = False, me_query = \<lambda>_. Inr None,
     me_file = \<lambda>_. [], me_kill = Inr ()\<rparr>"

definition example_state :: "MachineMsg machine_state" where
  "example_state = \<lparr>mc_running = True, mc_config = example_machine,
     mc_task = \<lparr>ts_cmds = [(task_cmd ''./work'' ''{}'' ''{}'' ''w[0]'', 100),
                            (task_cmd ''./work'' ''{}'' ''{}'' ''w[1]'', 101)],
                ts_pids = [100, 101], ts_waited = []\<rparr>, mc_published = []\<rparr>"

lemma example_started: "fst (machine_main example_params [example_event (2, ''m.json'')]) = Continue example_state"
  by code_simp

theorem machine_accounts_for_processes_witness:
  "\<exists>s. fst (machine_main example_params [example_event (2, ''m.json'')]) = Continue s
    \<and> ts_pids (mc_task s) = [100, 101] \<and> mset (started (ts_cmds (mc_task s))) = {#100, 101#}"
  using machine_accounts_for_processes [of example_params "[example_event (2, ''m.json'')]"]
  by (auto simp: example_started accounted_def) (simp_all add: example_state_def)

theorem machine_quit_waits_for_all_witness:
  "\<exists>s'. machine_turn example_params example_state (example_event (5, [])) = Stop (Inr 0, s')
    \<and> mc_published s' = [pack (mp_kills example_params) 0] \<and> ts_waited (mc_task s') = [100, 101]"
  using machine_quit_waits_for_all [OF example_started, of "example_event (5, [])" "(5, [])" "(5, [])"]
  by (auto simp: example_event_def example_params_def MachineMsg_getCode_def example_state_def)

text \<open>
  The two programs disagree about the codes: what \<open>machinecmd start file\<close> sends
  makes the server look for a machine with that id in the database and never open the file, so
  that its reaction does not depend on the contents of any file.
\<close>

theorem machinecmd_start_never_reads_the_file:
  assumes "codec_ok (mp_msgs p)" and "machinecmd_msg ''start'' (Some file) ident = Some msg"
    and "me_received ev = Inr (Msg_set (mp_msgs p) msg)"
  shows "machine_turn p s (ev\<lparr>me_file := contents\<rparr>) = machine_turn p s ev"
proof -
  have msg: "MachineMsg_getCode msg = 1" and m: "Msg_of_message (mp_msgs p) (Msg_set (mp_msgs p) msg) = Inr msg"
    using assms(1,2) by (auto simp: machinecmd_msg_def MachineMsg_defs)
  have "machine_stop p (ev\<lparr>me_file := contents\<rparr>) = machine_stop p ev"
    by (intro ext) (simp add: machine_stop_def)
  then have "stop_if_running p (ev\<lparr>me_file := contents\<rparr>) = stop_if_running p ev"
    by (intro ext) (simp add: stop_if_running_def)
  moreover have "machine_load p (ev\<lparr>me_file := contents\<rparr>) msg = machine_load p ev msg"
    using msg by (simp add: machine_load_def)
  ultimately have "machine_on_start p (ev\<lparr>me_file := contents\<rparr>) msg = machine_on_start p ev msg"
    by (simp add: machine_on_start_def cong: if_cong)
  then show ?thesis
    using assms(3) msg m by (simp add: machine_turn_def machine_body_def)
qed

theorem machinecmd_start_never_reads_the_file_witness:
  "machine_turn example_params machine_init (example_event (1, ''m.json'') \<lparr>me_file := \<lambda>_. ''{}''\<rparr>) =
   machine_turn example_params machine_init (example_event (1, ''m.json''))"
  using machinecmd_start_never_reads_the_file [of example_params "''m.json''" None "(1, ''m.json'')"
      "example_event (1, ''m.json'')" machine_init "\<lambda>_. ''{}''"]
  by (simp add: example_params_def example_event_def machinecmd_msg_def MachineMsg_defs Msg_set_def)

end
