(* ===== verification/Runner.thy ===== *)
theory Runner
  imports Task_Monitor Json_Path Sinks
begin

text \<open>
  \<open>machine/Results.cpp\<close>, \<open>machine/MachineRunner.cpp\<close>, \<open>machine/run.cpp\<close> and \<open>machine/soak.cpp\<close>: running
  a machine a number of times and reporting how long it took.

  The state is that of the processes (\<open>task_state\<close>), the kill messages sent and the report.  What
  a run meets (signals, the message with the results) is a \<open>run_turn\<close>.
\<close>

section \<open>Results\<close>

definition tab :: string where "tab = [CHR 0x09]"

definition StreamResults_line :: "int \<Rightarrow> int \<Rightarrow> string \<Rightarrow> int \<Rightarrow> int \<Rightarrow> int \<Rightarrow> int \<Rightarrow> int \<Rightarrow> string res" where
  "StreamResults_line grp iter vars iterations low high fail sm =
     (let avg = dbl_div (dbl_of_int sm) (dbl_of_int iterations) in
      rmap (\<lambda>diff.
        let med = dbl_add (dbl_of_int low) (dbl_div (dbl_of_int diff) (dbl_of_int 2)) in
        show_int grp @ tab @ show_int iter @ tab @ vars @ tab @ show_int iterations @ tab
        @ show_int low @ tab @ show_int high @ tab @ show_int fail @ tab
        @ stream_double avg @ tab @ stream_double med @ nl)
       (sub_int32 high low))"

section \<open>The state and the environment\<close>

record 'm runner_state =
  rr_task :: task_state
  rr_control :: "'m list"
  rr_report :: string
  rr_pidfile :: "int list"

definition runner_init :: "'m runner_state" where
  "runner_init = \<lparr>rr_task = task_init, rr_control = [], rr_report = [], rr_pidfile = []\<rparr>"

record 'm run_turn =
  rt_interrupted_head :: bool
  rt_received :: "'m res"
  rt_interrupted :: bool

text \<open>The sockets and the libraries; the time to settle is left out.\<close>

record 'm runner_env =
  re_reader :: json_reader
  re_fork :: "nat \<Rightarrow> int"
  re_strings :: "('m, StringMsg) codec"
  re_kills :: "('m, KillMsg) codec"
  re_no_msg :: "'m"
  re_connect :: "unit res"
  re_csocket :: socket
  re_kill :: "unit res"

definition on_runner_task :: "(task_state, 'a) prog \<Rightarrow> ('m runner_state, 'a) prog" where
  "on_runner_task m s = (let (r, t) = m (rr_task s) in (r, s\<lparr>rr_task := t\<rparr>))"

section \<open>Judging the results\<close>

text \<open>The literal \<open>0.005\<close>.\<close>

definition tolerance :: dbl where
  "tolerance = round53 False 5 1000"

definition item_bad :: "JsonObject \<Rightarrow> string \<times> jvalue \<Rightarrow> bool res" where
  "item_bad results it =
     (let k = JsonObject_getKey it in
      if JsonObject_isValueDouble it
      then rbind (JsonObject_getValueDouble it) (\<lambda>v.
           rmap (\<lambda>rv. dbl_greater (dbl_abs (dbl_sub v rv)) tolerance) (JsonObject_getDouble results k))
      else rbind (JsonObject_getValueString it) (\<lambda>v.
           rmap (\<lambda>rv. v \<noteq> rv) (JsonObject_getAsString results k)))"

fun any_bad :: "JsonObject \<Rightarrow> members \<Rightarrow> bool res" where
  "any_bad results [] = Inr False"
| "any_bad results (it # its) = rbind (item_bad results it) (\<lambda>b. if b then Inr True else any_bad results its)"

definition results_bad :: "JsonObject \<Rightarrow> JsonObject \<Rightarrow> bool res" where
  "results_bad success results =
     (if JsonObject_empty success then Inr False
      else rbind (JsonObject_iter success) (any_bad results))"

record run_stats =
  rn_fail :: int
  rn_low :: int
  rn_high :: int
  rn_sum :: int

definition stats_init :: run_stats where
  "stats_init = \<lparr>rn_fail = 0, rn_low = -1, rn_high = -1, rn_sum = 0\<rparr>"

text \<open>A failed run: whether to go on, and the count.\<close>

definition run_failed :: "bool \<Rightarrow> run_stats \<Rightarrow> (bool \<times> run_stats) res" where
  "run_failed failonerror st =
     rmap (\<lambda>fail. (\<not> failonerror, st\<lparr>rn_fail := fail\<rparr>)) (add_int32 (rn_fail st) 1)"

definition run_passed :: "int \<Rightarrow> run_stats \<Rightarrow> (bool \<times> run_stats) res" where
  "run_passed elapsed st =
     (let low = (if rn_low st < 0 \<or> elapsed < rn_low st then elapsed else rn_low st);
          high = (if rn_high st < 0 \<or> elapsed > rn_high st then elapsed else rn_high st)
      in rmap (\<lambda>sm. (True, st\<lparr>rn_low := low, rn_high := high, rn_sum := sm\<rparr>))
           (add_int32 (rn_sum st) elapsed))"

definition run_account :: "bool \<Rightarrow> JsonObject \<Rightarrow> JsonObject \<Rightarrow> run_stats \<Rightarrow> (bool \<times> run_stats) res" where
  "run_account failonerror success results st =
     (if JsonObject_empty results then run_failed failonerror st
      else rbind (results_bad success results) (\<lambda>bad.
           if bad then run_failed failonerror st
           else rbind (JsonObject_getInt results ''elapsed'' (-1)) (\<lambda>elapsed. run_passed elapsed st)))"

section \<open>MachineRunner::runOne\<close>

definition run_results :: "'m runner_env \<Rightarrow> 'm \<Rightarrow> JsonObject res" where
  "run_results p message =
     rmap (\<lambda>rmsg. snd (JsonObject_read (re_reader p) Null (DataMsg_getPayload rmsg)))
       (Msg_of_message (re_strings p) message)"

text \<open>The loop; \<open>None\<close> is the early \<open>return false\<close> when the vent does not start.\<close>

fun run_loop ::
  "'m runner_env \<Rightarrow> bool \<Rightarrow> int \<Rightarrow> JsonObject \<Rightarrow> JsonObject \<Rightarrow> 'm run_turn list \<Rightarrow> run_stats \<Rightarrow>
   ('m runner_state, run_stats option) prog" where
  "run_loop p failonerror control r success [] st = sreturn (Some st)"
| "run_loop p failonerror control r success (t # ts) st =
     (if rt_interrupted_head t then sreturn (Some st)
      else sbind (on_runner_task (with_local_pids (TaskMonitor_doVent (re_fork p) control r))) (\<lambda>(ok, vpids).
        if \<not> ok then sreturn None
        else sbind (on_runner_task (\<lambda>s. (Inr (), TaskMonitor_waitFinish vpids s))) (\<lambda>_.
             sbind (slift (catch_zmq (re_no_msg p) (rt_received t))) (\<lambda>message.
             if rt_interrupted t then sreturn (Some st)
             else sbind (slift (run_results p message)) (\<lambda>results.
                  sbind (slift (run_account failonerror success results st)) (\<lambda>(go, st').
                    if go then run_loop p failonerror control r success ts st'
                    else sreturn (Some st')))))))"

text \<open>Sending the kill message: false when the socket fails.\<close>

definition send_kill :: "'m runner_env \<Rightarrow> ('m runner_state, bool) prog" where
  "send_kill p s =
     (case catch_zmq False (rmap (\<lambda>_. True) (re_kill p)) of
        Inl e \<Rightarrow> (Inl e, s)
      | Inr False \<Rightarrow> (Inr False, s)
      | Inr True \<Rightarrow> (Inr True, s\<lparr>rr_control := rr_control s @ [Msg_set (re_kills p) KillMsg_init]\<rparr>))"

definition wait_for :: "int list \<Rightarrow> ('m runner_state, unit) prog" where
  "wait_for pids = on_runner_task (\<lambda>s. (Inr (), TaskMonitor_waitFinish pids s))"

text \<open>Starting the machine; \<open>None\<close> where the control socket cannot be bound.\<close>

definition start_machine :: "'m runner_env \<Rightarrow> int \<Rightarrow> JsonObject \<Rightarrow> ('m runner_state, int list option) prog" where
  "start_machine p control r =
     sbind (slift (re_connect p)) (\<lambda>_.
     sbind (slift (Ports_bind (re_csocket p) ''*'' control)) (\<lambda>(ok, _).
       if \<not> ok then sreturn None
       else sbind (on_runner_task (with_local_pids (TaskMonitor_start (re_fork p) control r))) (\<lambda>(ok, pids).
            if \<not> ok then slift (Inl (Thrown_pointer ''couldn't run the machine.''))
            else (\<lambda>s. (Inr (Some pids), s\<lparr>rr_pidfile := pids\<rparr>)))))"

definition MachineRunner_runOne ::
  "'m runner_env \<Rightarrow> bool \<Rightarrow> string \<Rightarrow> int \<Rightarrow> (nat \<Rightarrow> 'm run_turn) \<Rightarrow> int \<Rightarrow> int \<Rightarrow> int \<Rightarrow> string \<Rightarrow> JsonObject \<Rightarrow>
   ('m runner_state, bool) prog" where
  "MachineRunner_runOne p failonerror text control turns iterations grp iter vars success =
     (let (ok, r) = JsonObject_read (re_reader p) Null text in
      if \<not> ok then sreturn False
      else sbind (start_machine p control r) (\<lambda>started.
        case started of
          None \<Rightarrow> sreturn False
        | Some pids \<Rightarrow>
            sbind (run_loop p failonerror control r success (map turns [0..<nat iterations]) stats_init) (\<lambda>out.
            case out of
              None \<Rightarrow> sreturn False
            | Some st \<Rightarrow>
                sbind (send_kill p) (\<lambda>sent.
                  if \<not> sent then sreturn False
                  else sbind (wait_for pids) (\<lambda>_.
                       sbind (slift (StreamResults_line grp iter vars iterations
                                (rn_low st) (rn_high st) (rn_fail st) (rn_sum st))) (\<lambda>line s.
                         (Inr (rn_fail st = 0), s\<lparr>rr_report := rr_report s @ line\<rparr>)))))))"

section \<open>run\<close>

text \<open>One run of a machine: the exit code.  Its options are read by Boost: \<open>None\<close> stands for \<open>--help\<close>
  or no configuration, and otherwise they are the text of the configuration and the control port.
  \<open>unpack_any\<close> is the unpacking of the results as any msgpack object, to print them.\<close>

definition run_main ::
  "'m runner_env \<Rightarrow> ('m \<Rightarrow> unit res) \<Rightarrow> (string \<times> int) option \<Rightarrow> 'm res \<Rightarrow> ('m runner_state, int) prog" where
  "run_main p unpack_any args rcv =
     (case args of
        None \<Rightarrow> sreturn 0
      | Some (text, control) \<Rightarrow>
          (let (ok, r) = JsonObject_read (re_reader p) Null text in
           if \<not> ok then sreturn 1
           else sbind (start_machine p control r) (\<lambda>started.
             case started of
               None \<Rightarrow> sreturn 0
             | Some pids \<Rightarrow>
                 sbind (on_runner_task (with_local_pids (TaskMonitor_doVent (re_fork p) control r))) (\<lambda>(ok, vpids).
                   if \<not> ok then sreturn 0
                   else sbind (wait_for vpids) (\<lambda>_.
                        sbind (slift (catch_zmq (re_no_msg p) rcv)) (\<lambda>message.
                        sbind (slift (unpack_any message)) (\<lambda>_.
                        sbind (send_kill p) (\<lambda>sent.
                          if \<not> sent then sreturn 0
                          else sbind (wait_for pids) (\<lambda>_. sreturn 0)))))))))"

section \<open>soak\<close>

text \<open>The loop over the runs; only a \<open>runtime_error\<close> thrown by value is caught.\<close>

fun soak_loop ::
  "(nat \<Rightarrow> ('m runner_state, bool) prog) \<Rightarrow> (nat \<Rightarrow> bool) \<Rightarrow> nat list \<Rightarrow> ('m runner_state, int) prog" where
  "soak_loop run1 interrupted [] = sreturn 0"
| "soak_loop run1 interrupted (i # is) =
     sbind (scatch is_runtime_error (sbind (run1 i) (\<lambda>ok. sreturn (Some ok))) (sreturn None)) (\<lambda>out.
       case out of
         None \<Rightarrow> sreturn 1
       | Some ok \<Rightarrow>
           if \<not> ok then sreturn 0
           else if interrupted i then sreturn 0
           else soak_loop run1 interrupted is)"

definition soak_header :: string where
  "soak_header = ''group'' @ tab @ ''i'' @ tab @ ''vars'' @ tab @ ''n'' @ tab @ ''low'' @ tab @ ''high''
     @ tab @ ''fail'' @ tab @ ''avg'' @ tab @ ''med'' @ nl"

text \<open>\<open>main\<close>: the options are the text of the configuration, the control port, the count and the
  iterations; \<open>turns i k\<close> is what iteration \<open>k\<close> of run \<open>i\<close> meets and \<open>interrupted i\<close> whether a signal
  has come by the end of run \<open>i\<close>.\<close>

definition soak_main ::
  "'m runner_env \<Rightarrow> (string \<times> int \<times> int \<times> int) option \<Rightarrow> (nat \<Rightarrow> nat \<Rightarrow> 'm run_turn) \<Rightarrow> (nat \<Rightarrow> bool) \<Rightarrow>
   ('m runner_state, int) prog" where
  "soak_main p args turns interrupted s =
     (case args of
        None \<Rightarrow> (Inr 0, s)
      | Some (text, control, cnt, iterations) \<Rightarrow>
          soak_loop (\<lambda>i. MachineRunner_runOne p True text control (turns i) iterations 0 0 [] Null)
            interrupted [0..<nat cnt] (s\<lparr>rr_report := rr_report s @ soak_header\<rparr>))"

section \<open>Every process is waited for\<close>

text \<open>From \<open>s\<close> to \<open>s'\<close> commands were run, and the processes they started are those waited for.\<close>

definition all_waited :: "task_state \<Rightarrow> task_state \<Rightarrow> bool" where
  "all_waited s s' \<longleftrightarrow> ts_pids s' = ts_pids s \<and>
     (\<exists>cmds. ts_cmds s' = ts_cmds s @ cmds \<and> mset (ts_waited s') = mset (ts_waited s) + mset (started cmds))"

lemma all_waited_refl [simp]: "all_waited s s"
  by (simp add: all_waited_def started_def)

lemma all_waited_trans: "all_waited s s1 \<Longrightarrow> all_waited s1 s2 \<Longrightarrow> all_waited s s2"
  by (fastforce simp: all_waited_def)

lemma local_pids_noted:
  assumes "keeps notes_all m" and "fst (m (s\<lparr>ts_pids := []\<rparr>)) = Inr x"
  shows "\<exists>s1 cmds. with_local_pids m s = (Inr (x, started cmds), s1) \<and> ts_cmds s1 = ts_cmds s @ cmds
    \<and> ts_waited s1 = ts_waited s \<and> ts_pids s1 = ts_pids s"
proof -
  obtain s2 where s2: "m (s\<lparr>ts_pids := []\<rparr>) = (Inr x, s2)"
    using assms(2) by (cases "m (s\<lparr>ts_pids := []\<rparr>)") auto
  have "notes_all (s\<lparr>ts_pids := []\<rparr>) s2" using assms(1) s2 by (metis keeps_def snd_conv)
  with s2 show ?thesis by (auto simp: with_local_pids_def notes_all_def)
qed

lemma local_pids_then_wait:
  assumes "with_local_pids m s = (Inr (x, started cmds), s1)" and "ts_cmds s1 = ts_cmds s @ cmds"
    and "ts_waited s1 = ts_waited s" and "ts_pids s1 = ts_pids s"
  shows "all_waited s (TaskMonitor_waitFinish (started cmds) s1)"
  using assms by (auto simp: all_waited_def TaskMonitor_waitFinish_def)

section \<open>Good runs\<close>

text \<open>A turn in which nothing interrupts and the results pass, with the elapsed time \<open>e\<close>.\<close>

definition good_turn :: "'m runner_env \<Rightarrow> JsonObject \<Rightarrow> 'm run_turn \<Rightarrow> int \<Rightarrow> bool" where
  "good_turn p success t e \<longleftrightarrow> \<not> rt_interrupted_head t \<and> \<not> rt_interrupted t \<and> 0 \<le> e \<and>
     (\<exists>message results. rt_received t = Inr message \<and> run_results p message = Inr results
        \<and> \<not> JsonObject_empty results \<and> results_bad success results = Inr False
        \<and> JsonObject_getInt results ''elapsed'' (-1) = Inr e)"

definition stats_of :: "int list \<Rightarrow> run_stats" where
  "stats_of es =
     \<lparr>rn_fail = 0, rn_low = (if es = [] then -1 else Min (set es)),
      rn_high = (if es = [] then -1 else Max (set es)), rn_sum = sum_list es\<rparr>"

lemma min_if: "min a b = (if a < b then a else b)" and max_if: "max a b = (if b < a then a else b)"
  for a b :: int
  by auto

lemma run_passed_stats:
  assumes "\<forall>x \<in> set es. 0 \<le> x" and "0 \<le> e" and "sum_list es + e \<le> 2147483647"
  shows "run_passed e (stats_of es) = Inr (True, stats_of (es @ [e]))"
proof -
  have "0 \<le> sum_list es" using assms(1) by (auto intro: sum_list_nonneg)
  then have add: "add_int32 (sum_list es) e = Inr (sum_list es + e)"
    using assms(2,3) by (simp add: add_int32_def in_int32_def)
  show ?thesis
  proof (cases "es = []")
    case True
    with add show ?thesis by (simp add: run_passed_def stats_of_def)
  next
    case False
    then have "Min (set es) \<in> set es" "Max (set es) \<in> set es" by simp_all
    then have pos: "0 \<le> Min (set es)" "0 \<le> Max (set es)" using assms(1) by auto
    obtain lo hi where lh: "lo = Min (set es)" "hi = Max (set es)" by blast
    have "Min (set (es @ [e])) = (if e < lo then e else lo)" "Max (set (es @ [e])) = (if hi < e then e else hi)"
      using False min_if [of e lo] max_if [of e hi] by (simp_all add: lh)
    moreover have "stats_of es = \<lparr>rn_fail = 0, rn_low = lo, rn_high = hi, rn_sum = sum_list es\<rparr>"
      using False by (simp add: stats_of_def lh)
    ultimately show ?thesis
      using pos add by (simp add: run_passed_def stats_of_def Let_def flip: lh)
  qed
qed

definition vent_starts :: "'m runner_env \<Rightarrow> int \<Rightarrow> JsonObject \<Rightarrow> bool \<Rightarrow> bool" where
  "vent_starts p control r ok \<longleftrightarrow> (\<forall>t. fst (TaskMonitor_doVent (re_fork p) control r t) = Inr ok)"

lemma vent_local_pids:
  assumes "vent_starts p control r ok"
  obtains s1 cmds where "with_local_pids (TaskMonitor_doVent (re_fork p) control r) s = (Inr (ok, started cmds), s1)"
    "ts_cmds s1 = ts_cmds s @ cmds" "ts_waited s1 = ts_waited s" "ts_pids s1 = ts_pids s"
  using local_pids_noted [OF TaskMonitor_keeps(4), of "re_fork p" control r s ok] assms
  by (auto simp: vent_starts_def)

lemma run_loop_good:
  assumes "vent_starts p control r True" and "list_all2 (good_turn p success) ts es"
    and "\<forall>x \<in> set es0. 0 \<le> x" and "sum_list (es0 @ es) \<le> 2147483647"
  shows "\<exists>t. run_loop p failonerror control r success ts (stats_of es0) s =
      (Inr (Some (stats_of (es0 @ es))), s\<lparr>rr_task := t\<rparr>) \<and> all_waited (rr_task s) t"
  using assms(2-4)
proof (induction ts es arbitrary: es0 s rule: list_all2_induct)
  case Nil
  then show ?case by (intro exI [of _ "rr_task s"]) (simp add: sreturn_def)
next
  case (Cons t ts e es)
  from Cons.hyps(1) obtain message results where g: "\<not> rt_interrupted_head t" "\<not> rt_interrupted t" "0 \<le> e"
      "rt_received t = Inr message" "run_results p message = Inr results"
      "\<not> JsonObject_empty results" "results_bad success results = Inr False"
      "JsonObject_getInt results ''elapsed'' (-1) = Inr e"
    by (auto simp: good_turn_def)
  obtain s1 cmds where s1: "with_local_pids (TaskMonitor_doVent (re_fork p) control r) (rr_task s) =
        (Inr (True, started cmds), s1)" "ts_cmds s1 = ts_cmds (rr_task s) @ cmds"
      "ts_waited s1 = ts_waited (rr_task s)" "ts_pids s1 = ts_pids (rr_task s)"
    using vent_local_pids [OF assms(1)] .
  let ?s2 = "s\<lparr>rr_task := TaskMonitor_waitFinish (started cmds) s1\<rparr>"
  have "0 \<le> x" if "x \<in> set es" for x
    using Cons.hyps(2) that by (auto simp: list_all2_conv_all_nth in_set_conv_nth good_turn_def)
  then have "0 \<le> sum_list es" by (rule sum_list_nonneg)
  then have acc: "run_account failonerror success results (stats_of es0) = Inr (True, stats_of (es0 @ [e]))"
    using g Cons.prems run_passed_stats [of es0 e] by (simp add: run_account_def)
  have "run_loop p failonerror control r success (t # ts) (stats_of es0) s =
      run_loop p failonerror control r success ts (stats_of (es0 @ [e])) ?s2"
    using g s1(1) acc by (simp add: sbind_def slift_def on_runner_task_def)
  moreover obtain t' where "run_loop p failonerror control r success ts (stats_of (es0 @ [e])) ?s2 =
      (Inr (Some (stats_of ((es0 @ [e]) @ es))), ?s2\<lparr>rr_task := t'\<rparr>)" "all_waited (rr_task ?s2) t'"
    using Cons.IH [of "es0 @ [e]" ?s2] Cons.prems g(3) by auto
  moreover have "all_waited (rr_task s) (rr_task ?s2)" using local_pids_then_wait [OF s1] by simp
  ultimately show ?case by (auto intro: all_waited_trans)
qed

definition machine_starts :: "'m runner_env \<Rightarrow> int \<Rightarrow> JsonObject \<Rightarrow> bool" where
  "machine_starts p control r \<longleftrightarrow> re_connect p = Inr () \<and> (\<forall>x. re_csocket p x = Inr ())
     \<and> (\<forall>t. fst (TaskMonitor_start (re_fork p) control r t) = Inr True)"

lemma start_machine_ok:
  assumes "machine_starts p control r"
  obtains t cmds where "start_machine p control r s =
      (Inr (Some (started cmds)), s\<lparr>rr_task := t, rr_pidfile := started cmds\<rparr>)"
    "ts_cmds t = ts_cmds (rr_task s) @ cmds" "ts_waited t = ts_waited (rr_task s)" "ts_pids t = ts_pids (rr_task s)"
proof -
  obtain t cmds where t: "with_local_pids (TaskMonitor_start (re_fork p) control r) (rr_task s) =
        (Inr (True, started cmds), t)" "ts_cmds t = ts_cmds (rr_task s) @ cmds"
      "ts_waited t = ts_waited (rr_task s)" "ts_pids t = ts_pids (rr_task s)"
    using local_pids_noted [OF TaskMonitor_keeps(1), of "re_fork p" control r "rr_task s" True] assms
    by (auto simp: machine_starts_def)
  have "start_machine p control r s = (Inr (Some (started cmds)), s\<lparr>rr_task := t, rr_pidfile := started cmds\<rparr>)"
    using t(1) assms
    by (simp add: start_machine_def machine_starts_def sbind_def slift_def sreturn_def on_runner_task_def
        Ports_bind_def try_sock_def)
  with t(2-4) show thesis by (intro that)
qed

text \<open>
  Claim C5.  A run of a machine that goes well: with every iteration giving results that pass, in
  the times \<open>es\<close>, \<open>runOne\<close> returns true; the line of the report has the number of iterations, the
  least and the greatest time, no failure, and the average and middle of the times; one kill
  message is sent; and every process that was started, of the machine or of a vent, has been
  waited for.
\<close>

theorem MachineRunner_runOne_reports:
  assumes "JsonObject_read (re_reader p) Null cfg = (True, r)" and "machine_starts p control r"
    and "re_kill p = Inr ()" and "vent_starts p control r True"
    and "es \<noteq> []" and "\<forall>k < length es. good_turn p success (turns k) (es ! k)"
    and "sum_list es \<le> 2147483647"
  shows "\<exists>s' line. MachineRunner_runOne p failonerror cfg control turns (int (length es)) grp iter vars success s =
      (Inr True, s')
    \<and> StreamResults_line grp iter vars (int (length es)) (Min (set es)) (Max (set es)) 0 (sum_list es) = Inr line
    \<and> rr_report s' = rr_report s @ line \<and> rr_control s' = rr_control s @ [Msg_set (re_kills p) KillMsg_init]
    \<and> all_waited (rr_task s) (rr_task s')"
proof -
  obtain t1 cmds where start: "start_machine p control r s =
      (Inr (Some (started cmds)), s\<lparr>rr_task := t1, rr_pidfile := started cmds\<rparr>)"
    and t1: "ts_cmds t1 = ts_cmds (rr_task s) @ cmds" "ts_waited t1 = ts_waited (rr_task s)"
      "ts_pids t1 = ts_pids (rr_task s)"
    using start_machine_ok [OF assms(2)] .
  let ?s1 = "s\<lparr>rr_task := t1, rr_pidfile := started cmds\<rparr>"
  have "list_all2 (good_turn p success) (map turns [0..<length es]) es"
    using assms(6) by (simp add: list_all2_conv_all_nth)
  from run_loop_good [OF assms(4) this, of "[]" failonerror ?s1] assms(7)
  obtain t2 where t2: "run_loop p failonerror control r success (map turns [0..<length es]) stats_init ?s1 =
      (Inr (Some (stats_of es)), ?s1\<lparr>rr_task := t2\<rparr>)" "all_waited t1 t2"
    by (auto simp: stats_init_def stats_of_def)
  have pos: "0 \<le> x" if "x \<in> set es" for x
    using assms(6) that by (auto simp: in_set_conv_nth good_turn_def)
  have le: "x \<le> sum_list es" if "x \<in> set es" for x
    using pos that by (intro member_le_sum_list) auto
  have mm: "Min (set es) \<in> set es" "Max (set es) \<in> set es" using assms(5) by auto
  then have "sub_int32 (Max (set es)) (Min (set es)) = Inr (Max (set es) - Min (set es))"
    using pos [OF mm(1)] pos [OF mm(2)] le [OF mm(1)] le [OF mm(2)] assms(7)
    by (simp add: sub_int32_def in_int32_def)
  then obtain line where line:
    "StreamResults_line grp iter vars (int (length es)) (Min (set es)) (Max (set es)) 0 (sum_list es) = Inr line"
    by (auto simp: StreamResults_line_def Let_def)
  let ?t3 = "TaskMonitor_waitFinish (started cmds) t2"
  have "MachineRunner_runOne p failonerror cfg control turns (int (length es)) grp iter vars success s =
      (Inr True, s\<lparr>rr_task := ?t3, rr_pidfile := started cmds,
                   rr_control := rr_control s @ [Msg_set (re_kills p) KillMsg_init], rr_report := rr_report s @ line\<rparr>)"
    using assms(1,3,5) start t2(1) line
    by (simp add: MachineRunner_runOne_def sbind_def slift_def send_kill_def wait_for_def on_runner_task_def
        stats_of_def)
  moreover have "all_waited (rr_task s) ?t3"
    using t1 t2(2) by (fastforce simp: all_waited_def TaskMonitor_waitFinish_def started_append)
  ultimately show ?thesis using line by auto
qed

lemma local_pids_started:
  assumes "keeps notes_all m" and "with_local_pids m s = (Inr (x, pids), s1)"
  shows "\<exists>cmds. pids = started cmds \<and> ts_cmds s1 = ts_cmds s @ cmds \<and> ts_waited s1 = ts_waited s"
proof -
  obtain s2 where s2: "m (s\<lparr>ts_pids := []\<rparr>) = (Inr x, s2)"
    using assms(2) by (cases "m (s\<lparr>ts_pids := []\<rparr>)") (auto simp: with_local_pids_def res_simps)
  then have "fst (m (s\<lparr>ts_pids := []\<rparr>)) = Inr x" by simp
  from local_pids_noted [OF assms(1) this] assms(2) show ?thesis by auto
qed

lemma runOne_leaves_processes:
  assumes "JsonObject_read (re_reader p) Null cfg = (True, r)" and "re_connect p = Inr ()" and "\<forall>x. re_csocket p x = Inr ()"
    and "with_local_pids (TaskMonitor_start (re_fork p) control r) (rr_task s) = (Inr (True, pids), t1)"
    and "with_local_pids (TaskMonitor_doVent (re_fork p) control r) t1 = (Inr (False, vpids), t2)"
    and "0 < iterations" and "\<not> rt_interrupted_head (turns 0)"
  shows "MachineRunner_runOne p failonerror cfg control turns iterations grp iter vars success s =
      (Inr False, s\<lparr>rr_task := t2, rr_pidfile := pids\<rparr>)
    \<and> (\<exists>cmds vcmds. ts_cmds t2 = ts_cmds (rr_task s) @ cmds @ vcmds \<and> pids = started cmds)
    \<and> ts_waited t2 = ts_waited (rr_task s)"
proof -
  from local_pids_started [OF TaskMonitor_keeps(1) assms(4)] obtain cmds where
    "pids = started cmds" "ts_cmds t1 = ts_cmds (rr_task s) @ cmds" "ts_waited t1 = ts_waited (rr_task s)" by blast
  moreover from local_pids_started [OF TaskMonitor_keeps(4) assms(5)] obtain vcmds where
    "ts_cmds t2 = ts_cmds t1 @ vcmds" "ts_waited t2 = ts_waited t1" by blast
  moreover have start: "start_machine p control r s = (Inr (Some pids), s\<lparr>rr_task := t1, rr_pidfile := pids\<rparr>)"
    using assms(2-4)
    by (simp add: start_machine_def sbind_def slift_def sreturn_def on_runner_task_def Ports_bind_def try_sock_def)
  let ?s1 = "s\<lparr>rr_task := t1, rr_pidfile := pids\<rparr>"
  have turns: "map turns [0..<nat iterations] = turns 0 # map turns [1..<nat iterations]"
    using assms(6) by (simp add: upt_conv_Cons)
  have "run_loop p failonerror control r success (map turns [0..<nat iterations]) stats_init ?s1 =
      (Inr None, ?s1\<lparr>rr_task := t2\<rparr>)"
    using assms(5,7) unfolding turns by (simp add: sbind_def sreturn_def on_runner_task_def)
  then have "MachineRunner_runOne p failonerror cfg control turns iterations grp iter vars success s =
      (Inr False, ?s1\<lparr>rr_task := t2\<rparr>)"
    using assms(1) start by (simp add: MachineRunner_runOne_def sbind_def sreturn_def)
  ultimately show ?thesis by (intro conjI exI [of _ cmds] exI [of _ vcmds]) simp_all
qed

text \<open>
  Claim C34.  A vent that does not start leaves the machine running: \<open>runOne\<close> returns false without
  a kill message, a line in the report, or a wait for any process; the ids of the processes it
  started are only in the file of process ids.
\<close>

theorem MachineRunner_runOne_leaves_processes:
  assumes "JsonObject_read (re_reader p) Null cfg = (True, r)" and "re_connect p = Inr ()" and "\<forall>x. re_csocket p x = Inr ()"
    and "with_local_pids (TaskMonitor_start (re_fork p) control r) (rr_task s) = (Inr (True, pids), t1)"
    and "with_local_pids (TaskMonitor_doVent (re_fork p) control r) t1 = (Inr (False, vpids), t2)"
    and "0 < iterations" and "\<not> rt_interrupted_head (turns 0)"
  shows "MachineRunner_runOne p failonerror cfg control turns iterations grp iter vars success s =
      (Inr False, s\<lparr>rr_task := t2, rr_pidfile := pids\<rparr>)
    \<and> (\<exists>cmds vcmds. ts_cmds t2 = ts_cmds (rr_task s) @ cmds @ vcmds \<and> pids = started cmds)
    \<and> ts_waited t2 = ts_waited (rr_task s)"
  by (rule runOne_leaves_processes [of p cfg r control s pids t1 vpids t2 iterations turns, OF assms])

section \<open>An example\<close>

definition run_vent :: jvalue where
  "run_vent = Obj [(''name'', Str ''v''), (''exe'', Str ''./vent''), (''connections'', Obj [])]"

definition run_work :: jvalue where
  "run_work = Obj [(''name'', Str ''w''), (''exe'', Str ''./work''), (''connections'', Obj [])]"

definition run_example :: "jvalue list \<Rightarrow> JsonObject" where
  "run_example bs = Obj [(''vent'', Str ''v''), (''blocks'', Arr (run_vent # bs))]"

text \<open>A message is its text; the reader knows the configuration (no text) and the results \<open>"r"\<close>, 30 ms.\<close>

definition run_example_env :: "jvalue list \<Rightarrow> (nat \<Rightarrow> int) \<Rightarrow> string runner_env" where
  "run_example_env bs fork =
     \<lparr>re_reader = \<lambda>s v. if s = [] then (True, run_example bs) else (True, Obj [(''elapsed'', Value_of_int 30)]),
      re_fork = fork,
      re_strings = \<lparr>pack = \<lambda>(i, t, s). s, unpack = \<lambda>s. Inr (0, 0, s)\<rparr>,
      re_kills = \<lparr>pack = \<lambda>k. ''kill'', unpack = \<lambda>s. Inr 0\<rparr>,
      re_no_msg = [], re_connect = Inr (), re_csocket = \<lambda>x. Inr (), re_kill = Inr ()\<rparr>"

definition run_example_turn :: "string run_turn" where
  "run_example_turn = \<lparr>rt_interrupted_head = False, rt_received = Inr ''r'', rt_interrupted = False\<rparr>"

lemma run_example_read:
  "JsonObject_read (re_reader (run_example_env bs fork)) Null [] = (True, run_example bs)"
  by (simp add: JsonObject_read_def run_example_env_def)

lemma run_example_vent_block:
  "block_cmds (run_example []) 0 run_vent = Inr []" "block_cmds (run_example [run_work]) 0 run_vent = Inr []"
  by code_simp+

lemma run_example_work_block:
  "\<exists>cs. block_cmds (run_example [run_work]) 0 run_work = Inr cs"
proof -
  have "(case block_cmds (run_example [run_work]) 0 run_work of Inr _ \<Rightarrow> True | Inl _ \<Rightarrow> False)" by code_simp
  then show ?thesis by (auto split: sum.splits)
qed

lemma run_example_blocks: "JsonObject_getArray (run_example bs) ''blocks'' = Inr (run_vent # bs)"
  by (simp add: run_example_def JsonObject_getArray_def)

lemma run_example_starts:
  assumes "\<forall>k. 0 < fork k"
  shows "machine_starts (run_example_env [run_work] fork) 0 (run_example [run_work])"
proof -
  obtain cs where "block_cmds (run_example [run_work]) 0 run_work = Inr cs" using run_example_work_block ..
  then have cs: "list_all2 (\<lambda>b cs. block_cmds (run_example [run_work]) 0 b = Inr cs) [run_vent, run_work] [[], cs]"
    by (simp add: run_example_vent_block)
  have "fst (TaskMonitor_start fork 0 (run_example [run_work]) t) = Inr True" for t
  proof -
    obtain s' where "start_blocks fork (run_example [run_work]) 0 [run_vent, run_work] t = (Inr True, s')"
      using start_blocks_ok [OF assms cs, of t] by blast
    then show ?thesis
      by (simp add: TaskMonitor_start_def scatch_def sbind_def slift_def run_example_blocks del: start_blocks.simps)
  qed
  then show ?thesis by (simp add: machine_starts_def run_example_env_def)
qed

text \<open>The vent starts, unless the fork fails.\<close>

lemma run_example_find:
  "JsonObject_getString (run_example bs) ''vent'' = Inr ''v''"
  "JsonObject_findObj (run_example []) (JsonNamePredicate_match ''v'') = Inr run_vent"
  "JsonObject_findObj (run_example [run_work]) (JsonNamePredicate_match ''v'') = Inr run_vent"
  "JsonObject_getString run_vent ''exe'' = Inr ''./vent''" "JsonObject_getString run_vent ''name'' = Inr ''v''"
  by (simp add: run_example_def JsonObject_getString_def accessor_defs check_type_def) code_simp+

lemma run_example_pipes:
  assumes "bs \<in> {[], [run_work]}"
  obtains pj pipes c where "PipeBuilder_collect (run_example bs) run_vent 0 = Inr pj"
    "JsonObject_write pj False = Inr pipes" "JsonObject_getChildAsString run_vent ''config'' = Inr c"
proof -
  have "case rbind (PipeBuilder_collect (run_example []) run_vent 0) (\<lambda>p. JsonObject_write p False) of
      Inr _ \<Rightarrow> True | _ \<Rightarrow> False"
    "case rbind (PipeBuilder_collect (run_example [run_work]) run_vent 0) (\<lambda>p. JsonObject_write p False) of
      Inr _ \<Rightarrow> True | _ \<Rightarrow> False"
    "case JsonObject_getChildAsString run_vent ''config'' of Inr _ \<Rightarrow> True | _ \<Rightarrow> False"
    by code_simp+
  with assms show thesis by (auto simp: rbind_eq_Inr split: sum.splits intro: that)
qed

lemma run_example_doVent:
  assumes "bs \<in> {[], [run_work]}"
  obtains cmd where "TaskMonitor_doVent fork 0 (run_example bs) = run_and_note fork cmd"
proof -
  have f: "JsonObject_findObj (run_example bs) (JsonNamePredicate_match ''v'') = Inr run_vent"
    using assms run_example_find(2,3) by auto
  obtain pj pipes c where "PipeBuilder_collect (run_example bs) run_vent 0 = Inr pj"
    "JsonObject_write pj False = Inr pipes" "JsonObject_getChildAsString run_vent ''config'' = Inr c"
    using run_example_pipes [OF assms] .
  then have "TaskMonitor_doVent fork 0 (run_example bs) = run_and_note fork (task_cmd ''./vent'' pipes c ''v'')"
    by (intro ext) (simp add: f run_example_find TaskMonitor_doVent_def TaskMonitor_doBlock_def
        TaskMonitor_runOne_def sbind_def slift_def)
  then show thesis by (rule that)
qed

lemma run_example_vent:
  assumes "bs \<in> {[], [run_work]}" and "\<forall>k. (0 < fork k) = ok \<and> (fork k = -1) = (\<not> ok)"
  shows "vent_starts (run_example_env bs fork) 0 (run_example bs) ok"
proof -
  obtain cmd where "TaskMonitor_doVent fork 0 (run_example bs) = run_and_note fork cmd"
    using run_example_doVent [OF assms(1)] .
  moreover have "fork k \<noteq> 0" for k using assms(2) by (metis zero_neq_neg_one less_irrefl)
  ultimately show ?thesis
    using assms(2)
    by (cases ok) (auto simp: vent_starts_def run_example_env_def run_and_note_def sbind_def ExeRunner_run_def Let_def)
qed

lemma good_example_turn: "good_turn (run_example_env bs fork) Null run_example_turn 30"
proof -
  let ?p = "run_example_env bs fork" and ?r = "Obj [(''elapsed'', Value_of_int 30)]"
  have "run_results ?p ''r'' = Inr ?r"
    by (simp add: run_results_def run_example_env_def Msg_of_message_def DataMsg_defs JsonObject_read_def)
  moreover have "JsonObject_getInt ?r ''elapsed'' (-1) = Inr 30" "\<not> JsonObject_empty ?r"
    "results_bad Null ?r = Inr False"
    by code_simp+
  ultimately show ?thesis by (auto simp: good_turn_def run_example_turn_def)
qed

theorem MachineRunner_runOne_reports_witness:
  "\<exists>s' line. MachineRunner_runOne (run_example_env [run_work] (\<lambda>k. 100 + int k)) True [] 0
      (\<lambda>k. run_example_turn) 2 0 0 [] Null runner_init = (Inr True, s')
    \<and> StreamResults_line 0 0 [] 2 30 30 0 60 = Inr line \<and> rr_report s' = line \<and> rr_control s' = [''kill'']
    \<and> all_waited task_init (rr_task s')"
proof -
  let ?p = "run_example_env [run_work] (\<lambda>k. 100 + int k)"
  have f: "\<forall>k. 0 < 100 + int k" and f': "\<forall>k. (0 < 100 + int k) = True \<and> (100 + int k = -1) = (\<not> True)"
    by simp_all
  have "\<forall>k < length [30, 30 :: int]. good_turn ?p Null run_example_turn ([30, 30] ! k)"
    using good_example_turn by (simp add: less_Suc_eq)
  from MachineRunner_runOne_reports [OF run_example_read run_example_starts [OF f] _ run_example_vent [OF _ f'] _ this,
      of True 0 0 "[]" runner_init]
  show ?thesis by (simp add: run_example_env_def runner_init_def Msg_set_def)
qed

text \<open>The worker of the example starts as process 4711; then there is no process left for the vent.\<close>

definition last_fork :: "nat \<Rightarrow> int" where
  "last_fork k = (if k = 0 then 4711 else -1)"

lemma last_fork_runs:
  "\<exists>t1 t2. with_local_pids (TaskMonitor_start last_fork 0 (run_example [run_work])) task_init = (Inr (True, [4711]), t1)
    \<and> with_local_pids (TaskMonitor_doVent last_fork 0 (run_example [run_work])) t1 = (Inr (False, []), t2)
    \<and> ts_waited t2 = []"
proof -
  have "(case block_cmds (run_example [run_work]) 0 run_work of Inr [c] \<Rightarrow> True | _ \<Rightarrow> False)" by code_simp
  then obtain c where c: "block_cmds (run_example [run_work]) 0 run_work = Inr [c]"
    by (auto split: sum.splits list.splits)
  obtain cmd where v: "TaskMonitor_doVent last_fork 0 (run_example [run_work]) = run_and_note last_fork cmd"
    using run_example_doVent [of "[run_work]"] by auto
  have "with_local_pids (TaskMonitor_start last_fork 0 (run_example [run_work])) task_init =
      (Inr (True, [4711]), task_init\<lparr>ts_cmds := [(c, 4711)]\<rparr>)"
    by (simp add: with_local_pids_def TaskMonitor_start_def scatch_def sbind_def slift_def run_example_blocks
        run_example_vent_block c run_and_note_def ExeRunner_run_def sreturn_def task_init_def last_fork_def)
  moreover have "with_local_pids (TaskMonitor_doVent last_fork 0 (run_example [run_work]))
      (task_init\<lparr>ts_cmds := [(c, 4711)]\<rparr>) = (Inr (False, []), task_init\<lparr>ts_cmds := [(c, 4711), (cmd, -1)]\<rparr>)"
    by (simp add: v with_local_pids_def run_and_note_def ExeRunner_run_def sbind_def task_init_def last_fork_def)
  ultimately show ?thesis by (fastforce simp: task_init_def)
qed

theorem MachineRunner_runOne_leaves_processes_witness:
  "\<exists>s'. MachineRunner_runOne (run_example_env [run_work] last_fork) True [] 0
      (\<lambda>k. run_example_turn) 2 0 0 [] Null runner_init = (Inr False, s')
    \<and> ts_waited (rr_task s') = [] \<and> rr_control s' = [] \<and> rr_report s' = [] \<and> rr_pidfile s' = [4711]"
proof -
  let ?p = "run_example_env [run_work] last_fork"
  obtain t1 t2 where t: "with_local_pids (TaskMonitor_start (re_fork ?p) 0 (run_example [run_work])) (rr_task (runner_init :: string runner_state)) =
      (Inr (True, [4711]), t1)"
    "with_local_pids (TaskMonitor_doVent (re_fork ?p) 0 (run_example [run_work])) t1 = (Inr (False, []), t2)"
    using last_fork_runs by (auto simp: run_example_env_def runner_init_def)
  from MachineRunner_runOne_leaves_processes [OF run_example_read _ _ t, of 2 "\<lambda>k. run_example_turn" True 0 0 "[]" Null]
  show ?thesis by (simp add: run_example_env_def run_example_turn_def runner_init_def task_init_def)
qed

end
