(* ===== verification/Tuner.thy ===== *)
theory Tuner
  imports Runner
begin

text \<open>
  \<open>machine/MachineTuner.cpp\<close> and \<open>machine/tune.cpp\<close>: the variables of a machine's configuration
  are set as the tuning configuration says, and the machine is run with each setting.

  Boost's generator is an argument: \<open>rnd g low high\<close> is a number of the uniform distribution from
  \<open>low\<close> to \<open>high\<close> and the generator after it.
\<close>

section \<open>MachineTuner\<close>

record 'g tune_state =
  tn_config :: JsonObject
  tn_gen :: 'g
  tn_failonerror :: bool
  tn_varstring :: "string option"
  tn_vars :: int

text \<open>The conditions on the targets that \<open>varCount\<close> and \<open>tune\<close> share: whether the target is one of the
  group.\<close>

definition in_group :: "int \<Rightarrow> string \<times> jvalue \<Rightarrow> bool res" where
  "in_group grp i =
     (let key = JsonObject_getKey i; target = JsonObject_getValue i in
      if JsonObject_isObject target \<and> key \<noteq> ''success''
      then rbind (JsonObject_getBool target ''enabled'') (\<lambda>enabled.
           if \<not> enabled then Inr False
           else rmap (\<lambda>g. g = grp) (JsonObject_getInt target ''group'' (-1)))
      else Inr False)"

fun count_vars :: "int \<Rightarrow> members \<Rightarrow> int \<Rightarrow> int res" where
  "count_vars grp [] vars = Inr vars"
| "count_vars grp (i # ms) vars =
     rbind (in_group grp i) (\<lambda>b. count_vars grp ms (if b then vars + 1 else vars))"

definition MachineTuner_varCount :: "JsonObject \<Rightarrow> int \<Rightarrow> int res" where
  "MachineTuner_varCount tunerconfig grp =
     rbind (JsonObject_iter tunerconfig) (\<lambda>ms. count_vars grp ms 0)"

text \<open>\<open>hightolow\<close>: the range cut into as many parts as there are mutations.\<close>

definition hightolow_val :: "int \<Rightarrow> int \<Rightarrow> int \<Rightarrow> int \<Rightarrow> int res" where
  "hightolow_val low high mutations mutation =
     rbind (sub_int32 high low) (\<lambda>diff.
       let range = dbl_of_int diff;
           unit = dbl_div range (dbl_of_int mutations);
           sel = dbl_sub (dbl_of_int mutations) (dbl_of_int mutation)
       in rbind (dbl_to_int (dbl_mult unit sel)) (\<lambda>v. add_int32 v low))"

text \<open>Setting the variable, counting it, and a column more in the string of the values.\<close>

definition set_var :: "string \<Rightarrow> string \<Rightarrow> int \<Rightarrow> ('g tune_state, unit) prog" where
  "set_var key var val s =
     (case JsonPath_setPathInt (tn_config s) key var val of
        Inl e \<Rightarrow> (Inl e, s)
      | Inr config \<Rightarrow>
          (Inr (), s\<lparr>tn_config := config, tn_vars := tn_vars s + 1,
                     tn_varstring := map_option (\<lambda>vs. (if vs \<noteq> [] then vs @ tab else vs) @ show_int val) (tn_varstring s)\<rparr>))"

definition random_val :: "('g \<Rightarrow> int \<Rightarrow> int \<Rightarrow> int \<times> 'g) \<Rightarrow> int \<Rightarrow> int \<Rightarrow> ('g tune_state, int) prog" where
  "random_val rnd low high s =
     (if low > high then (Inl (Undefined ''uniform_int_distribution: min <= max''), s)
      else let (v, g) = rnd (tn_gen s) low high in (Inr v, s\<lparr>tn_gen := g\<rparr>))"

definition tune_target ::
  "('g \<Rightarrow> int \<Rightarrow> int \<Rightarrow> int \<times> 'g) \<Rightarrow> int \<Rightarrow> int \<Rightarrow> string \<Rightarrow> JsonObject \<Rightarrow> ('g tune_state, unit) prog" where
  "tune_target rnd mutations mutation key target =
     sbind (slift (JsonObject_getString target ''type'')) (\<lambda>type.
     sbind (slift (JsonObject_getBool target ''fail'')) (\<lambda>fail.
     sbind (\<lambda>s. (Inr (), s\<lparr>tn_failonerror := fail\<rparr>)) (\<lambda>_.
       if type = ''int'' then
         sbind (slift (JsonObject_getInt target ''low'' (-1))) (\<lambda>low.
         if low < 0 then slift (Inl (Thrown_pointer (''invalid low value for '' @ key)))
         else sbind (slift (JsonObject_getInt target ''high'' (-1))) (\<lambda>high.
         if high < 0 then slift (Inl (Thrown_pointer (''invalid high value for '' @ key)))
         else
           sbind (slift (JsonObject_getString target ''var'')) (\<lambda>var.
           sbind (slift (JsonObject_getString target ''select'')) (\<lambda>select.
           sbind (\<lambda>s. slift (JsonPath_getPath (tn_config s) key) s) (\<lambda>_.
             if select = ''hightolow''
             then sbind (slift (hightolow_val low high mutations mutation)) (set_var key var)
             else if select = ''random''
             then sbind (random_val rnd low high) (set_var key var)
             else slift (Inl (Thrown_pointer ''don't know how to select'')))))))
       else slift (Inl (Thrown_pointer ''don't know the type'')))))"

fun tune_each ::
  "('g \<Rightarrow> int \<Rightarrow> int \<Rightarrow> int \<times> 'g) \<Rightarrow> int \<Rightarrow> int \<Rightarrow> int \<Rightarrow> members \<Rightarrow> ('g tune_state, unit) prog" where
  "tune_each rnd grp mutations mutation [] = sreturn ()"
| "tune_each rnd grp mutations mutation (i # ms) =
     sbind (slift (in_group grp i)) (\<lambda>b.
     sbind (if b then tune_target rnd mutations mutation (JsonObject_getKey i) (JsonObject_getValue i)
            else sreturn ()) (\<lambda>_.
       tune_each rnd grp mutations mutation ms))"

definition MachineTuner_tune ::
  "('g \<Rightarrow> int \<Rightarrow> int \<Rightarrow> int \<times> 'g) \<Rightarrow> JsonObject \<Rightarrow> int \<Rightarrow> int \<Rightarrow> ('g tune_state, bool) prog" where
  "MachineTuner_tune rnd tunerconfig grp mutation =
     sbind (slift (JsonObject_getInt tunerconfig ''mutations'' (-1))) (\<lambda>mutations.
       if mutations < 0 then slift (Inl (Thrown_pointer ''invalid mutations''))
       else sbind (\<lambda>s. (Inr (), s\<lparr>tn_vars := 0\<rparr>)) (\<lambda>_.
            sbind (slift (JsonObject_iter tunerconfig)) (\<lambda>ms.
            sbind (tune_each rnd grp mutations mutation ms) (\<lambda>_ s.
              (Inr (tn_vars s > 0), s)))))"

section \<open>tune\<close>

text \<open>The program's state: the runner with the file of the results, and the tuner.\<close>

type_synonym ('m, 'g) tune_prog_state = "'m runner_state \<times> 'g tune_state"

definition on_runner :: "('m runner_state, 'a) prog \<Rightarrow> (('m, 'g) tune_prog_state, 'a) prog" where
  "on_runner m s = (let (r, a) = m (fst s) in (r, (a, snd s)))"

definition on_tuner :: "('g tune_state, 'a) prog \<Rightarrow> (('m, 'g) tune_prog_state, 'a) prog" where
  "on_tuner m s = (let (r, b) = m (snd s) in (r, (fst s, b)))"

definition report :: "string \<Rightarrow> (('m, 'g) tune_prog_state, unit) prog" where
  "report text = on_runner (\<lambda>s. (Inr (), s\<lparr>rr_report := rr_report s @ text\<rparr>))"

definition tune_header :: "int \<Rightarrow> string" where
  "tune_header varcount =
     ''group'' @ tab @ ''i'' @ tab @ concat (map (\<lambda>j. ''v'' @ show_int (j + 1) @ tab) [0..varcount - 1])
     @ ''n'' @ tab @ ''low'' @ tab @ ''high'' @ tab @ ''fail'' @ tab @ ''avg'' @ tab @ ''med'' @ nl"

record ('m, 'g) tune_env =
  te_runner :: "'m runner_env"
  te_rnd :: "'g \<Rightarrow> int \<Rightarrow> int \<Rightarrow> int \<times> 'g"
  te_interrupted :: "int \<Rightarrow> int \<Rightarrow> bool"
  te_turns :: "int \<Rightarrow> int \<Rightarrow> nat \<Rightarrow> 'm run_turn"

text \<open>What a run of the program meets: \<open>te_interrupted i j\<close> says whether a signal has come before mutation
  \<open>j\<close> of group \<open>i\<close> (\<open>-1\<close> before the group itself).\<close>

text \<open>The mutations of a group, with the early ends of the loop.\<close>

fun tune_mutations ::
  "('m, 'g) tune_env \<Rightarrow> JsonObject \<Rightarrow> JsonObject \<Rightarrow> int \<Rightarrow> int \<Rightarrow> int \<Rightarrow> int list \<Rightarrow>
   (('m, 'g) tune_prog_state, unit) prog" where
  "tune_mutations p tuneconfig success control iterations i [] = sreturn ()"
| "tune_mutations p tuneconfig success control iterations i (j # js) =
     (if te_interrupted p i j then sreturn ()
      else
        sbind (on_tuner (\<lambda>s. MachineTuner_tune (te_rnd p) tuneconfig i j (s\<lparr>tn_varstring := Some []\<rparr>))) (\<lambda>ok.
        if \<not> ok then sreturn ()
        else
          sbind (on_tuner (\<lambda>s. (JsonObject_write (tn_config s) True, s))) (\<lambda>text.
          sbind (on_tuner (\<lambda>s. (Inr (tn_failonerror s, case tn_varstring s of Some vs \<Rightarrow> vs | None \<Rightarrow> []), s)))
            (\<lambda>(failonerror, vars).
          sbind (on_runner (MachineRunner_runOne (te_runner p) failonerror text control (te_turns p i j)
                   iterations i j vars success)) (\<lambda>passed.
            if \<not> passed \<and> failonerror then sreturn ()
            else tune_mutations p tuneconfig success control iterations i js)))))"

fun tune_groups ::
  "('m, 'g) tune_env \<Rightarrow> JsonObject \<Rightarrow> JsonObject \<Rightarrow> int \<Rightarrow> int \<Rightarrow> int \<Rightarrow> int list \<Rightarrow>
   (('m, 'g) tune_prog_state, unit) prog" where
  "tune_groups p tuneconfig success control iterations mutations [] = sreturn ()"
| "tune_groups p tuneconfig success control iterations mutations (i # is) =
     (if te_interrupted p i (-1) then sreturn ()
      else
        sbind (on_tuner (\<lambda>s. (Inr (), s\<lparr>tn_failonerror := True\<rparr>))) (\<lambda>_.
        sbind (slift (MachineTuner_varCount tuneconfig i)) (\<lambda>varcount.
        sbind (if varcount > 0 then report (tune_header varcount) else sreturn ()) (\<lambda>_.
        sbind (tune_mutations p tuneconfig success control iterations i [0..mutations - 1]) (\<lambda>_.
          tune_groups p tuneconfig success control iterations mutations is)))))"

text \<open>The exit code; only a \<open>runtime_error\<close> thrown by value inside the loop is caught.  The options are
  the texts of the two configurations and the control port, or none.\<close>

definition tune_main ::
  "('m, 'g) tune_env \<Rightarrow> (string \<times> string \<times> int) option \<Rightarrow> 'g \<Rightarrow> 'm runner_state \<Rightarrow>
   int res \<times> ('m, 'g) tune_prog_state" where
  "tune_main p args gen s0 =
     (let start = (\<lambda>config. (s0, \<lparr>tn_config = config, tn_gen = gen, tn_failonerror = True, tn_varstring = None, tn_vars = 0\<rparr>)) in
      case args of
        None \<Rightarrow> (Inr 0, start Null)
      | Some (text, tunetext, control) \<Rightarrow>
          (case JsonObject_read (re_reader (te_runner p)) Null text of
             (False, config) \<Rightarrow> (Inr 1, start config)
           | (True, config) \<Rightarrow>
               (case JsonObject_read (re_reader (te_runner p)) Null tunetext of
                  (False, tuneconfig) \<Rightarrow> (Inr 1, start config)
                | (True, tuneconfig) \<Rightarrow>
                    sbind (slift (JsonObject_getInt tuneconfig ''iterations'' (-1))) (\<lambda>iterations.
                    if iterations < 0 then sreturn 1
                    else sbind (slift (JsonObject_getInt tuneconfig ''mutations'' (-1))) (\<lambda>mutations.
                    if mutations < 0 then sreturn 1
                    else sbind (slift (JsonObject_getInt tuneconfig ''groups'' (-1))) (\<lambda>groups.
                    if groups < 0 then sreturn 1
                    else sbind (slift (JsonObject_getChild tuneconfig ''success'')) (\<lambda>success.
                         sbind (scatch is_runtime_error
                                  (sbind (slift (add_int32 groups 1)) (\<lambda>n.
                                     tune_groups p tuneconfig success control iterations mutations [1..n - 1]))
                                  (sreturn ())) (\<lambda>_. sreturn 0))))) (start config))))"

section \<open>The values\<close>

text \<open>
  Claim C37.  A variable tuned from high to low stays in its range: for every mutation the value is
  between low and high, and it differs by at most one from the exact division of the range.
\<close>

theorem hightolow_in_range:
  assumes "0 \<le> low" and "low \<le> high" and "high \<le> 2147483647"
    and "0 \<le> mutation" and "mutation < mutations" and "mutations \<le> 2147483647"
  shows "\<exists>v. hightolow_val low high mutations mutation = Inr v \<and> low \<le> v \<and> v \<le> high
    \<and> \<bar>v - (low + (high - low) * (mutations - mutation) div mutations)\<bar> \<le> 1"
proof -
  let ?r = "high - low" and ?k = "mutations - mutation"
  have sub: "sub_int32 high low = Inr ?r" using assms by (simp add: sub_int32_def in_int32_def)
  have fin: "dbl_of_int i = Fin i 0" if "0 \<le> i" "i \<le> 2147483647" for i using that by (simp add: dbl_of_int_def)
  have "mutations \<noteq> 0" using assms by simp
  obtain s f where s: "dbl_sub (Fin mutations 0) (Fin mutation 0) = Fin s f" "0 \<le> s"
    "\<bar>dbl_val (Fin s f) - real_of_int ?k\<bar> \<le> real_of_int ?k / 2 ^ 53"
    using dbl_sub_accurate [OF assms(5)] .
  show ?thesis
  proof (cases "?r = 0")
    case True
    then show ?thesis
      using assms s(1) sub by (simp add: hightolow_val_def fin round53_def in_int32_def add_int32_def)
  next
    case False
    then have r: "0 < ?r" using assms by simp
    obtain u e where u: "dbl_div (Fin ?r 0) (Fin mutations 0) = Fin u e" "0 \<le> u"
      "\<bar>dbl_val (Fin u e) - real_of_int ?r / real_of_int mutations\<bar> \<le> real_of_int ?r / real_of_int mutations / 2 ^ 53"
      using dbl_div_accurate [OF r] assms by (metis le_less_trans)
    have "0 < real_of_int ?r / real_of_int mutations" "0 < real_of_int ?k" using r assms by simp_all
    then have "0 < dbl_val (Fin u e)" "0 < dbl_val (Fin s f)"
      using close_pos [OF u(3)] close_pos [OF s(3)] by blast+
    then obtain x g where x: "dbl_mult (Fin u e) (Fin s f) = Fin x g" "0 \<le> x"
      "\<bar>dbl_val (Fin x g) - dbl_val (Fin u e) * dbl_val (Fin s f)\<bar> \<le> dbl_val (Fin u e) * dbl_val (Fin s f) / 2 ^ 53"
      using dbl_mult_accurate [OF u(2) s(2)] by (metis mult_pos_pos)
    have close: "\<bar>dbl_val (Fin x g) - real_of_int ?r * real_of_int ?k / real_of_int mutations\<bar> < 1"
      "0 \<le> dbl_val (Fin x g)" "dbl_val (Fin x g) < real_of_int ?r + 1"
      using product_close [OF u(3) s(3) x(3)] r assms by simp_all
    let ?v = "\<lfloor>dbl_val (Fin x g)\<rfloor>"
    have v: "dbl_to_int (Fin x g) = Inr ?v"
      using dbl_to_int_floor [OF x(2), of g] close(3) r assms(1,3) by simp
    have b1: "0 \<le> ?v" "?v \<le> ?r" using close(2,3) by linarith+
    have b2: "\<bar>?v - ?r * ?k div mutations\<bar> \<le> 1"
    proof -
      have "\<lfloor>real_of_int (?r * ?k) / real_of_int mutations\<rfloor> = ?r * ?k div mutations"
        by (rule floor_divide_of_int_eq)
      then show ?thesis using close(1) by simp linarith
    qed
    obtain i where i: "?v = i" by blast
    show ?thesis
      using assms sub u(1) s(1) x(1) v [unfolded i] b1 [unfolded i] b2 [unfolded i]
      by (simp add: hightolow_val_def fin add_int32_def in_int32_def del: dbl_to_int.simps dbl_mult.simps dbl_div.simps dbl_val.simps)
  qed
qed

theorem hightolow_in_range_witness:
  "\<exists>v. hightolow_val 10 110 10 3 = Inr v \<and> 10 \<le> v \<and> v \<le> 110 \<and> \<bar>v - 80\<bar> \<le> 1"
  using hightolow_in_range [of 10 110 3 10] by simp

section \<open>The columns of the report\<close>

definition columns :: "int list \<Rightarrow> string" where
  "columns vals = join_with (CHR 0x09) (map show_int vals)"

lemma show_int_nonempty [simp]: "show_int i \<noteq> []"
  by (simp add: show_int_def)

lemma join_with_snoc:
  "join_with c (ps @ [p]) = (if ps = [] then p else join_with c ps @ c # p)"
  by (induction c ps rule: join_with.induct) simp_all

lemma columns_snoc: "columns (vals @ [v]) = (if columns vals \<noteq> [] then columns vals @ tab else columns vals) @ show_int v"
proof -
  have "columns vals \<noteq> [] \<longleftrightarrow> vals \<noteq> []"
    by (cases vals; cases "tl vals") (simp_all add: columns_def)
  then show ?thesis
    by (auto simp: columns_def tab_def map_append join_with_snoc simp del: join_with.simps)
qed

lemma set_var_columns:
  assumes "set_var key var val s = (Inr (), s')" and "tn_varstring s = Some (columns vals)"
  shows "tn_vars s' = tn_vars s + 1 \<and> tn_varstring s' = Some (columns (vals @ [val]))"
  using assms by (auto simp: set_var_def columns_snoc split: sum.splits)

lemma random_val_keeps:
  "random_val rnd low high s = (Inr v, s') \<Longrightarrow> tn_vars s' = tn_vars s \<and> tn_varstring s' = tn_varstring s"
  by (auto simp: random_val_def split: if_splits prod.splits)

lemma tune_target_columns:
  assumes "tune_target rnd mutations mutation key target s = (Inr (), s')" and "tn_varstring s = Some (columns vals)"
  shows "\<exists>val. tn_vars s' = tn_vars s + 1 \<and> tn_varstring s' = Some (columns (vals @ [val]))"
  using assms
  by (auto simp: tune_target_def sbind_def slift_def split: sum.splits if_splits prod.splits
      dest!: set_var_columns random_val_keeps)

lemma tune_each_columns:
  assumes "tune_each rnd grp mutations mutation ms s = (Inr (), s')" and "tn_varstring s = Some (columns vals)"
  shows "\<exists>new. count_vars grp ms c = Inr (c + int (length new)) \<and> tn_vars s' = tn_vars s + int (length new)
    \<and> tn_varstring s' = Some (columns (vals @ new))"
  using assms
proof (induction ms arbitrary: s c vals)
  case Nil
  then show ?case by (intro exI [of _ "[]"]) (simp add: sreturn_def)
next
  case (Cons i ms)
  then obtain b where b: "in_group grp i = Inr b" by (cases "in_group grp i") (auto simp: sbind_def slift_def)
  show ?case
  proof (cases b)
    case False
    with Cons b show ?thesis by (auto simp: sbind_def slift_def sreturn_def)
  next
    case True
    with Cons.prems b obtain s1 where s1:
      "tune_target rnd mutations mutation (JsonObject_getKey i) (JsonObject_getValue i) s = (Inr (), s1)"
      "tune_each rnd grp mutations mutation ms s1 = (Inr (), s')"
      by (auto simp: sbind_def slift_def split: prod.splits sum.splits)
    from tune_target_columns [OF s1(1) Cons.prems(2)] obtain val where
      val: "tn_vars s1 = tn_vars s + 1" "tn_varstring s1 = Some (columns (vals @ [val]))" by blast
    from Cons.IH [OF s1(2) val(2), of "c + 1"] obtain new where
      "count_vars grp ms (c + 1) = Inr (c + 1 + int (length new))" "tn_vars s' = tn_vars s1 + int (length new)"
      "tn_varstring s' = Some (columns ((vals @ [val]) @ new))"
      by blast
    with True b val show ?thesis by (intro exI [of _ "val # new"]) simp
  qed
qed

text \<open>
  The report is consistent: when \<open>tune\<close> returns for a group and a mutation, the string of
  the values has as many columns as \<open>varCount\<close> gives for the header of the group, and \<open>tune\<close> says
  true exactly when there is one.
\<close>

theorem MachineTuner_tune_columns:
  assumes "MachineTuner_tune rnd tunerconfig grp mutation (s\<lparr>tn_varstring := Some []\<rparr>) = (Inr b, s')"
  shows "\<exists>vals. MachineTuner_varCount tunerconfig grp = Inr (int (length vals))
    \<and> tn_varstring s' = Some (columns vals) \<and> b = (vals \<noteq> [])"
proof -
  from assms obtain mutations ms s1 where t: "JsonObject_iter tunerconfig = Inr ms"
    "tune_each rnd grp mutations mutation ms (s\<lparr>tn_varstring := Some [], tn_vars := 0\<rparr>) = (Inr (), s1)"
    "s' = s1" "b = (tn_vars s1 > 0)"
    by (auto simp: MachineTuner_tune_def sbind_def slift_def split: prod.splits sum.splits if_splits)
  from tune_each_columns [OF t(2), of "[]" 0] obtain new where
    "count_vars grp ms 0 = Inr (int (length new))" "tn_vars s1 = int (length new)" "tn_varstring s1 = Some (columns new)"
    by (auto simp: columns_def)
  with t show ?thesis by (intro exI [of _ new]) (simp add: MachineTuner_varCount_def)
qed

definition tune_example_target :: JsonObject where
  "tune_example_target = Obj [(''enabled'', Bool True), (''group'', Value_of_int 1), (''type'', Str ''int''),
     (''fail'', Bool True), (''low'', Value_of_int 1), (''high'', Value_of_int 2), (''var'', Str ''n''),
     (''select'', Str ''random'')]"

definition tune_example :: JsonObject where
  "tune_example = Obj [(''mutations'', Value_of_int 2), (''sink'', tune_example_target)]"

lemma tune_example_simps:
  "JsonObject_getInt tune_example ''mutations'' (-1) = Inr 2"
  "in_group 1 (''mutations'', Value_of_int 2) = Inr False" "in_group 1 (''sink'', tune_example_target) = Inr True"
  "JsonObject_getString tune_example_target ''type'' = Inr ''int''"
  "JsonObject_getBool tune_example_target ''fail'' = Inr True"
  "JsonObject_getInt tune_example_target ''low'' (-1) = Inr 1" "JsonObject_getInt tune_example_target ''high'' (-1) = Inr 2"
  "JsonObject_getString tune_example_target ''var'' = Inr ''n''"
  "JsonObject_getString tune_example_target ''select'' = Inr ''random''"
  "JsonPath_getPath (Obj [(''sink'', Obj [(''n'', Value_of_int 0)])]) ''sink'' = Inr (Obj [(''n'', Value_of_int 0)])"
  "JsonPath_setPathInt (Obj [(''sink'', Obj [(''n'', Value_of_int 0)])]) ''sink'' ''n'' 1 = Inr (Obj [(''sink'', Obj [(''n'', Value_of_int 1)])])"
  "show_int 1 = ''1''"
  by code_simp+

lemma tune_example_iter: "JsonObject_iter tune_example = Inr [(''mutations'', Value_of_int 2), (''sink'', tune_example_target)]"
  by (simp add: tune_example_def JsonObject_iter_def)

theorem MachineTuner_tune_columns_witness:
  "\<exists>vals. MachineTuner_varCount tune_example 1 = Inr (int (length vals)) \<and> ''1'' = columns vals"
proof -
  let ?s = "\<lparr>tn_config = Obj [(''sink'', Obj [(''n'', Value_of_int 0)])], tn_gen = (), tn_failonerror = True,
      tn_varstring = None, tn_vars = 0\<rparr>"
  let ?s' = "\<lparr>tn_config = Obj [(''sink'', Obj [(''n'', Value_of_int 1)])], tn_gen = (), tn_failonerror = True,
      tn_varstring = Some ''1'', tn_vars = 1\<rparr>"
  have "MachineTuner_tune (\<lambda>g low high. (low, g)) tune_example 1 1 (?s\<lparr>tn_varstring := Some []\<rparr>) = (Inr True, ?s')"
    by (simp add: MachineTuner_tune_def tune_example_iter tune_example_simps JsonObject_getKey_def JsonObject_getValue_def
        tune_target_def random_val_def set_var_def sbind_def slift_def sreturn_def)
  from MachineTuner_tune_columns [OF this] show ?thesis by auto
qed

text \<open>The first mutation does not always give the high value: one 49th of one, 49 times, is less than one.\<close>

lemma hightolow_misses_high: "hightolow_val 0 1 49 0 = Inr 0"
proof -
  have l: "bit_len (Suc 0) = 1" "bit_len 49 = 6" "bit_len 40564819207303337610932270399488 = 105" "bit_len (2 ^ 105) = 106"
    by (simp_all add: bit_len.simps)
  have "round53 False 1 49 = Fin 5882252574524729 (-58)" "round53 False 49 1 = Fin 6896136929411072 (-47)"
    by (simp_all add: round53_def l scale_num_def scale_den_def round_div_def Let_def)
  moreover have "round53 False 40564819207303337610932270399488 (2 ^ 105) = Fin 9007199254740991 (-53)"
    unfolding round53_def l by (simp add: scale_num_def scale_den_def round_div_def Let_def)
  ultimately show ?thesis
    by (simp add: hightolow_val_def sub_int32_def in_int32_def dbl_of_int_def dbl_sub_def add_int32_def)
qed
end
