(* ===== verification/Http_Parser.thy ===== *)
theory Http_Parser
  imports Prelude
begin

text \<open>
  \<open>ui/request_parser.cpp\<close>, \<open>ui/request.hpp\<close> and \<open>ui/header.hpp\<close>: the state machine that
  reads an HTTP request one character at a time.  \<open>consume\<close> is one step; \<open>parse\<close> runs it over
  the characters of a buffer and gives the verdict (none while more data is needed), the parser
  and the characters it has not looked at.
\<close>

section \<open>Requests\<close>

record header =
  hd_name :: string
  hd_value :: string

record request =
  rq_method :: string
  rq_uri :: string
  rq_major :: int
  rq_minor :: int
  rq_headers :: "header list"

text \<open>The two numbers of a new request are not initialised; nothing reads them before the slash sets
  them to zero.\<close>

definition request_init :: request where
  "request_init = \<lparr>rq_method = [], rq_uri = [], rq_major = 0, rq_minor = 0, rq_headers = []\<rparr>"

datatype parser_state =
    Method_start
  | Method
  | Uri
  | Http_version_h
  | Http_version_t_1
  | Http_version_t_2
  | Http_version_p
  | Http_version_slash
  | Http_version_major_start
  | Http_version_major
  | Http_version_minor_start
  | Http_version_minor
  | Expecting_newline_1
  | Header_line_start
  | Header_lws
  | Header_name
  | Space_before_header_value
  | Header_value
  | Expecting_newline_2
  | Expecting_newline_3

section \<open>Character classes\<close>

definition is_char :: "int \<Rightarrow> bool" where
  "is_char c \<longleftrightarrow> c \<ge> 0 \<and> c \<le> 127"

definition is_ctl :: "int \<Rightarrow> bool" where
  "is_ctl c \<longleftrightarrow> (c \<ge> 0 \<and> c \<le> 31) \<or> c = 127"

definition is_tspecial :: "int \<Rightarrow> bool" where
  "is_tspecial c \<longleftrightarrow> c \<in> {40, 41, 60, 62, 64, 44, 59, 58, 92, 34, 47, 91, 93, 63, 61, 123, 125, 32, 9}"

definition is_digit :: "int \<Rightarrow> bool" where
  "is_digit c \<longleftrightarrow> c \<ge> 48 \<and> c \<le> 57"

text \<open>The condition the code repeats for the characters of a method and of the name of a header.\<close>

definition not_token :: "char \<Rightarrow> bool" where
  "not_token input \<longleftrightarrow>
     \<not> is_char (signed_char input) \<or> is_ctl (signed_char input) \<or> is_tspecial (signed_char input)"

section \<open>The state machine\<close>

type_synonym parser = "parser_state \<times> request"

type_synonym parser_outcome = "(parser, (bool \<times> request) res) outcome"

abbreviation reject :: "request \<Rightarrow> parser_outcome" where
  "reject req \<equiv> Stop (Inr (False, req))"

text \<open>\<open>v * 10 + input - '0'\<close> in \<open>int\<close>: an overflow is undefined.\<close>

definition mult_int32 :: "int \<Rightarrow> int \<Rightarrow> int res" where
  "mult_int32 a b = (if in_int32 (a * b) then Inr (a * b) else Inl (Undefined ''signed overflow''))"

definition push_digit :: "int \<Rightarrow> char \<Rightarrow> int res" where
  "push_digit v input =
     rbind (mult_int32 v 10) (\<lambda>a. rbind (add_int32 a (signed_char input)) (\<lambda>b. sub_int32 b 48))"

definition with_number :: "parser_state \<Rightarrow> (int \<Rightarrow> request) \<Rightarrow> int res \<Rightarrow> parser_outcome" where
  "with_number st upd r = (case r of Inl e \<Rightarrow> Stop (Inl e) | Inr v \<Rightarrow> Continue (st, upd v))"

text \<open>A character more for the name or the value of \<open>req.headers.back()\<close>, which does not exist in an
  empty vector.\<close>

definition on_last_header :: "parser_state \<Rightarrow> (header \<Rightarrow> header) \<Rightarrow> request \<Rightarrow> parser_outcome" where
  "on_last_header st f req =
     (if rq_headers req = [] then Stop (Inl (Undefined ''headers.back()''))
      else Continue (st, req\<lparr>rq_headers := butlast (rq_headers req) @ [f (last (rq_headers req))]\<rparr>))"

definition push_name :: "char \<Rightarrow> header \<Rightarrow> header" where
  "push_name c h = h\<lparr>hd_name := hd_name h @ [c]\<rparr>"

definition push_value :: "char \<Rightarrow> header \<Rightarrow> header" where
  "push_value c h = h\<lparr>hd_value := hd_value h @ [c]\<rparr>"

definition header_init :: header where
  "header_init = \<lparr>hd_name = [], hd_value = []\<rparr>"

text \<open>The states in which one character is expected.\<close>

definition expect :: "char \<Rightarrow> parser_state \<Rightarrow> request \<Rightarrow> char \<Rightarrow> parser_outcome" where
  "expect c st req input = (if input = c then Continue (st, req) else reject req)"

fun consume :: "parser_state \<Rightarrow> request \<Rightarrow> char \<Rightarrow> parser_outcome" where
  "consume Method_start req input =
     (if not_token input then reject req
      else Continue (Method, req\<lparr>rq_method := rq_method req @ [input]\<rparr>))"
| "consume Method req input =
     (if input = CHR '' '' then Continue (Uri, req)
      else if not_token input then reject req
      else Continue (Method, req\<lparr>rq_method := rq_method req @ [input]\<rparr>))"
| "consume Uri req input =
     (if input = CHR '' '' then Continue (Http_version_h, req)
      else if is_ctl (signed_char input) then reject req
      else Continue (Uri, req\<lparr>rq_uri := rq_uri req @ [input]\<rparr>))"
| "consume Http_version_h req input = expect (CHR ''H'') Http_version_t_1 req input"
| "consume Http_version_t_1 req input = expect (CHR ''T'') Http_version_t_2 req input"
| "consume Http_version_t_2 req input = expect (CHR ''T'') Http_version_p req input"
| "consume Http_version_p req input = expect (CHR ''P'') Http_version_slash req input"
| "consume Http_version_slash req input =
     expect (CHR ''/'') Http_version_major_start
       (if input = CHR ''/'' then req\<lparr>rq_major := 0, rq_minor := 0\<rparr> else req) input"
| "consume Http_version_major_start req input =
     (if is_digit (signed_char input)
      then with_number Http_version_major (\<lambda>v. req\<lparr>rq_major := v\<rparr>) (push_digit (rq_major req) input)
      else reject req)"
| "consume Http_version_major req input =
     (if input = CHR ''.'' then Continue (Http_version_minor_start, req)
      else if is_digit (signed_char input)
      then with_number Http_version_major (\<lambda>v. req\<lparr>rq_major := v\<rparr>) (push_digit (rq_major req) input)
      else reject req)"
| "consume Http_version_minor_start req input =
     (if is_digit (signed_char input)
      then with_number Http_version_minor (\<lambda>v. req\<lparr>rq_minor := v\<rparr>) (push_digit (rq_minor req) input)
      else reject req)"
| "consume Http_version_minor req input =
     (if input = CHR 0x0D then Continue (Expecting_newline_1, req)
      else if is_digit (signed_char input)
      then with_number Http_version_minor (\<lambda>v. req\<lparr>rq_minor := v\<rparr>) (push_digit (rq_minor req) input)
      else reject req)"
| "consume Expecting_newline_1 req input = expect (CHR 0x0A) Header_line_start req input"
| "consume Header_line_start req input =
     (if input = CHR 0x0D then Continue (Expecting_newline_3, req)
      else if rq_headers req \<noteq> [] \<and> (input = CHR '' '' \<or> input = CHR 0x09) then Continue (Header_lws, req)
      else if not_token input then reject req
      else Continue (Header_name, req\<lparr>rq_headers := rq_headers req @ [push_name input header_init]\<rparr>))"
| "consume Header_lws req input =
     (if input = CHR 0x0D then Continue (Expecting_newline_2, req)
      else if input = CHR '' '' \<or> input = CHR 0x09 then Continue (Header_lws, req)
      else if is_ctl (signed_char input) then reject req
      else on_last_header Header_value (push_value input) req)"
| "consume Header_name req input =
     (if input = CHR '':'' then Continue (Space_before_header_value, req)
      else if not_token input then reject req
      else on_last_header Header_name (push_name input) req)"
| "consume Space_before_header_value req input = expect (CHR '' '') Header_value req input"
| "consume Header_value req input =
     (if input = CHR 0x0D then Continue (Expecting_newline_2, req)
      else if is_ctl (signed_char input) then reject req
      else on_last_header Header_value (push_value input) req)"
| "consume Expecting_newline_2 req input = expect (CHR 0x0A) Header_line_start req input"
| "consume Expecting_newline_3 req input = Stop (Inr (input = CHR 0x0A, req))"

definition consume_step :: "parser \<Rightarrow> char \<Rightarrow> parser_outcome" where
  "consume_step p input = consume (fst p) (snd p) input"

text \<open>\<open>parse\<close>: the outcome, where \<open>Continue\<close> stands for \<open>boost::indeterminate\<close>, and the rest of the
  buffer.\<close>

definition parse :: "parser \<Rightarrow> string \<Rightarrow> parser_outcome \<times> string" where
  "parse p input = run consume_step p input"

section \<open>Reading a piece of text\<close>

text \<open>\<open>reads p s q\<close>: whatever follows, the text \<open>s\<close> takes the parser from \<open>p\<close> to \<open>q\<close>.\<close>

definition reads :: "parser \<Rightarrow> string \<Rightarrow> parser \<Rightarrow> bool" where
  "reads p s q \<longleftrightarrow> (\<forall>rest. parse p (s @ rest) = parse q rest)"

lemma reads_Nil [simp]: "reads p [] p"
  by (simp add: reads_def)

lemma reads_append: "reads p s q \<Longrightarrow> reads q t r \<Longrightarrow> reads p (s @ t) r"
  by (simp add: reads_def)

lemma reads_char: "consume st req c = Continue q \<Longrightarrow> reads (st, req) [c] q"
  by (simp add: reads_def parse_def consume_step_def)

lemma reads_Cons: "consume st req c = Continue q \<Longrightarrow> reads q s r \<Longrightarrow> reads (st, req) (c # s) r"
  using reads_append [OF reads_char, of st req c q s r] by simp

text \<open>The characters of a token, of a URI and of a value.\<close>

definition token_char :: "char \<Rightarrow> bool" where
  "token_char c \<longleftrightarrow> \<not> not_token c"

definition text_char :: "char \<Rightarrow> bool" where
  "text_char c \<longleftrightarrow> \<not> is_ctl (signed_char c)"

lemma token_char_not [char_simps]:
  "token_char c \<Longrightarrow> c \<noteq> CHR '' '' \<and> c \<noteq> CHR '':'' \<and> c \<noteq> CHR 0x0D \<and> c \<noteq> CHR 0x09"
  by (auto simp: token_char_def not_token_def is_char_def is_ctl_def is_tspecial_def signed_char_def)

lemma text_char_not [char_simps]: "text_char c \<Longrightarrow> c \<noteq> CHR 0x0D \<and> c \<noteq> CHR 0x09"
  by (auto simp: text_char_def is_ctl_def signed_char_def)

lemma reads_method:
  "list_all token_char s \<Longrightarrow> reads (Method, req) s (Method, req\<lparr>rq_method := rq_method req @ s\<rparr>)"
proof (induction s arbitrary: req)
  case (Cons c s)
  then show ?case
    using Cons.IH [of "req\<lparr>rq_method := rq_method req @ [c]\<rparr>"]
    using token_char_not [of c]
    by (intro reads_Cons [of _ _ _ "(Method, req\<lparr>rq_method := rq_method req @ [c]\<rparr>)"])
      (auto simp: token_char_def)
qed simp

lemma reads_uri:
  "list_all (\<lambda>c. text_char c \<and> c \<noteq> CHR '' '') s \<Longrightarrow> reads (Uri, req) s (Uri, req\<lparr>rq_uri := rq_uri req @ s\<rparr>)"
proof (induction s arbitrary: req)
  case (Cons c s)
  then show ?case
    using Cons.IH [of "req\<lparr>rq_uri := rq_uri req @ [c]\<rparr>"]
    by (intro reads_Cons [of _ _ _ "(Uri, req\<lparr>rq_uri := rq_uri req @ [c]\<rparr>)"]) (auto simp: text_char_def)
qed simp

lemma reads_http:
  "reads (Http_version_h, req) ''HTTP/'' (Http_version_major_start, req\<lparr>rq_major := 0, rq_minor := 0\<rparr>)"
  by (auto intro!: reads_Cons simp: expect_def)

subsection \<open>Version numbers\<close>

definition number_from :: "int \<Rightarrow> string \<Rightarrow> int" where
  "number_from v ds = foldl (\<lambda>n c. n * 10 + (int (code c) - 48)) v ds"

lemma number_from_simps [simp]:
  "number_from v [] = v" "number_from v (d # ds) = number_from (v * 10 + (int (code d) - 48)) ds"
  by (simp_all add: number_from_def)

lemma number_from_ge: "0 \<le> v \<Longrightarrow> list_all is_digit_char ds \<Longrightarrow> v \<le> number_from v ds"
proof (induction ds arbitrary: v)
  case (Cons d ds)
  then have "v * 10 + (int (code d) - 48) \<le> number_from (v * 10 + (int (code d) - 48)) ds"
    by (intro Cons.IH) (auto simp: is_digit_char_def)
  with Cons.prems show ?case by (auto simp: is_digit_char_def)
qed simp

lemma number_from_show_nat: "number_from 0 (show_nat n) = int n"
proof (induction n rule: show_nat.induct)
  case (1 n)
  have snoc: "number_from 0 (ds @ [c]) = number_from 0 ds * 10 + (int (code c) - 48)" for ds c
    by (simp add: number_from_def)
  show ?case
  proof (cases "n < 10")
    case False
    with 1 have "number_from 0 (show_nat n) = int (n div 10) * 10 + int (n mod 10)"
      by (simp add: show_nat_big snoc del: of_nat_of_char)
    then show ?thesis by (metis div_mult_mod_eq of_nat_add of_nat_mult of_nat_numeral)
  qed (simp add: show_nat_small del: of_nat_of_char)
qed

lemma digit_signed [simp]: "is_digit (signed_char c) = is_digit_char c"
  using code_less_256 [of c]
  by (auto simp: is_digit_def is_digit_char_def signed_char_def simp del: code_less_256)

lemma push_digit_fits:
  assumes "0 \<le> v" and "is_digit_char c" and "v * 10 + (int (code c) - 48) \<le> 2147483599"
  shows "push_digit v c = Inr (v * 10 + (int (code c) - 48))"
  using assms
  by (auto simp: push_digit_def mult_int32_def add_int32_def sub_int32_def in_int32_def signed_char_def is_digit_char_def)

lemma digit_char_not: "is_digit_char c \<Longrightarrow> c \<noteq> CHR ''.'' \<and> c \<noteq> CHR 0x0D"
  by (auto simp: is_digit_char_def)

lemma reads_number:
  assumes step: "\<And>v v' c. is_digit_char c \<Longrightarrow> push_digit v c = Inr v' \<Longrightarrow> consume st (upd v) c = Continue (st, upd v')"
    and "0 \<le> v" and "list_all is_digit_char ds" and "number_from v ds \<le> 2147483599"
  shows "reads (st, upd v) ds (st, upd (number_from v ds))"
  using assms(2-4)
proof (induction ds arbitrary: v)
  case (Cons d ds)
  let ?v = "v * 10 + (int (code d) - 48)"
  have d: "is_digit_char d" "0 \<le> ?v" using Cons.prems by (auto simp: is_digit_char_def)
  then have "?v \<le> number_from ?v ds" using Cons.prems by (intro number_from_ge) auto
  then have "push_digit v d = Inr ?v" using Cons.prems d by (intro push_digit_fits) auto
  from step [OF d(1) this] show ?case
    using Cons.IH [OF d(2)] Cons.prems by (intro reads_Cons) auto
qed simp

text \<open>The states at the start of a number take a digit as those inside it do.\<close>

lemma reads_number_start:
  assumes "is_digit_char (hd ds)" and "ds \<noteq> []"
  shows "reads (Http_version_major_start, r) ds q = reads (Http_version_major, r) ds q"
    "reads (Http_version_minor_start, r) ds q = reads (Http_version_minor, r) ds q"
  using assms digit_char_not [OF assms(1)]
  by (cases ds; simp add: reads_def parse_def consume_step_def)+

lemma reads_version:
  assumes "int major \<le> 2147483599" and "int minor \<le> 2147483599"
  shows "reads (Http_version_h, req) (''HTTP/'' @ show_nat major @ ''.'' @ show_nat minor @ [CHR 0x0D, CHR 0x0A])
    (Header_line_start, req\<lparr>rq_major := int major, rq_minor := int minor\<rparr>)"
proof -
  let ?r = "\<lambda>v. req\<lparr>rq_major := v, rq_minor := 0\<rparr>" and ?r1 = "\<lambda>v. req\<lparr>rq_major := int major, rq_minor := v\<rparr>"
  note start = reads_number_start [OF show_nat_hd_digit show_nat_nonempty]
  have "reads (Http_version_major_start, ?r 0) (show_nat major) (Http_version_major, ?r (int major))"
    unfolding start(1) number_from_show_nat [symmetric]
    using assms(1) by (intro reads_number) (auto simp: with_number_def number_from_show_nat dest: digit_char_not)
  moreover have "reads (Http_version_major, ?r (int major)) ''.'' (Http_version_minor_start, ?r1 0)"
    by (simp add: reads_char)
  moreover have "reads (Http_version_minor_start, ?r1 0) (show_nat minor) (Http_version_minor, ?r1 (int minor))"
    unfolding start(2) number_from_show_nat [of minor, symmetric]
    using assms(2) by (intro reads_number) (auto simp: with_number_def number_from_show_nat dest: digit_char_not)
  moreover have "reads (Http_version_minor, ?r1 (int minor)) [CHR 0x0D, CHR 0x0A] (Header_line_start, ?r1 (int minor))"
    by (auto intro!: reads_Cons simp: expect_def)
  ultimately show ?thesis by (blast intro: reads_append reads_http)
qed

subsection \<open>Headers\<close>

text \<open>The line of a header, with its continuation lines: the white space at the start of each and the
  text after it.\<close>

type_synonym header_text = "string \<times> string \<times> (string \<times> string) list"

definition crlf :: string where "crlf = [CHR 0x0D, CHR 0x0A]"

fun header_line :: "header_text \<Rightarrow> string" where
  "header_line (name, val, folds) =
     name @ '': '' @ val @ crlf @ concat (map (\<lambda>(ws, seg). ws @ seg @ crlf) folds)"

fun header_of :: "header_text \<Rightarrow> header" where
  "header_of (name, val, folds) = \<lparr>hd_name = name, hd_value = val @ concat (map snd folds)\<rparr>"

definition good_fold :: "string \<times> string \<Rightarrow> bool" where
  "good_fold f \<longleftrightarrow> fst f \<noteq> [] \<and> set (fst f) \<subseteq> {CHR '' '', CHR 0x09}
     \<and> list_all text_char (snd f) \<and> (snd f = [] \<or> hd (snd f) \<noteq> CHR '' '')"

fun good_header :: "header_text \<Rightarrow> bool" where
  "good_header (name, val, folds) \<longleftrightarrow>
     name \<noteq> [] \<and> list_all token_char name \<and> list_all text_char val \<and> list_all good_fold folds"

abbreviation adding :: "request \<Rightarrow> header list \<Rightarrow> request" where
  "adding req hs \<equiv> req\<lparr>rq_headers := rq_headers req @ hs\<rparr>"

lemma reads_name:
  "list_all token_char s \<Longrightarrow>
   reads (Header_name, adding req [\<lparr>hd_name = n, hd_value = v\<rparr>]) s (Header_name, adding req [\<lparr>hd_name = n @ s, hd_value = v\<rparr>])"
proof (induction s arbitrary: n)
  case (Cons c s)
  then show ?case
    using Cons.IH [of "n @ [c]"] token_char_not [of c]
    by (intro reads_Cons [of _ _ _ "(Header_name, adding req [\<lparr>hd_name = n @ [c], hd_value = v\<rparr>])"])
      (auto simp: token_char_def on_last_header_def push_name_def)
qed simp

lemma reads_value:
  "list_all text_char s \<Longrightarrow>
   reads (Header_value, adding req [\<lparr>hd_name = n, hd_value = v\<rparr>]) s (Header_value, adding req [\<lparr>hd_name = n, hd_value = v @ s\<rparr>])"
proof (induction s arbitrary: v)
  case (Cons c s)
  then show ?case
    using Cons.IH [of "v @ [c]"] text_char_not [of c]
    by (intro reads_Cons [of _ _ _ "(Header_value, adding req [\<lparr>hd_name = n, hd_value = v @ [c]\<rparr>])"])
      (auto simp: text_char_def on_last_header_def push_value_def)
qed simp

lemma reads_value_end: "reads (Header_value, req) crlf (Header_line_start, req)"
  and reads_lws_end: "reads (Header_lws, req) crlf (Header_line_start, req)"
  by (auto intro!: reads_Cons simp: expect_def crlf_def)

lemma reads_lws: "set s \<subseteq> {CHR '' '', CHR 0x09} \<Longrightarrow> reads (Header_lws, req) s (Header_lws, req)"
proof (induction s)
  case (Cons c s)
  then show ?case by (intro reads_Cons [of _ _ _ "(Header_lws, req)"]) auto
qed simp

lemma reads_fold:
  assumes "good_fold f"
  shows "reads (Header_line_start, adding req [\<lparr>hd_name = n, hd_value = v\<rparr>]) (fst f @ snd f @ crlf)
    (Header_line_start, adding req [\<lparr>hd_name = n, hd_value = v @ snd f\<rparr>])"
proof -
  let ?r = "adding req [\<lparr>hd_name = n, hd_value = v\<rparr>]"
  obtain w ws where w: "fst f = w # ws" "w = CHR '' '' \<or> w = CHR 0x09" "set ws \<subseteq> {CHR '' '', CHR 0x09}"
    using assms by (cases "fst f") (auto simp: good_fold_def)
  then have lws: "reads (Header_line_start, ?r) (fst f) (Header_lws, ?r)"
    using reads_lws [OF w(3), of ?r] by (auto intro!: reads_Cons)
  show ?thesis
  proof (cases "snd f")
    case Nil
    with lws show ?thesis using reads_append [OF lws reads_lws_end] by simp
  next
    case (Cons c s)
    then have c: "text_char c" "c \<noteq> CHR '' ''" "list_all text_char s"
      using assms by (auto simp: good_fold_def)
    with text_char_not [of c] have "reads (Header_lws, ?r) [c] (Header_value, adding req [\<lparr>hd_name = n, hd_value = v @ [c]\<rparr>])"
      by (intro reads_char) (auto simp: text_char_def on_last_header_def push_value_def)
    from reads_append [OF this reads_value [OF c(3)]] show ?thesis
      using reads_append [OF lws] reads_append [OF _ reads_value_end] Cons by fastforce
  qed
qed

lemma reads_folds:
  "list_all good_fold fs \<Longrightarrow>
   reads (Header_line_start, adding req [\<lparr>hd_name = n, hd_value = v\<rparr>]) (concat (map (\<lambda>(ws, seg). ws @ seg @ crlf) fs))
     (Header_line_start, adding req [\<lparr>hd_name = n, hd_value = v @ concat (map snd fs)\<rparr>])"
proof (induction fs arbitrary: v)
  case (Cons f fs)
  from Cons.prems have "good_fold f" by simp
  from reads_append [OF reads_fold [OF this] Cons.IH] Cons.prems show ?case
    by (simp add: case_prod_unfold)
qed simp

lemma reads_header:
  assumes "good_header h"
  shows "reads (Header_line_start, req) (header_line h) (Header_line_start, adding req [header_of h])"
proof -
  obtain name val folds where h: "h = (name, val, folds)" by (cases h)
  obtain c cs where n: "name = c # cs" "token_char c" "list_all token_char cs"
    using assms by (cases name) (auto simp: h)
  have val: "list_all text_char val" and folds: "list_all good_fold folds" using assms by (auto simp: h)
  have start: "reads (Header_line_start, req) [c] (Header_name, adding req [\<lparr>hd_name = [c], hd_value = []\<rparr>])"
    using n(2) token_char_not [OF n(2)]
    by (intro reads_char) (auto simp: token_char_def push_name_def header_init_def)
  have colon: "reads (Header_name, r) '': '' (Header_value, r)" for r
    by (auto intro!: reads_Cons simp: expect_def)
  show ?thesis
    using reads_append [OF start reads_append [OF reads_name [OF n(3)] reads_append [OF colon
          reads_append [OF reads_value [OF val] reads_append [OF reads_value_end reads_folds [OF folds]]]]]]
    by (simp add: h n(1))
qed

lemma reads_headers:
  "list_all good_header hs \<Longrightarrow>
   reads (Header_line_start, req) (concat (map header_line hs)) (Header_line_start, adding req (map header_of hs))"
proof (induction hs arbitrary: req)
  case (Cons h hs)
  from reads_append [OF reads_header Cons.IH, of h req] Cons.prems show ?case by simp
qed simp

section \<open>Requests as text\<close>

definition request_text :: "string \<Rightarrow> string \<Rightarrow> nat \<Rightarrow> nat \<Rightarrow> header_text list \<Rightarrow> string" where
  "request_text meth uri major minor hs =
     meth @ '' '' @ uri @ '' HTTP/'' @ show_nat major @ ''.'' @ show_nat minor @ crlf
       @ concat (map header_line hs) @ crlf"

definition request_of :: "string \<Rightarrow> string \<Rightarrow> nat \<Rightarrow> nat \<Rightarrow> header_text list \<Rightarrow> request" where
  "request_of meth uri major minor hs =
     \<lparr>rq_method = meth, rq_uri = uri, rq_major = int major, rq_minor = int minor, rq_headers = map header_of hs\<rparr>"

definition good_request :: "string \<Rightarrow> string \<Rightarrow> nat \<Rightarrow> nat \<Rightarrow> header_text list \<Rightarrow> bool" where
  "good_request meth uri major minor hs \<longleftrightarrow>
     meth \<noteq> [] \<and> list_all token_char meth \<and> list_all (\<lambda>c. text_char c \<and> c \<noteq> CHR '' '') uri
     \<and> int major \<le> 2147483599 \<and> int minor \<le> 2147483599 \<and> list_all good_header hs"

lemma parse_request:
  assumes "good_request meth uri major minor hs"
  shows "parse (Method_start, request_init) (request_text meth uri major minor hs @ rest) =
    (Stop (Inr (True, request_of meth uri major minor hs)), rest)"
proof -
  obtain c cs where m: "meth = c # cs" "token_char c" "list_all token_char cs"
    using assms by (cases meth) (auto simp: good_request_def)
  have start: "reads (Method_start, request_init) [c] (Method, request_init\<lparr>rq_method := [c]\<rparr>)"
    using m(2) by (intro reads_char) (simp add: token_char_def request_init_def)
  have space: "reads (Method, r) '' '' (Uri, r)" "reads (Uri, r) '' '' (Http_version_h, r)" for r
    by (simp_all add: reads_char)
  have uri: "list_all (\<lambda>c. text_char c \<and> c \<noteq> CHR '' '') uri" and hs: "list_all good_header hs"
    and ver: "int major \<le> 2147483599" "int minor \<le> 2147483599"
    using assms by (simp_all add: good_request_def)
  have "reads (Method_start, request_init)
      (meth @ '' '' @ uri @ '' '' @ (''HTTP/'' @ show_nat major @ ''.'' @ show_nat minor @ crlf) @ concat (map header_line hs))
      (Header_line_start, request_of meth uri major minor hs)"
    using reads_append [OF start reads_append [OF reads_method [OF m(3)] reads_append [OF space(1)
          reads_append [OF reads_uri [OF uri] reads_append [OF space(2)
            reads_append [OF reads_version [OF ver] reads_headers [OF hs]]]]]]]
    by (simp add: m(1) crlf_def request_init_def request_of_def)
  moreover have "parse (Header_line_start, r) (crlf @ rest) = (Stop (Inr (True, r)), rest)" for r
    by (simp add: parse_def crlf_def consume_step_def)
  ultimately show ?thesis by (simp add: reads_def request_text_def)
qed

text \<open>
  Claim C17.  A well-formed request is read back: the parser takes from its input exactly the text
  of the request and gives its method, URI, version and headers, the value of a folded header
  being the concatenation of its lines without the white space at their start.
\<close>

theorem request_parser_reads_request:
  assumes "good_request meth uri major minor hs"
  shows "parse (Method_start, request_init) (request_text meth uri major minor hs @ rest) =
    (Stop (Inr (True, request_of meth uri major minor hs)), rest)"
  using assms by (rule parse_request)

theorem request_parser_reads_request_witness:
  "parse (Method_start, request_init)
     (''GET /a HTTP/1.1'' @ crlf @ ''Host: x'' @ crlf @ '' y'' @ crlf @ crlf @ ''rest'') =
   (Stop (Inr (True, \<lparr>rq_method = ''GET'', rq_uri = ''/a'', rq_major = 1, rq_minor = 1,
      rq_headers = [\<lparr>hd_name = ''Host'', hd_value = ''xy''\<rparr>]\<rparr>)), ''rest'')"
proof -
  have "good_request ''GET'' ''/a'' 1 1 [(''Host'', ''x'', [('' '', ''y'')])]" by code_simp
  moreover have "show_nat 1 = ''1''" by code_simp
  ultimately show ?thesis
    using request_parser_reads_request [of "''GET''" "''/a''" 1 1 "[(''Host'', ''x'', [('' '', ''y'')])]" "''rest''"]
    by (simp add: request_text_def request_of_def crlf_def)
qed

section \<open>What the parser never does\<close>

text \<open>In the states inside a header there is a header.\<close>

definition parser_inv :: "parser \<Rightarrow> bool" where
  "parser_inv p \<longleftrightarrow>
     (fst p \<in> {Header_lws, Header_name, Space_before_header_value, Header_value, Expecting_newline_2}
        \<longrightarrow> rq_headers (snd p) \<noteq> [])"

definition parser_verdict :: "(bool \<times> request) res \<Rightarrow> bool" where
  "parser_verdict r \<longleftrightarrow> (\<forall>e. r = Inl e \<longrightarrow> e = Undefined ''signed overflow'')"

lemma push_digit_error: "push_digit v c = Inl e \<Longrightarrow> e = Undefined ''signed overflow''"
  by (auto simp: push_digit_def mult_int32_def add_int32_def sub_int32_def rbind_eq_Inl split: if_splits)

lemma consume_cases:
  assumes "parser_inv (st, req)"
  shows "case consume st req c of Continue p \<Rightarrow> parser_inv p | Stop r \<Rightarrow> parser_verdict r"
  using assms push_digit_error [of "rq_major req" c] push_digit_error [of "rq_minor req" c]
  by (cases st)
    (auto simp: parser_inv_def parser_verdict_def expect_def on_last_header_def with_number_def split: sum.split)

interpretation http_parser: stepper consume_step parser_inv "\<lambda>_. True" parser_verdict
proof unfold_locales
  fix p c assume inv: "parser_inv p"
  from consume_cases [of "fst p" "snd p" c] inv
  show "consume_step p c = Continue p' \<Longrightarrow> parser_inv p'" for p' by (simp add: consume_step_def)
  from consume_cases [of "fst p" "snd p" c] inv
  show "consume_step p c = Stop r \<Longrightarrow> parser_verdict r" for r by (simp add: consume_step_def)
qed

text \<open>
  Claim C18.  The parser is safe but for one thing: whatever the input, the last header is there
  when the code takes it, and no undefined behaviour is reached except the overflow of a version
  number.
\<close>

theorem request_parser_safe:
  "fst (parse (Method_start, request_init) input) = Stop (Inl e) \<Longrightarrow> e = Undefined ''signed overflow''"
  using http_parser.run_acceptable [of "(Method_start, request_init)" input "Inl e"]
  by (cases "parse (Method_start, request_init) input")
    (auto simp: parse_def parser_inv_def parser_verdict_def list_all_iff)

text \<open>The overflow: eleven digits are enough.\<close>

theorem request_parser_safe_witness:
  "fst (parse (Method_start, request_init) ''GET / HTTP/99999999999'') = Stop (Inl (Undefined ''signed overflow''))"
proof -
  have "case fst (parse (Method_start, request_init) ''GET / HTTP/99999999999'') of
      Stop (Inl e) \<Rightarrow> True | _ \<Rightarrow> False"
    by code_simp
  then obtain e where e: "fst (parse (Method_start, request_init) ''GET / HTTP/99999999999'') = Stop (Inl e)"
    by (auto split: outcome.splits sum.splits)
  with request_parser_safe [OF e] show ?thesis by simp
qed

end
