(* ===== verification/Http_Reply.thy ===== *)
theory Http_Reply
  imports Http_Parser
begin

text \<open>
  \<open>ui/reply.cpp\<close> and \<open>ui/mime_types.cpp\<close>: replies, the buffers they are written as, the stock
  replies and the types of files.  A buffer of Boost.Asio is the string it points to.
\<close>

section \<open>Replies\<close>

datatype status_type =
    St_ok
  | St_created
  | St_accepted
  | St_no_content
  | St_multiple_choices
  | St_moved_permanently
  | St_moved_temporarily
  | St_not_modified
  | St_bad_request
  | St_unauthorized
  | St_forbidden
  | St_not_found
  | St_internal_server_error
  | St_not_implemented
  | St_bad_gateway
  | St_service_unavailable

fun status_code :: "status_type \<Rightarrow> int" where
  "status_code St_ok = 200"
| "status_code St_created = 201"
| "status_code St_accepted = 202"
| "status_code St_no_content = 204"
| "status_code St_multiple_choices = 300"
| "status_code St_moved_permanently = 301"
| "status_code St_moved_temporarily = 302"
| "status_code St_not_modified = 304"
| "status_code St_bad_request = 400"
| "status_code St_unauthorized = 401"
| "status_code St_forbidden = 403"
| "status_code St_not_found = 404"
| "status_code St_internal_server_error = 500"
| "status_code St_not_implemented = 501"
| "status_code St_bad_gateway = 502"
| "status_code St_service_unavailable = 503"

record reply =
  rp_status :: status_type
  rp_headers :: "header list"
  rp_content :: string

text \<open>The status of a new reply is not initialised; every use sets it before the reply is written.\<close>

definition reply_init :: reply where
  "reply_init = \<lparr>rp_status = St_ok, rp_headers = [], rp_content = []\<rparr>"

section \<open>Writing a reply\<close>

fun status_string :: "status_type \<Rightarrow> string" where
  "status_string St_ok = ''HTTP/1.0 200 OK'' @ crlf"
| "status_string St_created = ''HTTP/1.0 201 Created'' @ crlf"
| "status_string St_accepted = ''HTTP/1.0 202 Accepted'' @ crlf"
| "status_string St_no_content = ''HTTP/1.0 204 No Content'' @ crlf"
| "status_string St_multiple_choices = ''HTTP/1.0 300 Multiple Choices'' @ crlf"
| "status_string St_moved_permanently = ''HTTP/1.0 301 Moved Permanently'' @ crlf"
| "status_string St_moved_temporarily = ''HTTP/1.0 302 Moved Temporarily'' @ crlf"
| "status_string St_not_modified = ''HTTP/1.0 304 Not Modified'' @ crlf"
| "status_string St_bad_request = ''HTTP/1.0 400 Bad Request'' @ crlf"
| "status_string St_unauthorized = ''HTTP/1.0 401 Unauthorized'' @ crlf"
| "status_string St_forbidden = ''HTTP/1.0 403 Forbidden'' @ crlf"
| "status_string St_not_found = ''HTTP/1.0 404 Not Found'' @ crlf"
| "status_string St_internal_server_error = ''HTTP/1.0 500 Internal Server Error'' @ crlf"
| "status_string St_not_implemented = ''HTTP/1.0 501 Not Implemented'' @ crlf"
| "status_string St_bad_gateway = ''HTTP/1.0 502 Bad Gateway'' @ crlf"
| "status_string St_service_unavailable = ''HTTP/1.0 503 Service Unavailable'' @ crlf"

definition name_value_separator :: string where
  "name_value_separator = '': ''"

definition to_buffers :: "reply \<Rightarrow> string list" where
  "to_buffers rep =
     [status_string (rp_status rep)]
       @ concat (map (\<lambda>h. [hd_name h, name_value_separator, hd_value h, crlf]) (rp_headers rep))
       @ [crlf, rp_content rep]"

text \<open>What \<open>async_write\<close> sends.\<close>

definition reply_text :: "reply \<Rightarrow> string" where
  "reply_text rep = concat (to_buffers rep)"

section \<open>Stock replies\<close>

definition stock_page :: "string \<Rightarrow> string \<Rightarrow> string" where
  "stock_page title h1 =
     ''<html><head><title>'' @ title @ ''</title></head><body><h1>'' @ h1 @ ''</h1></body></html>''"

fun stock_content :: "status_type \<Rightarrow> string" where
  "stock_content St_ok = []"
| "stock_content St_created = stock_page ''Created'' ''201 Created''"
| "stock_content St_accepted = stock_page ''Accepted'' ''202 Accepted''"
| "stock_content St_no_content = stock_page ''No Content'' ''204 Content''"
| "stock_content St_multiple_choices = stock_page ''Multiple Choices'' ''300 Multiple Choices''"
| "stock_content St_moved_permanently = stock_page ''Moved Permanently'' ''301 Moved Permanently''"
| "stock_content St_moved_temporarily = stock_page ''Moved Temporarily'' ''302 Moved Temporarily''"
| "stock_content St_not_modified = stock_page ''Not Modified'' ''304 Not Modified''"
| "stock_content St_bad_request = stock_page ''Bad Request'' ''400 Bad Request''"
| "stock_content St_unauthorized = stock_page ''Unauthorized'' ''401 Unauthorized''"
| "stock_content St_forbidden = stock_page ''Forbidden'' ''403 Forbidden''"
| "stock_content St_not_found = stock_page ''Not Found'' ''404 Not Found''"
| "stock_content St_internal_server_error = stock_page ''Internal Server Error'' ''500 Internal Server Error''"
| "stock_content St_not_implemented = stock_page ''Not Implemented'' ''501 Not Implemented''"
| "stock_content St_bad_gateway = stock_page ''Bad Gateway'' ''502 Bad Gateway''"
| "stock_content St_service_unavailable = stock_page ''Service Unavailable'' ''503 Service Unavailable''"

text \<open>The two headers that every reply with a content gets; the first version of them is in
  \<open>stock_reply\<close> and in \<open>handle_request\<close>, the second in \<open>RestContext::makeHeaders\<close>.\<close>

definition make_headers :: "int \<Rightarrow> string \<Rightarrow> header list" where
  "make_headers sz mimetype =
     [\<lparr>hd_name = ''Content-Length'', hd_value = show_int sz\<rparr>,
      \<lparr>hd_name = ''Content-Type'', hd_value = mimetype\<rparr>]"

definition stock_reply :: "status_type \<Rightarrow> reply" where
  "stock_reply status =
     \<lparr>rp_status = status,
      rp_headers = make_headers (int (length (stock_content status))) ''text/html'',
      rp_content = stock_content status\<rparr>"

section \<open>MIME types\<close>

definition mappings :: "(string \<times> string) list" where
  "mappings = [(''gif'', ''image/gif''), (''htm'', ''text/html''), (''html'', ''text/html''),
     (''jpg'', ''image/jpeg''), (''png'', ''image/png'')]"

definition extension_to_type :: "string \<Rightarrow> string" where
  "extension_to_type extension =
     (case map_of mappings extension of Some t \<Rightarrow> t | None \<Rightarrow> ''text/plain'')"

section \<open>Framing\<close>

text \<open>What a client needs to find the end of a reply: the length of its content in the header, or
  no content.\<close>

definition framed :: "reply \<Rightarrow> bool" where
  "framed rep \<longleftrightarrow> rp_content rep = [] \<and> rp_headers rep = []
     \<or> (\<exists>t. rp_headers rep = make_headers (int (length (rp_content rep))) t)"

lemma framed_stock [simp]: "framed (stock_reply status)"
  by (auto simp: framed_def stock_reply_def)

end
