(* ===== verification/Rest.thy ===== *)
theory Rest
  imports Http_Reply Json_Path
begin

text \<open>
  \<open>ui/RestContext.cpp\<close>, \<open>ui/RestHandler.cpp\<close> and \<open>ui/rest/\<close>: the REST handlers of the user
  interface, the table that finds them, and the context (the loaded machine) they share.  The
  layout of a graph is Boost's and an argument, as are the file system and the JSON reader.
\<close>

section \<open>The context\<close>

record rest_context =
  rc_loaded :: bool
  rc_root :: JsonObject

definition context_init :: rest_context where
  "context_init = \<lparr>rc_loaded = False, rc_root = Null\<rparr>"

text \<open>What the handlers use of the world: the contents of a file by its path (none when it cannot be
  opened), the JSON reader, and Boost's layout of a graph in a square: from the number of
  vertices, the edges and the length of a side to the positions, none when it does not converge.\<close>

record rest_env =
  rx_file :: "string \<Rightarrow> string option"
  rx_reader :: json_reader
  rx_layout :: "nat \<Rightarrow> (nat \<times> nat) list \<Rightarrow> int \<Rightarrow> (dbl \<times> dbl) list option"

text \<open>\<open>c_str()\<close> of a string as the functions of C see it.\<close>

definition c_str :: "string \<Rightarrow> string" where
  "c_str s = takeWhile (\<lambda>c. c \<noteq> CHR 0x00) s"

text \<open>\<open>load\<close>: a file that cannot be opened is read as an empty one, and \<open>loaded\<close> stays true once it
  is.\<close>

definition RestContext_load :: "rest_env \<Rightarrow> string \<Rightarrow> rest_context \<Rightarrow> bool \<times> rest_context" where
  "RestContext_load x config c =
     (let text = (case rx_file x (c_str config) of None \<Rightarrow> [] | Some t \<Rightarrow> t);
          (ok, root) = JsonObject_read (rx_reader x) (rc_root c) text;
          c' = c\<lparr>rc_root := root\<rparr>;
          c'' = (if ok then c'\<lparr>rc_loaded := True\<rparr> else c')
      in (rc_loaded c'', c''))"

definition RestContext_makeHeaders :: "int \<Rightarrow> string \<Rightarrow> header list" where
  "RestContext_makeHeaders sz mimetype = make_headers sz mimetype"

section \<open>Handlers\<close>

text \<open>A handler: from the arguments, the context, the headers and the content of the reply to the
  status and what it leaves of them.\<close>

record rest_reply =
  rr_context :: rest_context
  rr_headers :: "header list"
  rr_content :: string

type_synonym handler = "string \<Rightarrow> rest_reply \<Rightarrow> (status_type \<times> rest_reply) res"

definition successHandler :: handler where
  "successHandler args r = Inr (St_ok, r)"

definition badRequestHandler :: handler where
  "badRequestHandler args r = Inr (St_bad_request, r)"

definition helloHandler :: handler where
  "helloHandler args r =
     (let s = ''hello'' in
      Inr (St_ok, r\<lparr>rr_headers := RestContext_makeHeaders (int (length s)) ''text/text'',
                    rr_content := rr_content r @ s\<rparr>))"

definition loadHandler :: "rest_env \<Rightarrow> handler" where
  "loadHandler x args r =
     (let argsa = split_on (CHR ''&'') args in
      if length argsa < 1 then Inr (St_bad_request, r)
      else let nvp = split_on (CHR ''='') (argsa ! 0) in
        if length nvp \<noteq> 2 \<or> nvp ! 0 \<noteq> ''file'' then Inr (St_bad_request, r)
        else let fn = nvp ! 1; (ok, c) = RestContext_load x fn (rr_context r) in
          if \<not> ok then Inr (St_bad_request, r\<lparr>rr_context := c\<rparr>)
          else Inr (St_ok, r\<lparr>rr_context := c, rr_headers := RestContext_makeHeaders (int (length fn)) ''text/text'',
                             rr_content := rr_content r @ fn\<rparr>))"

section \<open>nodesHandler\<close>

definition NODE_WIDTH :: int where "NODE_WIDTH = 100"
definition NODE_HEIGHT :: int where "NODE_HEIGHT = 100"

definition addRect :: "JsonObject \<Rightarrow> int \<Rightarrow> int \<Rightarrow> JsonObject" where
  "addRect info x y =
     (let rect = JsonObject_add_int (JsonObject_add_int (JsonObject_add_int (JsonObject_add_int Null
            ''left'' x) ''top'' y) ''width'' NODE_WIDTH) ''height'' NODE_HEIGHT
      in JsonObject_add_object info ''rect'' rect)"

text \<open>The loop over the connections of a node, in \<open>addNode\<close> and in \<open>addEdges\<close>: those whose
  direction is "to".\<close>

fun outgoing :: "(JsonObject \<Rightarrow> 's \<Rightarrow> 's res) \<Rightarrow> members \<Rightarrow> 's \<Rightarrow> 's res" where
  "outgoing f [] s = Inr s"
| "outgoing f (i # ms) s =
     (let o1 = JsonObject_getValue i in
      rbind (JsonObject_getString o1 ''direction'') (\<lambda>direction.
      rbind (if direction = ''to'' then f o1 s else Inr s) (outgoing f ms)))"

definition node_connections :: "(JsonObject \<Rightarrow> 's \<Rightarrow> 's res) \<Rightarrow> JsonObject \<Rightarrow> 's \<Rightarrow> 's res" where
  "node_connections f node s =
     rbind (JsonPath_getPath node ''config.connections'') (\<lambda>confconn.
       if JsonObject_empty confconn then Inr s
       else rbind (JsonObject_iter confconn) (\<lambda>ms. outgoing f ms s))"

definition addNode ::
  "JsonObject \<Rightarrow> string \<Rightarrow> int \<Rightarrow> int \<Rightarrow> JsonObject \<times> JsonArray \<Rightarrow> (JsonObject \<times> JsonArray) res" where
  "addNode node type x y = (\<lambda>(pt, connections).
     rbind (JsonObject_getString node ''name'') (\<lambda>name.
     rbind (JsonObject_getInt node ''count'' 0) (\<lambda>cnt.
       let info = JsonObject_add_string Null ''type'' type;
           info' = (if cnt > 0 then JsonObject_add_int info ''count'' cnt else info);
           pt' = JsonObject_add_object pt name (addRect info' x y)
       in rmap (\<lambda>cs. (pt', cs))
            (node_connections (\<lambda>o1 cs.
               rmap (\<lambda>block. JsonArray_add_object cs
                       (JsonObject_add_string (JsonObject_add_string Null ''from'' name) ''to'' block))
                 (JsonObject_getString o1 ''block''))
               node connections))))"

text \<open>\<open>GraphLayout\<close>: vertices and edges.  \<open>ids.at\<close> throws \<open>out_of_range\<close>.\<close>

record GraphLayout =
  gl_vertices :: nat
  gl_edges :: "(nat \<times> nat) list"

definition GraphLayout_init :: GraphLayout where
  "GraphLayout_init = \<lparr>gl_vertices = 0, gl_edges = []\<rparr>"

definition GraphLayout_addVertexes :: "int \<Rightarrow> GraphLayout \<Rightarrow> GraphLayout" where
  "GraphLayout_addVertexes cnt l = l\<lparr>gl_vertices := gl_vertices l + nat cnt\<rparr>"

definition GraphLayout_addEdge :: "nat \<Rightarrow> nat \<Rightarrow> GraphLayout \<Rightarrow> GraphLayout" where
  "GraphLayout_addEdge from to l = l\<lparr>gl_edges := gl_edges l @ [(from, to)]\<rparr>"

definition point_center :: "int \<Rightarrow> int \<Rightarrow> dbl \<times> dbl \<Rightarrow> (int \<times> int) res" where
  "point_center centerx centery p =
     rbind (rbind (dbl_to_int (fst p)) (\<lambda>x. add_int32 x centerx)) (\<lambda>x.
     rmap (\<lambda>y. (x, y)) (rbind (dbl_to_int (snd p)) (\<lambda>y. add_int32 y centery)))"

definition GraphLayout_layout :: "rest_env \<Rightarrow> int \<Rightarrow> int \<Rightarrow> int \<Rightarrow> GraphLayout \<Rightarrow> (int \<times> int) list res" where
  "GraphLayout_layout x sz centerx centery l =
     (case rx_layout x (gl_vertices l) (gl_edges l) sz of
        None \<Rightarrow> Inl (Runtime_error ''layout failed.'')
      | Some ps \<Rightarrow> rfold (\<lambda>p cs. rmap (\<lambda>c. cs @ [c]) (point_center centerx centery p)) ps [])"

definition ids_at :: "(string \<rightharpoonup> nat) \<Rightarrow> string \<Rightarrow> nat res" where
  "ids_at ids name = (case ids name of None \<Rightarrow> Inl Out_of_range | Some i \<Rightarrow> Inr i)"

definition addEdges :: "(string \<rightharpoonup> nat) \<Rightarrow> JsonObject \<Rightarrow> GraphLayout \<Rightarrow> GraphLayout res" where
  "addEdges ids node l =
     rbind (JsonObject_getString node ''name'') (\<lambda>name.
       node_connections (\<lambda>o1 l.
         rbind (ids_at ids name) (\<lambda>from.
         rbind (JsonObject_getString o1 ''block'') (\<lambda>block.
         rbind (ids_at ids block) (\<lambda>to.
           if from = to then Inl (Thrown_pointer (''from same as to for '' @ name))
           else Inr (GraphLayout_addEdge from to l)))))
         node l)"

text \<open>The arguments of the request: side and center of the drawing.\<close>

record node_args =
  na_size :: int
  na_centerx :: int
  na_centery :: int

definition node_arg :: "string \<Rightarrow> node_args \<Rightarrow> node_args res" where
  "node_arg i a =
     (let nvp = split_on (CHR ''='') i;
          val = (if length nvp < 2 then Inl (Undefined ''nvp[1]'') else lexical_cast_int (nvp ! 1))
      in if nvp ! 0 = ''size'' then rmap (\<lambda>v. a\<lparr>na_size := v\<rparr>) val
         else if nvp ! 0 = ''centerx'' then rmap (\<lambda>v. a\<lparr>na_centerx := v\<rparr>) val
         else if nvp ! 0 = ''centery'' then rmap (\<lambda>v. a\<lparr>na_centery := v\<rparr>) val
         else Inr a)"

definition node_args_of :: "string \<Rightarrow> node_args res" where
  "node_args_of args =
     rfold node_arg (split_on (CHR ''&'') args) \<lparr>na_size = 300, na_centerx = 150, na_centery = 150\<rparr>"

text \<open>The blocks in the order of their ids: the vent, the background blocks, the reaper.\<close>

definition name_ids :: "JsonObject list \<Rightarrow> (string \<rightharpoonup> nat) res" where
  "name_ids nodes =
     rmap fst (rfold (\<lambda>node (ids, i). rmap (\<lambda>name. (ids(name \<mapsto> i), Suc i)) (JsonObject_getString node ''name''))
       nodes (Map.empty, 0))"

definition center_of :: "(string \<rightharpoonup> nat) \<Rightarrow> (int \<times> int) list \<Rightarrow> JsonObject \<Rightarrow> (int \<times> int) res" where
  "center_of ids centers node =
     rbind (JsonObject_getString node ''name'') (\<lambda>name.
       let i = (case ids name of None \<Rightarrow> 0 | Some i \<Rightarrow> i)
       in if i < length centers then Inr (centers ! i) else Inl (Undefined ''centers[id]''))"

definition place_node ::
  "(string \<rightharpoonup> nat) \<Rightarrow> (int \<times> int) list \<Rightarrow> JsonObject \<times> string \<Rightarrow> JsonObject \<times> JsonArray \<Rightarrow> (JsonObject \<times> JsonArray) res" where
  "place_node ids centers = (\<lambda>(node, type) p.
     rbind (center_of ids centers node) (\<lambda>(x, y). addNode node type x y p))"

text \<open>From the layout to the document.\<close>

definition nodes_document ::
  "(string \<rightharpoonup> nat) \<Rightarrow> (int \<times> int) list \<Rightarrow> JsonObject \<Rightarrow> JsonArray \<Rightarrow> JsonObject \<Rightarrow> string res" where
  "nodes_document ids centers vent bg reap =
     rbind (rfold (place_node ids centers)
              ([(vent, ''vent'')] @ map (\<lambda>n. (n, ''background'')) bg @ [(reap, ''reap'')]) (Null, []))
       (\<lambda>(pt, connections).
          JsonObject_write
            (if connections \<noteq> [] then JsonObject_add_array pt ''connections'' connections else pt) True)"

definition nodesHandler :: "rest_env \<Rightarrow> handler" where
  "nodesHandler x args r =
     (if \<not> rc_loaded (rr_context r) then Inr (St_no_content, r)
      else
        rbind (node_args_of args) (\<lambda>a.
        let root = rc_root (rr_context r) in
        rbind (JsonObject_getArray root ''background'') (\<lambda>bg.
        rbind (JsonObject_getChild root ''vent'') (\<lambda>vent.
        rbind (JsonObject_getChild root ''reap'') (\<lambda>reap.
        rbind (name_ids ([vent] @ bg @ [reap])) (\<lambda>ids.
        rbind (rfold (addEdges ids) ([vent] @ bg @ [reap])
                 (GraphLayout_addVertexes (JsonArray_size bg + 2) GraphLayout_init)) (\<lambda>l.
          case GraphLayout_layout x (na_size a) (na_centerx a) (na_centery a) l of
            Inl (Runtime_error e) \<Rightarrow> Inr (St_bad_request, r)
          | Inl e \<Rightarrow> Inl e
          | Inr centers \<Rightarrow>
              rmap (\<lambda>text. (St_ok, r\<lparr>rr_content := text\<rparr>)) (nodes_document ids centers vent bg reap))))))))"

section \<open>The table of handlers\<close>

type_synonym RestHandler = "string \<rightharpoonup> handler"

definition RestHandler_init :: RestHandler where
  "RestHandler_init =
     [''/rest/success'' \<mapsto> successHandler, ''/rest/badRequest'' \<mapsto> badRequestHandler,
      ''/rest/hello'' \<mapsto> helloHandler]"

definition RestHandler_add :: "string \<Rightarrow> handler \<Rightarrow> RestHandler \<Rightarrow> RestHandler" where
  "RestHandler_add path func h = h(path \<mapsto> func)"

definition RestHandler_isRest :: "string \<Rightarrow> bool" where
  "RestHandler_isRest path = prefix ''/rest/'' path"

definition RestHandler_call :: "RestHandler \<Rightarrow> string \<Rightarrow> rest_reply \<Rightarrow> (status_type \<times> rest_reply) res" where
  "RestHandler_call h path r =
     (let (p, q) = break_at (\<lambda>c. c = CHR ''?'') path; args = drop 1 q in
      case h p of
        Some mfp \<Rightarrow> mfp args r
      | None \<Rightarrow> Inr (St_bad_request, r))"

end
