(* ===== verification/Http_Server.thy ===== *)
theory Http_Server
  imports Rest
begin

text \<open>
  \<open>ui/request_handler.cpp\<close>, \<open>ui/connection.cpp\<close>, \<open>ui/connection_manager.cpp\<close>,
  \<open>ui/server.cpp\<close> and \<open>ui/ui.cpp\<close>: a request is turned into a reply, a connection reads a
  request and writes the reply, and the server keeps the connections.

  The completion handlers of Boost.Asio are functions on the state of the server; which of them
  can run next is the relation \<open>server_step\<close>: an operation that was started completes, with
  data or an error, and \<open>operation_aborted\<close> comes only from a socket that was closed.
\<close>

section \<open>Decoding a URL\<close>

definition is_hex_char :: "char \<Rightarrow> bool" where
  "is_hex_char c \<longleftrightarrow> is_digit_char c \<or> (65 \<le> code c \<and> code c \<le> 70) \<or> (97 \<le> code c \<and> code c \<le> 102)"

definition hex_value :: "char \<Rightarrow> nat" where
  "hex_value c = (if code c \<le> 57 then code c - 48 else if code c \<le> 70 then code c - 55 else code c - 87)"

text \<open>\<open>istringstream(s) >> hex >> value\<close> for an \<open>int\<close> and a short string: white space, a sign
  and \<open>0x\<close> are allowed before the digits, and what follows them is not looked at.\<close>

definition scan_sign :: "string \<Rightarrow> bool \<times> string" where
  "scan_sign s = (case s of [] \<Rightarrow> (False, []) | c # cs \<Rightarrow>
     if c = CHR ''-'' then (True, cs) else if c = CHR ''+'' then (False, cs) else (False, s))"

definition scan_prefix :: "string \<Rightarrow> string" where
  "scan_prefix s = (case s of a # b # cs \<Rightarrow> if a = CHR ''0'' \<and> (b = CHR ''x'' \<or> b = CHR ''X'') then cs else s | _ \<Rightarrow> s)"

definition scan_hex :: "string \<Rightarrow> int option" where
  "scan_hex s =
     (let (neg, s') = scan_sign (dropWhile is_space s);
          ds = takeWhile is_hex_char (scan_prefix s');
          v = int (foldl (\<lambda>n c. n * 16 + hex_value c) 0 ds)
      in if ds = [] then None else Some (if neg then - v else v))"

definition int_to_char :: "int \<Rightarrow> char" where
  "int_to_char v = char_of (nat (v mod 256))"

fun url_decode :: "string \<Rightarrow> string option" where
  "url_decode [] = Some []"
| "url_decode (c # cs) =
     (if c = CHR ''%'' then
        (case cs of
           a # b # rest \<Rightarrow>
             (case scan_hex [a, b] of
                Some val \<Rightarrow> map_option ((#) (int_to_char val)) (url_decode rest)
              | None \<Rightarrow> None)
         | _ \<Rightarrow> None)
      else if c = CHR ''+'' then map_option ((#) (CHR '' '')) (url_decode cs)
      else map_option ((#) c) (url_decode cs))"

section \<open>Handling a request\<close>

record http_env = rest_env +
  he_doc_root :: string

definition find_last_of :: "char \<Rightarrow> string \<Rightarrow> nat option" where
  "find_last_of c s =
     (if c \<in> set s then Some (length s - Suc (length (takeWhile (\<lambda>x. x \<noteq> c) (rev s)))) else None)"

definition file_extension :: "string \<Rightarrow> string" where
  "file_extension p =
     (case find_last_of (CHR ''.'') p of
        None \<Rightarrow> []
      | Some dot \<Rightarrow>
          (case find_last_of (CHR ''/'') p of
             None \<Rightarrow> []
           | Some slash \<Rightarrow> if dot > slash then drop (dot + 1) p else []))"

text \<open>Reading a file in pieces of 512 bytes.\<close>

function read_file :: "string \<Rightarrow> string \<Rightarrow> string" where
  "read_file content bytes =
     (if bytes = [] then content else read_file (content @ take 512 bytes) (drop 512 bytes))"
  by pat_completeness auto
termination by (relation "measure (length \<circ> snd)") auto

declare read_file.simps [simp del]

lemma read_file_all: "read_file content bytes = content @ bytes"
proof (induction content bytes rule: read_file.induct)
  case (1 content bytes)
  then show ?case by (subst read_file.simps) simp
qed

definition rest_handlers :: "http_env \<Rightarrow> RestHandler" where
  "rest_handlers x =
     RestHandler_add ''/rest/load'' (loadHandler (rest_env.truncate x))
       (RestHandler_add ''/rest/nodes'' (nodesHandler (rest_env.truncate x)) RestHandler_init)"

definition handle_request :: "http_env \<Rightarrow> request \<Rightarrow> rest_context \<times> reply \<Rightarrow> (rest_context \<times> reply) res" where
  "handle_request x req = (\<lambda>(c, rep).
     (case url_decode (rq_uri req) of
        None \<Rightarrow> Inr (c, stock_reply St_bad_request)
      | Some request_path \<Rightarrow>
          if request_path = [] \<or> hd request_path \<noteq> CHR ''/'' \<or> sublist ''..'' request_path
          then Inr (c, stock_reply St_bad_request)
          else
            let path = (if last request_path = CHR ''/'' then request_path @ ''index.html'' else request_path) in
            if RestHandler_isRest path then
              rmap (\<lambda>(status, r). (rr_context r, \<lparr>rp_status = status, rp_headers = rr_headers r, rp_content = rr_content r\<rparr>))
                (RestHandler_call (rest_handlers x) path
                   \<lparr>rr_context = c, rr_headers = rp_headers rep, rr_content = rp_content rep\<rparr>)
            else
              (case rx_file x (c_str (he_doc_root x @ path)) of
                 None \<Rightarrow> Inr (c, stock_reply St_not_found)
               | Some file \<Rightarrow>
                   let content = read_file (rp_content rep) file in
                   Inr (c, \<lparr>rp_status = St_ok,
                            rp_headers = make_headers (int (length content)) (extension_to_type (file_extension path)),
                            rp_content = content\<rparr>))))"

section \<open>Connections\<close>

datatype asio_error = No_error | Operation_aborted | Other_error

datatype pending = No_op | Reading | Writing string

text \<open>\<open>cn_received\<close> and \<open>cn_written\<close> are what the socket has given and taken so far.\<close>

record connection =
  cn_open :: bool
  cn_parser :: parser
  cn_reply :: reply
  cn_pending :: pending
  cn_received :: string
  cn_written :: "string list"

definition connection_init :: connection where
  "connection_init = \<lparr>cn_open = True, cn_parser = (Method_start, request_init), cn_reply = reply_init,
     cn_pending = No_op, cn_received = [], cn_written = []\<rparr>"

definition connection_start :: "connection \<Rightarrow> connection" where
  "connection_start cn = cn\<lparr>cn_pending := Reading\<rparr>"

definition connection_stop :: "connection \<Rightarrow> connection" where
  "connection_stop cn = cn\<lparr>cn_open := False\<rparr>"

text \<open>\<open>handle_read\<close> without an error: the parser decides between a reply, a stock reply and another
  read.\<close>

definition connection_received :: "http_env \<Rightarrow> string \<Rightarrow> rest_context \<times> connection \<Rightarrow> (rest_context \<times> connection) res" where
  "connection_received x bytes = (\<lambda>(c, cn).
     let cn' = cn\<lparr>cn_received := cn_received cn @ bytes\<rparr> in
     case fst (parse (cn_parser cn) bytes) of
       Continue p \<Rightarrow> Inr (c, cn'\<lparr>cn_parser := p, cn_pending := Reading\<rparr>)
     | Stop (Inl e) \<Rightarrow> Inl e
     | Stop (Inr (ok, req)) \<Rightarrow>
         rmap (\<lambda>(c', rep). (c', cn'\<lparr>cn_reply := rep, cn_pending := Writing (reply_text rep)\<rparr>))
           (if ok then handle_request x req (c, cn_reply cn) else Inr (c, stock_reply St_bad_request)))"

section \<open>The server\<close>

text \<open>\<open>sv_managed\<close> is the set of the connection manager, \<open>sv_next\<close> the connection that waits to be
  accepted; \<open>sv_accepting\<close> and \<open>sv_waiting\<close> say whether the accept and the wait for a signal are
  outstanding.\<close>

record server =
  sv_acceptor :: bool
  sv_accepting :: bool
  sv_waiting :: bool
  sv_next :: nat
  sv_connections :: "nat \<Rightarrow> connection"
  sv_managed :: "nat set"
  sv_context :: rest_context

definition on_connection :: "nat \<Rightarrow> (connection \<Rightarrow> connection) \<Rightarrow> server \<Rightarrow> server" where
  "on_connection i f s = s\<lparr>sv_connections := (sv_connections s)(i := f (sv_connections s i))\<rparr>"

definition manager_start :: "nat \<Rightarrow> server \<Rightarrow> server" where
  "manager_start i s = on_connection i connection_start (s\<lparr>sv_managed := insert i (sv_managed s)\<rparr>)"

definition manager_stop :: "nat \<Rightarrow> server \<Rightarrow> server" where
  "manager_stop i s = on_connection i connection_stop (s\<lparr>sv_managed := sv_managed s - {i}\<rparr>)"

definition manager_stop_all :: "server \<Rightarrow> server" where
  "manager_stop_all s =
     s\<lparr>sv_connections := (\<lambda>i. if i \<in> sv_managed s then connection_stop (sv_connections s i) else sv_connections s i),
       sv_managed := {}\<rparr>"

definition start_accept :: "server \<Rightarrow> server" where
  "start_accept s =
     (let i = Suc (sv_next s) in
      s\<lparr>sv_next := i, sv_connections := (sv_connections s)(i := connection_init), sv_accepting := True\<rparr>)"

definition handle_accept :: "asio_error \<Rightarrow> server \<Rightarrow> server" where
  "handle_accept e s0 =
     (let s = s0\<lparr>sv_accepting := False\<rparr> in
      if \<not> sv_acceptor s then s
      else start_accept (if e = No_error then manager_start (sv_next s) s else s))"

definition handle_stop :: "server \<Rightarrow> server" where
  "handle_stop s = manager_stop_all (s\<lparr>sv_acceptor := False, sv_waiting := False\<rparr>)"

definition handle_read :: "http_env \<Rightarrow> nat \<Rightarrow> asio_error \<Rightarrow> string \<Rightarrow> server \<Rightarrow> server res" where
  "handle_read x i e bytes s0 =
     (let s = on_connection i (\<lambda>cn. cn\<lparr>cn_pending := No_op\<rparr>) s0 in
      if e = No_error then
        rmap (\<lambda>(c, cn). s\<lparr>sv_context := c, sv_connections := (sv_connections s)(i := cn)\<rparr>)
          (connection_received x bytes (sv_context s, sv_connections s i))
      else if e \<noteq> Operation_aborted then Inr (manager_stop i s)
      else Inr s)"

text \<open>The text of the reply has been written where there is no error; shutting the socket down
  ignores errors.\<close>

definition written :: "connection \<Rightarrow> connection" where
  "written cn =
     (case cn_pending cn of Writing t \<Rightarrow> cn\<lparr>cn_written := cn_written cn @ [t]\<rparr> | _ \<Rightarrow> cn)"

definition handle_write :: "nat \<Rightarrow> asio_error \<Rightarrow> server \<Rightarrow> server" where
  "handle_write i e s0 =
     (let s1 = (if e = No_error then on_connection i written s0 else s0);
          s = on_connection i (\<lambda>cn. cn\<lparr>cn_pending := No_op\<rparr>) s1
      in if e \<noteq> Operation_aborted then manager_stop i s else s)"

definition server_init :: server where
  "server_init = start_accept
     \<lparr>sv_acceptor = True, sv_accepting = False, sv_waiting = True, sv_next = 0,
      sv_connections = \<lambda>_. connection_init, sv_managed = {}, sv_context = context_init\<rparr>"

datatype server_event =
    Accepted asio_error
  | Read_done nat asio_error string
  | Write_done nat asio_error
  | Signalled

fun server_handle :: "http_env \<Rightarrow> server_event \<Rightarrow> server \<Rightarrow> server res" where
  "server_handle x (Accepted e) s = Inr (handle_accept e s)"
| "server_handle x (Read_done i e bytes) s = handle_read x i e bytes s"
| "server_handle x (Write_done i e) s = Inr (handle_write i e s)"
| "server_handle x Signalled s = Inr (handle_stop s)"

definition server_run :: "http_env \<Rightarrow> server_event list \<Rightarrow> server res" where
  "server_run x evs = rfold (server_handle x) evs server_init"

text \<open>\<open>main\<close> of \<open>ui\<close>: the exit code.  \<open>open_server\<close> is what opening the acceptor comes to.\<close>

definition ui_main :: "string list \<Rightarrow> unit res \<Rightarrow> (string \<Rightarrow> http_env) \<Rightarrow> server_event list \<Rightarrow> int res" where
  "ui_main argv open_server env evs =
     (if length argv \<noteq> 4 then Inr 1
      else case rbind open_server (\<lambda>_. server_run (env (argv ! 3)) evs) of
             Inr s \<Rightarrow> Inr 0
           | Inl e \<Rightarrow> if is_std_exception e then Inr 0 else Inl e)"

section \<open>What can happen\<close>

text \<open>Which completion handler can run.\<close>

fun enabled :: "server \<Rightarrow> server_event \<Rightarrow> bool" where
  "enabled s (Accepted e) = sv_accepting s"
| "enabled s (Read_done i e bytes) =
     (cn_pending (sv_connections s i) = Reading \<and> (e = Operation_aborted \<longrightarrow> \<not> cn_open (sv_connections s i)))"
| "enabled s (Write_done i e) =
     ((case cn_pending (sv_connections s i) of Writing t \<Rightarrow> True | _ \<Rightarrow> False) \<and> (e = Operation_aborted \<longrightarrow> \<not> cn_open (sv_connections s i)))"
| "enabled s Signalled = sv_waiting s"

inductive server_step :: "http_env \<Rightarrow> server \<Rightarrow> server_event \<Rightarrow> server \<Rightarrow> bool" for x where
  step: "server_handle x ev s = Inr s' \<Longrightarrow> enabled s ev \<Longrightarrow> server_step x s ev s'"

inductive reachable :: "http_env \<Rightarrow> server \<Rightarrow> bool" for x where
  init: "reachable x server_init"
| step: "reachable x s \<Longrightarrow> server_step x s ev s' \<Longrightarrow> reachable x s'"

inductive_cases server_stepE: "server_step x s ev s'"

section \<open>Decoding what was encoded\<close>

definition percent :: "char \<Rightarrow> string" where
  "percent c = [CHR ''%'', to_hex_char (code c div 16), to_hex_char (code c mod 16)]"

definition url_encode :: "(char \<Rightarrow> bool) \<Rightarrow> string \<Rightarrow> string" where
  "url_encode plain s = concat (map (\<lambda>c. if plain c then [c] else percent c) s)"

lemma hex_char_facts:
  assumes "n < 16"
  shows "\<not> is_space (to_hex_char n)" "to_hex_char n \<noteq> CHR ''-''" "to_hex_char n \<noteq> CHR ''+''"
    "to_hex_char n \<noteq> CHR ''x''" "to_hex_char n \<noteq> CHR ''X''" "is_hex_char (to_hex_char n)"
    "hex_value (to_hex_char n) = n"
proof -
  have c: "code (to_hex_char n) = (if n < 10 then 48 + n else 55 + n)"
    using assms by (simp add: to_hex_char_def)
  have ne: "to_hex_char n \<noteq> d" if "code (to_hex_char n) \<noteq> code d" for d using that by auto
  show "\<not> is_space (to_hex_char n)" "is_hex_char (to_hex_char n)" "hex_value (to_hex_char n) = n"
    using assms by (simp_all add: c is_space_def is_hex_char_def is_digit_char_def hex_value_def)
  show "to_hex_char n \<noteq> CHR ''-''" "to_hex_char n \<noteq> CHR ''+''"
    "to_hex_char n \<noteq> CHR ''x''" "to_hex_char n \<noteq> CHR ''X''"
    using assms by (intro ne; simp add: c)+
qed

lemma scan_hex_percent:
  "scan_hex [to_hex_char (code c div 16), to_hex_char (code c mod 16)] = Some (int (code c))"
proof -
  have lt: "code c div 16 < 16" "code c mod 16 < 16" using less_mult_imp_div_less [of "code c" 16 16] by simp_all
  note f = hex_char_facts [OF lt(1)] hex_char_facts [OF lt(2)]
  have "code c div 16 * 16 + code c mod 16 = code c" by simp
  with f show ?thesis
    by (simp add: scan_hex_def scan_sign_def scan_prefix_def del: code_less_256)
qed

lemma int_to_char_code [simp]: "int_to_char (int (code c)) = c"
  using code_less_256 [of c] by (simp add: int_to_char_def nat_mod_as_int flip: of_nat_mod)

text \<open>
  Claim C19.  Decoding undoes percent-encoding: whichever characters other than the percent sign and
  plus are left as they are, the decoded text is the text that was encoded.
\<close>

theorem url_decode_encode:
  assumes "\<not> plain (CHR ''%'')" and "\<not> plain (CHR ''+'')"
  shows "url_decode (url_encode plain s) = Some s"
proof (induction s)
  case (Cons c s)
  then show ?case
    using assms
    by (cases "plain c") (auto simp: url_encode_def percent_def scan_hex_percent simp del: of_nat_of_char)
qed (simp add: url_encode_def)

theorem url_decode_encode_witness:
  "url_decode ''a%2Fb%2520'' = Some ''a/b%20''"
proof -
  let ?plain = "\<lambda>c. c \<noteq> CHR ''%'' \<and> c \<noteq> CHR ''+'' \<and> c \<noteq> CHR ''/''"
  have "url_encode ?plain ''a/b%20'' = ''a%2Fb%2520''" by code_simp
  then show ?thesis using url_decode_encode [of ?plain "''a/b%20''"] by simp
qed

section \<open>Which files are served\<close>

lemma dotdot_index: "last p = CHR ''/'' \<Longrightarrow> p \<noteq> [] \<Longrightarrow> sublist ''..'' (p @ ''index.html'') \<Longrightarrow> sublist ''..'' p"
  by (cases p rule: rev_cases)
    (auto simp: sublist_append Cons_eq_append_conv suffix_def sublist_Cons_right prefix_Cons)

lemma prefix_index:
  assumes "prefix s (p @ ''index.html'')" and "last p = CHR ''/''" and "p \<noteq> []"
    and "s \<in> {''/rest/'', ''/rest/nodes''}"
  shows "prefix s p"
  using assms
  by (cases p rule: rev_cases) (auto simp: prefix_append prefix_Cons Cons_eq_append_conv)

lemma c_str_append: "CHR 0x00 \<notin> set r \<Longrightarrow> c_str (r @ p) = r @ c_str p"
  by (auto simp: c_str_def takeWhile_append)

lemma sublist_c_str: "sublist s (c_str p) \<Longrightarrow> sublist s p"
  by (metis c_str_def sublist_append_rightI sublist_order.order.trans takeWhile_dropWhile_id)

text \<open>A path that the server may open below its root.\<close>

definition safe_path :: "string \<Rightarrow> bool" where
  "safe_path p \<longleftrightarrow> p \<noteq> [] \<and> hd p = CHR ''/'' \<and> \<not> sublist ''..'' p"

text \<open>
  Claim C20.  The document root confines the server: for a request that is not a REST call, the
  reply depends only on the files below the root, reached by a path without \<open>..\<close>; changing any
  other file changes nothing.
\<close>

theorem handle_request_confined:
  assumes "\<And>p. safe_path p \<Longrightarrow> f (he_doc_root x @ p) = rx_file x (he_doc_root x @ p)"
    and "CHR 0x00 \<notin> set (he_doc_root x)"
    and "\<And>p. url_decode (rq_uri req) = Some p \<Longrightarrow> \<not> RestHandler_isRest p"
  shows "handle_request (x\<lparr>rx_file := f\<rparr>) req s = handle_request x req s"
proof (cases "url_decode (rq_uri req)")
  case (Some p)
  let ?q = "if last p = CHR ''/'' then p @ ''index.html'' else p"
  show ?thesis
  proof (cases "p = [] \<or> hd p \<noteq> CHR ''/'' \<or> sublist ''..'' p")
    case False
    then have "\<not> sublist ''..'' ?q" using dotdot_index [of p] by auto
    then have "safe_path (c_str ?q)"
      using False sublist_c_str [of "''..''" ?q] by (cases p) (auto simp: safe_path_def c_str_def)
    from assms(1) [OF this] have f: "f (c_str (he_doc_root x @ ?q)) = rx_file x (c_str (he_doc_root x @ ?q))"
      using assms(2) by (simp add: c_str_append)
    have "\<not> RestHandler_isRest ?q"
      using assms(3) [OF Some] False prefix_index [of "''/rest/''" p] by (auto simp: RestHandler_isRest_def)
    with False Some f show ?thesis
      by (cases s) (simp add: handle_request_def Let_def)
  qed (cases s; auto simp: handle_request_def Some)
qed (cases s; simp add: handle_request_def)

section \<open>Framing of the replies\<close>

lemma call_framed:
  assumes "RestHandler_call (rest_handlers x) path \<lparr>rr_context = c, rr_headers = [], rr_content = []\<rparr> = Inr (st, r)"
    and "\<not> prefix ''/rest/nodes'' path"
  shows "framed \<lparr>rp_status = st, rp_headers = rr_headers r, rp_content = rr_content r\<rparr>"
proof -
  obtain p q where pq: "break_at (\<lambda>c. c = CHR ''?'') path = (p, q)" by fastforce
  have "p \<noteq> ''/rest/nodes''" using break_at_append [OF pq] assms(2) by auto
  then show ?thesis
    using assms(1) pq
    by (auto simp: RestHandler_call_def rest_handlers_def RestHandler_add_def RestHandler_init_def
        successHandler_def badRequestHandler_def helloHandler_def loadHandler_def RestContext_makeHeaders_def
        framed_def Let_def split: if_splits prod.splits)
qed

text \<open>
  Every reply but that of \<open>/rest/nodes\<close> says how long it is: its first header is
  Content-Length with the number of bytes of its content, or it has neither headers nor content.
\<close>

theorem handle_request_framed:
  assumes "handle_request x req (c, reply_init) = Inr (c', rep)"
    and "\<And>p. url_decode (rq_uri req) = Some p \<Longrightarrow> \<not> prefix ''/rest/nodes'' p"
  shows "framed rep"
proof (cases "url_decode (rq_uri req)")
  case None
  with assms(1) show ?thesis by (auto simp: handle_request_def)
next
  case (Some p)
  let ?q = "if last p = CHR ''/'' then p @ ''index.html'' else p"
  show ?thesis
  proof (cases "p = [] \<or> hd p \<noteq> CHR ''/'' \<or> sublist ''..'' p")
    case True
    with assms(1) Some show ?thesis by (auto simp: handle_request_def)
  next
    case False
    then have q: "\<not> prefix ''/rest/nodes'' ?q" using assms(2) [OF Some] prefix_index [of "''/rest/nodes''" p] by auto
    show ?thesis
    proof (cases "RestHandler_isRest ?q")
      case True
      with assms(1) Some False obtain st r where
        "RestHandler_call (rest_handlers x) ?q \<lparr>rr_context = c, rr_headers = [], rr_content = []\<rparr> = Inr (st, r)"
        "rep = \<lparr>rp_status = st, rp_headers = rr_headers r, rp_content = rr_content r\<rparr>"
        by (auto simp: handle_request_def Let_def reply_init_def rmap_eq_Inr split: prod.splits)
      with call_framed [OF _ q] show ?thesis by blast
    next
      case not_rest: False
      with assms(1) Some False show ?thesis
        by (auto simp: handle_request_def Let_def framed_def stock_reply_def split: option.splits)
    qed
  qed
qed

section \<open>An example server\<close>

definition example_env :: http_env where
  "example_env = \<lparr>rx_file = \<lambda>p. if p = ''www/a.html'' then Some ''hello'' else None,
     rx_reader = \<lambda>s v. (s \<noteq> [], Obj []), rx_layout = \<lambda>n es sz. None, he_doc_root = ''www''\<rparr>"

definition get_request :: "string \<Rightarrow> request" where
  "get_request uri = request_of ''GET'' uri 1 0 []"

theorem handle_request_confined_witness:
  "handle_request (example_env\<lparr>rx_file := \<lambda>p. if p = ''/etc/passwd'' then Some ''root'' else rx_file example_env p\<rparr>)
      (get_request ''/a.html'') (context_init, reply_init) =
   handle_request example_env (get_request ''/a.html'') (context_init, reply_init)"
proof -
  have "url_decode (rq_uri (get_request ''/a.html'')) = Some ''/a.html''" "\<not> RestHandler_isRest ''/a.html''"
    by (simp_all add: get_request_def request_of_def RestHandler_isRest_def)
  then show ?thesis
    by (intro handle_request_confined) (auto simp: example_env_def)
qed

theorem handle_request_framed_witness:
  "framed \<lparr>rp_status = St_ok, rp_headers = make_headers 5 ''text/html'', rp_content = ''hello''\<rparr>"
proof -
  have "handle_request example_env (get_request ''/a.html'') (context_init, reply_init) =
     Inr (context_init, \<lparr>rp_status = St_ok, rp_headers = make_headers 5 ''text/html'', rp_content = ''hello''\<rparr>)"
    by code_simp
  from handle_request_framed [OF this] show ?thesis
    by (simp add: get_request_def request_of_def)
qed

section \<open>The server's book-keeping\<close>

text \<open>The text a connection answers with, for all that it has received and a context.\<close>

definition answers :: "http_env \<Rightarrow> string \<Rightarrow> string \<Rightarrow> bool" where
  "answers x received t \<longleftrightarrow>
     (case fst (parse (Method_start, request_init) received) of
        Stop (Inr (ok, req)) \<Rightarrow>
          if ok then \<exists>c c' rep. handle_request x req (c, reply_init) = Inr (c', rep) \<and> t = reply_text rep
          else t = reply_text (stock_reply St_bad_request)
      | _ \<Rightarrow> False)"

text \<open>One connection: while it reads, its parser is where the text received so far has taken it; it
  writes an answer to that text, once.\<close>

definition connection_inv :: "http_env \<Rightarrow> connection \<Rightarrow> bool" where
  "connection_inv x cn \<longleftrightarrow>
     (case cn_pending cn of
        Reading \<Rightarrow> fst (parse (Method_start, request_init) (cn_received cn)) = Continue (cn_parser cn)
          \<and> cn_reply cn = reply_init \<and> cn_written cn = []
      | Writing t \<Rightarrow> answers x (cn_received cn) t \<and> cn_written cn = []
      | No_op \<Rightarrow> cn_written cn = [] \<or> (\<exists>t. cn_written cn = [t] \<and> answers x (cn_received cn) t))"

definition server_inv :: "http_env \<Rightarrow> server \<Rightarrow> bool" where
  "server_inv x s \<longleftrightarrow>
     (\<forall>i. connection_inv x (sv_connections s i))
   \<and> (\<forall>i. i \<in> sv_managed s \<longleftrightarrow> cn_open (sv_connections s i) \<and> cn_pending (sv_connections s i) \<noteq> No_op)
   \<and> (\<not> sv_acceptor s \<longrightarrow> sv_managed s = {})
   \<and> (sv_acceptor s \<longrightarrow> sv_accepting s \<and> sv_connections s (sv_next s) = connection_init)
   \<and> (\<forall>i > sv_next s. sv_connections s i = connection_init)"

lemma connection_inv_init [simp]: "connection_inv x connection_init" "connection_inv x (connection_start connection_init)"
  by (simp_all add: connection_inv_def connection_init_def connection_start_def parse_def)

lemma connection_inv_stop [simp]: "connection_inv x (connection_stop cn) = connection_inv x cn"
  by (simp add: connection_inv_def connection_stop_def split: pending.split)

lemma connection_init_simps [simp]:
  "cn_open connection_init" "cn_pending connection_init = No_op"
  "cn_open (connection_stop cn) = False" "cn_pending (connection_stop cn) = cn_pending cn"
  "cn_open (connection_start cn) = cn_open cn" "cn_pending (connection_start cn) = Reading"
  by (simp_all add: connection_init_def connection_stop_def connection_start_def)

lemma accept_inv:
  assumes "server_inv x s"
  shows "server_inv x (handle_accept e s)"
  using assms
  by (auto simp: server_inv_def handle_accept_def start_accept_def manager_start_def on_connection_def Let_def)

lemma stop_inv: "server_inv x s \<Longrightarrow> server_inv x (handle_stop s)"
  by (auto simp: server_inv_def handle_stop_def manager_stop_all_def)

lemma received_inv:
  assumes "connection_inv x cn" and "cn_pending cn = Reading"
    and "connection_received x bytes (c, cn\<lparr>cn_pending := No_op\<rparr>) = Inr (c', cn')"
  shows "connection_inv x cn'" "cn_open cn' = cn_open cn" "cn_pending cn' \<noteq> No_op"
proof -
  let ?init = "(Method_start, request_init)"
  have p: "fst (parse ?init (cn_received cn)) = Continue (cn_parser cn)" "cn_reply cn = reply_init" "cn_written cn = []"
    using assms(1,2) by (simp_all add: connection_inv_def)
  then have "fst (parse ?init (cn_received cn @ bytes)) = fst (parse (cn_parser cn) bytes)"
    by (cases "parse ?init (cn_received cn)") (simp add: parse_def run_append)
  then show "connection_inv x cn'" "cn_open cn' = cn_open cn" "cn_pending cn' \<noteq> No_op"
    using assms(3) p
    by (auto simp: connection_received_def connection_inv_def answers_def rmap_eq_Inr Let_def
        split: outcome.splits sum.splits prod.splits if_splits) blast
qed

lemma finished_inv:
  assumes "connection_inv x cn" and "cn_pending cn = Writing t"
  shows "connection_inv x ((written cn)\<lparr>cn_pending := No_op\<rparr>)" "connection_inv x (cn\<lparr>cn_pending := No_op\<rparr>)"
    "cn_open (written cn) = cn_open cn"
  using assms by (auto simp: connection_inv_def written_def)

lemma server_inv_update:
  assumes "server_inv x s" and "i < sv_next s \<or> i = sv_next s \<and> \<not> sv_acceptor s" and "connection_inv x cn"
    and "cn_open cn = cn_open (sv_connections s i)" and "cn_pending (sv_connections s i) \<noteq> No_op"
  shows "cn_pending cn \<noteq> No_op \<or> \<not> cn_open cn \<Longrightarrow>
      server_inv x (s\<lparr>sv_connections := (sv_connections s)(i := cn), sv_context := c\<rparr>)"
    and "server_inv x (s\<lparr>sv_connections := (sv_connections s)(i := connection_stop cn),
      sv_managed := sv_managed s - {i}, sv_context := c\<rparr>)"
  using assms by (auto simp: server_inv_def)

lemma pending_is_accepted:
  assumes "server_inv x s" and "cn_pending (sv_connections s i) \<noteq> No_op"
  shows "i < sv_next s \<or> i = sv_next s \<and> \<not> sv_acceptor s"
  using assms by (auto simp: server_inv_def) (metis connection_init_simps(2) linorder_neqE_nat)+

lemma read_inv:
  assumes "server_inv x s" and "enabled s (Read_done i e bytes)" and "handle_read x i e bytes s = Inr s'"
  shows "server_inv x s'"
proof -
  let ?cn = "sv_connections s i"
  have cn: "cn_pending ?cn = Reading" "connection_inv x ?cn" "e = Operation_aborted \<Longrightarrow> \<not> cn_open ?cn"
    using assms(1,2) by (auto simp: server_inv_def)
  note i = pending_is_accepted [OF assms(1), of i]
  have noop: "connection_inv x (?cn\<lparr>cn_pending := No_op\<rparr>)"
    using cn(1,2) by (simp add: connection_inv_def)
  note upd = server_inv_update [OF assms(1), where i = i, unfolded cn(1)]
  show ?thesis
  proof (cases e)
    case No_error
    with assms(3) obtain c cn' where
      r: "connection_received x bytes (sv_context s, ?cn\<lparr>cn_pending := No_op\<rparr>) = Inr (c, cn')" and
      s': "s' = s\<lparr>sv_connections := (sv_connections s)(i := cn'), sv_context := c\<rparr>"
      by (auto simp: handle_read_def on_connection_def rmap_eq_Inr)
    show ?thesis
      unfolding s' using received_inv [OF cn(2,1) r] i cn(1) by (intro upd(1)) auto
  next
    case Operation_aborted
    with assms(3) have s': "s' = s\<lparr>sv_connections := (sv_connections s)(i := ?cn\<lparr>cn_pending := No_op\<rparr>),
        sv_context := sv_context s\<rparr>"
      by (cases s) (auto simp: handle_read_def on_connection_def)
    show ?thesis unfolding s' using i cn noop Operation_aborted by (intro upd(1)) auto
  next
    case Other_error
    with assms(3) have s': "s' = s\<lparr>sv_connections := (sv_connections s)(i := connection_stop (?cn\<lparr>cn_pending := No_op\<rparr>)),
        sv_managed := sv_managed s - {i}, sv_context := sv_context s\<rparr>"
      by (cases s) (auto simp: handle_read_def on_connection_def manager_stop_def)
    show ?thesis unfolding s' using i cn noop by (intro upd(2)) auto
  qed
qed

lemma write_inv:
  assumes "server_inv x s" and "enabled s (Write_done i e)"
  shows "server_inv x (handle_write i e s)"
proof -
  let ?cn = "sv_connections s i"
  obtain t where cn: "cn_pending ?cn = Writing t" "connection_inv x ?cn" "e = Operation_aborted \<Longrightarrow> \<not> cn_open ?cn"
    using assms by (auto simp: server_inv_def split: pending.splits)
  note i = pending_is_accepted [OF assms(1), of i]
  note fin = finished_inv [OF cn(2,1)]
  note upd = server_inv_update [OF assms(1), where i = i, unfolded cn(1), where c = "sv_context s"]
  show ?thesis
  proof (cases e)
    case No_error
    then have "handle_write i e s = s\<lparr>sv_connections := (sv_connections s)(i := connection_stop ((written ?cn)\<lparr>cn_pending := No_op\<rparr>)),
        sv_managed := sv_managed s - {i}, sv_context := sv_context s\<rparr>"
      by (cases s) (simp add: handle_write_def on_connection_def manager_stop_def)
    then show ?thesis using i cn fin upd(2) by (auto simp del: fun_upd_apply)
  next
    case Operation_aborted
    then have "handle_write i e s = s\<lparr>sv_connections := (sv_connections s)(i := ?cn\<lparr>cn_pending := No_op\<rparr>), sv_context := sv_context s\<rparr>"
      by (cases s) (simp add: handle_write_def on_connection_def)
    then show ?thesis using i cn fin Operation_aborted upd(1) by (auto simp del: fun_upd_apply)
  next
    case Other_error
    then have "handle_write i e s = s\<lparr>sv_connections := (sv_connections s)(i := connection_stop (?cn\<lparr>cn_pending := No_op\<rparr>)),
        sv_managed := sv_managed s - {i}, sv_context := sv_context s\<rparr>"
      by (cases s) (simp add: handle_write_def on_connection_def manager_stop_def)
    then show ?thesis using i cn fin upd(2) by (auto simp del: fun_upd_apply)
  qed
qed

lemma server_inv_init: "server_inv x server_init"
  by (auto simp: server_inv_def server_init_def start_accept_def)

lemma server_step_inv: "server_step x s ev s' \<Longrightarrow> server_inv x s \<Longrightarrow> server_inv x s'"
  by (erule server_stepE, cases ev) (auto intro: accept_inv stop_inv write_inv read_inv)

lemma reachable_inv: "reachable x s \<Longrightarrow> server_inv x s"
  by (induction rule: reachable.induct) (auto intro: server_inv_init server_step_inv)

text \<open>
  Claim C15.  The manager knows the connections: in every reachable state the managed connections
  are those whose socket is open and which wait for an operation to complete; the server always
  waits for another connection until it is told to stop, and then it manages none.
\<close>

theorem server_manages_connections:
  assumes "reachable x s"
  shows "(i \<in> sv_managed s \<longleftrightarrow> cn_open (sv_connections s i) \<and> cn_pending (sv_connections s i) \<noteq> No_op)
    \<and> (sv_acceptor s \<longrightarrow> sv_accepting s) \<and> (\<not> sv_acceptor s \<longrightarrow> sv_managed s = {})"
  using reachable_inv [OF assms] by (auto simp: server_inv_def)

text \<open>
  Claim C16.  A connection is answered once, and the pieces in which the request arrived do not
  matter: what has been written on it is at most one reply, and that is the answer to the
  concatenation of all that was received.
\<close>

theorem server_answers_once:
  assumes "reachable x s"
  shows "length (cn_written (sv_connections s i)) \<le> 1
    \<and> list_all (answers x (cn_received (sv_connections s i))) (cn_written (sv_connections s i))"
proof -
  have "connection_inv x (sv_connections s i)" using reachable_inv [OF assms] by (simp add: server_inv_def)
  then show ?thesis by (auto simp: connection_inv_def split: pending.splits)
qed

text \<open>A run of the server on events that can happen.\<close>

fun enabled_run :: "http_env \<Rightarrow> server_event list \<Rightarrow> server \<Rightarrow> server option" where
  "enabled_run x [] s = Some s"
| "enabled_run x (ev # evs) s =
     (if enabled s ev
      then case server_handle x ev s of Inr s' \<Rightarrow> enabled_run x evs s' | Inl _ \<Rightarrow> None
      else None)"

lemma enabled_run_reachable: "enabled_run x evs s = Some s' \<Longrightarrow> reachable x s \<Longrightarrow> reachable x s'"
  by (induction evs arbitrary: s)
    (auto split: if_splits sum.splits intro: reachable.step server_step.step)

definition example_events :: "server_event list" where
  "example_events = [Accepted No_error, Read_done 1 No_error ''GET /a'',
     Read_done 1 No_error (''.html HTTP/1.0'' @ crlf @ crlf)]"

lemma example_run:
  "\<exists>s. enabled_run example_env example_events server_init = Some s \<and> cn_pending (sv_connections s 1) \<noteq> No_op
     \<and> cn_open (sv_connections s 1)"
  "\<exists>s. enabled_run example_env (example_events @ [Write_done 1 No_error]) server_init = Some s
     \<and> cn_received (sv_connections s 1) = ''GET /a.html HTTP/1.0'' @ crlf @ crlf
     \<and> cn_written (sv_connections s 1) = [''HTTP/1.0 200 OK'' @ crlf @ ''Content-Length: 5'' @ crlf
          @ ''Content-Type: text/html'' @ crlf @ crlf @ ''hello'']"
proof -
  have "case enabled_run example_env example_events server_init of
      Some s \<Rightarrow> cn_pending (sv_connections s 1) \<noteq> No_op \<and> cn_open (sv_connections s 1) | None \<Rightarrow> False"
    by code_simp
  then show "\<exists>s. enabled_run example_env example_events server_init = Some s \<and> cn_pending (sv_connections s 1) \<noteq> No_op
     \<and> cn_open (sv_connections s 1)"
    by (auto split: option.splits)
  have "case enabled_run example_env (example_events @ [Write_done 1 No_error]) server_init of
      Some s \<Rightarrow> cn_received (sv_connections s 1) = ''GET /a.html HTTP/1.0'' @ crlf @ crlf
        \<and> cn_written (sv_connections s 1) = [''HTTP/1.0 200 OK'' @ crlf @ ''Content-Length: 5'' @ crlf
          @ ''Content-Type: text/html'' @ crlf @ crlf @ ''hello''] | None \<Rightarrow> False"
    by code_simp
  then show "\<exists>s. enabled_run example_env (example_events @ [Write_done 1 No_error]) server_init = Some s
     \<and> cn_received (sv_connections s 1) = ''GET /a.html HTTP/1.0'' @ crlf @ crlf
     \<and> cn_written (sv_connections s 1) = [''HTTP/1.0 200 OK'' @ crlf @ ''Content-Length: 5'' @ crlf
          @ ''Content-Type: text/html'' @ crlf @ crlf @ ''hello'']"
    by (auto split: option.splits)
qed

theorem server_manages_connections_witness:
  "\<exists>s. enabled_run example_env example_events server_init = Some s \<and> 1 \<in> sv_managed s"
  using example_run(1) server_manages_connections enabled_run_reachable reachable.init by blast

theorem server_answers_once_witness:
  "answers example_env (''GET /a.html HTTP/1.0'' @ crlf @ crlf) (''HTTP/1.0 200 OK'' @ crlf @ ''Content-Length: 5'' @ crlf
          @ ''Content-Type: text/html'' @ crlf @ crlf @ ''hello'')"
proof -
  obtain s where s: "enabled_run example_env (example_events @ [Write_done 1 No_error]) server_init = Some s"
     "cn_received (sv_connections s 1) = ''GET /a.html HTTP/1.0'' @ crlf @ crlf"
     "cn_written (sv_connections s 1) = [''HTTP/1.0 200 OK'' @ crlf @ ''Content-Length: 5'' @ crlf
          @ ''Content-Type: text/html'' @ crlf @ crlf @ ''hello'']"
    using example_run(2) by blast
  from server_answers_once [OF enabled_run_reachable [OF s(1) reachable.init], of 1] s(2,3)
  show ?thesis by simp
qed

section \<open>A request that ends the server\<close>

lemma url_decode_plain: "list_all (\<lambda>c. c \<noteq> CHR ''%'' \<and> c \<noteq> CHR ''+'') s \<Longrightarrow> url_decode s = Some s"
  by (induction s) auto

lemma nodes_bad_size:
  assumes "list_all is_alnum v" and "lexical_cast_int v = Inl e" and "rc_loaded c"
    and "rq_uri req = ''/rest/nodes?size='' @ v"
  shows "handle_request x req (c, rep) = Inl e"
proof -
  let ?p = "''/rest/nodes?size='' @ v"
  have v: "CHR ''%'' \<notin> set v" "CHR ''+'' \<notin> set v" "CHR ''.'' \<notin> set v" "CHR ''&'' \<notin> set v" "CHR ''/'' \<notin> set v"
    using assms(1) by (auto simp: list_all_iff is_alnum_def is_digit_char_def is_upper_def)
  moreover have "v \<noteq> [] \<Longrightarrow> last v \<noteq> CHR ''/''" using v(5) last_in_set by metis
  ultimately have p: "url_decode ?p = Some ?p" "\<not> sublist ''..'' ?p" "last ?p \<noteq> CHR ''/''"
    using set_mono_sublist [of "''..''" ?p]
    by (auto intro!: url_decode_plain simp: list_all_iff last_append)
  have "split_on (CHR ''&'') (''size='' @ v) = [''size='' @ v]"
    using v by (intro split_on_no_sep) auto
  moreover have "CHR ''='' \<notin> set v"
    using assms(1) by (auto simp: list_all_iff is_alnum_def is_digit_char_def is_upper_def)
  then have "split_on (CHR ''='') (''size='' @ v) = [''size'', v]"
    using split_on_append [of "CHR ''=''" "''size''" v] by (simp add: split_on_no_sep)
  ultimately have "node_args_of (''size='' @ v) = Inl e"
    unfolding node_args_of_def using assms(2) by (simp add: node_arg_def del: split_on.simps append_Cons)
  moreover have "break_at (\<lambda>c. c = CHR ''?'') ?p = (''/rest/nodes'', ''?size='' @ v)"
    by (simp add: break_at_def)
  ultimately show ?thesis
    using assms(3,4) p
    by (simp add: handle_request_def RestHandler_isRest_def RestHandler_call_def rest_handlers_def RestHandler_add_def
        nodesHandler_def)
qed

text \<open>
  One request can end the server: once a machine is loaded, a read that completes with
  the request for \<open>/rest/nodes\<close> with a size that is not a number throws out of the handlers,
  \<open>main\<close> catches it, and the program ends with exit code 0, whatever would have happened next.
\<close>

theorem ui_bad_size_ends_server:
  assumes "server_run x evs = Inr s" and "rc_loaded (sv_context s)"
    and "cn_parser (sv_connections s i) = (Method_start, request_init)"
    and "list_all is_alnum v" and "lexical_cast_int v = Inl Bad_lexical_cast"
  shows "ui_main [prog, addr, port, dir] (Inr ()) (\<lambda>_. x)
      (evs @ Read_done i No_error (request_text ''GET'' (''/rest/nodes?size='' @ v) 1 0 []) # later) = Inr 0"
proof -
  let ?uri = "''/rest/nodes?size='' @ v"
  have "list_all (\<lambda>c. text_char c \<and> c \<noteq> CHR '' '') v"
    using assms(4)
    by (rule list.pred_mono_strong)
      (auto simp: is_alnum_def is_digit_char_def is_upper_def text_char_def is_ctl_def signed_char_def)
  then have "good_request ''GET'' ?uri 1 0 []"
    by (simp add: good_request_def token_char_def not_token_def is_char_def is_ctl_def is_tspecial_def
        signed_char_def text_char_def)
  from parse_request [OF this, of "[]"]
  have "fst (parse (Method_start, request_init) (request_text ''GET'' ?uri 1 0 [])) = Stop (Inr (True, request_of ''GET'' ?uri 1 0 []))"
    by simp
  with assms nodes_bad_size [OF assms(4,5,2), of "request_of ''GET'' ?uri 1 0 []" x]
  have "handle_read x i No_error (request_text ''GET'' ?uri 1 0 []) s = Inl Bad_lexical_cast"
    by (simp add: handle_read_def connection_received_def on_connection_def request_of_def)
  with assms(1) show ?thesis
    by (simp add: ui_main_def server_run_def rfold_append)
qed

theorem ui_bad_size_ends_server_witness:
  "ui_main [''ui'', ''localhost'', ''80'', ''www''] (Inr ()) (\<lambda>_. example_env\<lparr>rx_file := \<lambda>_. Some ''{}''\<rparr>)
     ([Accepted No_error, Read_done 1 No_error (request_text ''GET'' ''/rest/load?file=m'' 1 0 []),
       Write_done 1 No_error, Accepted No_error]
      @ Read_done 2 No_error (request_text ''GET'' (''/rest/nodes?size='' @ ''big'') 1 0 []) # [Signalled]) = Inr 0"
proof -
  let ?x = "example_env\<lparr>rx_file := \<lambda>_. Some ''{}''\<rparr>"
  have "case server_run ?x [Accepted No_error, Read_done 1 No_error (request_text ''GET'' ''/rest/load?file=m'' 1 0 []),
       Write_done 1 No_error, Accepted No_error] of
     Inr s \<Rightarrow> rc_loaded (sv_context s) \<and> cn_parser (sv_connections s 2) = (Method_start, request_init) | Inl _ \<Rightarrow> False"
    by code_simp
  then obtain s where s: "server_run ?x [Accepted No_error, Read_done 1 No_error (request_text ''GET'' ''/rest/load?file=m'' 1 0 []),
       Write_done 1 No_error, Accepted No_error] = Inr s"
    "rc_loaded (sv_context s)" "cn_parser (sv_connections s 2) = (Method_start, request_init)"
    by (auto split: sum.splits)
  have "list_all is_alnum ''big''" "lexical_cast_int ''big'' = Inl Bad_lexical_cast" by code_simp+
  from ui_bad_size_ends_server [OF s this] show ?thesis .
qed

end
