(* ===== verification/Build.thy ===== *)
theory Build
  imports Workers Task_Monitor
begin

text \<open>
  The build machine (\<open>build/\<close>): \<open>polldir\<close> and \<open>pollgit\<close> send a message when a directory or a
  repository has changed, \<open>workbash\<close> waits until no more messages come, runs a command and has
  \<open>MakeAnalyser\<close> read its log, and \<open>sinkbuild\<close> prints what it gets.

  Arguments of the model are the CRC of Boost, the directories as they are at each look, what
  libgit2 and \<open>git pull\<close> answer, the logs of the builds, and msgpack.
\<close>

section \<open>MakeAnalyser\<close>

text \<open>\<open>regex_search\<close>: at some position of the line the pattern matches.\<close>

fun search :: "(string \<Rightarrow> bool) \<Rightarrow> string \<Rightarrow> bool" where
  "search p [] = p []"
| "search p (c # cs) = (p (c # cs) \<or> search p cs)"

text \<open>The patterns; a dot stands for any character.\<close>

definition starts_with_dots :: "string \<Rightarrow> nat \<Rightarrow> string \<Rightarrow> bool" where
  "starts_with_dots lit dots s \<longleftrightarrow> prefix lit s \<and> length lit + dots \<le> length s"

definition reBuilding :: "string \<Rightarrow> bool" where
  "reBuilding = search (starts_with_dots '' Built target '' 0)"

definition reInstalling :: "string \<Rightarrow> bool" where
  "reInstalling = search (starts_with_dots ''Install the project'' 3)"

definition reTesting :: "string \<Rightarrow> bool" where
  "reTesting = search (starts_with_dots ''Running tests'' 3)"

definition reGood :: "string \<Rightarrow> bool" where
  "reGood = search (starts_with_dots ''100% tests passed, 0 tests failed out of '' 0)"

definition reBad :: "string \<Rightarrow> bool" where
  "reBad = search (\<lambda>s. starts_with_dots '' tests passed, '' 0 s
     \<and> search (starts_with_dots '' tests failed out of '' 0) (drop 15 s))"

datatype make_state = MK_START | MK_BUILDING | MK_INSTALLING | MK_TESTING | MK_FINISHED

record BuildStatus =
  bs_workDone :: bool
  bs_success :: bool

definition matchOne :: "string \<Rightarrow> (string \<Rightarrow> bool) \<Rightarrow> make_state \<Rightarrow> make_state \<Rightarrow> bool \<times> make_state" where
  "matchOne l re state next = (if re l then (True, next) else (False, state))"

definition make_line :: "string \<Rightarrow> make_state \<times> BuildStatus \<Rightarrow> make_state \<times> BuildStatus" where
  "make_line l = (\<lambda>(state, status).
     case state of
       MK_START \<Rightarrow> (snd (matchOne l reBuilding state MK_BUILDING), status)
     | MK_BUILDING \<Rightarrow> (snd (matchOne l reInstalling state MK_INSTALLING), status\<lparr>bs_workDone := True\<rparr>)
     | MK_INSTALLING \<Rightarrow> (snd (matchOne l reTesting state MK_TESTING), status)
     | MK_TESTING \<Rightarrow>
         (let (good, state') = matchOne l reGood state MK_FINISHED in
          if good then (state', status\<lparr>bs_success := True\<rparr>)
          else (snd (matchOne l reBad state MK_FINISHED), status))
     | MK_FINISHED \<Rightarrow> (state, status))"

fun analyse_lines :: "string list \<Rightarrow> make_state \<times> BuildStatus \<Rightarrow> BuildStatus" where
  "analyse_lines [] s = snd s"
| "analyse_lines (l # ls) s = (if fst s = MK_FINISHED then snd s else analyse_lines ls (make_line l s))"

text \<open>The lines that \<open>getline\<close> reads.\<close>

definition lines_of :: "string \<Rightarrow> string list" where
  "lines_of text = (let ps = split_on (CHR 0x0A) text in if last ps = [] then butlast ps else ps)"

definition MakeAnalyser_analyse :: "string \<Rightarrow> BuildStatus" where
  "MakeAnalyser_analyse text =
     analyse_lines (lines_of text) (MK_START, \<lparr>bs_workDone = False, bs_success = False\<rparr>)"

section \<open>FileModChecker\<close>

text \<open>A directory with what is in it, in the order of the directory iterator; a file has its name and
  the time it was last written.\<close>

datatype dir_entry = Dir string "dir_entry list" | File string int

text \<open>\<open>path::extension\<close> of a file name: from its last dot.\<close>

definition extension_of :: "string \<Rightarrow> string" where
  "extension_of f =
     (if f \<in> {''.'', ''..''} \<or> CHR ''.'' \<notin> set f then []
      else CHR ''.'' # rev (takeWhile (\<lambda>c. c \<noteq> CHR ''.'') (rev f)))"

text \<open>A path is written to a stream in quotes, with quotes and ampersands escaped.\<close>

definition quoted_path :: "string \<Rightarrow> string" where
  "quoted_path f =
     [CHR 0x22] @ concat (map (\<lambda>c. if c = CHR 0x22 \<or> c = CHR ''&'' then [CHR ''&'', c] else [c]) f) @ [CHR 0x22]"

text \<open>The bytes that are added to the CRC.\<close>

definition file_bytes :: "string \<Rightarrow> int \<Rightarrow> string res" where
  "file_bytes f time =
     (if extension_of f = ''.cpp'' \<or> extension_of f = ''.hpp''
      then let s = quoted_path f @ show_int time in
           if length s \<ge> 64 then Inl (Thrown_pointer ''buf too large for CRC.'') else Inr s
      else Inr [])"

fun doDirCrc :: "string \<Rightarrow> dir_entry list \<Rightarrow> string res"
  and doEntriesCrc :: "dir_entry list \<Rightarrow> string res" where
  "doDirCrc name es = (if name = ''bin'' then Inr [] else doEntriesCrc es)"
| "doEntriesCrc [] = Inr []"
| "doEntriesCrc (Dir name es' # es) =
     rbind (if name = ''bin'' then Inr [] else doEntriesCrc es') (\<lambda>a. rmap (\<lambda>b. a @ b) (doEntriesCrc es))"
| "doEntriesCrc (File f time # es) = rbind (file_bytes f time) (\<lambda>a. rmap (\<lambda>b. a @ b) (doEntriesCrc es))"

definition to_int64 :: "int \<Rightarrow> int" where
  "to_int64 x = (x + 9223372036854775808) mod 18446744073709551616 - 9223372036854775808"

definition FileModChecker_getCrc :: "(string \<Rightarrow> int) \<Rightarrow> string \<Rightarrow> dir_entry list \<Rightarrow> int res" where
  "FileModChecker_getCrc checksum name es = rmap (\<lambda>bytes. to_int64 (checksum bytes)) (doDirCrc name es)"

section \<open>polldir\<close>

record 'm poll_worker =
  pw_lastCrc :: int
  pw_msgNum :: int
  pw_naps :: nat
  pw_vent :: "'m vent_state"

text \<open>\<open>send\<close> of both pollers; \<open>clk i\<close> is the clock at message \<open>i\<close>.\<close>

definition poller_send ::
  "('m, StringMsg) codec \<Rightarrow> (int \<Rightarrow> int) \<Rightarrow> string \<Rightarrow> int \<Rightarrow> 'm vent_state \<Rightarrow> (int \<times> 'm vent_state) res" where
  "poller_send c clk dir msgid vs =
     rbind (Poll_send (Msg_set c (DataMsg_make msgid (clk msgid) dir)) 0 0 vs) (\<lambda>(_, vs').
     rmap (\<lambda>n. (n, vs')) (add_int32 msgid 1))"

text \<open>One look at the directory, in \<open>waitEvent\<close>, and what follows it in \<open>Poll::process\<close>: the event has
  the entries of the directory and whether a signal has come by the end of the turn.\<close>

definition polldir_turn ::
  "(string \<Rightarrow> int) \<Rightarrow> ('m, StringMsg) codec \<Rightarrow> (int \<Rightarrow> int) \<Rightarrow> string \<Rightarrow> string \<Rightarrow> 'm poll_worker \<Rightarrow>
   dir_entry list \<times> bool \<Rightarrow> ('m poll_worker, (bool \<times> 'm poll_worker) res) outcome" where
  "polldir_turn checksum c clk dir name w ev =
     (let (es, quit) = ev in
      outcome_of
        (rbind (FileModChecker_getCrc checksum name es) (\<lambda>crc.
           if crc = pw_lastCrc w then Inr (Continue (w\<lparr>pw_naps := Suc (pw_naps w)\<rparr>))
           else rmap (\<lambda>(n, vs).
                  let w' = w\<lparr>pw_lastCrc := crc, pw_msgNum := n, pw_vent := vs\<rparr>
                  in if quit then Stop (Inr (False, w')) else Continue w')
                (poller_send c clk dir (pw_msgNum w) (pw_vent w)))))"

text \<open>The constructor's parameter is an \<open>int\<close>, so the first CRC is converted to 32 bits.\<close>

definition polldir_PWorker :: "int \<Rightarrow> 'm vent_state \<Rightarrow> 'm poll_worker" where
  "polldir_PWorker crc vs = \<lparr>pw_lastCrc = to_int32 crc, pw_msgNum = 0, pw_naps = 0, pw_vent = vs\<rparr>"

definition poll_ports :: "port_step list" where
  "poll_ports = [Join ''pushTo'']"

text \<open>A \<open>main\<close>: \<open>Continue\<close> where it still polls, and otherwise the exit code or the exception that ends
  it.  \<open>name\<close> is the last element of the path of the directory, \<open>es0\<close> what is in it at the start.\<close>

definition polldir_main ::
  "json_reader \<Rightarrow> main_args \<Rightarrow> (string \<Rightarrow> socket) \<Rightarrow> (string \<Rightarrow> int) \<Rightarrow> ('m, StringMsg) codec \<Rightarrow> (int \<Rightarrow> int) \<Rightarrow>
   string \<Rightarrow> dir_entry list \<Rightarrow> (dir_entry list \<times> bool) list \<Rightarrow> 'm vent_state \<Rightarrow> ('m poll_worker, int res) outcome" where
  "polldir_main reader args socks checksum c clk name es0 evs vs =
     (case setup_main reader args of
        None \<Rightarrow> Stop (Inr 1)
      | Some (pipes, r, _) \<Rightarrow>
          outcome_of
            (rbind (open_ports socks pipes poll_ports) (\<lambda>ok.
             if \<not> ok then Inr (Stop (Inr 1))
             else rbind (JsonObject_getString r ''dir'') (\<lambda>dir.
                  rbind (JsonObject_getInt r ''sleeptime'' 1000) (\<lambda>_.
                  rmap (\<lambda>crc.
                    case fst (run (polldir_turn checksum c clk dir name) (polldir_PWorker crc vs) evs) of
                      Continue w \<Rightarrow> Continue w
                    | Stop r \<Rightarrow> Stop (rmap (\<lambda>(ok, _). exit_code ok) r))
                    (FileModChecker_getCrc checksum name es0))))))"

section \<open>Git and pollgit\<close>

text \<open>What libgit2 and the shell answer at one poll.\<close>

record git_answers =
  ga_exists :: bool
  ga_open :: int
  ga_config :: int
  ga_get :: int
  ga_url :: string
  ga_pull :: "string option"
  ga_clone :: int

definition Git_shellPull :: "git_answers \<Rightarrow> bool" where
  "Git_shellPull a = (case ga_pull a of None \<Rightarrow> True | Some output \<Rightarrow> output \<noteq> ''Already up-to-date.'' @ nl)"

definition Git_poll :: "git_answers \<Rightarrow> string \<Rightarrow> bool" where
  "Git_poll a repos =
     (if ga_exists a then
        (let ret = ga_open a in
         if ret \<noteq> 0 then ret \<noteq> 0
         else let ret = ga_config a in
         if ret \<noteq> 0 then ret \<noteq> 0
         else let ret = ga_get a in
         if ret \<noteq> 0 then ret \<noteq> 0
         else if repos \<noteq> ga_url a then ret \<noteq> 0
         else Git_shellPull a)
      else True)"

text \<open>One turn: the event says whether a signal has come before the poll, what git answers, and whether
  a signal has come after the message was sent.\<close>

definition pollgit_turn ::
  "('m, StringMsg) codec \<Rightarrow> (int \<Rightarrow> int) \<Rightarrow> string \<Rightarrow> string \<Rightarrow> 'm poll_worker \<Rightarrow> bool \<times> git_answers \<times> bool \<Rightarrow>
   ('m poll_worker, (bool \<times> 'm poll_worker) res) outcome" where
  "pollgit_turn c clk folder repos w ev =
     (let (quit_head, a, quit) = ev in
      if quit_head then Stop (Inr (True, w))
      else if Git_poll a repos
      then outcome_of
             (rmap (\<lambda>(n, vs).
                let w' = w\<lparr>pw_msgNum := n, pw_vent := vs\<rparr>
                in if quit then Stop (Inr (False, w')) else Continue w')
              (poller_send c clk folder (pw_msgNum w) (pw_vent w)))
      else Continue (w\<lparr>pw_naps := Suc (pw_naps w)\<rparr>))"

definition pollgit_main ::
  "json_reader \<Rightarrow> main_args \<Rightarrow> (string \<Rightarrow> socket) \<Rightarrow> ('m, StringMsg) codec \<Rightarrow> (int \<Rightarrow> int) \<Rightarrow>
   (bool \<times> git_answers \<times> bool) list \<Rightarrow> 'm vent_state \<Rightarrow> ('m poll_worker, int res) outcome" where
  "pollgit_main reader args socks c clk evs vs =
     (case setup_main reader args of
        None \<Rightarrow> Stop (Inr 1)
      | Some (pipes, r, _) \<Rightarrow>
          outcome_of
            (rbind (open_ports socks pipes poll_ports) (\<lambda>ok.
             if \<not> ok then Inr (Stop (Inr 1))
             else rbind (JsonObject_getString r ''folder'') (\<lambda>folder.
                  rbind (JsonObject_getString r ''repos'') (\<lambda>repos.
                  rmap (\<lambda>_.
                    case fst (run (pollgit_turn c clk folder repos)
                           \<lparr>pw_lastCrc = 0, pw_msgNum = 0, pw_naps = 0, pw_vent = vs\<rparr> evs) of
                      Continue w \<Rightarrow> Continue w
                    | Stop r \<Rightarrow> Stop (rmap (\<lambda>(ok, _). exit_code ok) r))
                    (JsonObject_getInt r ''sleeptime'' 1000))))))"

section \<open>workbash\<close>

record 'm bash_worker =
  wb_msgid :: int
  wb_task :: task_state
  wb_sender :: "'m worker_state"

definition workbash_processMsg :: "('m, StringMsg) codec \<Rightarrow> 'm \<Rightarrow> 'm bash_worker \<Rightarrow> 'm bash_worker res" where
  "workbash_processMsg c message w = rmap (\<lambda>msg. w\<lparr>wb_msgid := DataMsg_getId msg\<rparr>) (Msg_of_message c message)"

text \<open>Sending to the sink; the errors of the socket are caught.\<close>

definition bash_send :: "('m, StringMsg) codec \<Rightarrow> StringMsg \<Rightarrow> 'm worker_state \<Rightarrow> 'm worker_state res" where
  "bash_send c smsg s =
     (let (out, env) = (case wk_env s of [] \<Rightarrow> (Inr (), []) | e # es \<Rightarrow> (e, es)) in
      catch_zmq (s\<lparr>wk_env := env\<rparr>)
        (rmap (\<lambda>_. s\<lparr>wk_env := env, wk_sent := wk_sent s @ [Msg_set c smsg]\<rparr>) out))"

text \<open>\<open>timeout\<close>: \<open>logs k\<close> is the log file after the build number \<open>k\<close>.\<close>

definition workbash_timeout ::
  "('m, StringMsg) codec \<Rightarrow> (nat \<Rightarrow> int) \<Rightarrow> (nat \<Rightarrow> string) \<Rightarrow> string \<Rightarrow> 'm bash_worker \<Rightarrow> 'm bash_worker res" where
  "workbash_timeout c fork logs cmd w =
     (if wb_msgid w \<ge> 0 then
        (case ExeRunner_run fork cmd (wb_task w) of
           (Inl e, t) \<Rightarrow> Inl e
         | (Inr pid, t) \<Rightarrow>
             (let t' = TaskMonitor_waitFinish [pid] t;
                  stat = MakeAnalyser_analyse (logs (length (ts_cmds t)));
                  smsg = DataMsg_make (wb_msgid w) 0 (if bs_workDone stat \<and> bs_success stat then ''success'' else ''failed'')
              in rmap (\<lambda>s. w\<lparr>wb_task := t', wb_sender := s, wb_msgid := -1\<rparr>) (bash_send c smsg (wb_sender w))))
      else Inr w)"

definition workbash_worker ::
  "('m, StringMsg) codec \<Rightarrow> (nat \<Rightarrow> int) \<Rightarrow> (nat \<Rightarrow> string) \<Rightarrow> string \<Rightarrow> int \<Rightarrow> ('m, 'm bash_worker) IWorkWorker" where
  "workbash_worker c fork logs cmd sleeptime =
     \<lparr>iww_processMsg = workbash_processMsg c, iww_getTimeout = \<lambda>_. sleeptime,
      iww_timeout = workbash_timeout c fork logs cmd\<rparr>"

definition bash_init :: "unit res list \<Rightarrow> 'm bash_worker" where
  "bash_init env = \<lparr>wb_msgid = -1, wb_task = task_init, wb_sender = worker_init env\<rparr>"

definition workbash_ports :: "port_step list" where
  "workbash_ports = [Join ''pullFrom'', Join ''control'', Join ''pushTo'']"

definition workbash_main ::
  "json_reader \<Rightarrow> main_args \<Rightarrow> (string \<Rightarrow> socket) \<Rightarrow> ('m, KillMsg) codec \<Rightarrow> 'm \<Rightarrow> ('m, StringMsg) codec \<Rightarrow>
   (nat \<Rightarrow> int) \<Rightarrow> (nat \<Rightarrow> string) \<Rightarrow> (string \<Rightarrow> unit res) \<Rightarrow> unit res list \<Rightarrow> 'm work_turn list \<Rightarrow>
   ('m bash_worker, int res) outcome" where
  "workbash_main reader args socks kc no_msg c fork logs chdir env evs =
     (case setup_main reader args of
        None \<Rightarrow> Stop (Inr 1)
      | Some (pipes, r, _) \<Rightarrow>
          outcome_of
            (rbind (open_ports socks pipes workbash_ports) (\<lambda>ok.
             if \<not> ok then Inr (Stop (Inr 1))
             else rbind (JsonObject_getString r ''dir'') (\<lambda>dir.
                  rbind (chdir dir) (\<lambda>_.
                  rbind (JsonObject_getString r ''cmd'') (\<lambda>cmd.
                  rbind (JsonObject_getString r ''logfile'') (\<lambda>logfile.
                  rmap (\<lambda>sleeptime.
                    case fst (Work_process kc no_msg (workbash_worker c fork logs cmd sleeptime) (bash_init env) evs) of
                      Continue w \<Rightarrow> Continue w
                    | Stop r \<Rightarrow> Stop (rmap (\<lambda>_. 0) r))
                    (JsonObject_getInt r ''sleeptime'' 1000))))))))"

section \<open>sinkbuild\<close>

text \<open>What it logs; an event is what the socket gives and whether a signal has come.\<close>

definition sinkbuild_turn ::
  "('m \<Rightarrow> string res) \<Rightarrow> 'm \<Rightarrow> string list \<Rightarrow> 'm res \<times> bool \<Rightarrow> (string list, (string list) res) outcome" where
  "sinkbuild_turn unpack_any no_msg logged ev =
     (let (rcv, interrupted) = ev in
      outcome_of
        (rbind (catch_zmq no_msg rcv) (\<lambda>message.
           if interrupted then Inr (Stop (Inr logged))
           else rmap (\<lambda>obj. Continue (logged @ [obj])) (unpack_any message))))"

definition sinkbuild_main ::
  "json_reader \<Rightarrow> string list \<Rightarrow> (string \<Rightarrow> socket) \<Rightarrow> ('m \<Rightarrow> string res) \<Rightarrow> 'm \<Rightarrow> ('m res \<times> bool) list \<Rightarrow>
   (string list, int res) outcome" where
  "sinkbuild_main reader argv socks unpack_any no_msg evs =
     (if length argv \<noteq> 4 then Stop (Inr 1)
      else case JsonObject_read reader Null (argv ! 1) of
             (False, _) \<Rightarrow> Stop (Inr 1)
           | (True, pipes) \<Rightarrow>
               (case JsonObject_read reader Null (argv ! 2) of
                  (False, _) \<Rightarrow> Stop (Inr 1)
                | (True, r) \<Rightarrow>
                    (case open_ports socks pipes [Join ''pullFrom'', Join ''control''] of
                       Inl e \<Rightarrow> Stop (Inl e)
                     | Inr ok \<Rightarrow>
                         if \<not> ok then Stop (Inr 1)
                         else case fst (run (sinkbuild_turn unpack_any no_msg) [] evs) of
                                Continue l \<Rightarrow> Continue l
                              | Stop r \<Rightarrow> Stop (rmap (\<lambda>_. 0) r))))"

section \<open>The verdict on a build\<close>

text \<open>\<open>R\<close> holds of the lines after the first one that satisfies \<open>Q\<close>, where the lines before it are
  not \<open>Bad\<close> either.\<close>

definition after_first ::
  "(string \<Rightarrow> bool) \<Rightarrow> (string \<Rightarrow> bool) \<Rightarrow> (string list \<Rightarrow> bool) \<Rightarrow> string list \<Rightarrow> bool" where
  "after_first Q Bad R ls \<longleftrightarrow> (\<exists>a l b. ls = a @ l # b \<and> list_all (\<lambda>x. \<not> Q x \<and> \<not> Bad x) a \<and> Q l \<and> R b)"

lemma after_first_simps [simp]:
  "\<not> after_first Q Bad R []"
  "after_first Q Bad R (x # xs) \<longleftrightarrow> (if Q x then R xs else \<not> Bad x \<and> after_first Q Bad R xs)"
proof -
  show "after_first Q Bad R (x # xs) \<longleftrightarrow> (if Q x then R xs else \<not> Bad x \<and> after_first Q Bad R xs)"
  proof
    assume "after_first Q Bad R (x # xs)"
    then obtain a l b where "x # xs = a @ l # b" "list_all (\<lambda>x. \<not> Q x \<and> \<not> Bad x) a" "Q l" "R b"
      by (auto simp: after_first_def)
    then show "if Q x then R xs else \<not> Bad x \<and> after_first Q Bad R xs"
      by (cases a) (auto simp: after_first_def)
  next
    assume r: "if Q x then R xs else \<not> Bad x \<and> after_first Q Bad R xs"
    show "after_first Q Bad R (x # xs)"
    proof (cases "Q x")
      case True
      with r show ?thesis by (auto simp: after_first_def intro: exI [of _ "[]"])
    next
      case False
      with r obtain a l b where "xs = a @ l # b" "list_all (\<lambda>x. \<not> Q x \<and> \<not> Bad x) a" "Q l" "R b" "\<not> Bad x"
        by (auto simp: after_first_def)
      with False have "x # xs = (x # a) @ l # b" "list_all (\<lambda>x. \<not> Q x \<and> \<not> Bad x) (x # a)" "Q l" "R b" by auto
      then show ?thesis unfolding after_first_def by blast
    qed
  qed
qed (simp add: after_first_def)

definition good_log :: "string list \<Rightarrow> bool" where
  "good_log = after_first reBuilding (\<lambda>_. False) (after_first reInstalling (\<lambda>_. False)
     (after_first reTesting (\<lambda>_. False) (after_first reGood reBad (\<lambda>_. True))))"

lemma analyse_testing:
  "bs_success (analyse_lines ls (MK_TESTING, st)) \<longleftrightarrow> bs_success st \<or> after_first reGood reBad (\<lambda>_. True) ls"
  "bs_workDone (analyse_lines ls (MK_TESTING, st)) = bs_workDone st"
proof -
  have fin: "analyse_lines ls (MK_FINISHED, st) = st" for ls st by (cases ls) auto
  show "bs_success (analyse_lines ls (MK_TESTING, st)) \<longleftrightarrow> bs_success st \<or> after_first reGood reBad (\<lambda>_. True) ls"
    by (induction ls arbitrary: st) (auto simp: make_line_def matchOne_def fin)
  show "bs_workDone (analyse_lines ls (MK_TESTING, st)) = bs_workDone st"
    by (induction ls arbitrary: st) (auto simp: make_line_def matchOne_def fin)
qed

lemma analyse_installing:
  "bs_success (analyse_lines ls (MK_INSTALLING, st)) \<longleftrightarrow>
     bs_success st \<or> after_first reTesting (\<lambda>_. False) (after_first reGood reBad (\<lambda>_. True)) ls"
  "bs_workDone (analyse_lines ls (MK_INSTALLING, st)) = bs_workDone st"
  by (induction ls arbitrary: st) (auto simp: make_line_def matchOne_def analyse_testing)

lemma analyse_building:
  "bs_success (analyse_lines ls (MK_BUILDING, st)) \<longleftrightarrow>
     bs_success st \<or> after_first reInstalling (\<lambda>_. False)
       (after_first reTesting (\<lambda>_. False) (after_first reGood reBad (\<lambda>_. True))) ls"
  "bs_workDone (analyse_lines ls (MK_BUILDING, st)) \<longleftrightarrow> bs_workDone st \<or> ls \<noteq> []"
  by (induction ls arbitrary: st) (auto simp: make_line_def matchOne_def analyse_installing)

lemma analyse_start:
  "bs_success (analyse_lines ls (MK_START, st)) \<longleftrightarrow> bs_success st \<or> good_log ls"
  "good_log ls \<Longrightarrow> bs_workDone (analyse_lines ls (MK_START, st))"
  by (induction ls arbitrary: st) (auto simp: good_log_def make_line_def matchOne_def analyse_building)

lemma analyse_verdict:
  "bs_success (MakeAnalyser_analyse text) \<longleftrightarrow> good_log (lines_of text)"
  "good_log (lines_of text) \<Longrightarrow> bs_workDone (MakeAnalyser_analyse text)"
  by (simp_all add: MakeAnalyser_analyse_def analyse_start)

text \<open>
  Claim C38.  What \<open>MakeAnalyser\<close> reads from a log: it reports success exactly when a line says
  that a target was built, a later one that the project is installed, a later one that the tests run,
  and of the lines after that the first that gives a result of the tests says that all have passed;
  a success is never reported without work done.
\<close>

theorem MakeAnalyser_success_iff:
  "(bs_success (MakeAnalyser_analyse log_text) \<longleftrightarrow>
     after_first reBuilding (\<lambda>_. False) (after_first reInstalling (\<lambda>_. False)
       (after_first reTesting (\<lambda>_. False) (after_first reGood reBad (\<lambda>_. True)))) (lines_of log_text))
   \<and> (bs_workDone (MakeAnalyser_analyse log_text) \<and> bs_success (MakeAnalyser_analyse log_text)
      \<longleftrightarrow> bs_success (MakeAnalyser_analyse log_text))"
  using analyse_verdict [of log_text] by (auto simp: good_log_def)

section \<open>The messages of polldir\<close>

text \<open>How often a sequence of CRCs changes, starting from \<open>crc\<close>.\<close>

fun changes :: "int \<Rightarrow> int list \<Rightarrow> nat" where
  "changes crc [] = 0"
| "changes crc (x # xs) = (if x = crc then changes crc xs else Suc (changes x xs))"

lemma changes_le: "changes crc xs \<le> length xs"
  by (induction xs arbitrary: crc) (auto intro: le_SucI)

definition poll_looks :: "(string \<Rightarrow> int) \<Rightarrow> string \<Rightarrow> (dir_entry list \<times> bool) list \<Rightarrow> int list \<Rightarrow> bool" where
  "poll_looks checksum name evs crcs \<longleftrightarrow>
     list_all2 (\<lambda>(es, quit) crc. FileModChecker_getCrc checksum name es = Inr crc \<and> \<not> quit) evs crcs"

lemma poller_send_ready:
  assumes "vent_ready (Suc n) vs" and "0 \<le> k" and "k + 1 \<le> 2147483647"
  shows "\<exists>vs'. poller_send c clk dir k vs = Inr (k + 1, vs') \<and> vent_ready n vs'
    \<and> vs_sender vs' = vs_sender vs @ [Msg_set c (DataMsg_make k (clk k) dir)]"
  using poll.send1_ready [OF assms(1), of 0 0 "Msg_set c (DataMsg_make k (clk k) dir)"] assms(2,3)
  by (auto simp: poller_send_def throttle_ok_def add_int32_def in_int32_def)

lemma polldir_run:
  assumes "poll_looks checksum name evs crcs"
    and "vent_ready (length evs) (pw_vent w)" and "0 \<le> pw_msgNum w" and "pw_msgNum w + int (length evs) \<le> 2147483647"
  shows "\<exists>w'. run (polldir_turn checksum c clk dir name) w evs = (Continue w', [])
    \<and> vs_sender (pw_vent w') = vs_sender (pw_vent w) @
        numbered_msgs c clk (pw_msgNum w) (replicate (changes (pw_lastCrc w) crcs) dir)"
  using assms
proof (induction evs arbitrary: w crcs)
  case (Cons ev evs)
  obtain es crc crcs' where ev: "ev = (es, False)" "crcs = crc # crcs'"
      "FileModChecker_getCrc checksum name es = Inr crc" "poll_looks checksum name evs crcs'"
    using Cons.prems(1) by (auto simp: poll_looks_def list_all2_Cons1)
  show ?case
  proof (cases "crc = pw_lastCrc w")
    case True
    have "vent_ready (length evs) (pw_vent w)" using Cons.prems(2) by (simp add: vent_ready_def)
    with Cons.IH [OF ev(4), of "w\<lparr>pw_naps := Suc (pw_naps w)\<rparr>"] Cons.prems True ev
    show ?thesis by (simp add: polldir_turn_def)
  next
    case False
    obtain vs' where vs': "poller_send c clk dir (pw_msgNum w) (pw_vent w) = Inr (pw_msgNum w + 1, vs')"
        "vent_ready (length evs) vs'"
        "vs_sender vs' = vs_sender (pw_vent w) @ [Msg_set c (DataMsg_make (pw_msgNum w) (clk (pw_msgNum w)) dir)]"
      using poller_send_ready [of "length evs" "pw_vent w" "pw_msgNum w" c clk dir] Cons.prems by auto
    with Cons.IH [OF ev(4), of "w\<lparr>pw_lastCrc := crc, pw_msgNum := pw_msgNum w + 1, pw_vent := vs'\<rparr>"]
      Cons.prems False ev
    show ?thesis by (auto simp: polldir_turn_def)
  qed
qed (auto simp: poll_looks_def)

text \<open>
  What \<open>polldir\<close> sends: one message, numbered from 0, for every look at which the CRC
  of the directory differs from the one before it; what the first look is compared with is the CRC
  at the start cut to 32 bits, so that a CRC that needs more gives a message although nothing has
  changed.
\<close>

theorem polldir_sends_changes:
  assumes "poll_looks checksum name evs crcs" and "vent_ready (length evs) vs"
    and "length evs \<le> 2147483647"
  shows "\<exists>w. run (polldir_turn checksum c clk dir name) (polldir_PWorker crc vs) evs = (Continue w, [])
    \<and> vs_sender (pw_vent w) =
        vs_sender vs @ numbered_msgs c clk 0 (replicate (changes (to_int32 crc) crcs) dir)"
  using polldir_run [OF assms(1), of "polldir_PWorker crc vs" c clk dir] assms(2,3)
  by (simp add: polldir_PWorker_def)

theorem polldir_sends_changes_witness:
  "case run (polldir_turn (\<lambda>bytes. 4294967296 + int (length bytes)) plain_codec (\<lambda>i. 7) ''d'' ''d'')
      (polldir_PWorker 4294967304 (Vent_init []))
      [([File ''a.cpp'' 1], False), ([File ''a.cpp'' 1], False), ([File ''a.cpp'' 12, File ''b.txt'' 1], False)] of
     (Continue w, _) \<Rightarrow> vs_sender (pw_vent w) = [(0, 7, ''d''), (1, 7, ''d'')]
   | _ \<Rightarrow> False"
proof -
  have looks: "poll_looks (\<lambda>bytes. 4294967296 + int (length bytes)) ''d''
      [([File ''a.cpp'' 1], False), ([File ''a.cpp'' 1], False), ([File ''a.cpp'' 12, File ''b.txt'' 1], False)]
      [4294967304, 4294967304, 4294967305]"
    by (simp add: poll_looks_def FileModChecker_getCrc_def file_bytes_def extension_of_def quoted_path_def
        show_int_def show_nat.simps to_int64_def)
  from polldir_sends_changes [OF looks, of "Vent_init []" plain_codec "\<lambda>i. 7" "''d''" 4294967304]
  show ?thesis
    by (auto simp: vent_ready_def Vent_init_def to_int32_def DataMsg_defs Msg_set_def numeral_3_eq_3)
qed

section \<open>The builds of workbash\<close>

definition work_idle :: "'m work_turn \<Rightarrow> bool" where
  "work_idle ev \<longleftrightarrow> \<not> wt_quit_head ev \<and> \<not> wt_quit_polled ev \<and> \<not> wt_quit_tail ev
     \<and> (\<forall>tm. wt_zpolled ev tm = Inr (False, False))"

lemma work_turn_idle:
  "work_idle ev \<Longrightarrow> work_turn kc no_msg wk w ev =
     (case iww_timeout wk w of Inr w' \<Rightarrow> Continue w' | Inl e \<Rightarrow> Stop (Inl e))"
  by (auto simp: work_idle_def work_turn_def Poller_poll_def Poller_defs split: sum.split)

lemma bash_notes_last:
  assumes "\<And>m. m \<in> set ms \<Longrightarrow> unpack c m = Inr (msg m)" and "ms \<noteq> []"
  shows "rfold (workbash_processMsg c) ms w = Inr (w\<lparr>wb_msgid := DataMsg_getId (msg (List.last ms))\<rparr>)"
  using assms
proof (induction ms arbitrary: w)
  case (Cons m ms)
  then show ?case
    by (cases "ms = []") (simp_all add: workbash_processMsg_def Msg_of_message_def)
qed simp

lemma run_work_delivers:
  assumes "list_all2 work_delivers evs ms" and "rfold (iww_processMsg wk) ms w = Inr w'"
  shows "run (work_turn kc no_msg wk) w evs = (Continue w', [])"
  using assms
proof (induction arbitrary: w rule: list_all2_induct)
  case (Cons e es m ms)
  then show ?case by (cases "iww_processMsg wk m w") (simp_all add: work_turn_delivers)
qed simp

lemma bash_build:
  assumes "0 \<le> wb_msgid w" and "wk_env (wb_sender w) = []"
  shows "workbash_timeout c fork logs cmd w = Inr (w\<lparr>wb_msgid := -1,
     wb_task := (let t = wb_task w; pid = fork (length (ts_cmds t)); p = (if pid = -1 then 0 else pid)
                 in t\<lparr>ts_cmds := ts_cmds t @ [(cmd, pid)], ts_waited := ts_waited t @ [p]\<rparr>),
     wb_sender := (wb_sender w)\<lparr>wk_sent := wk_sent (wb_sender w) @
       [Msg_set c (DataMsg_make (wb_msgid w) 0
          (if good_log (lines_of (logs (Suc (length (ts_cmds (wb_task w)))))) then ''success'' else ''failed''))]\<rparr>\<rparr>)"
  using assms analyse_verdict [of "logs (Suc (length (ts_cmds (wb_task w))))"]
  by (auto simp: workbash_timeout_def ExeRunner_run_def TaskMonitor_waitFinish_def bash_send_def Let_def)

text \<open>
  Claim C39.  \<open>workbash\<close> gathers the messages that come without a pause and builds once: at the
  first timeout it runs its command, waits for it and answers the last message, with the verdict on the
  log; at further timeouts it does nothing, until the next message comes.  The other messages get no
  answer: a comment in \<open>processMsg\<close> says that a sink message has to be sent for every message that is
  ignored, but the code does not do so, and this is what it does instead.
\<close>

theorem workbash_builds_once:
  assumes "list_all2 work_delivers evs ms" and "ms \<noteq> []" and "\<And>m. m \<in> set ms \<Longrightarrow> unpack c m = Inr (msg m)"
    and "0 \<le> DataMsg_getId (msg (List.last ms))" and "wk_env (wb_sender w) = []"
    and "list_all work_idle idle" and "idle \<noteq> []"
  shows "\<exists>w'. fst (Work_process kc no_msg (workbash_worker c fork logs cmd sleeptime) w (evs @ idle)) = Continue w'
    \<and> wb_msgid w' = -1
    \<and> map fst (ts_cmds (wb_task w')) = map fst (ts_cmds (wb_task w)) @ [cmd]
    \<and> length (ts_waited (wb_task w')) = Suc (length (ts_waited (wb_task w)))
    \<and> wk_sent (wb_sender w') = wk_sent (wb_sender w) @
        [Msg_set c (DataMsg_make (DataMsg_getId (msg (List.last ms))) 0
          (if good_log (lines_of (logs (Suc (length (ts_cmds (wb_task w)))))) then ''success'' else ''failed''))]"
proof -
  let ?wk = "workbash_worker c fork logs cmd sleeptime"
  let ?w1 = "w\<lparr>wb_msgid := DataMsg_getId (msg (List.last ms))\<rparr>"
  have quiet_run: "wb_msgid v = -1 \<Longrightarrow> list_all work_idle es \<Longrightarrow> run (work_turn kc no_msg ?wk) v es = (Continue v, [])"
    for v es
    by (induction es) (auto simp: work_turn_idle workbash_worker_def workbash_timeout_def)
  obtain i is' where i: "idle = i # is'" "work_idle i" "list_all work_idle is'"
    using assms(6,7) by (cases idle) auto
  have msgs: "run (work_turn kc no_msg ?wk) w evs = (Continue ?w1, [])"
    using assms(1-3) by (intro run_work_delivers) (auto simp: workbash_worker_def bash_notes_last)
  from bash_build [of ?w1 c fork logs cmd] assms(4,5)
  obtain w2 where w2: "workbash_timeout c fork logs cmd ?w1 = Inr w2"
    and w2_def: "w2 = ?w1\<lparr>wb_msgid := -1,
     wb_task := (let t = wb_task w; pid = fork (length (ts_cmds t)); p = (if pid = -1 then 0 else pid)
                 in t\<lparr>ts_cmds := ts_cmds t @ [(cmd, pid)], ts_waited := ts_waited t @ [p]\<rparr>),
     wb_sender := (wb_sender w)\<lparr>wk_sent := wk_sent (wb_sender w) @
       [Msg_set c (DataMsg_make (DataMsg_getId (msg (List.last ms))) 0
          (if good_log (lines_of (logs (Suc (length (ts_cmds (wb_task w)))))) then ''success'' else ''failed''))]\<rparr>\<rparr>"
    by auto
  have idle: "wb_msgid w2 = -1" by (simp add: w2_def)
  have "iww_timeout ?wk ?w1 = Inr w2" using w2 by (simp only: workbash_worker_def IWorkWorker.simps)
  then have "work_turn kc no_msg ?wk ?w1 i = Continue w2" by (simp only: work_turn_idle [OF i(2)] sum.case)
  moreover have "run (work_turn kc no_msg ?wk) w2 is' = (Continue w2, [])" by (rule quiet_run [OF idle i(3)])
  ultimately have "run (work_turn kc no_msg ?wk) ?w1 (i # is') = (Continue w2, [])"
    by (simp only: run.simps outcome.case)
  then have "fst (Work_process kc no_msg ?wk w (evs @ idle)) = Continue w2"
    by (simp only: Work_process_def run_append msgs i(1) prod.case outcome.case fst_conv)
  then show ?thesis by (simp add: w2_def Let_def)
qed

definition idle_turn :: "'m \<Rightarrow> 'm work_turn" where
  "idle_turn m = msg_work_turn m \<lparr>wt_zpolled := \<lambda>_. Inr (False, False)\<rparr>"

lemma idle_turn [simp]: "work_idle (idle_turn m)"
  by (simp add: work_idle_def idle_turn_def msg_work_turn_def)

theorem workbash_builds_once_witness:
  "case fst (Work_process plain_codec 0 (workbash_worker \<lparr>pack = DataMsg_getId, unpack = \<lambda>i. Inr (i, 0, ''dir'')\<rparr>
      (\<lambda>_. 77) (\<lambda>_. '' Built target x'') ''make'' 1000) (bash_init [])
      [msg_work_turn 3, msg_work_turn 4, msg_work_turn (5 :: int), idle_turn 0, idle_turn 0]) of
     Continue w \<Rightarrow> wk_sent (wb_sender w) = [5] \<and> map fst (ts_cmds (wb_task w)) = [''make'']
   | Stop _ \<Rightarrow> False"
  using workbash_builds_once [of "[msg_work_turn 3, msg_work_turn 4, msg_work_turn (5 :: int)]" "[3, 4, 5]"
      "\<lparr>pack = DataMsg_getId, unpack = \<lambda>i. Inr (i, 0, ''dir'')\<rparr>" "\<lambda>i. (i, 0, ''dir'')" "bash_init []"
      "[idle_turn 0, idle_turn 0]" plain_codec 0 "\<lambda>_. 77" "\<lambda>_. '' Built target x''" "''make''" 1000]
  by (auto simp: bash_init_def worker_init_def task_init_def DataMsg_defs Msg_set_def)

end
