(* ===== verification/Graph.thy ===== *)
theory Graph
  imports Json_Object
begin

text \<open>
  \<open>graph/MachineGraph.cpp\<close> and \<open>graph/graph.cpp\<close>: a machine's configuration as a graph in the DOT
  language, whose nodes have HTML labels.  The stream the code writes to is the state; what was
  written before an exception stays written.

  The reference for the labels is a tree of elements (\<open>html\<close>) and its text: what the code writes for a
  node is the text of one table, and one line for each connection that connects.
\<close>

section \<open>Writing\<close>

definition emit :: "string \<Rightarrow> (string, unit) prog" where
  "emit s out = (Inr (), out @ s)"

abbreviation (input) NL :: char where "NL \<equiv> CHR 0x0A"
abbreviation (input) TAB :: char where "TAB \<equiv> CHR 0x09"
abbreviation (input) QU :: char where "QU \<equiv> CHR 0x22"

definition writeTableHeader :: "(string, unit) prog" where
  "writeTableHeader = emit (''<TABLE BORDER='' @ [QU] @ ''0'' @ [QU] @ '' CELLBORDER='' @ [QU] @ ''0'' @ [QU]
     @ '' CELLSPACING='' @ [QU] @ ''0'' @ [QU] @ ''>'' @ [NL])"

definition writeEdge :: "string \<Rightarrow> string \<Rightarrow> string \<Rightarrow> string \<Rightarrow> bool \<Rightarrow> (string, unit) prog" where
  "writeEdge from to fromlabel tolabel samehead =
     sbind (emit ([TAB] @ from @ '' -> '' @ to @ ''[headlabel='' @ [QU] @ fromlabel @ [QU] @ '',taillabel='' @ [QU]
       @ tolabel @ [QU])) (\<lambda>_.
     sbind (if samehead then emit '',samehead=true'' else sreturn ()) (\<lambda>_.
       emit ('']'' @ '';'' @ [NL])))"

definition cell_with :: "string \<Rightarrow> string \<Rightarrow> string" where
  "cell_with font text = replicate 5 TAB @ ''<TD ALIGN='' @ [QU] @ ''left'' @ [QU] @ ''><FONT '' @ font @ ''>'' @ text
     @ ''</FONT></TD>'' @ [NL]"

definition row_with :: "string \<Rightarrow> string \<Rightarrow> string \<Rightarrow> string" where
  "row_with font name v = replicate 4 TAB @ ''<TR>'' @ [NL] @ cell_with font name @ cell_with font v
     @ replicate 4 TAB @ ''</TR>'' @ [NL]"

definition info_font :: string where
  "info_font = ''POINT-SIZE='' @ [QU] @ ''10'' @ [QU]"

definition config_font :: string where
  "config_font = ''COLOR='' @ [QU] @ ''lightgray'' @ [QU] @ '' POINT-SIZE='' @ [QU] @ ''10'' @ [QU]"

definition writeNodeInfoRow :: "string \<Rightarrow> string \<Rightarrow> (string, unit) prog" where
  "writeNodeInfoRow name v = emit (row_with info_font name v)"

definition writeNodeConfigRow :: "string \<Rightarrow> string \<Rightarrow> (string, unit) prog" where
  "writeNodeConfigRow name v = emit (row_with config_font name v)"

text \<open>The table inside a cell is opened before its first row.\<close>

definition open_table :: "bool \<Rightarrow> (string, unit) prog" where
  "open_table any = (if \<not> any then sbind (emit (replicate 3 TAB)) (\<lambda>_. writeTableHeader) else sreturn ())"

definition close_table :: "bool \<Rightarrow> (string, unit) prog" where
  "close_table any = (if any then emit (replicate 3 TAB @ ''</TABLE>'' @ [NL]) else sreturn ())"

definition open_cell :: "(string, unit) prog" where
  "open_cell = emit ([TAB] @ ''<TR>'' @ [NL, TAB, TAB] @ ''<TD>'' @ [NL])"

definition close_cell :: "(string, unit) prog" where
  "close_cell = emit ([TAB, TAB] @ ''</TD>'' @ [NL, TAB] @ ''</TR>'' @ [NL])"

section \<open>MachineGraph\<close>

fun info_connections :: "bool \<Rightarrow> members \<Rightarrow> (string, bool) prog" where
  "info_connections any [] = sreturn any"
| "info_connections any (i # ms) =
     sbind (open_table any) (\<lambda>_.
     let o1 = JsonObject_getValue i in
     sbind (slift (JsonObject_getString o1 ''mode'')) (\<lambda>mode.
     sbind (if mode = ''connect'' then writeNodeInfoRow (JsonObject_getKey i) ''connect''
            else sbind (slift (JsonObject_getString o1 ''address'')) (\<lambda>address.
                 sbind (slift (JsonObject_getInt o1 ''port'' (-1))) (\<lambda>port.
                   writeNodeInfoRow (JsonObject_getKey i) (''bind:'' @ address @ '':'' @ show_int port)))) (\<lambda>_.
       info_connections True ms)))"

definition writeNodeInfo :: "JsonObject \<Rightarrow> (string, unit) prog" where
  "writeNodeInfo node =
     sbind open_cell (\<lambda>_.
     sbind (slift (JsonObject_getInt node ''count'' (-1))) (\<lambda>cnt.
     sbind (if cnt > 0 then sbind (open_table False) (\<lambda>_. sbind (writeNodeInfoRow ''count'' (show_int cnt)) (\<lambda>_. sreturn True))
            else sreturn False) (\<lambda>any1.
     sbind (scatch is_runtime_error (slift (JsonObject_getString node ''node'')) (sreturn [])) (\<lambda>s.
     sbind (if s \<noteq> [] then sbind (open_table any1) (\<lambda>_. sbind (writeNodeInfoRow ''node'' s) (\<lambda>_. sreturn True))
            else sreturn any1) (\<lambda>any2.
     sbind (slift (JsonObject_getChild node ''connections'')) (\<lambda>confconn.
     sbind (if \<not> JsonObject_empty confconn
            then sbind (slift (JsonObject_iter confconn)) (info_connections any2)
            else sreturn any2) (\<lambda>any3.
     sbind (close_table any3) (\<lambda>_. close_cell))))))))"

fun config_rows_from :: "bool \<Rightarrow> members \<Rightarrow> (string, bool) prog" where
  "config_rows_from any [] = sreturn any"
| "config_rows_from any (i # ms) =
     sbind (open_table any) (\<lambda>_.
     sbind (slift (JsonObject_getValueString i)) (\<lambda>v.
     sbind (writeNodeConfigRow (JsonObject_getKey i) v) (\<lambda>_.
       config_rows_from True ms)))"

definition writeNodeConfig :: "JsonObject \<Rightarrow> (string, unit) prog" where
  "writeNodeConfig node =
     sbind open_cell (\<lambda>_.
     sbind (slift (JsonObject_getChild node ''config'')) (\<lambda>config.
     sbind (if \<not> JsonObject_empty config
            then sbind (slift (JsonObject_iter config)) (\<lambda>ms. sbind (config_rows_from False ms) close_table)
            else sreturn ()) (\<lambda>_. close_cell)))"

text \<open>The edge of a connection, if it has one.\<close>

definition write_connection :: "string \<Rightarrow> string \<times> jvalue \<Rightarrow> (string, unit) prog" where
  "write_connection name i =
     (let o1 = JsonObject_getValue i in
      sbind (slift (JsonObject_getString o1 ''mode'')) (\<lambda>mode.
      if mode = ''connect'' then
        sbind (slift (JsonObject_getString o1 ''direction'')) (\<lambda>direction.
        sbind (slift (JsonObject_getString o1 ''block'')) (\<lambda>block.
        sbind (slift (JsonObject_getString o1 ''connection'')) (\<lambda>connection.
          if direction = ''to'' then writeEdge name block connection (JsonObject_getKey i) False
          else writeEdge block name (JsonObject_getKey i) connection False)))
      else sreturn ()))"

fun write_connections :: "string \<Rightarrow> members \<Rightarrow> (string, unit) prog" where
  "write_connections name [] = sreturn ()"
| "write_connections name (i # ms) = sbind (write_connection name i) (\<lambda>_. write_connections name ms)"

definition writeNode :: "JsonObject \<Rightarrow> (string, unit) prog" where
  "writeNode node =
     sbind (slift (JsonObject_getString node ''name'')) (\<lambda>name.
     sbind (emit ([TAB] @ name @ '' [shape=box,label=<'' @ [NL])) (\<lambda>_.
     sbind writeTableHeader (\<lambda>_.
     sbind (emit ([TAB] @ ''<TR>'' @ [NL, TAB, TAB] @ ''<TD><FONT POINT-SIZE='' @ [QU] @ ''18'' @ [QU] @ '' COLOR='' @ [QU]
       @ ''green'' @ [QU] @ ''>'' @ name @ ''</FONT></TD>'' @ [NL, TAB] @ ''</TR>'' @ [NL])) (\<lambda>_.
     sbind (writeNodeInfo node) (\<lambda>_.
     sbind (writeNodeConfig node) (\<lambda>_.
     sbind (emit (''</TABLE>>];'' @ [NL])) (\<lambda>_.
     sbind (slift (JsonObject_getChild node ''connections'')) (\<lambda>confconn.
       if \<not> JsonObject_empty confconn
       then sbind (slift (JsonObject_iter confconn)) (write_connections name)
       else sreturn ()))))))))"

fun writeNodes :: "JsonArray \<Rightarrow> (string, unit) prog" where
  "writeNodes [] = sreturn ()"
| "writeNodes (i # bg) = sbind (writeNode (JsonArray_getValue i)) (\<lambda>_. writeNodes bg)"

definition dot_header :: string where
  "dot_header = ''digraph G {'' @ [NL]
     @ [TAB] @ ''splines=spline;'' @ [NL]
     @ [TAB] @ ''nodesep=2;'' @ [NL]
     @ [TAB] @ ''node [fontcolor=white,'' @ [NL]
     @ [TAB, TAB] @ ''fillcolor=black,'' @ [NL]
     @ [TAB, TAB] @ ''fontname=Geneva,'' @ [NL]
     @ [TAB, TAB] @ ''label='' @ [QU, CHR 0x5C] @ ''N'' @ [QU] @ '',style=filled'' @ [NL]
     @ [TAB] @ ''];'' @ [NL]
     @ [TAB] @ ''edge [color=blue,'' @ [NL]
     @ [TAB, TAB] @ ''fontcolor=black,'' @ [NL]
     @ [TAB, TAB] @ ''fontname=Geneva,'' @ [NL]
     @ [TAB, TAB] @ ''fontsize=10,'' @ [NL]
     @ [TAB, TAB] @ ''fontcolor=lightblue,'' @ [NL]
     @ [TAB, TAB] @ ''style=bold'' @ [NL]
     @ [TAB] @ ''];'' @ [NL]"

definition MachineGraph_makeDOT :: "json_reader \<Rightarrow> string \<Rightarrow> (string, bool) prog" where
  "MachineGraph_makeDOT reader json =
     sbind (emit dot_header) (\<lambda>_.
     let (ok, m) = JsonObject_read reader Null json in
     if \<not> ok then sreturn False
     else
       sbind (slift (JsonObject_getChild m ''vent'')) (\<lambda>vent.
       sbind (writeNode vent) (\<lambda>_.
       sbind (slift (JsonObject_getChild m ''sink'')) (\<lambda>sink.
       sbind (writeNode sink) (\<lambda>_.
       sbind (slift (JsonObject_getArray m ''background'')) (\<lambda>bg.
       sbind (writeNodes bg) (\<lambda>_.
       sbind (slift (JsonObject_getChild m ''reap'')) (\<lambda>reap.
       sbind (writeNode reap) (\<lambda>_.
       sbind (emit ''}'') (\<lambda>_. sreturn True))))))))))"

text \<open>\<open>main\<close>: the exit code and what is printed.  \<open>opts\<close> says whether help was asked for and whether a
  configuration was named; the file that is read is the first argument, whatever the option names.\<close>

definition graph_main :: "json_reader \<Rightarrow> (string \<Rightarrow> string) \<Rightarrow> bool \<times> bool \<Rightarrow> string list \<Rightarrow> int res \<times> string" where
  "graph_main reader contents opts argv =
     (if fst opts \<or> \<not> snd opts then (Inr 0, [])
      else sbind (MachineGraph_makeDOT reader (contents (argv ! 1))) (\<lambda>_. sreturn 0) [])"

section \<open>The labels as trees\<close>

datatype html = Text string | Tag string string "html list"

fun render :: "html \<Rightarrow> string" where
  "render (Text s) = s"
| "render (Tag name attrs hs) =
     ''<'' @ name @ attrs @ ''>'' @ concat (map render hs) @ ''</'' @ name @ ''>''"

definition cell_html :: "string \<Rightarrow> string \<Rightarrow> html list" where
  "cell_html font text = [Text (replicate 5 TAB),
     Tag ''TD'' ('' ALIGN='' @ [QU] @ ''left'' @ [QU]) [Tag ''FONT'' ('' '' @ font) [Text text]], Text [NL]]"

definition row_html :: "string \<Rightarrow> string \<times> string \<Rightarrow> html list" where
  "row_html font r = [Text (replicate 4 TAB),
     Tag ''TR'' [] (Text [NL] # cell_html font (fst r) @ cell_html font (snd r) @ [Text (replicate 4 TAB)]), Text [NL]]"

definition table_html :: "html list \<Rightarrow> html" where
  "table_html hs = Tag ''TABLE'' ('' BORDER='' @ [QU] @ ''0'' @ [QU] @ '' CELLBORDER='' @ [QU] @ ''0'' @ [QU]
     @ '' CELLSPACING='' @ [QU] @ ''0'' @ [QU]) (Text [NL] # hs)"

text \<open>A cell with a table of rows, or an empty cell.\<close>

definition rows_html :: "string \<Rightarrow> (string \<times> string) list \<Rightarrow> html list" where
  "rows_html font rs = [Text [TAB], Tag ''TR'' []
     [Text [NL, TAB, TAB], Tag ''TD'' [] (Text [NL] #
        (if rs = [] then [] else [Text (replicate 3 TAB), table_html (concat (map (row_html font) rs) @ [Text (replicate 3 TAB)]), Text [NL]])
        @ [Text [TAB, TAB]]), Text [NL, TAB]], Text [NL]]"

definition label_html :: "string \<Rightarrow> (string \<times> string) list \<Rightarrow> (string \<times> string) list \<Rightarrow> html" where
  "label_html name infos configs = table_html
     ([Text [TAB], Tag ''TR'' [] [Text [NL, TAB, TAB],
         Tag ''TD'' [] [Tag ''FONT'' ('' POINT-SIZE='' @ [QU] @ ''18'' @ [QU] @ '' COLOR='' @ [QU] @ ''green'' @ [QU]) [Text name]],
         Text [NL, TAB]], Text [NL]]
      @ rows_html info_font infos @ rows_html config_font configs)"

text \<open>What a node says of itself: the rows of its label and its edges.\<close>

definition connection_row :: "string \<times> jvalue \<Rightarrow> (string \<times> string) res" where
  "connection_row i =
     rbind (JsonObject_getString (snd i) ''mode'') (\<lambda>mode.
     if mode = ''connect'' then Inr (fst i, ''connect'')
     else rbind (JsonObject_getString (snd i) ''address'') (\<lambda>address.
          rmap (\<lambda>port. (fst i, ''bind:'' @ address @ '':'' @ show_int port)) (JsonObject_getInt (snd i) ''port'' (-1))))"

fun rmapM :: "('a \<Rightarrow> 'b res) \<Rightarrow> 'a list \<Rightarrow> 'b list res" where
  "rmapM f [] = Inr []"
| "rmapM f (x # xs) = rbind (f x) (\<lambda>y. rmap (\<lambda>ys. y # ys) (rmapM f xs))"

definition members_of :: "JsonObject \<Rightarrow> string \<Rightarrow> members res" where
  "members_of node key =
     rbind (JsonObject_getChild node key) (\<lambda>c. if JsonObject_empty c then Inr [] else JsonObject_iter c)"

definition info_rows :: "JsonObject \<Rightarrow> (string \<times> string) list res" where
  "info_rows node =
     rbind (JsonObject_getInt node ''count'' (-1)) (\<lambda>cnt.
     rbind (case JsonObject_getString node ''node'' of Inl e \<Rightarrow> if is_runtime_error e then Inr [] else Inl e | r \<Rightarrow> r) (\<lambda>s.
     rbind (members_of node ''connections'') (\<lambda>ms.
     rmap (\<lambda>rs. (if cnt > 0 then [(''count'', show_int cnt)] else []) @ (if s \<noteq> [] then [(''node'', s)] else []) @ rs)
       (rmapM connection_row ms))))"

definition config_rows :: "JsonObject \<Rightarrow> (string \<times> string) list res" where
  "config_rows node =
     rbind (members_of node ''config'') (rmapM (\<lambda>i. rmap (\<lambda>v. (fst i, v)) (JsonObject_getValueString i)))"

definition edge_line :: "string \<Rightarrow> string \<Rightarrow> string \<Rightarrow> string \<Rightarrow> string" where
  "edge_line from to fromlabel tolabel = [TAB] @ from @ '' -> '' @ to @ ''[headlabel='' @ [QU] @ fromlabel @ [QU]
     @ '',taillabel='' @ [QU] @ tolabel @ [QU] @ ''];'' @ [NL]"

definition connection_edge :: "string \<Rightarrow> string \<times> jvalue \<Rightarrow> string res" where
  "connection_edge name i =
     rbind (JsonObject_getString (snd i) ''mode'') (\<lambda>mode.
     if mode = ''connect'' then
       rbind (JsonObject_getString (snd i) ''direction'') (\<lambda>direction.
       rbind (JsonObject_getString (snd i) ''block'') (\<lambda>block.
       rmap (\<lambda>connection. if direction = ''to'' then edge_line name block connection (fst i)
                           else edge_line block name (fst i) connection)
         (JsonObject_getString (snd i) ''connection'')))
     else Inr [])"

definition node_text :: "JsonObject \<Rightarrow> string res" where
  "node_text node =
     rbind (JsonObject_getString node ''name'') (\<lambda>name.
     rbind (info_rows node) (\<lambda>infos.
     rbind (config_rows node) (\<lambda>configs.
     rbind (members_of node ''connections'') (\<lambda>ms.
     rmap (\<lambda>edges. [TAB] @ name @ '' [shape=box,label=<'' @ [NL] @ render (label_html name infos configs) @ ''>];'' @ [NL]
                    @ concat edges)
       (rmapM (connection_edge name) ms)))))"

lemma sbind_assoc: "sbind (sbind m f) g = sbind m (\<lambda>x. sbind (f x) g)"
  by (rule ext) (auto simp: sbind_def split: prod.split sum.split)

section \<open>The code writes the reference\<close>

text \<open>\<open>writes m r\<close>: \<open>m\<close> appends a text to the stream and gives a value, both as in \<open>r\<close>, or ends with
  the exception of \<open>r\<close> after having appended something.\<close>

definition writes :: "(string, 'a) prog \<Rightarrow> ('a \<times> string) res \<Rightarrow> bool" where
  "writes m r \<longleftrightarrow> (\<forall>out. case r of Inr (x, s) \<Rightarrow> m out = (Inr x, out @ s) | Inl e \<Rightarrow> \<exists>s. m out = (Inl e, out @ s))"

lemma writes_basic:
  "writes (sreturn x) (Inr (x, []))" "writes (emit s) (Inr ((), s))" "writes (slift r) (rmap (\<lambda>x. (x, [])) r)"
proof -
  show "writes (slift r) (rmap (\<lambda>x. (x, [])) r)" by (cases r) (simp_all add: writes_def slift_def)
qed (simp_all add: writes_def sreturn_def emit_def)

lemma writes_sbind:
  assumes "writes m r" and "\<And>x. writes (f x) (g x)"
  shows "writes (sbind m f) (rbind r (\<lambda>(x, s). rmap (\<lambda>(y, t). (y, s @ t)) (g x)))"
proof (cases r)
  case (Inl e)
  have "\<exists>s. sbind m f out = (Inl e, out @ s)" for out
  proof -
    from assms(1) Inl obtain s where "m out = (Inl e, out @ s)" by (auto simp: writes_def)
    then show ?thesis by (simp add: sbind_def)
  qed
  with Inl show ?thesis by (simp add: writes_def)
next
  case (Inr p)
  obtain x s where p: "p = (x, s)" by force
  have m: "m out = (Inr x, out @ s)" for out using assms(1) Inr p by (simp add: writes_def)
  show ?thesis
  proof (cases "g x")
    case Inl': (Inl e)
    with assms(2) [of x] have "\<exists>t. f x out = (Inl e, out @ t)" for out by (simp add: writes_def)
    then have "\<exists>t. f x (out @ s) = (Inl e, out @ t)" for out by (metis append.assoc)
    with m Inr p Inl' show ?thesis by (simp add: writes_def sbind_def)
  next
    case Inr': (Inr q)
    with assms(2) [of x] m Inr p show ?thesis by (cases q) (simp add: writes_def sbind_def)
  qed
qed

lemma writes_eq: "writes m r \<Longrightarrow> r = r' \<Longrightarrow> writes m r'"
  by simp

lemma writes_if: "writes m r \<Longrightarrow> writes m' r' \<Longrightarrow> writes (if b then m else m') (if b then r else r')"
  by simp

lemmas writes_intros = writes_sbind writes_basic writes_if

definition rows_text :: "string \<Rightarrow> (string \<times> string) list \<Rightarrow> string" where
  "rows_text font rs = concat (map (\<lambda>(n, v). row_with font n v) rs)"

definition table_open :: string where
  "table_open = replicate 3 TAB @ ''<TABLE BORDER='' @ [QU] @ ''0'' @ [QU] @ '' CELLBORDER='' @ [QU] @ ''0'' @ [QU]
     @ '' CELLSPACING='' @ [QU] @ ''0'' @ [QU] @ ''>'' @ [NL]"

lemma writes_open_table: "writes (open_table any) (Inr ((), if any then [] else table_open))"
  by (auto simp: writes_def open_table_def writeTableHeader_def emit_def sbind_def sreturn_def table_open_def)

lemma writes_close_table: "writes (close_table any) (Inr ((), if any then replicate 3 TAB @ ''</TABLE>'' @ [NL] else []))"
  by (auto simp: writes_def close_table_def emit_def sreturn_def)

lemma writes_rows:
  "writes (writeNodeInfoRow n v) (Inr ((), row_with info_font n v))"
  "writes (writeNodeConfigRow n v) (Inr ((), row_with config_font n v))"
  by (simp_all add: writes_def writeNodeInfoRow_def writeNodeConfigRow_def emit_def)

lemma rows_text_simps [simp]:
  "rows_text font [] = []" "rows_text font (r # rs) = row_with font (fst r) (snd r) @ rows_text font rs"
  "rows_text font (rs @ rs') = rows_text font rs @ rows_text font rs'"
  by (simp_all add: rows_text_def split_def)

text \<open>A loop that writes a row for each element, and opens the table before the first.\<close>

lemma writes_table_rows:
  assumes "\<And>any. loop any [] = sreturn any"
    and "\<And>any i ms. loop any (i # ms) = sbind (open_table any) (\<lambda>_. sbind (body i) (\<lambda>_. loop True ms))"
    and "\<And>i. writes (body i) (rmap (\<lambda>r. ((), row_with font (fst r) (snd r))) (row i))"
  shows "writes (loop any ms)
     (rmap (\<lambda>rs. (any \<or> rs \<noteq> [], (if any \<or> rs = [] then [] else table_open) @ rows_text font rs)) (rmapM row ms))"
proof (induction ms arbitrary: any)
  case Nil
  show ?case by (simp add: assms(1) writes_def sreturn_def)
next
  case (Cons i ms)
  show ?case
    unfolding assms(2)
    by (rule writes_eq, (rule writes_sbind writes_open_table assms(3) Cons.IH)+,
        cases "row i"; cases "rmapM row ms"; simp)
qed

lemma info_connections_Cons:
  "info_connections any (i # ms) = sbind (open_table any) (\<lambda>_.
     sbind (sbind (slift (JsonObject_getString (snd i) ''mode'')) (\<lambda>mode.
       if mode = ''connect'' then writeNodeInfoRow (fst i) ''connect''
       else sbind (slift (JsonObject_getString (snd i) ''address'')) (\<lambda>address.
            sbind (slift (JsonObject_getInt (snd i) ''port'' (-1))) (\<lambda>port.
              writeNodeInfoRow (fst i) (''bind:'' @ address @ '':'' @ show_int port))))) (\<lambda>_.
     info_connections True ms))"
  by (simp add: Let_def sbind_assoc JsonObject_getKey_def JsonObject_getValue_def cong: if_cong)

lemma writes_info_connections:
  "writes (info_connections any ms)
     (rmap (\<lambda>rs. (any \<or> rs \<noteq> [], (if any \<or> rs = [] then [] else table_open) @ rows_text info_font rs))
        (rmapM connection_row ms))"
proof (rule writes_table_rows [OF _ info_connections_Cons])
  fix i :: "string \<times> jvalue"
  show "writes (sbind (slift (JsonObject_getString (snd i) ''mode'')) (\<lambda>mode.
       if mode = ''connect'' then writeNodeInfoRow (fst i) ''connect''
       else sbind (slift (JsonObject_getString (snd i) ''address'')) (\<lambda>address.
            sbind (slift (JsonObject_getInt (snd i) ''port'' (-1))) (\<lambda>port.
              writeNodeInfoRow (fst i) (''bind:'' @ address @ '':'' @ show_int port)))))
     (rmap (\<lambda>r. ((), row_with info_font (fst r) (snd r))) (connection_row i))"
    by (rule writes_eq, (rule writes_intros writes_rows)+, cases "JsonObject_getString (snd i) ''mode''";
        cases "JsonObject_getString (snd i) ''address''"; cases "JsonObject_getInt (snd i) ''port'' (-1)")
      (simp_all add: connection_row_def)
qed simp

lemma writes_config_rows_from:
  "writes (config_rows_from any ms)
     (rmap (\<lambda>rs. (any \<or> rs \<noteq> [], (if any \<or> rs = [] then [] else table_open) @ rows_text config_font rs))
        (rmapM (\<lambda>i. rmap (\<lambda>v. (fst i, v)) (JsonObject_getValueString i)) ms))"
proof (rule writes_table_rows [where body = "\<lambda>i. sbind (slift (JsonObject_getValueString i)) (writeNodeConfigRow (fst i))"])
  fix i :: "string \<times> jvalue"
  show "writes (sbind (slift (JsonObject_getValueString i)) (writeNodeConfigRow (fst i)))
     (rmap (\<lambda>r. ((), row_with config_font (fst r) (snd r))) (rmap (\<lambda>v. (fst i, v)) (JsonObject_getValueString i)))"
    by (rule writes_eq, (rule writes_intros writes_rows)+, cases "JsonObject_getValueString i") simp_all
qed (simp_all add: sbind_assoc JsonObject_getKey_def)

lemma writes_edge: "writes (writeEdge from to l1 l2 False) (Inr ((), edge_line from to l1 l2))"
  by (simp add: writes_def writeEdge_def emit_def sbind_def sreturn_def edge_line_def)

lemma writes_connection: "writes (write_connection name i) (rmap (\<lambda>t. ((), t)) (connection_edge name i))"
  unfolding write_connection_def Let_def
  by (rule writes_eq, (rule writes_intros writes_edge)+, cases "JsonObject_getString (snd i) ''mode''";
      cases "JsonObject_getString (snd i) ''direction''"; cases "JsonObject_getString (snd i) ''block''";
      cases "JsonObject_getString (snd i) ''connection''")
    (simp_all add: connection_edge_def JsonObject_getValue_def JsonObject_getKey_def)

lemma writes_connections:
  "writes (write_connections name ms) (rmap (\<lambda>es. ((), concat es)) (rmapM (connection_edge name) ms))"
proof (induction ms)
  case Nil
  show ?case by (simp add: writes_def sreturn_def)
next
  case (Cons i ms)
  show ?case
    unfolding write_connections.simps
    by (rule writes_eq, (rule writes_sbind writes_connection Cons.IH)+, cases "connection_edge name i";
        cases "rmapM (connection_edge name) ms"; simp)
qed

text \<open>A row of the second table, with the cell and the table around it.\<close>

definition cell_text :: "string \<Rightarrow> (string \<times> string) list \<Rightarrow> string" where
  "cell_text font rs = [TAB] @ ''<TR>'' @ [NL, TAB, TAB] @ ''<TD>'' @ [NL]
     @ (if rs = [] then [] else table_open @ rows_text font rs @ replicate 3 TAB @ ''</TABLE>'' @ [NL])
     @ [TAB, TAB] @ ''</TD>'' @ [NL, TAB] @ ''</TR>'' @ [NL]"

lemma writes_scatch:
  "writes (scatch is_runtime_error (slift r) (sreturn []))
     (rmap (\<lambda>x. (x, [])) (case r of Inl e \<Rightarrow> if is_runtime_error e then Inr [] else Inl e | r \<Rightarrow> r))"
  by (cases r) (auto simp: writes_def scatch_def slift_def sreturn_def)

lemma writes_writeNodeInfo: "writes (writeNodeInfo node) (rmap (\<lambda>rs. ((), cell_text info_font rs)) (info_rows node))"
  unfolding writeNodeInfo_def open_cell_def close_cell_def
  apply (rule writes_eq)
   apply (rule writes_scatch writes_open_table writes_close_table writes_info_connections writes_rows writes_intros)+
  apply (cases "JsonObject_getInt node ''count'' (-1)")
   apply (simp add: info_rows_def)
  apply (cases "case JsonObject_getString node ''node'' of Inl e \<Rightarrow> if is_runtime_error e then Inr [] else Inl e | r \<Rightarrow> r")
   apply (simp add: info_rows_def)
  apply (cases "JsonObject_getChild node ''connections''")
   apply (simp add: info_rows_def members_of_def)
  subgoal for cnt s c
    apply (cases "JsonObject_empty c")
     apply (auto simp: info_rows_def members_of_def cell_text_def)[1]
    apply (cases "JsonObject_iter c")
     apply (auto simp: info_rows_def members_of_def)[1]
    subgoal for ms
      apply (cases "rmapM connection_row ms")
       apply (auto simp: info_rows_def members_of_def)[1]
      apply (auto simp: info_rows_def members_of_def cell_text_def)
      done
    done
  done

lemma writes_writeNodeConfig: "writes (writeNodeConfig node) (rmap (\<lambda>rs. ((), cell_text config_font rs)) (config_rows node))"
  unfolding writeNodeConfig_def open_cell_def close_cell_def
  apply (rule writes_eq)
   apply (rule writes_close_table writes_config_rows_from writes_intros)+
  apply (cases "JsonObject_getChild node ''config''")
   apply (simp add: config_rows_def members_of_def)
  subgoal for c
    apply (cases "JsonObject_empty c")
     apply (auto simp: config_rows_def members_of_def cell_text_def)[1]
    apply (cases "JsonObject_iter c")
     apply (auto simp: config_rows_def members_of_def)[1]
    subgoal for ms
      apply (cases "rmapM (\<lambda>i. rmap (\<lambda>v. (fst i, v)) (JsonObject_getValueString i)) ms")
       apply (auto simp: config_rows_def members_of_def)[1]
      apply (auto simp: config_rows_def members_of_def cell_text_def)
      done
    done
  done

lemma render_rows: "concat (map render (rows_html font rs)) = cell_text font rs"
proof -
  have "concat (map render (row_html font r)) = row_with font (fst r) (snd r)" for r
    by (simp add: row_html_def row_with_def cell_html_def cell_with_def)
  then have "concat (map render (concat (map (row_html font) rs))) = rows_text font rs"
    by (induction rs) simp_all
  then show ?thesis
    by (simp add: rows_html_def cell_text_def table_html_def table_open_def)
qed

lemma writes_members:
  assumes "\<And>ms. writes (f ms) (rmap (\<lambda>es. ((), concat es)) (rmapM g ms))"
  shows "writes (sbind (slift (JsonObject_getChild node key)) (\<lambda>c.
      if \<not> JsonObject_empty c then sbind (slift (JsonObject_iter c)) f else sreturn ()))
    (rbind (members_of node key) (\<lambda>ms. rmap (\<lambda>es. ((), concat es)) (rmapM g ms)))"
  apply (rule writes_eq)
   apply (rule writes_intros assms)+
  apply (cases "JsonObject_getChild node key")
   apply (simp add: members_of_def)
  subgoal for c
    apply (cases "JsonObject_empty c")
     apply (simp add: members_of_def)
    apply (cases "JsonObject_iter c")
     apply (simp add: members_of_def)
    subgoal for ms
      by (cases "rmapM g ms") (auto simp: members_of_def)
    done
  done

lemma writes_writeTableHeader: "writes writeTableHeader (Inr ((), drop 3 table_open))"
  unfolding writeTableHeader_def by (rule writes_eq) (rule writes_basic, simp add: table_open_def)

lemma writes_writeNode: "writes (writeNode node) (rmap (\<lambda>t. ((), t)) (node_text node))"
  unfolding writeNode_def
  apply (rule writes_eq)
   apply (rule writes_members [OF writes_connections] writes_intros writes_writeTableHeader writes_writeNodeInfo
      writes_writeNodeConfig)+
  apply (cases "JsonObject_getString node ''name''")
   apply (simp add: node_text_def)
  apply (cases "info_rows node")
   apply (simp add: node_text_def)
  apply (cases "config_rows node")
   apply (simp add: node_text_def)
  apply (cases "members_of node ''connections''")
   apply (simp add: node_text_def)
  subgoal for name infos configs ms
    apply (cases "rmapM (connection_edge name) ms")
     apply (simp add: node_text_def)
    apply (simp add: node_text_def label_html_def table_html_def table_open_def render_rows)
    done
  done

text \<open>
  Claim C36.  A node of the graph: what is written for a block is its name with a label, and the label
  is the text of one tree of elements, a table with the name, a table of the block's count, node and
  connections, and a table of its configuration; then one line for each connection that connects, in
  their order and in the direction of the connection.  Where a part is missing, the exception is
  the one that looking the parts up in this order gives.
\<close>

theorem writeNode_writes_node_text:
  "case node_text node of
     Inr t \<Rightarrow> writeNode node out = (Inr (), out @ t)
   | Inl e \<Rightarrow> \<exists>s. writeNode node out = (Inl e, out @ s)"
  using writes_writeNode [of node] by (auto simp: writes_def split: sum.splits)

text \<open>The configurations that the machine server runs name the block of the vent; the graph takes the vent
  to be an object, so it ends with an exception after the header.\<close>

lemma makeDOT_vent_named:
  assumes "reader json Null = (True, Obj ms)" and "obj_get ms ''vent'' = Str name"
  shows "\<exists>e. is_runtime_error e \<and> MachineGraph_makeDOT reader json out = (Inl e, out @ dot_header)"
proof -
  have "\<exists>e. is_runtime_error e \<and> get_obj (Str name) = Inl e" by (simp add: accessor_defs check_type_def)
  then obtain e where e: "is_runtime_error e" "get_obj (Str name) = Inl e" by blast
  then have "writeNode (Str name) out' = (Inl e, out')" for out'
    by (simp add: writeNode_def JsonObject_getString_def)
  with assms e(1) show ?thesis
    by (simp add: MachineGraph_makeDOT_def JsonObject_read_def JsonObject_getChild_def emit_def sbind_def slift_def)
qed

end
