(* ===== verification/Utils.thy ===== *)
theory Utils
  imports Runner Build Graph
begin

text \<open>
  The pipes that can be put between two blocks (\<open>pipe/pipecount.cpp\<close>, \<open>pipe/pipedump.cpp\<close>) and the
  small tools (\<open>util/\<close>): \<open>send\<close>, \<open>listen\<close>, \<open>results\<close>, \<open>killall\<close>, \<open>blockinfo\<close> and \<open>mockblock\<close>.

  A loop that never returns is a step over what its sockets give; what it has done is its state,
  also where an exception ends the program (\<open>Stop (e, s)\<close>).  The options are parsed by Boost; the
  models start from what it found.
\<close>

section \<open>pipecount and pipedump\<close>

text \<open>What has been passed on, the counter, and what was put in the log.\<close>

record ('m, 'l) pipe_state =
  ps_sent :: "'m list"
  ps_n :: int
  ps_log :: "'l list"

definition pipe_init :: "('m, 'l) pipe_state" where
  "pipe_init = \<lparr>ps_sent = [], ps_n = 0, ps_log = []\<rparr>"

type_synonym ('m, 'l) pipe_outcome = "(('m, 'l) pipe_state, exn \<times> ('m, 'l) pipe_state) outcome"

definition pipe_next :: "('m, 'l) pipe_state \<Rightarrow> ('m, 'l) pipe_outcome" where
  "pipe_next s = (case add_int32 (ps_n s) 1 of Inl e \<Rightarrow> Stop (e, s) | Inr n \<Rightarrow> Continue (s\<lparr>ps_n := n\<rparr>))"

definition pipe_send :: "'m \<Rightarrow> unit res \<Rightarrow> ('m, 'l) pipe_state \<Rightarrow> ('m, 'l) pipe_outcome" where
  "pipe_send m out s = (case out of Inl e \<Rightarrow> Stop (e, s) | Inr _ \<Rightarrow> Continue (s\<lparr>ps_sent := ps_sent s @ [m]\<rparr>))"

definition then_do :: "('s, 'r) outcome \<Rightarrow> ('s \<Rightarrow> ('s, 'r) outcome) \<Rightarrow> ('s, 'r) outcome" where
  "then_do x f = (case x of Continue s \<Rightarrow> f s | Stop r \<Rightarrow> Stop r)"

text \<open>\<open>(n % count) == 0\<close>: what is put in the log then may throw.\<close>

definition every_so_often :: "int \<Rightarrow> 'l res \<Rightarrow> ('m, 'l) pipe_state \<Rightarrow> ('m, 'l) pipe_outcome" where
  "every_so_often cnt entry s =
     (if cnt = 0 then Stop (Undefined ''division by zero'', s)
      else if cnt dvd ps_n s
      then (case entry of Inl e \<Rightarrow> Stop (e, s) | Inr x \<Rightarrow> Continue (s\<lparr>ps_log := ps_log s @ [x]\<rparr>))
      else Continue s)"

text \<open>One turn: what \<open>recv\<close> gives and how \<open>send\<close> ends.  \<open>pipecount\<close> passes the message on and then
  counts it; \<open>pipedump\<close> unpacks it, counts it and then passes it on.\<close>

definition pipecount_turn ::
  "int \<Rightarrow> ('m, int) pipe_state \<Rightarrow> 'm res \<times> unit res \<Rightarrow> ('m, int) pipe_outcome" where
  "pipecount_turn cnt s ev =
     (case fst ev of
        Inl e \<Rightarrow> Stop (e, s)
      | Inr m \<Rightarrow>
          then_do (pipe_send m (snd ev) s) (\<lambda>s1. then_do (every_so_often cnt (Inr (ps_n s1)) s1) pipe_next))"

definition pipedump_turn ::
  "int \<Rightarrow> ('m \<Rightarrow> string res) \<Rightarrow> ('m, string) pipe_state \<Rightarrow> 'm res \<times> unit res \<Rightarrow> ('m, string) pipe_outcome" where
  "pipedump_turn cnt unpack_any s ev =
     (case fst ev of
        Inl e \<Rightarrow> Stop (e, s)
      | Inr m \<Rightarrow>
          then_do (every_so_often cnt (unpack_any m) s) (\<lambda>s1. then_do (pipe_next s1) (pipe_send m (snd ev))))"

text \<open>\<open>main\<close>: an exit code (\<open>Stop (Inr code)\<close>), an exception, or still running.\<close>

definition pipe_ports :: "port_step list" where
  "pipe_ports = [Join ''pipeFrom'', Join ''control'', Join ''pipeTo'']"

definition pipe_main ::
  "json_reader \<Rightarrow> string list \<Rightarrow> (string \<Rightarrow> socket) \<Rightarrow>
   (int \<Rightarrow> ('m, 'l) pipe_state \<Rightarrow> 'm res \<times> unit res \<Rightarrow> ('m, 'l) pipe_outcome) \<Rightarrow>
   ('m res \<times> unit res) list \<Rightarrow> (('m, 'l) pipe_state, int res \<times> ('m, 'l) pipe_state) outcome" where
  "pipe_main reader argv socks turn evs =
     (if length argv \<noteq> 4 then Stop (Inr 1, pipe_init)
      else let (ok1, pipes) = JsonObject_read reader Null (argv ! 1) in
      if \<not> ok1 then Stop (Inr 1, pipe_init)
      else let (ok2, r) = JsonObject_read reader Null (argv ! 2) in
      if \<not> ok2 then Stop (Inr 1, pipe_init)
      else case rbind (JsonObject_getInt r ''every'' 100)
                  (\<lambda>cnt. rmap (\<lambda>ok. (cnt, ok)) (open_ports socks pipes pipe_ports)) of
             Inl e \<Rightarrow> Stop (Inl e, pipe_init)
           | Inr (cnt, ok) \<Rightarrow>
               if \<not> ok then Stop (Inr 1, pipe_init)
               else (case fst (run (turn cnt) pipe_init evs) of
                       Continue s \<Rightarrow> Continue s
                     | Stop (e, s) \<Rightarrow> Stop (Inl e, s)))"

definition pipecount_main where
  "pipecount_main reader argv socks evs = pipe_main reader argv socks pipecount_turn evs"

definition pipedump_main where
  "pipedump_main reader argv socks unpack_any evs =
     pipe_main reader argv socks (\<lambda>cnt. pipedump_turn cnt unpack_any) evs"

section \<open>send\<close>

text \<open>What is packed: numbers and strings, alone, in a pair, in a tuple, or strings in a vector.\<close>

datatype packed_item = Packed_int int | Packed_str string

datatype packed =
    Packed_val packed_item
  | Packed_pair packed_item packed_item
  | Packed_tuple packed_item packed_item packed_item
  | Packed_vector "string list"

text \<open>\<open>try { .. lexical_cast<int>(s) .. } catch (bad_lexical_cast &) { .. }\<close>.\<close>

definition if_int :: "string \<Rightarrow> (int \<Rightarrow> 'a) \<Rightarrow> 'a \<Rightarrow> 'a" where
  "if_int s yes no = (case lexical_cast_int s of Inr v \<Rightarrow> yes v | Inl _ \<Rightarrow> no)"

definition packval :: "string \<Rightarrow> packed" where
  "packval s = if_int s (\<lambda>v. Packed_val (Packed_int v)) (Packed_val (Packed_str s))"

definition packpair :: "string \<Rightarrow> string \<Rightarrow> packed" where
  "packpair s1 s2 =
     if_int s1
       (\<lambda>v1. if_int s2
         (\<lambda>v2. Packed_pair (Packed_int v1) (Packed_int v2))
         (Packed_pair (Packed_int v1) (Packed_str s2)))
       (if_int s2
         (\<lambda>v2. Packed_pair (Packed_str s1) (Packed_int v2))
         (Packed_pair (Packed_str s1) (Packed_str s2)))"

definition packtuple :: "string \<Rightarrow> string \<Rightarrow> string \<Rightarrow> packed" where
  "packtuple s1 s2 s3 =
     if_int s1
       (\<lambda>v1. if_int s2
         (\<lambda>v2. if_int s3
           (\<lambda>v3. Packed_tuple (Packed_int v1) (Packed_int v2) (Packed_int v3))
           (Packed_tuple (Packed_int v1) (Packed_int v2) (Packed_str s3)))
         (if_int s3
           (\<lambda>v3. Packed_tuple (Packed_int v1) (Packed_str s2) (Packed_int v3))
           (Packed_tuple (Packed_int v1) (Packed_str s2) (Packed_str s3))))
       (if_int s2
         (\<lambda>v2. if_int s3
           (\<lambda>v3. Packed_tuple (Packed_str s1) (Packed_int v2) (Packed_int v3))
           (Packed_tuple (Packed_str s1) (Packed_int v2) (Packed_str s3)))
         (if_int s3
           (\<lambda>v3. Packed_tuple (Packed_str s1) (Packed_str s2) (Packed_int v3))
           (Packed_tuple (Packed_str s1) (Packed_str s2) (Packed_str s3))))"

text \<open>The exit code and what was sent.\<close>

definition send_main :: "string list \<Rightarrow> socket \<Rightarrow> unit res \<Rightarrow> int res \<times> packed list" where
  "send_main argv sock out =
     (if length argv < 4 then (Inr 1, [])
      else case (if argv ! 1 = ''bind'' then try_sock sock (Sock_bind (argv ! 2))
                 else if argv ! 1 = ''connect'' then try_sock sock (Sock_connect (argv ! 2))
                 else Inr False) of
             Inl e \<Rightarrow> (Inl e, [])
           | Inr False \<Rightarrow> (Inr 1, [])
           | Inr True \<Rightarrow>
               let p = (if length argv = 4 then packval (argv ! 3)
                        else if length argv = 5 then packpair (argv ! 3) (argv ! 4)
                        else if length argv = 6 then packtuple (argv ! 3) (argv ! 4) (argv ! 5)
                        else Packed_vector (drop 3 argv))
               in case out of Inl e \<Rightarrow> (Inl e, []) | Inr _ \<Rightarrow> (Inr 0, [p]))"

section \<open>listen and results\<close>

text \<open>\<open>with\<close> and \<open>port\<close>: a word that is neither \<open>bind\<close> nor \<open>connect\<close> is reported and the program
  goes on with a socket that is neither.\<close>

definition open_with :: "socket \<Rightarrow> string \<Rightarrow> string \<Rightarrow> bool res" where
  "open_with sock how port =
     (if how = ''bind'' then try_sock sock (Sock_bind port)
      else if how = ''connect'' then try_sock sock (Sock_connect port)
      else Inr True)"

text \<open>A turn of the loops: what \<open>recv\<close> gives and whether a signal has arrived.  An error of the socket
  leaves the message empty.  \<open>use\<close> is what is done with the message and may throw; its results are
  the state.\<close>

definition listen_turn ::
  "'m \<Rightarrow> ('m \<Rightarrow> 'x res) \<Rightarrow> 'x list \<Rightarrow> 'm res \<times> bool \<Rightarrow> ('x list, int res \<times> 'x list) outcome" where
  "listen_turn no_msg use xs ev =
     (case catch_zmq no_msg (fst ev) of
        Inl e \<Rightarrow> Stop (Inl e, xs)
      | Inr m \<Rightarrow>
          if snd ev then Stop (Inr 0, xs)
          else (case use m of Inl e \<Rightarrow> Stop (Inl e, xs) | Inr x \<Rightarrow> Continue (xs @ [x])))"

definition listen_main ::
  "(string \<times> string) option \<Rightarrow> socket \<Rightarrow> 'm \<Rightarrow> ('m \<Rightarrow> string res) \<Rightarrow> ('m res \<times> bool) list \<Rightarrow>
   (string list, int res \<times> string list) outcome" where
  "listen_main opts sock no_msg unpack_any evs =
     (case opts of
        None \<Rightarrow> Stop (Inr 0, [])
      | Some (how, port) \<Rightarrow>
          (case open_with sock how port of
             Inl e \<Rightarrow> Stop (Inl e, [])
           | Inr ok \<Rightarrow> if \<not> ok then Stop (Inr 1, []) else fst (run (listen_turn no_msg unpack_any) [] evs)))"

text \<open>\<open>results\<close> puts the documents that the texts of the messages stand for into a table; the database
  connects or throws.\<close>

definition results_main ::
  "(string \<times> string) option \<Rightarrow> unit res \<Rightarrow> socket \<Rightarrow> 'm \<Rightarrow> ('m, StringMsg) codec \<Rightarrow> (string \<Rightarrow> 'd res) \<Rightarrow>
   ('m res \<times> bool) list \<Rightarrow> ('d list, int res \<times> 'd list) outcome" where
  "results_main opts db sock no_msg c fromjson evs =
     (case opts of
        None \<Rightarrow> Stop (Inr 0, [])
      | Some (how, port) \<Rightarrow>
          (case rbind db (\<lambda>_. open_with sock how port) of
             Inl e \<Rightarrow> Stop (Inl e, [])
           | Inr ok \<Rightarrow>
               if \<not> ok then Stop (Inr 1, [])
               else fst (run (listen_turn no_msg
                      (\<lambda>m. rbind (Msg_of_message c m) (\<lambda>msg. fromjson (DataMsg_getPayload msg)))) [] evs)))"

section \<open>killall\<close>

datatype signal = SIGTERM | SIGKILL

text \<open>The signals sent; a line that is no number throws, and nothing catches it.\<close>

fun kill_lines :: "string list \<Rightarrow> ((int \<times> signal) list, unit) prog" where
  "kill_lines [] = sreturn ()"
| "kill_lines (line # ls) =
     sbind (slift (lexical_cast_int line)) (\<lambda>pid.
     sbind (\<lambda>s. (Inr (), s @ [(pid, SIGTERM), (pid, SIGKILL)])) (\<lambda>_. kill_lines ls))"

definition killall_main :: "string option \<Rightarrow> (string \<Rightarrow> string option) \<Rightarrow> int res \<times> (int \<times> signal) list" where
  "killall_main pidfile files =
     (case pidfile of
        None \<Rightarrow> (Inr 0, [])
      | Some filename \<Rightarrow>
          (case files filename of
             None \<Rightarrow> (Inr 0, [])
           | Some text \<Rightarrow> sbind (kill_lines (lines_of text)) (\<lambda>_. sreturn 0) []))"

text \<open>What \<open>MachineRunner::runOne\<close> and \<open>run\<close> write to \<open>task.pids\<close>.\<close>

definition pidfile_text :: "int list \<Rightarrow> string" where
  "pidfile_text pids = concat (map (\<lambda>pid. show_int pid @ [NL]) pids)"

section \<open>blockinfo\<close>

fun list_blocks :: "JsonArray \<Rightarrow> (string, unit) prog" where
  "list_blocks [] = sreturn ()"
| "list_blocks (b # bs) =
     sbind (slift (JsonObject_getString (JsonArray_getValue b) ''name'')) (\<lambda>name.
     sbind (emit (name @ [NL])) (\<lambda>_. list_blocks bs))"

text \<open>The line that tells how to listen to a pipe.\<close>

definition listen_line :: "JsonObject \<Rightarrow> (string, unit) prog" where
  "listen_line val =
     sbind (slift (JsonObject_getString val ''mode'')) (\<lambda>mode.
     sbind (emit (''./listen '' @ mode)) (\<lambda>_.
     sbind (if mode = ''bind''
            then sbind (slift (JsonObject_getString val ''address'')) (\<lambda>a. emit ('' tcp://'' @ a))
            else if mode = ''connect''
            then sbind (slift (JsonObject_getString val ''node'')) (\<lambda>n. emit ('' tcp://'' @ n))
            else emit ([TAB, TAB] @ ''bad mode'' @ [NL])) (\<lambda>_.
     sbind (slift (JsonObject_getInt val ''port'' (-1))) (\<lambda>port.
       emit ('':'' @ show_int port @ [NL])))))"

fun listen_lines :: "members \<Rightarrow> (string, unit) prog" where
  "listen_lines [] = sreturn ()"
| "listen_lines (i # ms) = sbind (listen_line (JsonObject_getValue i)) (\<lambda>_. listen_lines ms)"

definition show_block :: "JsonObject \<Rightarrow> JsonObject \<Rightarrow> (string, unit) prog" where
  "show_block r obj =
     sbind (slift (JsonObject_getString obj ''exe'')) (\<lambda>exe.
     sbind (emit (''exe: '' @ exe @ [NL])) (\<lambda>_.
     sbind (slift (PipeBuilder_collect r obj (-1))) (\<lambda>pipes.
     sbind (emit ''pipes: '') (\<lambda>_.
     sbind (slift (JsonObject_write pipes False)) (\<lambda>t.
     sbind (emit (t @ [NL])) (\<lambda>_.
     sbind (slift (JsonObject_getChildAsString obj ''config'')) (\<lambda>conf.
     sbind (emit (''config: '' @ conf @ [NL])) (\<lambda>_.
     sbind (emit (''test with: '' @ [NL])) (\<lambda>_.
     sbind (slift (JsonObject_iter pipes)) listen_lines)))))))))"

fun find_block :: "JsonObject \<Rightarrow> string \<Rightarrow> JsonArray \<Rightarrow> (string, bool) prog" where
  "find_block r block [] = sreturn False"
| "find_block r block (b # bs) =
     sbind (slift (JsonObject_getString (JsonArray_getValue b) ''name'')) (\<lambda>name.
       if name = block then sbind (show_block r (JsonArray_getValue b)) (\<lambda>_. sreturn True)
       else find_block r block bs)"

text \<open>\<open>main\<close> for the options \<open>help\<close>, \<open>jsonConfig\<close> and \<open>block\<close>: the exit code and what is printed.\<close>

definition blockinfo_main ::
  "json_reader \<Rightarrow> (string \<Rightarrow> string option) \<Rightarrow> bool \<Rightarrow> string option \<Rightarrow> string option \<Rightarrow> int res \<times> string" where
  "blockinfo_main reader files help jsonConfig block =
     (case jsonConfig of
        None \<Rightarrow> (Inr 0, [])
      | Some filename \<Rightarrow>
          if help then (Inr 0, [])
          else case files filename of
            None \<Rightarrow> (Inr 1, [])
          | Some text \<Rightarrow>
              scatch is_std_exception
                (let (ok, r) = JsonObject_read reader Null text in
                 if \<not> ok then sreturn 1
                 else sbind (slift (JsonObject_getArray r ''blocks'')) (\<lambda>blocks.
                   case block of
                     None \<Rightarrow> sbind (emit (''blocks: '' @ [NL])) (\<lambda>_. sbind (list_blocks blocks) (\<lambda>_. sreturn 0))
                   | Some name \<Rightarrow>
                       sbind (find_block r name blocks) (\<lambda>found.
                       sbind (if \<not> found then emit (''block '' @ name @ '' not found.'' @ [NL]) else sreturn ())
                         (\<lambda>_. sreturn 0))))
                (sreturn 0) [])"

section \<open>mockblock\<close>

text \<open>The sockets that take the block's place: what each pipe opens, and the first that cannot be
  opened.  Only a mode that is neither ends the program there; an error of a socket is an exception.\<close>

fun mock_sockets ::
  "(string \<Rightarrow> socket) \<Rightarrow> members \<Rightarrow> (string \<times> string list, bool) prog" where
  "mock_sockets socks [] = sreturn True"
| "mock_sockets socks (i # ms) =
     (let val = JsonObject_getValue i; name = JsonObject_getKey i;
          note_it = (\<lambda>t s. (Inr (), (fst s @ t, snd s))) in
      sbind (slift (JsonObject_getString val ''mode'')) (\<lambda>mode.
      sbind (slift (JsonObject_getInt val ''port'' (-1))) (\<lambda>port.
      sbind (note_it (''Listening with '' @ mode)) (\<lambda>_.
      if mode = ''bind''
      then sbind (slift (JsonObject_getString val ''address'')) (\<lambda>a.
           sbind (slift (socks name (Sock_bind (tcp_url a port)))) (\<lambda>_.
           sbind (note_it ('' tcp://'' @ a @ '':'' @ show_int port @ [NL])) (\<lambda>_.
           sbind (\<lambda>s. (Inr (), (fst s, snd s @ [name]))) (\<lambda>_. mock_sockets socks ms))))
      else if mode = ''connect''
      then sbind (slift (JsonObject_getString val ''node'')) (\<lambda>n.
           sbind (slift (socks name (Sock_connect (tcp_url n port)))) (\<lambda>_.
           sbind (note_it ('' tcp://'' @ n @ '':'' @ show_int port @ [NL])) (\<lambda>_.
           sbind (\<lambda>s. (Inr (), (fst s, snd s @ [name]))) (\<lambda>_. mock_sockets socks ms))))
      else sreturn False))))"

text \<open>A turn of the loop: the outcome of \<open>poll\<close>, and for each socket, in order, nothing or what
  \<open>recv\<close> gives with whether a signal has arrived.  A signal ends the round over the sockets and not
  the loop; an error of \<open>poll\<close> ends the loop.\<close>

fun mock_round ::
  "'m \<Rightarrow> ('m \<Rightarrow> string res) \<Rightarrow> (string \<times> ('m res \<times> bool) option) list \<Rightarrow> (string, unit) prog" where
  "mock_round no_msg unpack_any [] = sreturn ()"
| "mock_round no_msg unpack_any ((name, None) # rs) = mock_round no_msg unpack_any rs"
| "mock_round no_msg unpack_any ((name, Some (rcv, quit)) # rs) =
     sbind (slift (catch_zmq no_msg rcv)) (\<lambda>m.
       if quit then sreturn ()
       else sbind (slift (unpack_any m)) (\<lambda>obj.
            sbind (emit (name @ '': '' @ obj @ [NL])) (\<lambda>_. mock_round no_msg unpack_any rs)))"

definition mock_turn ::
  "'m \<Rightarrow> ('m \<Rightarrow> string res) \<Rightarrow> string list \<Rightarrow> string \<Rightarrow> int res \<times> ('m res \<times> bool) option list \<Rightarrow>
   (string, unit res \<times> string) outcome" where
  "mock_turn no_msg unpack_any names out ev =
     (case scatch (\<lambda>e. case e of Zmq_error _ \<Rightarrow> True | _ \<Rightarrow> False)
             (sbind (slift (fst ev)) (\<lambda>rc.
                sbind (if rc > 0 then mock_round no_msg unpack_any (zip names (snd ev)) else sreturn ())
                  (\<lambda>_. sreturn False)))
             (sreturn True) out of
        (Inl e, out') \<Rightarrow> Stop (Inl e, out')
      | (Inr True, out') \<Rightarrow> Stop (Inr (), out')
      | (Inr False, out') \<Rightarrow> Continue out')"

text \<open>The block, and its loop; a program that still runs is \<open>Continue\<close>.\<close>

definition mock_block ::
  "(string \<Rightarrow> socket) \<Rightarrow> 'm \<Rightarrow> ('m \<Rightarrow> string res) \<Rightarrow> int \<Rightarrow> JsonObject \<Rightarrow> JsonObject \<Rightarrow>
   (int res \<times> ('m res \<times> bool) option list) list \<Rightarrow> (string, int res \<times> string) outcome" where
  "mock_block socks no_msg unpack_any control r obj evs =
     (case rbind (PipeBuilder_collect r obj control) JsonObject_iter of
        Inl e \<Rightarrow> Stop (Inl e, [])
      | Inr pipes \<Rightarrow>
          (case mock_sockets socks pipes ([], []) of
             (Inl e, s) \<Rightarrow> Stop (Inl e, fst s)
           | (Inr False, s) \<Rightarrow> Stop (Inr 1, fst s)
           | (Inr True, s) \<Rightarrow>
               (case fst (run (mock_turn no_msg unpack_any (snd s)) (fst s) evs) of
                  Continue out \<Rightarrow> Continue out
                | Stop (q, out) \<Rightarrow> Stop (rmap (\<lambda>_. 0) q, out))))"

fun mock_find ::
  "string \<Rightarrow> (JsonObject \<Rightarrow> (string, int res \<times> string) outcome) \<Rightarrow> JsonArray \<Rightarrow>
   (string, int res \<times> string) outcome" where
  "mock_find block body [] = Stop (Inr 0, [])"
| "mock_find block body (b # bs) =
     (case JsonObject_getString (JsonArray_getValue b) ''name'' of
        Inl e \<Rightarrow> Stop (Inl e, [])
      | Inr name \<Rightarrow> if name = block then body (JsonArray_getValue b) else mock_find block body bs)"

text \<open>Without the option \<open>block\<close>, \<open>as<string>()\<close> throws \<open>bad_any_cast\<close> outside the \<open>try\<close> block.\<close>

definition mockblock_main ::
  "json_reader \<Rightarrow> (string \<Rightarrow> string option) \<Rightarrow> (string \<Rightarrow> socket) \<Rightarrow> 'm \<Rightarrow> ('m \<Rightarrow> string res) \<Rightarrow>
   bool \<Rightarrow> string option \<Rightarrow> int \<Rightarrow> string option \<Rightarrow>
   (int res \<times> ('m res \<times> bool) option list) list \<Rightarrow> (string, int res \<times> string) outcome" where
  "mockblock_main reader files socks no_msg unpack_any help jsonConfig control block evs =
     (case jsonConfig of
        None \<Rightarrow> Stop (Inr 0, [])
      | Some filename \<Rightarrow>
          if help then Stop (Inr 0, [])
          else case files filename of
            None \<Rightarrow> Stop (Inr 1, [])
          | Some text \<Rightarrow>
              (case block of
                 None \<Rightarrow> Stop (Inl (Runtime_error ''bad_any_cast''), [])
               | Some name \<Rightarrow>
                   let (ok, r) = JsonObject_read reader Null text in
                   if \<not> ok then Stop (Inr 1, [])
                   else
                     (case (case JsonObject_getArray r ''blocks'' of
                              Inl e \<Rightarrow> Stop (Inl e, [])
                            | Inr blocks \<Rightarrow>
                                mock_find name (\<lambda>obj. mock_block socks no_msg unpack_any control r obj evs) blocks) of
                        Stop (Inl e, out) \<Rightarrow> Stop (if is_std_exception e then Inr 0 else Inl e, out)
                      | x \<Rightarrow> x)))"

section \<open>Pipes pass everything on\<close>

text \<open>What a pipe owes the blocks on its two sides: a turn that goes on has sent the message it
  received, after the ones before.\<close>

locale forwarder =
  fixes turn :: "('m, 'l) pipe_state \<Rightarrow> 'm res \<times> unit res \<Rightarrow> ('m, 'l) pipe_outcome"
  assumes turn_forwards: "turn s ev = Continue s' \<Longrightarrow> \<exists>m. fst ev = Inr m \<and> ps_sent s' = ps_sent s @ [m]"
    and turn_ends: "turn s ev = Stop (e, s') \<Longrightarrow> \<exists>sent. ps_sent s' = ps_sent s @ sent
      \<and> (sent = [] \<or> (\<exists>m. fst ev = Inr m \<and> sent = [m]))"
begin

lemma run_forwards:
  "run turn s evs = (Continue s', rest) \<Longrightarrow> \<exists>ms. map fst evs = map Inr ms \<and> ps_sent s' = ps_sent s @ ms"
proof (induction evs arbitrary: s)
  case (Cons ev evs)
  then obtain s1 where s1: "turn s ev = Continue s1" "run turn s1 evs = (Continue s', rest)"
    by (auto split: outcome.splits)
  from turn_forwards [OF s1(1)] obtain m where m: "fst ev = Inr m" "ps_sent s1 = ps_sent s @ [m]" by blast
  from Cons.IH [OF s1(2)] obtain ms where ms: "map fst evs = map Inr ms" "ps_sent s' = ps_sent s1 @ ms" by blast
  show ?case by (rule exI [of _ "m # ms"]) (simp only: list.map m ms append_assoc append.simps simp_thms)
qed simp

lemma run_never_invents:
  "fst (run turn s evs) = Stop (e, s') \<Longrightarrow>
     \<exists>ms rest. map fst evs = map Inr ms @ rest \<and> ps_sent s' = ps_sent s @ ms"
proof (induction evs arbitrary: s)
  case (Cons ev evs)
  show ?case
  proof (cases "turn s ev")
    case (Continue s1)
    from turn_forwards [OF this] obtain m where "fst ev = Inr m" "ps_sent s1 = ps_sent s @ [m]" by blast
    moreover have "fst (run turn s1 evs) = Stop (e, s')" using Cons.prems Continue by simp
    then obtain ms rest where "map fst evs = map Inr ms @ rest" "ps_sent s' = ps_sent s1 @ ms"
      using Cons.IH by blast
    ultimately show ?thesis by (intro exI [of _ "m # ms"] exI [of _ rest]) simp
  next
    case (Stop r)
    with Cons.prems have "turn s ev = Stop (e, s')" by simp
    from turn_ends [OF this] obtain sent where sent: "ps_sent s' = ps_sent s @ sent"
      "sent = [] \<or> (\<exists>m. fst ev = Inr m \<and> sent = [m])" by blast
    from sent(2) show ?thesis
    proof
      assume "sent = []"
      with sent(1) show ?thesis by (intro exI [of _ "[]"] exI [of _ "map fst (ev # evs)"]) simp
    next
      assume "\<exists>m. fst ev = Inr m \<and> sent = [m]"
      then obtain m where "fst ev = Inr m" "sent = [m]" by blast
      with sent(1) show ?thesis by (intro exI [of _ "[m]"] exI [of _ "map fst evs"]) simp
    qed
  qed
qed simp

end

lemmas pipe_turn_defs = then_do_def pipe_send_def every_so_often_def pipe_next_def

interpretation pipecount: forwarder "pipecount_turn cnt"
  by unfold_locales
    (auto simp: pipecount_turn_def pipe_turn_defs split: sum.splits outcome.splits if_splits)

interpretation pipedump: forwarder "pipedump_turn cnt unpack_any"
  by unfold_locales
    (auto simp: pipedump_turn_def pipe_turn_defs split: sum.splits outcome.splits if_splits)

text \<open>What the two pipes make of messages that all go through.\<close>

definition through :: "'m list \<Rightarrow> ('m res \<times> unit res) list" where
  "through ms = map (\<lambda>m. (Inr m, Inr ())) ms"

definition sampled :: "int \<Rightarrow> 'a list \<Rightarrow> (int \<times> 'a) list" where
  "sampled cnt xs = filter (\<lambda>(i, x). cnt dvd i) (zip (map int [0..<length xs]) xs)"

lemma sampled_snoc:
  "sampled cnt (xs @ [x]) = sampled cnt xs @ (if cnt dvd int (length xs) then [(int (length xs), x)] else [])"
  by (simp add: sampled_def)

lemma int32_step:
  "Suc n \<le> 2147483647 \<Longrightarrow> add_int32 (int n) 1 = Inr (int (Suc n))"
  by (simp add: add_int32_def in_int32_def)

lemma pipecount_turn_ok:
  assumes "cnt \<noteq> 0" and "ps_n s = int n" and "Suc n \<le> 2147483647"
  shows "pipecount_turn cnt s (Inr m, Inr ()) =
    Continue \<lparr>ps_sent = ps_sent s @ [m], ps_n = int (Suc n),
      ps_log = ps_log s @ (if cnt dvd int n then [int n] else [])\<rparr>"
  using assms int32_step [OF assms(3)] by (simp add: pipecount_turn_def pipe_turn_defs)

lemma pipedump_turn_ok:
  assumes "cnt \<noteq> 0" and "ps_n s = int n" and "Suc n \<le> 2147483647"
    and "cnt dvd int n \<Longrightarrow> unpack_any m = Inr x"
  shows "pipedump_turn cnt unpack_any s (Inr m, Inr ()) =
    Continue \<lparr>ps_sent = ps_sent s @ [m], ps_n = int (Suc n),
      ps_log = ps_log s @ (if cnt dvd int n then [x] else [])\<rparr>"
  using assms int32_step [OF assms(3)] by (simp add: pipedump_turn_def pipe_turn_defs)

lemma through_snoc: "through (ms @ [m]) = through ms @ [(Inr m, Inr ())]"
  by (simp add: through_def)

lemma pipecount_run:
  assumes "cnt \<noteq> 0" and "length ms \<le> 2147483647"
  shows "run (pipecount_turn cnt) pipe_init (through ms) =
    (Continue \<lparr>ps_sent = ms, ps_n = int (length ms), ps_log = map fst (sampled cnt ms)\<rparr>, [])"
  using assms(2)
proof (induction ms rule: rev_induct)
  case Nil
  then show ?case by (simp add: through_def pipe_init_def sampled_def)
next
  case (snoc m ms)
  then have IH: "run (pipecount_turn cnt) pipe_init (through ms) =
    (Continue \<lparr>ps_sent = ms, ps_n = int (length ms), ps_log = map fst (sampled cnt ms)\<rparr>, [])" by simp
  have len: "Suc (length ms) \<le> 2147483647" using snoc.prems by simp
  show ?case unfolding through_snoc run_snoc [OF IH]
    by (subst pipecount_turn_ok [OF assms(1) _ len]) (simp_all add: sampled_snoc)
qed

lemma pipedump_run:
  assumes "cnt \<noteq> 0" and "length ms \<le> 2147483647"
    and "\<forall>(i, m) \<in> set (sampled cnt ms). unpack_any m = Inr (shown m)"
  shows "run (pipedump_turn cnt unpack_any) pipe_init (through ms) =
    (Continue \<lparr>ps_sent = ms, ps_n = int (length ms), ps_log = map (shown \<circ> snd) (sampled cnt ms)\<rparr>, [])"
  using assms(2,3)
proof (induction ms rule: rev_induct)
  case Nil
  then show ?case by (simp add: through_def pipe_init_def sampled_def)
next
  case (snoc m ms)
  have IH: "run (pipedump_turn cnt unpack_any) pipe_init (through ms) =
    (Continue \<lparr>ps_sent = ms, ps_n = int (length ms), ps_log = map (shown \<circ> snd) (sampled cnt ms)\<rparr>, [])"
    using snoc.prems by (intro snoc.IH) (auto simp: sampled_snoc)
  have len: "Suc (length ms) \<le> 2147483647" using snoc.prems by simp
  have "cnt dvd int (length ms) \<Longrightarrow> unpack_any m = Inr (shown m)"
    using snoc.prems(2) by (simp add: sampled_snoc)
  then show ?case unfolding through_snoc run_snoc [OF IH]
    by (subst pipedump_turn_ok [OF assms(1) _ len, where x = "shown m"]) (simp_all add: sampled_snoc)
qed

text \<open>
  Claim C23.  Putting a pipe between two blocks changes nothing for them: up to the overflow of its
  counter, \<open>pipecount\<close> and \<open>pipedump\<close> pass on every message they receive, once and in order, and log
  one in every so many, starting with the first (\<open>pipedump\<close> as long as those it unpacks can be).
\<close>

theorem pipes_are_transparent:
  assumes "cnt \<noteq> 0" and "length ms \<le> 2147483647"
    and "\<forall>(i, m) \<in> set (sampled cnt ms). unpack_any m = Inr (shown m)"
  shows "run (pipecount_turn cnt) pipe_init (through ms) =
      (Continue \<lparr>ps_sent = ms, ps_n = int (length ms), ps_log = map fst (sampled cnt ms)\<rparr>, [])
    \<and> run (pipedump_turn cnt unpack_any) pipe_init (through ms) =
      (Continue \<lparr>ps_sent = ms, ps_n = int (length ms), ps_log = map (shown \<circ> snd) (sampled cnt ms)\<rparr>, [])"
  using pipecount_run [OF assms(1,2)] pipedump_run [OF assms] by blast

theorem pipes_are_transparent_witness:
  "run (pipecount_turn 2) pipe_init (through [''a'', ''b'', ''c'']) =
      (Continue \<lparr>ps_sent = [''a'', ''b'', ''c''], ps_n = 3, ps_log = [0, 2]\<rparr>, [])
    \<and> run (pipedump_turn 2 Inr) pipe_init (through [''a'', ''b'', ''c'']) =
      (Continue \<lparr>ps_sent = [''a'', ''b'', ''c''], ps_n = 3, ps_log = [''a'', ''c'']\<rparr>, [])"
proof -
  have "sampled 2 [''a'', ''b'', ''c''] = [(0, ''a''), (2, ''c'')]" by code_simp
  with pipes_are_transparent [of 2 "[''a'', ''b'', ''c'']" Inr id] show ?thesis by simp
qed

text \<open>\<open>every\<close> 0 divides by zero: \<open>pipecount\<close> after it has passed on the first message, \<open>pipedump\<close>
  before.  A message that is no msgpack object is lost in \<open>pipedump\<close>, which ends.\<close>

lemma pipes_every_zero:
  "pipecount_turn 0 pipe_init (Inr m, Inr ()) = Stop (Undefined ''division by zero'', pipe_init\<lparr>ps_sent := [m]\<rparr>)"
  "pipedump_turn 0 unpack_any pipe_init (Inr m, Inr ()) = Stop (Undefined ''division by zero'', pipe_init)"
  by (simp_all add: pipecount_turn_def pipedump_turn_def pipe_turn_defs pipe_init_def)

lemma pipedump_loses_message:
  "cnt \<noteq> 0 \<Longrightarrow> unpack_any m = Inl e \<Longrightarrow> pipedump_turn cnt unpack_any pipe_init (Inr m, Inr ()) = Stop (e, pipe_init)"
  by (simp add: pipedump_turn_def pipe_turn_defs pipe_init_def)

section \<open>What send packs\<close>

definition item :: "string \<Rightarrow> packed_item" where
  "item s = (case lexical_cast_int s of Inr v \<Rightarrow> Packed_int v | Inl _ \<Rightarrow> Packed_str s)"

lemma packs_items:
  "packval s1 = Packed_val (item s1)"
  "packpair s1 s2 = Packed_pair (item s1) (item s2)"
  "packtuple s1 s2 s3 = Packed_tuple (item s1) (item s2) (item s3)"
  by (auto simp: packval_def packpair_def packtuple_def if_int_def item_def split: sum.split)

text \<open>
  The nested handlers of \<open>send\<close> for one, two and three arguments pack each argument on its
  own: as a number where it is one and as a string otherwise; from four arguments on all are packed
  as strings, numbers too.
\<close>

theorem send_packs_each_argument:
  "send_main (prog # ''connect'' # port # args) (\<lambda>_. Inr ()) (Inr ()) =
     (case args of
        [] \<Rightarrow> (Inr 1, [])
      | [s1] \<Rightarrow> (Inr 0, [Packed_val (item s1)])
      | [s1, s2] \<Rightarrow> (Inr 0, [Packed_pair (item s1) (item s2)])
      | [s1, s2, s3] \<Rightarrow> (Inr 0, [Packed_tuple (item s1) (item s2) (item s3)])
      | _ \<Rightarrow> (Inr 0, [Packed_vector args]))"
  by (auto simp: send_main_def packs_items try_sock_def split: list.split)

section \<open>killall ends what a run leaves\<close>

lemma show_nat_chars: "c \<in> set (show_nat n) \<Longrightarrow> is_digit_char c"
  using show_nat_digits [of n] by (simp add: list_all_iff)

lemma show_int_no_newline: "CHR 0x0A \<notin> set (show_int i)"
proof -
  have "\<not> is_digit_char (CHR 0x0A)" by (simp add: is_digit_char_def)
  then show ?thesis using show_nat_chars by (auto simp: show_int_def)
qed

lemma split_on_pidfile:
  "split_on (CHR 0x0A) (pidfile_text pids) = map show_int pids @ [[]]"
proof (induction pids)
  case (Cons pid pids)
  have "split_on c (w @ c # rest) = w # split_on c rest" if "c \<notin> set w" for c w rest
    using that by (induction w) auto
  from this [OF show_int_no_newline] Cons show ?case by (simp add: pidfile_text_def)
qed (simp add: pidfile_text_def)

lemma kill_lines_pids:
  "list_all in_int32 pids \<Longrightarrow>
     kill_lines (map show_int pids) s = (Inr (), s @ concat (map (\<lambda>pid. [(pid, SIGTERM), (pid, SIGKILL)]) pids))"
  by (induction pids arbitrary: s) (simp_all add: lexical_cast_show_int sbind_def sreturn_def slift_def)

lemma killall_pidfile:
  assumes "list_all in_int32 pids" and "files f = Some (pidfile_text pids)"
  shows "killall_main (Some f) files = (Inr 0, concat (map (\<lambda>pid. [(pid, SIGTERM), (pid, SIGKILL)]) pids))"
  using kill_lines_pids [OF assms(1), of "[]"] assms(2)
  by (simp add: killall_main_def lines_of_def split_on_pidfile sbind_def sreturn_def)

section \<open>blockinfo tells where to listen\<close>

text \<open>The line for a pipe names the endpoint that the block opens for it.\<close>

fun listen_args :: "sock_op \<Rightarrow> string" where
  "listen_args (Sock_bind url) = ''bind '' @ url"
| "listen_args (Sock_connect url) = ''connect '' @ url"
| "listen_args _ = []"

lemma listen_line_names_endpoint:
  assumes "Ports_join sock (Obj ms) name = Inr (True, [x, Sock_linger (-1)])"
  shows "listen_line (obj_get ms name) out = (Inr (), out @ ''./listen '' @ listen_args x @ [NL])"
proof -
  let ?val = "obj_get ms name"
  from assms obtain port mode where pm: "JsonObject_getInt ?val ''port'' (-1) = Inr port"
    "JsonObject_getString ?val ''mode'' = Inr mode"
    by (auto simp: Ports_join_def JsonObject_getChild_def res_simps split: if_splits)
  with assms consider a where "mode = ''bind''" "JsonObject_getString ?val ''address'' = Inr a" "x = Sock_bind (tcp_url a port)"
    | n where "mode = ''connect''" "JsonObject_getString ?val ''node'' = Inr n" "x = Sock_connect (tcp_url n port)"
    by (auto simp: Ports_join_def JsonObject_getChild_def Ports_bind_def Ports_connect_def Let_def res_simps split: if_splits)
  then show ?thesis
    using pm by cases (simp_all add: listen_line_def sbind_def slift_def emit_def tcp_url_def)
qed

text \<open>
  Claim C35.  \<open>killall\<close> cleans up after a run whose vent did not start: such a run returns false and waits
  for none of the processes of the machine, but the file of process ids it leaves makes \<open>killall\<close> end
  exactly those, in order, with \<open>SIGTERM\<close> and then \<open>SIGKILL\<close> (their ids being 32-bit numbers).
\<close>

theorem killall_ends_abandoned_run:
  assumes "JsonObject_read (re_reader p) Null cfg = (True, r)" and "re_connect p = Inr ()" and "\<forall>x. re_csocket p x = Inr ()"
    and "with_local_pids (TaskMonitor_start (re_fork p) control r) (rr_task s) = (Inr (True, pids), t1)"
    and "with_local_pids (TaskMonitor_doVent (re_fork p) control r) t1 = (Inr (False, vpids), t2)"
    and "0 < iterations" and "\<not> rt_interrupted_head (turns 0)"
    and "list_all in_int32 pids"
  shows "\<exists>s'. MachineRunner_runOne p failonerror cfg control turns iterations grp iter vars success s = (Inr False, s')
    \<and> ts_waited (rr_task s') = ts_waited (rr_task s)
    \<and> killall_main (Some ''task.pids'') [''task.pids'' \<mapsto> pidfile_text (rr_pidfile s')] =
        (Inr 0, concat (map (\<lambda>pid. [(pid, SIGTERM), (pid, SIGKILL)]) pids))"
  using runOne_leaves_processes [of p cfg r control s pids t1 vpids t2 iterations turns, OF assms(1-7), of failonerror grp iter vars success] killall_pidfile [OF assms(8)]
  by simp

theorem killall_ends_abandoned_run_witness:
  "\<exists>s'. MachineRunner_runOne (run_example_env [run_work] last_fork) True [] 0
      (\<lambda>k. run_example_turn) 2 0 0 [] Null runner_init = (Inr False, s')
    \<and> killall_main (Some ''task.pids'') [''task.pids'' \<mapsto> pidfile_text (rr_pidfile s')] =
        (Inr 0, [(4711, SIGTERM), (4711, SIGKILL)])"
proof -
  let ?p = "run_example_env [run_work] last_fork"
  obtain t1 t2 where t: "with_local_pids (TaskMonitor_start (re_fork ?p) 0 (run_example [run_work])) (rr_task (runner_init :: string runner_state)) =
      (Inr (True, [4711]), t1)"
    "with_local_pids (TaskMonitor_doVent (re_fork ?p) 0 (run_example [run_work])) t1 = (Inr (False, []), t2)"
    using last_fork_runs by (auto simp: run_example_env_def runner_init_def)
  from killall_ends_abandoned_run [OF run_example_read _ _ t, of 2 "\<lambda>k. run_example_turn" True 0 0 "[]" Null]
  show ?thesis by (auto simp: run_example_env_def run_example_turn_def in_int32_def)
qed

end
