(* ===== verification/Launch.thy ===== *)
theory Launch
  imports Mains Task_Monitor Json_Text
begin

text \<open>
  From the configuration of a machine to the sockets of its programs.  \<open>machine/TaskMonitor.cpp\<close>
  writes the pipes and the configuration of a block as JSON between apostrophes into a command line;
  \<open>/bin/sh\<close> splits it, \<open>core/Main.cpp\<close> reads the two texts, and the program joins the pipes
  (\<open>core/Ports.cpp\<close>).  This theory puts the models of these parts together: what a started program
  reads is what the machine's configuration says, and on sockets that work all its ports open.
\<close>

section \<open>The command line\<close>

text \<open>The shell, and Boost's parser of options, are parameters.  The shell takes the words of a set,
  which have no special characters, as they are, and what is between apostrophes as one word; the
  three positional options of a program are what does not begin with a dash.\<close>

definition shell_word :: "bool \<times> string \<Rightarrow> string" where
  "shell_word qw = (if fst qw then quoted (snd qw) else snd qw)"

definition apostrophe :: char where
  "apostrophe = CHR 0x27"

definition shell_documented :: "(string \<Rightarrow> string list) \<Rightarrow> string set \<Rightarrow> bool" where
  "shell_documented sh bare \<longleftrightarrow>
     (\<forall>ws. ws \<noteq> [] \<longrightarrow> (\<forall>(q, w) \<in> set ws. if q then apostrophe \<notin> set w else w \<in> bare) \<longrightarrow>
        sh (join_with (CHR '' '') (map shell_word ws)) = map snd ws)"

definition positional :: "string \<Rightarrow> bool" where
  "positional s \<longleftrightarrow> s \<noteq> [] \<and> hd s \<noteq> CHR ''-''"

definition options_documented :: "(string list \<Rightarrow> main_args) \<Rightarrow> bool" where
  "options_documented po \<longleftrightarrow>
     (\<forall>exe pipes config name. positional pipes \<longrightarrow> positional config \<longrightarrow> positional name \<longrightarrow>
        po [exe, pipes, config, name] =
          \<lparr>arg_help = False, arg_pipes = Some pipes, arg_config = Some config, arg_name = Some name\<rparr>)"

lemma shell_splits_command:
  assumes "shell_documented sh bare" and "exe \<in> bare" and "name \<in> bare"
    and "apostrophe \<notin> set pipes" and "apostrophe \<notin> set config"
  shows "sh (task_cmd exe pipes config name) = [exe, pipes, config, name]"
proof -
  let ?ws = "[(False, exe), (True, pipes), (True, config), (False, name)]"
  have "task_cmd exe pipes config name = join_with (CHR '' '') (map shell_word ?ws)"
    by (simp add: task_cmd_def shell_word_def)
  with assms show ?thesis
    unfolding shell_documented_def by (simp only:) (drule spec [of _ ?ws], simp)
qed

text \<open>An apostrophe in a configuration ends the quotes: what follows is another word.\<close>

lemma apostrophe_splits_configuration:
  "task_cmd exe pipes (c1 @ [apostrophe] @ '' '' @ [apostrophe] @ c2) name =
     join_with (CHR '' '') [exe, quoted pipes, quoted c1, quoted c2, name]"
  by (simp add: task_cmd_def quoted_def apostrophe_def)

section \<open>Texts without apostrophes\<close>

fun quote_free :: "jvalue \<Rightarrow> bool" where
  "quote_free (Obj ms) = list_all (\<lambda>(k, v). apostrophe \<notin> set k \<and> quote_free v) ms"
| "quote_free (Arr vs) = list_all quote_free vs"
| "quote_free (Str s) = (apostrophe \<notin> set s)"
| "quote_free _ = True"

lemma hex_char_apostrophe [simp]: "apostrophe \<noteq> to_hex_char (n mod 16)"
proof -
  have "n mod 16 < 16" by simp
  moreover have "m < 16 \<Longrightarrow> apostrophe \<noteq> to_hex_char m" for m
    by (auto simp: to_hex_char_def apostrophe_def code_eq_iff [symmetric])
  ultimately show ?thesis by blast
qed

lemma apostrophe_is [simp]: "apostrophe \<noteq> CHR 0x5C" "apostrophe \<noteq> CHR 0x22" "apostrophe \<noteq> CHR ''u''"
  "apostrophe \<noteq> CHR ''{''" "apostrophe \<noteq> CHR ''}''"
  by (simp_all add: apostrophe_def)

lemma esc_one_apostrophe: "c \<noteq> apostrophe \<Longrightarrow> apostrophe \<notin> set (esc_one raw esc c)"
proof (cases "add_esc_char c")
  case (Some e)
  then show ?thesis by (auto simp: esc_one_def add_esc_char_def apostrophe_def split: if_splits)
qed (use hex_char_apostrophe [of 0] in \<open>simp add: esc_one_def non_printable_to_string_def\<close>)

lemma output_str_apostrophe: "apostrophe \<notin> set s \<Longrightarrow> apostrophe \<notin> set (output_str g s)"
  by (induction s) (auto simp: output_str_def add_esc_chars_def esc_one_apostrophe)

lemma show_without:
  "\<not> is_digit_char c \<Longrightarrow> c \<notin> set (show_nat n)"
  "\<not> is_digit_char c \<Longrightarrow> c \<noteq> CHR ''-'' \<Longrightarrow> c \<notin> set (show_int i)"
proof -
  assume "\<not> is_digit_char c"
  then show nat: "c \<notin> set (show_nat n)" for n using show_nat_digits [of n] by (auto simp: list_all_iff)
  then show "c \<noteq> CHR ''-'' \<Longrightarrow> c \<notin> set (show_int i)" by (auto simp: show_int_def)
qed

lemma show_apostrophe: "apostrophe \<notin> set (show_int i)" "apostrophe \<notin> set (show_nat n)"
  by (rule show_without; simp add: is_digit_char_def apostrophe_def)+

lemma layout_apostrophe:
  "apostrophe \<notin> set (indent g l)" "apostrophe \<notin> set (new_line g)" "apostrophe \<notin> set (space g)"
  by (auto simp: indent_def new_line_def space_def apostrophe_def)

lemma output_apostrophe:
  "output_value g l v = Inr t \<Longrightarrow> quote_free v \<Longrightarrow> no_reals v \<Longrightarrow> apostrophe \<notin> set t"
  "output_members g l ms = Inr t \<Longrightarrow> quote_free (Obj ms) \<Longrightarrow> no_reals (Obj ms) \<Longrightarrow> apostrophe \<notin> set t"
  "output_elements g l vs = Inr t \<Longrightarrow> quote_free (Arr vs) \<Longrightarrow> no_reals (Arr vs) \<Longrightarrow> apostrophe \<notin> set t"
  "output_single_line g l vs = Inr t \<Longrightarrow> quote_free (Arr vs) \<Longrightarrow> no_reals (Arr vs) \<Longrightarrow> apostrophe \<notin> set t"
proof (induction g l v and g l ms and g l vs and g l vs arbitrary: t and t and t and t
    rule: output_value_output_members_output_elements_output_single_line.induct)
qed (auto simp: res_simps layout_apostrophe output_str_apostrophe show_apostrophe split: if_splits;
    auto simp: apostrophe_def)+

lemma JsonObject_write_apostrophe:
  "JsonObject_write j pp = Inr t \<Longrightarrow> quote_free j \<Longrightarrow> no_reals j \<Longrightarrow> apostrophe \<notin> set t"
  by (auto simp: JsonObject_write_def write_string_def output_apostrophe split: if_splits)

lemma JsonObject_write_total: "no_reals j \<Longrightarrow> \<exists>t. JsonObject_write j pp = Inr t"
  using JsonObject_write_read [OF simple_documented] by blast

text \<open>The text of an object, and of nothing, begins with a brace.\<close>

lemma JsonObject_write_positional:
  "JsonObject_write j pp = Inr t \<Longrightarrow> j = Null \<or> vtype j = obj_type \<Longrightarrow> positional t"
  by (cases j) (auto simp: JsonObject_write_def write_string_def positional_def res_simps split: if_splits)

section \<open>What a block's program reads\<close>

text \<open>What is looked up in a configuration without apostrophes has none.\<close>

lemma quote_free_get: "quote_free (Obj ms) \<Longrightarrow> quote_free (obj_get ms key)"
  by (induction ms) auto

lemma get_str_quote_free: "get_str v = Inr s \<Longrightarrow> quote_free v \<Longrightarrow> apostrophe \<notin> set s"
  by (cases v) auto

lemma quote_free_getString: "JsonObject_getString j key = Inr s \<Longrightarrow> quote_free j \<Longrightarrow> apostrophe \<notin> set s"
  using quote_free_get [of _ key] get_str_quote_free
  by (cases j) (force simp: JsonObject_getString_def res_simps simp del: quote_free.simps get_str_simps)+

lemma findObj_array_quote_free:
  "findObj_array pred a = Inr (Some b) \<Longrightarrow> list_all quote_free a \<Longrightarrow> quote_free b"
  by (induction a) (auto simp: res_simps JsonArray_getValue_def split: if_splits)

lemma findObj_quote_free:
  assumes "JsonObject_findObj r pred = Inr b" and "quote_free r"
  shows "quote_free b"
proof -
  have "findObj_members pred ms = Inr b \<Longrightarrow> quote_free (Obj ms) \<Longrightarrow> quote_free b" for ms
  proof (induction ms)
    case (Cons i ms)
    obtain k v where i: "i = (k, v)" by (cases i)
    show ?case
    proof (cases v)
      case (Arr a)
      with Cons i show ?thesis
        by (auto simp: res_simps JsonObject_isValueArray_def JsonObject_getValueArray_def
            split: option.splits dest: findObj_array_quote_free)
    qed (use Cons i in \<open>auto simp: res_simps JsonObject_isValueArray_def JsonObject_getValue_def Let_def
        split: if_splits\<close>)
  qed simp
  with assms show ?thesis
    by (cases r) (auto simp: JsonObject_findObj_def JsonObject_iter_def res_simps)
qed

text \<open>The pipes of a block hold names and numbers only, and are read back as they were written.\<close>

lemma collect_one_form:
  assumes "collect_one config val = Inr (Inr pipe)"
  shows "\<exists>a n p m. pipe = Obj [(a, Str n), (''port'', Value_of_int p), (''mode'', Str m)]"
  using assms by (auto simp: collect_one_def res_simps JsonObject_adds Let_def split: if_splits)

lemma collected_reads_back:
  assumes "list_all2 (\<lambda>(n, v) (n', p). n' = n \<and> collect_one config v = Inr (Inr p)) cs qs"
  shows "no_reals (Obj qs) \<and> as_read (Obj qs) = Obj qs"
  using assms
  by (induction rule: list_all2_induct) (auto simp: Value_of_int_def dest!: collect_one_form)

lemma pipes_read_back:
  assumes "PipeBuilder_collect config (Obj bms) control = Inr (Obj ps)"
    and "obj_get bms ''connections'' = Obj cs" and "obj_has bms ''connections''"
  shows "no_reals (Obj ps) \<and> read_back (Obj ps) = Obj ps"
proof -
  from collected_pipes [OF assms] obtain qs where
    qs: "list_all2 (\<lambda>(n, v) (n', p). n' = n \<and> collect_one config v = Inr (Inr p)) cs qs"
    and ps: "ps = qs @ (if control > 0 then [(''control'', control_pipe control)] else [])" by blast
  from collected_reads_back [OF qs] show ?thesis
    by (simp add: ps read_back_def control_pipe_def JsonObject_adds Value_of_int_def)
qed

lemma collect_one_quote_free:
  assumes "collect_one config val = Inr (Inr pipe)" and "quote_free config" and "quote_free val"
  shows "quote_free pipe"
proof -
  from assms(1) obtain mode where mode: "JsonObject_getString val ''mode'' = Inr mode"
    by (auto simp: collect_one_def res_simps)
  with assms(1) obtain j a n p where j: "JsonObject_getString j a = Inr n"
    "pipe = Obj [(a, Str n), (''port'', Value_of_int p), (''mode'', Str mode)]"
    "j = val \<and> a = ''address'' \<or> (\<exists>block. JsonObject_findObj config (JsonNamePredicate_match block) = Inr j) \<and> a = ''node''"
    by (auto simp: collect_one_def res_simps JsonObject_adds Let_def split: if_splits) blast
  then have "quote_free j" using assms(2,3) findObj_quote_free by blast
  moreover have "apostrophe \<notin> set a" "apostrophe \<notin> set ''port''" "apostrophe \<notin> set ''mode''"
    using j(3) by (auto simp: apostrophe_def)
  ultimately show ?thesis
    using j(1,2) mode assms(3) by (simp add: quote_free_getString Value_of_int_def)
qed

lemma pipes_quote_free:
  assumes "PipeBuilder_collect config (Obj bms) control = Inr (Obj ps)"
    and "obj_get bms ''connections'' = Obj cs" and "obj_has bms ''connections''"
    and "quote_free config" and "quote_free (Obj bms)"
  shows "quote_free (Obj ps)"
proof -
  from collected_pipes [OF assms(1-3)] obtain qs where
    qs: "list_all2 (\<lambda>(n, v) (n', p). n' = n \<and> collect_one config v = Inr (Inr p)) cs qs"
    and ps: "ps = qs @ (if control > 0 then [(''control'', control_pipe control)] else [])" by blast
  have "quote_free (Obj cs)" using quote_free_get [OF assms(5)] assms(2) by metis
  from qs this have "quote_free (Obj qs)"
    by (induction rule: list_all2_induct) (auto intro: collect_one_quote_free assms(4))
  moreover have "quote_free (Obj [(''control'', control_pipe control)])"
    by (simp add: control_pipe_def JsonObject_adds Value_of_int_def) (simp add: apostrophe_def)
  ultimately show ?thesis by (simp add: ps)
qed

text \<open>A command line of a block, run by the shell, and the arguments of the program's \<open>main\<close>.\<close>

lemma command_reads:
  assumes "shell_documented sh bare" and "options_documented po" and "spirit_documented sp"
    and "exe \<in> bare" and "name \<in> bare" and "positional name"
    and "JsonObject_write pj False = Inr pipes" and "JsonObject_write cj False = Inr config"
    and "pj = Null \<or> vtype pj = obj_type" and "cj = Null \<or> vtype cj = obj_type"
    and "quote_free pj" and "quote_free cj" and "no_reals pj" and "no_reals cj"
  shows "setup_main (json_spirit sp) (po (sh (task_cmd exe pipes config name))) =
    Some (read_back pj, read_back cj, ''org.skweltch.'' @ name)"
proof -
  have args: "po (sh (task_cmd exe pipes config name)) =
      \<lparr>arg_help = False, arg_pipes = Some pipes, arg_config = Some config, arg_name = Some name\<rparr>"
    using shell_splits_command [OF assms(1,4,5)] assms(2,6) JsonObject_write_apostrophe [OF assms(7,11,13)]
      JsonObject_write_apostrophe [OF assms(8,12,14)] JsonObject_write_positional [OF assms(7,9)]
      JsonObject_write_positional [OF assms(8,10)]
    by (simp add: options_documented_def)
  have reads: "JsonObject_read (json_spirit sp) old t = (True, read_back j)"
    if "JsonObject_write j False = Inr t" "no_reals j" for old t j
    using JsonObject_write_read [OF assms(3) that(2), of False old] that(1) by (auto dest: spec [of _ "[]"])
  show ?thesis
    using reads [OF assms(7,13)] reads [OF assms(8,14)] by (simp add: setup_main_def args)
qed

section \<open>What a block's program does with it\<close>

lemma block_cmds_form:
  assumes "block_cmds r control b = Inr cmds" and "cmd \<in> set cmds"
  shows "\<exists>name cnt exe pj pipes config k.
      JsonArray_getString b ''name'' = Inr name \<and> JsonArray_getInt b ''count'' = Inr cnt
    \<and> JsonArray_getString b ''exe'' = Inr exe \<and> PipeBuilder_collect r b control = Inr pj
    \<and> JsonObject_write pj False = Inr pipes \<and> JsonArray_getChildAsString b ''config'' = Inr config
    \<and> cmd = task_cmd exe pipes config (block_name name cnt k)"
  using assms by (auto simp: block_cmds_def res_simps JsonArray_getValue_def split: if_splits)

lemma open_ports_all:
  assumes "\<And>name. \<exists>l. Ports_join (socks name) pipes name = Inr (True, l)"
    and "\<And>name y. socks name y = Inr ()"
  shows "open_ports socks pipes steps = Inr True"
proof (induction steps)
  case (Cons x steps)
  show ?case
  proof (cases x)
    case (Join name)
    with assms(1) [of name] Cons show ?thesis by auto
  qed (use assms(2) Cons in simp)
qed simp

text \<open>A block whose texts survive the command line.\<close>

definition launchable :: "string set \<Rightarrow> members \<Rightarrow> bool" where
  "launchable bare bms \<longleftrightarrow>
     (case obj_get bms ''config'' of Null \<Rightarrow> True | Obj cms \<Rightarrow> no_reals (Obj cms) | _ \<Rightarrow> False)
   \<and> (\<forall>exe. JsonArray_getString (Obj bms) ''exe'' = Inr exe \<longrightarrow> exe \<in> bare)
   \<and> (\<forall>name cnt k. JsonArray_getString (Obj bms) ''name'' = Inr name \<longrightarrow>
        block_name name cnt k \<in> bare \<and> positional (block_name name cnt k))"

text \<open>
  Claim C11.  What a machine's configuration says of a block is what the block's program does, if the
  block's texts survive the command line: no text of the configuration holds an apostrophe (nothing
  escapes it), the block's own configuration is an object without reals or absent, the shell leaves
  the words for its program and its name (with an index, a pattern) as they are, and the options parser
  takes the name for no option.  No connection may be called control, the name of the pipe that
  \<open>PipeBuilder\<close> adds, and every operation on a socket has to succeed.  Then every command line that
  \<open>TaskMonitor\<close> makes of the block, split by the shell, gives a program in which \<open>setup_main\<close> reads
  back exactly the pipes that were built, and the block's configuration as \<open>read_back\<close> has it (unsigned
  integers that fit with a sign are read as signed ones, an absent configuration as an empty object); and
  all the ports it joins open, whatever ports the program asks for: those named in the configuration on
  the endpoint that it says there.
\<close>

theorem started_blocks_open_their_ports:
  assumes "shell_documented sh bare" and "options_documented po" and "spirit_documented sp"
    and "quote_free r" and "quote_free (Obj bms)" and "launchable bare bms"
    and "obj_has bms ''connections''" and "obj_get bms ''connections'' = Obj cs" and "in_int32 control"
    and "PipeBuilder_collect r (Obj bms) control = Inr (Obj ps)"
    and "block_cmds r control (Obj bms) = Inr cmds" and "cmd \<in> set cmds"
    and "\<forall>name y. socks name y = Inr ()" and "\<not> obj_has cs ''control''"
  shows "\<exists>name. setup_main (json_spirit sp) (po (sh cmd)) =
      Some (Obj ps, read_back (obj_get bms ''config''), ''org.skweltch.'' @ name)
    \<and> (\<forall>steps. open_ports socks (Obj ps) steps = Inr True)
    \<and> (\<forall>port. obj_has cs port \<longrightarrow>
         (\<exists>x. endpoint r (obj_get cs port) x
            \<and> Ports_join (socks port) (Obj ps) port = Inr (True, [x, Sock_linger (-1)])))"
proof -
  from block_cmds_form [OF assms(11,12)] obtain name cnt exe pipes config k where cmd:
    "JsonArray_getString (Obj bms) ''name'' = Inr name" "JsonArray_getString (Obj bms) ''exe'' = Inr exe"
    "JsonObject_write (Obj ps) False = Inr pipes" "JsonObject_write (obj_get bms ''config'') False = Inr config"
    "cmd = task_cmd exe pipes config (block_name name cnt k)"
    by (auto simp: assms(10) JsonArray_getChildAsString_def)
  note joins = pipes_join [OF assms(10,8,7,9)]
  have "\<exists>l. Ports_join (socks n) (Obj ps) n = Inr (True, l)" for n
  proof -
    have sock: "\<forall>y. socks n y = Inr ()" using assms(13) by blast
    consider "obj_has cs n" | "\<not> obj_has cs n" "0 < control" "n = ''control''"
      | "\<not> obj_has cs n" "0 < control \<longrightarrow> n \<noteq> ''control''" by blast
    then show ?thesis
    proof cases
      case 1
      from joins(1) [OF sock this] show ?thesis by blast
    next
      case 2
      from joins(2) [OF sock 2(2) assms(14)] 2(3) show ?thesis by blast
    next
      case 3
      from joins(3) [OF sock 3] show ?thesis by blast
    qed
  qed
  then have ports: "open_ports socks (Obj ps) steps = Inr True" for steps
    using assms(13) by (intro open_ports_all) auto
  from assms(6) cmd(1,2) have l: "exe \<in> bare" "block_name name cnt k \<in> bare" "positional (block_name name cnt k)"
    unfolding launchable_def by blast+
  from assms(6) have c: "obj_get bms ''config'' = Null \<or> vtype (obj_get bms ''config'') = obj_type"
    "no_reals (obj_get bms ''config'')"
    unfolding launchable_def by (cases "obj_get bms ''config''"; simp)+
  note rb = pipes_read_back [OF assms(10,8,7)]
  have "setup_main (json_spirit sp) (po (sh cmd)) =
      Some (read_back (Obj ps), read_back (obj_get bms ''config''), ''org.skweltch.'' @ block_name name cnt k)"
    unfolding cmd(5)
    by (rule command_reads [OF assms(1-3) l(1-3) cmd(3,4) _ c(1)
          pipes_quote_free [OF assms(10,8,7,4,5)] quote_free_get [OF assms(5)]])
      (use rb c(2) in simp_all)
  then show ?thesis using rb ports joins(1) assms(13) by (intro exI [of _ "block_name name cnt k"]) simp
qed

section \<open>An instance\<close>

text \<open>A shell that knows blanks and apostrophes only, and an options parser that knows three
  positional options.\<close>

fun sh_words :: "bool \<Rightarrow> string \<Rightarrow> string \<Rightarrow> string list" where
  "sh_words quote w [] = [w]"
| "sh_words quote w (c # s) =
     (if c = apostrophe then sh_words (\<not> quote) w s
      else if c = CHR '' '' \<and> \<not> quote then w # sh_words False [] s
      else sh_words quote (w @ [c]) s)"

definition simple_sh :: "string \<Rightarrow> string list" where
  "simple_sh = sh_words False []"

definition simple_bare :: "string set" where
  "simple_bare = {w. list_all (\<lambda>c. c \<noteq> apostrophe \<and> c \<noteq> CHR '' '') w}"

definition simple_options :: "string list \<Rightarrow> main_args" where
  "simple_options argv =
     (case argv of
        [exe, pipes, config, name] \<Rightarrow>
          \<lparr>arg_help = False, arg_pipes = Some pipes, arg_config = Some config, arg_name = Some name\<rparr>
      | _ \<Rightarrow> \<lparr>arg_help = True, arg_pipes = None, arg_config = None, arg_name = None\<rparr>)"

lemma sh_words_word:
  "if q then apostrophe \<notin> set w else w \<in> simple_bare \<Longrightarrow>
     sh_words False u (shell_word (q, w) @ s) = sh_words False (u @ w) s"
proof -
  have quote: "apostrophe \<notin> set w \<Longrightarrow> sh_words True u (w @ s) = sh_words True (u @ w) s" for u s
    by (induction w arbitrary: u) auto
  have bare: "w \<in> simple_bare \<Longrightarrow> sh_words False u (w @ s) = sh_words False (u @ w) s" for u s
    by (induction w arbitrary: u) (auto simp: simple_bare_def)
  have apos: "[CHR 0x27] = [apostrophe]" by (simp add: apostrophe_def)
  show "if q then apostrophe \<notin> set w else w \<in> simple_bare \<Longrightarrow>
     sh_words False u (shell_word (q, w) @ s) = sh_words False (u @ w) s"
    using quote bare by (auto simp: shell_word_def quoted_def apos split: if_splits)
qed

lemma simple_sh_documented: "shell_documented simple_sh simple_bare"
proof -
  have "sh_words False u (join_with (CHR '' '') (map shell_word (qw # ws))) = (u @ snd qw) # map snd ws"
    if "\<forall>(q, w) \<in> set (qw # ws). if q then apostrophe \<notin> set w else w \<in> simple_bare" for u qw ws
    using that
  proof (induction ws arbitrary: u qw)
    case Nil
    then show ?case using sh_words_word [of "fst qw" "snd qw" u "[]"] by (auto split: if_splits)
  next
    case (Cons qw' ws)
    have "CHR '' '' \<noteq> apostrophe" by (simp add: apostrophe_def)
    then show ?case
      using Cons.IH [of qw' "[]"] Cons.prems sh_words_word [of "fst qw" "snd qw" u]
      by (auto split: if_splits)
  qed
  note words = this
  show ?thesis
    unfolding shell_documented_def simple_sh_def
  proof (intro allI impI)
    fix ws :: "(bool \<times> string) list"
    assume "ws \<noteq> []" and ok: "\<forall>(q, w) \<in> set ws. if q then apostrophe \<notin> set w else w \<in> simple_bare"
    then obtain qw ws' where "ws = qw # ws'" by (cases ws) auto
    with words [of qw ws' "[]"] ok show "sh_words False [] (join_with (CHR '' '') (map shell_word ws)) = map snd ws"
      by simp
  qed
qed

lemma simple_options_documented: "options_documented simple_options"
  by (simp add: options_documented_def simple_options_def)

definition launch_config :: JsonObject where
  "launch_config = Obj [(''blocks'', Arr
     [Obj [(''name'', Str ''reduce''), (''node'', Str ''localhost''),
           (''connections'', Obj [(''pullFrom'', Obj [(''mode'', Str ''bind''), (''address'', Str ''*''),
                                                   (''port'', Value_of_int 5558)])])]])]"

definition launch_block :: members where
  "launch_block = [(''name'', Str ''w''), (''exe'', Str ''./work''), (''config'', Obj [(''n'', Uint64 3)]),
     (''connections'', Obj
       [(''pushTo'', Obj [(''mode'', Str ''connect''), (''block'', Str ''reduce''), (''connection'', Str ''pullFrom'')])])]"

definition launch_pipes :: members where
  "launch_pipes = [(''pushTo'', Obj [(''node'', Str ''localhost''), (''port'', Value_of_int 5558), (''mode'', Str ''connect'')])]"

definition launch_cmd :: string where
  "launch_cmd = hd (case block_cmds launch_config 0 (Obj launch_block) of Inr cmds \<Rightarrow> cmds | Inl e \<Rightarrow> [])"

theorem started_blocks_open_their_ports_witness:
  "\<exists>name. setup_main (json_spirit simple_spirit) (simple_options (simple_sh launch_cmd)) =
     Some (Obj launch_pipes, Obj [(''n'', Int64 3)], ''org.skweltch.'' @ name)
   \<and> open_ports (\<lambda>_ _. Inr ()) (Obj launch_pipes) work_ports = Inr True"
proof -
  have p: "PipeBuilder_collect launch_config (Obj launch_block) 0 = Inr (Obj launch_pipes)" by code_simp
  have q: "quote_free launch_config" "quote_free (Obj launch_block)"
    by (simp_all add: launch_config_def launch_block_def Value_of_int_def) (simp_all add: apostrophe_def)
  have l: "launchable simple_bare launch_block"
  proof -
    have "CHR '' '' \<notin> set (show_int k)" for k by (rule show_without) (simp_all add: is_digit_char_def)
    then show ?thesis
      using show_apostrophe
      by (auto simp: launchable_def launch_block_def simple_bare_def JsonArray_getString_def block_name_def
          list_all_iff positional_def) (simp_all add: apostrophe_def)
  qed
  have c: "obj_get launch_block ''config'' = Obj [(''n'', Uint64 3)]" by (simp add: launch_block_def)
  obtain pipes config where w: "JsonObject_write (Obj launch_pipes) False = Inr pipes"
    "JsonObject_write (Obj [(''n'', Uint64 3)]) False = Inr config"
    using JsonObject_write_total [of "Obj launch_pipes" False] JsonObject_write_total [of "Obj [(''n'', Uint64 3)]" False]
    by (auto simp: launch_pipes_def Value_of_int_def)
  have f: "JsonArray_getString (Obj launch_block) ''name'' = Inr ''w''" "JsonObject_has launch_config ''vent'' = Inr False"
    "JsonArray_getInt (Obj launch_block) ''count'' = Inr 0" "JsonArray_has (Obj launch_block) ''exe'' = Inr True"
    "JsonArray_getString (Obj launch_block) ''exe'' = Inr ''./work''"
    by code_simp+
  have cmds: "block_cmds launch_config 0 (Obj launch_block) = Inr [task_cmd ''./work'' pipes config ''w'']"
    using p w by (simp add: block_cmds_def f JsonArray_getValue_def JsonArray_getChildAsString_def c block_name_def)
  then have "launch_cmd = task_cmd ''./work'' pipes config ''w''" by (simp add: launch_cmd_def)
  with started_blocks_open_their_ports [where socks = "\<lambda>_ _. Inr ()" and cmd = launch_cmd, OF simple_sh_documented simple_options_documented simple_documented q l _ _ _ p cmds]
  show ?thesis by (simp add: launch_block_def in_int32_def read_back_def)
qed

end
