(* ===== verification/Pugi_Text.thy ===== *)
theory Pugi_Text
  imports Prelude
begin

unbundle bit_operations_syntax

text \<open>
  The characters and buffers of pugixml (\<open>pugixml/src/pugixml.cpp\<close>), the XML parser that the
  program vendors for \<open>workxpath\<close>: the table of character types, the conversion of a buffer to UTF-8,
  and the conversion of text in place, where a \<open>gap\<close> of characters that are no longer needed is moved
  along and closed at the end.

  What is in memory from the start of a text on is a string that ends with the zero character at the
  end of the buffer; reading past it is \<open>Undefined\<close>.  Allocation does not fail.
\<close>

section \<open>Characters\<close>

definition chartype_table :: "nat list" where
  "chartype_table =
     [55, 0, 0, 0, 0, 0, 0, 0, 0, 12, 12, 0, 0, 63, 0, 0,
      0, 0, 0, 0, 0, 0, 0, 0, 0, 0, 0, 0, 0, 0, 0, 0,
      8, 0, 6, 0, 0, 0, 7, 6, 0, 0, 0, 0, 0, 96, 64, 0,
      64, 64, 64, 64, 64, 64, 64, 64, 64, 64, 192, 0, 1, 0, 48, 0,
      0, 192, 192, 192, 192, 192, 192, 192, 192, 192, 192, 192, 192, 192, 192, 192,
      192, 192, 192, 192, 192, 192, 192, 192, 192, 192, 192, 0, 0, 16, 0, 192,
      0, 192, 192, 192, 192, 192, 192, 192, 192, 192, 192, 192, 192, 192, 192, 192,
      192, 192, 192, 192, 192, 192, 192, 192, 192, 192, 192, 0, 0, 0, 0, 0]
     @ replicate 128 192"

definition ct_parse_pcdata :: nat where "ct_parse_pcdata = 1"
definition ct_parse_attr :: nat where "ct_parse_attr = 2"
definition ct_parse_attr_ws :: nat where "ct_parse_attr_ws = 4"
definition ct_space :: nat where "ct_space = 8"
definition ct_parse_cdata :: nat where "ct_parse_cdata = 16"
definition ct_parse_comment :: nat where "ct_parse_comment = 32"
definition ct_symbol :: nat where "ct_symbol = 64"
definition ct_start_symbol :: nat where "ct_start_symbol = 128"

lemmas ct_defs = ct_parse_pcdata_def ct_parse_attr_def ct_parse_attr_ws_def ct_space_def
  ct_parse_cdata_def ct_parse_comment_def ct_symbol_def ct_start_symbol_def

definition is_chartype :: "char \<Rightarrow> nat \<Rightarrow> bool" where
  "is_chartype c ct \<longleftrightarrow> chartype_table ! code c AND ct \<noteq> 0"

definition NUL :: char where
  "NUL = CHR 0x00"

section \<open>UTF-8\<close>

definition byte :: "32 word \<Rightarrow> char" where
  "byte w = char_of (unat (take_bit 8 w))"

definition utf8_counter_low :: "nat \<Rightarrow> 32 word \<Rightarrow> nat" where
  "utf8_counter_low result ch = (if ch < 0x80 then result + 1 else if ch < 0x800 then result + 2 else result + 3)"

definition utf8_counter_high :: "nat \<Rightarrow> 32 word \<Rightarrow> nat" where
  "utf8_counter_high result ch = result + 4"

text \<open>A pointer that is written to and moved on is the text written so far.\<close>

definition utf8_writer_low :: "string \<Rightarrow> 32 word \<Rightarrow> string" where
  "utf8_writer_low result ch =
     (if ch < 0x80 then result @ [byte ch]
      else if ch < 0x800 then result @ [byte (0xC0 OR drop_bit 6 ch), byte (0x80 OR (ch AND 0x3F))]
      else result @ [byte (0xE0 OR drop_bit 12 ch), byte (0x80 OR (drop_bit 6 ch AND 0x3F)),
                     byte (0x80 OR (ch AND 0x3F))])"

definition utf8_writer_high :: "string \<Rightarrow> 32 word \<Rightarrow> string" where
  "utf8_writer_high result ch =
     result @ [byte (0xF0 OR drop_bit 18 ch), byte (0x80 OR (drop_bit 12 ch AND 0x3F)),
               byte (0x80 OR (drop_bit 6 ch AND 0x3F)), byte (0x80 OR (ch AND 0x3F))]"

definition utf8_writer_any :: "string \<Rightarrow> 32 word \<Rightarrow> string" where
  "utf8_writer_any result ch = (if ch < 0x10000 then utf8_writer_low result ch else utf8_writer_high result ch)"

section \<open>The encoding of a buffer\<close>

datatype xml_encoding =
    encoding_auto | encoding_utf8 | encoding_utf16_le | encoding_utf16_be | encoding_utf16
  | encoding_utf32_le | encoding_utf32_be | encoding_utf32 | encoding_wchar | encoding_latin1

text \<open>The host is little-endian and its \<open>wchar_t\<close> has four bytes.\<close>

definition get_wchar_encoding :: xml_encoding where
  "get_wchar_encoding = encoding_utf32_le"

definition guess_buffer_encoding :: "nat \<Rightarrow> nat \<Rightarrow> nat \<Rightarrow> nat \<Rightarrow> xml_encoding" where
  "guess_buffer_encoding d0 d1 d2 d3 =
     (if d0 = 0 \<and> d1 = 0 \<and> d2 = 0xfe \<and> d3 = 0xff then encoding_utf32_be
      else if d0 = 0xff \<and> d1 = 0xfe \<and> d2 = 0 \<and> d3 = 0 then encoding_utf32_le
      else if d0 = 0xfe \<and> d1 = 0xff then encoding_utf16_be
      else if d0 = 0xff \<and> d1 = 0xfe then encoding_utf16_le
      else if d0 = 0xef \<and> d1 = 0xbb \<and> d2 = 0xbf then encoding_utf8
      else if d0 = 0 \<and> d1 = 0 \<and> d2 = 0 \<and> d3 = 0x3c then encoding_utf32_be
      else if d0 = 0x3c \<and> d1 = 0 \<and> d2 = 0 \<and> d3 = 0 then encoding_utf32_le
      else if d0 = 0 \<and> d1 = 0x3c \<and> d2 = 0 \<and> d3 = 0x3f then encoding_utf16_be
      else if d0 = 0x3c \<and> d1 = 0 \<and> d2 = 0x3f \<and> d3 = 0 then encoding_utf16_le
      else if d0 = 0x3c \<and> d1 = 0x3f \<and> d2 = 0x78 \<and> d3 = 0x6d then encoding_utf8
      else if d0 = 0 \<and> d1 = 0x3c then encoding_utf16_be
      else if d0 = 0x3c \<and> d1 = 0 then encoding_utf16_le
      else encoding_utf8)"

definition get_buffer_encoding :: "xml_encoding \<Rightarrow> string \<Rightarrow> xml_encoding" where
  "get_buffer_encoding encoding contents =
     (if encoding = encoding_wchar then get_wchar_encoding
      else if encoding = encoding_utf16 then encoding_utf16_le
      else if encoding = encoding_utf32 then encoding_utf32_le
      else if encoding \<noteq> encoding_auto then encoding
      else if length contents < 4 then encoding_utf8
      else guess_buffer_encoding (code (contents ! 0)) (code (contents ! 1)) (code (contents ! 2)) (code (contents ! 3)))"

section \<open>Conversion to UTF-8\<close>

definition endian_swap16 :: "16 word \<Rightarrow> 16 word" where
  "endian_swap16 v = push_bit 8 (v AND 0xff) OR drop_bit 8 v"

definition endian_swap32 :: "32 word \<Rightarrow> 32 word" where
  "endian_swap32 v =
     push_bit 24 (v AND 0xff) OR push_bit 8 (v AND 0xff00) OR drop_bit 8 (v AND 0xff0000) OR drop_bit 24 v"

text \<open>The decoders, with the operations of \<open>Traits\<close>; \<open>swap\<close> is \<open>endian_swap\<close> or nothing.\<close>

fun decode_utf16_block ::
  "('v \<Rightarrow> 32 word \<Rightarrow> 'v) \<Rightarrow> ('v \<Rightarrow> 32 word \<Rightarrow> 'v) \<Rightarrow> (16 word \<Rightarrow> 16 word) \<Rightarrow> 16 word list \<Rightarrow> 'v \<Rightarrow> 'v" where
  "decode_utf16_block low high swap [] result = result"
| "decode_utf16_block low high swap (d # data) result =
     (let lead = ucast (swap d) :: 32 word in
      if lead < 0xD800 then decode_utf16_block low high swap data (low result lead)
      else if lead - 0xE000 < 0x2000 then decode_utf16_block low high swap data (low result lead)
      else if lead - 0xD800 < 0x400 \<and> data \<noteq> [] then
        (let next' = ucast (swap (hd data)) :: 32 word in
         if next' - 0xDC00 < 0x400
         then decode_utf16_block low high swap (tl data)
                (high result (0x10000 + push_bit 10 (lead AND 0x3ff) + (next' AND 0x3ff)))
         else decode_utf16_block low high swap data result)
      else decode_utf16_block low high swap data result)"

fun decode_utf32_block ::
  "('v \<Rightarrow> 32 word \<Rightarrow> 'v) \<Rightarrow> ('v \<Rightarrow> 32 word \<Rightarrow> 'v) \<Rightarrow> (32 word \<Rightarrow> 32 word) \<Rightarrow> 32 word list \<Rightarrow> 'v \<Rightarrow> 'v" where
  "decode_utf32_block low high swap [] result = result"
| "decode_utf32_block low high swap (d # data) result =
     (let lead = swap d in
      if lead < 0x10000 then decode_utf32_block low high swap data (low result lead)
      else decode_utf32_block low high swap data (high result lead))"

definition decode_latin1_block :: "('v \<Rightarrow> 32 word \<Rightarrow> 'v) \<Rightarrow> string \<Rightarrow> 'v \<Rightarrow> 'v" where
  "decode_latin1_block low data result = fold (\<lambda>c r. low r (of_nat (code c))) data result"

text \<open>The bytes of a buffer read as integers of the host; what is left over is not looked at.\<close>

fun as_uint16 :: "string \<Rightarrow> 16 word list" where
  "as_uint16 (a # b # s) = of_nat (code a + 256 * code b) # as_uint16 s"
| "as_uint16 _ = []"

fun as_uint32 :: "string \<Rightarrow> 32 word list" where
  "as_uint32 (a # b # c # d # s) =
     of_nat (code a + 256 * code b + 65536 * code c + 16777216 * code d) # as_uint32 s"
| "as_uint32 _ = []"

text \<open>A new buffer with room for a number of characters and a zero: writing more than that is
  out of bounds, and an end elsewhere fails the assertion.\<close>

definition filled_buffer :: "nat \<Rightarrow> string \<Rightarrow> string res" where
  "filled_buffer len written =
     (if length written \<noteq> len then Inl (Undefined ''oend == obegin + length'') else Inr (written @ [NUL]))"

definition get_mutable_buffer :: "string \<Rightarrow> bool \<Rightarrow> string" where
  "get_mutable_buffer contents is_mutable = (if is_mutable then contents else contents @ [NUL])"

definition convert_buffer_utf16 :: "string \<Rightarrow> (16 word \<Rightarrow> 16 word) \<Rightarrow> string res" where
  "convert_buffer_utf16 contents swap =
     (let data = as_uint16 contents in
      filled_buffer (decode_utf16_block utf8_counter_low utf8_counter_high swap data 0)
        (decode_utf16_block utf8_writer_low utf8_writer_high swap data []))"

definition convert_buffer_utf32 :: "string \<Rightarrow> (32 word \<Rightarrow> 32 word) \<Rightarrow> string res" where
  "convert_buffer_utf32 contents swap =
     (let data = as_uint32 contents in
      filled_buffer (decode_utf32_block utf8_counter_low utf8_counter_high swap data 0)
        (decode_utf32_block utf8_writer_low utf8_writer_high swap data []))"

definition get_latin1_7bit_prefix_length :: "string \<Rightarrow> nat" where
  "get_latin1_7bit_prefix_length data = length (takeWhile (\<lambda>c. code c \<le> 127) data)"

definition convert_buffer_latin1 :: "string \<Rightarrow> bool \<Rightarrow> string res" where
  "convert_buffer_latin1 contents is_mutable =
     (let n = get_latin1_7bit_prefix_length contents; postfix = drop n contents in
      if postfix = [] then Inr (get_mutable_buffer contents is_mutable)
      else filled_buffer (n + decode_latin1_block utf8_counter_low postfix 0)
             (decode_latin1_block utf8_writer_low postfix (take n contents)))"

definition convert_buffer :: "xml_encoding \<Rightarrow> string \<Rightarrow> bool \<Rightarrow> string res" where
  "convert_buffer encoding contents is_mutable =
     (if encoding = encoding_utf8 then Inr (get_mutable_buffer contents is_mutable)
      else if encoding = encoding_utf16_le then convert_buffer_utf16 contents (\<lambda>v. v)
      else if encoding = encoding_utf16_be then convert_buffer_utf16 contents endian_swap16
      else if encoding = encoding_utf32_le then convert_buffer_utf32 contents (\<lambda>v. v)
      else if encoding = encoding_utf32_be then convert_buffer_utf32 contents endian_swap32
      else if encoding = encoding_latin1 then convert_buffer_latin1 contents is_mutable
      else Inl (Undefined ''Invalid encoding''))"

text \<open>Both passes over the input agree: what the second writes has the length that the first counts.\<close>

lemma counter_counts:
  "utf8_counter_low (length r) ch = length (utf8_writer_low r ch)"
  "utf8_counter_high (length r) ch = length (utf8_writer_high r ch)"
  by (simp_all add: utf8_counter_low_def utf8_writer_low_def utf8_counter_high_def utf8_writer_high_def)

lemma utf16_counts:
  "decode_utf16_block utf8_counter_low utf8_counter_high swap data (length r) =
     length (decode_utf16_block utf8_writer_low utf8_writer_high swap data r)"
  by (induction utf8_writer_low utf8_writer_high swap data r rule: decode_utf16_block.induct)
    (simp_all add: Let_def counter_counts)

lemma utf32_counts:
  "decode_utf32_block utf8_counter_low utf8_counter_high swap data (length r) =
     length (decode_utf32_block utf8_writer_low utf8_writer_high swap data r)"
  by (induction utf8_writer_low utf8_writer_high swap data r rule: decode_utf32_block.induct)
    (simp_all add: Let_def counter_counts)

lemma latin1_counts:
  "decode_latin1_block utf8_counter_low data (length r) = length (decode_latin1_block utf8_writer_low data r)"
  by (induction data arbitrary: r) (simp_all add: decode_latin1_block_def counter_counts)

lemma counter_low_add: "utf8_counter_low (m + n) ch = m + utf8_counter_low n ch"
  by (simp add: utf8_counter_low_def)

lemma latin1_counter_add:
  "decode_latin1_block utf8_counter_low data (m + n) = m + decode_latin1_block utf8_counter_low data n"
  by (induction data arbitrary: n) (simp_all add: decode_latin1_block_def counter_low_add)

lemma convert_buffer_fits:
  assumes "encoding \<in> {encoding_utf8, encoding_utf16_le, encoding_utf16_be, encoding_utf32_le, encoding_utf32_be, encoding_latin1}"
  shows "\<exists>buffer. convert_buffer encoding contents False = Inr (buffer @ [NUL])"
proof -
  let ?n = "get_latin1_7bit_prefix_length contents"
  have "length (take ?n contents) = ?n"
    by (simp add: get_latin1_7bit_prefix_length_def length_takeWhile_le)
  then have "?n + decode_latin1_block utf8_counter_low data 0 =
      length (decode_latin1_block utf8_writer_low data (take ?n contents))" for data
    using latin1_counts [of data "take ?n contents"] latin1_counter_add [of data ?n 0] by simp
  then show ?thesis
    using assms utf16_counts [of _ _ "[]"] utf32_counts [of _ _ "[]"]
    by (auto simp: convert_buffer_def convert_buffer_utf16_def convert_buffer_utf32_def convert_buffer_latin1_def
        filled_buffer_def get_mutable_buffer_def Let_def)
qed

section \<open>Gaps\<close>

text \<open>A position in memory is an index; a null pointer is \<open>None\<close>.\<close>

record gap =
  gp_end :: "nat option"
  gp_size :: nat

definition gap_init :: gap where
  "gap_init = \<lparr>gp_end = None, gp_size = 0\<rparr>"

definition memmove :: "nat \<Rightarrow> nat \<Rightarrow> nat \<Rightarrow> string \<Rightarrow> string" where
  "memmove dst src n mem = take dst mem @ take n (drop src mem) @ drop (dst + n) mem"

definition poke :: "nat \<Rightarrow> string \<Rightarrow> string \<Rightarrow> string" where
  "poke s u mem = take s mem @ u @ drop (s + length u) mem"

definition gap_push :: "string \<Rightarrow> nat \<Rightarrow> gap \<Rightarrow> nat \<Rightarrow> string \<times> nat \<times> gap" where
  "gap_push mem s g cnt =
     ((case gp_end g of None \<Rightarrow> mem | Some e \<Rightarrow> memmove (e - gp_size g) e (s - e) mem),
      s + cnt, \<lparr>gp_end = Some (s + cnt), gp_size = gp_size g + cnt\<rparr>)"

definition gap_flush :: "string \<Rightarrow> nat \<Rightarrow> gap \<Rightarrow> string \<times> nat" where
  "gap_flush mem s g =
     (case gp_end g of
        None \<Rightarrow> (mem, s)
      | Some e \<Rightarrow> (memmove (e - gp_size g) e (s - e) mem, s - gp_size g))"

section \<open>Converting text in place\<close>

text \<open>The loops over a text differ in what they do at a character: they keep some characters, write
  others over them (and put what is left over into the gap), end the text, or fail.  What they do is
  an action, read off the memory at the position; the loop performs it.  Each takes a character at
  least, so that the length of the memory bounds the rounds.\<close>

datatype conv_action = Keep nat | Put string nat | Done nat | Fail

definition past_the_end :: exn where
  "past_the_end = Undefined ''read past the end of the buffer''"

text \<open>\<open>p0(s[0]) && p1(s[1]) && ..\<close>\<close>

fun look :: "string \<Rightarrow> (char \<Rightarrow> bool) list \<Rightarrow> bool res" where
  "look cs [] = Inr True"
| "look [] (p # ps) = Inl past_the_end"
| "look (c # cs) (p # ps) = (if p c then look cs ps else Inr False)"

text \<open>The memory when the loop ends, and where the text ends and the loop stopped, if it did not fail.\<close>

primrec convert_in_place ::
  "nat \<Rightarrow> (string \<Rightarrow> conv_action res) \<Rightarrow> string \<Rightarrow> nat \<Rightarrow> gap \<Rightarrow> (string \<times> (nat \<times> nat) option) res" where
  "convert_in_place 0 act mem s g = Inl (Undefined ''rounds'')"
| "convert_in_place (Suc k) act mem s g =
     rbind (act (drop s mem)) (\<lambda>a.
       case a of
         Keep n \<Rightarrow> convert_in_place k act mem (s + n) g
       | Put u n \<Rightarrow>
           (let mem1 = poke s u mem in
            if length u < n
            then (let (mem2, s2, g2) = gap_push mem1 (s + length u) g (n - length u)
                  in convert_in_place k act mem2 s2 g2)
            else convert_in_place k act mem1 (s + n) g)
       | Done n \<Rightarrow> (let (mem1, e) = gap_flush mem s g in Inr (mem1, Some (e, s + n)))
       | Fail \<Rightarrow> Inr (mem, None))"

text \<open>\<open>PUGI__SCANWHILE_UNROLL\<close>, and then what the loop does at the character found.\<close>

definition scan_to :: "nat \<Rightarrow> (char \<Rightarrow> string \<Rightarrow> conv_action res) \<Rightarrow> string \<Rightarrow> conv_action res" where
  "scan_to ct f cs =
     (let n = length (takeWhile (\<lambda>c. \<not> is_chartype c ct) cs) in
      case drop n cs of
        [] \<Rightarrow> Inl past_the_end
      | c # rest \<Rightarrow> if 0 < n then Inr (Keep n) else f c rest)"

text \<open>A carriage return, alone or before a line feed: one character is written.\<close>

definition eol_to :: "char \<Rightarrow> string \<Rightarrow> conv_action res" where
  "eol_to d rest = rmap (\<lambda>lf. Put [d] (if lf then 2 else 1)) (look rest [\<lambda>c. c = CHR 0x0A])"

section \<open>Character references\<close>

text \<open>\<open>strconv_escape\<close>: what is written for the reference at the start, if it is one, and how many
  characters it takes or, if it is none, how many are kept as they are.\<close>

fun read_dec :: "32 word \<Rightarrow> nat \<Rightarrow> string \<Rightarrow> (string option \<times> nat) res" where
  "read_dec ucsc i [] = Inl past_the_end"
| "read_dec ucsc i (ch # cs) =
     (if 48 \<le> code ch \<and> code ch \<le> 57 then read_dec (10 * ucsc + of_nat (code ch - 48)) (i + 1) cs
      else if ch = CHR '';'' then Inr (Some (utf8_writer_any [] ucsc), i + 1)
      else Inr (None, i))"

fun read_hex :: "32 word \<Rightarrow> nat \<Rightarrow> string \<Rightarrow> (string option \<times> nat) res" where
  "read_hex ucsc i [] = Inl past_the_end"
| "read_hex ucsc i (ch # cs) =
     (if 48 \<le> code ch \<and> code ch \<le> 57 then read_hex (16 * ucsc + of_nat (code ch - 48)) (i + 1) cs
      else if 97 \<le> (code ch OR 32) \<and> (code ch OR 32) \<le> 102
      then read_hex (16 * ucsc + of_nat ((code ch OR 32) - 97 + 10)) (i + 1) cs
      else if ch = CHR '';'' then Inr (Some (utf8_writer_any [] ucsc), i + 1)
      else Inr (None, i))"

fun read_name :: "char \<Rightarrow> nat \<Rightarrow> string \<Rightarrow> string \<Rightarrow> (string option \<times> nat) res" where
  "read_name out i [] cs = Inr (Some [out], i)"
| "read_name out i (k # ks) [] = Inl past_the_end"
| "read_name out i (k # ks) (c # cs) = (if c = k then read_name out (i + 1) ks cs else Inr (None, i))"

definition strconv_escape :: "string \<Rightarrow> (string option \<times> nat) res" where
  "strconv_escape cs =
     (case cs of
        amp # c # r \<Rightarrow>
          if c = CHR ''#'' then
            (case r of
               [] \<Rightarrow> Inl past_the_end
             | d # r' \<Rightarrow>
                 if d = CHR ''x'' then
                   (case r' of
                      [] \<Rightarrow> Inl past_the_end
                    | ch # _ \<Rightarrow> if ch = CHR '';'' then Inr (None, 3) else read_hex 0 3 r')
                 else if d = CHR '';'' then Inr (None, 2)
                 else read_dec 0 2 r)
          else if c = CHR ''a'' then
            (case r of
               [] \<Rightarrow> Inl past_the_end
             | d # r' \<Rightarrow>
                 if d = CHR ''m'' then read_name (CHR ''&'') 3 ''p;'' r'
                 else if d = CHR ''p'' then read_name (CHR 0x27) 3 ''os;'' r'
                 else Inr (None, 2))
          else if c = CHR ''g'' then read_name (CHR ''>'') 2 ''t;'' r
          else if c = CHR ''l'' then read_name (CHR ''<'') 2 ''t;'' r
          else if c = CHR ''q'' then read_name (CHR 0x22) 2 ''uot;'' r
          else Inr (None, 1)
      | _ \<Rightarrow> Inl past_the_end)"

definition escape_action :: "string \<Rightarrow> conv_action res" where
  "escape_action cs = rmap (\<lambda>(u, n). case u of Some w \<Rightarrow> Put w n | None \<Rightarrow> Keep n) (strconv_escape cs)"

section \<open>The conversions\<close>

text \<open>\<open>PUGI__ENDSWITH\<close>: the last character of a buffer that was not zero is kept in \<open>endch\<close>.\<close>

definition ends_with :: "char \<Rightarrow> char \<Rightarrow> char \<Rightarrow> bool" where
  "ends_with endch e c \<longleftrightarrow> c = e \<or> (c = NUL \<and> endch = e)"

definition comment_action :: "char \<Rightarrow> string \<Rightarrow> conv_action res" where
  "comment_action endch = scan_to ct_parse_comment (\<lambda>c rest.
     if c = CHR 0x0D then eol_to (CHR 0x0A) rest
     else rbind (look (c # rest) [\<lambda>c. c = CHR ''-'', \<lambda>c. c = CHR ''-'', ends_with endch (CHR ''>'')]) (\<lambda>b.
       if b then Inr (Done (if rest ! 1 = CHR ''>'' then 3 else 2))
       else if c = NUL then Inr Fail
       else Inr (Keep 1)))"

definition cdata_action :: "char \<Rightarrow> string \<Rightarrow> conv_action res" where
  "cdata_action endch = scan_to ct_parse_cdata (\<lambda>c rest.
     if c = CHR 0x0D then eol_to (CHR 0x0A) rest
     else rbind (look (c # rest) [\<lambda>c. c = CHR '']'', \<lambda>c. c = CHR '']'', ends_with endch (CHR ''>'')]) (\<lambda>b.
       if b then Inr (Done 1)
       else if c = NUL then Inr Fail
       else Inr (Keep 1)))"

definition pcdata_action :: "bool \<Rightarrow> bool \<Rightarrow> string \<Rightarrow> conv_action res" where
  "pcdata_action opt_eol opt_escape = scan_to ct_parse_pcdata (\<lambda>c rest.
     if c = CHR ''<'' then Inr (Done 1)
     else if opt_eol \<and> c = CHR 0x0D then eol_to (CHR 0x0A) rest
     else if opt_escape \<and> c = CHR ''&'' then escape_action (c # rest)
     else if c = NUL then Inr (Done 0)
     else Inr (Keep 1))"

definition wnorm_action :: "bool \<Rightarrow> char \<Rightarrow> string \<Rightarrow> conv_action res" where
  "wnorm_action opt_escape end_quote = scan_to (ct_parse_attr_ws OR ct_space) (\<lambda>c rest.
     if c = end_quote then Inr (Done 1)
     else if is_chartype c ct_space then
       (let n = length (takeWhile (\<lambda>c. is_chartype c ct_space) rest) in
        if drop n rest = [] then Inl past_the_end else Inr (Put '' '' (1 + n)))
     else if opt_escape \<and> c = CHR ''&'' then escape_action (c # rest)
     else if c = NUL then Inr Fail
     else Inr (Keep 1))"

definition wconv_action :: "bool \<Rightarrow> char \<Rightarrow> string \<Rightarrow> conv_action res" where
  "wconv_action opt_escape end_quote = scan_to ct_parse_attr_ws (\<lambda>c rest.
     if c = end_quote then Inr (Done 1)
     else if is_chartype c ct_space then
       (if c = CHR 0x0D then eol_to (CHR '' '') rest else Inr (Put '' '' 1))
     else if opt_escape \<and> c = CHR ''&'' then escape_action (c # rest)
     else if c = NUL then Inr Fail
     else Inr (Keep 1))"

definition eol_action :: "bool \<Rightarrow> char \<Rightarrow> string \<Rightarrow> conv_action res" where
  "eol_action opt_escape end_quote = scan_to ct_parse_attr (\<lambda>c rest.
     if c = end_quote then Inr (Done 1)
     else if c = CHR 0x0D then eol_to (CHR 0x0A) rest
     else if opt_escape \<and> c = CHR ''&'' then escape_action (c # rest)
     else if c = NUL then Inr Fail
     else Inr (Keep 1))"

definition simple_action :: "bool \<Rightarrow> char \<Rightarrow> string \<Rightarrow> conv_action res" where
  "simple_action opt_escape end_quote = scan_to ct_parse_attr (\<lambda>c rest.
     if c = end_quote then Inr (Done 1)
     else if opt_escape \<and> c = CHR ''&'' then escape_action (c # rest)
     else if c = NUL then Inr Fail
     else Inr (Keep 1))"

text \<open>What a text is once the loop has ended and a zero is written at its end (or, after a failure,
  once the parser has given up): the characters up to the first zero.  With it, the memory from the
  position on which the loop stopped.\<close>

definition c_string :: "string \<Rightarrow> string" where
  "c_string mem = takeWhile (\<lambda>c. c \<noteq> NUL) mem"

definition trimmed :: "string \<Rightarrow> string" where
  "trimmed u = rev (dropWhile (\<lambda>c. is_chartype c ct_space) (rev u))"

definition converted :: "bool \<Rightarrow> string \<times> (nat \<times> nat) option \<Rightarrow> string \<times> string option" where
  "converted trim r =
     (case r of
        (mem, None) \<Rightarrow> (c_string mem, None)
      | (mem, Some (e, s)) \<Rightarrow>
          (c_string (if trim then trimmed (take e mem) else take e mem), Some (drop s mem)))"

definition convert_text :: "bool \<Rightarrow> (string \<Rightarrow> conv_action res) \<Rightarrow> string \<Rightarrow> (string \<times> string option) res" where
  "convert_text trim act mem =
     rmap (converted trim) (convert_in_place (Suc (length mem)) act mem 0 gap_init)"

definition strconv_comment :: "char \<Rightarrow> string \<Rightarrow> (string \<times> string option) res" where
  "strconv_comment endch = convert_text False (comment_action endch)"

definition strconv_cdata :: "char \<Rightarrow> string \<Rightarrow> (string \<times> string option) res" where
  "strconv_cdata endch = convert_text False (cdata_action endch)"

definition strconv_pcdata :: "bool \<Rightarrow> bool \<Rightarrow> bool \<Rightarrow> string \<Rightarrow> (string \<times> string option) res" where
  "strconv_pcdata opt_trim opt_eol opt_escape = convert_text opt_trim (pcdata_action opt_eol opt_escape)"

text \<open>White space in front of a normalised attribute is a gap before the loop begins.\<close>

definition parse_wnorm :: "bool \<Rightarrow> char \<Rightarrow> string \<Rightarrow> (string \<times> string option) res" where
  "parse_wnorm opt_escape end_quote mem =
     (let n = length (takeWhile (\<lambda>c. is_chartype c ct_space) mem);
          (mem1, s, g) = (if 0 < n then gap_push mem 0 gap_init n else (mem, 0, gap_init)) in
      rmap (converted True)
        (convert_in_place (Suc (length mem)) (wnorm_action opt_escape end_quote) mem1 s g))"

definition parse_wconv :: "bool \<Rightarrow> char \<Rightarrow> string \<Rightarrow> (string \<times> string option) res" where
  "parse_wconv opt_escape end_quote = convert_text False (wconv_action opt_escape end_quote)"

definition parse_eol :: "bool \<Rightarrow> char \<Rightarrow> string \<Rightarrow> (string \<times> string option) res" where
  "parse_eol opt_escape end_quote = convert_text False (eol_action opt_escape end_quote)"

definition parse_simple :: "bool \<Rightarrow> char \<Rightarrow> string \<Rightarrow> (string \<times> string option) res" where
  "parse_simple opt_escape end_quote = convert_text False (simple_action opt_escape end_quote)"

section \<open>Which conversion\<close>

definition opt_parse_pi :: "32 word" where "opt_parse_pi = 0x0001"
definition opt_parse_comments :: "32 word" where "opt_parse_comments = 0x0002"
definition opt_parse_cdata :: "32 word" where "opt_parse_cdata = 0x0004"
definition opt_parse_ws_pcdata :: "32 word" where "opt_parse_ws_pcdata = 0x0008"
definition opt_parse_escapes :: "32 word" where "opt_parse_escapes = 0x0010"
definition opt_parse_eol :: "32 word" where "opt_parse_eol = 0x0020"
definition opt_parse_wconv_attribute :: "32 word" where "opt_parse_wconv_attribute = 0x0040"
definition opt_parse_wnorm_attribute :: "32 word" where "opt_parse_wnorm_attribute = 0x0080"
definition opt_parse_declaration :: "32 word" where "opt_parse_declaration = 0x0100"
definition opt_parse_doctype :: "32 word" where "opt_parse_doctype = 0x0200"
definition opt_parse_ws_pcdata_single :: "32 word" where "opt_parse_ws_pcdata_single = 0x0400"
definition opt_parse_trim_pcdata :: "32 word" where "opt_parse_trim_pcdata = 0x0800"
definition opt_parse_fragment :: "32 word" where "opt_parse_fragment = 0x1000"

definition parse_default :: "32 word" where
  "parse_default = opt_parse_cdata OR opt_parse_escapes OR opt_parse_wconv_attribute OR opt_parse_eol"

definition optset :: "32 word \<Rightarrow> 32 word \<Rightarrow> bool" where
  "optset optmsk opt \<longleftrightarrow> optmsk AND opt \<noteq> 0"

text \<open>The two tables of instances.\<close>

definition get_strconv_pcdata :: "32 word \<Rightarrow> string \<Rightarrow> (string \<times> string option) res" where
  "get_strconv_pcdata optmask =
     (let n = unat ((drop_bit 4 optmask AND 3) OR (drop_bit 9 optmask AND 4)) in
      strconv_pcdata (4 \<le> n) (n \<in> {2, 3, 6, 7}) (odd n))"

definition get_strconv_attribute :: "32 word \<Rightarrow> char \<Rightarrow> string \<Rightarrow> (string \<times> string option) res" where
  "get_strconv_attribute optmask =
     (let n = unat (drop_bit 4 optmask AND 15) in
      if n < 2 then parse_simple (odd n)
      else if n < 4 then parse_eol (odd n)
      else if n < 8 then parse_wconv (odd n)
      else parse_wnorm (odd n))"

section \<open>Without gaps\<close>

text \<open>The same conversions as functions of the text: what they give, and what follows it.\<close>

primrec conv :: "nat \<Rightarrow> (string \<Rightarrow> conv_action res) \<Rightarrow> string \<Rightarrow> (string \<times> string option) res" where
  "conv 0 act cs = Inl (Undefined ''rounds'')"
| "conv (Suc k) act cs =
     rbind (act cs) (\<lambda>a.
       case a of
         Keep n \<Rightarrow> rmap (apfst ((@) (take n cs))) (conv k act (drop n cs))
       | Put u n \<Rightarrow> rmap (apfst ((@) u)) (conv k act (drop n cs))
       | Done n \<Rightarrow> Inr ([], Some (drop n cs))
       | Fail \<Rightarrow> Inr ([], None))"

text \<open>An action that takes characters before the zero at the end only, and writes no more than it
  takes.\<close>

fun action_ok :: "conv_action \<Rightarrow> string \<Rightarrow> bool" where
  "action_ok (Keep n) cs \<longleftrightarrow> 0 < n \<and> n \<le> length (c_string cs)"
| "action_ok (Put u n) cs \<longleftrightarrow> 0 < n \<and> n \<le> length (c_string cs) \<and> length u \<le> n"
| "action_ok (Done n) cs \<longleftrightarrow> n \<le> length (c_string cs)"
| "action_ok Fail cs \<longleftrightarrow> True"

text \<open>The memory: what is converted and in place (\<open>D\<close>), the gap (\<open>G\<close>), what is converted and to be
  moved over the gap (\<open>M\<close>), and what is to come (\<open>R\<close>).\<close>

definition memory_is :: "string \<Rightarrow> nat \<Rightarrow> gap \<Rightarrow> string \<Rightarrow> string \<Rightarrow> string \<Rightarrow> string \<Rightarrow> bool" where
  "memory_is mem s g D G M R \<longleftrightarrow> mem = D @ G @ M @ R \<and> s = length (D @ G @ M)
     \<and> (case gp_end g of None \<Rightarrow> D = [] \<and> G = [] | Some e \<Rightarrow> e = length (D @ G)) \<and> gp_size g = length G"

lemma memory_init: "memory_is mem 0 gap_init [] [] [] mem"
  by (simp add: memory_is_def gap_init_def)

lemma memory_keep: "memory_is mem s g D G M R \<Longrightarrow> n \<le> length R \<Longrightarrow> memory_is mem (s + n) g D G (M @ take n R) (drop n R)"
  by (auto simp: memory_is_def)

lemma memory_poke:
  "memory_is mem s g D G M R \<Longrightarrow> length u \<le> length R \<Longrightarrow>
     memory_is (poke s u mem) (s + length u) g D G (M @ u) (drop (length u) R)"
  by (auto simp: memory_is_def poke_def split: option.splits)

lemma move_over_gap:
  "memmove (length D) (length D + length G) (length M) (D @ G @ M @ R) = D @ M @ drop (length M) (G @ M) @ R"
  by (simp add: memmove_def)

lemma memory_push:
  assumes "memory_is mem s g D G M R" and "n \<le> length R"
  shows "\<exists>mem' s' g' G'. gap_push mem s g n = (mem', s', g') \<and> memory_is mem' s' g' (D @ M) G' [] (drop n R)
    \<and> length mem' = length mem"
proof -
  let ?G = "drop (length M) (G @ M) @ take n R"
  show ?thesis
  proof (cases "gp_end g")
    case None
    with assms show ?thesis
      by (intro exI [of _ mem] exI [of _ "s + n"] exI [of _ "\<lparr>gp_end = Some (s + n), gp_size = n\<rparr>"] exI [of _ "take n R"])
        (auto simp: gap_push_def memory_is_def)
  next
    case (Some e)
    let ?mem = "D @ M @ drop (length M) (G @ M) @ R"
    have "memmove (e - gp_size g) e (s - e) mem = ?mem"
      using assms Some move_over_gap [of D G M R] by (auto simp: memory_is_def)
    with assms Some show ?thesis
      by (intro exI [of _ ?mem] exI [of _ "s + n"] exI [of _ "\<lparr>gp_end = Some (s + n), gp_size = length ?G\<rparr>"] exI [of _ ?G])
        (auto simp: gap_push_def memory_is_def)
  qed
qed

lemma memory_flush:
  assumes "memory_is mem s g D G M R"
  shows "\<exists>mem' e. gap_flush mem s g = (mem', e) \<and> take e mem' = D @ M \<and> drop s mem' = R \<and> length mem' = length mem"
proof (cases "gp_end g")
  case None
  with assms show ?thesis by (auto simp: gap_flush_def memory_is_def)
next
  case (Some e)
  let ?mem = "D @ M @ drop (length M) (G @ M) @ R"
  have "memmove (e - gp_size g) e (s - e) mem = ?mem"
    using assms Some move_over_gap [of D G M R] by (auto simp: memory_is_def)
  with assms Some show ?thesis by (auto simp: gap_flush_def memory_is_def)
qed

text \<open>The text in place after a prefix, and the memory after it, are those of the conversion.\<close>

definition same_text ::
  "string \<Rightarrow> nat \<Rightarrow> (string \<times> string option) res \<Rightarrow> (string \<times> (nat \<times> nat) option) res \<Rightarrow> bool" where
  "same_text P len c p \<longleftrightarrow>
     (\<exists>u r mem r'. c = Inr (u, r) \<and> p = Inr (mem, r') \<and> length mem = len
        \<and> (case r of
             None \<Rightarrow> r' = None
           | Some R \<Rightarrow> \<exists>e s. r' = Some (e, s) \<and> take e mem = P @ u \<and> drop s mem = R))"

lemma same_text_extend: "same_text (P @ w) len c p \<Longrightarrow> same_text P len (rmap (apfst ((@) w)) c) p"
  unfolding same_text_def by (elim exE conjE) (auto split: option.splits)

lemma c_string_drop:
  assumes "NUL \<in> set cs" and "n \<le> length (c_string cs)"
  shows "NUL \<in> set (drop n cs) \<and> n \<le> length cs \<and> c_string (drop n cs) = drop n (c_string cs)"
proof -
  let ?d = "dropWhile (\<lambda>c. c \<noteq> NUL) cs"
  have split: "c_string cs @ ?d = cs" by (simp add: c_string_def)
  have "drop n (c_string cs @ ?d) = drop n (c_string cs) @ ?d" using assms(2) by simp
  then have d: "drop n cs = drop n (c_string cs) @ ?d" by (simp only: split)
  obtain ys where ys: "?d = NUL # ys"
    using assms(1) by (cases ?d) (auto simp: dropWhile_eq_Nil_conv dropWhile_eq_Cons_conv)
  have "\<forall>c \<in> set (drop n (c_string cs)). c \<noteq> NUL"
    by (auto simp: c_string_def dest: in_set_dropD set_takeWhileD)
  then have "takeWhile (\<lambda>c. c \<noteq> NUL) (drop n (c_string cs) @ NUL # ys) = drop n (c_string cs)"
    by (subst takeWhile_append2) auto
  then have "c_string (drop n cs) = drop n (c_string cs)" "NUL \<in> set (drop n cs)"
    unfolding d ys by (simp_all only: c_string_def set_append, simp)
  moreover have "length (c_string cs) \<le> length cs" by (simp add: c_string_def length_takeWhile_le)
  ultimately show ?thesis using assms(2) by simp
qed

locale converter =
  fixes act :: "string \<Rightarrow> conv_action res"
  assumes acts: "NUL \<in> set cs \<Longrightarrow> \<exists>a. act cs = Inr a \<and> action_ok a cs"
begin

lemma in_place:
  "memory_is mem s g D G M R \<Longrightarrow> NUL \<in> set R \<Longrightarrow> length (c_string R) < k \<Longrightarrow>
   same_text (D @ M) (length mem) (conv k act R) (convert_in_place k act mem s g)"
proof (induction k arbitrary: mem s g D G M R)
  case (Suc k)
  have R: "drop s mem = R" using Suc.prems(1) by (auto simp: memory_is_def)
  obtain a where a: "act R = Inr a" "action_ok a R" using acts Suc.prems(2) by blast
  show ?case
  proof (cases a)
    case (Keep n)
    with a have n: "0 < n" "n \<le> length (c_string R)" by auto
    note dr = c_string_drop [OF Suc.prems(2) n(2)]
    from dr n Suc.prems(3) have "length (c_string (drop n R)) < k" by simp
    with Suc.IH [OF memory_keep [OF Suc.prems(1)], of n] dr
    have "same_text ((D @ M) @ take n R) (length mem) (conv k act (drop n R)) (convert_in_place k act mem (s + n) g)"
      by simp
    from same_text_extend [OF this] show ?thesis using a(1) R Keep by simp
  next
    case (Put w n)
    with a have n: "0 < n" "n \<le> length (c_string R)" "length w \<le> n" by auto
    note dr = c_string_drop [OF Suc.prems(2) n(2)]
    from dr n Suc.prems(3) have k: "length (c_string (drop n R)) < k" by simp
    have poke: "memory_is (poke s w mem) (s + length w) g D G (M @ w) (drop (length w) R)"
      using memory_poke [OF Suc.prems(1), of w] dr n(3) by simp
    have len: "length (poke s w mem) = length mem"
      using Suc.prems(1) dr n(3) by (auto simp: poke_def memory_is_def)
    show ?thesis
    proof (cases "length w < n")
      case True
      have "n - length w \<le> length (drop (length w) R)" using dr by (simp add: diff_le_mono)
      from memory_push [OF poke this] len n(3) obtain mem2 s2 g2 G2 where
        push: "gap_push (poke s w mem) (s + length w) g (n - length w) = (mem2, s2, g2)"
        "memory_is mem2 s2 g2 (D @ M @ w) G2 [] (drop n R)" "length mem2 = length mem" by auto
      from Suc.IH [OF push(2)] dr k push(3)
      have "same_text ((D @ M) @ w) (length mem) (conv k act (drop n R)) (convert_in_place k act mem2 s2 g2)"
        by simp
      from same_text_extend [OF this] show ?thesis using a(1) R Put True push(1) by simp
    next
      case False
      with n(3) have w: "length w = n" by simp
      from Suc.IH [OF poke [unfolded w]] dr k len
      have "same_text ((D @ M) @ w) (length mem) (conv k act (drop n R)) (convert_in_place k act (poke s w mem) (s + n) g)"
        by simp
      from same_text_extend [OF this] show ?thesis using a(1) R Put w by simp
    qed
  next
    case (Done n)
    obtain mem' e where flush: "gap_flush mem s g = (mem', e)" "take e mem' = D @ M" "drop s mem' = R" "length mem' = length mem"
      using memory_flush [OF Suc.prems(1)] by blast
    from flush(3) have "drop (s + n) mem' = drop n R" by (metis add.commute drop_drop)
    then show ?thesis using a(1) R Done flush by (simp add: same_text_def)
  next
    case Fail
    then show ?thesis using a(1) R by (simp add: same_text_def)
  qed
qed simp

text \<open>Converting in place is converting, and touches nothing after the text.\<close>

lemma convert_text_conv:
  assumes "NUL \<in> set mem"
  shows "\<exists>u r. conv (Suc (length mem)) act mem = Inr (u, r)
    \<and> (case r of
         None \<Rightarrow> \<exists>v. convert_text trim act mem = Inr (v, None)
       | Some rest \<Rightarrow> convert_text trim act mem = Inr (c_string (if trim then trimmed u else u), Some rest))"
proof -
  have "length (c_string mem) < Suc (length mem)" by (simp add: c_string_def le_imp_less_Suc length_takeWhile_le)
  from in_place [OF memory_init assms this] show ?thesis
    unfolding same_text_def convert_text_def
    by (elim exE conjE) (auto simp: converted_def simp del: conv.simps convert_in_place.simps split: option.splits)
qed

end

section \<open>The conversions take only what is there\<close>

lemma c_string_Cons [simp]: "c_string (c # cs) = (if c = NUL then [] else c # c_string cs)"
  by (simp add: c_string_def)

lemma c_string_Nil [simp]: "c_string [] = []"
  by (simp add: c_string_def)

lemma NUL_types:
  "is_chartype NUL ct_parse_pcdata" "is_chartype NUL ct_parse_attr" "is_chartype NUL ct_parse_attr_ws"
  "is_chartype NUL ct_parse_cdata" "is_chartype NUL ct_parse_comment" "\<not> is_chartype NUL ct_space"
  "is_chartype NUL (ct_parse_attr_ws OR ct_space)" "\<not> is_chartype NUL ct_symbol" "\<not> is_chartype NUL ct_start_symbol"
  by code_simp+

lemma scan_to_ok:
  assumes "NUL \<in> set cs" and "is_chartype NUL ct"
    and "\<And>c rest. NUL \<in> set (c # rest) \<Longrightarrow> \<exists>a. f c rest = Inr a \<and> action_ok a (c # rest)"
  shows "\<exists>a. scan_to ct f cs = Inr a \<and> action_ok a cs"
proof -
  let ?p = "\<lambda>c. \<not> is_chartype c ct"
  let ?n = "length (takeWhile ?p cs)"
  have len: "?n \<le> length (c_string cs)"
    using assms(2) by (induction cs) (auto simp: c_string_def)
  have "NUL \<in> set (drop ?n cs)" using c_string_drop [OF assms(1) len] by blast
  then obtain c rest where d: "drop ?n cs = c # rest" by (cases "drop ?n cs") auto
  show ?thesis
  proof (cases "0 < ?n")
    case True
    with d len show ?thesis by (simp add: scan_to_def)
  next
    case False
    then have "cs = c # rest" using d by simp
    with assms(1) assms(3) [of c rest] False d show ?thesis by (simp add: scan_to_def)
  qed
qed

lemma eol_to_ok:
  "NUL \<in> set rest \<Longrightarrow> c \<noteq> NUL \<Longrightarrow> \<exists>a. eol_to d rest = Inr a \<and> action_ok a (c # rest)"
  by (cases rest) (auto simp: eol_to_def NUL_def)

text \<open>What a reference is replaced by is not longer than it, and the end of the text is in none.\<close>

lemma utf8_any_length: "length (utf8_writer_any [] ch) \<le> 4"
  by (simp add: utf8_writer_any_def utf8_writer_low_def utf8_writer_high_def)

definition reference_ok :: "nat \<Rightarrow> string \<Rightarrow> (string option \<times> nat) res \<Rightarrow> bool" where
  "reference_ok i cs r \<longleftrightarrow>
     (\<exists>u n. r = Inr (u, n) \<and> i \<le> n \<and> n \<le> i + length (c_string cs)
        \<and> (\<forall>w. u = Some w \<longrightarrow> i < n \<and> length w \<le> 4))"

lemma reference_ok_step:
  "reference_ok (Suc i) cs r \<Longrightarrow> c \<noteq> NUL \<Longrightarrow> reference_ok i (c # cs) r"
  unfolding reference_ok_def by (elim exE conjE) auto

lemma read_dec_ok: "NUL \<in> set cs \<Longrightarrow> reference_ok i cs (read_dec ucsc i cs)"
proof (induction ucsc i cs rule: read_dec.induct)
  case (2 ucsc i ch cs)
  show ?case
  proof (cases "48 \<le> code ch \<and> code ch \<le> 57")
    case True
    then have "ch \<noteq> NUL" by (auto simp: NUL_def)
    with 2 True show ?thesis by (simp add: reference_ok_step)
  next
    case False
    then show ?thesis using utf8_any_length by (auto simp: reference_ok_def NUL_def)
  qed
qed simp

lemma read_hex_ok: "NUL \<in> set cs \<Longrightarrow> reference_ok i cs (read_hex ucsc i cs)"
proof (induction ucsc i cs rule: read_hex.induct)
  case (2 ucsc i ch cs)
  have NUL: "code NUL OR 32 = 32" by (simp add: NUL_def)
  show ?case
  proof (cases "48 \<le> code ch \<and> code ch \<le> 57 \<or> 97 \<le> (code ch OR 32) \<and> (code ch OR 32) \<le> 102")
    case True
    with NUL have "ch \<noteq> NUL" by (auto simp: NUL_def)
    with 2 True show ?thesis by (auto simp: reference_ok_step)
  next
    case False
    then show ?thesis using utf8_any_length by (auto simp: reference_ok_def NUL_def)
  qed
qed simp

lemma read_name_ok:
  "NUL \<in> set cs \<Longrightarrow> NUL \<notin> set ks \<Longrightarrow> ks \<noteq> [] \<Longrightarrow> reference_ok i cs (read_name out i ks cs)"
proof (induction out i ks cs rule: read_name.induct)
  case (3 out i k ks c cs)
  show ?case
  proof (cases "c = k")
    case True
    with 3 have c: "c \<noteq> NUL" "NUL \<in> set cs" by auto
    show ?thesis
    proof (cases "ks = []")
      case False
      with 3 True c show ?thesis by (simp add: reference_ok_step)
    qed (use c True in \<open>simp add: reference_ok_def\<close>)
  qed (simp add: reference_ok_def)
qed auto

lemma reference_read:
  assumes "reference_ok i cs r" and "3 \<le> i \<or> (\<forall>w n. r = Inr (Some w, n) \<longrightarrow> length w \<le> n)"
    and "0 < i" and "i + length (c_string cs) \<le> length (c_string all)"
  shows "\<exists>a. rmap (\<lambda>(u, n). case u of Some w \<Rightarrow> Put w n | None \<Rightarrow> Keep n) r = Inr a \<and> action_ok a all"
  using assms unfolding reference_ok_def by (elim exE conjE) (auto split: option.split)

lemma read_name_length: "read_name out i ks cs = Inr (Some w, n) \<Longrightarrow> w = [out]"
  by (induction out i ks cs rule: read_name.induct) (auto split: if_splits)

lemma read_dec_length: "read_dec ucsc i cs = Inr (Some w, n) \<Longrightarrow> cs \<noteq> [] \<Longrightarrow> hd cs \<noteq> CHR '';'' \<Longrightarrow> i + 2 \<le> n"
proof -
  have end_after: "read_dec ucsc i cs = Inr (Some w, n) \<Longrightarrow> i < n" for ucsc i cs
    by (induction ucsc i cs rule: read_dec.induct) (auto split: if_splits)
  show "read_dec ucsc i cs = Inr (Some w, n) \<Longrightarrow> cs \<noteq> [] \<Longrightarrow> hd cs \<noteq> CHR '';'' \<Longrightarrow> i + 2 \<le> n"
    using end_after [of _ "Suc i" "tl cs"] by (cases cs) (fastforce split: if_splits)+
qed

lemma read_name_action:
  assumes "NUL \<in> set cs" and "NUL \<notin> set ks" and "ks \<noteq> []" and "0 < i"
    and "i + length (c_string cs) \<le> length (c_string all)"
  shows "\<exists>a. rmap (\<lambda>(u, n). case u of Some w \<Rightarrow> Put w n | None \<Rightarrow> Keep n) (read_name out i ks cs) = Inr a
    \<and> action_ok a all"
proof -
  from read_name_ok [OF assms(1-3)] have ok: "reference_ok i cs (read_name out i ks cs)" .
  then have "\<forall>w n. read_name out i ks cs = Inr (Some w, n) \<longrightarrow> length w \<le> n"
    using read_name_length [of out i ks cs] assms(4) by (auto simp: reference_ok_def)
  with reference_read [OF ok _ assms(4,5)] show ?thesis by blast
qed

lemma read_dec_action:
  assumes "NUL \<in> set cs" and "hd cs \<noteq> CHR '';''" and "0 < i" and "i + length (c_string cs) \<le> length (c_string all)"
    and "2 \<le> i"
  shows "\<exists>a. rmap (\<lambda>(u, n). case u of Some w \<Rightarrow> Put w n | None \<Rightarrow> Keep n) (read_dec ucsc i cs) = Inr a
    \<and> action_ok a all"
proof -
  from read_dec_ok [OF assms(1)] have ok: "reference_ok i cs (read_dec ucsc i cs)" .
  have "cs \<noteq> []" using assms(1) by auto
  with ok have "\<forall>w n. read_dec ucsc i cs = Inr (Some w, n) \<longrightarrow> length w \<le> n"
    using read_dec_length [of ucsc i cs] assms(2,5) by (fastforce simp: reference_ok_def)
  with reference_read [OF ok _ assms(3,4)] show ?thesis by blast
qed

lemma read_hex_action:
  assumes "NUL \<in> set cs" and "3 \<le> i" and "i + length (c_string cs) \<le> length (c_string all)"
  shows "\<exists>a. rmap (\<lambda>(u, n). case u of Some w \<Rightarrow> Put w n | None \<Rightarrow> Keep n) (read_hex ucsc i cs) = Inr a
    \<and> action_ok a all"
  using reference_read [OF read_hex_ok [OF assms(1)] _ _ assms(3)] assms(2) by simp

lemma escape_ok:
  assumes "NUL \<in> set rest"
  shows "\<exists>a. escape_action (CHR ''&'' # rest) = Inr a \<and> action_ok a (CHR ''&'' # rest)"
proof (cases rest)
  case c: (Cons c r)
  have amp: "CHR ''&'' \<noteq> NUL" by (simp add: NUL_def)
  show ?thesis
  proof (cases "c = NUL")
    case True
    then show ?thesis using amp by (auto simp: c escape_action_def strconv_escape_def NUL_def)
  next
    case cn: False
    then have r: "NUL \<in> set r" using assms c by auto
    then obtain d r' where d: "r = d # r'" by (cases r) auto
    have r': "d \<noteq> NUL \<Longrightarrow> NUL \<in> set r'" using r d by auto
    have not_NUL: "CHR ''x'' \<noteq> NUL" "CHR '';'' \<noteq> NUL" "CHR ''m'' \<noteq> NUL" "CHR ''p'' \<noteq> NUL"
      by (simp_all add: NUL_def)
    have ks: "NUL \<notin> set ''p;''" "NUL \<notin> set ''os;''" "NUL \<notin> set ''t;''" "NUL \<notin> set ''uot;''"
      by (simp_all add: NUL_def)
    note acts = read_name_action read_dec_action read_hex_action
    consider "c = CHR ''#''" "d = CHR ''x''" | "c = CHR ''#''" "d \<noteq> CHR ''x''"
      | "c = CHR ''a''" "d = CHR ''m''" | "c = CHR ''a''" "d = CHR ''p''"
      | "c = CHR ''a''" "d \<noteq> CHR ''m''" "d \<noteq> CHR ''p''"
      | "c = CHR ''g'' \<or> c = CHR ''l''" | "c = CHR ''q''"
      | "c \<notin> {CHR ''#'', CHR ''a'', CHR ''g'', CHR ''l'', CHR ''q''}" by blast
    then show ?thesis
    proof cases
      case 1
      obtain e r'' where e: "r' = e # r''" using r' 1 not_NUL by (cases r') auto
      show ?thesis
      proof (cases "e = CHR '';''")
        case True
        with 1 amp cn not_NUL show ?thesis by (simp add: c d e escape_action_def strconv_escape_def)
      next
        case False
        with 1 amp cn not_NUL r' read_hex_action [of r' 3 "CHR ''&'' # rest" 0] show ?thesis
          by (auto simp: c d e escape_action_def strconv_escape_def)
      qed
    next
      case 2
      with amp cn r read_dec_action [of r 2 "CHR ''&'' # rest" 0] show ?thesis
        by (auto simp: c d escape_action_def strconv_escape_def)
    next
      case 3
      with amp cn r' not_NUL ks read_name_action [of r' "''p;''" 3 "CHR ''&'' # rest" "CHR ''&''"] show ?thesis
        by (auto simp: c d escape_action_def strconv_escape_def)
    next
      case 4
      with amp cn r' not_NUL ks read_name_action [of r' "''os;''" 3 "CHR ''&'' # rest" "CHR 0x27"] show ?thesis
        by (auto simp: c d escape_action_def strconv_escape_def)
    next
      case 5
      with amp cn show ?thesis by (simp add: c d escape_action_def strconv_escape_def)
    next
      case 6
      with amp cn r ks read_name_action [of r "''t;''" 2 "CHR ''&'' # rest"] show ?thesis
        by (auto simp: c escape_action_def strconv_escape_def)
    next
      case 7
      with amp cn r ks read_name_action [of r "''uot;''" 2 "CHR ''&'' # rest" "CHR 0x22"] show ?thesis
        by (auto simp: c escape_action_def strconv_escape_def)
    next
      case 8
      with amp cn show ?thesis by (simp add: c escape_action_def strconv_escape_def)
    qed
  qed
qed (use assms in simp)

lemma look_ok:
  assumes "NUL \<in> set cs" and "\<forall>p \<in> set (butlast ps). \<not> p NUL"
  shows "\<exists>b. look cs ps = Inr b"
  using assms
proof (induction cs ps rule: look.induct)
  case (3 c cs p ps)
  then show ?case by (cases ps; cases cs) (auto split: if_splits)
qed auto

interpretation comment: converter "comment_action endch" for endch
proof
  fix cs assume "NUL \<in> set cs"
  then show "\<exists>a. comment_action endch cs = Inr a \<and> action_ok a cs"
    unfolding comment_action_def
  proof (rule scan_to_ok [OF _ NUL_types(5)])
    fix c rest assume N: "NUL \<in> set (c # rest)"
    let ?ps = "[\<lambda>c. c = CHR ''-'', \<lambda>c. c = CHR ''-'', ends_with endch (CHR ''>'')]"
    have "\<exists>b. look (c # rest) ?ps = Inr b" by (rule look_ok [OF N]) (simp add: NUL_def)
    then obtain b where b: "look (c # rest) ?ps = Inr b" by blast
    show "\<exists>a. (if c = CHR 0x0D then eol_to (CHR 0x0A) rest
     else rbind (look (c # rest) ?ps) (\<lambda>b.
       if b then Inr (Done (if rest ! 1 = CHR ''>'' then 3 else 2))
       else if c = NUL then Inr Fail
       else Inr (Keep 1))) = Inr a \<and> action_ok a (c # rest)"
    proof (cases "c = CHR 0x0D")
      case True
      then show ?thesis using eol_to_ok [of rest c] N by (auto simp: NUL_def)
    next
      case False
      show ?thesis
      proof (cases b)
        case True
        with b obtain d e r where "c = CHR ''-''" "rest = d # e # r" "d = CHR ''-''"
          by (cases rest; cases "tl rest") (auto split: if_splits)
        with False b True show ?thesis by (auto simp: NUL_def)
      qed (use False b in \<open>auto simp: NUL_def\<close>)
    qed
  qed
qed

interpretation cdata: converter "cdata_action endch" for endch
proof
  fix cs assume "NUL \<in> set cs"
  then show "\<exists>a. cdata_action endch cs = Inr a \<and> action_ok a cs"
    unfolding cdata_action_def
  proof (rule scan_to_ok [OF _ NUL_types(4)])
    fix c rest assume N: "NUL \<in> set (c # rest)"
    let ?ps = "[\<lambda>c. c = CHR '']'', \<lambda>c. c = CHR '']'', ends_with endch (CHR ''>'')]"
    have "\<exists>b. look (c # rest) ?ps = Inr b" by (rule look_ok [OF N]) (simp add: NUL_def)
    then obtain b where b: "look (c # rest) ?ps = Inr b" by blast
    then have "b \<Longrightarrow> c \<noteq> NUL" by (auto simp: NUL_def split: if_splits)
    with b show "\<exists>a. (if c = CHR 0x0D then eol_to (CHR 0x0A) rest
     else rbind (look (c # rest) ?ps) (\<lambda>b.
       if b then Inr (Done 1) else if c = NUL then Inr Fail else Inr (Keep 1))) = Inr a \<and> action_ok a (c # rest)"
      using eol_to_ok [of rest c] N by (auto simp: NUL_def)
  qed
qed

interpretation pcdata: converter "pcdata_action opt_eol opt_escape" for opt_eol opt_escape
proof
  fix cs assume "NUL \<in> set cs"
  then show "\<exists>a. pcdata_action opt_eol opt_escape cs = Inr a \<and> action_ok a cs"
    unfolding pcdata_action_def
    by (rule scan_to_ok [OF _ NUL_types(1)]) (auto simp: NUL_def intro: eol_to_ok escape_ok [unfolded NUL_def])
qed

text \<open>The four conversions of attributes end alike.\<close>

lemma quoted_ok:
  assumes "NUL \<in> set (c # rest)" and "q \<noteq> NUL"
    and "c \<noteq> q \<Longrightarrow> p \<Longrightarrow> c \<noteq> NUL \<Longrightarrow> \<exists>a. f = Inr a \<and> action_ok a (c # rest)" and "p \<Longrightarrow> c \<noteq> NUL"
  shows "\<exists>a. (if c = q then Inr (Done 1) else if p then f
     else if esc \<and> c = CHR ''&'' then escape_action (c # rest)
     else if c = NUL then Inr Fail else Inr (Keep 1)) = Inr a \<and> action_ok a (c # rest)"
  using assms escape_ok [of rest] by (auto simp: NUL_def [symmetric]) (auto simp: NUL_def)

lemma eol_CR_ok: "NUL \<in> set rest \<Longrightarrow> \<exists>a. eol_to d rest = Inr a \<and> action_ok a (CHR 0x0D # rest)"
  by (rule eol_to_ok) (simp_all add: NUL_def)

lemma space_not_NUL: "is_chartype c ct_space \<Longrightarrow> c \<noteq> NUL"
  using NUL_types(6) by auto

lemma attribute_converters:
  assumes "q \<noteq> NUL"
  shows "converter (wnorm_action esc q)" and "converter (wconv_action esc q)"
    and "converter (eol_action esc q)" and "converter (simple_action esc q)"
proof -
  show "converter (wconv_action esc q)"
    unfolding wconv_action_def
    by standard (rule scan_to_ok [OF _ NUL_types(3)], assumption, rule quoted_ok [OF _ assms];
        auto simp: space_not_NUL intro: eol_CR_ok)
  show "converter (eol_action esc q)"
    unfolding eol_action_def
    by standard (rule scan_to_ok [OF _ NUL_types(2)], assumption, rule quoted_ok [OF _ assms];
        auto simp: NUL_def intro: eol_to_ok [unfolded NUL_def])
  show "converter (simple_action esc q)"
    unfolding simple_action_def
  proof (standard, rule scan_to_ok [OF _ NUL_types(2)], assumption)
    fix c rest assume "NUL \<in> set (c # rest)"
    note ok = quoted_ok [OF this assms, of False "Inl past_the_end" esc, simplified simp_thms if_False]
    show "\<exists>a. (if c = q then Inr (Done 1) else if esc \<and> c = CHR ''&'' then escape_action (c # rest)
     else if c = NUL then Inr Fail else Inr (Keep 1)) = Inr a \<and> action_ok a (c # rest)"
      by (rule ok) simp_all
  qed
  have spaces: "NUL \<in> set rest \<Longrightarrow>
      length (takeWhile (\<lambda>c. is_chartype c ct_space) rest) \<le> length (c_string rest)" for rest
    using NUL_types(6) by (induction rest) auto
  show "converter (wnorm_action esc q)"
    unfolding wnorm_action_def
  proof (standard, rule scan_to_ok [OF _ NUL_types(7)], assumption, rule quoted_ok [OF _ assms])
    fix c rest assume "NUL \<in> set (c # rest)" "is_chartype c ct_space" "c \<noteq> NUL"
    then show "\<exists>a. (let n = length (takeWhile (\<lambda>c. is_chartype c ct_space) rest) in
        if drop n rest = [] then Inl past_the_end else Inr (Put '' '' (1 + n))) = Inr a \<and> action_ok a (c # rest)"
      using spaces [of rest] c_string_drop [of rest "length (takeWhile (\<lambda>c. is_chartype c ct_space) rest)"]
      by (cases "drop (length (takeWhile (\<lambda>c. is_chartype c ct_space) rest)) rest") (auto simp: Let_def)
  qed (auto simp: space_not_NUL)
qed

section \<open>Character types\<close>

text \<open>What the tables say of a character, by its code.\<close>

lemma table_lookup:
  assumes "map f (take 128 tab) = map g [0..<128]" and "drop 128 tab = replicate 128 x" and "\<And>n. 128 \<le> n \<Longrightarrow> f x = g n"
    and "length tab = 256"
  shows "f (tab ! code c) = g (code c)"
proof (cases "code c < 128")
  case True
  then have "f (tab ! code c) = map f (take 128 tab) ! code c" using assms(4) by simp
  also have "\<dots> = g (code c)" unfolding assms(1) using True by simp
  finally show ?thesis .
next
  case False
  then have "tab ! code c = drop 128 tab ! (code c - 128)" using assms(4) by simp
  also have "\<dots> = x" unfolding assms(2) using False code_less_256 [of c] by (intro nth_replicate) linarith
  finally show ?thesis using assms(3) False by simp
qed

lemma first_upt: "[0..<128] = 0 # 1 # [2..<128]"
  using upt_add_eq_append [of 0 2 126] by (simp add: numeral_2_eq_2)

lemmas chartype_lookup = table_lookup [where tab = chartype_table and x = 192]

lemma is_chartype_code:
  "is_chartype c ct_parse_pcdata \<longleftrightarrow> code c \<in> {0, 13, 38, 60}"
  "is_chartype c ct_parse_attr_ws \<longleftrightarrow> code c \<in> {0, 9, 10, 13, 34, 38, 39}"
  "is_chartype c ct_parse_cdata \<longleftrightarrow> code c \<in> {0, 13, 62, 93}"
  "is_chartype c ct_space \<longleftrightarrow> code c \<in> {9, 10, 13, 32}"
  "is_chartype c ct_symbol \<longleftrightarrow>
     128 \<le> code c \<or> 45 \<le> code c \<and> code c \<le> 58 \<and> code c \<noteq> 47 \<or> 65 \<le> code c \<and> code c \<le> 90 \<or> code c = 95
       \<or> 97 \<le> code c \<and> code c \<le> 122"
  "is_chartype c ct_start_symbol \<longleftrightarrow>
     128 \<le> code c \<or> code c = 58 \<or> 65 \<le> code c \<and> code c \<le> 90 \<or> code c = 95 \<or> 97 \<le> code c \<and> code c \<le> 122"
  unfolding is_chartype_def
  by (rule chartype_lookup; simp add: chartype_table_def ct_defs first_upt)+

text \<open>
  Claim C30.  Converting text in place, with a gap that is moved along and closed at the end, is
  converting it to a new text: each of the seven loops over comments, sections, texts and attributes,
  on any zero-terminated memory, gives the text that the plain conversion gives (up to a zero written
  for a reference, and without the white space at its end where that is trimmed), stops where it
  stops, fails where it fails, and leaves the memory behind the text as it was.
\<close>

theorem conversion_in_place:
  assumes "NUL \<in> set mem" and "q \<noteq> NUL"
    and "act \<in> {comment_action e, cdata_action e, pcdata_action eol esc, wnorm_action esc q, wconv_action esc q,
      eol_action esc q, simple_action esc q}"
  shows "\<exists>u r. conv (Suc (length mem)) act mem = Inr (u, r)
    \<and> (case r of
         None \<Rightarrow> \<exists>v. convert_text trim act mem = Inr (v, None)
       | Some rest \<Rightarrow> convert_text trim act mem = Inr (c_string (if trim then trimmed u else u), Some rest))"
proof -
  have "converter act"
    using assms(3) attribute_converters [OF assms(2)] comment.converter_axioms cdata.converter_axioms
      pcdata.converter_axioms by auto
  then show ?thesis using assms(1) by (rule converter.convert_text_conv)
qed

theorem conversion_in_place_witness:
  "strconv_pcdata True True True (''a&lt;'' @ [CHR 0x0D, CHR 0x0A] @ ''b <x'' @ [NUL]) =
     Inr (''a<'' @ [CHR 0x0A] @ ''b'', Some (''x'' @ [NUL]))"
proof -
  let ?mem = "''a&lt;'' @ [CHR 0x0D, CHR 0x0A] @ ''b <x'' @ [NUL]"
  have "conv (Suc (length ?mem)) (pcdata_action True True) ?mem = Inr (''a<'' @ [CHR 0x0A] @ ''b '', Some (''x'' @ [NUL]))"
    by (simp add: pcdata_action_def scan_to_def is_chartype_code eol_to_def escape_action_def strconv_escape_def NUL_def)
  moreover have "c_string (trimmed (''a<'' @ [CHR 0x0A] @ ''b '')) = ''a<'' @ [CHR 0x0A] @ ''b''"
    by (simp add: trimmed_def is_chartype_code c_string_def NUL_def)
  moreover have "CHR 0x22 \<noteq> NUL" by (simp add: NUL_def)
  ultimately show ?thesis
    using conversion_in_place [where mem = ?mem and q = "CHR 0x22" and act = "pcdata_action True True"
        and eol = True and esc = True and trim = True]
    unfolding strconv_pcdata_def by (simp del: conv.simps)
qed

end
