(* ===== verification/Pugi_Parser.thy ===== *)
theory Pugi_Parser
  imports Pugi_Text
begin

text \<open>
  The parser of pugixml, \<open>xml_parser\<close> in \<open>pugixml/src/pugixml.cpp\<close>, as \<open>xml_document::load_buffer\<close>
  runs it.

  The parser reads a zero-terminated buffer, whose last character it has put aside in \<open>endch\<close>; its
  position is the rest of the buffer from there on.  Names and values are pointers into the buffer,
  where the parser writes a zero behind each; as it never writes before a place that it has passed,
  they are strings here, taken when their ends are found.  The tree is built at a cursor: the nodes
  that are open, the innermost first, with the children that they have so far.
\<close>

section \<open>Trees and results\<close>

datatype xml_node_type =
    node_null | node_document | node_element | node_pcdata | node_cdata | node_comment | node_pi
  | node_declaration | node_doctype

type_synonym xml_attribute = "string \<times> string option"

datatype xml_node =
  Xml_Node (nd_type: xml_node_type) (nd_name: "string option") (nd_value: "string option")
    (nd_attrs: "xml_attribute list") (nd_children: "xml_node list")

datatype xml_parse_status =
    status_ok | status_file_not_found | status_io_error | status_out_of_memory | status_internal_error
  | status_unrecognized_tag | status_bad_pi | status_bad_comment | status_bad_cdata | status_bad_doctype
  | status_bad_pcdata | status_bad_start_element | status_bad_attribute | status_bad_end_element
  | status_end_element_mismatch | status_append_invalid_root | status_no_document_element

type_synonym cursor = "xml_node list"

definition add_child :: "xml_node \<Rightarrow> xml_node \<Rightarrow> xml_node" where
  "add_child c p = Xml_Node (nd_type p) (nd_name p) (nd_value p) (nd_attrs p) (nd_children p @ [c])"

text \<open>\<open>PUGI__PUSHNODE\<close> and \<open>PUGI__POPNODE\<close>; a node that is never the cursor of the loop is appended.\<close>

definition push_node :: "xml_node_type \<Rightarrow> cursor \<Rightarrow> cursor" where
  "push_node t cur = Xml_Node t None None [] [] # cur"

fun pop_node :: "cursor \<Rightarrow> cursor" where
  "pop_node (n # p # cur) = add_child n p # cur"
| "pop_node cur = cur"

definition append_node :: "xml_node_type \<Rightarrow> string \<Rightarrow> cursor \<Rightarrow> cursor" where
  "append_node t v cur = pop_node (Xml_Node t None (Some v) [] [] # cur)"

fun set_name :: "string \<Rightarrow> cursor \<Rightarrow> cursor" where
  "set_name s (Xml_Node t n v as cs # cur) = Xml_Node t (Some s) v as cs # cur"
| "set_name s [] = []"

fun set_value :: "string \<Rightarrow> cursor \<Rightarrow> cursor" where
  "set_value s (Xml_Node t n v as cs # cur) = Xml_Node t n (Some s) as cs # cur"
| "set_value s [] = []"

fun append_new_attribute :: "string \<Rightarrow> cursor \<Rightarrow> cursor" where
  "append_new_attribute s (Xml_Node t n v as cs # cur) = Xml_Node t n v (as @ [(s, None)]) cs # cur"
| "append_new_attribute s [] = []"

fun set_attribute_value :: "string \<Rightarrow> cursor \<Rightarrow> cursor" where
  "set_attribute_value s (Xml_Node t n v as cs # cur) =
     Xml_Node t n v (butlast as @ [(fst (last as), Some s)]) cs # cur"
| "set_attribute_value s [] = []"

definition has_parent :: "cursor \<Rightarrow> bool" where
  "has_parent cur \<longleftrightarrow> 1 < length cur"

fun close_all :: "cursor \<Rightarrow> xml_node" where
  "close_all [doc] = doc"
| "close_all (n # p # cur) = close_all (add_child n p # cur)"
| "close_all [] = Xml_Node node_null None None [] []"

text \<open>A position reached, or an error with its position (\<open>PUGI__THROW_ERROR\<close>); in both cases the
  tree stays as it is.\<close>

datatype 'a parsed = Parsed 'a | Parse_error xml_parse_status string

type_synonym 'a parse_step = "('a parsed \<times> cursor) res"

definition throw_error :: "xml_parse_status \<Rightarrow> string \<Rightarrow> cursor \<Rightarrow> 'a parse_step" where
  "throw_error st s cur = Inr (Parse_error st s, cur)"

definition parsed :: "'a \<Rightarrow> cursor \<Rightarrow> 'a parse_step" where
  "parsed x cur = Inr (Parsed x, cur)"

definition pbind :: "'a parse_step \<Rightarrow> ('a \<Rightarrow> cursor \<Rightarrow> 'b parse_step) \<Rightarrow> 'b parse_step" where
  "pbind m f = rbind m (\<lambda>(r, cur). case r of Parsed x \<Rightarrow> f x cur | Parse_error st s \<Rightarrow> throw_error st s cur)"

text \<open>\<open>PUGI__SCANFOR\<close> and \<open>PUGI__SCANWHILE\<close> (and \<open>PUGI__SKIPWS\<close>), and the text passed over.\<close>

fun scan_for :: "(char \<Rightarrow> bool) list \<Rightarrow> string \<Rightarrow> string res" where
  "scan_for ps [] = Inl past_the_end"
| "scan_for ps (c # cs) =
     (if c = NUL then Inr (c # cs)
      else rbind (look (c # cs) ps) (\<lambda>b. if b then Inr (c # cs) else scan_for ps cs))"

definition scan_while :: "nat \<Rightarrow> string \<Rightarrow> string res" where
  "scan_while ct s =
     (let r = dropWhile (\<lambda>c. is_chartype c ct) s in if r = [] then Inl past_the_end else Inr r)"

definition passed :: "string \<Rightarrow> string \<Rightarrow> string" where
  "passed s t = take (length s - length t) s"

definition at_char :: "string \<Rightarrow> (char \<Rightarrow> string \<Rightarrow> 'a res) \<Rightarrow> 'a res" where
  "at_char s f = (case s of [] \<Rightarrow> Inl past_the_end | c # r \<Rightarrow> f c r)"

section \<open>Document types\<close>

abbreviation is_char :: "char \<Rightarrow> char \<Rightarrow> bool" where
  "is_char d \<equiv> \<lambda>c. c = d"

definition parse_doctype_primitive :: "string \<Rightarrow> string parsed res" where
  "parse_doctype_primitive s =
     at_char s (\<lambda>c r.
       if c = CHR 0x22 \<or> c = CHR 0x27 then
         rbind (scan_for [is_char c] r) (\<lambda>t. at_char t (\<lambda>d t'.
           Inr (if d = NUL then Parse_error status_bad_doctype t else Parsed t')))
       else rbind (look s [is_char (CHR ''<''), is_char (CHR ''?'')]) (\<lambda>pi.
         if pi then
           rbind (scan_for [is_char (CHR ''?''), is_char (CHR ''>'')] (drop 2 s)) (\<lambda>t. at_char t (\<lambda>d t'.
             Inr (if d = NUL then Parse_error status_bad_doctype t else Parsed (drop 2 t))))
         else rbind (look s [is_char (CHR ''<''), is_char (CHR ''!''), is_char (CHR ''-''), is_char (CHR ''-'')]) (\<lambda>comment.
           if comment then
             rbind (scan_for [is_char (CHR ''-''), is_char (CHR ''-''), is_char (CHR ''>'')] (drop 4 s)) (\<lambda>t. at_char t (\<lambda>d t'.
               Inr (if d = NUL then Parse_error status_bad_doctype t else Parsed (drop 4 t))))
           else Inr (Parse_error status_bad_doctype s))))"

text \<open>The two that call themselves begin after the \<open>s++\<close> in front of their loops.\<close>

primrec parse_doctype_ignore :: "nat \<Rightarrow> string \<Rightarrow> string parsed res" where
  "parse_doctype_ignore 0 s = Inl (Undefined ''rounds'')"
| "parse_doctype_ignore (Suc k) s =
     at_char s (\<lambda>c r.
       if c = NUL then Inr (Parse_error status_bad_doctype s)
       else rbind (look s [is_char (CHR ''<''), is_char (CHR ''!''), is_char (CHR ''['')]) (\<lambda>nested.
         if nested then
           rbind (parse_doctype_ignore k r) (\<lambda>x.
             case x of Parsed t \<Rightarrow> parse_doctype_ignore k t | Parse_error st t \<Rightarrow> Inr (Parse_error st t))
         else rbind (look s [is_char (CHR '']''), is_char (CHR '']''), is_char (CHR ''>'')]) (\<lambda>ends.
           if ends then Inr (Parsed (drop 3 s)) else parse_doctype_ignore k r)))"

primrec parse_doctype_group :: "nat \<Rightarrow> char \<Rightarrow> bool \<Rightarrow> string \<Rightarrow> string parsed res" where
  "parse_doctype_group 0 endch toplevel s = Inl (Undefined ''rounds'')"
| "parse_doctype_group (Suc k) endch toplevel s =
     at_char s (\<lambda>c r.
       if c = NUL then
         Inr (if \<not> toplevel \<or> endch \<noteq> CHR ''>'' then Parse_error status_bad_doctype s else Parsed s)
       else rbind (look s [is_char (CHR ''<''), is_char (CHR ''!''), \<lambda>c. c \<noteq> CHR ''-'']) (\<lambda>group.
         if group then
           (if s ! 2 = CHR ''['' then
              rbind (parse_doctype_ignore (length s) r) (\<lambda>x.
                case x of Parsed t \<Rightarrow> parse_doctype_group k endch toplevel t | Parse_error st t \<Rightarrow> Inr (Parse_error st t))
            else
              rbind (parse_doctype_group k endch False r) (\<lambda>x.
                case x of
                  Parsed t \<Rightarrow> at_char t (\<lambda>d t'.
                    if d = CHR ''>'' then parse_doctype_group k endch toplevel t' else Inl (Undefined ''assert''))
                | Parse_error st t \<Rightarrow> Inr (Parse_error st t)))
         else if c = CHR ''<'' \<or> c = CHR 0x22 \<or> c = CHR 0x27 then
           rbind (parse_doctype_primitive s) (\<lambda>x.
             case x of Parsed t \<Rightarrow> parse_doctype_group k endch toplevel t | Parse_error st t \<Rightarrow> Inr (Parse_error st t))
         else if c = CHR ''>'' then Inr (Parsed s)
         else parse_doctype_group k endch toplevel r))"

section \<open>Comments, CDATA and document types\<close>

fun match_chars :: "string \<Rightarrow> string \<Rightarrow> (bool \<times> string) res" where
  "match_chars [] s = Inr (True, s)"
| "match_chars (k # ks) [] = Inl past_the_end"
| "match_chars (k # ks) (c # s) = (if c = k then match_chars ks s else Inr (False, c # s))"

definition comment_end :: "char \<Rightarrow> (char \<Rightarrow> bool) list" where
  "comment_end endch = [is_char (CHR ''-''), is_char (CHR ''-''), ends_with endch (CHR ''>'')]"

definition cdata_end :: "char \<Rightarrow> (char \<Rightarrow> bool) list" where
  "cdata_end endch = [is_char (CHR '']''), is_char (CHR '']''), ends_with endch (CHR ''>'')]"

definition parse_comment :: "32 word \<Rightarrow> char \<Rightarrow> string \<Rightarrow> cursor \<Rightarrow> string parse_step" where
  "parse_comment optmsk endch s cur =
     (if optset optmsk opt_parse_eol \<and> optset optmsk opt_parse_comments then
        rbind (strconv_comment endch s) (\<lambda>(v, r).
          let cur' = append_node node_comment v cur in
          case r of Some t \<Rightarrow> parsed t cur' | None \<Rightarrow> throw_error status_bad_comment s cur')
      else
        rbind (scan_for (comment_end endch) s) (\<lambda>t. at_char t (\<lambda>c _.
          let node = (\<lambda>v. if optset optmsk opt_parse_comments then append_node node_comment v cur else cur) in
          if c = NUL then throw_error status_bad_comment t (node (c_string s))
          else parsed (drop (if t ! 2 = CHR ''>'' then 3 else 2) t) (node (passed s t)))))"

definition parse_cdata_section :: "32 word \<Rightarrow> char \<Rightarrow> string \<Rightarrow> cursor \<Rightarrow> string parse_step" where
  "parse_cdata_section optmsk endch s cur =
     pbind
       (if optset optmsk opt_parse_cdata \<and> optset optmsk opt_parse_eol then
          rbind (strconv_cdata endch s) (\<lambda>(v, r).
            let cur' = append_node node_cdata v cur in
            case r of Some t \<Rightarrow> parsed t cur' | None \<Rightarrow> throw_error status_bad_cdata s cur')
        else
          rbind (scan_for (cdata_end endch) s) (\<lambda>t. at_char t (\<lambda>c t'.
            let node = (\<lambda>v. if optset optmsk opt_parse_cdata then append_node node_cdata v cur else cur) in
            if c = NUL then throw_error status_bad_cdata t (node (c_string s))
            else parsed t' (node (passed s t)))))
       (\<lambda>t cur'. rbind (look t [\<lambda>_. True, is_char (CHR ''>'')]) (\<lambda>b. parsed (drop (if b then 2 else 1) t) cur'))"

text \<open>The position is at the exclamation mark.\<close>

definition parse_doctype :: "32 word \<Rightarrow> char \<Rightarrow> string \<Rightarrow> cursor \<Rightarrow> string parse_step" where
  "parse_doctype optmsk endch s cur =
     (if has_parent cur then throw_error status_bad_doctype (CHR ''<'' # s) cur
      else rbind (parse_doctype_group (Suc (length s)) endch True s) (\<lambda>x.
        case x of
          Parse_error st t \<Rightarrow> throw_error st t cur
        | Parsed t \<Rightarrow> at_char t (\<lambda>c t'.
            let mark = drop 8 s;
                v = c_string (dropWhile (\<lambda>c. is_chartype c ct_space) (passed mark t)) in
            parsed (if c \<noteq> NUL then t' else t)
              (if optset optmsk opt_parse_doctype then append_node node_doctype v cur else cur))))"

definition parse_exclamation :: "32 word \<Rightarrow> char \<Rightarrow> string \<Rightarrow> cursor \<Rightarrow> string parse_step" where
  "parse_exclamation optmsk endch s cur =
     at_char (tl s) (\<lambda>c s2.
       if c = CHR ''-'' then
         at_char s2 (\<lambda>d s3.
           if d = CHR ''-'' then parse_comment optmsk endch s3 cur else throw_error status_bad_comment s2 cur)
       else if c = CHR ''['' then
         rbind (match_chars ''CDATA['' s2) (\<lambda>(ok, s3).
           if ok then parse_cdata_section optmsk endch s3 cur else throw_error status_bad_cdata s3 cur)
       else rbind (look (c # s2) (map is_char ''DOCTYP'' @ [ends_with endch (CHR ''E'')])) (\<lambda>dt.
         if dt then parse_doctype optmsk endch s cur
         else if c = NUL \<and> endch = CHR ''-'' then throw_error status_bad_comment (c # s2) cur
         else if c = NUL \<and> endch = CHR ''['' then throw_error status_bad_cdata (c # s2) cur
         else throw_error status_unrecognized_tag (c # s2) cur))"

section \<open>Processing instructions\<close>

definition lower_is :: "char \<Rightarrow> char \<Rightarrow> bool" where
  "lower_is c d \<longleftrightarrow> (code c OR 32) = code d"

definition is_declaration :: "string \<Rightarrow> bool" where
  "is_declaration target \<longleftrightarrow> list_all2 lower_is target ''xml''"

text \<open>The rest of a node whose name has just been read; the character after the name is \<open>ch\<close>.\<close>

definition parse_pi_body ::
  "bool \<Rightarrow> char \<Rightarrow> char \<Rightarrow> string \<Rightarrow> cursor \<Rightarrow> string parse_step" where
  "parse_pi_body declaration endch ch s cur =
     (if ch = CHR ''?'' then
        at_char s (\<lambda>c r.
          if \<not> ends_with endch (CHR ''>'') c then throw_error status_bad_pi s cur
          else parsed (if c = CHR ''>'' then r else s) (pop_node cur))
      else if is_chartype ch ct_space then
        rbind (scan_while ct_space s) (\<lambda>s1.
        rbind (scan_for [is_char (CHR ''?''), ends_with endch (CHR ''>'')] s1) (\<lambda>t. at_char t (\<lambda>c t'.
          if c = NUL then throw_error status_bad_pi t cur
          else if declaration then parsed (passed s1 t @ CHR ''/'' # t') cur
          else at_char t' (\<lambda>d t2. parsed (if d = CHR ''>'' then t2 else t') (pop_node (set_value (passed s1 t) cur))))))
      else throw_error status_bad_pi s cur)"

definition parse_question :: "32 word \<Rightarrow> char \<Rightarrow> string \<Rightarrow> cursor \<Rightarrow> string parse_step" where
  "parse_question optmsk endch s cur =
     at_char (tl s) (\<lambda>c _.
       if \<not> is_chartype c ct_start_symbol then throw_error status_bad_pi (tl s) cur
       else rbind (scan_while ct_symbol (tl s)) (\<lambda>t. at_char t (\<lambda>ch t'.
         if ch = NUL then throw_error status_bad_pi t cur
         else
           let target = passed (tl s) t;
               declaration = is_declaration target in
           if (if declaration then optset optmsk opt_parse_declaration else optset optmsk opt_parse_pi) then
             (if declaration \<and> has_parent cur then throw_error status_bad_pi t cur
              else parse_pi_body declaration endch ch t'
                     (set_name target (push_node (if declaration then node_declaration else node_pi) cur)))
           else
             rbind (scan_for [is_char (CHR ''?''), ends_with endch (CHR ''>'')] t) (\<lambda>u. at_char u (\<lambda>d _.
               if d = NUL then throw_error status_bad_pi u cur
               else parsed (drop (if u ! 1 = CHR ''>'' then 2 else 1) u) cur)))))"

section \<open>Elements\<close>

definition parse_attribute_value :: "32 word \<Rightarrow> string \<Rightarrow> cursor \<Rightarrow> string parse_step" where
  "parse_attribute_value optmsk s cur =
     at_char s (\<lambda>q r.
       if q = CHR 0x22 \<or> q = CHR 0x27 then
         rbind (get_strconv_attribute optmsk q r) (\<lambda>(v, t).
           let cur' = set_attribute_value v cur in
           case t of
             None \<Rightarrow> throw_error status_bad_attribute r cur'
           | Some u \<Rightarrow> at_char u (\<lambda>c _.
               if is_chartype c ct_start_symbol then throw_error status_bad_attribute u cur' else parsed u cur'))
       else throw_error status_bad_attribute s cur)"

definition parse_attribute :: "32 word \<Rightarrow> string \<Rightarrow> cursor \<Rightarrow> string parse_step" where
  "parse_attribute optmsk s cur =
     rbind (scan_while ct_symbol s) (\<lambda>t. at_char t (\<lambda>ch t'.
       let cur' = append_new_attribute (passed s t) cur in
       rbind (if is_chartype ch ct_space
              then rbind (scan_while ct_space t') (\<lambda>u. at_char u (\<lambda>c u'. Inr (c, u')))
              else Inr (ch, t')) (\<lambda>(ch, s1).
         if ch = CHR ''='' then rbind (scan_while ct_space s1) (\<lambda>s2. parse_attribute_value optmsk s2 cur')
         else throw_error status_bad_attribute s1 cur')))"

text \<open>The loop at \<open>LOC_ATTRIBUTES\<close>.\<close>

primrec parse_attributes :: "nat \<Rightarrow> 32 word \<Rightarrow> char \<Rightarrow> string \<Rightarrow> cursor \<Rightarrow> string parse_step" where
  "parse_attributes 0 optmsk endch s cur = Inl (Undefined ''rounds'')"
| "parse_attributes (Suc k) optmsk endch s cur =
     rbind (scan_while ct_space s) (\<lambda>s1. at_char s1 (\<lambda>c r.
       if is_chartype c ct_start_symbol then
         pbind (parse_attribute optmsk s1 cur) (parse_attributes k optmsk endch)
       else if c = CHR ''/'' then
         at_char r (\<lambda>d r'.
           if d = CHR ''>'' then parsed r' (pop_node cur)
           else if d = NUL \<and> endch = CHR ''>'' then parsed r (pop_node cur)
           else throw_error status_bad_start_element r cur)
       else if c = CHR ''>'' then parsed r cur
       else if c = NUL \<and> endch = CHR ''>'' then parsed s1 cur
       else throw_error status_bad_start_element s1 cur))"

definition parse_start_element :: "32 word \<Rightarrow> char \<Rightarrow> string \<Rightarrow> cursor \<Rightarrow> string parse_step" where
  "parse_start_element optmsk endch s cur =
     rbind (scan_while ct_symbol s) (\<lambda>t. at_char t (\<lambda>ch t'.
       let cur' = set_name (passed s t) (push_node node_element cur) in
       if ch = CHR ''>'' then parsed t' cur'
       else if is_chartype ch ct_space then parse_attributes (Suc (length t')) optmsk endch t' cur'
       else if ch = CHR ''/'' then
         at_char t' (\<lambda>c r.
           if \<not> ends_with endch (CHR ''>'') c then throw_error status_bad_start_element t' cur'
           else parsed (if c = CHR ''>'' then r else t') (pop_node cur'))
       else if ch = NUL then
         (if endch \<noteq> CHR ''>'' then throw_error status_bad_start_element t cur' else parsed t cur')
       else throw_error status_bad_start_element t' cur'))"

text \<open>The name of an end tag against that of the open element: what is left of both.\<close>

fun close_name :: "string \<Rightarrow> string \<Rightarrow> cursor \<Rightarrow> (string \<times> string) parse_step" where
  "close_name [] name cur = Inl past_the_end"
| "close_name (c # s) name cur =
     (if \<not> is_chartype c ct_symbol then parsed (c # s, name) cur
      else case name of
        k # ks \<Rightarrow> if c = k then close_name s ks cur else throw_error status_end_element_mismatch s cur
      | [] \<Rightarrow> throw_error status_end_element_mismatch s cur)"

definition parse_end_element :: "char \<Rightarrow> string \<Rightarrow> cursor \<Rightarrow> string parse_step" where
  "parse_end_element endch s cur =
     (case nd_name (hd cur) of
        None \<Rightarrow> throw_error status_end_element_mismatch s cur
      | Some n \<Rightarrow>
          pbind (close_name s n cur) (\<lambda>(t, left) _. at_char t (\<lambda>c _.
            if left \<noteq> [] then
              throw_error (if c = NUL \<and> left = [endch] then status_bad_end_element else status_end_element_mismatch) t cur
            else
              rbind (scan_while ct_space t) (\<lambda>u. at_char u (\<lambda>d u'.
                if d = NUL then
                  (if endch \<noteq> CHR ''>'' then throw_error status_bad_end_element u (pop_node cur)
                   else parsed u (pop_node cur))
                else if d \<noteq> CHR ''>'' then throw_error status_bad_end_element u (pop_node cur)
                else parsed u' (pop_node cur))))))"

section \<open>The tree\<close>

text \<open>\<open>LOC_TAG\<close>: after a \<open><\<close>.\<close>

definition parse_tag :: "32 word \<Rightarrow> char \<Rightarrow> string \<Rightarrow> cursor \<Rightarrow> string parse_step" where
  "parse_tag optmsk endch s cur =
     at_char s (\<lambda>c r.
       if is_chartype c ct_start_symbol then parse_start_element optmsk endch s cur
       else if c = CHR ''/'' then parse_end_element endch r cur
       else if c = CHR ''?'' then
         pbind (parse_question optmsk endch s cur) (\<lambda>t cur'.
           if nd_type (hd cur') = node_declaration then parse_attributes (Suc (length t)) optmsk endch t cur'
           else parsed t cur')
       else if c = CHR ''!'' then parse_exclamation optmsk endch s cur
       else if c = NUL \<and> endch = CHR ''?'' then throw_error status_bad_pi s cur
       else throw_error status_unrecognized_tag s cur)"

text \<open>Text in front of a tag: the loop goes on (\<open>continue\<close>), or at a tag, or ends.\<close>

datatype text_end = Continue_at string | At_tag string | At_end string

definition parse_text :: "32 word \<Rightarrow> string \<Rightarrow> cursor \<Rightarrow> text_end parse_step" where
  "parse_text optmsk mark cur =
     rbind (scan_while ct_space mark) (\<lambda>s. at_char s (\<lambda>c r.
     rbind (if c = CHR ''<'' \<or> c = NUL then
              (if \<not> optset optmsk (opt_parse_ws_pcdata OR opt_parse_ws_pcdata_single)
                  \<or> optset optmsk opt_parse_trim_pcdata then Inr True
               else if optset optmsk opt_parse_ws_pcdata_single then
                 rbind (look s [is_char (CHR ''<''), is_char (CHR ''/'')]) (\<lambda>b. Inr (\<not> b \<or> nd_children (hd cur) \<noteq> []))
               else Inr False)
            else Inr False) (\<lambda>skip.
       if skip then parsed (Continue_at s) cur
       else
         let s1 = (if \<not> optset optmsk opt_parse_trim_pcdata then mark else s) in
         if has_parent cur \<or> optset optmsk opt_parse_fragment then
           rbind (get_strconv_pcdata optmsk s1) (\<lambda>(v, t).
             case t of
               None \<Rightarrow> Inl (Undefined ''strconv_pcdata'')
             | Some u \<Rightarrow> at_char u (\<lambda>d _.
                 parsed (if d = NUL then At_end u else At_tag u) (append_node node_pcdata v cur)))
         else
           rbind (scan_for [is_char (CHR ''<'')] s1) (\<lambda>u. at_char u (\<lambda>d u'.
             parsed (if d = NUL then At_end u else At_tag u') cur)))))"

definition parse_tree_end :: "string \<Rightarrow> cursor \<Rightarrow> string parse_step" where
  "parse_tree_end s cur =
     (if has_parent cur then throw_error status_end_element_mismatch s cur else parsed s cur)"

primrec parse_tree :: "nat \<Rightarrow> 32 word \<Rightarrow> char \<Rightarrow> string \<Rightarrow> cursor \<Rightarrow> string parse_step" where
  "parse_tree 0 optmsk endch s cur = Inl (Undefined ''rounds'')"
| "parse_tree (Suc k) optmsk endch s cur =
     at_char s (\<lambda>c r.
       if c = NUL then parse_tree_end s cur
       else if c = CHR ''<'' then pbind (parse_tag optmsk endch r cur) (parse_tree k optmsk endch)
       else pbind (parse_text optmsk s cur) (\<lambda>next' cur'.
         case next' of
           Continue_at t \<Rightarrow> parse_tree k optmsk endch t cur'
         | At_tag t \<Rightarrow> pbind (parse_tag optmsk endch t cur') (parse_tree k optmsk endch)
         | At_end t \<Rightarrow> parse_tree_end t cur'))"

section \<open>Parsing a buffer\<close>

definition parse_skip_bom :: "string \<Rightarrow> string res" where
  "parse_skip_bom s =
     rmap (\<lambda>b. if b then drop 3 s else s) (look s [is_char (CHR 0xEF), is_char (CHR 0xBB), is_char (CHR 0xBF)])"

definition has_element_node_siblings :: "xml_node list \<Rightarrow> bool" where
  "has_element_node_siblings nodes \<longleftrightarrow> list_ex (\<lambda>n. nd_type n = node_element) nodes"

text \<open>The status and the place of the error; the encoding, which the result has too, is left out.\<close>

record xml_parse_result =
  pr_status :: xml_parse_status
  pr_offset :: nat

definition document :: "xml_node list \<Rightarrow> xml_node" where
  "document nodes = Xml_Node node_document None None [] nodes"

definition xml_parse :: "string \<Rightarrow> 32 word \<Rightarrow> (xml_parse_result \<times> xml_node) res" where
  "xml_parse buffer optmsk =
     (if buffer = [] then
        Inr (\<lparr>pr_status = if optset optmsk opt_parse_fragment then status_ok else status_no_document_element,
              pr_offset = 0\<rparr>, document [])
      else
        let endch = last buffer;
            mem = butlast buffer @ [NUL] in
        rbind (parse_skip_bom mem) (\<lambda>s.
        rbind (parse_tree (Suc (length s)) optmsk endch s [document []]) (\<lambda>(r, cur).
          let doc = close_all cur in
          case r of
            Parsed _ \<Rightarrow>
              if endch = CHR ''<'' then
                Inr (\<lparr>pr_status = status_unrecognized_tag, pr_offset = length buffer - 1\<rparr>, doc)
              else if \<not> optset optmsk opt_parse_fragment \<and> \<not> has_element_node_siblings (nd_children doc) then
                Inr (\<lparr>pr_status = status_no_document_element, pr_offset = length buffer - 1\<rparr>, doc)
              else Inr (\<lparr>pr_status = status_ok, pr_offset = 0\<rparr>, doc)
          | Parse_error st t \<Rightarrow>
              let offset = length mem - length t in
              Inr (\<lparr>pr_status = st,
                    pr_offset = if 0 < offset \<and> offset = length buffer - 1 \<and> endch = NUL then offset - 1 else offset\<rparr>,
                   doc))))"

definition load_buffer :: "string \<Rightarrow> 32 word \<Rightarrow> xml_encoding \<Rightarrow> (xml_parse_result \<times> xml_node) res" where
  "load_buffer contents options encoding =
     rbind (convert_buffer (get_buffer_encoding encoding contents) contents False) (\<lambda>buffer. xml_parse buffer options)"

end
