(* ===== verification/Pugi_Writer.thy ===== *)
theory Pugi_Writer
  imports Pugi_Parser
begin

text \<open>
  The writer of pugixml (\<open>pugixml/src/pugixml.cpp\<close>): \<open>node_output\<close> and what it calls, and
  \<open>xml_document::save\<close>, in the encoding of the tree itself (UTF-8).

  What goes through \<open>xml_buffered_writer\<close> is the text that a function returns.  \<open>node_output\<close> walks the
  tree along its pointers; here it is the recursion over the tree.  Attributes have names, as those
  that the parser makes.
\<close>

section \<open>Text\<close>

definition chartypex_table :: "nat list" where
  "chartypex_table =
     [3, 3, 3, 3, 3, 3, 3, 3, 3, 0, 2, 3, 3, 2, 3, 3,
      3, 3, 3, 3, 3, 3, 3, 3, 3, 3, 3, 3, 3, 3, 3, 3,
      0, 0, 2, 0, 0, 0, 3, 0, 0, 0, 0, 0, 0, 16, 16, 0,
      24, 24, 24, 24, 24, 24, 24, 24, 24, 24, 0, 0, 3, 0, 3, 0,
      0, 20, 20, 20, 20, 20, 20, 20, 20, 20, 20, 20, 20, 20, 20, 20,
      20, 20, 20, 20, 20, 20, 20, 20, 20, 20, 20, 0, 0, 0, 0, 20,
      0, 20, 20, 20, 20, 20, 20, 20, 20, 20, 20, 20, 20, 20, 20, 20,
      20, 20, 20, 20, 20, 20, 20, 20, 20, 20, 20, 0, 0, 0, 0, 0]
     @ replicate 128 20"

definition ctx_special_pcdata :: nat where "ctx_special_pcdata = 1"
definition ctx_special_attr :: nat where "ctx_special_attr = 2"

definition is_chartypex :: "char \<Rightarrow> nat \<Rightarrow> bool" where
  "is_chartypex c ct \<longleftrightarrow> chartypex_table ! code c AND ct \<noteq> 0"

definition special_text :: "char \<Rightarrow> string" where
  "special_text c =
     (if c = CHR ''&'' then ''&amp;''
      else if c = CHR ''<'' then ''&lt;''
      else if c = CHR ''>'' then ''&gt;''
      else if c = CHR 0x22 then ''&quot;''
      else ''&#'' @ [digit_char (code c div 10), digit_char (code c mod 10), CHR '';''])"

function text_output_escaped :: "nat \<Rightarrow> string \<Rightarrow> string" where
  "text_output_escaped ct s =
     takeWhile (\<lambda>c. \<not> is_chartypex c ct) s @
     (case dropWhile (\<lambda>c. \<not> is_chartypex c ct) s of
        [] \<Rightarrow> []
      | c # r \<Rightarrow> special_text c @ text_output_escaped ct r)"
  by pat_completeness auto
termination
proof (relation "measure (length \<circ> snd)", simp)
  fix ct s c r assume "dropWhile (\<lambda>c. \<not> is_chartypex c ct) s = c # r"
  then have "length (c # r) \<le> length s" by (metis length_dropWhile_le)
  then show "((ct, r), ct, s) \<in> measure (length \<circ> snd)" by simp
qed

declare text_output_escaped.simps [simp del]

definition format_indent :: "32 word" where "format_indent = 0x01"
definition format_write_bom :: "32 word" where "format_write_bom = 0x02"
definition format_raw :: "32 word" where "format_raw = 0x04"
definition format_no_declaration :: "32 word" where "format_no_declaration = 0x08"
definition format_no_escapes :: "32 word" where "format_no_escapes = 0x10"

definition text_output :: "nat \<Rightarrow> 32 word \<Rightarrow> string \<Rightarrow> string" where
  "text_output ct flags s = (if optset flags format_no_escapes then s else text_output_escaped ct s)"

text \<open>The text before the next \<open>]]>\<close>, and the text from there on.\<close>

fun before_cdata_end :: "string \<Rightarrow> string \<times> string" where
  "before_cdata_end (c # d # e # s) =
     (if c = CHR '']'' \<and> d = CHR '']'' \<and> e = CHR ''>'' then ([], c # d # e # s)
      else (let (b, r) = before_cdata_end (d # e # s) in (c # b, r)))"
| "before_cdata_end s = (s, [])"

lemma before_cdata_end_length: "length (snd (before_cdata_end s)) \<le> length s"
  by (induction s rule: before_cdata_end.induct) (auto split: prod.split)

function text_output_cdata :: "string \<Rightarrow> string" where
  "text_output_cdata s =
     (case before_cdata_end s of
        (b, []) \<Rightarrow> ''<![CDATA['' @ b @ '']]>''
      | (b, c # r) \<Rightarrow> ''<![CDATA['' @ b @ '']]'' @ '']]>'' @ text_output_cdata (drop 2 (c # r)))"
  by pat_completeness auto
termination
proof (relation "measure length", simp)
  fix s b r c r' assume "(b, r) = before_cdata_end s" "r = c # r'"
  then show "(drop 2 (c # r'), s) \<in> measure length"
    using before_cdata_end_length [of s] by (cases "before_cdata_end s") auto
qed

declare text_output_cdata.simps [simp del]

fun comment_body :: "string \<Rightarrow> string" where
  "comment_body [] = []"
| "comment_body [c] = (if c = CHR ''-'' then ''- '' else [c])"
| "comment_body (c # d # s) =
     (if c = CHR ''-'' \<and> d = CHR ''-'' then ''- '' @ comment_body (d # s) else c # comment_body (d # s))"

definition node_output_comment :: "string \<Rightarrow> string" where
  "node_output_comment s = ''<!--'' @ comment_body s @ ''-->''"

section \<open>Nodes\<close>

definition default_name :: string where
  "default_name = '':anonymous''"

definition or_default :: "string \<Rightarrow> string option \<Rightarrow> string" where
  "or_default d v = (case v of None \<Rightarrow> d | Some s \<Rightarrow> s)"

definition attribute_output :: "32 word \<Rightarrow> xml_attribute \<Rightarrow> string" where
  "attribute_output flags a =
     '' '' @ fst a @ ''='' @ [CHR 0x22]
     @ (case snd a of None \<Rightarrow> [] | Some v \<Rightarrow> text_output ctx_special_attr flags v) @ [CHR 0x22]"

definition node_output_attributes :: "32 word \<Rightarrow> xml_node \<Rightarrow> string" where
  "node_output_attributes flags n = concat (map (attribute_output flags) (nd_attrs n))"

text \<open>What is written, and whether the children are still to be written.\<close>

definition node_output_start :: "32 word \<Rightarrow> xml_node \<Rightarrow> string \<times> bool" where
  "node_output_start flags n =
     (let name = or_default default_name (nd_name n);
          start = ''<'' @ name @ node_output_attributes flags n in
      if optset flags format_raw then
        (if nd_children n = [] then (start @ '' />'', False) else (start @ ''>'', True))
      else
        (case nd_children n of
           [] \<Rightarrow> (start @ '' />'' @ [CHR 0x0A], False)
         | f # rest \<Rightarrow>
             if rest = [] \<and> nd_type f \<in> {node_pcdata, node_cdata} then
               (let v = or_default [] (nd_value f) in
                (start @ ''>'' @ (if nd_type f = node_pcdata then text_output ctx_special_pcdata flags v
                                  else text_output_cdata v)
                 @ ''</'' @ name @ ''>'' @ [CHR 0x0A], False))
             else (start @ ''>'' @ [CHR 0x0A], True)))"

definition line_end :: "32 word \<Rightarrow> string" where
  "line_end flags = (if optset flags format_raw then [] else [CHR 0x0A])"

definition node_output_end :: "32 word \<Rightarrow> xml_node \<Rightarrow> string" where
  "node_output_end flags n = ''</'' @ or_default default_name (nd_name n) @ ''>'' @ line_end flags"

text \<open>Nothing is written for a node of another type (an assertion fails, in a build that has it).\<close>

definition node_output_simple :: "32 word \<Rightarrow> xml_node \<Rightarrow> string" where
  "node_output_simple flags n =
     (let value = or_default [] (nd_value n);
          name = or_default default_name (nd_name n);
          spaced = (case nd_value n of None \<Rightarrow> [] | Some v \<Rightarrow> '' '' @ v) in
      case nd_type n of
        node_pcdata \<Rightarrow> text_output ctx_special_pcdata flags value @ line_end flags
      | node_cdata \<Rightarrow> text_output_cdata value @ line_end flags
      | node_comment \<Rightarrow> node_output_comment value @ line_end flags
      | node_pi \<Rightarrow> ''<?'' @ name @ spaced @ ''?>'' @ line_end flags
      | node_declaration \<Rightarrow> ''<?'' @ name @ node_output_attributes flags n @ ''?>'' @ line_end flags
      | node_doctype \<Rightarrow> ''<!DOCTYPE'' @ spaced @ ''>'' @ line_end flags
      | _ \<Rightarrow> [])"

definition text_output_indent :: "string \<Rightarrow> 32 word \<Rightarrow> nat \<Rightarrow> string" where
  "text_output_indent indent flags depth =
     (if flags AND (format_indent OR format_raw) = format_indent then concat (replicate depth indent) else [])"

primrec node_output :: "string \<Rightarrow> 32 word \<Rightarrow> nat \<Rightarrow> xml_node \<Rightarrow> string"
  where
  "node_output indent flags depth (Xml_Node t name value attrs cs) =
     (let n = Xml_Node t name value attrs cs in
      text_output_indent indent flags depth @
      (if t = node_element then
         (let (start, more) = node_output_start flags n in
          start @
          (if more then
             concat (map (node_output indent flags (depth + 1)) cs)
             @ text_output_indent indent flags depth @ node_output_end flags n
           else []))
       else if t = node_document then concat (map (node_output indent flags depth) cs)
       else node_output_simple flags n))"

section \<open>Documents\<close>

fun has_declaration :: "xml_node list \<Rightarrow> bool" where
  "has_declaration [] = False"
| "has_declaration (n # ns) =
     (if nd_type n = node_declaration then True else if nd_type n = node_element then False else has_declaration ns)"

definition xml_document_save :: "string \<Rightarrow> 32 word \<Rightarrow> xml_node \<Rightarrow> string" where
  "xml_document_save indent flags doc =
     (if optset flags format_write_bom then [CHR 0xEF, CHR 0xBB, CHR 0xBF] else []) @
     (if \<not> optset flags format_no_declaration \<and> \<not> has_declaration (nd_children doc)
      then ''<?xml version='' @ [CHR 0x22] @ ''1.0'' @ [CHR 0x22] @ ''?>'' @ line_end flags
      else []) @
     node_output indent flags 0 doc"

end
