(* ===== verification/Pugi_Utf8.thy ===== *)
theory Pugi_Utf8
  imports Pugi_Text
begin

text \<open>
  pugixml's conversion of UTF-8 to the encoding of the output (\<open>pugixml/src/pugixml.cpp\<close>): the decoder,
  which reads single bytes four at a time where it can, and the writers.

  The decoder takes the characters of a text one after the other, wherever the text lies in memory,
  so that the output is the encoding of each character in turn; and characters begin exactly at the
  bytes that do not continue one.
\<close>

section \<open>Encoding\<close>

definition u8 :: "char \<Rightarrow> 32 word" where
  "u8 c = of_nat (code c)"

definition utf16_writer_low :: "16 word list \<Rightarrow> 32 word \<Rightarrow> 16 word list" where
  "utf16_writer_low result ch = result @ [ucast ch]"

definition utf16_writer_high :: "16 word list \<Rightarrow> 32 word \<Rightarrow> 16 word list" where
  "utf16_writer_high result ch =
     (let msh = drop_bit 10 (ch - 0x10000); lsh = (ch - 0x10000) AND 0x3ff in
      result @ [ucast (0xD800 + msh), ucast (0xDC00 + lsh)])"

definition utf32_writer :: "32 word list \<Rightarrow> 32 word \<Rightarrow> 32 word list" where
  "utf32_writer result ch = result @ [ch]"

definition latin1_writer_low :: "string \<Rightarrow> 32 word \<Rightarrow> string" where
  "latin1_writer_low result ch = result @ [byte (if ch > 255 then u8 (CHR ''?'') else ch)]"

definition latin1_writer_high :: "string \<Rightarrow> 32 word \<Rightarrow> string" where
  "latin1_writer_high result ch = result @ [CHR ''?'']"

text \<open>Single-byte characters are read four at a time from an address that four divides; \<open>a\<close> is the
  address of the data.\<close>

fun ascii_blocks :: "('v \<Rightarrow> 32 word \<Rightarrow> 'v) \<Rightarrow> string \<Rightarrow> 'v \<Rightarrow> string \<times> 'v" where
  "ascii_blocks low (a # b # c # d # data) result =
     (if code a < 0x80 \<and> code b < 0x80 \<and> code c < 0x80 \<and> code d < 0x80
      then ascii_blocks low data (low (low (low (low result (u8 a)) (u8 b)) (u8 c)) (u8 d))
      else (a # b # c # d # data, result))"
| "ascii_blocks low data result = (data, result)"

lemma ascii_blocks_length: "length (fst (ascii_blocks low data result)) \<le> length data"
  by (induction low data result rule: ascii_blocks.induct) (auto intro: le_SucI)

definition continues :: "char \<Rightarrow> bool" where
  "continues c \<longleftrightarrow> u8 c AND 0xc0 = 0x80"

abbreviation low_bits :: "char \<Rightarrow> 32 word" where
  "low_bits c \<equiv> u8 c AND 0x3f"

function decode_utf8_block ::
  "('v \<Rightarrow> 32 word \<Rightarrow> 'v) \<Rightarrow> ('v \<Rightarrow> 32 word \<Rightarrow> 'v) \<Rightarrow> nat \<Rightarrow> string \<Rightarrow> 'v \<Rightarrow> 'v" where
  "decode_utf8_block low high a [] result = result"
| "decode_utf8_block low high a (c # data) result =
     (let lead = u8 c in
      if lead < 0x80 then
        (if (a + 1) mod 4 = 0
         then (let (rest, result') = ascii_blocks low data (low result lead)
               in decode_utf8_block low high (a + 1 + (length data - length rest)) rest result')
         else decode_utf8_block low high (a + 1) data (low result lead))
      else if lead - 0xC0 < 0x20 \<and> 1 \<le> length data \<and> continues (data ! 0) then
        decode_utf8_block low high (a + 2) (drop 1 data)
          (low result (push_bit 6 (lead AND NOT 0xC0) OR low_bits (data ! 0)))
      else if lead - 0xE0 < 0x10 \<and> 2 \<le> length data \<and> continues (data ! 0) \<and> continues (data ! 1) then
        decode_utf8_block low high (a + 3) (drop 2 data)
          (low result (push_bit 12 (lead AND NOT 0xE0) OR push_bit 6 (low_bits (data ! 0)) OR low_bits (data ! 1)))
      else if lead - 0xF0 < 0x08 \<and> 3 \<le> length data \<and> continues (data ! 0) \<and> continues (data ! 1)
        \<and> continues (data ! 2) then
        decode_utf8_block low high (a + 4) (drop 3 data)
          (high result (push_bit 18 (lead AND NOT 0xF0) OR push_bit 12 (low_bits (data ! 0))
             OR push_bit 6 (low_bits (data ! 1)) OR low_bits (data ! 2)))
      else decode_utf8_block low high (a + 1) data result)"
  by pat_completeness auto
termination
proof (relation "measure (\<lambda>(low, high, a, data, r). length data)")
  fix low :: "'v \<Rightarrow> 32 word \<Rightarrow> 'v" and high :: "'v \<Rightarrow> 32 word \<Rightarrow> 'v"
    and a c data result x lead xs y
  assume "x = ascii_blocks low data (low result lead)" "(xs, y) = x"
  then have "length xs \<le> length data"
    using ascii_blocks_length [of low data "low result lead"] by (metis fst_conv)
  then show "((low, high, a + 1 + (length data - length xs), xs, y), low, high, a, c # data, result)
      \<in> measure (\<lambda>(low, high, a, data, r). length data)"
    by simp
qed auto

declare decode_utf8_block.simps(2) [simp del]

text \<open>The bytes of integers of the host.\<close>

definition bytes16 :: "16 word list \<Rightarrow> string" where
  "bytes16 ws = concat (map (\<lambda>w. [char_of (unat w mod 256), char_of (unat w div 256)]) ws)"

definition bytes32 :: "32 word list \<Rightarrow> string" where
  "bytes32 ws = concat (map (\<lambda>w. [char_of (unat w mod 256), char_of (unat w div 256 mod 256),
     char_of (unat w div 65536 mod 256), char_of (unat w div 16777216)]) ws)"

definition get_write_encoding :: "xml_encoding \<Rightarrow> xml_encoding" where
  "get_write_encoding encoding =
     (if encoding = encoding_wchar then get_wchar_encoding
      else if encoding = encoding_utf16 then encoding_utf16_le
      else if encoding = encoding_utf32 then encoding_utf32_le
      else if encoding \<noteq> encoding_auto then encoding
      else encoding_utf8)"

definition convert_buffer_output :: "nat \<Rightarrow> string \<Rightarrow> xml_encoding \<Rightarrow> string res" where
  "convert_buffer_output a data encoding =
     (if encoding = encoding_utf16_be \<or> encoding = encoding_utf16_le then
        (let dest = decode_utf8_block utf16_writer_low utf16_writer_high a data [] in
         Inr (bytes16 (if encoding = encoding_utf16_le then dest else map endian_swap16 dest)))
      else if encoding = encoding_utf32_be \<or> encoding = encoding_utf32_le then
        (let dest = decode_utf8_block utf32_writer utf32_writer a data [] in
         Inr (bytes32 (if encoding = encoding_utf32_le then dest else map endian_swap32 dest)))
      else if encoding = encoding_latin1 then
        Inr (decode_utf8_block latin1_writer_low latin1_writer_high a data [])
      else Inl (Undefined ''Invalid encoding''))"

section \<open>UTF-8\<close>

text \<open>The Unicode characters, and their codes.\<close>

definition scalar :: "nat \<Rightarrow> bool" where
  "scalar n \<longleftrightarrow> n < 0xD800 \<or> 0xE000 \<le> n \<and> n < 0x110000"

definition utf8_of :: "nat \<Rightarrow> string" where
  "utf8_of n = utf8_writer_any [] (of_nat n)"

definition utf8 :: "nat list \<Rightarrow> string" where
  "utf8 ns = concat (map utf8_of ns)"

lemma utf8_simps [simp]:
  "utf8 [] = []" "utf8 (n # ns) = utf8_of n @ utf8 ns" "utf8 (ms @ ns) = utf8 ms @ utf8 ns"
  by (simp_all add: utf8_def)

lemma or_shifted:
  fixes a :: "32 word"
  assumes "y < 2 ^ k"
  shows "push_bit k a OR of_nat y = push_bit k a + of_nat y"
proof -
  have "\<not> bit (of_nat y :: 32 word) i" if "k \<le> i" for i
  proof -
    have "y < 2 ^ i" using assms that by (meson less_le_trans one_le_numeral power_increasing)
    then show ?thesis by (simp add: bit_simps bit_nat_def)
  qed
  then have "push_bit k a AND of_nat y = 0"
    by (intro bit_eqI) (auto simp: bit_simps)
  then show ?thesis by (simp add: disjunctive_add_eq_or)
qed

lemma push_bit_of_nat: "push_bit k (of_nat x :: 32 word) = of_nat (2 ^ k * x)"
  by (simp add: push_bit_eq_mult)

text \<open>The bytes that lead and those that continue.\<close>

lemma byte_small: "n < 256 \<Longrightarrow> byte (of_nat n) = char_of n"
  by (simp add: byte_def unsigned_take_bit_eq unsigned_of_nat take_bit_nat_eq_self del: take_bit_eq_mod)

lemma lead_bytes:
  "x < 32 \<Longrightarrow> 0xC0 OR of_nat x = (of_nat (0xC0 + x) :: 32 word)"
  "x < 16 \<Longrightarrow> 0xE0 OR of_nat x = (of_nat (0xE0 + x) :: 32 word)"
  "x < 8 \<Longrightarrow> 0xF0 OR of_nat x = (of_nat (0xF0 + x) :: 32 word)"
  "x < 64 \<Longrightarrow> 0x80 OR of_nat x = (of_nat (0x80 + x) :: 32 word)"
  using or_shifted [of x 5 6] or_shifted [of x 4 14] or_shifted [of x 3 30] or_shifted [of x 6 2]
  by simp_all

lemma low_six: "(of_nat n :: 32 word) AND 0x3F = of_nat (n mod 64)"
proof -
  have "(of_nat n :: 32 word) AND 0x3F = take_bit 6 (of_nat n)"
    by (simp add: take_bit_eq_mask mask_eq_exp_minus_1)
  also have "\<dots> = of_nat (take_bit 6 n)" by (rule take_bit_of_nat)
  finally show ?thesis by (simp add: take_bit_eq_mod)
qed

lemma drop_bit_of_nat32: "n < 2 ^ 32 \<Longrightarrow> drop_bit k (of_nat n :: 32 word) = of_nat (n div 2 ^ k)"
proof -
  assume n: "n < 2 ^ 32"
  then have "n div 2 ^ k < 2 ^ 32" by (meson div_le_dividend le_less_trans)
  with n show ?thesis
    by (intro unsigned_word_eqI [where 'a = nat])
      (simp add: unsigned_drop_bit_eq unsigned_of_nat take_bit_nat_eq_self drop_bit_eq_div [where 'a = nat])
qed

lemma utf8_of_cases:
  "n < 0x80 \<Longrightarrow> utf8_of n = [char_of n]"
  "0x80 \<le> n \<Longrightarrow> n < 0x800 \<Longrightarrow> utf8_of n = [char_of (0xC0 + n div 64), char_of (0x80 + n mod 64)]"
  "0x800 \<le> n \<Longrightarrow> n < 0x10000 \<Longrightarrow>
     utf8_of n = [char_of (0xE0 + n div 4096), char_of (0x80 + n div 64 mod 64), char_of (0x80 + n mod 64)]"
  "0x10000 \<le> n \<Longrightarrow> n < 0x110000 \<Longrightarrow>
     utf8_of n = [char_of (0xF0 + n div 262144), char_of (0x80 + n div 4096 mod 64), char_of (0x80 + n div 64 mod 64),
       char_of (0x80 + n mod 64)]"
  by (simp_all add: utf8_of_def utf8_writer_any_def utf8_writer_low_def utf8_writer_high_def word_less_nat_alt
      unsigned_of_nat take_bit_nat_eq_self drop_bit_of_nat32 low_six lead_bytes byte_small del: of_nat_add of_nat_numeral)

text \<open>Read at its start, a character is decoded.\<close>

lemma lead_small: "n < 0x80 \<Longrightarrow> u8 (char_of n) = of_nat n"
  by (simp add: u8_def)

lemma u8_char: "n < 256 \<Longrightarrow> u8 (char_of n) = of_nat n"
  by (simp add: u8_def)

lemma continues_byte: "y < 64 \<Longrightarrow> continues (char_of (0x80 + y)) \<and> low_bits (char_of (0x80 + y)) = of_nat y"
proof -
  have "\<forall>y \<in> set [0..<64]. (of_nat (0x80 + y) :: 32 word) AND 0xc0 = 0x80 \<and> (of_nat (0x80 + y) :: 32 word) AND 0x3f = of_nat y"
    by code_simp
  then show "y < 64 \<Longrightarrow> continues (char_of (0x80 + y)) \<and> low_bits (char_of (0x80 + y)) = of_nat y"
    unfolding continues_def by (subst u8_char, simp, subst u8_char, simp, simp)
qed

lemma lead_masks:
  "x < 32 \<Longrightarrow> (of_nat (0xC0 + x) :: 32 word) AND NOT 0xC0 = of_nat x"
  "x < 16 \<Longrightarrow> (of_nat (0xE0 + x) :: 32 word) AND NOT 0xE0 = of_nat x"
  "x < 8 \<Longrightarrow> (of_nat (0xF0 + x) :: 32 word) AND NOT 0xF0 = of_nat x"
proof -
  have "\<forall>x \<in> set [0..<32]. (of_nat (0xC0 + x) :: 32 word) AND NOT 0xC0 = of_nat x"
    "\<forall>x \<in> set [0..<16]. (of_nat (0xE0 + x) :: 32 word) AND NOT 0xE0 = of_nat x"
    "\<forall>x \<in> set [0..<8]. (of_nat (0xF0 + x) :: 32 word) AND NOT 0xF0 = of_nat x"
    by code_simp+
  then show "x < 32 \<Longrightarrow> (of_nat (0xC0 + x) :: 32 word) AND NOT 0xC0 = of_nat x"
    "x < 16 \<Longrightarrow> (of_nat (0xE0 + x) :: 32 word) AND NOT 0xE0 = of_nat x"
    "x < 8 \<Longrightarrow> (of_nat (0xF0 + x) :: 32 word) AND NOT 0xF0 = of_nat x" by simp_all
qed

text \<open>Decoding one character after the other, wherever the data lie.\<close>

function decode_utf8 :: "('v \<Rightarrow> 32 word \<Rightarrow> 'v) \<Rightarrow> ('v \<Rightarrow> 32 word \<Rightarrow> 'v) \<Rightarrow> string \<Rightarrow> 'v \<Rightarrow> 'v" where
  "decode_utf8 low high [] result = result"
| "decode_utf8 low high (c # data) result =
     (let lead = u8 c in
      if lead < 0x80 then decode_utf8 low high data (low result lead)
      else if lead - 0xC0 < 0x20 \<and> 1 \<le> length data \<and> continues (data ! 0) then
        decode_utf8 low high (drop 1 data) (low result (push_bit 6 (lead AND NOT 0xC0) OR low_bits (data ! 0)))
      else if lead - 0xE0 < 0x10 \<and> 2 \<le> length data \<and> continues (data ! 0) \<and> continues (data ! 1) then
        decode_utf8 low high (drop 2 data)
          (low result (push_bit 12 (lead AND NOT 0xE0) OR push_bit 6 (low_bits (data ! 0)) OR low_bits (data ! 1)))
      else if lead - 0xF0 < 0x08 \<and> 3 \<le> length data \<and> continues (data ! 0) \<and> continues (data ! 1)
        \<and> continues (data ! 2) then
        decode_utf8 low high (drop 3 data)
          (high result (push_bit 18 (lead AND NOT 0xF0) OR push_bit 12 (low_bits (data ! 0))
             OR push_bit 6 (low_bits (data ! 1)) OR low_bits (data ! 2)))
      else decode_utf8 low high data result)"
  by pat_completeness auto
termination by (relation "measure (\<lambda>(low, high, data, r). length data)") auto

declare decode_utf8.simps(2) [simp del]

lemma lead_ascii: "u8 c < 0x80 \<longleftrightarrow> code c < 0x80"
proof -
  have "code c < 2 ^ 32" by (rule less_trans [OF code_less_256]) simp
  then show ?thesis by (simp add: u8_def word_less_nat_alt unsigned_of_nat take_bit_nat_eq_self)
qed

lemma decode_utf8_ascii: "code c < 0x80 \<Longrightarrow> decode_utf8 low high (c # data) r = decode_utf8 low high data (low r (u8 c))"
  by (simp add: decode_utf8.simps(2) lead_ascii)

lemma decode_utf8_blocks:
  "ascii_blocks low data r = (rest, r') \<Longrightarrow> decode_utf8 low high rest r' = decode_utf8 low high data r"
  by (induction low data r rule: ascii_blocks.induct) (auto simp: decode_utf8_ascii split: if_splits)

lemma decode_utf8_block_address: "decode_utf8_block low high a data r = decode_utf8 low high data r"
proof (induction low high a data r rule: decode_utf8_block.induct)
  case (2 low high a c data r)
  show ?case
    unfolding decode_utf8_block.simps(2) decode_utf8.simps(2)
    using 2 by (auto simp: Let_def decode_utf8_blocks split: prod.split)
qed simp

text \<open>A character is decoded as its code.\<close>

definition put_code :: "('v \<Rightarrow> 32 word \<Rightarrow> 'v) \<Rightarrow> ('v \<Rightarrow> 32 word \<Rightarrow> 'v) \<Rightarrow> nat \<Rightarrow> 'v \<Rightarrow> 'v" where
  "put_code low high n r = (if n < 0x10000 then low r (of_nat n) else high r (of_nat n))"

lemma lead_ranges:
  "x < 32 \<Longrightarrow> \<not> (of_nat (0xC0 + x) :: 32 word) < 0x80 \<and> (of_nat (0xC0 + x) :: 32 word) - 0xC0 < 0x20"
  "x < 16 \<Longrightarrow> \<not> (of_nat (0xE0 + x) :: 32 word) < 0x80 \<and> \<not> (of_nat (0xE0 + x) :: 32 word) - 0xC0 < 0x20
     \<and> (of_nat (0xE0 + x) :: 32 word) - 0xE0 < 0x10"
  "x < 8 \<Longrightarrow> \<not> (of_nat (0xF0 + x) :: 32 word) < 0x80 \<and> \<not> (of_nat (0xF0 + x) :: 32 word) - 0xC0 < 0x20
     \<and> \<not> (of_nat (0xF0 + x) :: 32 word) - 0xE0 < 0x10 \<and> (of_nat (0xF0 + x) :: 32 word) - 0xF0 < 0x08"
proof -
  have "\<forall>x \<in> set [0..<32]. \<not> (of_nat (0xC0 + x) :: 32 word) < 0x80 \<and> (of_nat (0xC0 + x) :: 32 word) - 0xC0 < 0x20"
    "\<forall>x \<in> set [0..<16]. \<not> (of_nat (0xE0 + x) :: 32 word) < 0x80 \<and> \<not> (of_nat (0xE0 + x) :: 32 word) - 0xC0 < 0x20
     \<and> (of_nat (0xE0 + x) :: 32 word) - 0xE0 < 0x10"
    "\<forall>x \<in> set [0..<8]. \<not> (of_nat (0xF0 + x) :: 32 word) < 0x80 \<and> \<not> (of_nat (0xF0 + x) :: 32 word) - 0xC0 < 0x20
     \<and> \<not> (of_nat (0xF0 + x) :: 32 word) - 0xE0 < 0x10 \<and> (of_nat (0xF0 + x) :: 32 word) - 0xF0 < 0x08"
    by code_simp+
  then show "x < 32 \<Longrightarrow> \<not> (of_nat (0xC0 + x) :: 32 word) < 0x80 \<and> (of_nat (0xC0 + x) :: 32 word) - 0xC0 < 0x20"
    "x < 16 \<Longrightarrow> \<not> (of_nat (0xE0 + x) :: 32 word) < 0x80 \<and> \<not> (of_nat (0xE0 + x) :: 32 word) - 0xC0 < 0x20
     \<and> (of_nat (0xE0 + x) :: 32 word) - 0xE0 < 0x10"
    "x < 8 \<Longrightarrow> \<not> (of_nat (0xF0 + x) :: 32 word) < 0x80 \<and> \<not> (of_nat (0xF0 + x) :: 32 word) - 0xC0 < 0x20
     \<and> \<not> (of_nat (0xF0 + x) :: 32 word) - 0xE0 < 0x10 \<and> (of_nat (0xF0 + x) :: 32 word) - 0xF0 < 0x08"
    by simp_all
qed

lemma or_of_nat: "y < 2 ^ k \<Longrightarrow> push_bit k (of_nat x :: 32 word) OR of_nat y = of_nat (2 ^ k * x + y)"
  using or_shifted [of y k "of_nat x"] by (simp add: push_bit_of_nat)

lemma decode_utf8_char:
  assumes "n < 0x110000"
  shows "decode_utf8 low high (utf8_of n @ rest) r = decode_utf8 low high rest (put_code low high n r)"
proof -
  consider "n < 0x80" | "0x80 \<le> n" "n < 0x800" | "0x800 \<le> n" "n < 0x10000" | "0x10000 \<le> n" by linarith
  then show ?thesis
  proof cases
    case 1
    then show ?thesis by (simp add: utf8_of_cases decode_utf8_ascii u8_char put_code_def)
  next
    case 2
    let ?x = "n div 64" and ?y = "n mod 64"
    have xy: "?x < 32" "?y < 64" using 2 by auto
    have "push_bit 6 (of_nat ?x :: 32 word) OR of_nat ?y = of_nat n" using or_of_nat [of ?y 6 ?x] xy by simp
    with 2 xy show ?thesis
      using lead_ranges(1) [OF xy(1)] lead_masks(1) [OF xy(1)] continues_byte [OF xy(2)]
      by (simp add: utf8_of_cases decode_utf8.simps(2) u8_char put_code_def Let_def del: of_nat_add)
  next
    case 3
    let ?x = "n div 4096" and ?y = "n div 64 mod 64" and ?z = "n mod 64"
    have xy: "?x < 16" "?y < 64" "?z < 64" using 3 by auto
    have "n div 64 = 64 * ?x + ?y" using div_mult2_eq [of n 64 64] by simp
    then have n: "2 ^ 12 * ?x + (2 ^ 6 * ?y + ?z) = n"
      using mult_div_mod_eq [of 64 n] by (simp, linarith)
    have "push_bit 6 (of_nat ?y :: 32 word) OR of_nat ?z = of_nat (2 ^ 6 * ?y + ?z)"
      by (rule or_of_nat) (use xy in simp)
    moreover have "push_bit 12 (of_nat ?x :: 32 word) OR of_nat (2 ^ 6 * ?y + ?z) = of_nat (2 ^ 12 * ?x + (2 ^ 6 * ?y + ?z))"
      by (rule or_of_nat) (use xy in simp)
    ultimately have "push_bit 12 (of_nat ?x :: 32 word) OR push_bit 6 (of_nat ?y) OR of_nat ?z = of_nat n"
      by (simp only: or.assoc n)
    then show ?thesis
      using 3 xy lead_ranges(2) [OF xy(1)] lead_masks(2) [OF xy(1)] continues_byte [OF xy(2)] continues_byte [OF xy(3)]
      by (simp add: utf8_of_cases decode_utf8.simps(2) u8_char put_code_def Let_def del: of_nat_add)
  next
    case 4
    let ?w = "n div 262144" and ?x = "n div 4096 mod 64" and ?y = "n div 64 mod 64" and ?z = "n mod 64"
    have xy: "?w < 8" "?x < 64" "?y < 64" "?z < 64" using assms by auto
    have "n div 64 = 64 * (n div 4096) + ?y" "n div 4096 = 64 * ?w + ?x"
      using div_mult2_eq [of n 64 64] div_mult2_eq [of n 4096 64] by simp_all
    then have n: "2 ^ 18 * ?w + (2 ^ 12 * ?x + (2 ^ 6 * ?y + ?z)) = n"
      using mult_div_mod_eq [of 64 n] by (simp, linarith)
    have "push_bit 6 (of_nat ?y :: 32 word) OR of_nat ?z = of_nat (2 ^ 6 * ?y + ?z)"
      by (rule or_of_nat) (use xy in simp)
    moreover have "push_bit 12 (of_nat ?x :: 32 word) OR of_nat (2 ^ 6 * ?y + ?z) = of_nat (2 ^ 12 * ?x + (2 ^ 6 * ?y + ?z))"
      by (rule or_of_nat) (use xy in simp)
    moreover have "push_bit 18 (of_nat ?w :: 32 word) OR of_nat (2 ^ 12 * ?x + (2 ^ 6 * ?y + ?z)) =
        of_nat (2 ^ 18 * ?w + (2 ^ 12 * ?x + (2 ^ 6 * ?y + ?z)))"
      by (rule or_of_nat) (use xy in simp)
    ultimately have "push_bit 18 (of_nat ?w :: 32 word) OR push_bit 12 (of_nat ?x) OR push_bit 6 (of_nat ?y) OR of_nat ?z =
        of_nat n"
      by (simp only: or.assoc n)
    then show ?thesis
      using 4 assms xy lead_ranges(3) [OF xy(1)] lead_masks(3) [OF xy(1)] continues_byte [OF xy(2)]
        continues_byte [OF xy(3)] continues_byte [OF xy(4)]
      by (simp add: utf8_of_cases decode_utf8.simps(2) u8_char put_code_def Let_def numeral_eq_Suc [of "num.Bit0 num.One"]
          del: of_nat_add)
  qed
qed

lemma decode_utf8_text:
  assumes "list_all scalar ns"
  shows "decode_utf8 low high (utf8 ns @ rest) r = decode_utf8 low high rest (fold (put_code low high) ns r)"
  using assms by (induction ns arbitrary: r) (auto simp: decode_utf8_char scalar_def)

text \<open>Where characters begin.\<close>

lemma not_continues:
  fixes n x :: nat
  shows "n < 0x80 \<Longrightarrow> \<not> continues (char_of n)"
  "x < 32 \<Longrightarrow> \<not> continues (char_of (0xC0 + x))" "x < 16 \<Longrightarrow> \<not> continues (char_of (0xE0 + x))"
  "x < 8 \<Longrightarrow> \<not> continues (char_of (0xF0 + x))"
proof -
  have "\<forall>n \<in> set [0..<128]. (of_nat n :: 32 word) AND 0xc0 \<noteq> 0x80"
    "\<forall>n \<in> set [0..<32]. (of_nat (0xC0 + n) :: 32 word) AND 0xc0 \<noteq> 0x80"
    "\<forall>n \<in> set [0..<16]. (of_nat (0xE0 + n) :: 32 word) AND 0xc0 \<noteq> 0x80"
    "\<forall>n \<in> set [0..<8]. (of_nat (0xF0 + n) :: 32 word) AND 0xc0 \<noteq> 0x80"
    by code_simp+
  then show "n < 0x80 \<Longrightarrow> \<not> continues (char_of n)"
    "x < 32 \<Longrightarrow> \<not> continues (char_of (0xC0 + x))" "x < 16 \<Longrightarrow> \<not> continues (char_of (0xE0 + x))"
    "x < 8 \<Longrightarrow> \<not> continues (char_of (0xF0 + x))"
    unfolding continues_def by (simp_all only: u8_char atLeastLessThan_upt [symmetric]) auto
qed

lemma utf8_of_shape:
  assumes "scalar n"
  obtains c cs where "utf8_of n = c # cs" "\<not> continues c" "list_all continues cs" "length cs \<le> 3"
proof -
  consider "n < 0x80" | "0x80 \<le> n" "n < 0x800" | "0x800 \<le> n" "n < 0x10000" | "0x10000 \<le> n" "n < 0x110000"
    using assms unfolding scalar_def by linarith
  then show thesis
  proof cases
    case 1
    then show thesis using that by (simp add: utf8_of_cases not_continues)
  next
    case 2
    then have "n div 64 < 32" by auto
    then show thesis using 2 by (intro that [OF utf8_of_cases(2)]) (simp_all add: not_continues continues_byte)
  next
    case 3
    then have "n div 4096 < 16" by auto
    then show thesis using 3 by (intro that [OF utf8_of_cases(3)]) (simp_all add: not_continues continues_byte)
  next
    case 4
    then have "n div 262144 < 8" by auto
    then show thesis using 4 by (intro that [OF utf8_of_cases(4)]) (simp_all add: not_continues continues_byte)
  qed
qed

lemma utf8_boundary:
  assumes "list_all scalar ns" and "p \<le> length (utf8 ns)" and "p = length (utf8 ns) \<or> \<not> continues (utf8 ns ! p)"
  obtains ms ks where "ns = ms @ ks" "utf8 ms = take p (utf8 ns)" "utf8 ks = drop p (utf8 ns)"
  using assms
proof (induction ns arbitrary: p thesis)
  case (Cons n ns)
  from Cons.prems(2) have "scalar n" by simp
  then obtain c cs where c: "utf8_of n = c # cs" "list_all continues cs" by (rule utf8_of_shape)
  show ?case
  proof (cases "p < length (utf8_of n)")
    case True
    have "p = 0"
    proof (rule ccontr)
      assume "p \<noteq> 0"
      then obtain i where i: "p = Suc i" using not0_implies_Suc by blast
      then have "continues (utf8 (n # ns) ! p)" using c True by (simp add: nth_append list_all_length)
      with Cons.prems(4) True show False by simp
    qed
    then show ?thesis using Cons.prems(1) [of "[]" "n # ns"] by simp
  next
    case False
    then have "p - length (utf8_of n) = length (utf8 ns) \<or> \<not> continues (utf8 ns ! (p - length (utf8_of n)))"
      using Cons.prems(4) by (auto simp: nth_append)
    moreover have "list_all scalar ns" "p - length (utf8_of n) \<le> length (utf8 ns)" using Cons.prems(2,3) by simp_all
    ultimately obtain ms ks where mk: "ns = ms @ ks"
      "utf8 ms = take (p - length (utf8_of n)) (utf8 ns)" "utf8 ks = drop (p - length (utf8_of n)) (utf8 ns)"
      using Cons.IH by blast
    show ?thesis
    proof (rule Cons.prems(1) [of "n # ms" ks])
      show "n # ns = (n # ms) @ ks" using mk(1) by simp
      show "utf8 (n # ms) = take p (utf8 (n # ns))" using mk(2) False by simp
      show "utf8 ks = drop p (utf8 (n # ns))" using mk(3) False by simp
    qed
  qed
qed simp

lemma utf8_leads:
  "list_all scalar ns \<Longrightarrow> i + 4 \<le> length (utf8 ns) \<Longrightarrow> \<exists>j<4. \<not> continues (utf8 ns ! (i + j))"
proof (induction ns arbitrary: i)
  case (Cons n ns)
  then have "scalar n" by simp
  then obtain c cs where c: "utf8_of n = c # cs" "\<not> continues c" "length cs \<le> 3" by (rule utf8_of_shape)
  show ?case
  proof (cases "i < length (utf8_of n)")
    case True
    show ?thesis
    proof (cases "i = 0")
      case False
      let ?j = "length (utf8_of n) - i"
      have j: "?j < 4" "i + ?j = length (utf8_of n)" using True False c by auto
      then have "ns \<noteq> []" using Cons.prems(2) by auto
      then obtain m ms where m: "ns = m # ms" by (cases ns) auto
      with Cons.prems(1) have "scalar m" by simp
      then obtain d ds where "utf8_of m = d # ds" "\<not> continues d" by (rule utf8_of_shape)
      then have "\<not> continues (utf8 (n # ns) ! (i + ?j))" unfolding j(2) using m by (simp add: nth_append)
      with j(1) show ?thesis by blast
    qed (use c in \<open>auto intro: exI [of _ 0]\<close>)
  next
    case False
    let ?i = "i - length (utf8_of n)"
    have "list_all scalar ns" "?i + 4 \<le> length (utf8 ns)" using Cons.prems False by simp_all
    then obtain j where "j < 4" "\<not> continues (utf8 ns ! (?i + j))" using Cons.IH by blast
    with False show ?thesis by (intro exI [of _ j]) (simp add: nth_append)
  qed
qed simp

section \<open>Encoding character by character\<close>

text \<open>The encoding of a text, character by character.\<close>

definition encode_char :: "xml_encoding \<Rightarrow> nat \<Rightarrow> string" where
  "encode_char encoding n =
     (if encoding = encoding_utf16_le then bytes16 (put_code utf16_writer_low utf16_writer_high n [])
      else if encoding = encoding_utf16_be then bytes16 (map endian_swap16 (put_code utf16_writer_low utf16_writer_high n []))
      else if encoding = encoding_utf32_le then bytes32 [of_nat n]
      else if encoding = encoding_utf32_be then bytes32 [endian_swap32 (of_nat n)]
      else if encoding = encoding_latin1 then put_code latin1_writer_low latin1_writer_high n []
      else utf8_of n)"

definition encode :: "xml_encoding \<Rightarrow> nat list \<Rightarrow> string" where
  "encode encoding ns = concat (map (encode_char encoding) ns)"

lemma encode_simps [simp]:
  "encode e [] = []" "encode e (n # ns) = encode_char e n @ encode e ns" "encode e (ms @ ns) = encode e ms @ encode e ns"
  by (simp_all add: encode_def)

lemma encode_utf8 [simp]: "encode encoding_utf8 ns = utf8 ns"
  by (induction ns) (simp_all add: encode_char_def)

lemma bytes_simps [simp]:
  "bytes16 (v @ w) = bytes16 v @ bytes16 w" "bytes32 (x @ y) = bytes32 x @ bytes32 y" "bytes16 [] = []" "bytes32 [] = []"
  by (simp_all add: bytes16_def bytes32_def)

lemma put_code_appends:
  "put_code utf16_writer_low utf16_writer_high n r = r @ put_code utf16_writer_low utf16_writer_high n []"
  "put_code utf32_writer utf32_writer n q = q @ [of_nat n]"
  "put_code latin1_writer_low latin1_writer_high n s = s @ put_code latin1_writer_low latin1_writer_high n []"
  by (simp_all add: put_code_def utf16_writer_low_def utf16_writer_high_def utf32_writer_def latin1_writer_low_def
      latin1_writer_high_def Let_def)

lemma fold_appends:
  assumes "\<And>n r. f n r = r @ f n []"
  shows "fold f ns r = r @ concat (map (\<lambda>n. f n []) ns)"
proof (induction ns arbitrary: r)
  case (Cons n ns)
  have "fold f (n # ns) r = f n r @ concat (map (\<lambda>n. f n []) ns)" using Cons by simp
  also have "f n r = r @ f n []" by (rule assms)
  finally show ?case by simp
qed simp

definition output_encoding :: "xml_encoding \<Rightarrow> bool" where
  "output_encoding e \<longleftrightarrow> e \<in> {encoding_utf8, encoding_utf16_le, encoding_utf16_be, encoding_utf32_le, encoding_utf32_be,
     encoding_latin1}"

lemma get_write_encoding_concrete: "output_encoding (get_write_encoding e)"
  by (cases e) (simp_all add: output_encoding_def get_write_encoding_def get_wchar_encoding_def)

lemma decode_writers:
  assumes "list_all scalar ns"
  shows "decode_utf8_block utf16_writer_low utf16_writer_high a (utf8 ns) [] =
      concat (map (\<lambda>n. put_code utf16_writer_low utf16_writer_high n []) ns)"
    and "decode_utf8_block utf32_writer utf32_writer a (utf8 ns) [] = map of_nat ns"
    and "decode_utf8_block latin1_writer_low latin1_writer_high a (utf8 ns) [] =
      concat (map (\<lambda>n. put_code latin1_writer_low latin1_writer_high n []) ns)"
proof -
  have decoded: "decode_utf8_block low high a (utf8 ns) r = fold (put_code low high) ns r" for low high r
    using decode_utf8_text [OF assms, of low high "[]" r] by (simp add: decode_utf8_block_address)
  show "decode_utf8_block utf16_writer_low utf16_writer_high a (utf8 ns) [] =
      concat (map (\<lambda>n. put_code utf16_writer_low utf16_writer_high n []) ns)"
    unfolding decoded by (subst fold_appends [OF put_code_appends(1)]) simp
  show "decode_utf8_block utf32_writer utf32_writer a (utf8 ns) [] = map of_nat ns"
  proof -
    have "put_code utf32_writer utf32_writer n r = r @ put_code utf32_writer utf32_writer n []" for n r
      using put_code_appends(2) [of n r] put_code_appends(2) [of n "[]"] by simp
    from fold_appends [of "put_code utf32_writer utf32_writer", OF this, of ns "[]"]
    have "fold (put_code utf32_writer utf32_writer) ns [] = concat (map (\<lambda>n. put_code utf32_writer utf32_writer n []) ns)"
      by (simp only: append_Nil)
    also have "\<dots> = map of_nat ns" by (induction ns) (simp_all add: put_code_appends(2))
    finally show ?thesis unfolding decoded .
  qed
  show "decode_utf8_block latin1_writer_low latin1_writer_high a (utf8 ns) [] =
      concat (map (\<lambda>n. put_code latin1_writer_low latin1_writer_high n []) ns)"
    unfolding decoded by (subst fold_appends [OF put_code_appends(3)]) simp
qed

lemma convert_buffer_output_text:
  assumes "list_all scalar ns" and "output_encoding e" and "e \<noteq> encoding_utf8"
  shows "convert_buffer_output a (utf8 ns) e = Inr (encode e ns)"
proof -
  have "bytes16 (concat xss) = concat (map bytes16 xss)" for xss by (induction xss) simp_all
  moreover have "bytes32 (map g ns) = concat (map (\<lambda>n. bytes32 [g n]) ns)" for g
    by (induction ns) (simp_all add: bytes32_def)
  ultimately show ?thesis
    using assms(2,3)
    by (auto simp: output_encoding_def convert_buffer_output_def decode_writers [OF assms(1)] encode_def
        encode_char_def [abs_def] Let_def comp_def map_concat)
qed

lemma encode_length: "list_all scalar ns \<Longrightarrow> length (encode e ns) \<le> 4 * length (utf8 ns)"
proof (induction ns)
  case (Cons n ns)
  then have "scalar n" by simp
  then obtain c cs where c: "utf8_of n = c # cs" "length cs \<le> 3" by (rule utf8_of_shape)
  have "length (put_code utf16_writer_low utf16_writer_high n []) \<le> 2"
    "length (put_code latin1_writer_low latin1_writer_high n []) \<le> 1"
    by (simp_all add: put_code_def utf16_writer_low_def utf16_writer_high_def latin1_writer_low_def
        latin1_writer_high_def Let_def)
  moreover have "length (bytes16 v) = 2 * length v" for v by (induction v) (simp_all add: bytes16_def)
  ultimately have "length (encode_char e n) \<le> 4 * length (utf8_of n)"
    using c by (auto simp: encode_char_def bytes32_def)
  with Cons show ?case by simp
qed simp

end
