(* ===== verification/Pugi_Output.thy ===== *)
theory Pugi_Output
  imports Pugi_Writer Pugi_Utf8
begin

text \<open>
  How pugixml writes: the functions of \<open>Pugi_Writer\<close> as the calls they make of \<open>xml_buffered_writer\<close>, which
  gathers what it is given in a buffer, and converts it to the encoding of the output, piece by piece
  (\<open>pugixml/src/pugixml.cpp\<close>).

  Whatever the pieces, what reaches the \<open>xml_writer\<close> is the text of \<open>Pugi_Writer\<close> in the encoding wanted:
  no character is cut where a piece ends, and neither the buffer nor the room for converted text is
  too small.
\<close>

section \<open>The buffered writer\<close>

definition bufcapacity :: nat where
  "bufcapacity = 10240 div (1 + 4)"

text \<open>The characters in the buffer, and the calls of \<open>xml_writer::write\<close> so far.\<close>

record xml_buffered_writer =
  bw_encoding :: xml_encoding
  bw_buffer :: string
  bw_written :: "string list"

text \<open>The address of the data that are converted makes no difference (\<open>decode_utf8_block_address\<close>).\<close>

definition flush_data :: "string \<Rightarrow> xml_buffered_writer \<Rightarrow> xml_buffered_writer res" where
  "flush_data data w =
     (if data = [] then Inr w
      else if bw_encoding w = encoding_utf8 then Inr (w\<lparr>bw_written := bw_written w @ [data]\<rparr>)
      else rbind (convert_buffer_output 0 data (bw_encoding w)) (\<lambda>result.
        if 4 * bufcapacity < length result then Inl (Undefined ''scratch'')
        else Inr (w\<lparr>bw_written := bw_written w @ [result]\<rparr>)))"

definition flush :: "xml_buffered_writer \<Rightarrow> xml_buffered_writer res" where
  "flush w = rmap (\<lambda>w1. w1\<lparr>bw_buffer := []\<rparr>) (flush_data (bw_buffer w) w)"

definition get_valid_length :: "string \<Rightarrow> nat" where
  "get_valid_length data =
     (if length data < 5 then 0
      else case List.find (\<lambda>i. \<not> continues (data ! (length data - i))) [1, 2, 3, 4] of
        Some i \<Rightarrow> length data - i
      | None \<Rightarrow> length data)"

function flush_chunks :: "string \<Rightarrow> xml_buffered_writer \<Rightarrow> (string \<times> xml_buffered_writer) res" where
  "flush_chunks data w =
     (if length data \<le> bufcapacity then Inr (data, w)
      else let chunk_size = get_valid_length (take bufcapacity data) in
        if chunk_size = 0 then Inl (Undefined ''assert'')
        else rbind (flush_data (take chunk_size data) w) (flush_chunks (drop chunk_size data)))"
  by pat_completeness auto
termination by (relation "measure (length \<circ> fst)") (auto simp: bufcapacity_def)

declare flush_chunks.simps [simp del]

definition append_buffer :: "string \<Rightarrow> xml_buffered_writer \<Rightarrow> xml_buffered_writer res" where
  "append_buffer data w =
     (if bufcapacity < length (bw_buffer w) + length data then Inl (Undefined ''buffer'')
      else Inr (w\<lparr>bw_buffer := bw_buffer w @ data\<rparr>))"

definition write_direct :: "string \<Rightarrow> xml_buffered_writer \<Rightarrow> xml_buffered_writer res" where
  "write_direct data w =
     rbind (flush w) (\<lambda>w1.
       if bufcapacity < length data then
         (if bw_encoding w1 = encoding_utf8 then Inr (w1\<lparr>bw_written := bw_written w1 @ [data]\<rparr>)
          else rbind (flush_chunks data w1) (\<lambda>(rest, w2). append_buffer rest w2))
       else append_buffer data w1)"

definition write_chars :: "string \<Rightarrow> xml_buffered_writer \<Rightarrow> xml_buffered_writer res" where
  "write_chars ds w =
     rbind (if bufcapacity - length ds < length (bw_buffer w) then flush w else Inr w) (append_buffer ds)"

definition write_buffer :: "string \<Rightarrow> xml_buffered_writer \<Rightarrow> xml_buffered_writer res" where
  "write_buffer data w =
     (if length (bw_buffer w) + length data \<le> bufcapacity then append_buffer data w else write_direct data w)"

definition write_string :: "string \<Rightarrow> xml_buffered_writer \<Rightarrow> xml_buffered_writer res" where
  "write_string data w =
     (let n = min (length data) (bufcapacity - length (bw_buffer w)) in
      if length (bw_buffer w) + n < bufcapacity then append_buffer data w
      else
        let extra = n - get_valid_length (take n data) in
        write_direct (drop (n - extra) data) (w\<lparr>bw_buffer := bw_buffer w @ take (n - extra) data\<rparr>))"

text \<open>The calls of the writer, \<open>Write\<close> for the one to six characters of \<open>write(d0, ..)\<close>.\<close>

datatype write_op = Write string | Write_buffer string | Write_string string

primrec do_write :: "write_op \<Rightarrow> xml_buffered_writer \<Rightarrow> xml_buffered_writer res" where
  "do_write (Write ds) = write_chars ds"
| "do_write (Write_buffer data) = write_buffer data"
| "do_write (Write_string data) = write_string data"

primrec write_all :: "write_op list \<Rightarrow> xml_buffered_writer \<Rightarrow> xml_buffered_writer res" where
  "write_all [] w = Inr w"
| "write_all (x # xs) w = rbind (do_write x w) (write_all xs)"

text \<open>From the constructor to the destructor.\<close>

definition buffered_output :: "xml_encoding \<Rightarrow> write_op list \<Rightarrow> string list res" where
  "buffered_output user_encoding ops =
     rbind (write_all ops \<lparr>bw_encoding = get_write_encoding user_encoding, bw_buffer = [], bw_written = []\<rparr>)
       (\<lambda>w. rmap bw_written (flush w))"

section \<open>The calls\<close>

text \<open>What the functions of \<open>Pugi_Writer\<close> call, in their order.\<close>

function escaped_ops :: "nat \<Rightarrow> string \<Rightarrow> write_op list" where
  "escaped_ops ct s =
     (if s = [] then []
      else Write_buffer (takeWhile (\<lambda>c. \<not> is_chartypex c ct) s) #
        (case dropWhile (\<lambda>c. \<not> is_chartypex c ct) s of
           [] \<Rightarrow> []
         | c # r \<Rightarrow> Write (special_text c) # escaped_ops ct r))"
  by pat_completeness auto
termination
proof (relation "measure (length \<circ> snd)", simp)
  fix ct s c r assume "dropWhile (\<lambda>c. \<not> is_chartypex c ct) s = c # r"
  then have "length (c # r) \<le> length s" by (metis length_dropWhile_le)
  then show "((ct, r), ct, s) \<in> measure (length \<circ> snd)" by simp
qed

declare escaped_ops.simps [simp del]

definition text_ops :: "nat \<Rightarrow> 32 word \<Rightarrow> string \<Rightarrow> write_op list" where
  "text_ops ct flags s = (if optset flags format_no_escapes then [Write_string s] else escaped_ops ct s)"

function cdata_ops :: "string \<Rightarrow> write_op list" where
  "cdata_ops s =
     [Write ''<![CD'', Write ''ATA['']
     @ (case before_cdata_end s of
          (b, []) \<Rightarrow> [Write_buffer b, Write '']]>'']
        | (b, c # r) \<Rightarrow> [Write_buffer (b @ take 2 (c # r)), Write '']]>''] @ cdata_ops (drop 2 (c # r)))"
  by pat_completeness auto
termination
proof (relation "measure length", simp)
  fix s b r c r' assume "(b, r) = before_cdata_end s" "r = c # r'"
  then show "(drop 2 (c # r'), s) \<in> measure length"
    using before_cdata_end_length [of s] by (cases "before_cdata_end s") auto
qed

declare cdata_ops.simps [simp del]

text \<open>The text before the next hyphen that another hyphen or the end follows.\<close>

fun before_hyphen :: "string \<Rightarrow> string \<times> string" where
  "before_hyphen [] = ([], [])"
| "before_hyphen (c # s) =
     (if c = CHR ''-'' \<and> (s = [] \<or> hd s = CHR ''-'') then ([], c # s)
      else (let (b, r) = before_hyphen s in (c # b, r)))"

lemma before_hyphen_length: "length (snd (before_hyphen s)) \<le> length s"
  by (induction s) (auto split: prod.split)

function comment_ops :: "string \<Rightarrow> write_op list" where
  "comment_ops s =
     (if s = [] then []
      else case before_hyphen s of
        (b, []) \<Rightarrow> [Write_buffer b]
      | (b, c # r) \<Rightarrow> Write_buffer b # Write ''- '' # comment_ops r)"
  by pat_completeness auto
termination
proof (relation "measure length", simp)
  fix s b r c r' assume "(b, r) = before_hyphen s" "r = c # r'"
  then show "(r', s) \<in> measure length"
    using before_hyphen_length [of s] by (cases "before_hyphen s") auto
qed

declare comment_ops.simps [simp del]

definition attribute_ops :: "32 word \<Rightarrow> xml_attribute \<Rightarrow> write_op list" where
  "attribute_ops flags a =
     [Write '' '', Write_string (fst a), Write (''='' @ [CHR 0x22])]
     @ (case snd a of None \<Rightarrow> [] | Some v \<Rightarrow> text_ops ctx_special_attr flags v) @ [Write [CHR 0x22]]"

definition start_ops :: "32 word \<Rightarrow> xml_node \<Rightarrow> write_op list \<times> bool" where
  "start_ops flags n =
     (let name = or_default default_name (nd_name n);
          start = [Write ''<'', Write_string name] @ concat (map (attribute_ops flags) (nd_attrs n)) in
      if optset flags format_raw then
        (if nd_children n = [] then (start @ [Write '' />''], False) else (start @ [Write ''>''], True))
      else
        (case nd_children n of
           [] \<Rightarrow> (start @ [Write ('' />'' @ [CHR 0x0A])], False)
         | f # rest \<Rightarrow>
             if rest = [] \<and> nd_type f \<in> {node_pcdata, node_cdata} then
               (let v = or_default [] (nd_value f) in
                (start @ [Write ''>'']
                 @ (if nd_type f = node_pcdata then text_ops ctx_special_pcdata flags v else cdata_ops v)
                 @ [Write ''</'', Write_string name, Write (''>'' @ [CHR 0x0A])], False))
             else (start @ [Write (''>'' @ [CHR 0x0A])], True)))"

definition line_ops :: "32 word \<Rightarrow> write_op list" where
  "line_ops flags = (if optset flags format_raw then [] else [Write [CHR 0x0A]])"

definition end_ops :: "32 word \<Rightarrow> xml_node \<Rightarrow> write_op list" where
  "end_ops flags n =
     [Write ''</'', Write_string (or_default default_name (nd_name n)), Write (''>'' @ line_end flags)]"

definition simple_ops :: "32 word \<Rightarrow> xml_node \<Rightarrow> write_op list" where
  "simple_ops flags n =
     (let value = or_default [] (nd_value n);
          name = or_default default_name (nd_name n);
          spaced = (case nd_value n of None \<Rightarrow> [] | Some v \<Rightarrow> [Write '' '', Write_string v]) in
      case nd_type n of
        node_pcdata \<Rightarrow> text_ops ctx_special_pcdata flags value @ line_ops flags
      | node_cdata \<Rightarrow> cdata_ops value @ line_ops flags
      | node_comment \<Rightarrow> [Write ''<!--''] @ comment_ops value @ [Write ''-->''] @ line_ops flags
      | node_pi \<Rightarrow> [Write ''<?'', Write_string name] @ spaced @ [Write ''?>''] @ line_ops flags
      | node_declaration \<Rightarrow>
          [Write ''<?'', Write_string name] @ concat (map (attribute_ops flags) (nd_attrs n)) @ [Write ''?>''] @ line_ops flags
      | node_doctype \<Rightarrow> [Write ''<!DOC'', Write ''TYPE''] @ spaced @ [Write ''>''] @ line_ops flags
      | _ \<Rightarrow> [])"

definition indent_ops :: "string \<Rightarrow> 32 word \<Rightarrow> nat \<Rightarrow> write_op list" where
  "indent_ops indent flags depth =
     (if flags AND (format_indent OR format_raw) = format_indent \<and> indent \<noteq> []
      then replicate depth (if length indent \<le> 4 then Write indent else Write_buffer indent) else [])"

primrec node_ops :: "string \<Rightarrow> 32 word \<Rightarrow> nat \<Rightarrow> xml_node \<Rightarrow> write_op list" where
  "node_ops indent flags depth (Xml_Node t name value attrs cs) =
     (let n = Xml_Node t name value attrs cs in
      indent_ops indent flags depth @
      (if t = node_element then
         (let (start, more) = start_ops flags n in
          start @
          (if more then
             concat (map (node_ops indent flags (depth + 1)) cs) @ indent_ops indent flags depth @ end_ops flags n
           else []))
       else if t = node_document then concat (map (node_ops indent flags depth) cs)
       else simple_ops flags n))"

definition save_ops :: "string \<Rightarrow> 32 word \<Rightarrow> xml_encoding \<Rightarrow> xml_node \<Rightarrow> write_op list" where
  "save_ops indent flags encoding doc =
     (if optset flags format_write_bom \<and> encoding \<noteq> encoding_latin1 then [Write [CHR 0xEF, CHR 0xBB, CHR 0xBF]] else []) @
     (if \<not> optset flags format_no_declaration \<and> \<not> has_declaration (nd_children doc) then
        [Write_string (''<?xml version='' @ [CHR 0x22] @ ''1.0'' @ [CHR 0x22])]
        @ (if encoding = encoding_latin1
           then [Write_string ('' encoding='' @ [CHR 0x22] @ ''ISO-8859-1'' @ [CHR 0x22])] else [])
        @ [Write ''?>''] @ line_ops flags
      else []) @
     node_ops indent flags 0 doc"

definition save_output :: "string \<Rightarrow> 32 word \<Rightarrow> xml_encoding \<Rightarrow> xml_node \<Rightarrow> string list res" where
  "save_output indent flags encoding doc = buffered_output encoding (save_ops indent flags encoding doc)"

section \<open>The calls write the text\<close>

primrec op_text :: "write_op \<Rightarrow> string" where
  "op_text (Write s) = s"
| "op_text (Write_buffer s) = s"
| "op_text (Write_string s) = s"

definition ops_text :: "write_op list \<Rightarrow> string" where
  "ops_text ops = concat (map op_text ops)"

lemma ops_text_simps [simp]:
  "ops_text [] = []" "ops_text (x # xs) = op_text x @ ops_text xs" "ops_text (xs @ ys) = ops_text xs @ ops_text ys"
  by (simp_all add: ops_text_def)

lemma ops_text_concat: "ops_text (concat (map f xs)) = concat (map (\<lambda>x. ops_text (f x)) xs)"
  by (induction xs) simp_all

lemma ops_text_replicate: "ops_text (replicate n x) = concat (replicate n (op_text x))"
  by (induction n) simp_all

lemma escaped_ops_text: "ops_text (escaped_ops ct s) = text_output_escaped ct s"
proof (induction ct s rule: escaped_ops.induct)
  case (1 ct s)
  show ?case
  proof (cases "dropWhile (\<lambda>c. \<not> is_chartypex c ct) s")
    case Nil
    then show ?thesis
      by (subst escaped_ops.simps, subst text_output_escaped.simps) (simp add: Nil del: dropWhile_eq_Nil_conv)
  next
    case (Cons c r)
    then have "s \<noteq> []" by auto
    with 1 Cons have "ops_text (escaped_ops ct r) = text_output_escaped ct r" by blast
    with Cons \<open>s \<noteq> []\<close> show ?thesis
      by (subst escaped_ops.simps, subst text_output_escaped.simps) simp
  qed
qed

lemma text_ops_text: "ops_text (text_ops ct flags s) = text_output ct flags s"
  by (simp add: text_ops_def text_output_def escaped_ops_text)

lemma before_cdata_end_front: "before_cdata_end s = (b, c # r) \<Longrightarrow> take 2 (c # r) = '']]''"
  by (induction s arbitrary: b rule: before_cdata_end.induct) (auto split: if_splits prod.splits)

lemma cdata_ops_text: "ops_text (cdata_ops s) = text_output_cdata s"
proof (induction s rule: cdata_ops.induct)
  case (1 s)
  obtain b r where r: "before_cdata_end s = (b, r)" by (cases "before_cdata_end s")
  show ?case
  proof (cases r)
    case Nil
    then show ?thesis by (subst cdata_ops.simps, subst text_output_cdata.simps) (simp add: r)
  next
    case (Cons c q)
    then have "ops_text (cdata_ops (drop 2 (c # q))) = text_output_cdata (drop 2 (c # q))"
      using 1 [OF r [symmetric]] by simp
    then show ?thesis
      using before_cdata_end_front [OF r [unfolded Cons]]
      by (subst cdata_ops.simps, subst text_output_cdata.simps) (simp add: r Cons)
  qed
qed

lemma comment_body_hyphen:
  "before_hyphen s = (b, r) \<Longrightarrow>
   comment_body s = b @ (case r of [] \<Rightarrow> [] | c # q \<Rightarrow> ''- '' @ comment_body q)"
proof (induction s arbitrary: b r rule: comment_body.induct)
  case (3 c d s)
  then show ?case by (auto split: if_splits prod.splits)
qed (auto split: if_splits)

lemma comment_ops_text: "ops_text (comment_ops s) = comment_body s"
proof (induction s rule: comment_ops.induct)
  case (1 s)
  obtain b r where r: "before_hyphen s = (b, r)" by (cases "before_hyphen s")
  show ?case
  proof (cases "s = []")
    case False
    show ?thesis
    proof (cases r)
      case Nil
      then show ?thesis using comment_body_hyphen [OF r] False by (subst comment_ops.simps) (simp add: r)
    next
      case (Cons c q)
      then have "ops_text (comment_ops q) = comment_body q" using 1 [OF False r [symmetric]] by simp
      then show ?thesis using comment_body_hyphen [OF r] Cons False by (subst comment_ops.simps) (simp add: r)
    qed
  qed (simp add: comment_ops.simps)
qed

lemma attribute_ops_text: "ops_text (attribute_ops flags a) = attribute_output flags a"
  by (auto simp: attribute_ops_def attribute_output_def text_ops_text split: option.split)

lemma line_ops_text: "ops_text (line_ops flags) = line_end flags"
  by (simp add: line_ops_def line_end_def)

lemma start_ops_text: "node_output_start flags n = apfst ops_text (start_ops flags n)"
  by (cases "nd_children n")
    (auto simp: start_ops_def node_output_start_def node_output_attributes_def Let_def ops_text_concat
      attribute_ops_text text_ops_text cdata_ops_text)

lemma simple_ops_text: "ops_text (simple_ops flags n) = node_output_simple flags n"
  by (cases "nd_type n"; cases "nd_value n")
    (simp_all add: simple_ops_def node_output_simple_def node_output_comment_def node_output_attributes_def Let_def
      text_ops_text cdata_ops_text comment_ops_text attribute_ops_text ops_text_concat line_ops_text)

lemma indent_ops_text: "ops_text (indent_ops indent flags depth) = text_output_indent indent flags depth"
  by (auto simp: indent_ops_def text_output_indent_def ops_text_replicate)

lemma node_ops_text: "ops_text (node_ops indent flags depth n) = node_output indent flags depth n"
proof (induction n arbitrary: depth)
  case (Xml_Node t name v attrs cs)
  have IH: "concat (map (\<lambda>x. ops_text (node_ops indent flags d x)) cs) = concat (map (node_output indent flags d) cs)" for d
    by (intro arg_cong [where f = concat] map_cong) (simp_all add: Xml_Node)
  let ?n = "Xml_Node t name v attrs cs"
  obtain start more' where s: "start_ops flags ?n = (start, more')" by (cases "start_ops flags ?n")
  with start_ops_text [of flags ?n] have "node_output_start flags ?n = (ops_text start, more')" by simp
  with s IH show ?case
    by (cases "t = node_element")
      (simp_all add: Let_def indent_ops_text simple_ops_text ops_text_concat end_ops_def node_output_end_def)
qed

text \<open>What the calls of \<open>xml_document::save\<close> give, but for Latin-1, where the declaration has the encoding.\<close>

lemma save_ops_text:
  assumes "encoding \<noteq> encoding_latin1"
  shows "ops_text (save_ops indent flags encoding doc) = xml_document_save indent flags doc"
  using assms by (simp add: save_ops_def xml_document_save_def node_ops_text line_ops_text)

section \<open>What is written\<close>

text \<open>A part of a text that ends where \<open>get_valid_length\<close> says holds whole characters.\<close>

lemma valid_length_part:
  assumes "list_all scalar ns" and "5 \<le> m" and "m \<le> length (utf8 ns)"
  defines "v \<equiv> get_valid_length (take m (utf8 ns))"
  obtains ms ks where "ns = ms @ ks" "utf8 ms = take v (utf8 ns)" "utf8 ks = drop v (utf8 ns)" "0 < v" "v \<le> m"
proof -
  let ?d = "take m (utf8 ns)"
  have len: "length ?d = m" using assms(3) by simp
  let ?P = "\<lambda>i. \<not> continues (?d ! (length ?d - i))"
  from utf8_leads [OF assms(1), of "m - 4"] assms(2,3) obtain j where j: "j < 4" "\<not> continues (utf8 ns ! (m - 4 + j))"
    by auto
  moreover have "length ?d - (4 - j) = m - 4 + j" "m - 4 + j < m" using j(1) assms(2) unfolding len by simp_all
  ultimately have "?P (4 - j)" by simp
  moreover have "4 - j \<in> set [1, 2, 3, 4]" using j(1) by auto
  ultimately have "List.find ?P [1, 2, 3, 4] \<noteq> None" unfolding find_None_iff by blast
  then obtain i where i: "List.find ?P [1, 2, 3, 4] = Some i" by blast
  then have p: "?P i" "i \<in> {1, 2, 3, 4}" unfolding find_Some_iff by (auto simp: nth_Cons' split: if_splits)
  have "v = (if length ?d < 5 then 0 else length ?d - i)"
    unfolding v_def get_valid_length_def i by (simp only: option.case)
  then have "v = m - i" using assms(2) unfolding len by simp
  moreover have "?d ! (m - i) = utf8 ns ! (m - i)" "i \<le> 4" "0 < i" using p(2) assms(2) by auto
  ultimately have v: "\<not> continues (utf8 ns ! v)" "v \<le> m" "0 < v" using p(1) assms(2) unfolding len by simp_all
  have le: "v \<le> length (utf8 ns)" using v(2) assms(3) by (rule le_trans)
  obtain ms ks where "ns = ms @ ks" "utf8 ms = take v (utf8 ns)" "utf8 ks = drop v (utf8 ns)"
    by (rule utf8_boundary [OF assms(1) le disjI2 [OF v(1)]])
  then show thesis using v(3,2) by (rule that)
qed

text \<open>The writer after a text: what is written is the encoding of its first part, and the rest is in
  the buffer, in whole characters.\<close>

definition output_state :: "xml_encoding \<Rightarrow> nat list \<Rightarrow> xml_buffered_writer \<Rightarrow> bool" where
  "output_state e ns w \<longleftrightarrow>
     bw_encoding w = e \<and> length (bw_buffer w) \<le> bufcapacity \<and> list_all scalar ns \<and>
     (\<exists>ms ks. ns = ms @ ks \<and> concat (bw_written w) = encode e ms \<and> bw_buffer w = utf8 ks)"

lemma output_stateI:
  "bw_encoding w = e \<Longrightarrow> length (utf8 ks) \<le> bufcapacity \<Longrightarrow> list_all scalar (ms @ ks) \<Longrightarrow>
   concat (bw_written w) = encode e ms \<Longrightarrow> bw_buffer w = utf8 ks \<Longrightarrow> output_state e (ms @ ks) w"
  by (auto simp: output_state_def)

lemma output_stateE:
  assumes "output_state e ns w"
  obtains ms ks where "ns = ms @ ks" "bw_encoding w = e" "length (utf8 ks) \<le> bufcapacity" "list_all scalar ms"
    "list_all scalar ks" "concat (bw_written w) = encode e ms" "bw_buffer w = utf8 ks"
  using assms by (auto simp: output_state_def)

lemma flush_data_text:
  assumes "list_all scalar ks" and "length (utf8 ks) \<le> bufcapacity" and "output_encoding (bw_encoding w)"
  shows "\<exists>w'. flush_data (utf8 ks) w = Inr w' \<and> bw_encoding w' = bw_encoding w \<and> bw_buffer w' = bw_buffer w
    \<and> concat (bw_written w') = concat (bw_written w) @ encode (bw_encoding w) ks"
proof -
  have "utf8 ks = [] \<Longrightarrow> ks = []"
  proof (cases ks)
    case (Cons n ns)
    then have "scalar n" using assms(1) by simp
    then show "utf8 ks = [] \<Longrightarrow> ks = []" using Cons utf8_of_shape [of n] by (metis append_is_Nil_conv list.distinct(1) utf8_simps(2))
  qed
  moreover have "length (encode (bw_encoding w) ks) \<le> 4 * bufcapacity"
    using encode_length [OF assms(1), of "bw_encoding w"] assms(2) by linarith
  ultimately show ?thesis
    using convert_buffer_output_text [OF assms(1,3)] by (auto simp: flush_data_def)
qed

lemma flush_text:
  assumes "output_state e ns w" and "output_encoding e"
  shows "\<exists>w'. flush w = Inr w' \<and> bw_encoding w' = e \<and> bw_buffer w' = [] \<and> concat (bw_written w') = encode e ns"
proof -
  from assms(1) obtain ms ks where w: "ns = ms @ ks" "bw_encoding w = e" "length (utf8 ks) \<le> bufcapacity"
    "list_all scalar ks" "concat (bw_written w) = encode e ms" "bw_buffer w = utf8 ks"
    by (rule output_stateE)
  have "output_encoding (bw_encoding w)" unfolding w(2) by (rule assms(2))
  from flush_data_text [OF w(4,3) this] w show ?thesis by (auto simp: flush_def)
qed

lemma append_text:
  assumes "output_state e ns w" and "list_all scalar ks" and "length (bw_buffer w) + length (utf8 ks) \<le> bufcapacity"
  shows "\<exists>w'. append_buffer (utf8 ks) w = Inr w' \<and> output_state e (ns @ ks) w'"
proof -
  from assms(1) obtain ms ls where w: "ns = ms @ ls" "bw_encoding w = e" "list_all scalar ms"
    "list_all scalar ls" "concat (bw_written w) = encode e ms" "bw_buffer w = utf8 ls"
    by (rule output_stateE)
  let ?w = "w\<lparr>bw_buffer := bw_buffer w @ utf8 ks\<rparr>"
  have "append_buffer (utf8 ks) w = Inr ?w" using assms(3) by (simp add: append_buffer_def)
  moreover have "output_state e (ms @ (ls @ ks)) ?w"
    by (rule output_stateI) (use w assms(2,3) in simp_all)
  ultimately show ?thesis using w(1) by simp
qed

lemma append_after_flush:
  assumes "bw_encoding w = e" and "bw_buffer w = []" and "concat (bw_written w) = encode e ms" and "list_all scalar ms"
    and "list_all scalar ks" and "length (utf8 ks) \<le> bufcapacity"
  shows "\<exists>w'. append_buffer (utf8 ks) w = Inr w' \<and> output_state e (ms @ ks) w'"
proof (rule append_text)
  show "output_state e ms w"
    using output_stateI [of w e "[]" ms] assms by simp
qed (use assms in simp_all)

lemma flush_chunks_text:
  assumes "list_all scalar ns" and "list_all scalar ks" and "bw_encoding w = e" and "bw_buffer w = []"
    and "concat (bw_written w) = encode e ns" and "output_encoding e"
  shows "\<exists>k1 k2 w'. flush_chunks (utf8 ks) w = Inr (utf8 k2, w') \<and> ks = k1 @ k2 \<and> length (utf8 k2) \<le> bufcapacity
    \<and> bw_encoding w' = e \<and> bw_buffer w' = [] \<and> concat (bw_written w') = encode e (ns @ k1)"
  using assms
proof (induction "length (utf8 ks)" arbitrary: ks ns w rule: less_induct)
  case less
  show ?case
  proof (cases "length (utf8 ks) \<le> bufcapacity")
    case True
    then show ?thesis using less.prems by (intro exI [of _ "[]"] exI [of _ ks] exI [of _ w]) (simp add: flush_chunks.simps)
  next
    case False
    let ?v = "get_valid_length (take bufcapacity (utf8 ks))"
    have cap: "5 \<le> bufcapacity" "bufcapacity \<le> length (utf8 ks)" using False by (simp_all add: bufcapacity_def)
    obtain ms ls where v: "ks = ms @ ls" "utf8 ms = take ?v (utf8 ks)" "utf8 ls = drop ?v (utf8 ks)" "0 < ?v" "?v \<le> bufcapacity"
      by (rule valid_length_part [OF less.prems(2) cap])
    have sc: "list_all scalar ms" "list_all scalar ls" using less.prems(2) v(1) by simp_all
    have len: "length (utf8 ms) \<le> bufcapacity" unfolding v(2) using v(5) by simp
    have "output_encoding (bw_encoding w)" using less.prems(3,6) by simp
    from flush_data_text [OF sc(1) len this] less.prems(3,4,5) obtain w1 where
      w1: "flush_data (utf8 ms) w = Inr w1" "bw_encoding w1 = e" "bw_buffer w1 = []"
        "concat (bw_written w1) = encode e (ns @ ms)" by auto
    have "flush_chunks (utf8 ks) w = flush_chunks (utf8 ls) w1"
      using False v(4) w1(1) unfolding v(2,3) by (subst flush_chunks.simps) (simp add: Let_def)
    moreover have "length (utf8 ls) < length (utf8 ks)" unfolding v(3) using v(4) False by (simp add: bufcapacity_def)
    moreover have "list_all scalar (ns @ ms)" using less.prems(1) sc(1) by simp
    ultimately obtain k1 k2 w' where "flush_chunks (utf8 ks) w = Inr (utf8 k2, w')" "ls = k1 @ k2"
      "length (utf8 k2) \<le> bufcapacity" "bw_encoding w' = e" "bw_buffer w' = []"
      "concat (bw_written w') = encode e ((ns @ ms) @ k1)"
      using less.hyps [of "ls" "ns @ ms" w1] sc(2) w1(2-4) less.prems(6) by auto
    then show ?thesis using v(1) by (intro exI [of _ "ms @ k1"] exI [of _ k2] exI [of _ w']) simp
  qed
qed

lemma write_direct_text:
  assumes "output_state e ns w" and "list_all scalar ks" and "output_encoding e"
  shows "\<exists>w'. write_direct (utf8 ks) w = Inr w' \<and> output_state e (ns @ ks) w'"
proof -
  have ns: "list_all scalar ns" using assms(1) by (simp add: output_state_def)
  from flush_text [OF assms(1,3)] obtain w1 where
    w1: "flush w = Inr w1" "bw_encoding w1 = e" "bw_buffer w1 = []" "concat (bw_written w1) = encode e ns" by blast
  consider "length (utf8 ks) \<le> bufcapacity" | "bufcapacity < length (utf8 ks)" "e = encoding_utf8"
    | "bufcapacity < length (utf8 ks)" "e \<noteq> encoding_utf8" by linarith
  then show ?thesis
  proof cases
    case 1
    then show ?thesis using append_after_flush [OF w1(2-4) ns assms(2)] w1(1) by (simp add: write_direct_def)
  next
    case 2
    then have "output_state e ((ns @ ks) @ []) (w1\<lparr>bw_written := bw_written w1 @ [utf8 ks]\<rparr>)"
      using w1 ns assms(2) by (intro output_stateI) (simp_all add: bufcapacity_def)
    with 2 w1(1,2) show ?thesis by (simp add: write_direct_def)
  next
    case 3
    from flush_chunks_text [OF ns assms(2) w1(2-4) assms(3)] obtain k1 k2 w2 where
      k: "flush_chunks (utf8 ks) w1 = Inr (utf8 k2, w2)" "ks = k1 @ k2" "length (utf8 k2) \<le> bufcapacity"
        "bw_encoding w2 = e" "bw_buffer w2 = []" "concat (bw_written w2) = encode e (ns @ k1)" by blast
    have "list_all scalar (ns @ k1)" "list_all scalar k2" using ns assms(2) k(2) by simp_all
    from append_after_flush [OF k(4-6) this k(3)] 3 w1(1,2) k(1,2) show ?thesis by (simp add: write_direct_def)
  qed
qed

lemma write_chars_text:
  assumes "output_state e ns w" and "list_all scalar ks" and "length (utf8 ks) \<le> 6" and "output_encoding e"
  shows "\<exists>w'. write_chars (utf8 ks) w = Inr w' \<and> output_state e (ns @ ks) w'"
proof (cases "bufcapacity - length (utf8 ks) < length (bw_buffer w)")
  case True
  have ns: "list_all scalar ns" using assms(1) by (simp add: output_state_def)
  from flush_text [OF assms(1,4)] obtain w1 where
    w1: "flush w = Inr w1" "bw_encoding w1 = e" "bw_buffer w1 = []" "concat (bw_written w1) = encode e ns" by blast
  have "length (utf8 ks) \<le> bufcapacity" using assms(3) by (simp add: bufcapacity_def)
  from append_after_flush [OF w1(2-4) ns assms(2) this] True w1(1) show ?thesis by (simp add: write_chars_def)
next
  case False
  then have "length (bw_buffer w) + length (utf8 ks) \<le> bufcapacity" using assms(3) by (simp add: bufcapacity_def)
  from append_text [OF assms(1,2) this] False show ?thesis by (simp add: write_chars_def)
qed

lemma write_buffer_text:
  assumes "output_state e ns w" and "list_all scalar ks" and "output_encoding e"
  shows "\<exists>w'. write_buffer (utf8 ks) w = Inr w' \<and> output_state e (ns @ ks) w'"
  using append_text [OF assms(1,2)] write_direct_text [OF assms] by (simp add: write_buffer_def)

lemma write_string_text:
  assumes "output_state e ns w" and "list_all scalar ks" and "output_encoding e"
  shows "\<exists>w'. write_string (utf8 ks) w = Inr w' \<and> output_state e (ns @ ks) w'"
proof -
  let ?d = "utf8 ks"
  let ?n = "min (length ?d) (bufcapacity - length (bw_buffer w))"
  show ?thesis
  proof (cases "length (bw_buffer w) + ?n < bufcapacity")
    case True
    then have "write_string ?d w = append_buffer ?d w" unfolding write_string_def Let_def by (rule if_P)
    moreover have "length (bw_buffer w) + length ?d \<le> bufcapacity" using True by linarith
    ultimately show ?thesis using append_text [OF assms(1,2)] by simp
  next
    case False
    let ?v = "get_valid_length (take ?n ?d)"
    obtain k1 k2 where k: "ks = k1 @ k2" "utf8 k1 = take ?v ?d" "utf8 k2 = drop ?v ?d" "?v \<le> ?n"
    proof (cases "5 \<le> ?n")
      case True
      have "?n \<le> length ?d" by simp
      from valid_length_part [OF assms(2) True this] that show thesis by blast
    next
      case False
      then have "length (take ?n ?d) < 5" by auto
      then have "?v = 0" unfolding get_valid_length_def by (rule if_P)
      with that [of "[]" ks] show thesis by simp
    qed
    let ?w = "w\<lparr>bw_buffer := bw_buffer w @ utf8 k1\<rparr>"
    have sc: "list_all scalar k1" "list_all scalar k2" using assms(2) k(1) by simp_all
    have "length (bw_buffer w) \<le> bufcapacity" using assms(1) by (simp add: output_state_def)
    moreover have "length (utf8 k1) \<le> ?n" unfolding k(2) using k(4) by simp
    ultimately have "length (bw_buffer w) + length (utf8 k1) \<le> bufcapacity" by linarith
    from append_text [OF assms(1) sc(1) this] this have "output_state e (ns @ k1) ?w"
      by (simp add: append_buffer_def)
    from write_direct_text [OF this sc(2) assms(3)] obtain w' where
      w': "write_direct (utf8 k2) ?w = Inr w'" "output_state e ((ns @ k1) @ k2) w'" by blast
    have "?n - (?n - ?v) = ?v" using k(4) by (rule diff_diff_cancel)
    then have "write_string ?d w = write_direct (utf8 k2) ?w"
      by (simp only: write_string_def Let_def if_not_P [OF False] k(2,3))
    with w' k(1) show ?thesis by simp
  qed
qed

section \<open>Any calls\<close>

definition utf8_text :: "string \<Rightarrow> bool" where
  "utf8_text s \<longleftrightarrow>
     (let ns = decode_utf8 (\<lambda>r ch. r @ [unat ch]) (\<lambda>r ch. r @ [unat ch]) s [] in list_all scalar ns \<and> utf8 ns = s)"

lemma utf8_codes:
  assumes "list_all scalar ns"
  shows "decode_utf8 (\<lambda>r ch. r @ [unat ch]) (\<lambda>r ch. r @ [unat ch]) (utf8 ns) [] = ns"
proof -
  let ?snoc = "\<lambda>r (ch :: 32 word). r @ [unat ch]"
  have "fold (put_code ?snoc ?snoc) ns r = r @ ns" for r
    using assms
    by (induction ns arbitrary: r) (auto simp: put_code_def scalar_def unsigned_of_nat take_bit_nat_eq_self)
  then show ?thesis using decode_utf8_text [OF assms, of ?snoc ?snoc "[]" "[]"] by simp
qed

lemma utf8_inj: "list_all scalar ms \<Longrightarrow> list_all scalar ns \<Longrightarrow> utf8 ms = utf8 ns \<Longrightarrow> ms = ns"
  by (metis utf8_codes)

lemma utf8_text_iff: "utf8_text s \<longleftrightarrow> (\<exists>ns. list_all scalar ns \<and> s = utf8 ns)"
  by (auto simp: utf8_text_def Let_def utf8_codes)

primrec op_ok :: "write_op \<Rightarrow> bool" where
  "op_ok (Write s) \<longleftrightarrow> utf8_text s \<and> length s \<le> 6"
| "op_ok (Write_buffer s) \<longleftrightarrow> utf8_text s"
| "op_ok (Write_string s) \<longleftrightarrow> utf8_text s"

lemma write_all_text:
  assumes "output_state e ns w" and "list_all op_ok ops" and "output_encoding e"
  shows "\<exists>w' ks. write_all ops w = Inr w' \<and> list_all scalar ks \<and> ops_text ops = utf8 ks \<and> output_state e (ns @ ks) w'"
  using assms(1,2)
proof (induction ops arbitrary: ns w)
  case Nil
  then show ?case by (intro exI [of _ w] exI [of _ "[]"]) simp
next
  case (Cons x xs)
  from Cons.prems(2) have "op_ok x" "list_all op_ok xs" by simp_all
  from \<open>op_ok x\<close> obtain ks where ks: "op_text x = utf8 ks" "list_all scalar ks" by (cases x) (auto simp: utf8_text_iff)
  have "\<exists>w1. do_write x w = Inr w1 \<and> output_state e (ns @ ks) w1"
    using \<open>op_ok x\<close> ks write_chars_text [OF Cons.prems(1) ks(2) _ assms(3)] write_buffer_text [OF Cons.prems(1) ks(2) assms(3)]
      write_string_text [OF Cons.prems(1) ks(2) assms(3)] by (cases x) auto
  then obtain w1 where w1: "do_write x w = Inr w1" "output_state e (ns @ ks) w1" by blast
  from Cons.IH [OF w1(2) \<open>list_all op_ok xs\<close>] obtain w' ms where
    "write_all xs w1 = Inr w'" "list_all scalar ms" "ops_text xs = utf8 ms" "output_state e ((ns @ ks) @ ms) w'" by blast
  with w1(1) ks show ?case by (intro exI [of _ w'] exI [of _ "ks @ ms"]) simp
qed

lemma buffered_output_text:
  assumes "list_all op_ok ops"
  shows "\<exists>ns chunks. list_all scalar ns \<and> ops_text ops = utf8 ns \<and> buffered_output encoding ops = Inr chunks
    \<and> concat chunks = encode (get_write_encoding encoding) ns"
proof -
  let ?e = "get_write_encoding encoding"
  let ?w = "\<lparr>bw_encoding = ?e, bw_buffer = [], bw_written = []\<rparr>"
  have "output_state ?e [] ?w" using output_stateI [of ?w ?e "[]" "[]"] by simp
  from write_all_text [OF this assms get_write_encoding_concrete] obtain w ns where
    w: "write_all ops ?w = Inr w" "list_all scalar ns" "ops_text ops = utf8 ns" "output_state ?e ns w" by auto
  from flush_text [OF w(4) get_write_encoding_concrete] w show ?thesis by (auto simp: buffered_output_def)
qed

text \<open>
  Claim C28.  The buffered writer, given any calls with whole characters in any order, neither runs over
  its buffer nor over its room for converted text, and what it passes on is the text of all calls in the
  encoding wanted, character by character: however the text falls into the buffer, no character is cut
  or lost.
\<close>

theorem buffered_output_encodes:
  assumes "list_all op_ok ops"
  shows "\<exists>ns chunks. list_all scalar ns \<and> ops_text ops = utf8 ns \<and> buffered_output encoding ops = Inr chunks
    \<and> concat chunks = encode (get_write_encoding encoding) ns"
  using assms by (rule buffered_output_text)

theorem buffered_output_encodes_witness:
  "\<exists>chunks. buffered_output encoding_utf16_be [Write ''<'', Write_string [CHR 0xC3, CHR 0xA9], Write ''>''] = Inr chunks
     \<and> concat chunks = [CHR 0x00, CHR ''<'', CHR 0x00, CHR 0xE9, CHR 0x00, CHR ''>'']"
proof -
  let ?ops = "[Write ''<'', Write_string [CHR 0xC3, CHR 0xA9], Write ''>'']"
  have scalars: "scalar 60" "scalar 0xE9" "scalar 62" by (simp_all add: scalar_def)
  have texts: "utf8 [60] = ''<''" "utf8 [0xE9] = [CHR 0xC3, CHR 0xA9]" "utf8 [62] = ''>''"
    by (simp_all add: utf8_of_cases code_eq_iff [symmetric])
  then have "utf8_text ''<''" "utf8_text [CHR 0xC3, CHR 0xA9]" "utf8_text ''>''"
    using scalars unfolding utf8_text_iff
    by (intro exI [of _ "[60]"], simp, intro exI [of _ "[0xE9]"], simp, intro exI [of _ "[62]"], simp)
  then have "list_all op_ok ?ops" by simp
  from buffered_output_encodes [OF this, of encoding_utf16_be] obtain ns chunks where
    c: "list_all scalar ns" "ops_text ?ops = utf8 ns" "buffered_output encoding_utf16_be ?ops = Inr chunks"
      "concat chunks = encode (get_write_encoding encoding_utf16_be) ns" by blast
  have "list_all scalar [60, 0xE9, 62]" using scalars by simp
  moreover have "utf8 ns = utf8 [60, 0xE9, 62]" using c(2) texts by simp
  ultimately have "ns = [60, 0xE9, 62]" using c(1) utf8_inj by blast
  moreover have "encode (get_write_encoding encoding_utf16_be) [60, 0xE9, 62] = [CHR 0x00, CHR ''<'', CHR 0x00, CHR 0xE9, CHR 0x00, CHR ''>'']"
    by (simp add: get_write_encoding_def encode_char_def put_code_def utf16_writer_low_def bytes16_def endian_swap16_def
        code_eq_iff [symmetric])
  ultimately show ?thesis using c(3,4) by simp
qed

end
