(* ===== verification/Pugi_Safe.thy ===== *)
theory Pugi_Safe
  imports Pugi_Parser
begin

text \<open>
  The parser of pugixml stays in its buffer and ends, whatever the buffer holds and whichever options
  are set, unless the buffer has a document type and ends, but for its last character, in the end of a
  comment: there \<open>parse_doctype_primitive\<close> steps over one character too many, which may be the zero at
  the end.

  One rule for each construct (\<open>yields\<close>, \<open>steps_on\<close>) says which positions it leads to.  The locale
  \<open>readable\<close> holds what the parser relies on of the buffer, and has the lemmas of all its functions;
  \<open>uncommented\<close> extends it for those that read document types.
\<close>

section \<open>Results\<close>

definition yields :: "('a \<Rightarrow> bool) \<Rightarrow> 'a res \<Rightarrow> bool" where
  "yields Q m \<longleftrightarrow> (\<exists>x. m = Inr x \<and> Q x)"

lemma yields_Inr [simp]: "yields Q (Inr x) \<longleftrightarrow> Q x"
  by (simp add: yields_def)

lemma yields_rbind: "yields P m \<Longrightarrow> (\<And>x. P x \<Longrightarrow> yields Q (f x)) \<Longrightarrow> yields Q (rbind m f)"
  by (auto simp: yields_def)

lemma yields_rmap [simp]: "yields Q (rmap f m) \<longleftrightarrow> yields (\<lambda>x. Q (f x)) m"
  by (cases m) (auto simp: yields_def)

lemma yields_mono: "yields P m \<Longrightarrow> (\<And>x. P x \<Longrightarrow> Q x) \<Longrightarrow> yields Q m"
  by (auto simp: yields_def)

section \<open>Converted text\<close>

definition converts :: "string \<Rightarrow> string \<times> string option \<Rightarrow> bool" where
  "converts s x \<longleftrightarrow> (\<forall>t. snd x = Some t \<longrightarrow> suffix t s \<and> NUL \<in> set t)"

context converter
begin

text \<open>Where a conversion ends, its action has ended it, at a place in the text.\<close>

lemma conv_done:
  "conv k act cs = Inr (u, Some t) \<Longrightarrow> NUL \<in> set cs \<Longrightarrow>
   \<exists>ds n. act ds = Inr (Done n) \<and> t = drop n ds \<and> suffix ds cs \<and> NUL \<in> set ds"
proof (induction k arbitrary: cs u)
  case (Suc k)
  obtain a where a: "act cs = Inr a" "action_ok a cs" using acts Suc.prems(2) by blast
  have more: "\<exists>ds n. act ds = Inr (Done n) \<and> t = drop n ds \<and> suffix ds cs \<and> NUL \<in> set ds"
    if "conv k act (drop n cs) = Inr (v, Some t)" "n \<le> length (c_string cs)" for n v
    using Suc.IH [OF that(1)] c_string_drop [OF Suc.prems(2) that(2)] suffix_drop [of n cs]
    by (meson suffix_order.trans)
  show ?case
  proof (cases a)
    case (Done n)
    with a Suc.prems show ?thesis by auto
  qed (use a Suc.prems more in \<open>auto simp: res_simps\<close>)
qed simp

lemma conv_suffix:
  assumes "conv k act cs = Inr (u, Some t)" and "NUL \<in> set cs"
  shows "suffix t cs \<and> NUL \<in> set t"
proof -
  from conv_done [OF assms] obtain ds n where
    d: "act ds = Inr (Done n)" "t = drop n ds" "suffix ds cs" "NUL \<in> set ds" by blast
  with acts [OF d(4)] have "n \<le> length (c_string ds)" by auto
  with c_string_drop [OF d(4) this] d suffix_drop [of n ds] show ?thesis by (auto intro: suffix_order.trans)
qed

lemma text_yields:
  assumes "NUL \<in> set s"
  shows "yields (converts s) (convert_text trim act s)"
proof -
  note N = assms
  from convert_text_conv [OF N, of trim] obtain u r where c: "conv (Suc (length s)) act s = Inr (u, r)"
    "case r of None \<Rightarrow> \<exists>v. convert_text trim act s = Inr (v, None)
       | Some rest \<Rightarrow> convert_text trim act s = Inr (c_string (if trim then trimmed u else u), Some rest)"
    by blast
  show ?thesis
  proof (cases r)
    case (Some t)
    with conv_suffix [OF c(1) [unfolded Some] N] have "suffix t s" "NUL \<in> set t" by auto
    with c(2) Some show ?thesis by (auto simp: converts_def)
  qed (use c(2) in \<open>auto simp: converts_def\<close>)
qed

lemma text_done:
  assumes "NUL \<in> set s" and "convert_text trim act s = Inr (v, Some t)"
  shows "\<exists>ds n. act ds = Inr (Done n) \<and> t = drop n ds \<and> suffix ds s \<and> NUL \<in> set ds"
proof -
  from convert_text_conv [OF assms(1), of trim] obtain u r where c: "conv (Suc (length s)) act s = Inr (u, r)"
    "case r of None \<Rightarrow> \<exists>v. convert_text trim act s = Inr (v, None)
       | Some rest \<Rightarrow> convert_text trim act s = Inr (c_string (if trim then trimmed u else u), Some rest)"
    by blast
  with assms(2) have "r = Some t" by (auto split: option.splits)
  from conv_done [OF c(1) [unfolded this] assms(1)] show ?thesis .
qed

lemma conv_ends: "conv k act cs = Inr (u, None) \<Longrightarrow> NUL \<in> set cs \<Longrightarrow> \<exists>cs. act cs = Inr Fail"
proof (induction k arbitrary: cs u)
  case (Suc k)
  obtain a where a: "act cs = Inr a" "action_ok a cs" using acts Suc.prems(2) by blast
  have "NUL \<in> set (drop n cs)" if "n \<le> length (c_string cs)" for n
    using c_string_drop [OF Suc.prems(2) that] by simp
  with a Suc show ?case by (cases a) (auto simp: res_simps)
qed simp

text \<open>After a gap at the start the conversion is that of what follows the gap.\<close>

lemma gap_yields:
  assumes "NUL \<in> set s" and "n \<le> length (c_string s)" and "0 < n"
    and "gap_push s 0 gap_init n = (mem, p, g)" and "length s \<le> k"
  shows "yields (converts s) (rmap (converted trim) (convert_in_place k act mem p g))"
proof -
  note N = assms(1)
  note dr = c_string_drop [OF N assms(2)]
  from memory_push [OF memory_init, of n s] assms(3,4) dr obtain G where
    G: "memory_is mem p g [] G [] (drop n s)" "length mem = length s" by auto
  have "length (c_string (drop n s)) < k"
    using dr assms(2,3,5) length_takeWhile_le [of "\<lambda>c. c \<noteq> NUL" s] by (simp add: c_string_def)
  from in_place [OF G(1) _ this] dr have same: "same_text [] (length mem) (conv k act (drop n s)) (convert_in_place k act mem p g)"
    by simp
  then obtain u r mem' r' where c: "conv k act (drop n s) = Inr (u, r)"
    "convert_in_place k act mem p g = Inr (mem', r')"
    "case r of None \<Rightarrow> r' = None | Some R \<Rightarrow> \<exists>e q. r' = Some (e, q) \<and> take e mem' = u \<and> drop q mem' = R"
    unfolding same_text_def by (elim exE conjE) (auto split: option.splits)
  show ?thesis
  proof (cases r)
    case (Some t)
    with conv_suffix [OF c(1) [unfolded Some]] dr have "suffix t (drop n s)" "NUL \<in> set t" by auto
    moreover from this have "suffix t s" using suffix_drop [of n s] by (meson suffix_order.trans)
    ultimately have "suffix t s" "NUL \<in> set t" by auto
    with c(2,3) Some show ?thesis by (auto simp: converts_def converted_def)
  qed (use c(2,3) in \<open>auto simp: converts_def converted_def\<close>)
qed

end

lemma strconv_comment_yields: "NUL \<in> set s \<Longrightarrow> yields (converts s) (strconv_comment endch s)"
  unfolding strconv_comment_def by (rule comment.text_yields)

lemma cdata_done: "cdata_action endch ds = Inr (Done n) \<Longrightarrow> \<exists>r. drop n ds = CHR '']'' # r"
proof -
  assume a: "cdata_action endch ds = Inr (Done n)"
  let ?n = "length (takeWhile (\<lambda>c. \<not> is_chartype c ct_parse_cdata) ds)"
  from a obtain c rest where c: "drop ?n ds = c # rest" "?n = 0"
    by (auto simp: cdata_action_def scan_to_def Let_def split: list.splits if_splits)
  then have ds: "ds = c # rest" by simp
  from a [unfolded cdata_action_def scan_to_def Let_def c(2)] ds
  have "n = 1 \<and> look (c # rest) [is_char (CHR '']''), is_char (CHR '']''), ends_with endch (CHR ''>'')] = Inr True"
    by (auto simp: res_simps eol_to_def simp del: look.simps split: if_splits)
  with ds show ?thesis by (cases rest) (auto split: if_splits)
qed

lemma strconv_cdata_yields:
  assumes "NUL \<in> set s"
  shows "yields (\<lambda>x. \<forall>t. snd x = Some t \<longrightarrow> suffix t s \<and> (\<exists>r. t = CHR '']'' # r)) (strconv_cdata endch s)"
proof -
  from cdata.text_yields [OF assms, of False endch, unfolded yields_def] obtain x where
    x: "convert_text False (cdata_action endch) s = Inr x" "converts s x" by blast
  have "\<exists>r. t = CHR '']'' # r" if "snd x = Some t" for t
  proof -
    from x(1) that have "convert_text False (cdata_action endch) s = Inr (fst x, Some t)" by (cases x) simp
    from cdata.text_done [OF assms this] cdata_done show ?thesis by blast
  qed
  with x show ?thesis by (auto simp: strconv_cdata_def converts_def)
qed

lemma get_strconv_attribute_yields:
  assumes "NUL \<in> set s" and "q \<noteq> NUL"
  shows "yields (converts s) (get_strconv_attribute optmsk q s)"
proof -
  let ?n = "length (takeWhile (\<lambda>c. is_chartype c ct_space) s)"
  have n: "?n \<le> length (c_string s)" using NUL_types(6) by (induction s) auto
  have "yields (converts s) (parse_wnorm esc q s)" for esc
  proof (cases "0 < ?n")
    case True
    obtain mem p g where "gap_push s 0 gap_init ?n = (mem, p, g)" by (cases "gap_push s 0 gap_init ?n")
    from converter.gap_yields [OF attribute_converters(1) [OF assms(2)] assms(1) n True this] this True
    show ?thesis by (simp add: parse_wnorm_def del: convert_in_place.simps)
  next
    case False
    from converter.text_yields [OF attribute_converters(1) [OF assms(2)] assms(1), of True esc] False
    show ?thesis unfolding parse_wnorm_def convert_text_def by simp
  qed
  with attribute_converters [OF assms(2)] assms(1) show ?thesis
    unfolding get_strconv_attribute_def parse_wconv_def parse_eol_def parse_simple_def
    by (simp add: Let_def converter.text_yields)
qed

text \<open>The conversion of text between tags does not fail: it ends at a tag or with the buffer.\<close>

lemma pcdata_never_fails: "pcdata_action eol esc cs \<noteq> Inr Fail"
  by (auto simp: pcdata_action_def scan_to_def Let_def eol_to_def escape_action_def rmap_def
      split: list.splits if_splits sum.splits option.splits)

lemma pcdata_done:
  "pcdata_action eol esc ds = Inr (Done n) \<Longrightarrow> NUL \<in> set ds \<Longrightarrow> hd (drop n ds) = NUL \<or> length (drop n ds) < length ds"
  by (cases ds) (auto simp: pcdata_action_def scan_to_def Let_def eol_to_def escape_action_def rmap_def
      split: list.splits if_splits sum.splits option.splits)

lemma get_strconv_pcdata_yields:
  assumes "NUL \<in> set s"
  shows "yields (\<lambda>x. \<exists>t. snd x = Some t \<and> suffix t s \<and> t \<noteq> [] \<and> (hd t = NUL \<or> length t < length s)) (get_strconv_pcdata optmsk s)"
proof -
  note N = assms
  have "yields (\<lambda>x. \<exists>t. snd x = Some t \<and> suffix t s \<and> t \<noteq> [] \<and> (hd t = NUL \<or> length t < length s))
      (convert_text trim (pcdata_action eol esc) s)" for trim eol esc
  proof -
    from pcdata.convert_text_conv [OF N, of eol esc trim] obtain u r where c:
      "conv (Suc (length s)) (pcdata_action eol esc) s = Inr (u, r)"
      "case r of None \<Rightarrow> \<exists>v. convert_text trim (pcdata_action eol esc) s = Inr (v, None)
         | Some rest \<Rightarrow> convert_text trim (pcdata_action eol esc) s = Inr (c_string (if trim then trimmed u else u), Some rest)"
      by blast
    have "r \<noteq> None"
    proof
      assume "r = None"
      from pcdata.conv_ends [OF c(1) [unfolded this] N] pcdata_never_fails show False by blast
    qed
    then obtain t where "r = Some t" by blast
    with c(2) obtain v where t: "convert_text trim (pcdata_action eol esc) s = Inr (v, Some t)" by simp
    with pcdata.text_yields [OF assms, of trim eol esc] have "suffix t s" "t \<noteq> []" by (auto simp: converts_def)
    moreover have "hd t = NUL \<or> length t < length s"
    proof -
      from pcdata.text_done [OF N t] obtain ds n where
        "pcdata_action eol esc ds = Inr (Done n)" "t = drop n ds" "suffix ds s" "NUL \<in> set ds" by blast
      with pcdata_done [of eol esc ds n] suffix_length_le [of ds s] show ?thesis by auto
    qed
    ultimately show ?thesis using t by simp
  qed
  then show ?thesis by (simp add: get_strconv_pcdata_def strconv_pcdata_def Let_def)
qed

section \<open>Positions\<close>

text \<open>A buffer is fit if no step goes over the zero at its end.  Steps go from a buffer to its rest, and
  write a slash.  What the parser needs is that at a document type the buffer does not end in the end
  of a comment.\<close>

definition comment_at_end :: "string \<Rightarrow> bool" where
  "comment_at_end s \<longleftrightarrow> suffix (''-->'' @ [NUL]) s"

lemma comment_at_end_suffix: "comment_at_end t \<Longrightarrow> suffix t s \<Longrightarrow> comment_at_end s"
  unfolding comment_at_end_def by (rule suffix_order.trans)

lemma comment_at_end_slash: "comment_at_end (u @ CHR ''/'' # t) \<Longrightarrow> comment_at_end (u @ c # t)"
proof -
  assume "comment_at_end (u @ CHR ''/'' # t)"
  then obtain zs where zs: "u @ CHR ''/'' # t = zs @ ''-->'' @ [NUL]" by (auto simp: comment_at_end_def suffix_def)
  then have "comment_at_end t"
    by (auto simp: NUL_def append_eq_append_conv2 append_eq_Cons_conv Cons_eq_append_conv comment_at_end_def suffix_def)
  then show ?thesis by (rule comment_at_end_suffix) (simp add: suffix_def)
qed

definition at_doctype :: "char \<Rightarrow> string \<Rightarrow> bool" where
  "at_doctype endch s \<longleftrightarrow> look s (map is_char ''DOCTYP'' @ [ends_with endch (CHR ''E'')]) = Inr True"

locale readable =
  fixes fit :: "string \<Rightarrow> bool"
  assumes fit_suffix: "fit s \<Longrightarrow> suffix t s \<Longrightarrow> fit t"
    and fit_slash: "fit (u @ c # t) \<Longrightarrow> fit (u @ CHR ''/'' # t)"
    and fit_doctype: "fit (c # s) \<Longrightarrow> at_doctype endch s \<Longrightarrow> \<not> comment_at_end (c # s)"
begin

text \<open>A position from which no step goes over the zero at the end.\<close>

definition buffered :: "string \<Rightarrow> bool" where
  "buffered s \<longleftrightarrow> s \<noteq> [] \<and> last s = NUL \<and> fit s"

lemma buffered_suffix: "buffered s \<Longrightarrow> suffix t s \<Longrightarrow> t \<noteq> [] \<Longrightarrow> buffered t"
  unfolding buffered_def by (metis fit_suffix last_appendR suffix_def)

lemma buffered_NUL: "buffered s \<Longrightarrow> NUL \<in> set s"
  unfolding buffered_def by (metis last_in_set)

lemma buffered_not_Nil [simp]: "\<not> buffered []"
  by (simp add: buffered_def)

lemma buffered_tl: "buffered (c # r) \<Longrightarrow> c \<noteq> NUL \<Longrightarrow> buffered r"
  by (rule buffered_suffix [of "c # r"]) (auto simp: buffered_def suffix_Cons)

lemma buffered_slash: "buffered (u @ c # t) \<Longrightarrow> c \<noteq> NUL \<Longrightarrow> buffered (u @ CHR ''/'' # t)"
  using fit_slash [of u c t] by (auto simp: buffered_def split: if_splits)

lemma at_char_yields: "buffered s \<Longrightarrow> (\<And>c r. s = c # r \<Longrightarrow> yields Q (f c r)) \<Longrightarrow> yields Q (at_char s f)"
  by (cases s) (auto simp: at_char_def)

lemma look_yields:
  assumes "buffered s" and "\<forall>p \<in> set (butlast ps). \<not> p NUL"
  shows "yields (\<lambda>b. look s ps = Inr b) (look s ps)"
  using look_ok [OF buffered_NUL [OF assms(1)] assms(2)] by (auto simp: yields_def)

text \<open>What has been read is what stands in front of the position.\<close>

definition after :: "string \<Rightarrow> string \<Rightarrow> bool" where
  "after s t \<longleftrightarrow> buffered t \<and> length t \<le> length s"

definition parsed_after :: "string \<Rightarrow> string parsed \<Rightarrow> bool" where
  "parsed_after s x \<longleftrightarrow> (\<forall>t. x = Parsed t \<longrightarrow> after s t)"

lemma parsed_after_simps [simp]:
  "parsed_after s (Parsed t) \<longleftrightarrow> after s t" "parsed_after s (Parse_error st t)"
  by (simp_all add: parsed_after_def)

lemma scan_while_yields:
  assumes "buffered s" and "\<not> is_chartype NUL ct"
  shows "yields (\<lambda>t. buffered t \<and> suffix t s \<and> \<not> is_chartype (hd t) ct) (scan_while ct s)"
proof -
  let ?r = "dropWhile (\<lambda>c. is_chartype c ct) s"
  have "?r \<noteq> []" using buffered_NUL [OF assms(1)] assms(2) by auto
  moreover have "suffix ?r s" by (rule suffix_dropWhile)
  ultimately show ?thesis
    using buffered_suffix [OF assms(1)] hd_dropWhile [of "\<lambda>c. is_chartype c ct" s]
    by (auto simp: scan_while_def Let_def)
qed

lemma scan_for_yields:
  assumes "buffered s" and "\<forall>p \<in> set (butlast ps). \<not> p NUL"
  shows "yields (\<lambda>t. buffered t \<and> suffix t s \<and> (hd t \<noteq> NUL \<longrightarrow> look t ps = Inr True)) (scan_for ps s)"
  using assms(1)
proof (induction s)
  case (Cons c cs)
  show ?case
  proof (cases "c = NUL")
    case False
    from look_yields [OF Cons.prems assms(2)] obtain b where b: "look (c # cs) ps = Inr b"
      by (auto simp: yields_def)
    show ?thesis
    proof (cases b)
      case True
      with b Cons.prems False show ?thesis by simp
    next
      case f: False
      with b False Cons.IH [OF buffered_tl [OF Cons.prems False]] show ?thesis
        by (auto intro: yields_mono simp: suffix_Cons)
    qed
  qed (use Cons.prems in simp)
qed simp

text \<open>A sequence of characters that is there, with the zero not among them.\<close>

lemma look_drop:
  "look s ps = Inr True \<Longrightarrow> \<forall>p \<in> set ps. \<not> p NUL \<Longrightarrow> buffered s \<Longrightarrow>
   buffered (drop (length ps) s) \<and> length ps < length s"
proof (induction s ps rule: look.induct)
  case (3 c cs p ps)
  then show ?case using buffered_tl [of c cs] by (auto split: if_splits)
qed (auto simp: buffered_def)

lemma look_skip:
  assumes "look (c # r) ps = Inr True" and "\<forall>p \<in> set ps. \<not> p NUL" and "buffered (c # r)"
    and "n = length ps" and "ps \<noteq> []"
  shows "buffered (drop n (c # r)) \<and> suffix (drop n (c # r)) r"
proof -
  from assms(4,5) have "n = Suc (n - 1)" by simp
  then obtain k where "n = Suc k" ..
  moreover have "buffered (drop n (c # r))" using look_drop [OF assms(1-3)] assms(4) by simp
  ultimately show ?thesis by (simp add: suffix_drop)
qed

lemma suffix_after: "buffered t \<Longrightarrow> suffix t s \<Longrightarrow> after s t"
  by (simp add: after_def suffix_length_le)

lemma parsed_after_mono: "yields (parsed_after s) m \<Longrightarrow> length s \<le> length u \<Longrightarrow> yields (parsed_after u) m"
  by (erule yields_mono) (auto simp: parsed_after_def after_def)

lemma then_parsed:
  assumes "yields (parsed_after s) m" and "length s \<le> length u"
    and "\<And>t. after s t \<Longrightarrow> yields (parsed_after u) (f t)"
  shows "yields (parsed_after u)
    (rbind m (\<lambda>x. case x of Parsed t \<Rightarrow> f t | Parse_error st t \<Rightarrow> Inr (Parse_error st t)))"
  by (rule yields_rbind [OF assms(1)]) (use assms(2,3) in \<open>auto split: parsed.split\<close>)

text \<open>The rest after a text that has been converted.\<close>

lemma converts_after: "buffered s \<Longrightarrow> converts s (v, Some t) \<Longrightarrow> after s t"
  using buffered_suffix [of s t] suffix_after [of t s] by (cases t) (auto simp: converts_def)

text \<open>A step of the parser that goes on, goes on after the position.\<close>

definition steps_on :: "string \<Rightarrow> string parse_step \<Rightarrow> bool" where
  "steps_on s m \<longleftrightarrow> yields (\<lambda>x. parsed_after s (fst x)) m"

lemma steps_on_ends [simp]:
  "steps_on s (parsed t cur) \<longleftrightarrow> after s t" "steps_on s (throw_error st t cur)"
  by (simp_all add: steps_on_def parsed_def throw_error_def)

lemma steps_on_mono: "steps_on s m \<Longrightarrow> length s \<le> length u \<Longrightarrow> steps_on u m"
  unfolding steps_on_def by (erule yields_mono) (auto simp: parsed_after_def after_def)

lemma steps_pbind:
  assumes "steps_on s m" and "\<And>t cur. after s t \<Longrightarrow> steps_on u (f t cur)"
  shows "steps_on u (pbind m f)"
  using assms(1) unfolding steps_on_def pbind_def
  by (rule yields_rbind)
    (use assms(2) in \<open>auto simp: parsed_after_def throw_error_def steps_on_def split: parsed.split\<close>)

lemma pbind_after:
  assumes "yields (\<lambda>x. \<forall>t. fst x = Parsed t \<longrightarrow> P t) m" and "\<And>t cur. P t \<Longrightarrow> steps_on u (f t cur)"
  shows "steps_on u (pbind m f)"
  using assms(1) unfolding steps_on_def pbind_def
  by (rule yields_rbind) (use assms(2) in \<open>auto simp: throw_error_def steps_on_def split: parsed.split\<close>)

lemma steps_at_char: "buffered s \<Longrightarrow> (\<And>c r. s = c # r \<Longrightarrow> steps_on u (f c r)) \<Longrightarrow> steps_on u (at_char s f)"
  unfolding steps_on_def by (rule at_char_yields)

lemma steps_scan_while:
  assumes "buffered s" and "\<not> is_chartype NUL ct"
    and "\<And>t. buffered t \<Longrightarrow> suffix t s \<Longrightarrow> \<not> is_chartype (hd t) ct \<Longrightarrow> steps_on u (f t)"
  shows "steps_on u (rbind (scan_while ct s) f)"
  unfolding steps_on_def
  by (rule yields_rbind [OF scan_while_yields [OF assms(1,2)]]) (use assms(3) in \<open>auto simp: steps_on_def\<close>)

lemma steps_scan_for:
  assumes "buffered s" and "\<forall>p \<in> set (butlast ps). \<not> p NUL"
    and "\<And>t. buffered t \<Longrightarrow> suffix t s \<Longrightarrow> hd t \<noteq> NUL \<longrightarrow> look t ps = Inr True \<Longrightarrow> steps_on u (f t)"
  shows "steps_on u (rbind (scan_for ps s) f)"
  unfolding steps_on_def
  by (rule yields_rbind [OF scan_for_yields [OF assms(1,2)]]) (use assms(3) in \<open>auto simp: steps_on_def\<close>)

lemma steps_look:
  assumes "buffered s" and "\<forall>p \<in> set (butlast ps). \<not> p NUL"
    and "\<And>b. look s ps = Inr b \<Longrightarrow> steps_on u (f b)"
  shows "steps_on u (rbind (look s ps) f)"
  unfolding steps_on_def
  by (rule yields_rbind [OF look_yields [OF assms(1,2)]]) (use assms(3) in \<open>auto simp: steps_on_def\<close>)

lemma steps_if: "(b \<Longrightarrow> steps_on u x) \<Longrightarrow> (\<not> b \<Longrightarrow> steps_on u y) \<Longrightarrow> steps_on u (if b then x else y)"
  by simp

lemma steps_rbind: "yields P m \<Longrightarrow> (\<And>x. P x \<Longrightarrow> steps_on u (f x)) \<Longrightarrow> steps_on u (rbind m f)"
  unfolding steps_on_def by (rule yields_rbind)

lemma suffix_tl: "suffix t s \<Longrightarrow> t = c # r \<Longrightarrow> length r < length s"
  using suffix_length_le [of t s] by simp

lemma after_tl: "buffered (c # r) \<Longrightarrow> c \<noteq> NUL \<Longrightarrow> length (c # r) \<le> length s \<Longrightarrow> after s r"
  using buffered_tl [of c r] by (simp add: after_def)

lemma comment_end_front: "\<forall>p \<in> set (butlast (comment_end endch)). \<not> p NUL"
  and cdata_end_front: "\<forall>p \<in> set (butlast (cdata_end endch)). \<not> p NUL"
  by (simp_all add: comment_end_def cdata_end_def NUL_def)

text \<open>At the end of a comment or a section there are two characters, and then one that may be the
  zero.\<close>

lemma end_mark:
  assumes "look t [is_char a, is_char b, ends_with endch (CHR ''>'')] = Inr True" and "buffered t"
    and "a \<noteq> NUL" and "b \<noteq> NUL"
  shows "\<exists>c r. t = a # b # c # r \<and> buffered (c # r) \<and> (c = CHR ''>'' \<longrightarrow> buffered r)"
proof -
  from assms(1,2) obtain r where r: "t = a # b # r" by (cases t; cases "tl t") (auto split: if_splits)
  with buffered_tl assms(2-4) have b: "buffered r" by blast
  then obtain c q where "r = c # q" by (cases r) auto
  with r b buffered_tl [of c q] show ?thesis by (auto simp: NUL_def)
qed

lemma parse_comment_steps: "buffered s \<Longrightarrow> steps_on s (parse_comment optmsk endch s cur)"
proof -
  assume s: "buffered s"
  have "steps_on s (rbind (scan_for (comment_end endch) s) (\<lambda>t. at_char t (\<lambda>c r.
      if c = NUL then throw_error status_bad_comment t e
      else parsed (drop (if t ! 2 = CHR ''>'' then 3 else 2) t) (g t))))" for e g
  proof (rule steps_scan_for [OF s comment_end_front], rule steps_at_char, assumption)
    fix t c r assume t: "buffered t" "suffix t s" "hd t \<noteq> NUL \<longrightarrow> look t (comment_end endch) = Inr True" "t = c # r"
    show "steps_on s (if c = NUL then throw_error status_bad_comment t e
        else parsed (drop (if t ! 2 = CHR ''>'' then 3 else 2) t) (g t))"
    proof (cases "c = NUL")
      case False
      with t(3,4) have "look t (comment_end endch) = Inr True" by (simp del: look.simps)
      from end_mark [OF this [unfolded comment_end_def] t(1)] obtain d q where
        d: "t = CHR ''-'' # CHR ''-'' # d # q" "buffered (d # q)" "d = CHR ''>'' \<longrightarrow> buffered q"
        by (auto simp: NUL_def)
      with False suffix_length_le [OF t(2)] show ?thesis by (simp add: after_def d)
    qed simp
  qed
  moreover have "steps_on s (rbind (strconv_comment endch s) (\<lambda>(v, r).
      let cur' = append_node node_comment v cur in
      case r of Some t \<Rightarrow> parsed t cur' | None \<Rightarrow> throw_error status_bad_comment s cur'))"
    by (rule steps_rbind [OF strconv_comment_yields [OF buffered_NUL [OF s]]])
      (auto simp: Let_def split: option.split dest: converts_after [OF s])
  ultimately show ?thesis unfolding parse_comment_def Let_def by (intro steps_if)
qed

lemma parse_cdata_section_steps: "buffered s \<Longrightarrow> steps_on s (parse_cdata_section optmsk endch s cur)"
proof -
  assume s: "buffered s"
  show ?thesis
    unfolding parse_cdata_section_def
  proof (rule pbind_after)
    let ?Q = "\<lambda>x. \<forall>t. fst x = Parsed t \<longrightarrow> after s t \<and> hd t \<noteq> NUL"
    have "yields ?Q (rbind (scan_for (cdata_end endch) s) (\<lambda>t. at_char t (\<lambda>c t'.
        if c = NUL then throw_error status_bad_cdata t e else parsed t' (g t))))" for e g
    proof (rule yields_rbind [OF scan_for_yields [OF s cdata_end_front]], rule at_char_yields, blast)
      fix t c r
      assume t: "buffered t \<and> suffix t s \<and> (hd t \<noteq> NUL \<longrightarrow> look t (cdata_end endch) = Inr True)" "t = c # r"
      show "yields ?Q (if c = NUL then throw_error status_bad_cdata t e else parsed r (g t))"
      proof (cases "c = NUL")
        case False
        with t have "look t (cdata_end endch) = Inr True" "buffered t" by (simp_all del: look.simps)
        from end_mark [OF this [unfolded cdata_end_def]] obtain d q where
          d: "t = CHR '']'' # CHR '']'' # d # q" "buffered (d # q)" by (auto simp: NUL_def)
        with False t suffix_length_le [of t s] buffered_tl [of c r] show ?thesis
          by (auto simp: parsed_def after_def NUL_def)
      qed (simp add: throw_error_def)
    qed
    moreover have "yields ?Q (rbind (strconv_cdata endch s) (\<lambda>(v, r).
        let cur' = append_node node_cdata v cur in
        case r of Some t \<Rightarrow> parsed t cur' | None \<Rightarrow> throw_error status_bad_cdata s cur'))"
      by (rule yields_rbind [OF strconv_cdata_yields [OF buffered_NUL [OF s]]])
        (auto simp: Let_def parsed_def throw_error_def NUL_def split: option.split
          intro!: suffix_after buffered_suffix [OF s])
    ultimately show "yields ?Q (if optset optmsk opt_parse_cdata \<and> optset optmsk opt_parse_eol then
          rbind (strconv_cdata endch s) (\<lambda>(v, r).
            let cur' = append_node node_cdata v cur in
            case r of Some t \<Rightarrow> parsed t cur' | None \<Rightarrow> throw_error status_bad_cdata s cur')
        else
          rbind (scan_for (cdata_end endch) s) (\<lambda>t. at_char t (\<lambda>c t'.
            let node = (\<lambda>v. if optset optmsk opt_parse_cdata then append_node node_cdata v cur else cur) in
            if c = NUL then throw_error status_bad_cdata t (node (c_string s))
            else parsed t' (node (passed s t)))))"
      unfolding Let_def by (cases "optset optmsk opt_parse_cdata \<and> optset optmsk opt_parse_eol") simp_all
  next
    fix t cur' assume "after s t \<and> hd t \<noteq> NUL"
    then obtain c d r where t: "t = c # d # r" "after s t" "buffered (d # r)"
      using buffered_tl [of "hd t" "tl t"] by (cases t; cases "tl t") (auto simp: after_def)
    then have "d = CHR ''>'' \<Longrightarrow> buffered r" using buffered_tl [of d r] by (simp add: NUL_def)
    with t show "steps_on s (rbind (look t [\<lambda>_. True, is_char (CHR ''>'')]) (\<lambda>b. parsed (drop (if b then 2 else 1) t) cur'))"
      by (auto simp: after_def)
  qed
qed

lemma match_chars_yields:
  "buffered s \<Longrightarrow> NUL \<notin> set ks \<Longrightarrow> yields (\<lambda>x. fst x \<longrightarrow> after s (snd x)) (match_chars ks s)"
proof (induction ks s rule: match_chars.induct)
  case (3 k ks c s)
  then have "c = k \<Longrightarrow> buffered s" using buffered_tl [of c s] by auto
  with 3 show ?case by (auto simp: after_def intro: yields_mono)
qed (auto simp: after_def)

lemma pi_end: "\<forall>p \<in> set (butlast [is_char (CHR ''?''), ends_with endch (CHR ''>'')]). \<not> p NUL"
  by (simp add: NUL_def)

lemma after_trans: "buffered t \<Longrightarrow> suffix t s \<Longrightarrow> length s \<le> length u \<Longrightarrow> after u t"
  using suffix_length_le [of t s] by (simp add: after_def)

lemma buffered_end: "buffered (d # r) \<Longrightarrow> d = CHR ''>'' \<Longrightarrow> buffered r"
  using buffered_tl [of d r] by (simp add: NUL_def)

lemma parse_pi_body_steps:
  assumes "buffered s"
  shows "steps_on s (parse_pi_body declaration endch ch s cur)"
  unfolding parse_pi_body_def
proof (intro steps_if)
  show "steps_on s (at_char s (\<lambda>c r. if \<not> ends_with endch (CHR ''>'') c then throw_error status_bad_pi s cur
      else parsed (if c = CHR ''>'' then r else s) (pop_node cur)))"
    by (rule steps_at_char [OF assms]) (use assms in \<open>auto simp: after_def dest: buffered_end\<close>)
next
  show "steps_on s (rbind (scan_while ct_space s) (\<lambda>s1.
      rbind (scan_for [is_char (CHR ''?''), ends_with endch (CHR ''>'')] s1) (\<lambda>t. at_char t (\<lambda>c t'.
        if c = NUL then throw_error status_bad_pi t cur
        else if declaration then parsed (passed s1 t @ CHR ''/'' # t') cur
        else at_char t' (\<lambda>d t2. parsed (if d = CHR ''>'' then t2 else t') (pop_node (set_value (passed s1 t) cur)))))))"
  proof (rule steps_scan_while [OF assms NUL_types(6)], rule steps_scan_for [OF _ pi_end], assumption,
      rule steps_at_char, assumption, rule steps_if, simp, rule steps_if)
    fix s1 t c r
    assume h: "buffered s1" "suffix s1 s" "buffered t" "suffix t s1" "t = c # r" "c \<noteq> NUL"
    then have r: "buffered r" using buffered_tl by blast
    from h(4) obtain u where u: "s1 = u @ t" by (auto simp: suffix_def)
    then have p: "passed s1 t = u" by (simp add: passed_def)
    show "steps_on s (parsed (passed s1 t @ CHR ''/'' # r) cur)"
      using buffered_slash [of u c r] h(1,2,5,6) suffix_length_le [of s1 s] u p by (simp add: after_def)
    show "steps_on s (at_char r (\<lambda>d t2. parsed (if d = CHR ''>'' then t2 else r) (pop_node (set_value (passed s1 t) cur))))"
      by (rule steps_at_char [OF r])
        (use h r suffix_length_le [of s1 s] suffix_length_le [of t s1] in \<open>auto simp: after_def dest: buffered_end\<close>)
  qed
qed simp

lemma parse_question_steps:
  assumes "buffered (c # s)" and "c \<noteq> NUL"
  shows "steps_on s (parse_question optmsk endch (c # s) cur)"
proof -
  have s: "buffered s" using buffered_tl [OF assms] .
  have body: "steps_on s (parse_pi_body dec endch ch t' cur')" if "buffered t'" "length t' \<le> length s" for dec ch t' cur'
    using that by (rule steps_on_mono [OF parse_pi_body_steps])
  have skip: "steps_on s (rbind (scan_for [is_char (CHR ''?''), ends_with endch (CHR ''>'')] t) (\<lambda>u. at_char u (\<lambda>d r.
      if d = NUL then throw_error status_bad_pi u cur else parsed (drop (if u ! 1 = CHR ''>'' then 2 else 1) u) cur)))"
    if t: "buffered t" "suffix t s" for t
  proof (rule steps_scan_for [OF t(1) pi_end], rule steps_at_char, assumption, rule steps_if, simp)
    fix u d r assume h: "buffered u" "suffix u t" "u = d # r" "d \<noteq> NUL"
    then have r: "buffered r" using buffered_tl by blast
    then obtain e q where "r = e # q" by (cases r) auto
    with h r t suffix_length_le [of u t] suffix_length_le [of t s]
    show "steps_on s (parsed (drop (if u ! 1 = CHR ''>'' then 2 else 1) u) cur)"
      by (auto simp: after_def dest: buffered_end)
  qed
  show ?thesis
    unfolding parse_question_def list.sel Let_def
  proof (rule steps_at_char [OF s], intro steps_if steps_scan_while [OF s NUL_types(8)])
    fix t assume t: "buffered t" "suffix t s"
    show "steps_on s (at_char t (\<lambda>ch t'.
        if ch = NUL then throw_error status_bad_pi t cur
        else if (if is_declaration (passed s t) then optset optmsk opt_parse_declaration else optset optmsk opt_parse_pi)
        then (if is_declaration (passed s t) \<and> has_parent cur then throw_error status_bad_pi t cur
              else parse_pi_body (is_declaration (passed s t)) endch ch t'
                     (set_name (passed s t) (push_node (if is_declaration (passed s t) then node_declaration else node_pi) cur)))
        else rbind (scan_for [is_char (CHR ''?''), ends_with endch (CHR ''>'')] t) (\<lambda>u. at_char u (\<lambda>d _.
               if d = NUL then throw_error status_bad_pi u cur
               else parsed (drop (if u ! 1 = CHR ''>'' then 2 else 1) u) cur))))"
    proof (rule steps_at_char [OF t(1)], rule steps_if [OF steps_on_ends(2)])
      fix ch t' assume h: "t = ch # t'" "ch \<noteq> NUL"
      with t have "buffered t'" "length t' \<le> length s" using buffered_tl [of ch t'] suffix_length_le [of t s] by auto
      then show "steps_on s (if if is_declaration (passed s t) then optset optmsk opt_parse_declaration else optset optmsk opt_parse_pi
        then (if is_declaration (passed s t) \<and> has_parent cur then throw_error status_bad_pi t cur
              else parse_pi_body (is_declaration (passed s t)) endch ch t'
                     (set_name (passed s t) (push_node (if is_declaration (passed s t) then node_declaration else node_pi) cur)))
        else rbind (scan_for [is_char (CHR ''?''), ends_with endch (CHR ''>'')] t) (\<lambda>u. at_char u (\<lambda>d _.
               if d = NUL then throw_error status_bad_pi u cur
               else parsed (drop (if u ! 1 = CHR ''>'' then 2 else 1) u) cur)))"
        using body skip [OF t] by simp
    qed
  qed simp
qed

lemma parse_attribute_value_steps:
  assumes "buffered s"
  shows "steps_on s (parse_attribute_value optmsk s cur)"
  unfolding parse_attribute_value_def
proof (rule steps_at_char [OF assms], rule steps_if)
  fix q r assume q: "s = q # r" "q = CHR 0x22 \<or> q = CHR 0x27"
  then have N: "q \<noteq> NUL" by (auto simp: NUL_def)
  with q(1) assms have r: "buffered r" using buffered_tl by blast
  show "steps_on s (rbind (get_strconv_attribute optmsk q r) (\<lambda>(v, t).
      let cur' = set_attribute_value v cur in
      case t of None \<Rightarrow> throw_error status_bad_attribute r cur'
      | Some u \<Rightarrow> at_char u (\<lambda>c _.
          if is_chartype c ct_start_symbol then throw_error status_bad_attribute u cur' else parsed u cur')))"
    by (rule steps_rbind [OF get_strconv_attribute_yields [OF buffered_NUL [OF r] N]])
      (use q(1) in \<open>auto simp: Let_def after_def dest!: converts_after [OF r] intro!: steps_at_char split: option.split\<close>)
qed simp

lemma parse_attribute_steps:
  assumes "buffered (c # s)"
  shows "steps_on s (parse_attribute optmsk (c # s) cur)"
  unfolding parse_attribute_def Let_def
proof (rule steps_scan_while [OF assms NUL_types(8)], rule steps_at_char, assumption)
  fix t ch t' assume h: "buffered t" "suffix t (c # s)" "t = ch # t'"
  let ?cur = "append_new_attribute (passed (c # s) t) cur"
  have len: "length t' \<le> length s" using suffix_length_le [OF h(2)] h(3) by simp
  have "yields (\<lambda>x. length (snd x) \<le> length s \<and> (fst x \<noteq> NUL \<longrightarrow> buffered (snd x)))
      (if is_chartype ch ct_space then rbind (scan_while ct_space t') (\<lambda>u. at_char u (\<lambda>c u'. Inr (c, u'))) else Inr (ch, t'))"
  proof (cases "is_chartype ch ct_space")
    case True
    then have t': "buffered t'" using h buffered_tl space_not_NUL by blast
    have "yields (\<lambda>x. length (snd x) \<le> length s \<and> (fst x \<noteq> NUL \<longrightarrow> buffered (snd x)))
        (rbind (scan_while ct_space t') (\<lambda>u. at_char u (\<lambda>c u'. Inr (c, u'))))"
      by (rule yields_rbind [OF scan_while_yields [OF t' NUL_types(6)]], rule at_char_yields)
        (use len in \<open>auto dest: suffix_length_le intro: buffered_tl\<close>)
    with True show ?thesis by simp
  next
    case False
    then show ?thesis using h len buffered_tl [of ch t'] by auto
  qed
  then show "steps_on s (rbind
      (if is_chartype ch ct_space then rbind (scan_while ct_space t') (\<lambda>u. at_char u (\<lambda>c u'. Inr (c, u'))) else Inr (ch, t'))
      (\<lambda>(ch, s1).
         if ch = CHR ''='' then rbind (scan_while ct_space s1) (\<lambda>s2. parse_attribute_value optmsk s2 ?cur)
         else throw_error status_bad_attribute s1 ?cur))"
  proof (rule steps_rbind)
    fix x :: "char \<times> string" assume x: "length (snd x) \<le> length s \<and> (fst x \<noteq> NUL \<longrightarrow> buffered (snd x))"
    have "steps_on s (rbind (scan_while ct_space (snd x)) (\<lambda>s2. parse_attribute_value optmsk s2 ?cur))"
      if "buffered (snd x)"
      by (rule steps_scan_while [OF that NUL_types(6)])
        (use x in \<open>auto intro!: steps_on_mono [OF parse_attribute_value_steps] dest: suffix_length_le\<close>)
    with x show "steps_on s (case x of (ch, s1) \<Rightarrow>
        if ch = CHR ''='' then rbind (scan_while ct_space s1) (\<lambda>s2. parse_attribute_value optmsk s2 ?cur)
        else throw_error status_bad_attribute s1 ?cur)"
      by (auto simp: NUL_def split: prod.split)
  qed
qed

lemma parse_attributes_steps:
  "buffered s \<Longrightarrow> length s \<le> k \<Longrightarrow> steps_on s (parse_attributes k optmsk endch s cur)"
proof (induction k arbitrary: s cur)
  case (Suc k)
  show ?case
    unfolding parse_attributes.simps
  proof (rule steps_scan_while [OF Suc.prems(1) NUL_types(6)], rule steps_at_char, assumption, intro steps_if)
    fix s1 c r assume h: "buffered s1" "suffix s1 s" "s1 = c # r"
    have len: "Suc (length r) \<le> length s" using suffix_length_le [OF h(2)] h(3) by simp
    have attr: "steps_on r (parse_attribute optmsk s1 cur)" using parse_attribute_steps h(1,3) by blast
    show "steps_on s (pbind (parse_attribute optmsk s1 cur) (parse_attributes k optmsk endch))"
    proof (rule steps_pbind [OF attr])
      fix t cur' assume "after r t"
      then have "buffered t" "length t \<le> length r" by (auto simp: after_def)
      with len Suc.prems(2) show "steps_on s (parse_attributes k optmsk endch t cur')"
        using steps_on_mono [OF Suc.IH [of t cur'], of s] by simp
    qed
    show "steps_on s (at_char r (\<lambda>d r'.
           if d = CHR ''>'' then parsed r' (pop_node cur)
           else if d = NUL \<and> endch = CHR ''>'' then parsed r (pop_node cur)
           else throw_error status_bad_start_element r cur))" if "c = CHR ''/''"
    proof (rule steps_at_char)
      show r: "buffered r" using buffered_tl [of c r] h that by (simp add: NUL_def)
      fix d r' assume "r = d # r'"
      with r len show "steps_on s (if d = CHR ''>'' then parsed r' (pop_node cur)
           else if d = NUL \<and> endch = CHR ''>'' then parsed r (pop_node cur)
           else throw_error status_bad_start_element r cur)"
        by (auto simp: after_def dest: buffered_end)
    qed
    show "steps_on s (parsed r cur)" if "c = CHR ''>''"
      using h len buffered_end that by (auto simp: after_def)
    show "steps_on s (parsed s1 cur)" using h(1,2) by (simp add: suffix_after)
  qed simp
qed simp

lemma parse_start_element_steps:
  assumes "buffered s"
  shows "steps_on s (parse_start_element optmsk endch s cur)"
  unfolding parse_start_element_def Let_def
proof (rule steps_scan_while [OF assms NUL_types(8)], rule steps_at_char, assumption)
  fix t ch t' assume h: "buffered t" "suffix t s" "t = ch # t'"
  let ?cur = "set_name (passed s t) (push_node node_element cur)"
  have len: "length t' \<le> length s" using suffix_length_le [OF h(2)] h(3) by simp
  have t': "ch \<noteq> NUL \<Longrightarrow> buffered t'" using h buffered_tl by blast
  have t: "after s t" using h by (simp add: suffix_after)
  have attrs: "steps_on s (parse_attributes (Suc (length t')) optmsk endch t' ?cur)" if "is_chartype ch ct_space"
    using steps_on_mono [OF parse_attributes_steps [OF t'] len] space_not_NUL [OF that]
    by (simp del: parse_attributes.simps)
  have slash: "steps_on s (at_char t' (\<lambda>c r. if \<not> ends_with endch (CHR ''>'') c then throw_error status_bad_start_element t' ?cur
      else parsed (if c = CHR ''>'' then r else t') (pop_node ?cur)))" if "ch = CHR ''/''"
  proof (rule steps_at_char)
    show "buffered t'" using t' that by (simp add: NUL_def)
    then show "steps_on s (if \<not> ends_with endch (CHR ''>'') c then throw_error status_bad_start_element t' ?cur
      else parsed (if c = CHR ''>'' then r else t') (pop_node ?cur))" if "t' = c # r" for c r
      using that len by (auto simp: after_def dest: buffered_end)
  qed
  have gt: "after s t'" if "ch = CHR ''>''" using t' len that by (simp add: after_def NUL_def)
  show "steps_on s (if ch = CHR ''>'' then parsed t' ?cur
       else if is_chartype ch ct_space then parse_attributes (Suc (length t')) optmsk endch t' ?cur
       else if ch = CHR ''/'' then
         at_char t' (\<lambda>c r. if \<not> ends_with endch (CHR ''>'') c then throw_error status_bad_start_element t' ?cur
           else parsed (if c = CHR ''>'' then r else t') (pop_node ?cur))
       else if ch = NUL then
         (if endch \<noteq> CHR ''>'' then throw_error status_bad_start_element t ?cur else parsed t ?cur)
       else throw_error status_bad_start_element t' ?cur)"
    using attrs slash gt t by (intro steps_if) simp_all
qed

lemma close_name_yields:
  "buffered s \<Longrightarrow> yields (\<lambda>x. \<forall>y. fst x = Parsed y \<longrightarrow> after s (fst y)) (close_name s name cur)"
proof (induction s name cur rule: close_name.induct)
  case (2 c s name cur)
  show ?case
  proof (cases "is_chartype c ct_symbol")
    case True
    then have "c \<noteq> NUL" using NUL_types(8) by auto
    with 2(2) have s: "buffered s" by (rule buffered_tl)
    show ?thesis
    proof (cases "\<exists>ks. name = c # ks")
      case True
      then obtain ks where ks: "name = c # ks" ..
      from 2(1) [OF _ ks refl s] \<open>is_chartype c ct_symbol\<close>
      have "yields (\<lambda>x. \<forall>y. fst x = Parsed y \<longrightarrow> after s (fst y)) (close_name s ks cur)" by simp
      then have "yields (\<lambda>x. \<forall>y. fst x = Parsed y \<longrightarrow> after (c # s) (fst y)) (close_name s ks cur)"
        by (rule yields_mono) (auto simp: after_def)
      with ks \<open>is_chartype c ct_symbol\<close> show ?thesis by simp
    next
      case False
      with \<open>is_chartype c ct_symbol\<close> show ?thesis by (cases name) (auto simp: throw_error_def)
    qed
  qed (use 2 in \<open>simp add: parsed_def after_def\<close>)
qed simp

lemma parse_end_element_steps:
  assumes "buffered s"
  shows "steps_on s (parse_end_element endch s cur)"
proof (cases "nd_name (hd cur)")
  case (Some n)
  have "steps_on s (rbind (scan_while ct_space t) (\<lambda>u. at_char u (\<lambda>d u'.
      if d = NUL then (if endch \<noteq> CHR ''>'' then throw_error status_bad_end_element u cur' else parsed u cur')
      else if d \<noteq> CHR ''>'' then throw_error status_bad_end_element u cur' else parsed u' cur')))"
    if t: "after s t" for t cur'
  proof (rule steps_scan_while [OF _ NUL_types(6)], use t in \<open>simp add: after_def\<close>, rule steps_at_char, assumption)
    fix u d u' assume "buffered u" "suffix u t" "u = d # u'"
    with t show "steps_on s (if d = NUL then (if endch \<noteq> CHR ''>'' then throw_error status_bad_end_element u cur' else parsed u cur')
      else if d \<noteq> CHR ''>'' then throw_error status_bad_end_element u cur' else parsed u' cur')"
      using suffix_length_le [of u t] by (auto simp: after_def dest: buffered_end)
  qed
  then have "steps_on s (pbind (close_name s n cur) (\<lambda>(t, left) _. at_char t (\<lambda>c _.
      if left \<noteq> [] then
        throw_error (if c = NUL \<and> left = [endch] then status_bad_end_element else status_end_element_mismatch) t cur
      else rbind (scan_while ct_space t) (\<lambda>u. at_char u (\<lambda>d u'.
        if d = NUL then (if endch \<noteq> CHR ''>'' then throw_error status_bad_end_element u (pop_node cur) else parsed u (pop_node cur))
        else if d \<noteq> CHR ''>'' then throw_error status_bad_end_element u (pop_node cur)
        else parsed u' (pop_node cur))))))"
    by (intro pbind_after [OF close_name_yields [OF assms]])
      (auto simp: after_def intro!: steps_at_char split: prod.split)
  then show ?thesis by (simp add: parse_end_element_def Some)
qed (simp add: parse_end_element_def)

end

section \<open>Document types\<close>

text \<open>Where no comment ends the buffer, the four characters over which a comment in a document type is
  left are all there.\<close>

locale uncommented = readable +
  assumes fit_end: "fit s \<Longrightarrow> \<not> comment_at_end s"
begin

lemma buffered_comment_end:
  assumes "buffered s" and "look s [is_char (CHR ''-''), is_char (CHR ''-''), is_char (CHR ''>'')] = Inr True"
  shows "buffered (drop 4 s) \<and> 4 < length s"
proof -
  from look_drop [OF assms(2) _ assms(1)] have d: "buffered (drop 3 s)" "3 < length s"
    by (auto simp: NUL_def numeral_3_eq_3)
  from d(2) obtain a b c x r where "s = a # b # c # x # r"
    by (auto simp: less_eq_Suc_le eval_nat_numeral Suc_le_length_iff)
  with assms(2) have s: "s = ''-->'' @ x # r" by (auto split: if_splits)
  show ?thesis
  proof (cases "r = []")
    case True
    with s assms(1) have "s = ''-->'' @ [NUL]" by (auto simp: buffered_def)
    with assms(1) fit_end [of s] show ?thesis by (simp add: buffered_def comment_at_end_def)
  next
    case False
    with s have "buffered r" by (intro buffered_suffix [OF assms(1)]) (auto simp: suffix_def)
    then show ?thesis using s False by auto
  qed
qed

lemma parse_doctype_primitive_yields:
  assumes "buffered (c # r)"
  shows "yields (parsed_after r) (parse_doctype_primitive (c # r))"
proof -
  let ?s = "c # r"
  have scan: "yields (parsed_after r) (rbind (scan_for ps u) (\<lambda>t. at_char t (\<lambda>d t'.
      Inr (if d = NUL then Parse_error status_bad_doctype t else Parsed (g t t')))))"
    if "buffered u" "suffix u r" "\<forall>p \<in> set ps. \<not> p NUL"
      "\<And>t d t'. buffered t \<Longrightarrow> t = d # t' \<Longrightarrow> d \<noteq> NUL \<Longrightarrow> look t ps = Inr True \<Longrightarrow> buffered (g t t') \<and> suffix (g t t') t"
    for ps u g
  proof (rule yields_rbind [OF scan_for_yields])
    show "\<forall>p \<in> set (butlast ps). \<not> p NUL" using that(3) by (auto dest: in_set_butlastD)
    fix t assume t: "buffered t \<and> suffix t u \<and> (hd t \<noteq> NUL \<longrightarrow> look t ps = Inr True)"
    then show "yields (parsed_after r) (at_char t (\<lambda>d t'.
        Inr (if d = NUL then Parse_error status_bad_doctype t else Parsed (g t t'))))"
      using that(2,4) by (auto intro!: at_char_yields suffix_after) (meson suffix_order.trans)+
  qed fact
  have pi: "buffered (drop 2 t) \<and> suffix (drop 2 t) t"
    if "buffered t" "look t [is_char (CHR ''?''), is_char (CHR ''>'')] = Inr True" for t
    using look_drop [OF that(2) _ that(1)] by (auto simp: NUL_def numeral_2_eq_2 suffix_drop)
  have comment: "buffered (drop 4 t) \<and> suffix (drop 4 t) t"
    if "buffered t" "look t [is_char (CHR ''-''), is_char (CHR ''-''), is_char (CHR ''>'')] = Inr True" for t
    using buffered_comment_end [OF that] by (auto simp: suffix_drop)
  let ?pi = "[is_char (CHR ''<''), is_char (CHR ''?'')]"
  let ?co = "[is_char (CHR ''<''), is_char (CHR ''!''), is_char (CHR ''-''), is_char (CHR ''-'')]"
  have l: "yields (\<lambda>b. look ?s ?pi = Inr b) (look ?s ?pi)" "yields (\<lambda>b. look ?s ?co = Inr b) (look ?s ?co)"
    by (rule look_yields [OF assms]; simp add: NUL_def)+
  have drops: "buffered (drop 2 ?s)" "suffix (drop 2 ?s) r" if "look ?s ?pi = Inr True"
    using look_skip [OF that _ assms, of 2] by (auto simp: NUL_def)
  have drops': "buffered (drop 4 ?s)" "suffix (drop 4 ?s) r" if "look ?s ?co = Inr True"
    using look_skip [OF that _ assms, of 4] by (auto simp: NUL_def)
  from l obtain pi co where b: "look ?s ?pi = Inr pi" "look ?s ?co = Inr co" by (auto simp: yields_def simp del: look.simps)
  consider "c = CHR 0x22 \<or> c = CHR 0x27" | "\<not> (c = CHR 0x22 \<or> c = CHR 0x27)" by blast
  then show ?thesis
  proof cases
    case 1
    then have "buffered r" using buffered_tl [OF assms] by (auto simp: NUL_def)
    with 1 have "yields (parsed_after r) (rbind (scan_for [is_char c] r) (\<lambda>t. at_char t (\<lambda>d t'.
        Inr (if d = NUL then Parse_error status_bad_doctype t else Parsed t'))))"
      by (intro scan) (auto simp: NUL_def suffix_Cons intro: buffered_tl [unfolded NUL_def])
    with 1 show ?thesis by (simp add: parse_doctype_primitive_def at_char_def)
  next
    case 2
    have "yields (parsed_after r) (rbind (scan_for [is_char (CHR ''?''), is_char (CHR ''>'')] (drop 2 ?s))
        (\<lambda>t. at_char t (\<lambda>d t'. Inr (if d = NUL then Parse_error status_bad_doctype t else Parsed (drop 2 t)))))"
      if pi
    proof -
      from b(1) that have "look ?s ?pi = Inr True" by (simp del: look.simps)
      from drops [OF this] show ?thesis by (rule scan) (simp add: NUL_def, rule pi)
    qed
    moreover have "yields (parsed_after r)
        (rbind (scan_for [is_char (CHR ''-''), is_char (CHR ''-''), is_char (CHR ''>'')] (drop 4 ?s))
        (\<lambda>t. at_char t (\<lambda>d t'. Inr (if d = NUL then Parse_error status_bad_doctype t else Parsed (drop 4 t)))))"
      if co
    proof -
      from b(2) that have "look ?s ?co = Inr True" by (simp del: look.simps)
      from drops' [OF this] show ?thesis by (rule scan) (simp add: NUL_def, rule comment)
    qed
    ultimately show ?thesis
      using 2 b by (simp add: parse_doctype_primitive_def at_char_def del: look.simps)
  qed
qed

lemma parse_doctype_ignore_yields:
  "buffered s \<Longrightarrow> length s \<le> k \<Longrightarrow> yields (parsed_after s) (parse_doctype_ignore k s)"
proof (induction k arbitrary: s)
  case (Suc k)
  then obtain c r where s: "s = c # r" by (cases s) auto
  let ?ne = "[is_char (CHR ''<''), is_char (CHR ''!''), is_char (CHR ''['')]"
  let ?en = "[is_char (CHR '']''), is_char (CHR '']''), is_char (CHR ''>'')]"
  have "yields (\<lambda>b. look s ?ne = Inr b) (look s ?ne)" "yields (\<lambda>b. look s ?en = Inr b) (look s ?en)"
    by (rule look_yields [OF Suc.prems(1)]; simp add: NUL_def)+
  then obtain ne en where b: "look s ?ne = Inr ne" "look s ?en = Inr en"
    by (auto simp: yields_def simp del: look.simps)
  show ?case
  proof (cases "c = NUL")
    case False
    then have r: "buffered r" using Suc.prems(1) buffered_tl s by auto
    have IH: "yields (parsed_after t) (parse_doctype_ignore k t)" if "buffered t" "length t \<le> length r" for t
      using Suc.IH [OF that(1)] that(2) Suc.prems(2) s by simp
    have "yields (parsed_after s) (rbind (parse_doctype_ignore k r) (\<lambda>x. case x of
        Parsed t \<Rightarrow> parse_doctype_ignore k t | Parse_error st t \<Rightarrow> Inr (Parse_error st t)))"
      using r s by (intro then_parsed [OF IH]) (auto simp: after_def intro: parsed_after_mono [OF IH])
    moreover have "en \<Longrightarrow> after s (drop 3 s)"
      using look_skip [of c r ?en 3] b(2) Suc.prems(1) s by (auto simp: NUL_def after_def simp del: look.simps)
    moreover have "yields (parsed_after s) (parse_doctype_ignore k r)"
      using parsed_after_mono [OF IH [OF r]] s by simp
    ultimately show ?thesis using b s by (simp add: at_char_def False del: look.simps)
  qed (simp add: s at_char_def)
qed simp

lemma parse_doctype_group_yields:
  "buffered s \<Longrightarrow> length s \<le> k \<Longrightarrow>
   yields (\<lambda>x. parsed_after s x \<and> (\<forall>t. x = Parsed t \<longrightarrow> \<not> toplevel \<longrightarrow> hd t = CHR ''>''))
     (parse_doctype_group k endch toplevel s)"
  (is "_ \<Longrightarrow> _ \<Longrightarrow> yields (?P toplevel s) _")
proof (induction k arbitrary: s toplevel)
  case (Suc k)
  then obtain c r where s: "s = c # r" by (cases s) auto
  let ?gr = "[is_char (CHR ''<''), is_char (CHR ''!''), \<lambda>c. c \<noteq> CHR ''-'']"
  have "yields (\<lambda>b. look s ?gr = Inr b) (look s ?gr)"
    by (rule look_yields [OF Suc.prems(1)]; simp add: NUL_def)
  then obtain gr where gr: "look s ?gr = Inr gr" by (auto simp: yields_def simp del: look.simps)
  show ?case
  proof (cases "c = NUL")
    case False
    then have r: "buffered r" using Suc.prems(1) buffered_tl s by auto
    have IH: "yields (?P top t) (parse_doctype_group k endch top t)" if "buffered t" "length t \<le> length r" for t top
      using Suc.IH [OF that(1)] that(2) Suc.prems(2) s by simp
    have mono: "yields (?P top s) m" if "yields (?P top t) m" "length t \<le> length r" for top t m
      using that(1) by (rule yields_mono) (use that(2) in \<open>auto simp: parsed_after_def after_def s\<close>)
    have more: "yields (?P toplevel s) (rbind m (\<lambda>x. case x of
        Parsed t \<Rightarrow> parse_doctype_group k endch toplevel t | Parse_error st t \<Rightarrow> Inr (Parse_error st t)))"
      if "yields (parsed_after r) m" for m
      by (rule yields_rbind [OF that]) (auto simp: after_def intro: mono [OF IH] split: parsed.split)
    have "yields (parsed_after r) (parse_doctype_ignore (length s) r)"
      by (rule parse_doctype_ignore_yields [OF r]) (simp add: s)
    note ignore = more [OF this]
    note primitive = more [OF parse_doctype_primitive_yields [OF Suc.prems(1) [unfolded s]]]
    have nested: "yields (?P toplevel s) (rbind (parse_doctype_group k endch False r) (\<lambda>x. case x of
        Parsed t \<Rightarrow> at_char t (\<lambda>d t'.
          if d = CHR ''>'' then parse_doctype_group k endch toplevel t' else Inl (Undefined ''assert''))
      | Parse_error st t \<Rightarrow> Inr (Parse_error st t)))"
    proof (rule yields_rbind [OF IH [OF r order_refl]])
      fix x assume x: "?P False r x"
      show "yields (?P toplevel s) (case x of Parsed t \<Rightarrow> at_char t (\<lambda>d t'.
            if d = CHR ''>'' then parse_doctype_group k endch toplevel t' else Inl (Undefined ''assert''))
          | Parse_error st t \<Rightarrow> Inr (Parse_error st t))"
      proof (cases x)
        case (Parsed t)
        with x have "buffered t" "hd t = CHR ''>''" "length t \<le> length r" by (auto simp: after_def)
        then obtain t' where t': "t = CHR ''>'' # t'" "buffered t'" "length t' \<le> length r"
          using buffered_tl by (cases t) (auto simp: NUL_def)
        with mono [OF IH [OF t'(2,3)] t'(3)] show ?thesis by (simp add: Parsed at_char_def)
      qed simp
    qed
    have "yields (?P toplevel s) (parse_doctype_group k endch toplevel r)"
      using mono [OF IH [OF r order_refl]] by simp
    moreover have "at_char s f = f c r" for f :: "char \<Rightarrow> string \<Rightarrow> string parsed res" by (simp add: s at_char_def)
    moreover have "hd s = c" by (simp add: s)
    ultimately show ?thesis
      using ignore nested primitive [folded s] gr Suc.prems(1) False
      by (simp add: after_def del: look.simps parse_doctype_ignore.simps)
  qed (use Suc.prems(1) in \<open>auto simp: s at_char_def after_def\<close>)
qed simp

lemma parse_doctype_steps: "buffered s \<Longrightarrow> steps_on s (parse_doctype optmsk endch s cur)"
proof -
  assume s: "buffered s"
  show ?thesis
    unfolding parse_doctype_def
    by (intro steps_if, simp,
      rule steps_rbind [OF parse_doctype_group_yields [OF s, of "Suc (length s)" True endch]])
      (auto simp: after_def Let_def intro!: steps_at_char intro: buffered_tl split: parsed.split)
qed

end

section \<open>The whole buffer\<close>

context readable
begin

text \<open>With no comment at the end the buffer is \<open>uncommented\<close>.\<close>

lemma parse_doctype_readable:
  assumes "buffered s" and "\<not> comment_at_end s"
  shows "steps_on s (parse_doctype optmsk endch s cur)"
proof -
  let ?fit = "\<lambda>s. fit s \<and> \<not> comment_at_end s"
  have u: "uncommented ?fit"
  proof
    show "?fit t" if "?fit s" "suffix t s" for s t
      using that fit_suffix comment_at_end_suffix by blast
    show "?fit (u @ CHR ''/'' # t)" if "?fit (u @ c # t)" for u c t
      using that fit_slash comment_at_end_slash by blast
  qed (use fit_doctype in blast)+
  note r = uncommented.axioms(1) [OF u]
  have "readable.steps_on ?fit s (parse_doctype optmsk endch s cur)"
    using assms by (intro uncommented.parse_doctype_steps [OF u]) (auto simp: readable.buffered_def [OF r] buffered_def)
  then show ?thesis
    unfolding readable.steps_on_def [OF r] steps_on_def
    by (rule yields_mono)
      (auto simp: readable.parsed_after_def [OF r] readable.after_def [OF r] readable.buffered_def [OF r]
        parsed_after_def after_def buffered_def)
qed

lemma parse_exclamation_steps:
  assumes "buffered (c # s)" and "c \<noteq> NUL"
  shows "steps_on (c # s) (parse_exclamation optmsk endch (c # s) cur)"
proof -
  let ?s = "c # s"
  have s: "buffered s" using buffered_tl [OF assms] .
  have ex: "\<forall>p \<in> set (butlast (map is_char ''DOCTYP'' @ [ends_with endch (CHR ''E'')])). \<not> p NUL"
    by (simp add: NUL_def)
  have "steps_on ?s (at_char r (\<lambda>d s3. if d = CHR ''-'' then parse_comment optmsk endch s3 cur
      else throw_error status_bad_comment r cur))" if "buffered r" "length r \<le> length ?s" for r
    using that(1)
  proof (rule steps_at_char, intro steps_if)
    fix d q assume "r = d # q" "d = CHR ''-''"
    with that buffered_tl [of d q] show "steps_on ?s (parse_comment optmsk endch q cur)"
      by (auto intro: steps_on_mono [OF parse_comment_steps] simp: NUL_def)
  qed simp
  moreover have "steps_on ?s (rbind (match_chars ''CDATA['' r) (\<lambda>(ok, s3).
      if ok then parse_cdata_section optmsk endch s3 cur else throw_error status_bad_cdata s3 cur))"
    if "buffered r" "length r \<le> length ?s" for r
  proof (rule steps_rbind [OF match_chars_yields [OF that(1)]])
    fix x :: "bool \<times> string" assume "fst x \<longrightarrow> after r (snd x)"
    with that(2) show "steps_on ?s (case x of (ok, s3) \<Rightarrow>
        if ok then parse_cdata_section optmsk endch s3 cur else throw_error status_bad_cdata s3 cur)"
      using steps_on_mono [OF parse_cdata_section_steps, of "snd x" ?s] by (auto simp: after_def split: prod.split)
  qed (simp add: NUL_def)
  ultimately have comment: "steps_on ?s (at_char r (\<lambda>d s3. if d = CHR ''-'' then parse_comment optmsk endch s3 cur
      else throw_error status_bad_comment r cur))"
    and cdata: "steps_on ?s (rbind (match_chars ''CDATA['' r) (\<lambda>(ok, s3).
      if ok then parse_cdata_section optmsk endch s3 cur else throw_error status_bad_cdata s3 cur))"
    if "s = d # r" "d \<noteq> NUL" for d r
    using that s buffered_tl [of d r] by simp_all
  have doctype: "steps_on ?s (parse_doctype optmsk endch ?s cur)" if "at_doctype endch s"
    using assms(1) that fit_doctype [of c s endch] by (intro parse_doctype_readable) (auto simp: buffered_def)
  show ?thesis
    unfolding parse_exclamation_def list.sel
  proof (rule steps_at_char [OF s])
    fix d r assume r: "s = d # r"
    show "steps_on ?s (if d = CHR ''-'' then at_char r (\<lambda>d s3. if d = CHR ''-'' then parse_comment optmsk endch s3 cur
          else throw_error status_bad_comment r cur)
        else if d = CHR ''['' then rbind (match_chars ''CDATA['' r) (\<lambda>(ok, s3).
          if ok then parse_cdata_section optmsk endch s3 cur else throw_error status_bad_cdata s3 cur)
        else rbind (look (d # r) (map is_char ''DOCTYP'' @ [ends_with endch (CHR ''E'')])) (\<lambda>dt.
          if dt then parse_doctype optmsk endch ?s cur
          else if d = NUL \<and> endch = CHR ''-'' then throw_error status_bad_comment (d # r) cur
          else if d = NUL \<and> endch = CHR ''['' then throw_error status_bad_cdata (d # r) cur
          else throw_error status_unrecognized_tag (d # r) cur))"
      using doctype by (intro steps_if comment [OF r] cdata [OF r] steps_look [OF s [unfolded r] ex])
        (simp_all add: NUL_def at_doctype_def r del: look.simps)
  qed
qed

lemma parse_tag_steps:
  assumes "buffered s"
  shows "steps_on s (parse_tag optmsk endch s cur)"
  unfolding parse_tag_def
proof (rule steps_at_char [OF assms], intro steps_if)
  fix c r assume s: "s = c # r"
  have r: "c \<noteq> NUL \<Longrightarrow> buffered r" using assms s buffered_tl by blast
  show "steps_on s (parse_start_element optmsk endch s cur)" using assms by (rule parse_start_element_steps)
  show "steps_on s (parse_end_element endch r cur)" if "c = CHR ''/''"
    using steps_on_mono [OF parse_end_element_steps [OF r]] that s by (simp add: NUL_def)
  show "steps_on s (parse_exclamation optmsk endch s cur)" if "c = CHR ''!''"
    using parse_exclamation_steps [of c r] assms that s by (simp add: NUL_def)
  show "steps_on s (pbind (parse_question optmsk endch s cur) (\<lambda>t cur'.
      if nd_type (hd cur') = node_declaration then parse_attributes (Suc (length t)) optmsk endch t cur' else parsed t cur'))"
    if "c = CHR ''?''"
  proof (rule steps_pbind)
    show "steps_on r (parse_question optmsk endch s cur)"
      using parse_question_steps [of c r] assms that s by (simp add: NUL_def)
    fix t cur' assume "after r t"
    with s show "steps_on s (if nd_type (hd cur') = node_declaration
        then parse_attributes (Suc (length t)) optmsk endch t cur' else parsed t cur')"
      using steps_on_mono [OF parse_attributes_steps [of t "Suc (length t)"], of s] by (auto simp: after_def)
  qed
qed simp_all

text \<open>Where a text ends, something has been passed; after the end of the buffer nothing is read.\<close>

definition text_ends_after :: "string \<Rightarrow> text_end \<Rightarrow> bool" where
  "text_ends_after s x \<longleftrightarrow>
     (case x of Continue_at t \<Rightarrow> after (tl s) t | At_tag t \<Rightarrow> after (tl s) t | At_end t \<Rightarrow> True)"

lemma parse_text_yields:
  assumes "buffered (c # s)" and "c \<noteq> NUL" and "c \<noteq> CHR ''<''"
  shows "yields (\<lambda>x. \<forall>y. fst x = Parsed y \<longrightarrow> text_ends_after (c # s) y) (parse_text optmsk (c # s) cur)"
proof -
  let ?s = "c # s"
  let ?Q = "\<lambda>x. \<forall>y. fst x = Parsed y \<longrightarrow> text_ends_after ?s y"
  have conv: "yields ?Q (rbind (get_strconv_pcdata optmsk s1) (\<lambda>(v, t).
      case t of None \<Rightarrow> Inl (Undefined ''strconv_pcdata'')
      | Some u \<Rightarrow> at_char u (\<lambda>d _. parsed (if d = NUL then At_end u else At_tag u) (append_node node_pcdata v cur))))"
    if s1: "buffered s1" "length s1 \<le> length ?s" for s1
  proof (rule yields_rbind [OF get_strconv_pcdata_yields [OF buffered_NUL [OF s1(1)]]])
    fix x :: "string \<times> string option"
    assume "\<exists>t. snd x = Some t \<and> suffix t s1 \<and> t \<noteq> [] \<and> (hd t = NUL \<or> length t < length s1)"
    then obtain t where t: "snd x = Some t" "suffix t s1" "t \<noteq> []" "hd t = NUL \<or> length t < length s1" by blast
    with s1 have "buffered t" by (blast intro: buffered_suffix)
    with t s1(2) show "yields ?Q (case x of (v, t) \<Rightarrow> case t of None \<Rightarrow> Inl (Undefined ''strconv_pcdata'')
      | Some u \<Rightarrow> at_char u (\<lambda>d _. parsed (if d = NUL then At_end u else At_tag u) (append_node node_pcdata v cur)))"
      by (cases x) (auto simp: text_ends_after_def after_def parsed_def intro!: at_char_yields)
  qed
  have skip: "yields ?Q (rbind (scan_for [is_char (CHR ''<'')] s1) (\<lambda>u. at_char u (\<lambda>d u'.
      parsed (if d = NUL then At_end u else At_tag u') cur)))"
    if s1: "buffered s1" "suffix s1 ?s" for s1
  proof (rule yields_rbind [OF scan_for_yields [OF s1(1)]], simp, rule at_char_yields, blast)
    fix u d u' assume "buffered u \<and> suffix u s1 \<and> (hd u \<noteq> NUL \<longrightarrow> look u [is_char (CHR ''<'')] = Inr True)" "u = d # u'"
    with s1(2) show "yields ?Q (parsed (if d = NUL then At_end u else At_tag u') cur)"
      using buffered_tl [of d u'] suffix_length_le [of u s1] suffix_length_le [of s1 ?s]
      by (auto simp: text_ends_after_def after_def parsed_def)
  qed
  show ?thesis
    unfolding parse_text_def Let_def
  proof (rule yields_rbind [OF scan_while_yields [OF assms(1) NUL_types(6)]], rule at_char_yields, blast)
    fix s1 d r assume h: "buffered s1 \<and> suffix s1 ?s \<and> \<not> is_chartype (hd s1) ct_space" "s1 = d # r"
    let ?mark = "\<not> optset optmsk opt_parse_trim_pcdata"
    have ok: "buffered (if ?mark then ?s else s1)" "suffix (if ?mark then ?s else s1) ?s" using h assms(1) by auto
    have "yields (\<lambda>skip. skip \<longrightarrow> d = CHR ''<'' \<or> d = NUL)
        (if d = CHR ''<'' \<or> d = NUL then
          (if \<not> optset optmsk (opt_parse_ws_pcdata OR opt_parse_ws_pcdata_single)
              \<or> optset optmsk opt_parse_trim_pcdata then Inr True
           else if optset optmsk opt_parse_ws_pcdata_single then
             rbind (look s1 [is_char (CHR ''<''), is_char (CHR ''/'')]) (\<lambda>b. Inr (\<not> b \<or> nd_children (hd cur) \<noteq> []))
           else Inr False)
        else Inr False)" (is "yields _ ?skip")
      using look_yields [of s1 "[is_char (CHR ''<''), is_char (CHR ''/'')]"] h
      by (auto simp: NUL_def yields_def simp del: look.simps)
    then show "yields ?Q (rbind ?skip (\<lambda>skip.
        if skip then parsed (Continue_at s1) cur
        else if has_parent cur \<or> optset optmsk opt_parse_fragment then
           rbind (get_strconv_pcdata optmsk (if ?mark then ?s else s1)) (\<lambda>(v, t).
             case t of
               None \<Rightarrow> Inl (Undefined ''strconv_pcdata'')
             | Some u \<Rightarrow> at_char u (\<lambda>d _.
                 parsed (if d = NUL then At_end u else At_tag u) (append_node node_pcdata v cur)))
         else
           rbind (scan_for [is_char (CHR ''<'')] (if ?mark then ?s else s1)) (\<lambda>u. at_char u (\<lambda>d u'.
             parsed (if d = NUL then At_end u else At_tag u') cur))))"
    proof (rule yields_rbind)
      fix b assume b: "b \<longrightarrow> d = CHR ''<'' \<or> d = NUL"
      have "b \<Longrightarrow> after s s1" using b h assms(2,3) by (auto simp: suffix_Cons intro: suffix_after)
      then have "b \<Longrightarrow> yields ?Q (parsed (Continue_at s1) cur)" by (simp add: parsed_def text_ends_after_def)
      with conv [OF ok(1) suffix_length_le [OF ok(2)]] skip [OF ok]
      show "yields ?Q (if b then parsed (Continue_at s1) cur
        else if has_parent cur \<or> optset optmsk opt_parse_fragment then
           rbind (get_strconv_pcdata optmsk (if ?mark then ?s else s1)) (\<lambda>(v, t).
             case t of
               None \<Rightarrow> Inl (Undefined ''strconv_pcdata'')
             | Some u \<Rightarrow> at_char u (\<lambda>d _.
                 parsed (if d = NUL then At_end u else At_tag u) (append_node node_pcdata v cur)))
         else
           rbind (scan_for [is_char (CHR ''<'')] (if ?mark then ?s else s1)) (\<lambda>u. at_char u (\<lambda>d u'.
             parsed (if d = NUL then At_end u else At_tag u') cur)))"
        by (cases b; cases "has_parent cur \<or> optset optmsk opt_parse_fragment") (simp_all only: if_True if_False)
    qed
  qed
qed

lemma parse_tree_yields:
  "buffered s \<Longrightarrow> length s \<le> k \<Longrightarrow> yields (\<lambda>_. True) (parse_tree k optmsk endch s cur)"
proof (induction k arbitrary: s cur)
  case (Suc k)
  then obtain c r where s: "s = c # r" by (cases s) auto
  have more: "yields (\<lambda>_. True) (parse_tree k optmsk endch t cur')" if "after r t" for t cur'
    using Suc.IH that Suc.prems(2) s by (auto simp: after_def)
  have bind: "yields (\<lambda>_. True) (pbind m f)"
    if "yields (\<lambda>x. \<forall>t. fst x = Parsed t \<longrightarrow> P t) m" "\<And>t cur. P t \<Longrightarrow> yields (\<lambda>_. True) (f t cur)"
    for m :: "'x parse_step" and f :: "'x \<Rightarrow> cursor \<Rightarrow> string parse_step" and P
    unfolding pbind_def using that(1)
    by (rule yields_rbind) (use that(2) in \<open>auto simp: throw_error_def split: parsed.split\<close>)
  have tag: "yields (\<lambda>_. True) (pbind (parse_tag optmsk endch t cur') (parse_tree k optmsk endch))" if "after r t" for t cur'
  proof (rule bind)
    show "yields (\<lambda>x. \<forall>u. fst x = Parsed u \<longrightarrow> after t u) (parse_tag optmsk endch t cur')"
      using parse_tag_steps that unfolding steps_on_def by (auto simp: parsed_after_def after_def)
    show "yields (\<lambda>_. True) (parse_tree k optmsk endch u cur'')" if "after t u" for u cur''
      using that \<open>after r t\<close> by (intro more) (auto simp: after_def)
  qed
  have end_of: "yields (\<lambda>_. True) (parse_tree_end t cur')" for t cur'
    by (simp add: parse_tree_end_def throw_error_def parsed_def)
  show ?case
  proof (cases "c = NUL")
    case False
    then have r: "buffered r" using Suc.prems(1) s buffered_tl by blast
    show ?thesis
    proof (cases "c = CHR ''<''")
      case True
      with False s r tag [of r] show ?thesis by (simp add: at_char_def after_def)
    next
      case lt: False
      have "yields (\<lambda>_. True) (pbind (parse_text optmsk s cur) (\<lambda>next' cur'.
          case next' of
            Continue_at t \<Rightarrow> parse_tree k optmsk endch t cur'
          | At_tag t \<Rightarrow> pbind (parse_tag optmsk endch t cur') (parse_tree k optmsk endch)
          | At_end t \<Rightarrow> parse_tree_end t cur'))"
        unfolding s
        by (rule bind [OF parse_text_yields [OF Suc.prems(1) [unfolded s] False lt]])
          (auto simp: text_ends_after_def end_of intro: more tag split: text_end.splits)
      with False lt s show ?thesis by (simp add: at_char_def)
    qed
  qed (simp add: s at_char_def end_of)
qed simp

lemma xml_parse_readable:
  assumes "fit (butlast buffer @ [NUL])"
  shows "\<exists>r. xml_parse buffer optmsk = Inr r"
proof (cases "buffer = []")
  case False
  let ?mem = "butlast buffer @ [NUL]"
  let ?bom = "[is_char (CHR 0xEF), is_char (CHR 0xBB), is_char (CHR 0xBF)]"
  have m: "buffered ?mem" using assms by (simp add: buffered_def)
  from look_yields [OF m, of ?bom] look_drop [of ?mem ?bom] m
  have "yields (\<lambda>s. buffered s) (parse_skip_bom ?mem)"
    unfolding parse_skip_bom_def by (auto simp: NUL_def yields_def numeral_3_eq_3 simp del: look.simps)
  then obtain s where s: "parse_skip_bom ?mem = Inr s" "buffered s" by (auto simp: yields_def)
  from parse_tree_yields [OF s(2), of "Suc (length s)" optmsk "last buffer" "[document []]"] obtain x where
    "parse_tree (Suc (length s)) optmsk (last buffer) s [document []] = Inr x"
    by (auto simp: yields_def simp del: parse_tree.simps)
  with s False show ?thesis
    by (cases x; cases "fst x") (simp_all add: xml_parse_def Let_def del: parse_tree.simps)
qed (simp add: xml_parse_def)

end

interpretation commentless: uncommented "\<lambda>s. \<not> comment_at_end s"
  by unfold_locales (use comment_at_end_suffix comment_at_end_slash in blast)+

text \<open>The first characters of a document type are read only where they stand.\<close>

lemma doctype_stands: "at_doctype endch s \<Longrightarrow> sublist ''DOCTYP'' s"
proof -
  have "look s (map is_char ks @ ps) = Inr True \<Longrightarrow> prefix ks s" for ks ps s
    by (induction ks arbitrary: s; case_tac s) (auto split: if_splits)
  then show "at_doctype endch s \<Longrightarrow> sublist ''DOCTYP'' s"
    unfolding at_doctype_def by (meson prefix_imp_sublist)
qed

lemma sublist_slash: "sublist ''DOCTYP'' (u @ CHR ''/'' # t) \<Longrightarrow> sublist ''DOCTYP'' (u @ c # t)"
proof -
  assume "sublist ''DOCTYP'' (u @ CHR ''/'' # t)"
  then obtain p q where pq: "u @ CHR ''/'' # t = p @ ''DOCTYP'' @ q" by (auto simp: sublist_def)
  then have "sublist ''DOCTYP'' u \<or> sublist ''DOCTYP'' t"
    by (auto simp: append_eq_append_conv2 append_eq_Cons_conv Cons_eq_append_conv sublist_def)
  moreover have "sublist u (u @ c # t)" "sublist t (u @ c # t)"
    using sublist_appendI [of t "u @ [c]" "[]"] by simp_all
  ultimately show ?thesis using sublist_order.order.trans by blast
qed

interpretation typeless: readable "\<lambda>s. \<not> sublist ''DOCTYP'' s"
proof
  show "\<not> comment_at_end (c # s)" if "\<not> sublist ''DOCTYP'' (c # s)" "at_doctype endch s" for c s endch
    using that doctype_stands by (auto simp: sublist_Cons_right)
qed (use sublist_slash suffix_imp_sublist sublist_order.order.trans in blast)+

text \<open>Nothing is read past the buffer, and parsing ends with a result, whatever the buffer and the
  options, unless the buffer has a document type, and all of it but its last character end in the
  end of a comment.\<close>

lemma xml_parse_total:
  assumes "\<not> suffix ''-->'' (butlast buffer) \<or> \<not> sublist ''DOCTYP'' (butlast buffer)"
  shows "\<exists>r. xml_parse buffer optmsk = Inr r"
  using assms
proof
  assume "\<not> suffix ''-->'' (butlast buffer)"
  then show ?thesis by (intro commentless.xml_parse_readable) (auto simp: comment_at_end_def suffix_def)
next
  assume "\<not> sublist ''DOCTYP'' (butlast buffer)"
  then have "\<not> sublist ''DOCTYP'' (butlast buffer @ [NUL])"
    by (auto simp: sublist_def NUL_def append_eq_append_conv2 append_eq_Cons_conv Cons_eq_append_conv)
  then show ?thesis by (rule typeless.xml_parse_readable)
qed

text \<open>After a document type whose comment ends the buffer the parser reads past its end.\<close>

lemma doctype_comment_past_the_end:
  "xml_parse ''<!DOCTYPE <!---->>'' parse_default = Inl past_the_end"
  by code_simp

lemma get_buffer_encoding_concrete:
  "get_buffer_encoding encoding contents \<in>
     {encoding_utf8, encoding_utf16_le, encoding_utf16_be, encoding_utf32_le, encoding_utf32_be, encoding_latin1}"
  by (cases encoding) (auto simp: get_buffer_encoding_def guess_buffer_encoding_def get_wchar_encoding_def)

text \<open>
  Claim C29.  Whatever the contents, the options and the encoding, \<open>load_buffer\<close> fills exactly the
  buffer that it has allocated for them, with a zero at the end, and then, unless the buffer has a
  document type and ends in the end of a comment, parsing ends with a status and a tree and reads
  nothing past the zero.
\<close>

theorem load_buffer_ends:
  "\<exists>buffer. convert_buffer (get_buffer_encoding encoding contents) contents False = Inr (buffer @ [NUL])
    \<and> (\<not> suffix ''-->'' buffer \<or> \<not> sublist ''DOCTYP'' buffer \<longrightarrow>
        (\<exists>r doc. load_buffer contents options encoding = Inr (r, doc)))"
proof -
  obtain buffer where b: "convert_buffer (get_buffer_encoding encoding contents) contents False = Inr (buffer @ [NUL])"
    using convert_buffer_fits [OF get_buffer_encoding_concrete] by blast
  then have "\<not> suffix ''-->'' buffer \<or> \<not> sublist ''DOCTYP'' buffer \<Longrightarrow>
      \<exists>r doc. load_buffer contents options encoding = Inr (r, doc)"
    using xml_parse_total [of "buffer @ [NUL]" options] by (simp add: load_buffer_def)
  with b show ?thesis by blast
qed

theorem load_buffer_ends_witness:
  "\<exists>r doc. load_buffer ''<a>&#1;<'' 0xFFFF encoding_auto = Inr (r, doc)"
proof -
  have "get_buffer_encoding encoding_auto ''<a>&#1;<'' = encoding_utf8" by code_simp
  with load_buffer_ends [of encoding_auto "''<a>&#1;<''" "0xFFFF"] show ?thesis
    by (simp add: convert_buffer_def get_mutable_buffer_def suffix_def)
qed

end
