(* ===== verification/Pugi_Roundtrip.thy ===== *)
theory Pugi_Roundtrip
  imports Pugi_Safe Pugi_Writer
begin

text \<open>
  What pugixml writes in raw mode, it reads back with its default options as the same tree.  The trees
  are those that reading can give: elements with names, and between them text that is not blank and
  sections.  A carriage return in a text and a tab in an attribute are not written as references, so
  that reading changes them; they are left out.
\<close>

section \<open>Character types of the writer\<close>

lemmas chartypex_lookup = table_lookup [where tab = chartypex_table and x = 20]

lemma is_chartypex_code:
  "is_chartypex c ctx_special_pcdata \<longleftrightarrow> code c < 32 \<and> code c \<notin> {9, 10, 13} \<or> code c \<in> {38, 60, 62}"
  "is_chartypex c ctx_special_attr \<longleftrightarrow> code c < 32 \<and> code c \<noteq> 9 \<or> code c \<in> {34, 38, 60, 62}"
  unfolding is_chartypex_def
  by (rule chartypex_lookup; simp add: chartypex_table_def ctx_special_pcdata_def ctx_special_attr_def first_upt)+

section \<open>Conversions step by step\<close>

lemma conv_mono: "conv k act cs = Inr x \<Longrightarrow> conv (Suc k) act cs = Inr x"
proof (induction k arbitrary: cs x)
  case (Suc k)
  show ?case
  proof (cases "act cs")
    case (Inr a)
    have IH: "rmap (apfst ((@) w)) (conv k act ds) = Inr x \<Longrightarrow> rmap (apfst ((@) w)) (conv (Suc k) act ds) = Inr x"
      for w ds
      using Suc.IH [of ds] by (auto simp: rmap_eq_Inr simp del: conv.simps)
    from Suc.prems Inr IH show ?thesis
      by (subst conv.simps(2), cases a) (simp_all del: conv.simps add: conv.simps(2) [of k act cs])
  qed (use Suc.prems in simp)
qed simp

text \<open>\<open>converts_to act cs u r\<close>: the conversion of \<open>cs\<close> ends with the text \<open>u\<close> in front of \<open>r\<close>.\<close>

definition converts_to :: "(string \<Rightarrow> conv_action res) \<Rightarrow> string \<Rightarrow> string \<Rightarrow> string \<Rightarrow> bool" where
  "converts_to act cs u r \<longleftrightarrow> (\<exists>k. conv k act cs = Inr (u, Some r))"

lemma conv_more: "conv k act cs = Inr x \<Longrightarrow> conv (n + k) act cs = Inr x"
  by (induction n) (auto intro: conv_mono simp del: conv.simps)

context converter
begin

lemma converts_to_text:
  assumes "converts_to act mem u r" and "NUL \<in> set mem" and "NUL \<notin> set u"
  shows "convert_text False act mem = Inr (u, Some r)"
proof -
  from assms(1) obtain k where k: "conv k act mem = Inr (u, Some r)" by (auto simp: converts_to_def)
  from convert_text_conv [OF assms(2), of False] obtain u' r' where c:
    "conv (Suc (length mem)) act mem = Inr (u', r')"
    "case r' of None \<Rightarrow> \<exists>v. convert_text False act mem = Inr (v, None)
       | Some rest \<Rightarrow> convert_text False act mem = Inr (c_string u', Some rest)"
    by (auto simp del: conv.simps split: option.splits)
  from conv_more [OF k, of "Suc (length mem)"] conv_more [OF c(1), of k]
  have "u' = u \<and> r' = Some r" by (simp add: add.commute del: conv.simps)
  moreover have "c_string u = u" using assms(3) by (auto simp: c_string_def)
  ultimately show ?thesis using c(2) by simp
qed

end

lemma converts_to_done: "act cs = Inr (Done n) \<Longrightarrow> r = drop n cs \<Longrightarrow> converts_to act cs [] r"
  unfolding converts_to_def by (rule exI [of _ 1]) simp

lemma converts_to_put:
  assumes "act cs = Inr (Put w n)" and "converts_to act (drop n cs) u r"
  shows "converts_to act cs (w @ u) r"
proof -
  from assms(2) obtain k where "conv k act (drop n cs) = Inr (u, Some r)" by (auto simp: converts_to_def)
  with assms(1) have "conv (Suc k) act cs = Inr (w @ u, Some r)" by simp
  then show ?thesis unfolding converts_to_def by blast
qed

lemma converts_to_keep:
  assumes "act cs = Inr (Keep n)" and "converts_to act (drop n cs) u r"
  shows "converts_to act cs (take n cs @ u) r"
proof -
  from assms(2) obtain k where "conv k act (drop n cs) = Inr (u, Some r)" by (auto simp: converts_to_def)
  with assms(1) have "conv (Suc k) act cs = Inr (take n cs @ u, Some r)" by simp
  then show ?thesis unfolding converts_to_def by blast
qed

text \<open>A character over which the scan goes is kept.\<close>

lemma converts_to_scan:
  assumes "act = scan_to ct f" and "\<not> is_chartype c ct" and "converts_to act cs u r"
  shows "converts_to act (c # cs) (c # u) r"
proof -
  let ?n = "length (takeWhile (\<lambda>c. \<not> is_chartype c ct) cs)"
  from assms(3) obtain k where k: "conv (Suc k) act cs = Inr (u, Some r)"
    by (metis converts_to_def conv_mono)
  show ?thesis
  proof (cases "drop ?n cs")
    case Nil
    with k assms(1) show ?thesis by (simp add: scan_to_def)
  next
    case (Cons d rest)
    show ?thesis
    proof (cases "0 < ?n")
      case True
      with k assms(1) Cons obtain v where v: "conv k act (drop ?n cs) = Inr (v, Some r)" "u = take ?n cs @ v"
        by (auto simp: scan_to_def rmap_eq_Inr simp del: conv.simps simp add: conv.simps(2) [of k])
      have "act (c # cs) = Inr (Keep (Suc ?n))" using assms(1,2) Cons by (simp add: scan_to_def)
      moreover have "converts_to act (drop (Suc ?n) (c # cs)) v r" using v(1) by (auto simp: converts_to_def)
      ultimately have "converts_to act (c # cs) (take (Suc ?n) (c # cs) @ v) r" by (rule converts_to_keep)
      with v(2) show ?thesis by simp
    next
      case False
      then have n: "?n = 0" by simp
      with Cons assms(1,2) have "act (c # cs) = Inr (Keep 1)" by (simp add: scan_to_def)
      with converts_to_keep [of act "c # cs" 1] assms(3) show ?thesis by simp
    qed
  qed
qed

section \<open>References\<close>

lemma utf8_writer_ascii: "n < 128 \<Longrightarrow> utf8_writer_any [] (of_nat n) = [char_of n]"
proof -
  assume n: "n < 128"
  then have u: "unat (of_nat n :: 32 word) = n" by (simp add: unat_of_nat)
  have "(of_nat n :: 32 word) < 0x80" "(of_nat n :: 32 word) < 0x10000" using n by (simp_all add: word_less_nat_alt u)
  moreover have "unat (take_bit 8 (of_nat n :: 32 word)) = n"
    using n by (simp add: unsigned_take_bit_eq u take_bit_nat_eq_self)
  ultimately show ?thesis by (simp add: utf8_writer_any_def utf8_writer_low_def byte_def)
qed

lemma digit_char_simps [simp]:
  assumes "n < 10"
  shows "digit_char n \<noteq> CHR ''x''" "digit_char n \<noteq> CHR '';''"
  using assms by (auto simp: code_eq_iff [symmetric])

lemma reference_control:
  assumes "code c < 32"
  shows "strconv_escape (special_text c @ r) = Inr (Some [c], length (special_text c))"
proof -
  have d: "code c div 10 < 10" "code c mod 10 < 10" using assms by auto
  have n: "(10 * of_nat (code c div 10) + of_nat (code c mod 10) :: 32 word) = of_nat (code c)"
    by (metis mult_div_mod_eq of_nat_add of_nat_mult of_nat_numeral)
  have "c \<noteq> CHR ''&''" "c \<noteq> CHR ''<''" "c \<noteq> CHR ''>''" "c \<noteq> CHR 0x22" using assms by auto
  then have "special_text c = ''&#'' @ [digit_char (code c div 10), digit_char (code c mod 10), CHR '';'']"
    by (simp add: special_text_def)
  with d n utf8_writer_ascii [of "code c"] assms show ?thesis
    by (simp add: strconv_escape_def)
qed

text \<open>What is written for a special character is read back as that character.\<close>

definition special :: "char \<Rightarrow> bool" where
  "special c \<longleftrightarrow> code c < 32 \<or> c = CHR ''&'' \<or> c = CHR ''<'' \<or> c = CHR ''>'' \<or> c = CHR 0x22"

lemma escape_special:
  "special c \<Longrightarrow> escape_action (special_text c @ r) = Inr (Put [c] (length (special_text c)))"
  using reference_control [of c r]
  by (auto simp: special_def escape_action_def) (auto simp: special_text_def strconv_escape_def)

lemma special_text_amp: "\<exists>q. special_text c = CHR ''&'' # q"
  by (simp add: special_text_def)

lemma special_chars: "is_chartypex c ctx_special_pcdata \<or> is_chartypex c ctx_special_attr \<Longrightarrow> special c"
  by (auto simp: is_chartypex_code special_def code_eq_iff [symmetric])

lemma plain_chars:
  "\<not> is_chartypex c ctx_special_pcdata \<Longrightarrow> c \<noteq> CHR 0x0D \<Longrightarrow> \<not> is_chartype c ct_parse_pcdata"
  "\<not> is_chartypex c ctx_special_attr \<Longrightarrow> c \<noteq> CHR 0x09 \<Longrightarrow> c \<noteq> CHR 0x27 \<Longrightarrow> \<not> is_chartype c ct_parse_attr_ws"
  by (auto simp: is_chartypex_code is_chartype_code code_eq_iff [symmetric])

lemma text_output_escaped_Nil [simp]: "text_output_escaped ct [] = []"
  by (simp add: text_output_escaped.simps)

lemma text_output_escaped_Cons:
  "text_output_escaped ct (c # s) = (if is_chartypex c ct then special_text c else [c]) @ text_output_escaped ct s"
  by (subst text_output_escaped.simps) (simp add: text_output_escaped.simps [of ct s])

section \<open>Texts and attributes\<close>

lemma pcdata_read:
  assumes "NUL \<notin> set v" and "CHR 0x0D \<notin> set v"
  shows "converts_to (pcdata_action True True) (text_output_escaped ctx_special_pcdata v @ CHR ''<'' # r) v r"
  using assms
proof (induction v)
  case Nil
  have "is_chartype (CHR ''<'') ct_parse_pcdata" by (simp add: is_chartype_code)
  then show ?case by (intro converts_to_done [where n = 1]) (simp_all add: pcdata_action_def scan_to_def)
next
  case (Cons c v)
  let ?t = "text_output_escaped ctx_special_pcdata v @ CHR ''<'' # r"
  have IH: "converts_to (pcdata_action True True) ?t v r" using Cons by simp
  show ?case
  proof (cases "is_chartypex c ctx_special_pcdata")
    case True
    have amp: "is_chartype (CHR ''&'') ct_parse_pcdata" by (simp add: is_chartype_code)
    obtain q where q: "special_text c = CHR ''&'' # q" using special_text_amp by blast
    have "pcdata_action True True (special_text c @ ?t) = escape_action (special_text c @ ?t)"
      using amp by (simp add: pcdata_action_def scan_to_def q)
    also have "\<dots> = Inr (Put [c] (length (special_text c)))"
      using special_chars [of c] True by (intro escape_special) simp
    finally have "converts_to (pcdata_action True True) (special_text c @ ?t) ([c] @ v) r"
      by (rule converts_to_put) (simp add: IH)
    with True show ?thesis by (simp add: text_output_escaped_Cons)
  next
    case False
    with Cons.prems have "\<not> is_chartype c ct_parse_pcdata" by (intro plain_chars) auto
    from converts_to_scan [OF pcdata_action_def this IH] False show ?thesis by (simp add: text_output_escaped_Cons)
  qed
qed

lemma attribute_read:
  assumes "NUL \<notin> set v" and "CHR 0x09 \<notin> set v"
  shows "converts_to (wconv_action True (CHR 0x22)) (text_output_escaped ctx_special_attr v @ CHR 0x22 # r) v r"
  using assms
proof (induction v)
  case Nil
  have "is_chartype (CHR 0x22) ct_parse_attr_ws" by (simp add: is_chartype_code)
  then show ?case by (intro converts_to_done [where n = 1]) (simp_all add: wconv_action_def scan_to_def)
next
  case (Cons c v)
  let ?t = "text_output_escaped ctx_special_attr v @ CHR 0x22 # r"
  have IH: "converts_to (wconv_action True (CHR 0x22)) ?t v r" using Cons by simp
  consider "is_chartypex c ctx_special_attr" | "c = CHR 0x27" | "\<not> is_chartypex c ctx_special_attr" "c \<noteq> CHR 0x27" by blast
  then show ?case
  proof cases
    case 1
    have amp: "is_chartype (CHR ''&'') ct_parse_attr_ws" "\<not> is_chartype (CHR ''&'') ct_space" by (simp_all add: is_chartype_code is_chartypex_code)
    obtain q where q: "special_text c = CHR ''&'' # q" using special_text_amp by blast
    have "wconv_action True (CHR 0x22) (special_text c @ ?t) = escape_action (special_text c @ ?t)"
      using amp by (simp add: wconv_action_def scan_to_def q)
    also have "\<dots> = Inr (Put [c] (length (special_text c)))"
      using special_chars [of c] 1 by (intro escape_special) simp
    finally have "converts_to (wconv_action True (CHR 0x22)) (special_text c @ ?t) ([c] @ v) r"
      by (rule converts_to_put) (simp add: IH)
    with 1 show ?thesis by (simp add: text_output_escaped_Cons)
  next
    case 2
    have apos: "is_chartype (CHR 0x27) ct_parse_attr_ws" "\<not> is_chartype (CHR 0x27) ct_space"
      "\<not> is_chartypex (CHR 0x27) ctx_special_attr" by (simp_all add: is_chartype_code is_chartypex_code)
    then have "wconv_action True (CHR 0x22) (c # ?t) = Inr (Keep 1)"
      using 2 by (simp add: wconv_action_def scan_to_def NUL_def)
    from converts_to_keep [where act = "wconv_action True (CHR 0x22)" and cs = "c # ?t" and n = 1, OF this] IH apos 2 show ?thesis by (simp add: text_output_escaped_Cons)
  next
    case 3
    with Cons.prems have "\<not> is_chartype c ct_parse_attr_ws" by (intro plain_chars) auto
    from converts_to_scan [OF wconv_action_def this IH] 3 show ?thesis by (simp add: text_output_escaped_Cons)
  qed
qed

text \<open>The text of a section is read up to the first \<open>]]>\<close>.\<close>

definition cdata_free :: "string \<Rightarrow> bool" where
  "cdata_free v \<longleftrightarrow> \<not> sublist '']]>'' v"

lemma cdata_read:
  assumes "NUL \<notin> set v" and "CHR 0x0D \<notin> set v" and "cdata_free v"
  shows "converts_to (cdata_action endch) (v @ '']]>'' @ r) v ('']>'' @ r)"
  using assms
proof (induction v)
  case Nil
  have "is_chartype (CHR '']'') ct_parse_cdata" by (simp add: is_chartype_code)
  then show ?case
    by (intro converts_to_done [where n = 1]) (simp_all add: cdata_action_def scan_to_def ends_with_def)
next
  case (Cons c v)
  let ?t = "v @ '']]>'' @ r"
  have IH: "converts_to (cdata_action endch) ?t v ('']>'' @ r)" using Cons by (auto simp: cdata_free_def sublist_Cons_right)
  show ?case
  proof (cases "is_chartype c ct_parse_cdata")
    case True
    have "look (c # ?t) [is_char (CHR '']''), is_char (CHR '']''), ends_with endch (CHR ''>'')] = Inr False"
    proof -
      have "\<not> prefix '']]>'' (c # v)" using Cons.prems(3) prefix_imp_sublist unfolding cdata_free_def by blast
      with Cons.prems(1) show ?thesis
        by (cases v; cases "tl v") (auto simp: ends_with_def)
    qed
    with True Cons.prems have "cdata_action endch (c # ?t) = Inr (Keep 1)"
      by (auto simp: cdata_action_def scan_to_def simp del: look.simps)
    from converts_to_keep [where act = "cdata_action endch" and cs = "c # ?t" and n = 1, OF this] IH
    show ?thesis by simp
  next
    case False
    from converts_to_scan [OF cdata_action_def this IH] show ?thesis by simp
  qed
qed

section \<open>Names, attributes and tags\<close>

definition xml_name :: "string \<Rightarrow> bool" where
  "xml_name n \<longleftrightarrow> (\<exists>c r. n = c # r \<and> is_chartype c ct_start_symbol) \<and> list_all (\<lambda>c. is_chartype c ct_symbol) n"

lemma scan_while_over:
  assumes "list_all (\<lambda>c. is_chartype c ct) u" and "\<not> is_chartype c ct"
  shows "scan_while ct (u @ c # r) = Inr (c # r)"
proof -
  have "dropWhile (\<lambda>c. is_chartype c ct) (u @ c # r) = c # r"
    using assms by (induction u) auto
  then show ?thesis by (simp add: scan_while_def)
qed

lemma scan_while_stays: "\<not> is_chartype c ct \<Longrightarrow> scan_while ct (c # r) = Inr (c # r)"
  using scan_while_over [of ct "[]"] by simp

lemma passed_append [simp]: "passed (u @ t) t = u"
  by (simp add: passed_def)

lemma default_text: "get_strconv_pcdata parse_default = strconv_pcdata False True True"
  and default_attribute: "get_strconv_attribute parse_default = parse_wconv True"
  by (simp_all add: get_strconv_pcdata_def get_strconv_attribute_def parse_default_def opt_parse_cdata_def
      opt_parse_escapes_def opt_parse_wconv_attribute_def opt_parse_eol_def Let_def)

lemma default_options:
  "optset parse_default opt_parse_cdata" "optset parse_default opt_parse_eol"
  "\<not> optset parse_default opt_parse_comments" "\<not> optset parse_default opt_parse_declaration"
  "\<not> optset parse_default opt_parse_pi" "\<not> optset parse_default opt_parse_fragment"
  "\<not> optset parse_default opt_parse_trim_pcdata"
  "\<not> optset parse_default (opt_parse_ws_pcdata OR opt_parse_ws_pcdata_single)"
  by (simp_all add: optset_def parse_default_def opt_parse_cdata_def opt_parse_escapes_def opt_parse_wconv_attribute_def
      opt_parse_eol_def opt_parse_comments_def opt_parse_declaration_def opt_parse_pi_def opt_parse_fragment_def
      opt_parse_trim_pcdata_def opt_parse_ws_pcdata_def opt_parse_ws_pcdata_single_def)

declare parse_attributes.simps [simp del] and parse_tree.simps [simp del]

definition attribute_ok :: "xml_attribute \<Rightarrow> bool" where
  "attribute_ok a \<longleftrightarrow> xml_name (fst a) \<and> (\<exists>v. snd a = Some v \<and> NUL \<notin> set v \<and> CHR 0x09 \<notin> set v)"

lemma text_output_escapes: "\<not> optset flags format_no_escapes \<Longrightarrow> text_output ct flags v = text_output_escaped ct v"
  by (simp add: text_output_def)

lemma not_symbol:
  "\<not> is_chartype (CHR ''='') ct_symbol" "\<not> is_chartype (CHR '' '') ct_symbol" "\<not> is_chartype (CHR ''>'') ct_symbol"
  "\<not> is_chartype (CHR ''/'') ct_symbol" "\<not> is_chartype (CHR ''='') ct_space" "\<not> is_chartype (CHR 0x22) ct_space"
  "\<not> is_chartype (CHR ''/'') ct_space" "\<not> is_chartype (CHR ''>'') ct_space" "\<not> is_chartype (CHR ''<'') ct_space"
  "is_chartype (CHR '' '') ct_space" "\<not> is_chartype (CHR ''/'') ct_start_symbol" "\<not> is_chartype (CHR ''>'') ct_start_symbol"
  "\<not> is_chartype (CHR '' '') ct_start_symbol" "\<not> is_chartype (CHR ''!'') ct_start_symbol" "\<not> is_chartype (CHR ''?'') ct_start_symbol"
  by (simp_all add: is_chartype_code)

lemma start_not_space: "is_chartype c ct_start_symbol \<Longrightarrow> \<not> is_chartype c ct_space"
  by (auto simp: is_chartype_code)

lemma parse_attribute_read:
  assumes "xml_name n" and "NUL \<notin> set v" and "CHR 0x09 \<notin> set v" and "\<not> is_chartype d ct_start_symbol"
    and "NUL \<in> set (d # r)"
  shows "parse_attribute parse_default (n @ ''='' @ [CHR 0x22] @ text_output_escaped ctx_special_attr v @ CHR 0x22 # d # r)
      (Xml_Node t m x as cs # cur) =
    parsed (d # r) (Xml_Node t m x (as @ [(n, Some v)]) cs # cur)"
proof -
  let ?q = "CHR 0x22 # text_output_escaped ctx_special_attr v @ CHR 0x22 # d # r"
  have scan: "scan_while ct_symbol (n @ CHR ''='' # ?q) = Inr (CHR ''='' # ?q)"
    using assms(1) not_symbol(1) by (intro scan_while_over) (simp_all add: xml_name_def)
  have "CHR 0x22 \<noteq> NUL" by (simp add: NUL_def)
  from converter.converts_to_text [OF attribute_converters(2) [OF this] attribute_read [OF assms(2,3), of "d # r"]] assms(2,5)
  have "convert_text False (wconv_action True (CHR 0x22)) (text_output_escaped ctx_special_attr v @ CHR 0x22 # d # r) =
      Inr (v, Some (d # r))" by auto
  then have "parse_wconv True (CHR 0x22) (text_output_escaped ctx_special_attr v @ CHR 0x22 # d # r) = Inr (v, Some (d # r))"
    by (simp add: parse_wconv_def)
  with scan assms(4) show ?thesis
    using not_symbol(5,6) by (simp add: parse_attribute_def Let_def at_char_def scan_while_stays parse_attribute_value_def default_attribute)
qed

lemma parse_attributes_space:
  "is_chartype c ct_space \<Longrightarrow> parse_attributes (Suc k) optmsk endch (c # s) cur = parse_attributes (Suc k) optmsk endch s cur"
  by (simp add: parse_attributes.simps scan_while_def)

lemma parse_attributes_read:
  assumes "list_all attribute_ok as" and "\<not> optset flags format_no_escapes"
    and "\<not> is_chartype d ct_start_symbol" and "NUL \<in> set (d # r)"
  shows "parse_attributes (length as + Suc k) parse_default endch
      (concat (map (attribute_output flags) as) @ d # r) (Xml_Node t m x bs cs # cur) =
    parse_attributes (Suc k) parse_default endch (d # r) (Xml_Node t m x (bs @ as) cs # cur)"
  using assms(1)
proof (induction as arbitrary: bs)
  case (Cons a as)
  then obtain n v where a: "a = (n, Some v)" "xml_name n" "NUL \<notin> set v" "CHR 0x09 \<notin> set v"
    by (cases a) (auto simp: attribute_ok_def)
  let ?rest = "concat (map (attribute_output flags) as) @ d # r"
  obtain e q where eq: "?rest = e # q" "\<not> is_chartype e ct_start_symbol" "NUL \<in> set (e # q)"
  proof (cases as)
    case (Cons b bs)
    then show ?thesis using that assms(4) not_symbol(13) by (auto simp: attribute_output_def)
  qed (use that assms(3,4) in auto)
  let ?s = "n @ ''='' @ [CHR 0x22] @ text_output_escaped ctx_special_attr v @ CHR 0x22 # e # q"
  obtain c u where c: "n = c # u" "is_chartype c ct_start_symbol" using a(2) by (auto simp: xml_name_def)
  have "scan_while ct_space ?s = Inr ?s"
    using start_not_space [OF c(2)] by (simp add: c(1) scan_while_stays)
  then have "parse_attributes (Suc (length as + Suc k)) parse_default endch ?s (Xml_Node t m x bs cs # cur) =
      pbind (parse_attribute parse_default ?s (Xml_Node t m x bs cs # cur)) (parse_attributes (length as + Suc k) parse_default endch)"
    using c by (simp add: parse_attributes.simps at_char_def)
  also have "\<dots> = parse_attributes (length as + Suc k) parse_default endch (e # q) (Xml_Node t m x (bs @ [(n, Some v)]) cs # cur)"
    unfolding parse_attribute_read [OF a(2-4) eq(2,3)] by (simp add: pbind_def parsed_def)
  also have "\<dots> = parse_attributes (Suc k) parse_default endch (d # r) (Xml_Node t m x ((bs @ [(n, Some v)]) @ as) cs # cur)"
    unfolding eq(1) [symmetric] using Cons by (intro Cons.IH) simp
  finally have read: "parse_attributes (Suc (length as + Suc k)) parse_default endch ?s (Xml_Node t m x bs cs # cur) =
      parse_attributes (Suc k) parse_default endch (d # r) (Xml_Node t m x ((bs @ [(n, Some v)]) @ as) cs # cur)" .
  have "attribute_output flags a = CHR '' '' # n @ ''='' @ [CHR 0x22] @ text_output_escaped ctx_special_attr v @ [CHR 0x22]"
    using assms(2) by (simp add: a(1) attribute_output_def text_output_escapes)
  then have whole: "concat (map (attribute_output flags) (a # as)) @ d # r = CHR '' '' # ?s" by (simp add: eq(1))
  show ?case
    unfolding whole length_Cons add_Suc parse_attributes_space [OF not_symbol(10)] read by (simp add: a(1))
qed simp

text \<open>An element's first tag, closed (\<open>full\<close> is false) or not.\<close>

lemma parse_start_read:
  assumes "xml_name n" and "list_all attribute_ok as" and "\<not> optset flags format_no_escapes" and "NUL \<in> set r"
  shows "parse_tag parse_default endch
      (n @ concat (map (attribute_output flags) as) @ (if full then ''>'' else '' />'') @ r) cur =
    parsed r (if full then Xml_Node node_element (Some n) None as [] # cur
              else pop_node (Xml_Node node_element (Some n) None as [] # cur))"
proof -
  let ?tail = "(if full then ''>'' else '' />'') @ r"
  let ?rest = "concat (map (attribute_output flags) as) @ ?tail"
  let ?el = "\<lambda>as. Xml_Node node_element (Some n) None as [] # cur"
  obtain d q where tail: "?tail = d # q" "\<not> is_chartype d ct_start_symbol" "\<not> is_chartype d ct_symbol" "NUL \<in> set (d # q)"
    using not_symbol(2,3,12,13) assms(4) by (cases "full") auto
  have "\<exists>e u. ?rest = e # u \<and> (e = CHR '' '' \<or> e = CHR ''>'' \<and> as = [] \<and> full) \<and> \<not> is_chartype e ct_symbol"
    using not_symbol(2,3) by (cases as; cases "full") (auto simp: attribute_output_def)
  then obtain e u where rest: "?rest = e # u" "e = CHR '' '' \<or> e = CHR ''>'' \<and> as = [] \<and> full" "\<not> is_chartype e ct_symbol"
    by blast
  obtain c m where c: "n = c # m" "is_chartype c ct_start_symbol" using assms(1) by (auto simp: xml_name_def)
  have scan: "scan_while ct_symbol (n @ e # u) = Inr (e # u)"
    using assms(1) rest(3) by (intro scan_while_over) (simp_all add: xml_name_def)
  have "parse_start_element parse_default endch (n @ e # u) cur = parsed r (if full then ?el as else pop_node (?el as))"
  proof (cases "e = CHR ''>''")
    case True
    with rest have "as = []" "full" "u = r" by auto
    with scan True show ?thesis
      by (simp add: parse_start_element_def Let_def at_char_def set_name.simps push_node_def)
  next
    case False
    with rest have e: "e = CHR '' ''" by simp
    have len: "length as \<le> length u"
    proof -
      have "length as \<le> length (concat (map (attribute_output flags) as))"
        by (induction as) (auto simp: attribute_output_def)
      moreover have "length (concat (map (attribute_output flags) as)) < length ?rest" using tail(1) by simp
      ultimately show ?thesis using rest(1) by simp
    qed
    then obtain k where k: "Suc (length u) = length as + Suc k" by (metis add_Suc_right le_Suc_ex)
    have "parse_attributes (Suc (length u)) parse_default endch u (?el []) =
        parse_attributes (Suc (length u)) parse_default endch ?rest (?el [])"
      unfolding rest(1) e parse_attributes_space [OF not_symbol(10)] ..
    also have "\<dots> = parse_attributes (Suc k) parse_default endch (d # q) (?el as)"
      unfolding k tail(1) parse_attributes_read [OF assms(2,3) tail(2,4)] by (simp only: append_Nil)
    also have "\<dots> = parsed r (if full then ?el as else pop_node (?el as))"
      unfolding tail(1) [symmetric] using not_symbol(7,8,10,11,12) assms(4)
      by (cases "full") (simp_all add: scan_while_stays at_char_def parse_attributes_space,
        simp_all add: parse_attributes.simps scan_while_stays at_char_def NUL_def)
    finally show ?thesis
      using scan e not_symbol(10) by (simp add: parse_start_element_def Let_def at_char_def push_node_def)
  qed
  with c rest(1) show ?thesis by (simp add: parse_tag_def at_char_def)
qed

lemma close_name_over:
  "list_all (\<lambda>c. is_chartype c ct_symbol) n \<Longrightarrow> \<not> is_chartype c ct_symbol \<Longrightarrow>
   close_name (n @ c # r) n cur = parsed (c # r, []) cur"
  by (induction n) auto

lemma parse_end_read:
  assumes "xml_name n"
  shows "parse_tag parse_default endch (''/'' @ n @ ''>'' @ r) (Xml_Node t (Some n) v as cs # cur) =
    parsed r (pop_node (Xml_Node t (Some n) v as cs # cur))"
  using assms not_symbol(3,8,11)
  by (simp add: parse_tag_def at_char_def parse_end_element_def close_name_over xml_name_def pbind_def parsed_def
      scan_while_stays NUL_def)

section \<open>Trees\<close>

text \<open>\<open>reaches endch s cur s' cur'\<close>: the loop gets from one position and cursor to the other, taking a
  character in each round at least.\<close>

definition reaches :: "char \<Rightarrow> string \<Rightarrow> cursor \<Rightarrow> string \<Rightarrow> cursor \<Rightarrow> bool" where
  "reaches endch s cur s' cur' \<longleftrightarrow>
     (\<exists>n. length s' + n \<le> length s
        \<and> (\<forall>k. parse_tree (n + Suc k) parse_default endch s cur = parse_tree (Suc k) parse_default endch s' cur'))"

lemma reaches_refl: "reaches endch s cur s cur"
  unfolding reaches_def by (rule exI [of _ 0]) simp

lemma reaches_trans:
  assumes "reaches endch s cur t c" and "reaches endch t c u d"
  shows "reaches endch s cur u d"
proof -
  from assms obtain m n where m: "length t + m \<le> length s"
      "\<And>k. parse_tree (m + Suc k) parse_default endch s cur = parse_tree (Suc k) parse_default endch t c"
    and n: "length u + n \<le> length t"
      "\<And>k. parse_tree (n + Suc k) parse_default endch t c = parse_tree (Suc k) parse_default endch u d"
    unfolding reaches_def by blast
  have "parse_tree (m + n + Suc k) parse_default endch s cur = parse_tree (Suc k) parse_default endch u d" for k
    using m(2) [of "n + k"] n(2) [of k] by (simp add: add.assoc)
  with m(1) n(1) show ?thesis unfolding reaches_def by (intro exI [of _ "m + n"]) simp
qed

lemma reaches_tag:
  assumes "parse_tag parse_default endch s cur = parsed t cur'" and "length t \<le> length s"
  shows "reaches endch (CHR ''<'' # s) cur t cur'"
  unfolding reaches_def
  by (rule exI [of _ 1])
    (use assms in \<open>simp add: parse_tree.simps(2) [of "Suc _"] at_char_def NUL_def pbind_def parsed_def\<close>)

text \<open>The first character of a written text that is no white space is one of the text.\<close>

lemma escaped_front:
  assumes "\<not> list_all (\<lambda>c. is_chartype c ct_space) v"
  shows "\<exists>u c w. text_output_escaped ctx_special_pcdata v = u @ c # w \<and> list_all (\<lambda>c. is_chartype c ct_space) u
    \<and> \<not> is_chartype c ct_space \<and> c \<noteq> CHR ''<'' \<and> c \<noteq> NUL"
  using assms
proof (induction v)
  case (Cons c v)
  show ?case
  proof (cases "is_chartype c ct_space")
    case True
    then have "\<not> is_chartypex c ctx_special_pcdata" by (auto simp: is_chartype_code is_chartypex_code)
    moreover from True Cons obtain u d w where "text_output_escaped ctx_special_pcdata v = u @ d # w"
      "list_all (\<lambda>c. is_chartype c ct_space) u" "\<not> is_chartype d ct_space" "d \<noteq> CHR ''<''" "d \<noteq> NUL" by auto
    ultimately show ?thesis
      using True by (intro exI [of _ "c # u"] exI [of _ d] exI [of _ w]) (simp add: text_output_escaped_Cons)
  next
    case False
    show ?thesis
    proof (cases "is_chartypex c ctx_special_pcdata")
      case True
      obtain q where "special_text c = CHR ''&'' # q" using special_text_amp by blast
      with True have "text_output_escaped ctx_special_pcdata (c # v) =
          [] @ CHR ''&'' # q @ text_output_escaped ctx_special_pcdata v" by (simp add: text_output_escaped_Cons)
      moreover have "\<not> is_chartype (CHR ''&'') ct_space" by (simp add: is_chartype_code)
      moreover have "CHR ''&'' \<noteq> CHR ''<''" "CHR ''&'' \<noteq> NUL" by (simp_all add: NUL_def)
      ultimately show ?thesis by (metis list.pred_inject(1))
    next
      case plain: False
      then have "text_output_escaped ctx_special_pcdata (c # v) = [] @ c # text_output_escaped ctx_special_pcdata v"
        by (simp add: text_output_escaped_Cons)
      moreover have "c \<noteq> CHR ''<''" "c \<noteq> NUL"
        using plain by (auto simp: is_chartypex_code NUL_def)
      ultimately show ?thesis using False by (metis list.pred_inject(1))
    qed
  qed
qed simp

lemma reaches_text:
  assumes "\<not> list_all (\<lambda>c. is_chartype c ct_space) v" and "NUL \<notin> set v" and "CHR 0x0D \<notin> set v"
    and "has_parent cur" and "NUL \<in> set r" and "hd r \<noteq> NUL"
  shows "reaches endch (text_output_escaped ctx_special_pcdata v @ CHR ''<'' # r) cur
    (CHR ''<'' # r) (append_node node_pcdata v cur)"
proof -
  let ?s = "text_output_escaped ctx_special_pcdata v @ CHR ''<'' # r"
  from escaped_front [OF assms(1)] obtain u c w where c: "text_output_escaped ctx_special_pcdata v = u @ c # w"
    "list_all (\<lambda>c. is_chartype c ct_space) u" "\<not> is_chartype c ct_space" "c \<noteq> CHR ''<''" "c \<noteq> NUL" by blast
  obtain d q where r: "r = d # q" "d \<noteq> NUL" using assms(5,6) by (cases r) auto
  have scan: "scan_while ct_space ?s = Inr (c # w @ CHR ''<'' # r)"
    using scan_while_over [OF c(2,3)] c(1) by simp
  have "get_strconv_pcdata parse_default ?s = Inr (v, Some r)"
    unfolding default_text strconv_pcdata_def using assms by (intro pcdata.converts_to_text pcdata_read) auto
  with scan c(4,5) assms(4) r have parse_text: "parse_text parse_default ?s cur = parsed (At_tag r) (append_node node_pcdata v cur)"
    by (simp add: parse_text_def at_char_def default_options Let_def)
  obtain e x where e: "?s = e # x" "e \<noteq> NUL" "e \<noteq> CHR ''<''"
  proof (cases u)
    case (Cons f u')
    with c(1,2) that [of f] show ?thesis by (auto simp: is_chartype_code NUL_def code_eq_iff [symmetric])
  qed (use c that in auto)
  have "parse_tree (Suc k) parse_default endch ?s cur =
      parse_tree (Suc k) parse_default endch (CHR ''<'' # r) (append_node node_pcdata v cur)" for k
    using parse_text e(2,3) unfolding e(1)
    by (simp add: parse_tree.simps(2) [of k] at_char_def NUL_def) (simp add: pbind_def parsed_def)
  then show ?thesis unfolding reaches_def by (intro exI [of _ 0]) simp
qed

lemma reaches_section:
  assumes "NUL \<notin> set v" and "CHR 0x0D \<notin> set v" and "cdata_free v" and "NUL \<in> set r"
  shows "reaches endch (''<![CDATA['' @ v @ '']]>'' @ r) cur r (append_node node_cdata v cur)"
proof -
  have conv: "strconv_cdata endch (v @ '']]>'' @ r) = Inr (v, Some ('']>'' @ r))"
    unfolding strconv_cdata_def using assms by (intro cdata.converts_to_text cdata_read) auto
  have "parse_cdata_section parse_default endch (v @ '']]>'' @ r) cur = parsed r (append_node node_cdata v cur)"
    using conv by (simp add: parse_cdata_section_def default_options Let_def pbind_def parsed_def)
  then have "parse_tag parse_default endch (''![CDATA['' @ v @ '']]>'' @ r) cur = parsed r (append_node node_cdata v cur)"
    using not_symbol(14) by (simp add: parse_tag_def at_char_def parse_exclamation_def)
  from reaches_tag [OF this] show ?thesis by simp
qed

text \<open>The trees that are read back: the elements, texts and sections among the children of an element,
  with no two texts side by side.\<close>

definition text_ok :: "string \<Rightarrow> bool" where
  "text_ok v \<longleftrightarrow> NUL \<notin> set v \<and> CHR 0x0D \<notin> set v"

fun texts_apart :: "xml_node list \<Rightarrow> bool" where
  "texts_apart (m # n # ns) \<longleftrightarrow> \<not> (nd_type m = node_pcdata \<and> nd_type n = node_pcdata) \<and> texts_apart (n # ns)"
| "texts_apart ns \<longleftrightarrow> True"

primrec plain_node :: "xml_node \<Rightarrow> bool" where
  "plain_node (Xml_Node t name value attrs cs) \<longleftrightarrow>
     (if t = node_element then
        (\<exists>n. name = Some n \<and> xml_name n) \<and> value = None \<and> list_all attribute_ok attrs
        \<and> texts_apart cs \<and> list_all id (map plain_node cs)
      else name = None \<and> attrs = [] \<and> cs = [] \<and>
        (\<exists>v. value = Some v \<and> text_ok v \<and>
          (t = node_pcdata \<and> \<not> list_all (\<lambda>c. is_chartype c ct_space) v \<or> t = node_cdata \<and> cdata_free v)))"

definition raw_flags :: "32 word \<Rightarrow> bool" where
  "raw_flags flags \<longleftrightarrow> optset flags format_raw \<and> \<not> optset flags format_no_escapes"

lemma raw_no_indent:
  assumes "raw_flags flags"
  shows "text_output_indent indent flags depth = []"
proof -
  have "flags AND format_raw = (flags AND (format_indent OR format_raw)) AND format_raw"
    by (simp add: and.assoc format_indent_def format_raw_def)
  then have "flags AND (format_indent OR format_raw) \<noteq> format_indent"
    using assms by (auto simp: raw_flags_def optset_def format_indent_def format_raw_def)
  then show ?thesis by (simp add: text_output_indent_def)
qed

lemma cdata_output: "cdata_free v \<Longrightarrow> text_output_cdata v = ''<![CDATA['' @ v @ '']]>''"
proof -
  have "cdata_free v \<Longrightarrow> before_cdata_end v = (v, [])"
  proof (induction v rule: before_cdata_end.induct)
    case (1 c d e s)
    then have "cdata_free (d # e # s)" by (auto simp: cdata_free_def sublist_Cons_right)
    moreover have "\<not> (c = CHR '']'' \<and> d = CHR '']'' \<and> e = CHR ''>'')"
      using 1(2) by (auto simp: cdata_free_def)
    ultimately show ?case using 1(1) by simp
  qed simp_all
  then show "cdata_free v \<Longrightarrow> text_output_cdata v = ''<![CDATA['' @ v @ '']]>''"
    by (subst text_output_cdata.simps) simp
qed

lemma element_output:
  assumes "raw_flags flags"
  shows "node_output indent flags depth (Xml_Node node_element (Some n) v as cs) =
    ''<'' @ n @ concat (map (attribute_output flags) as) @
    (if cs = [] then '' />'' else ''>'' @ concat (map (node_output indent flags (depth + 1)) cs) @ ''</'' @ n @ ''>'')"
  using assms
  by (simp add: raw_no_indent node_output_start_def node_output_end_def node_output_attributes_def line_end_def
      or_default_def Let_def raw_flags_def)

lemma pcdata_output:
  "raw_flags flags \<Longrightarrow> node_output indent flags depth (Xml_Node node_pcdata x (Some v) as cs) =
     text_output_escaped ctx_special_pcdata v"
  by (simp add: raw_no_indent node_output_simple_def or_default_def Let_def line_end_def text_output_escapes raw_flags_def)

lemma section_output:
  "raw_flags flags \<Longrightarrow> cdata_free v \<Longrightarrow> node_output indent flags depth (Xml_Node node_cdata x (Some v) as cs) =
     ''<![CDATA['' @ v @ '']]>''"
  by (simp add: raw_no_indent node_output_simple_def or_default_def Let_def line_end_def cdata_output raw_flags_def)

declare node_output.simps [simp del]

text \<open>What is written for a node that is no text begins with a tag.\<close>

lemma output_front:
  assumes "plain_node n" and "nd_type n \<noteq> node_pcdata" and "raw_flags flags"
  shows "\<exists>c q. node_output indent flags depth n = CHR ''<'' # c # q \<and> c \<noteq> NUL"
proof (cases n)
  case (Xml_Node t m v as cs)
  show ?thesis
  proof (cases "t = node_element")
    case True
    with assms(1) Xml_Node obtain k where k: "m = Some k" "xml_name k" by auto
    then obtain c r where "k = c # r" "c \<noteq> NUL" using NUL_types(9) by (auto simp: xml_name_def)
    with True k assms(3) show ?thesis by (simp add: Xml_Node element_output)
  next
    case False
    with assms Xml_Node obtain u where "t = node_cdata" "v = Some u" "cdata_free u" by auto
    with assms(3) show ?thesis by (simp add: Xml_Node section_output NUL_def)
  qed
qed

definition add_children :: "xml_node list \<Rightarrow> xml_node \<Rightarrow> xml_node" where
  "add_children cs p = Xml_Node (nd_type p) (nd_name p) (nd_value p) (nd_attrs p) (nd_children p @ cs)"

lemma add_children_simps [simp]:
  "add_children [] p = p" "add_children cs (add_child c p) = add_children (c # cs) p"
  by (cases p; simp add: add_children_def add_child_def)+

lemma children_read:
  assumes "\<And>c r p. c \<in> set cs \<Longrightarrow> NUL \<in> set r \<Longrightarrow>
      (nd_type c = node_pcdata \<longrightarrow> (\<exists>d q. r = CHR ''<'' # d # q \<and> d \<noteq> NUL)) \<Longrightarrow>
      reaches endch (out c @ r) (p # ps) r (add_child c p # ps)"
    and "\<And>c. c \<in> set cs \<Longrightarrow> nd_type c \<noteq> node_pcdata \<Longrightarrow> \<exists>d q. out c = CHR ''<'' # d # q \<and> d \<noteq> NUL"
    and "texts_apart cs" and "NUL \<in> set r" and "d \<noteq> NUL"
  shows "reaches endch (concat (map out cs) @ CHR ''<'' # d # r) (p # ps) (CHR ''<'' # d # r) (add_children cs p # ps)"
  using assms(1-3)
proof (induction cs arbitrary: p)
  case Nil
  show ?case by (simp add: reaches_refl)
next
  case (Cons c cs)
  let ?r = "concat (map out cs) @ CHR ''<'' # d # r"
  have "nd_type c = node_pcdata \<longrightarrow> (\<exists>d q. ?r = CHR ''<'' # d # q \<and> d \<noteq> NUL)"
  proof
    assume pc: "nd_type c = node_pcdata"
    show "\<exists>d q. ?r = CHR ''<'' # d # q \<and> d \<noteq> NUL"
    proof (cases cs)
      case (Cons e es)
      with pc Cons.prems(3) have "nd_type e \<noteq> node_pcdata" by simp
      with Cons.prems(2) [of e] Cons show ?thesis by auto
    qed (use assms(5) in simp)
  qed
  with Cons.prems(1) [of c ?r p] assms(4) have "reaches endch (out c @ ?r) (p # ps) ?r (add_child c p # ps)" by simp
  moreover have "texts_apart cs" using Cons.prems(3) by (cases cs) auto
  then have "reaches endch ?r (add_child c p # ps) (CHR ''<'' # d # r) (add_children cs (add_child c p) # ps)"
    using Cons.prems by (intro Cons.IH) auto
  ultimately have "reaches endch (out c @ ?r) (p # ps) (CHR ''<'' # d # r) (add_children cs (add_child c p) # ps)"
    by (rule reaches_trans)
  then show ?case by simp
qed

lemma node_read:
  assumes "raw_flags flags" and "plain_node n" and "NUL \<in> set r"
    and "nd_type n = node_pcdata \<longrightarrow> (\<exists>d q. r = CHR ''<'' # d # q \<and> d \<noteq> NUL)"
    and "nd_type n = node_element \<or> ps \<noteq> []"
  shows "reaches endch (node_output indent flags depth n @ r) (p # ps) r (add_child n p # ps)"
  using assms(2-5)
proof (induction n arbitrary: r depth p ps)
  case (Xml_Node t m v as cs)
  show ?case
  proof (cases "t = node_element")
    case True
    with Xml_Node.prems(1) obtain k where k: "m = Some k" "xml_name k" "v = None" "list_all attribute_ok as"
      "texts_apart cs" "\<forall>c \<in> set cs. plain_node c" by (auto simp: list_all_iff)
    have esc: "\<not> optset flags format_no_escapes" using assms(1) by (simp add: raw_flags_def)
    let ?el = "\<lambda>cs. Xml_Node node_element (Some k) None as cs"
    show ?thesis
    proof (cases "cs = []")
      case empty: True
      have "reaches endch (CHR ''<'' # k @ concat (map (attribute_output flags) as) @ '' />'' @ r) (p # ps) r
          (pop_node (?el [] # p # ps))"
        using parse_start_read [OF k(2,4) esc Xml_Node.prems(2), where full = False and cur = "p # ps"]
        by (intro reaches_tag) simp_all
      with empty True k(1,3) show ?thesis by (simp add: element_output [OF assms(1)])
    next
      case False
      let ?close = "CHR ''<'' # CHR ''/'' # k @ ''>'' @ r"
      let ?body = "concat (map (node_output indent flags (depth + 1)) cs) @ ?close"
      have "reaches endch (CHR ''<'' # k @ concat (map (attribute_output flags) as) @ ''>'' @ ?body) (p # ps) ?body
          (?el [] # p # ps)"
        using parse_start_read [OF k(2,4) esc, where full = True and cur = "p # ps" and r = ?body] Xml_Node.prems(2)
        by (intro reaches_tag) simp_all
      moreover have "reaches endch ?body (?el [] # p # ps) ?close (add_children cs (?el []) # p # ps)"
      proof (rule children_read [OF _ _ k(5)])
        show "reaches endch (node_output indent flags (depth + 1) c @ q) (x # p # ps) q (add_child c x # p # ps)"
          if "c \<in> set cs" "NUL \<in> set q" "nd_type c = node_pcdata \<longrightarrow> (\<exists>d u. q = CHR ''<'' # d # u \<and> d \<noteq> NUL)" for c q x
          using that k(6) by (intro Xml_Node.IH) auto
        show "\<exists>d q. node_output indent flags (depth + 1) c = CHR ''<'' # d # q \<and> d \<noteq> NUL"
          if "c \<in> set cs" "nd_type c \<noteq> node_pcdata" for c
          using output_front that k(6) assms(1) by blast
      qed (use Xml_Node.prems(2) in \<open>auto simp: NUL_def\<close>)
      moreover have "reaches endch ?close (?el cs # p # ps) r (add_child (?el cs) p # ps)"
        using parse_end_read [OF k(2), of endch r node_element None as cs "p # ps"] by (intro reaches_tag) simp_all
      ultimately have "reaches endch (CHR ''<'' # k @ concat (map (attribute_output flags) as) @ ''>'' @ ?body) (p # ps) r
          (add_child (?el cs) p # ps)"
        by (simp add: add_children_def) (blast intro: reaches_trans)
      with False True k(1,3) show ?thesis by (simp add: element_output [OF assms(1)])
    qed
  next
    case False
    with Xml_Node.prems(1) obtain u where u: "m = None" "as = []" "cs = []" "v = Some u" "text_ok u"
      "t = node_pcdata \<and> \<not> list_all (\<lambda>c. is_chartype c ct_space) u \<or> t = node_cdata \<and> cdata_free u" by auto
    from u(6) show ?thesis
    proof
      assume t: "t = node_pcdata \<and> \<not> list_all (\<lambda>c. is_chartype c ct_space) u"
      with Xml_Node.prems(3) obtain d q where r: "r = CHR ''<'' # d # q" "d \<noteq> NUL" by auto
      have "reaches endch (text_output_escaped ctx_special_pcdata u @ CHR ''<'' # d # q) (p # ps) (CHR ''<'' # d # q)
          (append_node node_pcdata u (p # ps))"
        using t u(5) r Xml_Node.prems(2,4)
        by (intro reaches_text) (auto simp: text_ok_def has_parent_def NUL_def)
      with t u r show ?thesis by (simp add: pcdata_output [OF assms(1)] append_node_def)
    next
      assume t: "t = node_cdata \<and> cdata_free u"
      then have "reaches endch (''<![CDATA['' @ u @ '']]>'' @ r) (p # ps) r (append_node node_cdata u (p # ps))"
        using u(5) Xml_Node.prems(2) by (intro reaches_section) (auto simp: text_ok_def)
      with t u show ?thesis by (simp add: section_output [OF assms(1)] append_node_def)
    qed
  qed
qed

section \<open>Documents\<close>

definition plain_document :: "xml_node \<Rightarrow> bool" where
  "plain_document doc \<longleftrightarrow>
     (\<exists>es. doc = document es \<and> es \<noteq> [] \<and> list_all (\<lambda>e. nd_type e = node_element \<and> plain_node e) es)"

lemma elements_read:
  assumes "raw_flags flags" and "list_all (\<lambda>e. nd_type e = node_element \<and> plain_node e) es" and "NUL \<in> set r"
  shows "reaches endch (concat (map (node_output indent flags depth) es) @ r) [p] r [add_children es p]"
  using assms(2)
proof (induction es arbitrary: p)
  case (Cons e es)
  then have e: "nd_type e = node_element" "plain_node e" by simp_all
  have "reaches endch (node_output indent flags depth e @ concat (map (node_output indent flags depth) es) @ r) [p]
      (concat (map (node_output indent flags depth) es) @ r) [add_child e p]"
    using assms(1,3) e by (intro node_read) auto
  moreover have "reaches endch (concat (map (node_output indent flags depth) es) @ r) [add_child e p] r [add_children es (add_child e p)]"
    using Cons by (intro Cons.IH) simp
  ultimately show ?case by (simp, blast intro: reaches_trans)
qed (simp add: reaches_refl)

definition xml_declaration :: string where
  "xml_declaration = ''<?xml version='' @ [CHR 0x22] @ ''1.0'' @ [CHR 0x22] @ ''?>''"

lemma declaration_read:
  assumes "nd_type (hd cur) \<noteq> node_declaration"
  shows "reaches endch (xml_declaration @ r) cur r cur"
proof -
  let ?t = "'' version='' @ [CHR 0x22] @ ''1.0'' @ [CHR 0x22] @ ''?>'' @ r"
  have "scan_while ct_symbol (''xml'' @ ?t) = Inr ?t"
    using scan_while_over [of ct_symbol "''xml''" "CHR '' ''" "tl ?t"] by (simp add: is_chartype_code)
  moreover have "is_declaration (passed (''xml'' @ ?t) ?t)"
    unfolding passed_append by (simp add: is_declaration_def lower_is_def)
  moreover have "scan_for [is_char (CHR ''?''), ends_with endch (CHR ''>'')] ?t = Inr (''?>'' @ r)"
    by (simp add: ends_with_def NUL_def)
  ultimately have "parse_question parse_default endch (CHR ''?'' # ''xml'' @ ?t) cur = parsed r cur"
    using default_options(4)
    by (simp add: parse_question_def at_char_def Let_def NUL_def is_chartype_code)
  with assms have "parse_tag parse_default endch (CHR ''?'' # ''xml'' @ ?t) cur = parsed r cur"
    using not_symbol(15) by (simp add: parse_tag_def at_char_def pbind_def parsed_def)
  from reaches_tag [OF this] show ?thesis by (simp add: xml_declaration_def)
qed

text \<open>The encoding of what is written is found to be UTF-8.\<close>

lemma encoding_found:
  assumes "contents = (if bom then [CHR 0xEF, CHR 0xBB, CHR 0xBF] else []) @ CHR ''<'' # c # r" and "c \<noteq> NUL"
  shows "get_buffer_encoding encoding_auto contents = encoding_utf8"
proof -
  have "code c \<noteq> 0" using assms(2) by (auto simp: NUL_def code_eq_iff [symmetric])
  then show ?thesis
    unfolding assms(1) get_buffer_encoding_def guess_buffer_encoding_def by simp
qed

lemma skip_bom:
  assumes "s = CHR ''<'' # r"
  shows "parse_skip_bom ((if bom then [CHR 0xEF, CHR 0xBB, CHR 0xBF] else []) @ s) = Inr s"
  using assms by (simp add: parse_skip_bom_def)

lemma xml_parse_read:
  assumes "reaches NUL s [document []] [NUL] [doc]" and "s = CHR ''<'' # r"
    and "has_element_node_siblings (nd_children doc)"
    and "buffer @ [NUL] = (if bom then [CHR 0xEF, CHR 0xBB, CHR 0xBF] else []) @ s"
  shows "xml_parse (buffer @ [NUL]) parse_default = Inr (\<lparr>pr_status = status_ok, pr_offset = 0\<rparr>, doc)"
proof -
  from assms(1) obtain n where n: "length [NUL] + n \<le> length s"
    "\<And>k. parse_tree (n + Suc k) parse_default NUL s [document []] = parse_tree (Suc k) parse_default NUL [NUL] [doc]"
    unfolding reaches_def by blast
  from n(1) have "n \<le> length s" by simp
  then obtain k where "length s = n + k" using le_Suc_ex by blast
  then have "Suc (length s) = n + Suc k" by simp
  then have "parse_tree (Suc (length s)) parse_default NUL s [document []] = parse_tree (Suc k) parse_default NUL [NUL] [doc]"
    using n(2) by simp
  also have "\<dots> = Inr (Parsed [NUL], [doc])"
    by (simp add: parse_tree.simps at_char_def parse_tree_end_def has_parent_def parsed_def)
  finally have tree: "parse_tree (Suc (length s)) parse_default NUL s [document []] = Inr (Parsed [NUL], [doc])" .
  have skip: "parse_skip_bom (buffer @ [NUL]) = Inr s"
    unfolding assms(4) using skip_bom [OF assms(2)] .
  have "NUL \<noteq> CHR ''<''" by (simp add: NUL_def)
  with skip tree assms(3) default_options(6) show ?thesis by (simp add: xml_parse_def Let_def)
qed

lemma load_read:
  assumes "reaches NUL (s @ [NUL]) [document []] [NUL] [doc]" and "s = CHR ''<'' # c # r" and "c \<noteq> NUL"
    and "has_element_node_siblings (nd_children doc)"
  shows "load_buffer ((if bom then [CHR 0xEF, CHR 0xBB, CHR 0xBF] else []) @ s) parse_default encoding_auto =
    Inr (\<lparr>pr_status = status_ok, pr_offset = 0\<rparr>, doc)"
proof -
  let ?text = "(if bom then [CHR 0xEF, CHR 0xBB, CHR 0xBF] else []) @ s"
  have "s @ [NUL] = CHR ''<'' # (c # r @ [NUL])" using assms(2) by simp
  from xml_parse_read [OF assms(1) this assms(4), of ?text bom]
  have "xml_parse (?text @ [NUL]) parse_default = Inr (\<lparr>pr_status = status_ok, pr_offset = 0\<rparr>, doc)" by simp
  moreover have "get_buffer_encoding encoding_auto ?text = encoding_utf8"
    using encoding_found [of ?text bom c r] assms(2,3) by simp
  ultimately show ?thesis by (simp add: load_buffer_def convert_buffer_def get_mutable_buffer_def)
qed

text \<open>The text of an element alone is read as a document of that element.\<close>

lemma load_element:
  assumes "nd_type e = node_element" and "plain_node e" and "raw_flags flags"
  shows "load_buffer (node_output indent flags depth e) parse_default encoding_auto =
    Inr (\<lparr>pr_status = status_ok, pr_offset = 0\<rparr>, document [e])"
proof -
  have "add_children [e] (document []) = document [e]" by (simp add: document_def add_children_def)
  with elements_read [OF assms(3), of "[e]" "[NUL]" NUL indent depth "document []"] assms(1,2)
  have read: "reaches NUL (node_output indent flags depth e @ [NUL]) [document []] [NUL] [document [e]]" by simp
  from output_front [OF assms(2) _ assms(3)] assms(1) obtain c q where
    "node_output indent flags depth e = CHR ''<'' # c # q" "c \<noteq> NUL" by fastforce
  from load_read [OF read this, of False] assms(1) show ?thesis
    by (simp add: document_def has_element_node_siblings_def)
qed

text \<open>What is written of a document, and what the parser makes of it.\<close>

lemma save_read:
  assumes "plain_document doc" and "raw_flags flags"
  obtains c r where "c \<noteq> NUL"
    and "xml_document_save indent flags doc =
      (if optset flags format_write_bom then [CHR 0xEF, CHR 0xBB, CHR 0xBF] else []) @ CHR ''<'' # c # r"
    and "xml_parse (xml_document_save indent flags doc @ [NUL]) parse_default =
      Inr (\<lparr>pr_status = status_ok, pr_offset = 0\<rparr>, doc)"
proof -
  from assms(1) obtain e es where doc: "doc = document (e # es)"
    "list_all (\<lambda>e. nd_type e = node_element \<and> plain_node e) (e # es)"
    unfolding plain_document_def by (metis list.exhaust)
  let ?bom = "if optset flags format_write_bom then [CHR 0xEF, CHR 0xBB, CHR 0xBF] else []"
  let ?decl = "if \<not> optset flags format_no_declaration then xml_declaration else []"
  let ?body = "concat (map (node_output indent flags 0) (e # es))"
  have no_decl: "\<not> has_declaration (e # es)" using doc(2) by simp
  have "node_output indent flags 0 doc = ?body"
    by (simp add: doc(1) document_def node_output.simps raw_no_indent [OF assms(2)] Let_def)
  then have save: "xml_document_save indent flags doc = ?bom @ ?decl @ ?body"
    using no_decl assms(2)
    by (simp add: xml_document_save_def doc(1) document_def xml_declaration_def line_end_def raw_flags_def)
  have "add_children (e # es) (document []) = doc" by (simp add: doc(1) document_def add_children_def)
  with elements_read [OF assms(2) doc(2), of "[NUL]" NUL indent 0 "document []"]
  have body: "reaches NUL (?body @ [NUL]) [document []] [NUL] [doc]" by simp
  have decl: "reaches NUL (?decl @ ?body @ [NUL]) [document []] (?body @ [NUL]) [document []]"
    using declaration_read [of "[document []]"] by (simp add: document_def reaches_refl)
  from reaches_trans [OF decl body] have read: "reaches NUL ((?decl @ ?body) @ [NUL]) [document []] [NUL] [doc]" by simp
  from doc(2) output_front [of e flags indent 0] assms(2) obtain c q where
    "node_output indent flags 0 e = CHR ''<'' # c # q" "c \<noteq> NUL" by auto
  then obtain d u where front: "?decl @ ?body = CHR ''<'' # d # u" "d \<noteq> NUL"
    by (cases "optset flags format_no_declaration") (auto simp: xml_declaration_def NUL_def)
  have "has_element_node_siblings (nd_children doc)" using doc by (simp add: document_def has_element_node_siblings_def)
  from xml_parse_read [OF read _ this, of "d # u @ [NUL]" "?bom @ ?decl @ ?body" "optset flags format_write_bom"] front(1)
  have "xml_parse (xml_document_save indent flags doc @ [NUL]) parse_default =
      Inr (\<lparr>pr_status = status_ok, pr_offset = 0\<rparr>, doc)"
    unfolding save by simp
  with front show thesis using that [of d u] unfolding save by simp
qed

text \<open>
  pugixml reads back what it writes: a document of elements, attributes, texts and
  sections that \<open>xml_document::save\<close> writes in raw mode, with or without a byte order mark and a
  declaration, \<open>xml_document::load_buffer\<close> reads with its default options as the same tree, with
  status ok.  In the tree no text is blank or has a carriage return, no two texts are side by side, no
  attribute has a tab, no section holds \<open>]]>\<close>, and nothing holds a zero.
\<close>

theorem pugixml_save_load:
  assumes "plain_document doc" and "raw_flags flags"
  shows "load_buffer (xml_document_save indent flags doc) parse_default encoding_auto =
    Inr (\<lparr>pr_status = status_ok, pr_offset = 0\<rparr>, doc)"
proof -
  obtain c r where "c \<noteq> NUL"
    and save: "xml_document_save indent flags doc =
      (if optset flags format_write_bom then [CHR 0xEF, CHR 0xBB, CHR 0xBF] else []) @ CHR ''<'' # c # r"
    and parse: "xml_parse (xml_document_save indent flags doc @ [NUL]) parse_default =
      Inr (\<lparr>pr_status = status_ok, pr_offset = 0\<rparr>, doc)"
    by (rule save_read [OF assms])
  from encoding_found [OF save \<open>c \<noteq> NUL\<close>] parse show ?thesis
    by (simp add: load_buffer_def convert_buffer_def get_mutable_buffer_def)
qed

definition sample_tree :: xml_node where
  "sample_tree = document [Xml_Node node_element (Some ''a'') None [(''x'', Some ''1 < 2'')]
     [Xml_Node node_pcdata None (Some ''R&D '') [] [],
      Xml_Node node_element (Some ''b'') None [] [],
      Xml_Node node_cdata None (Some ''<i>'') [] []]]"

lemma xml_name_letters: "list_all (\<lambda>c. is_chartype c ct_start_symbol) n \<Longrightarrow> n \<noteq> [] \<Longrightarrow> xml_name n"
  by (cases n) (auto simp: xml_name_def list_all_iff is_chartype_code)

theorem pugixml_save_load_witness:
  "xml_document_save [] format_raw sample_tree =
     ''<?xml version='' @ [CHR 0x22] @ ''1.0'' @ [CHR 0x22] @ ''?><a x='' @ [CHR 0x22] @ ''1 &lt; 2'' @ [CHR 0x22]
     @ ''>R&amp;D <b /><![CDATA[<i>]]></a>''
   \<and> load_buffer (xml_document_save [] format_raw sample_tree) parse_default encoding_auto =
     Inr (\<lparr>pr_status = status_ok, pr_offset = 0\<rparr>, sample_tree)"
proof -
  have raw: "raw_flags format_raw" by (simp add: raw_flags_def optset_def format_raw_def format_no_escapes_def)
  have names: "xml_name ''a''" "xml_name ''b''" "xml_name ''x''"
    by (rule xml_name_letters; simp add: is_chartype_code)+
  have "plain_document sample_tree"
    using names
    by (simp add: sample_tree_def plain_document_def document_def attribute_ok_def text_ok_def cdata_free_def NUL_def
        is_chartype_code sublist_Cons_right)
  from pugixml_save_load [OF this raw, of "[]"]
  have "load_buffer (xml_document_save [] format_raw sample_tree) parse_default encoding_auto =
     Inr (\<lparr>pr_status = status_ok, pr_offset = 0\<rparr>, sample_tree)" .
  moreover have "\<not> optset format_raw format_write_bom" "\<not> optset format_raw format_no_declaration"
    "\<not> optset format_raw format_no_escapes"
    by (simp_all add: optset_def format_raw_def format_write_bom_def format_no_declaration_def format_no_escapes_def)
  moreover have "node_output [] format_raw 0 sample_tree =
      ''<a x='' @ [CHR 0x22] @ ''1 &lt; 2'' @ [CHR 0x22] @ ''>R&amp;D <b /><![CDATA[<i>]]></a>''"
    using raw calculation(4)
    by (simp add: sample_tree_def document_def node_output.simps(1) [of _ _ _ node_document] Let_def raw_no_indent
        element_output pcdata_output section_output attribute_output_def text_output_escapes text_output_escaped_Cons
        is_chartypex_code special_text_def cdata_free_def sublist_Cons_right)
  ultimately show ?thesis
    using raw by (simp add: xml_document_save_def sample_tree_def document_def line_end_def raw_flags_def)
qed

end
