(* ===== verification/Pugi_Encodings.thy ===== *)
theory Pugi_Encodings
  imports Pugi_Output Pugi_Roundtrip
begin

text \<open>
  Documents in other encodings than UTF-8: \<open>xml_document::save\<close> writes whole characters only, and
  what it writes in UTF-16 or UTF-32, of either order of bytes, \<open>xml_document::load_buffer\<close> finds to be
  in that encoding and turns back into the text that was encoded, and so into the same tree.
\<close>

section \<open>The calls of saving\<close>

lemma utf8_text_Nil [simp]: "utf8_text []"
  unfolding utf8_text_iff by (intro exI [of _ "[]"]) simp

lemma utf8_text_append: "utf8_text u \<Longrightarrow> utf8_text v \<Longrightarrow> utf8_text (u @ v)"
proof -
  assume "utf8_text u" "utf8_text v"
  then obtain ms ns where "list_all scalar ms" "u = utf8 ms" "list_all scalar ns" "v = utf8 ns"
    unfolding utf8_text_iff by blast
  then show ?thesis unfolding utf8_text_iff by (intro exI [of _ "ms @ ns"]) simp
qed

definition ascii :: "char \<Rightarrow> bool" where
  "ascii c \<longleftrightarrow> code c < 128"

lemma utf8_text_ascii: "list_all ascii s \<Longrightarrow> utf8_text s"
proof (induction s)
  case (Cons c s)
  then have "code c < 128" "utf8_text s" by (simp_all add: ascii_def)
  then have "scalar (code c)" "utf8_of (code c) = [c]" by (simp_all add: scalar_def utf8_of_cases)
  then have "utf8_text [c]" unfolding utf8_text_iff by (intro exI [of _ "[code c]"]) simp
  from utf8_text_append [OF this \<open>utf8_text s\<close>] show ?case by simp
qed simp

lemma utf8_text_split:
  assumes "utf8_text (u @ c # v)" and "ascii c"
  shows "utf8_text u \<and> utf8_text v"
proof -
  from assms(1) obtain ns where ns: "list_all scalar ns" "utf8 ns = u @ c # v" unfolding utf8_text_iff by metis
  have split: "\<exists>ms ks. list_all scalar ms \<and> list_all scalar ks \<and> utf8 ms = take p (utf8 ns) \<and> utf8 ks = drop p (utf8 ns)"
    if le: "p \<le> length (utf8 ns)" and front: "p = length (utf8 ns) \<or> \<not> continues (utf8 ns ! p)" for p
  proof -
    obtain ms ks where mk: "ns = ms @ ks" "utf8 ms = take p (utf8 ns)" "utf8 ks = drop p (utf8 ns)"
      by (rule utf8_boundary [OF ns(1) le front])
    have "list_all scalar ms \<and> list_all scalar ks" using ns(1) unfolding mk(1) by simp
    with mk(2,3) show ?thesis by blast
  qed
  have "\<not> continues c" using assms(2) not_continues(1) [of "code c"] by (simp add: ascii_def)
  with split [of "length u"] ns(2) obtain ks where
    ks: "utf8_text u" "list_all scalar ks" "utf8 ks = c # v" unfolding utf8_text_iff by fastforce
  obtain n ms where n: "ks = n # ms" using ks(3) by (cases ks) auto
  then have "scalar n" using ks(2) by simp
  have "n < 0x80"
  proof (rule ccontr)
    assume "\<not> n < 0x80"
    then consider "0x80 \<le> n" "n < 0x800" | "0x800 \<le> n" "n < 0x10000" | "0x10000 \<le> n" "n < 0x110000"
      using \<open>scalar n\<close> unfolding scalar_def by linarith
    then have "0xC0 \<le> code c"
    proof cases
      case 1
      then have "n div 64 < 32" by auto
      with 1 ks(3) n show ?thesis by (auto simp: utf8_of_cases)
    next
      case 2
      then have "n div 4096 < 16" by auto
      with 2 ks(3) n show ?thesis by (auto simp: utf8_of_cases)
    next
      case 3
      then have "n div 262144 < 8" by auto
      with 3 ks(3) n show ?thesis by (auto simp: utf8_of_cases)
    qed
    with assms(2) show False by (simp add: ascii_def)
  qed
  then have "v = utf8 ms" using ks(3) n by (simp add: utf8_of_cases)
  then have "utf8_text v" unfolding utf8_text_iff using ks(2) n by auto
  with ks(1) show ?thesis by blast
qed

lemma ascii_literals: "list_all ascii s \<Longrightarrow> length s \<le> 6 \<Longrightarrow> op_ok (Write s)"
  by (simp add: utf8_text_ascii)

lemma special_ascii: "is_chartypex c ctx_special_pcdata \<or> is_chartypex c ctx_special_attr \<Longrightarrow> ascii c"
  by (auto simp: is_chartypex_code ascii_def)

lemma special_op_ok: "ascii c \<Longrightarrow> op_ok (Write (special_text c))"
proof -
  assume "ascii c"
  then have "code c div 10 < 80" "code c mod 10 < 80" by (simp_all add: ascii_def)
  then have "ascii (digit_char (code c div 10))" "ascii (digit_char (code c mod 10))"
    by (simp_all add: ascii_def digit_char_def)
  then show ?thesis
    by (intro ascii_literals) (simp_all add: special_text_def, simp_all add: ascii_def)
qed

lemma escaped_ops_ok:
  "ct = ctx_special_pcdata \<or> ct = ctx_special_attr \<Longrightarrow> utf8_text s \<Longrightarrow> list_all op_ok (escaped_ops ct s)"
proof (induction ct s rule: escaped_ops.induct)
  case (1 ct s)
  let ?p = "\<lambda>c. \<not> is_chartypex c ct"
  show ?case
  proof (cases "dropWhile ?p s")
    case Nil
    then have tw: "takeWhile ?p s = s" using takeWhile_dropWhile_id [of ?p s] by simp
    show ?thesis by (subst escaped_ops.simps) (simp add: Nil tw 1(3))
  next
    case (Cons c r)
    then have s: "s = takeWhile ?p s @ c # r" using takeWhile_dropWhile_id [of ?p s] by simp
    have "is_chartypex c ct" using Cons hd_dropWhile [of ?p s] by auto
    then have c: "ascii c" using 1(2) special_ascii by auto
    have "utf8_text (takeWhile ?p s) \<and> utf8_text r"
      by (rule utf8_text_split [OF _ c]) (use 1(3) s in metis)
    moreover have "s \<noteq> []" using Cons by auto
    ultimately show ?thesis
      using 1(1) [OF _ Cons 1(2)] Cons special_op_ok [OF c] by (subst escaped_ops.simps) simp
  qed
qed

lemma text_ops_ok:
  "ct = ctx_special_pcdata \<or> ct = ctx_special_attr \<Longrightarrow> utf8_text s \<Longrightarrow> list_all op_ok (text_ops ct flags s)"
  by (simp add: text_ops_def escaped_ops_ok)

lemma before_cdata_end_split: "before_cdata_end s = (b, r) \<Longrightarrow> s = b @ r"
  by (induction s arbitrary: b r rule: before_cdata_end.induct) (auto split: if_splits prod.splits)

lemma cdata_ops_ok: "utf8_text s \<Longrightarrow> list_all op_ok (cdata_ops s)"
proof (induction s rule: cdata_ops.induct)
  case (1 s)
  have lits: "op_ok (Write ''<![CD'')" "op_ok (Write ''ATA['')" "op_ok (Write '']]>'')"
    by (rule ascii_literals; simp add: ascii_def)+
  obtain b r where r: "before_cdata_end s = (b, r)" by (cases "before_cdata_end s")
  show ?case
  proof (cases r)
    case Nil
    then have "utf8_text b" using 1(2) before_cdata_end_split [OF r] by simp
    with Nil lits show ?thesis by (subst cdata_ops.simps) (simp add: r)
  next
    case (Cons c q)
    from before_cdata_end_front [OF r [unfolded Cons]] obtain q' where q: "c # q = CHR '']'' # CHR '']'' # q'"
      by (cases q) auto
    then have s: "s = b @ CHR '']'' # CHR '']'' # q'" using before_cdata_end_split [OF r] Cons by simp
    have a: "ascii (CHR '']'')" by (simp add: ascii_def)
    from utf8_text_split [OF 1(2) [unfolded s] a] have b: "utf8_text b" "utf8_text (CHR '']'' # q')" by simp_all
    from utf8_text_split [of "[]", OF _ a] b(2) have q': "utf8_text q'" by simp
    have "utf8_text (b @ '']]'')" using b(1) utf8_text_ascii [of "'']]''"] by (simp add: utf8_text_append ascii_def)
    moreover have "list_all op_ok (cdata_ops q')" using 1(1) [OF r [symmetric] Cons] q' q by simp
    ultimately show ?thesis using lits q by (subst cdata_ops.simps) (simp add: r Cons)
  qed
qed

lemma before_hyphen_split: "before_hyphen s = (b, r) \<Longrightarrow> s = b @ r \<and> (r \<noteq> [] \<longrightarrow> hd r = CHR ''-'')"
  by (induction s arbitrary: b r) (auto split: if_splits prod.splits)

lemma comment_ops_ok: "utf8_text s \<Longrightarrow> list_all op_ok (comment_ops s)"
proof (induction s rule: comment_ops.induct)
  case (1 s)
  obtain b r where r: "before_hyphen s = (b, r)" by (cases "before_hyphen s")
  show ?case
  proof (cases "s = []")
    case False
    show ?thesis
    proof (cases r)
      case Nil
      then have "utf8_text b" using 1(2) before_hyphen_split [OF r] by simp
      with Nil False show ?thesis by (subst comment_ops.simps) (simp add: r)
    next
      case (Cons c q)
      then have s: "s = b @ CHR ''-'' # q" using before_hyphen_split [OF r] by simp
      have a: "ascii (CHR ''-'')" by (simp add: ascii_def)
      from utf8_text_split [OF 1(2) [unfolded s] a] have b: "utf8_text b" "utf8_text q" by simp_all
      moreover have "op_ok (Write ''- '')" by (rule ascii_literals) (simp_all add: ascii_def)
      ultimately show ?thesis using 1(1) [OF False r [symmetric] Cons] False
        by (subst comment_ops.simps) (simp add: r Cons)
    qed
  qed (simp add: comment_ops.simps)
qed

text \<open>A tree all of whose strings are UTF-8.\<close>

definition utf8_option :: "string option \<Rightarrow> bool" where
  "utf8_option v \<longleftrightarrow> (case v of None \<Rightarrow> True | Some s \<Rightarrow> utf8_text s)"

primrec utf8_tree :: "xml_node \<Rightarrow> bool" where
  "utf8_tree (Xml_Node t name value attrs cs) \<longleftrightarrow>
     utf8_option name \<and> utf8_option value \<and> list_all (\<lambda>a. utf8_text (fst a) \<and> utf8_option (snd a)) attrs
     \<and> list_all id (map utf8_tree cs)"

definition utf8_plain :: "xml_node \<Rightarrow> bool" where
  "utf8_plain n \<longleftrightarrow> utf8_option (nd_name n) \<and> utf8_option (nd_value n)
     \<and> list_all (\<lambda>a. utf8_text (fst a) \<and> utf8_option (snd a)) (nd_attrs n)"

lemma utf8_tree_plain: "utf8_tree n \<Longrightarrow> utf8_plain n"
  by (cases n) (simp add: utf8_plain_def)

lemma utf8_name: "utf8_option v \<Longrightarrow> utf8_text (or_default default_name v)"
  by (cases v) (simp_all add: utf8_option_def or_default_def default_name_def utf8_text_ascii ascii_def)

lemma utf8_value: "utf8_option v \<Longrightarrow> utf8_text (or_default [] v)"
  by (cases v) (simp_all add: utf8_option_def or_default_def)

lemmas op_literals = utf8_text_ascii ascii_def

lemma attribute_ops_ok:
  "utf8_text (fst a) \<Longrightarrow> utf8_option (snd a) \<Longrightarrow> list_all op_ok (attribute_ops flags a)"
  by (cases "snd a") (simp_all add: attribute_ops_def utf8_option_def text_ops_ok op_literals)

lemma attributes_ok:
  "list_all (\<lambda>a. utf8_text (fst a) \<and> utf8_option (snd a)) as \<Longrightarrow> list_all op_ok (concat (map (attribute_ops flags) as))"
  by (induction as) (simp_all add: attribute_ops_ok)

lemma line_ops_ok: "list_all op_ok (line_ops flags)"
  by (simp add: line_ops_def op_literals)

lemma line_end_ok: "utf8_text (CHR ''>'' # line_end flags) \<and> length (line_end flags) \<le> 1"
  by (simp add: line_end_def op_literals)

lemma start_ops_ok:
  assumes "utf8_plain n" and "list_all utf8_plain (nd_children n)"
  shows "list_all op_ok (fst (start_ops flags n))"
proof -
  have "utf8_text (or_default default_name (nd_name n))" "list_all op_ok (concat (map (attribute_ops flags) (nd_attrs n)))"
    using assms(1) by (simp_all add: utf8_plain_def utf8_name attributes_ok)
  moreover have "utf8_text (or_default [] (nd_value f))" if "f \<in> set (nd_children n)" for f
    using assms(2) that by (auto simp: list_all_iff utf8_plain_def intro: utf8_value)
  ultimately show ?thesis
    by (cases "nd_children n") (auto simp: start_ops_def Let_def op_literals intro: text_ops_ok cdata_ops_ok)
qed

lemma end_ops_ok: "utf8_plain n \<Longrightarrow> list_all op_ok (end_ops flags n)"
  using line_end_ok [of flags] by (simp add: end_ops_def utf8_plain_def utf8_name op_literals)

lemma simple_ops_ok:
  assumes "utf8_plain n"
  shows "list_all op_ok (simple_ops flags n)"
proof -
  have "utf8_text (or_default default_name (nd_name n))" "list_all op_ok (concat (map (attribute_ops flags) (nd_attrs n)))"
    "utf8_text (or_default [] (nd_value n))"
    using assms by (simp_all add: utf8_plain_def utf8_name utf8_value attributes_ok)
  moreover have "list_all op_ok (case nd_value n of None \<Rightarrow> [] | Some v \<Rightarrow> [Write '' '', Write_string v])"
    using assms by (cases "nd_value n") (simp_all add: utf8_plain_def utf8_option_def op_literals)
  ultimately show ?thesis
    by (cases "nd_type n")
      (simp_all add: simple_ops_def Let_def line_ops_ok text_ops_ok cdata_ops_ok comment_ops_ok op_literals)
qed

lemma indent_ops_ok: "utf8_text indent \<Longrightarrow> list_all op_ok (indent_ops indent flags depth)"
  by (auto simp: indent_ops_def list_all_iff)

lemma node_ops_ok: "utf8_text indent \<Longrightarrow> utf8_tree n \<Longrightarrow> list_all op_ok (node_ops indent flags depth n)"
proof (induction n arbitrary: depth)
  case (Xml_Node t name v attrs cs)
  let ?n = "Xml_Node t name v attrs cs"
  have cs: "list_all utf8_plain cs" "\<And>c. c \<in> set cs \<Longrightarrow> utf8_tree c"
    using Xml_Node.prems(2) by (auto simp: list_all_iff utf8_tree_plain)
  have children: "list_all op_ok (concat (map (node_ops indent flags d) cs))" for d
    using Xml_Node.IH [OF _ Xml_Node.prems(1) cs(2)] by (auto simp: list_all_iff)
  have n: "utf8_plain ?n" using Xml_Node.prems(2) by (rule utf8_tree_plain)
  obtain start more' where s: "start_ops flags ?n = (start, more')" by (cases "start_ops flags ?n")
  with start_ops_ok [OF n] cs(1) have "list_all op_ok start" by (metis fst_conv xml_node.sel(5))
  with s children end_ops_ok [OF n] simple_ops_ok [OF n] indent_ops_ok [OF Xml_Node.prems(1)] show ?case
    by (cases "t = node_element") (simp_all add: Let_def)
qed

lemma save_ops_ok:
  assumes "utf8_text indent" and "utf8_tree doc"
  shows "list_all op_ok (save_ops indent flags encoding doc)"
proof -
  have "utf8_text [CHR 0xEF, CHR 0xBB, CHR 0xBF]"
    unfolding utf8_text_iff
    by (intro exI [of _ "[0xFEFF]"]) (simp add: scalar_def utf8_of_cases code_eq_iff [symmetric])
  then show ?thesis
    using node_ops_ok [OF assms] line_ops_ok by (simp add: save_ops_def op_literals)
qed

section \<open>Reading what was encoded\<close>

lemma code_char_of: "n < 256 \<Longrightarrow> code (char_of n) = n"
  by simp

lemma unat_of_nat_id: "of_nat (unat (w :: 'a::len word)) = w"
  by simp

lemma as_uint16_bytes: "as_uint16 (bytes16 ws) = ws"
proof (induction ws)
  case (Cons w ws)
  have "unat w < 65536" using unsigned_less [of w, where 'a = nat] by simp
  then have "unat w div 256 < 256" by auto
  then have "code (char_of (unat w mod 256)) + 256 * code (char_of (unat w div 256)) = unat w" by simp
  then have "(of_nat (code (char_of (unat w mod 256)) + 256 * code (char_of (unat w div 256))) :: 16 word) = w"
    by (simp only: unat_of_nat_id)
  with Cons show ?case by (simp add: bytes16_def del: of_nat_add)
qed (simp add: bytes16_def)

lemma as_uint32_bytes: "as_uint32 (bytes32 ws) = ws"
proof (induction ws)
  case (Cons w ws)
  let ?n = "unat w"
  have "?n < 4294967296" using unsigned_less [of w, where 'a = nat] by simp
  then have "?n div 16777216 < 256" by auto
  have "?n = 256 * (?n div 256) + ?n mod 256" "?n div 256 = 256 * (?n div 65536) + ?n div 256 mod 256"
    "?n div 65536 = 256 * (?n div 16777216) + ?n div 65536 mod 256"
    using div_mult2_eq [of ?n 256 256] div_mult2_eq [of ?n 65536 256] by simp_all
  then have "?n mod 256 + 256 * (?n div 256 mod 256) + 65536 * (?n div 65536 mod 256) + 16777216 * (?n div 16777216) = ?n"
    by linarith
  then have "code (char_of (?n mod 256)) + 256 * code (char_of (?n div 256 mod 256))
      + 65536 * code (char_of (?n div 65536 mod 256)) + 16777216 * code (char_of (?n div 16777216)) = ?n"
    using \<open>?n div 16777216 < 256\<close> by simp
  then have "(of_nat (code (char_of (?n mod 256)) + 256 * code (char_of (?n div 256 mod 256))
      + 65536 * code (char_of (?n div 65536 mod 256)) + 16777216 * code (char_of (?n div 16777216))) :: 32 word) = w"
    by (simp only: unat_of_nat_id)
  with Cons show ?case by (simp add: bytes32_def del: of_nat_add)
qed (simp add: bytes32_def)

lemma and_byte: "v AND 0xff = take_bit 8 (v :: 'a::len word)"
  by (simp add: take_bit_eq_mask mask_eq_exp_minus_1)

lemma and_shifted: "v AND push_bit k m = push_bit k (drop_bit k v AND m)" for v :: "'a::len word"
  by (rule bit_word_eqI) (auto simp: bit_simps)

lemma endian_swap16_bit: "n < 16 \<Longrightarrow> bit (endian_swap16 w) n \<longleftrightarrow> bit w (if n < 8 then n + 8 else n - 8)"
  unfolding endian_swap16_def and_byte
  by (auto simp: bit_simps add.commute dest: bit_imp_le_length)

lemma endian_swap16_twice: "endian_swap16 (endian_swap16 w) = w"
  by (rule bit_word_eqI) (auto simp: endian_swap16_bit)

lemma endian_swap32_bit:
  assumes "n < 32"
  shows "bit (endian_swap32 w) n \<longleftrightarrow>
    bit w (if n < 8 then n + 24 else if n < 16 then n + 8 else if n < 24 then n - 8 else n - 24)"
proof -
  have masks: "(0xff00 :: 32 word) = push_bit 8 0xff" "(0xff0000 :: 32 word) = push_bit 16 0xff" by simp_all
  have "bit (endian_swap32 w) n \<longleftrightarrow>
      24 \<le> n \<and> bit w (n - 24) \<or> 16 \<le> n \<and> n < 24 \<and> bit w (8 + (n - 16)) \<or> 8 \<le> n \<and> n < 16 \<and> bit w (16 + (n - 8))
      \<or> bit w (24 + n)"
    unfolding endian_swap32_def masks and_shifted and_byte using assms
    by (auto simp: bit_simps)
  moreover have "\<not> bit w (24 + n)" if "8 \<le> n" using that bit_imp_le_length [of w "24 + n"] by auto
  ultimately show ?thesis using assms by (auto simp: add.commute)
qed

lemma endian_swap32_twice: "endian_swap32 (endian_swap32 w) = w"
  by (rule bit_word_eqI) (auto simp: endian_swap32_bit)

lemma unat_small: "k < 65536 \<Longrightarrow> unat (of_nat k :: 32 word) = k"
  by (simp add: unsigned_of_nat take_bit_nat_eq_self)

lemma ucast_small: "k < 65536 \<Longrightarrow> (ucast (of_nat k :: 16 word) :: 32 word) = of_nat k"
  by (rule unsigned_word_eqI [where 'a = nat]) (simp add: unsigned_ucast_eq unsigned_of_nat take_bit_nat_eq_self)

lemma low_ten: "(of_nat k :: 32 word) AND 0x3ff = of_nat (k mod 1024)"
proof -
  have "(of_nat k :: 32 word) AND 0x3ff = take_bit 10 (of_nat k)" by (simp add: take_bit_eq_mask mask_eq_exp_minus_1)
  also have "\<dots> = of_nat (take_bit 10 k)" by (rule take_bit_of_nat)
  finally show ?thesis by (simp add: take_bit_eq_mod)
qed

lemma ucast_down: "(ucast (of_nat k :: 32 word) :: 16 word) = of_nat k"
  by (rule bit_word_eqI) (auto simp: bit_simps)

text \<open>The units that \<open>utf16_writer\<close> writes for a character.\<close>

lemma utf16_units:
  "n < 0x10000 \<Longrightarrow> put_code utf16_writer_low utf16_writer_high n [] = [of_nat n]"
  "0x10000 \<le> n \<Longrightarrow> n < 0x110000 \<Longrightarrow> put_code utf16_writer_low utf16_writer_high n [] =
     [of_nat (0xD800 + (n - 0x10000) div 1024), of_nat (0xDC00 + (n - 0x10000) mod 1024)]"
proof -
  show "n < 0x10000 \<Longrightarrow> put_code utf16_writer_low utf16_writer_high n [] = [of_nat n]"
    by (simp add: put_code_def utf16_writer_low_def ucast_down)
  assume n: "0x10000 \<le> n" "n < 0x110000"
  let ?m = "n - 0x10000"
  have diff: "(of_nat n :: 32 word) - 0x10000 = of_nat ?m" using n(1) by (simp add: of_nat_diff)
  have "drop_bit 10 ((of_nat n :: 32 word) - 0x10000) = of_nat (?m div 1024)"
    unfolding diff using drop_bit_of_nat32 [of ?m 10] n(2) by simp
  moreover have "((of_nat n :: 32 word) - 0x10000) AND 0x3ff = of_nat (?m mod 1024)"
    unfolding diff by (rule low_ten)
  ultimately show "put_code utf16_writer_low utf16_writer_high n [] =
     [of_nat (0xD800 + ?m div 1024), of_nat (0xDC00 + ?m mod 1024)]"
    using n(1) ucast_down [of "0xD800 + ?m div 1024"] ucast_down [of "0xDC00 + ?m mod 1024"]
    by (simp add: put_code_def utf16_writer_high_def Let_def)
qed

lemma decode_utf16_char:
  assumes "scalar n" and "\<And>w. swap (sw w) = w"
  shows "decode_utf16_block low high swap (map sw (put_code utf16_writer_low utf16_writer_high n []) @ rest) r =
    decode_utf16_block low high swap rest (put_code low high n r)"
proof -
  consider "n < 0xD800" | "0xE000 \<le> n" "n < 0x10000" | "0x10000 \<le> n" "n < 0x110000"
    using assms(1) unfolding scalar_def by linarith
  then show ?thesis
  proof cases
    case 1
    then have "ucast (of_nat n :: 16 word) = (of_nat n :: 32 word)" "(of_nat n :: 32 word) < 0xD800"
      by (simp_all add: ucast_small word_less_nat_alt unat_small)
    moreover have "n < 0x10000" using 1 by simp
    ultimately show ?thesis unfolding utf16_units(1) [OF \<open>n < 0x10000\<close>] by (simp add: assms(2) put_code_def)
  next
    case 2
    then have "ucast (of_nat n :: 16 word) = (of_nat n :: 32 word)" "\<not> (of_nat n :: 32 word) < 0xD800"
      "(of_nat n :: 32 word) - 0xE000 < 0x2000"
      by (simp_all add: ucast_small word_less_nat_alt unat_small unat_sub_if_size word_size)
    with 2 show ?thesis unfolding utf16_units(1) [OF 2(2)] by (simp add: assms(2) put_code_def)
  next
    case 3
    let ?a = "(n - 0x10000) div 1024" and ?b = "(n - 0x10000) mod 1024"
    have ab: "?a < 1024" "?b < 1024" using 3 by auto
    let ?l = "of_nat (0xD800 + ?a) :: 32 word" and ?k = "of_nat (0xDC00 + ?b) :: 32 word"
    have casts: "ucast (of_nat (0xD800 + ?a) :: 16 word) = ?l" "ucast (of_nat (0xDC00 + ?b) :: 16 word) = ?k"
      by (rule ucast_small, use ab in simp)+
    have u: "unat ?l = 0xD800 + ?a" "unat ?k = 0xDC00 + ?b" by (rule unat_small, use ab in simp)+
    have ranges: "\<not> ?l < 0xD800" "\<not> ?l - 0xE000 < 0x2000" "?l - 0xD800 < 0x400" "?k - 0xDC00 < 0x400"
      unfolding word_less_nat_alt unat_sub_if_size u using ab by (simp_all add: word_size)
    have "(0xD800 + ?a) mod 1024 = ?a" "(0xDC00 + ?b) mod 1024 = ?b"
      using mod_mult_self2 [of ?a 1024 54] mod_mult_self2 [of ?b 1024 55] ab by (simp_all add: add.commute)
    then have parts: "?l AND 0x3ff = of_nat ?a" "?k AND 0x3ff = of_nat ?b" unfolding low_ten by simp_all
    have "0x10000 + (2 ^ 10 * ?a + ?b) = n" using 3(1) by simp
    then have "0x10000 + (of_nat (2 ^ 10 * ?a) + of_nat ?b) = (of_nat n :: 32 word)" by (metis of_nat_add of_nat_numeral)
    then have "0x10000 + push_bit 10 (?l AND 0x3ff) + (?k AND 0x3ff) = of_nat n"
      unfolding parts push_bit_of_nat by (simp only: add.assoc)
    then show ?thesis
      using 3 ranges casts unfolding utf16_units(2) [OF 3]
      by (simp add: assms(2) put_code_def Let_def del: of_nat_add)
  qed
qed

lemma decode_utf16_text:
  assumes "list_all scalar ns" and "\<And>w. swap (sw w) = w"
  shows "decode_utf16_block low high swap (map sw (concat (map (\<lambda>n. put_code utf16_writer_low utf16_writer_high n []) ns))) r =
    fold (put_code low high) ns r"
  using assms(1) by (induction ns arbitrary: r) (simp_all add: decode_utf16_char [where swap = swap and sw = sw, OF _ assms(2)])

lemma decode_utf32_text:
  assumes "list_all scalar ns" and "\<And>w. swap (sw w) = w"
  shows "decode_utf32_block low high swap (map (\<lambda>n. sw (of_nat n)) ns) r = fold (put_code low high) ns r"
  using assms(1)
proof (induction ns arbitrary: r)
  case (Cons n ns)
  then have "n < 2 ^ 32" by (auto simp: scalar_def)
  then have "(of_nat n :: 32 word) < 0x10000 \<longleftrightarrow> n < 0x10000"
    by (simp add: word_less_nat_alt unsigned_of_nat take_bit_nat_eq_self)
  with Cons show ?case by (simp add: assms(2) put_code_def)
qed simp

lemma utf8_writers: "list_all scalar ns \<Longrightarrow> fold (put_code utf8_writer_low utf8_writer_high) ns r = r @ utf8 ns"
proof (induction ns arbitrary: r)
  case (Cons n ns)
  then have "n < 2 ^ 32" by (auto simp: scalar_def)
  then have "(of_nat n :: 32 word) < 0x10000 \<longleftrightarrow> n < 0x10000"
    by (simp add: word_less_nat_alt unsigned_of_nat take_bit_nat_eq_self)
  then have "put_code utf8_writer_low utf8_writer_high n r = r @ utf8_of n"
    by (simp add: put_code_def utf8_of_def utf8_writer_any_def utf8_writer_low_def utf8_writer_high_def)
  with Cons show ?case by simp
qed simp

definition unicode :: "xml_encoding \<Rightarrow> bool" where
  "unicode e \<longleftrightarrow> e \<in> {encoding_utf8, encoding_utf16_le, encoding_utf16_be, encoding_utf32_le, encoding_utf32_be}"

lemma encode_units:
  "encode encoding_utf16_le ns = bytes16 (concat (map (\<lambda>n. put_code utf16_writer_low utf16_writer_high n []) ns))"
  "encode encoding_utf16_be ns = bytes16 (map endian_swap16 (concat (map (\<lambda>n. put_code utf16_writer_low utf16_writer_high n []) ns)))"
  "encode encoding_utf32_le ns = bytes32 (map (\<lambda>n. of_nat n) ns)"
  "encode encoding_utf32_be ns = bytes32 (map (\<lambda>n. endian_swap32 (of_nat n)) ns)"
proof -
  show "encode encoding_utf16_le ns = bytes16 (concat (map (\<lambda>n. put_code utf16_writer_low utf16_writer_high n []) ns))"
    by (induction ns) (simp_all add: encode_char_def)
  show "encode encoding_utf16_be ns = bytes16 (map endian_swap16 (concat (map (\<lambda>n. put_code utf16_writer_low utf16_writer_high n []) ns)))"
    by (induction ns) (simp_all add: encode_char_def)
  show "encode encoding_utf32_le ns = bytes32 (map (\<lambda>n. of_nat n) ns)"
    by (induction ns) (simp_all add: encode_char_def bytes32_def)
  show "encode encoding_utf32_be ns = bytes32 (map (\<lambda>n. endian_swap32 (of_nat n)) ns)"
    by (induction ns) (simp_all add: encode_char_def bytes32_def)
qed

lemma convert_buffer_encoded:
  assumes "list_all scalar ns" and "unicode e"
  shows "convert_buffer e (encode e ns) False = Inr (utf8 ns @ [NUL])"
proof -
  note u16 = decode_utf16_text [OF assms(1), where swap = "\<lambda>w. w" and sw = "\<lambda>w. w", OF refl, unfolded list.map_ident]
    decode_utf16_text [OF assms(1), where swap = endian_swap16 and sw = endian_swap16, OF endian_swap16_twice]
  note u32 = decode_utf32_text [OF assms(1), where swap = "\<lambda>w. w" and sw = "\<lambda>w. w", OF refl]
    decode_utf32_text [OF assms(1), where swap = endian_swap32 and sw = endian_swap32, OF endian_swap32_twice]
  show ?thesis
    using assms utf16_counts [of _ _ "[]"] utf32_counts [of _ _ "[]"]
    by (auto simp: unicode_def convert_buffer_def convert_buffer_utf16_def convert_buffer_utf32_def get_mutable_buffer_def
        encode_units as_uint16_bytes as_uint32_bytes u16 u32 utf8_writers filled_buffer_def Let_def)
qed

section \<open>Saving and loading in any encoding\<close>

lemma utf8_of_zero: "utf8_of 0 = [NUL]"
  by (simp add: utf8_of_cases NUL_def) (simp add: code_eq_iff [symmetric])

text \<open>The encoding is found from the first bytes: a byte order mark or a \<open><\<close> that no zero follows.\<close>

lemma encoding_detected:
  assumes "unicode e" and "m \<noteq> 0" and "scalar m" and "us = [] \<or> us = [0xFEFF]"
  shows "get_buffer_encoding encoding_auto (encode e (us @ 60 # m # ks)) = e"
proof -
  let ?u = "encode e (us @ 60 # m # ks)"
  have chars: "encode_char encoding_utf16_le 60 = [CHR ''<'', NUL]" "encode_char encoding_utf16_be 60 = [NUL, CHR ''<'']"
    "encode_char encoding_utf32_le 60 = [CHR ''<'', NUL, NUL, NUL]" "encode_char encoding_utf32_be 60 = [NUL, NUL, NUL, CHR ''<'']"
    "encode_char encoding_utf8 60 = ''<''"
    "encode_char encoding_utf16_le 0xFEFF = [CHR 0xFF, CHR 0xFE]" "encode_char encoding_utf16_be 0xFEFF = [CHR 0xFE, CHR 0xFF]"
    "encode_char encoding_utf32_le 0xFEFF = [CHR 0xFF, CHR 0xFE, NUL, NUL]"
    "encode_char encoding_utf32_be 0xFEFF = [NUL, NUL, CHR 0xFE, CHR 0xFF]"
    "encode_char encoding_utf8 0xFEFF = [CHR 0xEF, CHR 0xBB, CHR 0xBF]"
    by (simp_all add: encode_char_def put_code_def utf16_writer_low_def bytes16_def bytes32_def endian_swap16_def
        endian_swap32_def utf8_of_cases NUL_def code_eq_iff [symmetric])
  obtain c cs where c: "utf8_of m = c # cs" by (rule utf8_of_shape [OF assms(3)])
  have "c \<noteq> NUL"
  proof
    assume "c = NUL"
    with c have m: "utf8 [m] = [] @ NUL # cs" by simp
    have "utf8_text (utf8 [m])" unfolding utf8_text_iff using assms(3) by (intro exI [of _ "[m]"]) simp
    from utf8_text_split [OF this [unfolded m]] have "utf8_text cs" by (simp add: ascii_def NUL_def)
    then obtain ns where "list_all scalar ns" "utf8 [m] = utf8 (0 # ns)"
      using m unfolding utf8_text_iff by (auto simp: utf8_of_zero)
    then have "[m] = 0 # ns" using assms(3) by (intro utf8_inj) (simp_all add: scalar_def)
    with assms(2) show False by simp
  qed
  obtain a b as where le: "encode_char encoding_utf16_le m = a # b # as" "code a \<noteq> 0 \<or> code b \<noteq> 0"
  proof (cases "m < 0x10000")
    case True
    then have "encode_char encoding_utf16_le m = [char_of (m mod 256), char_of (m div 256)]"
      by (simp add: encode_char_def utf16_units bytes16_def unsigned_of_nat take_bit_nat_eq_self)
    with True assms(2) show thesis by (intro that) auto
  next
    case False
    let ?k = "0xD800 + (m - 0x10000) div 1024"
    have m: "0x10000 \<le> m" "m < 0x110000" using False assms(3) by (auto simp: scalar_def)
    then have "?k < 0xDC00" by auto
    then have "unat (of_nat ?k :: 16 word) = ?k" by (simp add: unsigned_of_nat take_bit_nat_eq_self del: of_nat_add)
    then have e: "encode_char encoding_utf16_le m = char_of (?k mod 256) # char_of (?k div 256)
        # bytes16 [of_nat (0xDC00 + (m - 0x10000) mod 1024)]"
      by (simp add: encode_char_def utf16_units(2) [OF m] bytes16_def del: of_nat_add)
    have "?k div 256 < 256" "?k div 256 \<noteq> 0" using \<open>?k < 0xDC00\<close> by auto
    then have "code (char_of (?k div 256)) \<noteq> 0" using code_char_of [of "?k div 256"] by presburger
    then show thesis by (rule that [OF e disjI2])
  qed
  have be: "\<exists>a b as. encode_char encoding_utf16_be m = a # b # as"
    using assms(3) by (cases "m < 0x10000") (simp_all add: encode_char_def utf16_units bytes16_def scalar_def)
  show ?thesis
    using assms(1) unfolding unicode_def
  proof (elim insertE emptyE)
    assume e: "e = encoding_utf8"
    show ?thesis
      unfolding e
      by (rule encoding_found [where bom = "us \<noteq> []" and c = c and r = "cs @ utf8 ks"])
        (use assms(4) c chars \<open>c \<noteq> NUL\<close> in \<open>auto simp: encode_char_def\<close>)
  next
    assume e: "e = encoding_utf16_le"
    from assms(4) le(2) show ?thesis
      unfolding e by (elim disjE) (simp_all add: chars le(1) get_buffer_encoding_def guess_buffer_encoding_def NUL_def)
  next
    assume e: "e = encoding_utf16_be"
    from be obtain x y xs where "encode_char encoding_utf16_be m = x # y # xs" by blast
    with assms(4) show ?thesis
      unfolding e by (elim disjE) (simp_all add: chars get_buffer_encoding_def guess_buffer_encoding_def NUL_def)
  next
    assume e: "e = encoding_utf32_le"
    from assms(4) show ?thesis
      unfolding e by (elim disjE) (simp_all add: chars get_buffer_encoding_def guess_buffer_encoding_def NUL_def)
  next
    assume e: "e = encoding_utf32_be"
    from assms(4) show ?thesis
      unfolding e by (elim disjE) (simp_all add: chars get_buffer_encoding_def guess_buffer_encoding_def NUL_def)
  qed
qed

lemma unicode_output: "encoding \<noteq> encoding_latin1 \<Longrightarrow> unicode (get_write_encoding encoding)"
  by (cases encoding) (simp_all add: unicode_def get_write_encoding_def get_wchar_encoding_def)

lemma utf8_front:
  assumes "list_all scalar ns" and "utf8 ns = u @ CHR ''<'' # c # r" and "c \<noteq> NUL" and "u = [] \<or> u = utf8 [0xFEFF]"
  obtains us m ks where "ns = us @ 60 # m # ks" "us = [] \<or> us = [0xFEFF]" "m \<noteq> 0" "scalar m"
proof -
  have "utf8_text (u @ CHR ''<'' # c # r)" unfolding utf8_text_iff using assms(1) assms(2) [symmetric] by blast
  from utf8_text_split [OF this] have "utf8_text (c # r)" by (simp add: ascii_def)
  then obtain js where js: "list_all scalar js" "utf8 js = c # r" unfolding utf8_text_iff by metis
  from assms(4) obtain us where us: "us = [] \<or> us = [0xFEFF]" "utf8 us = u" by fastforce
  have "utf8 [60] = ''<''" by (simp add: utf8_of_cases code_eq_iff [symmetric])
  then have "utf8 (us @ 60 # js) = utf8 ns" using us(2) js(2) assms(2) by simp
  moreover have "list_all scalar (us @ 60 # js)" using us(1) js(1) by (auto simp: scalar_def)
  ultimately have ns: "ns = us @ 60 # js" using assms(1) utf8_inj by metis
  obtain m ks where m: "js = m # ks" using js(2) by (cases js) auto
  have "m \<noteq> 0"
  proof
    assume "m = 0"
    with m js(2) have "c = NUL" by (simp add: utf8_of_zero)
    with assms(3) show False by simp
  qed
  with ns m us(1) js(1) that show thesis by simp
qed

text \<open>
  Claim C27.  A plain document that \<open>xml_document::save\<close> writes in raw mode with escapes, in any of the
  encodings but Latin-1, through the buffered writer with its conversions, \<open>xml_document::load_buffer\<close>
  reads back with its default options as the same tree, finding the encoding by itself.  Plain means: one
  or more elements at the top, and in them elements, texts and CDATA sections only, no comments,
  declarations, document types or processing instructions, which the default options skip; element and
  attribute names as XML has them; no two texts side by side, none empty or of white space only; no
  carriage return in a text or section and no tab in the value of an attribute, which the writer does
  not escape and the reader turns into other characters; no \<open>]]>\<close> in a section.  Apart from these, and
  from zero, any characters of Unicode may be in the names, texts and values.
\<close>

theorem pugixml_save_load_encoded:
  assumes "plain_document doc" and "utf8_tree doc" and "raw_flags flags" and "utf8_text indent"
    and "encoding \<noteq> encoding_latin1"
  shows "\<exists>chunks. save_output indent flags encoding doc = Inr chunks
    \<and> load_buffer (concat chunks) parse_default encoding_auto = Inr (\<lparr>pr_status = status_ok, pr_offset = 0\<rparr>, doc)"
proof -
  let ?e = "get_write_encoding encoding"
  let ?bom = "if optset flags format_write_bom then [CHR 0xEF, CHR 0xBB, CHR 0xBF] else []"
  obtain c r where "c \<noteq> NUL" and save: "xml_document_save indent flags doc = ?bom @ CHR ''<'' # c # r"
    and parse: "xml_parse (xml_document_save indent flags doc @ [NUL]) parse_default =
      Inr (\<lparr>pr_status = status_ok, pr_offset = 0\<rparr>, doc)"
    by (rule save_read [OF assms(1,3)])
  obtain ns chunks where ns: "list_all scalar ns" "utf8 ns = xml_document_save indent flags doc"
    and out: "save_output indent flags encoding doc = Inr chunks" "concat chunks = encode ?e ns"
    using buffered_output_text [OF save_ops_ok [OF assms(4,2)], of flags encoding encoding]
    by (auto simp: save_output_def save_ops_text [OF assms(5)])
  have "utf8 [0xFEFF] = [CHR 0xEF, CHR 0xBB, CHR 0xBF]" by (simp add: utf8_of_cases code_eq_iff [symmetric])
  then have bom: "?bom = [] \<or> ?bom = utf8 [0xFEFF]" by simp
  have front: "utf8 ns = ?bom @ CHR ''<'' # c # r" unfolding ns(2) by (rule save)
  obtain us m ks where "ns = us @ 60 # m # ks" "us = [] \<or> us = [0xFEFF]" "m \<noteq> 0" "scalar m"
    by (rule utf8_front [OF ns(1) front \<open>c \<noteq> NUL\<close> bom])
  then have "get_buffer_encoding encoding_auto (concat chunks) = ?e"
    using encoding_detected [OF unicode_output [OF assms(5)]] out(2) by simp
  with convert_buffer_encoded [OF ns(1) unicode_output [OF assms(5)]] out ns(2) parse show ?thesis
    by (simp add: load_buffer_def)
qed

theorem pugixml_save_load_encoded_witness:
  "\<exists>chunks. save_output [] format_raw encoding_utf16_be (document [Xml_Node node_element (Some ''a'') None []
       [Xml_Node node_pcdata None (Some [CHR 0xC3, CHR 0xA9]) [] []]]) = Inr chunks
    \<and> load_buffer (concat chunks) parse_default encoding_auto =
      Inr (\<lparr>pr_status = status_ok, pr_offset = 0\<rparr>, document [Xml_Node node_element (Some ''a'') None []
       [Xml_Node node_pcdata None (Some [CHR 0xC3, CHR 0xA9]) [] []]])"
proof (rule pugixml_save_load_encoded)
  have "utf8 [0xE9] = [CHR 0xC3, CHR 0xA9]" by (simp add: utf8_of_cases code_eq_iff [symmetric])
  then have "utf8_text [CHR 0xC3, CHR 0xA9]"
    unfolding utf8_text_iff by (intro exI [of _ "[0xE9]"]) (simp add: scalar_def)
  then show "utf8_tree (document [Xml_Node node_element (Some ''a'') None [] [Xml_Node node_pcdata None (Some [CHR 0xC3, CHR 0xA9]) [] []]])"
    by (simp add: document_def utf8_option_def op_literals)
  have "xml_name ''a''" by (rule xml_name_letters) (simp_all add: is_chartype_code)
  then show "plain_document (document [Xml_Node node_element (Some ''a'') None [] [Xml_Node node_pcdata None (Some [CHR 0xC3, CHR 0xA9]) [] []]])"
    by (simp add: plain_document_def document_def text_ok_def NUL_def is_chartype_code)
  show "raw_flags format_raw" by (simp add: raw_flags_def optset_def format_raw_def format_no_escapes_def)
qed simp_all

end
