(* ===== verification/Pugi_Lexer.thy ===== *)
theory Pugi_Lexer
  imports Pugi_Writer
begin

text \<open>
  The lexer of pugixml's XPath, \<open>xpath_lexer\<close> in \<open>pugixml/src/pugixml.cpp\<close>.

  The query is a zero-terminated text; a position in it is the rest of the text from there on, the
  zero included, and reading past the zero is undefined.  The contents of a lexeme, two pointers into
  the query, are the text between them.
\<close>

section \<open>The lexer\<close>

datatype lexeme =
    lex_none | lex_equal | lex_not_equal | lex_less | lex_greater | lex_less_or_equal | lex_greater_or_equal
  | lex_plus | lex_minus | lex_multiply | lex_union | lex_var_ref | lex_open_brace | lex_close_brace
  | lex_quoted_string | lex_number | lex_slash | lex_double_slash | lex_open_square_brace
  | lex_close_square_brace | lex_string | lex_comma | lex_axis_attribute | lex_dot | lex_double_dot
  | lex_double_colon | lex_eof

record xpath_lexer =
  lx_cur :: string
  lx_lexeme_pos :: string
  lx_contents :: string
  lx_lexeme :: lexeme

definition ctx_start_symbol :: nat where "ctx_start_symbol = 4"
definition ctx_digit :: nat where "ctx_digit = 8"
definition ctx_symbol :: nat where "ctx_symbol = 16"

definition scan_whilex :: "nat \<Rightarrow> string \<Rightarrow> string res" where
  "scan_whilex ct s =
     (let r = dropWhile (\<lambda>c. is_chartypex c ct) s in if r = [] then Inl past_the_end else Inr r)"

text \<open>A lexeme found: its contents, where it has any, and the position behind it.\<close>

type_synonym found = "lexeme \<times> string option \<times> string"

definition lex_either :: "char \<Rightarrow> lexeme \<Rightarrow> found \<Rightarrow> string \<Rightarrow> found res" where
  "lex_either d two one r = at_char r (\<lambda>e r'. Inr (if e = d then (two, None, r') else one))"

text \<open>A name, perhaps with a prefix: the cases of \<open>$\<close> and of a start symbol.\<close>

definition lex_variable :: "string \<Rightarrow> found res" where
  "lex_variable r = at_char r (\<lambda>c r'.
     if \<not> is_chartypex c ctx_start_symbol then Inr (lex_none, None, r)
     else rbind (scan_whilex ctx_symbol r) (\<lambda>t.
       rbind (look t [is_char (CHR '':''), \<lambda>d. is_chartypex d ctx_symbol]) (\<lambda>qname.
         rbind (if qname then scan_whilex ctx_symbol (tl t) else Inr t) (\<lambda>u.
           Inr (lex_var_ref, Some (passed r u), u)))))"

definition lex_name :: "string \<Rightarrow> found res" where
  "lex_name s =
     rbind (scan_whilex ctx_symbol s) (\<lambda>t.
     rbind (look t [is_char (CHR '':''), is_char (CHR ''*'')]) (\<lambda>all.
     rbind (look t [is_char (CHR '':''), \<lambda>d. is_chartypex d ctx_symbol]) (\<lambda>qname.
     rbind (if all then Inr (drop 2 t) else if qname then scan_whilex ctx_symbol (tl t) else Inr t) (\<lambda>u.
       Inr (lex_string, Some (passed s u), u)))))"

definition lex_digits :: "string \<Rightarrow> found res" where
  "lex_digits s =
     rbind (scan_whilex ctx_digit s) (\<lambda>t. at_char t (\<lambda>c t'.
     rbind (if c = CHR ''.'' then scan_whilex ctx_digit t' else Inr t) (\<lambda>u.
       Inr (lex_number, Some (passed s u), u))))"

definition lex_dots :: "string \<Rightarrow> string \<Rightarrow> found res" where
  "lex_dots s r = at_char r (\<lambda>d r'.
     if d = CHR ''.'' then Inr (lex_double_dot, None, r')
     else if is_chartypex d ctx_digit then
       rbind (scan_whilex ctx_digit r) (\<lambda>u. Inr (lex_number, Some (passed s u), u))
     else Inr (lex_dot, None, r))"

definition lex_quoted :: "char \<Rightarrow> string \<Rightarrow> found res" where
  "lex_quoted terminator r =
     rbind (scan_for [is_char terminator] r) (\<lambda>t. at_char t (\<lambda>c t'.
       Inr (if c = NUL then (lex_none, Some (passed r t), t) else (lex_quoted_string, Some (passed r t), t'))))"

definition lex_other :: "string \<Rightarrow> char \<Rightarrow> found res" where
  "lex_other s c =
     (if is_chartypex c ctx_digit then lex_digits s
      else if is_chartypex c ctx_start_symbol then lex_name s
      else Inr (lex_none, None, s))"

definition lex_at :: "string \<Rightarrow> char \<Rightarrow> string \<Rightarrow> found res" where
  "lex_at s c r =
     (if c = NUL then Inr (lex_eof, None, s)
      else if c = CHR ''>'' then lex_either (CHR ''='') lex_greater_or_equal (lex_greater, None, r) r
      else if c = CHR ''<'' then lex_either (CHR ''='') lex_less_or_equal (lex_less, None, r) r
      else if c = CHR ''!'' then lex_either (CHR ''='') lex_not_equal (lex_none, None, s) r
      else if c = CHR ''='' then Inr (lex_equal, None, r)
      else if c = CHR ''+'' then Inr (lex_plus, None, r)
      else if c = CHR ''-'' then Inr (lex_minus, None, r)
      else if c = CHR ''*'' then Inr (lex_multiply, None, r)
      else if c = CHR ''|'' then Inr (lex_union, None, r)
      else if c = CHR ''$'' then lex_variable r
      else if c = CHR ''('' then Inr (lex_open_brace, None, r)
      else if c = CHR '')'' then Inr (lex_close_brace, None, r)
      else if c = CHR ''['' then Inr (lex_open_square_brace, None, r)
      else if c = CHR '']'' then Inr (lex_close_square_brace, None, r)
      else if c = CHR '','' then Inr (lex_comma, None, r)
      else if c = CHR ''/'' then lex_either (CHR ''/'') lex_double_slash (lex_slash, None, r) r
      else if c = CHR ''.'' then lex_dots s r
      else if c = CHR ''@'' then Inr (lex_axis_attribute, None, r)
      else if c = CHR 0x22 \<or> c = CHR 0x27 then lex_quoted c r
      else if c = CHR '':'' then lex_either (CHR '':'') lex_double_colon (lex_none, None, s) r
      else lex_other s c)"

definition lexer_next :: "xpath_lexer \<Rightarrow> xpath_lexer res" where
  "lexer_next l =
     rbind (scan_while ct_space (lx_cur l)) (\<lambda>s. at_char s (\<lambda>c r.
     rbind (lex_at s c r) (\<lambda>(x, w, t).
       Inr (l\<lparr>lx_cur := t, lx_lexeme_pos := s, lx_lexeme := x,
              lx_contents := (case w of None \<Rightarrow> lx_contents l | Some v \<Rightarrow> v)\<rparr>))))"

definition xpath_lexer_init :: "string \<Rightarrow> xpath_lexer res" where
  "xpath_lexer_init query =
     lexer_next \<lparr>lx_cur = query, lx_lexeme_pos = [], lx_contents = [], lx_lexeme = lex_none\<rparr>"

section \<open>Safety\<close>

text \<open>A position in the query, before or at the zero behind it.\<close>

definition in_query :: "string \<Rightarrow> string \<Rightarrow> bool" where
  "in_query q s \<longleftrightarrow> suffix s q \<and> NUL \<in> set s"

lemma in_query_tl: "in_query q (c # s) \<Longrightarrow> c \<noteq> NUL \<Longrightarrow> in_query q s"
  unfolding in_query_def using suffix_ConsD by fastforce

lemma in_query_cases:
  assumes "in_query q s"
  obtains c r where "s = c # r"
  using assms by (cases s) (auto simp: in_query_def)

lemma in_query_dropWhile:
  assumes "in_query q s" and "\<not> p NUL"
  shows "in_query q (dropWhile p s)" and "dropWhile p s \<noteq> []"
proof -
  have "NUL \<in> set (dropWhile p s)"
    using assms by (metis in_query_def set_takeWhileD takeWhile_dropWhile_id UnE set_append)
  moreover have "suffix (dropWhile p s) s" by (rule suffix_dropWhile)
  ultimately show "in_query q (dropWhile p s)" "dropWhile p s \<noteq> []"
    using assms suffix_order.trans [of "dropWhile p s" s q] by (auto simp: in_query_def)
qed

lemma NUL_typesx: "\<not> is_chartypex NUL ctx_symbol" "\<not> is_chartypex NUL ctx_digit" "\<not> is_chartypex NUL ctx_start_symbol"
  by (simp_all add: is_chartypex_def NUL_def chartypex_table_def ctx_symbol_def ctx_digit_def ctx_start_symbol_def)

lemma scan_while_query:
  assumes "in_query q s"
  shows "\<exists>t. scan_while ct_space s = Inr t \<and> in_query q t \<and> length t \<le> length s"
  using in_query_dropWhile [OF assms, of "\<lambda>c. is_chartype c ct_space"] length_dropWhile_le
    NUL_types by (auto simp: scan_while_def Let_def)

lemma scan_whilex_query:
  assumes "in_query q s" and "ct \<in> {ctx_symbol, ctx_digit}"
  shows "\<exists>t. scan_whilex ct s = Inr t \<and> in_query q t \<and> length t \<le> length s"
  using in_query_dropWhile [OF assms(1), of "\<lambda>c. is_chartypex c ct"] assms(2) length_dropWhile_le
    NUL_typesx by (auto simp: scan_whilex_def Let_def)

definition no_lexeme :: "lexeme \<Rightarrow> bool" where
  "no_lexeme x \<longleftrightarrow> x = lex_none \<or> x = lex_eof"

definition lexed :: "string \<Rightarrow> string \<Rightarrow> found res \<Rightarrow> bool" where
  "lexed q s m \<longleftrightarrow> (\<exists>x w t. m = Inr (x, w, t) \<and> in_query q t \<and> length t \<le> length s
                           \<and> (no_lexeme x \<or> length t < length s))"

lemma lexedI:
  "in_query q t \<Longrightarrow> length t \<le> length s \<Longrightarrow> no_lexeme x \<or> length t < length s \<Longrightarrow> lexed q s (Inr (x, w, t))"
  by (auto simp: lexed_def)

lemma look_query: "in_query q t \<Longrightarrow> \<not> p NUL \<Longrightarrow> \<exists>b. look t [p, r] = Inr b"
  by (rule look_ok) (auto simp: in_query_def)

lemma look_taken: "in_query q t \<Longrightarrow> look t [is_char (CHR '':''), p] = Inr True \<Longrightarrow> \<exists>d u. t = CHR '':'' # d # u \<and> p d"
  by (cases t; cases "tl t") (auto split: if_splits simp: past_the_end_def)

lemma colon_query:
  assumes "in_query q (CHR '':'' # d # u)"
  shows "in_query q (d # u)" and "d \<noteq> NUL \<Longrightarrow> in_query q u"
  using in_query_tl [OF assms] in_query_tl [of q d u] by (auto simp: NUL_def)

lemma lex_either_lexed:
  assumes "in_query q (c # r)" and "c \<noteq> NUL" and "d \<noteq> NUL" and "lexed q (c # r) (Inr one)"
  shows "lexed q (c # r) (lex_either d two one r)"
proof -
  have r: "in_query q r" by (rule in_query_tl [OF assms(1,2)])
  then obtain e r' where e: "r = e # r'" by (rule in_query_cases)
  then show ?thesis
    using assms(3,4) in_query_tl [of q e r'] r by (auto simp: lex_either_def at_char_def intro!: lexedI)
qed

lemma qname_query:
  assumes "in_query q t" and "qname \<Longrightarrow> \<exists>d u. t = CHR '':'' # d # u"
  shows "\<exists>u. (if qname then scan_whilex ctx_symbol (tl t) else Inr t) = Inr u \<and> in_query q u \<and> length u \<le> length t"
proof (cases qname)
  case True
  then obtain d v where t: "t = CHR '':'' # d # v" using assms(2) by blast
  then have "in_query q (d # v)" using colon_query assms(1) by blast
  from scan_whilex_query [OF this, of ctx_symbol] show ?thesis using True t by auto
qed (use assms in auto)

lemma lex_variable_lexed:
  assumes "in_query q (c # r)" and "c \<noteq> NUL"
  shows "lexed q (c # r) (lex_variable r)"
proof -
  have r: "in_query q r" by (rule in_query_tl [OF assms])
  then obtain e r' where e: "r = e # r'" by (rule in_query_cases)
  obtain t where t: "scan_whilex ctx_symbol r = Inr t" "in_query q t" "length t \<le> length r"
    using scan_whilex_query [OF r, of ctx_symbol] by auto
  obtain b where b: "look t [is_char (CHR '':''), \<lambda>d. is_chartypex d ctx_symbol] = Inr b"
    using look_query [OF t(2), of "is_char (CHR '':'')"] by (auto simp: NUL_def)
  obtain u where u: "(if b then scan_whilex ctx_symbol (tl t) else Inr t) = Inr u" "in_query q u" "length u \<le> length t"
    using qname_query [OF t(2), of b] look_taken [OF t(2), of "\<lambda>d. is_chartypex d ctx_symbol"] b by auto
  show ?thesis using r t b u e by (auto simp: lex_variable_def at_char_def no_lexeme_def intro!: lexedI)
qed

lemma scan_whilex_takes:
  assumes "in_query q (c # r)" and "is_chartypex c ct" and "ct \<in> {ctx_symbol, ctx_digit}"
  shows "\<exists>t. scan_whilex ct (c # r) = Inr t \<and> in_query q t \<and> length t \<le> length r"
proof -
  have "c \<noteq> NUL" using assms(2,3) NUL_typesx by auto
  then have "in_query q r" by (rule in_query_tl [OF assms(1)])
  from scan_whilex_query [OF this assms(3)] show ?thesis using assms(2) by (simp add: scan_whilex_def)
qed

lemma lex_name_lexed:
  assumes "in_query q (c # r)" and "is_chartypex c ctx_symbol"
  shows "lexed q (c # r) (lex_name (c # r))"
proof -
  obtain t where t: "scan_whilex ctx_symbol (c # r) = Inr t" "in_query q t" "length t \<le> length r"
    using scan_whilex_takes [OF assms] by auto
  obtain b where b: "look t [is_char (CHR '':''), is_char (CHR ''*'')] = Inr b"
    using look_query [OF t(2), of "is_char (CHR '':'')"] by (auto simp: NUL_def)
  obtain b' where b': "look t [is_char (CHR '':''), \<lambda>d. is_chartypex d ctx_symbol] = Inr b'"
    using look_query [OF t(2), of "is_char (CHR '':'')"] by (auto simp: NUL_def)
  have "\<exists>u. (if b then Inr (drop 2 t) else if b' then scan_whilex ctx_symbol (tl t) else Inr t) = Inr u
          \<and> in_query q u \<and> length u \<le> length t"
  proof (cases b)
    case True
    then obtain u where "t = CHR '':'' # CHR ''*'' # u" using look_taken [OF t(2), of "is_char (CHR ''*'')"] b by auto
    with True show ?thesis using colon_query [of q "CHR ''*''" u] t(2) by (auto simp: NUL_def)
  next
    case False
    then show ?thesis using qname_query [OF t(2), of b'] look_taken [OF t(2), of "\<lambda>d. is_chartypex d ctx_symbol"] b' by auto
  qed
  then obtain u where "(if b then Inr (drop 2 t) else if b' then scan_whilex ctx_symbol (tl t) else Inr t) = Inr u"
    "in_query q u" "length u \<le> length t" by blast
  then show ?thesis using t b b' by (auto simp: lex_name_def simp del: if_split_eq1 intro!: lexedI)
qed

lemma lex_digits_lexed:
  assumes "in_query q (c # r)" and "is_chartypex c ctx_digit"
  shows "lexed q (c # r) (lex_digits (c # r))"
proof -
  obtain t where t: "scan_whilex ctx_digit (c # r) = Inr t" "in_query q t" "length t \<le> length r"
    using scan_whilex_takes [OF assms] by auto
  obtain d t' where d: "t = d # t'" using t(2) by (rule in_query_cases)
  have "d = CHR ''.'' \<Longrightarrow> in_query q t'" using in_query_tl [of q d t'] t(2) d by (simp add: NUL_def)
  then show ?thesis
    using t d scan_whilex_query [of q t' ctx_digit] by (auto simp: lex_digits_def at_char_def intro!: lexedI)
qed

lemma lex_dots_lexed:
  assumes "in_query q (c # r)" and "c \<noteq> NUL"
  shows "lexed q (c # r) (lex_dots (c # r) r)"
proof -
  have r: "in_query q r" by (rule in_query_tl [OF assms])
  then obtain d r' where d: "r = d # r'" by (rule in_query_cases)
  have "d = CHR ''.'' \<Longrightarrow> in_query q r'" using in_query_tl [of q d r'] r d by (simp add: NUL_def)
  then show ?thesis
    using r d scan_whilex_query [OF r, of ctx_digit] by (auto simp: lex_dots_def at_char_def intro!: lexedI)
qed

lemma scan_for_query:
  "in_query q s \<Longrightarrow> \<exists>t. scan_for [p] s = Inr t \<and> in_query q t \<and> length t \<le> length s"
proof (induction s)
  case (Cons c s)
  then show ?case using in_query_tl [of q c s] by auto
qed (simp add: in_query_def)

lemma lex_quoted_lexed:
  assumes "in_query q (c # r)" and "c \<noteq> NUL"
  shows "lexed q (c # r) (lex_quoted e r)"
proof -
  have r: "in_query q r" by (rule in_query_tl [OF assms])
  then obtain t where t: "scan_for [is_char e] r = Inr t" "in_query q t" "length t \<le> length r"
    using scan_for_query by blast
  obtain d t' where "t = d # t'" using t(2) by (rule in_query_cases)
  then show ?thesis
    using t in_query_tl [of q d t'] by (auto simp: lex_quoted_def at_char_def no_lexeme_def intro!: lexedI)
qed

lemma start_is_symbol: "is_chartypex c ctx_start_symbol \<Longrightarrow> is_chartypex c ctx_symbol"
  unfolding is_chartypex_def
  by (rule mp, rule table_lookup [where g = "\<lambda>_. True" and tab = chartypex_table and x = 20
        and f = "\<lambda>m. m AND ctx_start_symbol \<noteq> 0 \<longrightarrow> m AND ctx_symbol \<noteq> 0", THEN iffD2])
     (simp_all add: chartypex_table_def ctx_start_symbol_def ctx_symbol_def first_upt)

lemma lex_at_lexed:
  assumes "in_query q s" and s: "s = c # r"
  shows "lexed q s (lex_at s c r)"
proof (cases "c = NUL")
  case True
  then show ?thesis using assms by (auto simp: lex_at_def no_lexeme_def intro!: lexedI)
next
  case False
  note q = assms(1) [unfolded s]
  have one: "\<And>x w. lexed q s (Inr (x, w, r))" using in_query_tl [OF q False] s by (auto intro!: lexedI)
  have none: "\<And>w. lexed q s (Inr (lex_none, w, s))" using assms by (auto simp: no_lexeme_def intro!: lexedI)
  have other: "lexed q s (lex_other s c)"
    using lex_digits_lexed [OF q] lex_name_lexed [OF q] start_is_symbol none s by (auto simp: lex_other_def)
  have either: "\<And>d two x w t. d \<noteq> NUL \<Longrightarrow> t = r \<or> t = s \<and> x = lex_none \<Longrightarrow> lexed q s (lex_either d two (x, w, t) r)"
    using lex_either_lexed [OF q False] one none s by metis
  show ?thesis
    using one none other either lex_variable_lexed [OF q False]
      lex_dots_lexed [OF q False] lex_quoted_lexed [OF q False] False s [symmetric]
    by (simp add: lex_at_def NUL_def split del: if_split split: if_split)
qed

text \<open>A lexer at work on a query, and what is left for it: every lexeme makes that smaller.\<close>

definition lexer_ok :: "string \<Rightarrow> xpath_lexer \<Rightarrow> bool" where
  "lexer_ok q l \<longleftrightarrow> in_query q (lx_cur l) \<and> in_query q (lx_lexeme_pos l)"

definition left_over :: "xpath_lexer \<Rightarrow> nat" where
  "left_over l = length (lx_cur l) + (if no_lexeme (lx_lexeme l) then 0 else 1)"

lemma lexer_next_ok:
  assumes "in_query q (lx_cur l)"
  shows "\<exists>l'. lexer_next l = Inr l' \<and> lexer_ok q l' \<and> left_over l' \<le> length (lx_cur l)"
proof -
  obtain s where s: "scan_while ct_space (lx_cur l) = Inr s" "in_query q s" "length s \<le> length (lx_cur l)"
    using scan_while_query [OF assms] by blast
  obtain c r where c: "s = c # r" using s(2) by (rule in_query_cases)
  obtain x w t where "lex_at s c r = Inr (x, w, t)" "in_query q t" "length t \<le> length s" "no_lexeme x \<or> length t < length s"
    using lex_at_lexed [OF s(2) c] by (auto simp: lexed_def)
  then show ?thesis using s c by (auto simp: lexer_next_def at_char_def lexer_ok_def left_over_def)
qed

lemma lexer_next_less:
  assumes "lexer_ok q l" and "\<not> no_lexeme (lx_lexeme l)"
  shows "\<exists>l'. lexer_next l = Inr l' \<and> lexer_ok q l' \<and> left_over l' < left_over l"
  using lexer_next_ok [of q l] assms by (auto simp: lexer_ok_def left_over_def)

end
