(* ===== verification/Pugi_Xpath.thy ===== *)
theory Pugi_Xpath
  imports Pugi_Lexer Doubles
begin

text \<open>
  The parser of pugixml's XPath, \<open>xpath_parser\<close> in \<open>pugixml/src/pugixml.cpp\<close>, and the tree that it
  builds.

  The node of the tree has the fields of \<open>xpath_ast_node\<close>; a pointer is the node it points to, or none.
  The set of variables is the type of each variable it has.  The functions that call one another, and
  their loops, call through a record; \<open>xpath_parsers\<close> fills it, down to a depth of calls, and
  \<open>xpath_parse\<close> starts with a greater depth than the query needs.
\<close>

section \<open>Trees\<close>

datatype ast_type =
    ast_unknown | ast_op_or | ast_op_and | ast_op_equal | ast_op_not_equal | ast_op_less | ast_op_greater
  | ast_op_less_or_equal | ast_op_greater_or_equal | ast_op_add | ast_op_subtract | ast_op_multiply
  | ast_op_divide | ast_op_mod | ast_op_negate | ast_op_union | ast_predicate | ast_filter
  | ast_string_constant | ast_number_constant | ast_variable | ast_func_last | ast_func_position
  | ast_func_count | ast_func_id | ast_func_local_name_0 | ast_func_local_name_1
  | ast_func_namespace_uri_0 | ast_func_namespace_uri_1 | ast_func_name_0 | ast_func_name_1
  | ast_func_string_0 | ast_func_string_1 | ast_func_concat | ast_func_starts_with | ast_func_contains
  | ast_func_substring_before | ast_func_substring_after | ast_func_substring_2 | ast_func_substring_3
  | ast_func_string_length_0 | ast_func_string_length_1 | ast_func_normalize_space_0
  | ast_func_normalize_space_1 | ast_func_translate | ast_func_boolean | ast_func_not | ast_func_true
  | ast_func_false | ast_func_lang | ast_func_number_0 | ast_func_number_1 | ast_func_sum
  | ast_func_floor | ast_func_ceiling | ast_func_round | ast_step | ast_step_root
  | ast_opt_translate_table | ast_opt_compare_attribute

datatype axis =
    axis_ancestor | axis_ancestor_or_self | axis_attribute | axis_child | axis_descendant
  | axis_descendant_or_self | axis_following | axis_following_sibling | axis_namespace | axis_parent
  | axis_preceding | axis_preceding_sibling | axis_self

datatype nodetest =
    nodetest_none | nodetest_name | nodetest_type_node | nodetest_type_comment | nodetest_type_pi
  | nodetest_type_text | nodetest_pi | nodetest_all | nodetest_all_in_namespace

datatype predicate_kind = predicate_default | predicate_posinv | predicate_constant | predicate_constant_one

datatype xpath_value_type =
    xpath_type_none | xpath_type_node_set | xpath_type_number | xpath_type_string | xpath_type_boolean

text \<open>The member \<open>_test\<close>, which is of either type, and the union \<open>_data\<close>.\<close>

datatype ast_test = Test nodetest | Predicate predicate_kind

datatype ast_data =
    No_data | String_data string | Number_data dbl | Variable_data string | Nodetest_data "string option"
  | Table_data "nat list"

datatype ast_node =
  Ast_node (an_type: ast_type) (an_rettype: xpath_value_type) (an_axis: axis) (an_test: ast_test)
    (an_left: "ast_node option") (an_right: "ast_node option") (an_next: "ast_node option") (an_data: ast_data)

text \<open>The constructors.\<close>

definition ast_string :: "string \<Rightarrow> ast_node" where
  "ast_string s =
     Ast_node ast_string_constant xpath_type_string axis_ancestor (Test nodetest_none) None None None (String_data s)"

definition ast_number :: "dbl \<Rightarrow> ast_node" where
  "ast_number d =
     Ast_node ast_number_constant xpath_type_number axis_ancestor (Test nodetest_none) None None None (Number_data d)"

definition ast_var :: "xpath_value_type \<Rightarrow> string \<Rightarrow> ast_node" where
  "ast_var t v =
     Ast_node ast_variable t axis_ancestor (Test nodetest_none) None None None (Variable_data v)"

definition ast_op :: "ast_type \<Rightarrow> xpath_value_type \<Rightarrow> ast_node option \<Rightarrow> ast_node option \<Rightarrow> ast_node" where
  "ast_op t r left right = Ast_node t r axis_ancestor (Test nodetest_none) left right None No_data"

definition ast_step_node :: "ast_node option \<Rightarrow> axis \<Rightarrow> nodetest \<Rightarrow> string option \<Rightarrow> ast_node" where
  "ast_step_node left axis test contents =
     Ast_node ast_step xpath_type_node_set axis (Test test) left None None (Nodetest_data contents)"

definition ast_predicate_node :: "ast_type \<Rightarrow> ast_node option \<Rightarrow> ast_node \<Rightarrow> ast_node" where
  "ast_predicate_node t left right =
     Ast_node t xpath_type_node_set axis_ancestor (Predicate predicate_default) left (Some right) None No_data"

fun set_next :: "ast_node option \<Rightarrow> ast_node \<Rightarrow> ast_node" where
  "set_next m (Ast_node t r a k left right n d) = Ast_node t r a k left right m d"

fun set_right :: "ast_node option \<Rightarrow> ast_node \<Rightarrow> ast_node" where
  "set_right m (Ast_node t r a k left right n d) = Ast_node t r a k left m n d"

text \<open>Nodes chained by \<open>_next\<close>: the predicates of a step, the arguments of a function but the first.\<close>

fun chain :: "ast_node list \<Rightarrow> ast_node option" where
  "chain [] = None"
| "chain (n # ns) = Some (set_next (chain ns) n)"

section \<open>Names\<close>

definition parse_axis_name :: "string \<Rightarrow> axis option" where
  "parse_axis_name name =
     (if name = ''ancestor'' then Some axis_ancestor
      else if name = ''ancestor-or-self'' then Some axis_ancestor_or_self
      else if name = ''attribute'' then Some axis_attribute
      else if name = ''child'' then Some axis_child
      else if name = ''descendant'' then Some axis_descendant
      else if name = ''descendant-or-self'' then Some axis_descendant_or_self
      else if name = ''following'' then Some axis_following
      else if name = ''following-sibling'' then Some axis_following_sibling
      else if name = ''namespace'' then Some axis_namespace
      else if name = ''parent'' then Some axis_parent
      else if name = ''preceding'' then Some axis_preceding
      else if name = ''preceding-sibling'' then Some axis_preceding_sibling
      else if name = ''self'' then Some axis_self
      else None)"

definition parse_node_test_type :: "string \<Rightarrow> nodetest" where
  "parse_node_test_type name =
     (if name = ''comment'' then nodetest_type_comment
      else if name = ''node'' then nodetest_type_node
      else if name = ''processing-instruction'' then nodetest_type_pi
      else if name = ''text'' then nodetest_type_text
      else nodetest_none)"

text \<open>The node for a function and its arguments, or the message of the exception.\<close>

definition on_node_set :: "ast_node list \<Rightarrow> ast_node \<Rightarrow> string + ast_node" where
  "on_node_set args n =
     (if an_rettype (hd args) \<noteq> xpath_type_node_set then Inl ''Function has to be applied to node set'' else Inr n)"

definition parse_function_helper :: "ast_type \<Rightarrow> ast_type \<Rightarrow> ast_node list \<Rightarrow> string + ast_node" where
  "parse_function_helper type0 type1 args =
     (if args = [] then Inr (ast_op type0 xpath_type_string None None)
      else on_node_set args (ast_op type1 xpath_type_string (Some (hd args)) None))"

definition parse_function :: "string \<Rightarrow> ast_node list \<Rightarrow> string + ast_node" where
  "parse_function name args =
     (let argc = length args;
          arg0 = (if args = [] then None else Some (hd args));
          arg1 = chain (tl args)
      in if name = ''boolean'' \<and> argc = 1 then Inr (ast_op ast_func_boolean xpath_type_boolean arg0 None)
         else if name = ''count'' \<and> argc = 1 then on_node_set args (ast_op ast_func_count xpath_type_number arg0 None)
         else if name = ''contains'' \<and> argc = 2 then Inr (ast_op ast_func_contains xpath_type_boolean arg0 arg1)
         else if name = ''concat'' \<and> 2 \<le> argc then Inr (ast_op ast_func_concat xpath_type_string arg0 arg1)
         else if name = ''ceiling'' \<and> argc = 1 then Inr (ast_op ast_func_ceiling xpath_type_number arg0 None)
         else if name = ''false'' \<and> argc = 0 then Inr (ast_op ast_func_false xpath_type_boolean None None)
         else if name = ''floor'' \<and> argc = 1 then Inr (ast_op ast_func_floor xpath_type_number arg0 None)
         else if name = ''id'' \<and> argc = 1 then Inr (ast_op ast_func_id xpath_type_node_set arg0 None)
         else if name = ''last'' \<and> argc = 0 then Inr (ast_op ast_func_last xpath_type_number None None)
         else if name = ''lang'' \<and> argc = 1 then Inr (ast_op ast_func_lang xpath_type_boolean arg0 None)
         else if name = ''local-name'' \<and> argc \<le> 1 then
           parse_function_helper ast_func_local_name_0 ast_func_local_name_1 args
         else if name = ''name'' \<and> argc \<le> 1 then parse_function_helper ast_func_name_0 ast_func_name_1 args
         else if name = ''namespace-uri'' \<and> argc \<le> 1 then
           parse_function_helper ast_func_namespace_uri_0 ast_func_namespace_uri_1 args
         else if name = ''normalize-space'' \<and> argc \<le> 1 then
           Inr (ast_op (if argc = 0 then ast_func_normalize_space_0 else ast_func_normalize_space_1)
                  xpath_type_string arg0 arg1)
         else if name = ''not'' \<and> argc = 1 then Inr (ast_op ast_func_not xpath_type_boolean arg0 None)
         else if name = ''number'' \<and> argc \<le> 1 then
           Inr (ast_op (if argc = 0 then ast_func_number_0 else ast_func_number_1) xpath_type_number arg0 None)
         else if name = ''position'' \<and> argc = 0 then Inr (ast_op ast_func_position xpath_type_number None None)
         else if name = ''round'' \<and> argc = 1 then Inr (ast_op ast_func_round xpath_type_number arg0 None)
         else if name = ''string'' \<and> argc \<le> 1 then
           Inr (ast_op (if argc = 0 then ast_func_string_0 else ast_func_string_1) xpath_type_string arg0 None)
         else if name = ''string-length'' \<and> argc \<le> 1 then
           Inr (ast_op (if argc = 0 then ast_func_string_length_0 else ast_func_string_length_1)
                  xpath_type_number arg0 None)
         else if name = ''starts-with'' \<and> argc = 2 then Inr (ast_op ast_func_starts_with xpath_type_boolean arg0 arg1)
         else if name = ''substring-before'' \<and> argc = 2 then
           Inr (ast_op ast_func_substring_before xpath_type_string arg0 arg1)
         else if name = ''substring-after'' \<and> argc = 2 then
           Inr (ast_op ast_func_substring_after xpath_type_string arg0 arg1)
         else if name = ''substring'' \<and> (argc = 2 \<or> argc = 3) then
           Inr (ast_op (if argc = 2 then ast_func_substring_2 else ast_func_substring_3) xpath_type_string arg0 arg1)
         else if name = ''sum'' \<and> argc = 1 then on_node_set args (ast_op ast_func_sum xpath_type_number arg0 None)
         else if name = ''translate'' \<and> argc = 3 then Inr (ast_op ast_func_translate xpath_type_string arg0 arg1)
         else if name = ''true'' \<and> argc = 0 then Inr (ast_op ast_func_true xpath_type_boolean None None)
         else Inl ''Unrecognized function or wrong parameter count'')"

section \<open>Numbers\<close>

definition skip_digits :: "string \<Rightarrow> string" where
  "skip_digits = dropWhile (\<lambda>c. is_chartypex c ctx_digit)"

definition skip_space :: "string \<Rightarrow> string" where
  "skip_space = dropWhile (\<lambda>c. is_chartype c ct_space)"

definition starts_with_digit :: "string \<Rightarrow> bool" where
  "starts_with_digit s \<longleftrightarrow> s \<noteq> [] \<and> is_chartypex (hd s) ctx_digit"

definition skip_sign :: "string \<Rightarrow> string" where
  "skip_sign s = (if s \<noteq> [] \<and> hd s = CHR ''-'' then tl s else s)"

definition has_point :: "string \<Rightarrow> bool" where
  "has_point s \<longleftrightarrow> s \<noteq> [] \<and> hd s = CHR ''.''"

definition check_string_to_number_format :: "string \<Rightarrow> bool" where
  "check_string_to_number_format s0 =
     (let s = skip_sign (skip_space s0) in
      s \<noteq> [] \<and> (starts_with_digit s \<or> (has_point s \<and> starts_with_digit (tl s))) \<and>
      (let t = skip_digits s; u = (if has_point t then skip_digits (tl t) else t)
       in skip_space u = []))"

text \<open>
  What \<open>atof\<close> makes of a text of this format: the nearest double, in steps of \<open>2 ^ -1074\<close> at least, and
  infinity from \<open>2 ^ 1024\<close> on.  (A zero has no sign in \<open>dbl\<close>; a number in a query has none either.)
\<close>

definition digits_value :: "string \<Rightarrow> nat" where
  "digits_value = foldl (\<lambda>n c. 10 * n + (code c - 48)) 0"

definition nearest_double :: "bool \<Rightarrow> nat \<Rightarrow> nat \<Rightarrow> dbl" where
  "nearest_double neg n d =
     (if n = 0 then Fin 0 0
      else let e1 = int (bit_len n) - int (bit_len d) - 53;
               e2 = (if scale_num e1 n \<ge> scale_den e1 d * 2 ^ 53 then e1 + 1 else e1);
               e = max (- 1074) e2;
               m = int (round_div (scale_num e n) (scale_den e d))
           in if 0 \<le> e \<and> 2 ^ 1024 \<le> m * 2 ^ nat e then Inf neg
              else Fin (if neg then - m else m) e)"

definition atof_number :: "string \<Rightarrow> dbl" where
  "atof_number s0 =
     (let s = skip_sign (skip_space s0);
          whole = takeWhile (\<lambda>c. is_chartypex c ctx_digit) s;
          t = skip_digits s;
          frac = (if has_point t then takeWhile (\<lambda>c. is_chartypex c ctx_digit) (tl t) else [])
      in nearest_double (s \<noteq> skip_space s0) (digits_value (whole @ frac)) (10 ^ length frac))"

definition convert_string_to_number :: "string \<Rightarrow> dbl" where
  "convert_string_to_number s = (if \<not> check_string_to_number_format s then NaN else atof_number s)"

section \<open>The parser\<close>

text \<open>A result with the lexer behind it, or the exception with the place of the lexeme at fault.\<close>

datatype 'a xparsed = Xparsed 'a xpath_lexer | Xpath_exception string string

type_synonym 'a xparse = "'a xparsed res"

definition xthrow :: "string \<Rightarrow> xpath_lexer \<Rightarrow> 'a xparse" where
  "xthrow message l = Inr (Xpath_exception message (lx_lexeme_pos l))"

definition xreturn :: "'a \<Rightarrow> xpath_lexer \<Rightarrow> 'a xparse" where
  "xreturn x l = Inr (Xparsed x l)"

definition xbind :: "'a xparse \<Rightarrow> ('a \<Rightarrow> xpath_lexer \<Rightarrow> 'b xparse) \<Rightarrow> 'b xparse" where
  "xbind m f = rbind m (\<lambda>r. case r of Xparsed x l \<Rightarrow> f x l | Xpath_exception e s \<Rightarrow> Inr (Xpath_exception e s))"

text \<open>To the next lexeme, which has to be the given one here; otherwise the message is thrown.\<close>

definition xnext :: "xpath_lexer \<Rightarrow> (xpath_lexer \<Rightarrow> 'a xparse) \<Rightarrow> 'a xparse" where
  "xnext l f = rbind (lexer_next l) f"

definition xexpect :: "lexeme \<Rightarrow> string \<Rightarrow> xpath_lexer \<Rightarrow> (xpath_lexer \<Rightarrow> 'a xparse) \<Rightarrow> 'a xparse" where
  "xexpect x message l f = (if lx_lexeme l \<noteq> x then xthrow message l else xnext l f)"

subsection \<open>Node tests\<close>

definition in_namespace :: "string \<Rightarrow> bool" where
  "in_namespace name \<longleftrightarrow> 2 < length name \<and> name ! (length name - 2) = CHR '':'' \<and> last name = CHR ''*''"

definition parse_name_test :: "axis \<Rightarrow> string \<Rightarrow> xpath_lexer \<Rightarrow> (axis \<times> nodetest \<times> string option) xparse" where
  "parse_name_test axis name l =
     (if lx_lexeme l = lex_open_brace then
        xnext l (\<lambda>l1.
          if lx_lexeme l1 = lex_close_brace then
            xnext l1 (\<lambda>l2.
              if parse_node_test_type name = nodetest_none then xthrow ''Unrecognized node type'' l2
              else xreturn (axis, parse_node_test_type name, None) l2)
          else if name = ''processing-instruction'' then
            xexpect lex_quoted_string ''Only literals are allowed as arguments to processing-instruction()'' l1 (\<lambda>l2.
              xexpect lex_close_brace ''Unmatched brace near processing-instruction()'' l2
                (xreturn (axis, nodetest_pi, Some (lx_contents l1))))
          else xthrow ''Unmatched brace near node type test'' l1)
      else if in_namespace name then xreturn (axis, nodetest_all_in_namespace, Some (butlast name)) l
      else xreturn (axis, nodetest_name, Some name) l)"

definition parse_node_test :: "axis \<Rightarrow> bool \<Rightarrow> xpath_lexer \<Rightarrow> (axis \<times> nodetest \<times> string option) xparse" where
  "parse_node_test axis axis_specified l =
     (if lx_lexeme l = lex_string then
        xnext l (\<lambda>l1.
          if lx_lexeme l1 = lex_double_colon then
            if axis_specified then xthrow ''Two axis specifiers in one step'' l1
            else (case parse_axis_name (lx_contents l) of
                None \<Rightarrow> xthrow ''Unknown axis'' l1
              | Some named \<Rightarrow>
                  xnext l1 (\<lambda>l2.
                    if lx_lexeme l2 = lex_multiply then xnext l2 (xreturn (named, nodetest_all, None))
                    else if lx_lexeme l2 = lex_string then xnext l2 (parse_name_test named (lx_contents l2))
                    else xthrow ''Unrecognized node test'' l2))
          else parse_name_test axis (lx_contents l) l1)
      else if lx_lexeme l = lex_multiply then xnext l (xreturn (axis, nodetest_all, None))
      else xthrow ''Unrecognized node test'' l)"

text \<open>The operator at the lexer: its node, type and precedence, where there is one.\<close>

definition binary_op_parse :: "xpath_lexer \<Rightarrow> (ast_type \<times> xpath_value_type \<times> nat) option" where
  "binary_op_parse l =
     (case lx_lexeme l of
        lex_string \<Rightarrow>
          if lx_contents l = ''or'' then Some (ast_op_or, xpath_type_boolean, 1)
          else if lx_contents l = ''and'' then Some (ast_op_and, xpath_type_boolean, 2)
          else if lx_contents l = ''div'' then Some (ast_op_divide, xpath_type_number, 6)
          else if lx_contents l = ''mod'' then Some (ast_op_mod, xpath_type_number, 6)
          else None
      | lex_equal \<Rightarrow> Some (ast_op_equal, xpath_type_boolean, 3)
      | lex_not_equal \<Rightarrow> Some (ast_op_not_equal, xpath_type_boolean, 3)
      | lex_less \<Rightarrow> Some (ast_op_less, xpath_type_boolean, 4)
      | lex_greater \<Rightarrow> Some (ast_op_greater, xpath_type_boolean, 4)
      | lex_less_or_equal \<Rightarrow> Some (ast_op_less_or_equal, xpath_type_boolean, 4)
      | lex_greater_or_equal \<Rightarrow> Some (ast_op_greater_or_equal, xpath_type_boolean, 4)
      | lex_plus \<Rightarrow> Some (ast_op_add, xpath_type_number, 5)
      | lex_minus \<Rightarrow> Some (ast_op_subtract, xpath_type_number, 5)
      | lex_multiply \<Rightarrow> Some (ast_op_multiply, xpath_type_number, 6)
      | lex_union \<Rightarrow> Some (ast_op_union, xpath_type_node_set, 7)
      | _ \<Rightarrow> None)"

definition node_set :: "ast_node \<Rightarrow> bool" where
  "node_set n \<longleftrightarrow> an_rettype n = xpath_type_node_set"

definition all_nodes_step :: "ast_node \<Rightarrow> ast_node" where
  "all_nodes_step n = ast_step_node (Some n) axis_descendant_or_self nodetest_type_node None"

definition starts_location :: "lexeme \<Rightarrow> bool" where
  "starts_location x \<longleftrightarrow> x \<in> {lex_string, lex_axis_attribute, lex_dot, lex_double_dot, lex_multiply}"

definition starts_primary :: "lexeme \<Rightarrow> bool" where
  "starts_primary x \<longleftrightarrow> x \<in> {lex_var_ref, lex_open_brace, lex_quoted_string, lex_number, lex_string}"

type_synonym xpath_variables = "string \<Rightarrow> xpath_value_type option"

text \<open>What is called again below itself: the expressions and the loops.\<close>

record xpath_calls =
  call_expression :: "xpath_lexer \<Rightarrow> ast_node xparse"
  call_expression_rec :: "ast_node \<Rightarrow> nat \<Rightarrow> xpath_lexer \<Rightarrow> ast_node xparse"
  call_tighter :: "ast_node \<Rightarrow> nat \<Rightarrow> xpath_lexer \<Rightarrow> ast_node xparse"
  call_path_or_unary :: "xpath_lexer \<Rightarrow> ast_node xparse"
  call_filter_predicates :: "ast_node \<Rightarrow> xpath_lexer \<Rightarrow> ast_node xparse"
  call_arguments :: "ast_node list \<Rightarrow> xpath_lexer \<Rightarrow> ast_node list xparse"
  call_step_predicates :: "ast_node list \<Rightarrow> xpath_lexer \<Rightarrow> ast_node list xparse"
  call_steps :: "ast_node \<Rightarrow> xpath_lexer \<Rightarrow> ast_node xparse"

definition take_axis :: "xpath_lexer \<Rightarrow> (axis \<Rightarrow> bool \<Rightarrow> xpath_lexer \<Rightarrow> 'a xparse) \<Rightarrow> 'a xparse" where
  "take_axis l f =
     (if lx_lexeme l = lex_axis_attribute then xnext l (f axis_attribute True) else f axis_child False l)"

text \<open>Whether a name is that of a function called here, and not that of a node test.\<close>

definition at_function_call :: "xpath_lexer \<Rightarrow> bool res" where
  "at_function_call l =
     (if lx_lexeme l \<noteq> lex_string then Inr True
      else rbind (scan_while ct_space (lx_cur l)) (\<lambda>s. at_char s (\<lambda>c r.
        Inr (c = CHR ''('' \<and> parse_node_test_type (lx_contents l) = nodetest_none))))"

definition root_node :: ast_node where
  "root_node = ast_op ast_step_root xpath_type_node_set None None"

subsection \<open>Primary expressions and filters\<close>

definition parse_arguments :: "xpath_calls \<Rightarrow> ast_node list \<Rightarrow> xpath_lexer \<Rightarrow> ast_node list xparse" where
  "parse_arguments P args l =
     (if lx_lexeme l = lex_close_brace then xreturn args l
      else xexpect lex_comma ''No comma between function arguments'' l (\<lambda>l1.
        xbind (call_expression P l1) (\<lambda>n. call_arguments P (args @ [n]))))"

definition parse_function_call :: "xpath_calls \<Rightarrow> xpath_lexer \<Rightarrow> ast_node xparse" where
  "parse_function_call P l =
     xnext l (\<lambda>l1. xexpect lex_open_brace ''Unrecognized function call'' l1 (\<lambda>l2.
       xbind (if lx_lexeme l2 = lex_close_brace then xreturn [] l2
              else xbind (call_expression P l2) (\<lambda>n. xreturn [n])) (\<lambda>args l3.
       xbind (call_arguments P args l3) (\<lambda>args l4.
       xnext l4 (\<lambda>l5. case parse_function (lx_contents l) args of Inl message \<Rightarrow> xthrow message l5
                                                             | Inr n \<Rightarrow> xreturn n l5)))))"

definition parse_variable :: "xpath_variables option \<Rightarrow> xpath_lexer \<Rightarrow> ast_node xparse" where
  "parse_variable vs l =
     (case vs of None \<Rightarrow> xthrow ''Unknown variable: variable set is not provided'' l
      | Some vars \<Rightarrow> (case vars (lx_contents l) of
          None \<Rightarrow> xthrow ''Unknown variable: variable set does not contain the given name'' l
        | Some t \<Rightarrow> xnext l (xreturn (ast_var t (lx_contents l)))))"

definition parse_primary_expression :: "xpath_variables option \<Rightarrow> xpath_calls \<Rightarrow> xpath_lexer \<Rightarrow> ast_node xparse" where
  "parse_primary_expression vs P l =
     (case lx_lexeme l of
        lex_var_ref \<Rightarrow> parse_variable vs l
      | lex_open_brace \<Rightarrow>
          xnext l (\<lambda>l1. xbind (call_expression P l1) (\<lambda>n l2.
            xexpect lex_close_brace ''Unmatched braces'' l2 (xreturn n)))
      | lex_quoted_string \<Rightarrow> xnext l (xreturn (ast_string (lx_contents l)))
      | lex_number \<Rightarrow> xnext l (xreturn (ast_number (convert_string_to_number (lx_contents l))))
      | lex_string \<Rightarrow> parse_function_call P l
      | _ \<Rightarrow> xthrow ''Unrecognizable primary expression'' l)"

definition parse_filter_predicates :: "xpath_calls \<Rightarrow> ast_node \<Rightarrow> xpath_lexer \<Rightarrow> ast_node xparse" where
  "parse_filter_predicates P n l =
     (if lx_lexeme l \<noteq> lex_open_square_brace then xreturn n l
      else xnext l (\<lambda>l1. xbind (call_expression P l1) (\<lambda>e l2.
        if \<not> node_set n then xthrow ''Predicate has to be applied to node set'' l2
        else xexpect lex_close_square_brace ''Unmatched square brace'' l2
               (call_filter_predicates P (ast_predicate_node ast_filter (Some n) e)))))"

definition parse_filter_expression :: "xpath_variables option \<Rightarrow> xpath_calls \<Rightarrow> xpath_lexer \<Rightarrow> ast_node xparse" where
  "parse_filter_expression vs P l = xbind (parse_primary_expression vs P l) (call_filter_predicates P)"

subsection \<open>Steps and paths\<close>

definition parse_step_predicates :: "xpath_calls \<Rightarrow> ast_node list \<Rightarrow> xpath_lexer \<Rightarrow> ast_node list xparse" where
  "parse_step_predicates P preds l =
     (if lx_lexeme l \<noteq> lex_open_square_brace then xreturn preds l
      else xnext l (\<lambda>l1. xbind (call_expression P l1) (\<lambda>e l2.
        xexpect lex_close_square_brace ''Unmatched square brace'' l2
          (call_step_predicates P (preds @ [ast_predicate_node ast_predicate None e])))))"

definition parse_step :: "xpath_calls \<Rightarrow> ast_node option \<Rightarrow> xpath_lexer \<Rightarrow> ast_node xparse" where
  "parse_step P left l =
     (if left \<noteq> None \<and> \<not> node_set (the left) then xthrow ''Step has to be applied to node set'' l
      else if lx_lexeme l = lex_dot then xnext l (xreturn (ast_step_node left axis_self nodetest_type_node None))
      else if lx_lexeme l = lex_double_dot then
        xnext l (xreturn (ast_step_node left axis_parent nodetest_type_node None))
      else take_axis l (\<lambda>axis axis_specified l1.
        xbind (parse_node_test axis axis_specified l1) (\<lambda>(axis, nt_type, nt_name) l2.
        xbind (call_step_predicates P [] l2) (\<lambda>preds.
          xreturn (set_right (chain preds) (ast_step_node left axis nt_type nt_name))))))"

definition parse_steps :: "xpath_calls \<Rightarrow> ast_node \<Rightarrow> xpath_lexer \<Rightarrow> ast_node xparse" where
  "parse_steps P n l =
     (if lx_lexeme l = lex_slash then
        xnext l (\<lambda>l1. xbind (parse_step P (Some n) l1) (call_steps P))
      else if lx_lexeme l = lex_double_slash then
        xnext l (\<lambda>l1. xbind (parse_step P (Some (all_nodes_step n)) l1) (call_steps P))
      else xreturn n l)"

definition parse_relative_location_path :: "xpath_calls \<Rightarrow> ast_node option \<Rightarrow> xpath_lexer \<Rightarrow> ast_node xparse" where
  "parse_relative_location_path P left l = xbind (parse_step P left l) (call_steps P)"

definition parse_location_path :: "xpath_calls \<Rightarrow> xpath_lexer \<Rightarrow> ast_node xparse" where
  "parse_location_path P l =
     (if lx_lexeme l = lex_slash then
        xnext l (\<lambda>l1. if starts_location (lx_lexeme l1) then parse_relative_location_path P (Some root_node) l1
                      else xreturn root_node l1)
      else if lx_lexeme l = lex_double_slash then
        xnext l (parse_relative_location_path P (Some (all_nodes_step root_node)))
      else parse_relative_location_path P None l)"

subsection \<open>Operators\<close>

definition parse_path_or_unary_expression ::
  "xpath_variables option \<Rightarrow> xpath_calls \<Rightarrow> xpath_lexer \<Rightarrow> ast_node xparse" where
  "parse_path_or_unary_expression vs P l =
     (if starts_primary (lx_lexeme l) then
        rbind (at_function_call l) (\<lambda>call.
          if \<not> call then parse_location_path P l
          else xbind (parse_filter_expression vs P l) (\<lambda>n l1.
            if lx_lexeme l1 = lex_slash then xnext l1 (parse_relative_location_path P (Some n))
            else if lx_lexeme l1 = lex_double_slash then
              xnext l1 (\<lambda>l2. if \<not> node_set n then xthrow ''Step has to be applied to node set'' l2
                             else parse_relative_location_path P (Some (all_nodes_step n)) l2)
            else xreturn n l1))
      else if lx_lexeme l = lex_minus then
        xnext l (\<lambda>l1. xbind (call_path_or_unary P l1) (\<lambda>n l2.
          xbind (call_expression_rec P n 7 l2) (\<lambda>e.
            xreturn (ast_op ast_op_negate xpath_type_number (Some e) None))))
      else parse_location_path P l)"

text \<open>The loop over the operators that bind more tightly than the one on the left of \<open>rhs\<close>.\<close>

definition parse_tighter :: "xpath_calls \<Rightarrow> ast_node \<Rightarrow> nat \<Rightarrow> xpath_lexer \<Rightarrow> ast_node xparse" where
  "parse_tighter P rhs precedence l =
     (case binary_op_parse l of
        Some (_, _, next_precedence) \<Rightarrow>
          if precedence < next_precedence then
            xbind (call_expression_rec P rhs next_precedence l) (\<lambda>rhs. call_tighter P rhs precedence)
          else xreturn rhs l
      | None \<Rightarrow> xreturn rhs l)"

definition parse_expression_rec :: "xpath_calls \<Rightarrow> ast_node \<Rightarrow> nat \<Rightarrow> xpath_lexer \<Rightarrow> ast_node xparse" where
  "parse_expression_rec P lhs limit l =
     (case binary_op_parse l of
        Some (asttype, rettype, precedence) \<Rightarrow>
          if limit \<le> precedence then
            xnext l (\<lambda>l1. xbind (call_path_or_unary P l1) (\<lambda>rhs l2.
              xbind (call_tighter P rhs precedence l2) (\<lambda>rhs l3.
                if asttype = ast_op_union \<and> (\<not> node_set lhs \<or> \<not> node_set rhs) then
                  xthrow ''Union operator has to be applied to node sets'' l3
                else call_expression_rec P (ast_op asttype rettype (Some lhs) (Some rhs)) limit l3)))
          else xreturn lhs l
      | None \<Rightarrow> xreturn lhs l)"

definition parse_expression :: "xpath_calls \<Rightarrow> xpath_lexer \<Rightarrow> ast_node xparse" where
  "parse_expression P l = xbind (call_path_or_unary P l) (\<lambda>n. call_expression_rec P n 0)"

subsection \<open>The whole\<close>

definition no_depth :: "'a xparse" where
  "no_depth = Inl (Undefined ''depth'')"

primrec xpath_parsers :: "xpath_variables option \<Rightarrow> nat \<Rightarrow> xpath_calls" where
  "xpath_parsers vs 0 =
     \<lparr>call_expression = \<lambda>l. no_depth, call_expression_rec = \<lambda>n p l. no_depth, call_tighter = \<lambda>n p l. no_depth,
      call_path_or_unary = \<lambda>l. no_depth, call_filter_predicates = \<lambda>n l. no_depth, call_arguments = \<lambda>as l. no_depth,
      call_step_predicates = \<lambda>ps l. no_depth, call_steps = \<lambda>n l. no_depth\<rparr>"
| "xpath_parsers vs (Suc k) =
     (let P = xpath_parsers vs k in
      \<lparr>call_expression = parse_expression P, call_expression_rec = parse_expression_rec P,
       call_tighter = parse_tighter P, call_path_or_unary = parse_path_or_unary_expression vs P,
       call_filter_predicates = parse_filter_predicates P, call_arguments = parse_arguments P,
       call_step_predicates = parse_step_predicates P, call_steps = parse_steps P\<rparr>)"

datatype xpath_query_result = Compiled ast_node | Xpath_error string nat

text \<open>\<open>xpath_parser::parse\<close>; the offset of an error is counted from the start of the query.\<close>

definition xpath_parse :: "xpath_variables option \<Rightarrow> string \<Rightarrow> xpath_query_result res" where
  "xpath_parse vs query =
     (let q = query @ [NUL] in
      rbind (xpath_lexer_init q) (\<lambda>l.
      rbind (xbind (parse_expression (xpath_parsers vs (2 * length query + 4)) l) (\<lambda>n l1.
               if lx_lexeme l1 \<noteq> lex_eof then xthrow ''Incorrect query'' l1 else xreturn n l1)) (\<lambda>r.
        Inr (case r of Xparsed n l1 \<Rightarrow> Compiled n
                     | Xpath_exception message s \<Rightarrow> Xpath_error message (length q - length s)))))"

end
