(* ===== verification/Pugi_Grammar.thy ===== *)
theory Pugi_Grammar
  imports Pugi_Xpath
begin

text \<open>
  The grammar of XPath, as the comments of \<open>xpath_parser\<close> in \<open>pugixml/src/pugixml.cpp\<close> give it, and that
  the parser keeps to it: it ends on every query, reads nothing past its end, and a tree that it returns is
  the one the grammar gives to the lexemes of the query.
\<close>

section \<open>Lexemes\<close>

text \<open>A lexeme with its contents, where it has any, and the lexemes that a lexer passes over.\<close>

type_synonym token = "lexeme \<times> string"

definition token_of :: "xpath_lexer \<Rightarrow> token" where
  "token_of l = (lx_lexeme l,
     if lx_lexeme l \<in> {lex_var_ref, lex_quoted_string, lex_number, lex_string} then lx_contents l else [])"

inductive lexes :: "xpath_lexer \<Rightarrow> token list \<Rightarrow> xpath_lexer \<Rightarrow> bool" where
  lexes_none: "lexes l [] l"
| lexes_more: "lexer_next l = Inr l1 \<Longrightarrow> lexes l1 ts l2 \<Longrightarrow> lexes l (token_of l # ts) l2"

lemma lexes_append: "lexes l ts l1 \<Longrightarrow> lexes l1 us l2 \<Longrightarrow> lexes l (ts @ us) l2"
  by (induction rule: lexes.induct) (auto intro: lexes.intros)

lemma lexes_one: "lexer_next l = Inr l1 \<Longrightarrow> lexes l [token_of l] l1"
  by (auto intro: lexes.intros)

text \<open>The lexemes of a query.\<close>

definition query_tokens :: "string \<Rightarrow> token list \<Rightarrow> bool" where
  "query_tokens query ts \<longleftrightarrow>
     (\<exists>l l'. xpath_lexer_init (query @ [NUL]) = Inr l \<and> lexes l ts l' \<and> lx_lexeme l' = lex_eof)"

section \<open>The grammar\<close>

text \<open>
  The levels of expressions: 1 to 6 are the binary operators from \<open>OrExpr\<close> to \<open>MultiplicativeExpr\<close>,
  7 is \<open>UnaryExpr\<close>, 8 \<open>UnionExpr\<close> and 9 \<open>PathExpr\<close>.
\<close>

definition operators :: "(nat \<times> token \<times> ast_type \<times> xpath_value_type) list" where
  "operators =
     [(1, (lex_string, ''or''), ast_op_or, xpath_type_boolean),
      (2, (lex_string, ''and''), ast_op_and, xpath_type_boolean),
      (3, (lex_equal, []), ast_op_equal, xpath_type_boolean),
      (3, (lex_not_equal, []), ast_op_not_equal, xpath_type_boolean),
      (4, (lex_less, []), ast_op_less, xpath_type_boolean),
      (4, (lex_greater, []), ast_op_greater, xpath_type_boolean),
      (4, (lex_less_or_equal, []), ast_op_less_or_equal, xpath_type_boolean),
      (4, (lex_greater_or_equal, []), ast_op_greater_or_equal, xpath_type_boolean),
      (5, (lex_plus, []), ast_op_add, xpath_type_number),
      (5, (lex_minus, []), ast_op_subtract, xpath_type_number),
      (6, (lex_multiply, []), ast_op_multiply, xpath_type_number),
      (6, (lex_string, ''div''), ast_op_divide, xpath_type_number),
      (6, (lex_string, ''mod''), ast_op_mod, xpath_type_number),
      (8, (lex_union, []), ast_op_union, xpath_type_node_set)]"

inductive axis_specifier :: "token list \<Rightarrow> axis \<Rightarrow> bool" where
  "axis_specifier [] axis_child"
| "axis_specifier [(lex_axis_attribute, [])] axis_attribute"
| "parse_axis_name name = Some axis \<Longrightarrow> axis_specifier [(lex_string, name), (lex_double_colon, [])] axis"

inductive node_test :: "token list \<Rightarrow> nodetest \<Rightarrow> string option \<Rightarrow> bool" where
  "node_test [(lex_multiply, [])] nodetest_all None"
| "\<not> in_namespace name \<Longrightarrow> node_test [(lex_string, name)] nodetest_name (Some name)"
| "in_namespace name \<Longrightarrow> node_test [(lex_string, name)] nodetest_all_in_namespace (Some (butlast name))"
| "parse_node_test_type name \<noteq> nodetest_none \<Longrightarrow>
    node_test [(lex_string, name), (lex_open_brace, []), (lex_close_brace, [])] (parse_node_test_type name) None"
| "node_test [(lex_string, ''processing-instruction''), (lex_open_brace, []), (lex_quoted_string, target),
      (lex_close_brace, [])] nodetest_pi (Some target)"

definition may_step :: "ast_node option \<Rightarrow> bool" where
  "may_step left \<longleftrightarrow> (case left of None \<Rightarrow> True | Some n \<Rightarrow> node_set n)"

inductive expr :: "xpath_variables option \<Rightarrow> nat \<Rightarrow> token list \<Rightarrow> ast_node \<Rightarrow> bool"
  and filter_expr :: "xpath_variables option \<Rightarrow> token list \<Rightarrow> ast_node \<Rightarrow> bool"
  and primary_expr :: "xpath_variables option \<Rightarrow> token list \<Rightarrow> ast_node \<Rightarrow> bool"
  and arguments :: "xpath_variables option \<Rightarrow> token list \<Rightarrow> ast_node list \<Rightarrow> bool"
  and predicates :: "xpath_variables option \<Rightarrow> token list \<Rightarrow> ast_node list \<Rightarrow> bool"
  and path_step :: "xpath_variables option \<Rightarrow> ast_node option \<Rightarrow> token list \<Rightarrow> ast_node \<Rightarrow> bool"
  and relative_path :: "xpath_variables option \<Rightarrow> ast_node option \<Rightarrow> token list \<Rightarrow> ast_node \<Rightarrow> bool"
  and location_path :: "xpath_variables option \<Rightarrow> token list \<Rightarrow> ast_node \<Rightarrow> bool"
  for vs where
  expr_deeper: "expr vs (Suc n) ts e \<Longrightarrow> 1 \<le> n \<Longrightarrow> n < 9 \<Longrightarrow> expr vs n ts e"
| expr_binary: "expr vs n ts l \<Longrightarrow> (n, t, asttype, rettype) \<in> set operators \<Longrightarrow> expr vs (Suc n) us r \<Longrightarrow>
    asttype = ast_op_union \<longrightarrow> node_set l \<and> node_set r \<Longrightarrow>
    expr vs n (ts @ t # us) (ast_op asttype rettype (Some l) (Some r))"
| expr_unary: "expr vs 7 ts e \<Longrightarrow> expr vs 7 ((lex_minus, []) # ts) (ast_op ast_op_negate xpath_type_number (Some e) None)"
| expr_location: "location_path vs ts e \<Longrightarrow> expr vs 9 ts e"
| expr_filter: "filter_expr vs ts e \<Longrightarrow> expr vs 9 ts e"
| expr_filter_path: "filter_expr vs ts n \<Longrightarrow> relative_path vs (Some n) us e \<Longrightarrow> expr vs 9 (ts @ (lex_slash, []) # us) e"
| expr_filter_all: "filter_expr vs ts n \<Longrightarrow> node_set n \<Longrightarrow> relative_path vs (Some (all_nodes_step n)) us e \<Longrightarrow>
    expr vs 9 (ts @ (lex_double_slash, []) # us) e"
| filter_primary: "primary_expr vs ts e \<Longrightarrow> filter_expr vs ts e"
| filter_predicate: "filter_expr vs ts n \<Longrightarrow> node_set n \<Longrightarrow> expr vs 1 us e \<Longrightarrow>
    filter_expr vs (ts @ (lex_open_square_brace, []) # us @ [(lex_close_square_brace, [])])
      (ast_predicate_node ast_filter (Some n) e)"
| primary_variable: "vs = Some vars \<Longrightarrow> vars name = Some ty \<Longrightarrow> primary_expr vs [(lex_var_ref, name)] (ast_var ty name)"
| primary_braces: "expr vs 1 ts e \<Longrightarrow> primary_expr vs ((lex_open_brace, []) # ts @ [(lex_close_brace, [])]) e"
| primary_literal: "primary_expr vs [(lex_quoted_string, s)] (ast_string s)"
| primary_number: "primary_expr vs [(lex_number, s)] (ast_number (convert_string_to_number s))"
| primary_call: "arguments vs ts es \<Longrightarrow> parse_function name es = Inr e \<Longrightarrow>
    primary_expr vs ((lex_string, name) # (lex_open_brace, []) # ts @ [(lex_close_brace, [])]) e"
| no_arguments: "arguments vs [] []"
| one_argument: "expr vs 1 ts e \<Longrightarrow> arguments vs ts [e]"
| more_arguments: "arguments vs ts es \<Longrightarrow> es \<noteq> [] \<Longrightarrow> expr vs 1 us e \<Longrightarrow> arguments vs (ts @ (lex_comma, []) # us) (es @ [e])"
| no_predicates: "predicates vs [] []"
| more_predicates: "predicates vs ts ps \<Longrightarrow> expr vs 1 us e \<Longrightarrow>
    predicates vs (ts @ (lex_open_square_brace, []) # us @ [(lex_close_square_brace, [])])
      (ps @ [ast_predicate_node ast_predicate None e])"
| step_self: "may_step left \<Longrightarrow> path_step vs left [(lex_dot, [])] (ast_step_node left axis_self nodetest_type_node None)"
| step_parent: "may_step left \<Longrightarrow>
    path_step vs left [(lex_double_dot, [])] (ast_step_node left axis_parent nodetest_type_node None)"
| step_full: "may_step left \<Longrightarrow> axis_specifier ts axis \<Longrightarrow> node_test us test name \<Longrightarrow> predicates vs ws ps \<Longrightarrow>
    path_step vs left (ts @ us @ ws) (set_right (chain ps) (ast_step_node left axis test name))"
| relative_step: "path_step vs left ts e \<Longrightarrow> relative_path vs left ts e"
| relative_more: "relative_path vs left ts n \<Longrightarrow> path_step vs (Some n) us e \<Longrightarrow>
    relative_path vs left (ts @ (lex_slash, []) # us) e"
| relative_all: "relative_path vs left ts n \<Longrightarrow> path_step vs (Some (all_nodes_step n)) us e \<Longrightarrow>
    relative_path vs left (ts @ (lex_double_slash, []) # us) e"
| location_root: "location_path vs [(lex_slash, [])] root_node"
| location_absolute: "relative_path vs (Some root_node) ts e \<Longrightarrow> location_path vs ((lex_slash, []) # ts) e"
| location_all: "relative_path vs (Some (all_nodes_step root_node)) ts e \<Longrightarrow> location_path vs ((lex_double_slash, []) # ts) e"
| location_relative: "relative_path vs None ts e \<Longrightarrow> location_path vs ts e"

lemma expr_lower:
  assumes "expr vs m ts e" and "1 \<le> n" and "n \<le> m" and "m \<le> 9"
  shows "expr vs n ts e"
  using assms(3,1,2,4)
proof (induction m rule: dec_induct)
  case (step m)
  then have "expr vs m ts e" by (intro expr_deeper [of vs m]) auto
  with step show ?case by simp
qed simp

section \<open>Results\<close>

definition parses :: "string \<Rightarrow> ('a \<Rightarrow> xpath_lexer \<Rightarrow> bool) \<Rightarrow> 'a xparse \<Rightarrow> bool" where
  "parses q Q m \<longleftrightarrow> (\<exists>x l. m = Inr (Xparsed x l) \<and> lexer_ok q l \<and> Q x l)
     \<or> (\<exists>message s. m = Inr (Xpath_exception message s) \<and> in_query q s)"

named_theorems parsing \<open>rules for the steps of the parser\<close>

lemma parses_throw [parsing]: "lexer_ok q l \<Longrightarrow> parses q Q (xthrow message l)"
  by (auto simp: parses_def xthrow_def lexer_ok_def)

lemma parses_return [parsing]: "lexer_ok q l \<Longrightarrow> Q x l \<Longrightarrow> parses q Q (xreturn x l)"
  by (auto simp: parses_def xreturn_def)

lemma parses_bind:
  assumes "parses q R m" and "\<And>x l. R x l \<Longrightarrow> lexer_ok q l \<Longrightarrow> parses q Q (f x l)"
  shows "parses q Q (xbind m f)"
proof -
  consider x l where "m = Inr (Xparsed x l)" "lexer_ok q l" "R x l" | e s where "m = Inr (Xpath_exception e s)" "in_query q s"
    using assms(1) unfolding parses_def by blast
  then show ?thesis
    by cases (use assms(2) in \<open>auto simp: xbind_def parses_def\<close>)
qed

lemma parses_next:
  assumes "lexer_ok q l" and "\<not> no_lexeme (lx_lexeme l)"
    and "\<And>l1. lexes l [token_of l] l1 \<Longrightarrow> lexer_ok q l1 \<Longrightarrow> left_over l1 < left_over l \<Longrightarrow> parses q Q (f l1)"
  shows "parses q Q (xnext l f)"
  using lexer_next_less [OF assms(1,2)] assms(3) lexes_one by (auto simp: xnext_def)

lemma parses_expect:
  assumes "lexer_ok q l" and "\<not> no_lexeme x"
    and "\<And>l1. lx_lexeme l = x \<Longrightarrow> lexes l [token_of l] l1 \<Longrightarrow> lexer_ok q l1 \<Longrightarrow> left_over l1 < left_over l \<Longrightarrow> parses q Q (f l1)"
  shows "parses q Q (xexpect x message l f)"
  using parses_next [OF assms(1)] assms parses_throw by (auto simp: xexpect_def)

text \<open>Lexemes taken, with what they are, and fewer left.\<close>

definition takes :: "xpath_lexer \<Rightarrow> (token list \<Rightarrow> 'a \<Rightarrow> bool) \<Rightarrow> 'a \<Rightarrow> xpath_lexer \<Rightarrow> bool" where
  "takes l G x l' \<longleftrightarrow> left_over l' < left_over l \<and> (\<exists>ts. lexes l ts l' \<and> G ts x)"

definition may_take :: "xpath_lexer \<Rightarrow> (token list \<Rightarrow> 'a \<Rightarrow> bool) \<Rightarrow> 'a \<Rightarrow> xpath_lexer \<Rightarrow> bool" where
  "may_take l G x l' \<longleftrightarrow> left_over l' \<le> left_over l \<and> (\<exists>ts. lexes l ts l' \<and> G ts x)"

lemma parses_mono:
  assumes "parses q R m" and "\<And>x l. R x l \<Longrightarrow> lexer_ok q l \<Longrightarrow> Q x l"
  shows "parses q Q m"
  using assms by (auto simp: parses_def)

lemma takes_may: "takes l G x l' \<Longrightarrow> may_take l G x l'"
  by (auto simp: takes_def may_take_def)

lemma may_take_left: "may_take l G x l' \<Longrightarrow> left_over l' \<le> left_over l"
  by (simp add: may_take_def)

lemma may_take_none: "G [] x \<Longrightarrow> may_take l G x l"
  by (auto simp: may_take_def intro: lexes.intros)

lemma takes_after:
  assumes "may_take l1 H x l'" and "lexes l ts l1" and "left_over l1 < left_over l" and "\<And>us. H us x \<Longrightarrow> G (ts @ us) x"
  shows "takes l G x l'"
  using assms lexes_append by (fastforce simp: takes_def may_take_def)

lemma may_take_after:
  assumes "may_take l1 H x l'" and "lexes l ts l1" and "left_over l1 \<le> left_over l" and "\<And>us. H us x \<Longrightarrow> G (ts @ us) x"
  shows "may_take l G x l'"
  using assms lexes_append by (fastforce simp: may_take_def)

lemma token_of_bare:
  "lx_lexeme l = x \<Longrightarrow> x \<notin> {lex_var_ref, lex_quoted_string, lex_number, lex_string} \<Longrightarrow> token_of l = (x, [])"
  "lx_lexeme l = x \<Longrightarrow> x \<in> {lex_var_ref, lex_quoted_string, lex_number, lex_string} \<Longrightarrow> token_of l = (x, lx_contents l)"
  by (auto simp: token_of_def)

lemma one_lexeme:
  assumes "lexer_ok q l" and "\<not> no_lexeme (lx_lexeme l)" and "G [token_of l] x"
  shows "parses q (takes l G) (xnext l (xreturn x))"
  using assms(3) by (intro parses_next [OF assms(1,2)] parses_return) (auto simp: takes_def)

text \<open>The next lexeme, where its kind is known, behind the lexemes \<open>ts\<close>.\<close>

lemma token_then:
  assumes "lexes l ts l1" and "left_over l1 < left_over l" and "lexer_ok q l1" and "\<not> no_lexeme (lx_lexeme l1)"
    and "\<And>l2. lexes l (ts @ [token_of l1]) l2 \<Longrightarrow> left_over l2 < left_over l \<Longrightarrow> lexer_ok q l2 \<Longrightarrow> parses q Q (f l2)"
  shows "parses q Q (xnext l1 f)"
  by (rule parses_next [OF assms(3,4)]) (use assms(2) in \<open>auto intro!: assms(5) lexes_append [OF assms(1)]\<close>)

section \<open>Node tests\<close>

lemma type_test_ok:
  fixes axis :: axis
  assumes "lexes l [(lex_open_brace, [])] l1" and "left_over l1 < left_over l" and "lexer_ok q l1" and "lx_lexeme l1 = lex_close_brace"
  shows "parses q (may_take l (\<lambda>us (ax, test, target). ax = axis \<and> node_test ((lex_string, name) # us) test target))
    (xnext l1 (\<lambda>l2. if parse_node_test_type name = nodetest_none then xthrow ''Unrecognized node type'' l2
                    else xreturn (axis, parse_node_test_type name, None) l2))"
proof (rule token_then [OF assms(1-3)])
  fix l2 assume "lexes l ([(lex_open_brace, [])] @ [token_of l1]) l2" "left_over l2 < left_over l" "lexer_ok q l2"
  then show "parses q (may_take l (\<lambda>us (ax, test, target). ax = axis \<and> node_test ((lex_string, name) # us) test target))
      (if parse_node_test_type name = nodetest_none then xthrow ''Unrecognized node type'' l2
       else xreturn (axis, parse_node_test_type name, None) l2)"
    using node_test.intros(4) [of name] assms(4)
    by (auto simp: may_take_def token_of_def intro!: parses_throw parses_return)
qed (use assms(4) in \<open>simp add: no_lexeme_def\<close>)

lemma target_test_ok:
  fixes axis :: axis
  assumes "lexes l [(lex_open_brace, [])] l1" and "left_over l1 < left_over l" and "lexer_ok q l1"
  shows "parses q (may_take l (\<lambda>us (ax, test, target). ax = axis \<and> node_test ((lex_string, ''processing-instruction'') # us) test target))
    (xexpect lex_quoted_string message l1 (\<lambda>l2. xexpect lex_close_brace other l2
      (xreturn (axis, nodetest_pi, Some (lx_contents l1)))))"
proof (rule parses_expect [OF assms(3)], simp add: no_lexeme_def, rule parses_expect)
  fix l2 l3 assume l2: "lx_lexeme l1 = lex_quoted_string" "lexes l1 [token_of l1] l2" "left_over l2 < left_over l1"
    and l3: "lx_lexeme l2 = lex_close_brace" "lexes l2 [token_of l2] l3" "lexer_ok q l3" "left_over l3 < left_over l2"
  have "lexes l [(lex_open_brace, []), (lex_quoted_string, lx_contents l1), (lex_close_brace, [])] l3"
    using lexes_append [OF lexes_append [OF assms(1) l2(2)] l3(2)] l2(1) l3(1) by (simp add: token_of_def)
  then show "parses q (may_take l (\<lambda>us (ax, test, target). ax = axis \<and> node_test ((lex_string, ''processing-instruction'') # us) test target))
      (xreturn (axis, nodetest_pi, Some (lx_contents l1)) l3)"
    using assms(2) l2(3) l3(3,4) node_test.intros(5) [of "lx_contents l1"]
    by (auto simp: may_take_def intro!: parses_return)
qed (simp_all add: no_lexeme_def)

lemma parse_name_test_ok:
  assumes "lexer_ok q l"
  shows "parses q (may_take l (\<lambda>us (ax, test, target). ax = axis \<and> node_test ((lex_string, name) # us) test target))
    (parse_name_test axis name l)"
proof (cases "lx_lexeme l = lex_open_brace")
  case False
  then show ?thesis
    using assms
    by (auto simp: parse_name_test_def intro!: parses_return may_take_none node_test.intros)
next
  case True
  show ?thesis
    unfolding parse_name_test_def if_P [OF True]
  proof (rule parses_next [OF assms])
    fix l1 assume "lexes l [token_of l] l1" and l1: "lexer_ok q l1" "left_over l1 < left_over l"
    then have brace: "lexes l [(lex_open_brace, [])] l1" using True by (simp add: token_of_def)
    show "parses q (may_take l (\<lambda>us (ax, test, target). ax = axis \<and> node_test ((lex_string, name) # us) test target))
       (if lx_lexeme l1 = lex_close_brace then
          xnext l1 (\<lambda>l2.
            if parse_node_test_type name = nodetest_none then xthrow ''Unrecognized node type'' l2
            else xreturn (axis, parse_node_test_type name, None) l2)
        else if name = ''processing-instruction'' then
          xexpect lex_quoted_string ''Only literals are allowed as arguments to processing-instruction()'' l1 (\<lambda>l2.
            xexpect lex_close_brace ''Unmatched brace near processing-instruction()'' l2
              (xreturn (axis, nodetest_pi, Some (lx_contents l1))))
        else xthrow ''Unmatched brace near node type test'' l1)"
      using type_test_ok [OF brace l1(2,1)] target_test_ok [OF brace l1(2,1)] by (simp add: parses_throw l1(1))
  qed (use True in \<open>simp add: no_lexeme_def\<close>)
qed

text \<open>The axis that is known before the node test: none, or the one of \<open>@\<close>.\<close>

definition known_axis :: "token list \<Rightarrow> axis \<Rightarrow> bool \<Rightarrow> bool" where
  "known_axis ts axis specified \<longleftrightarrow>
     (if specified then ts = [(lex_axis_attribute, [])] \<and> axis = axis_attribute else ts = [] \<and> axis = axis_child)"

lemma known_axis_specifier: "known_axis ts axis specified \<Longrightarrow> axis_specifier ts axis"
  by (auto simp: known_axis_def intro: axis_specifier.intros split: if_splits)

definition tested :: "token list \<Rightarrow> axis \<times> nodetest \<times> string option \<Rightarrow> bool" where
  "tested ts x \<longleftrightarrow> (\<exists>as ns. ts = as @ ns \<and> axis_specifier as (fst x) \<and> node_test ns (fst (snd x)) (snd (snd x)))"

lemma tested_node: "axis_specifier as axis \<Longrightarrow> node_test ns test target \<Longrightarrow> tested (as @ ns) (axis, test, target)"
  by (auto simp: tested_def)

lemma all_tested: "axis_specifier as axis \<Longrightarrow> tested (as @ [(lex_multiply, [])]) (axis, nodetest_all, None)"
  by (auto simp: tested_def intro: node_test.intros)

lemma name_tested:
  assumes "axis_specifier as axis" and "lexes l (ts @ [(lex_string, name)]) l1" and "left_over l1 < left_over l"
    and "lexer_ok q l1" and "as = pre @ ts"
  shows "parses q (takes l (\<lambda>us. tested (pre @ us))) (parse_name_test axis name l1)"
  using parse_name_test_ok [OF assms(4)]
proof (rule parses_mono)
  fix x l' assume "may_take l1 (\<lambda>us (ax, test, target). ax = axis \<and> node_test ((lex_string, name) # us) test target) x l'"
  then show "takes l (\<lambda>us. tested (pre @ us)) x l'"
    by (rule takes_after [OF _ assms(2,3)])
      (use tested_node [OF assms(1)] assms(5) in \<open>auto split: prod.splits\<close>)
qed

text \<open>Behind the name of an axis and two colons.\<close>

lemma named_axis_ok:
  assumes "parse_axis_name axis_name = Some axis" and "lexes l [(lex_string, axis_name)] l1" and "left_over l1 < left_over l"
    and "lexer_ok q l1" and "lx_lexeme l1 = lex_double_colon"
  shows "parses q (takes l tested) (xnext l1 (\<lambda>l2.
      if lx_lexeme l2 = lex_multiply then xnext l2 (xreturn (axis, nodetest_all, None))
      else if lx_lexeme l2 = lex_string then xnext l2 (parse_name_test axis (lx_contents l2))
      else xthrow ''Unrecognized node test'' l2))"
proof (rule token_then [OF assms(2-4)])
  let ?as = "[(lex_string, axis_name), (lex_double_colon, [])]"
  note specified = axis_specifier.intros(3) [OF assms(1)]
  fix l2 assume "lexes l ([(lex_string, axis_name)] @ [token_of l1]) l2" and l2: "left_over l2 < left_over l" "lexer_ok q l2"
  then have as: "lexes l ?as l2" using assms(5) by (simp add: token_of_def)
  have "lx_lexeme l2 = lex_multiply \<Longrightarrow> parses q (takes l tested) (xnext l2 (xreturn (axis, nodetest_all, None)))"
    by (rule token_then [OF as l2])
      (use all_tested [OF specified] in \<open>auto simp: token_of_def no_lexeme_def takes_def intro!: parses_return\<close>)
  moreover have "lx_lexeme l2 = lex_string \<Longrightarrow> parses q (takes l tested) (xnext l2 (parse_name_test axis (lx_contents l2)))"
    using name_tested [OF specified, of l ?as _ _ q "[]"]
    by (intro token_then [OF as l2]) (auto simp: token_of_def no_lexeme_def)
  ultimately show "parses q (takes l tested)
      (if lx_lexeme l2 = lex_multiply then xnext l2 (xreturn (axis, nodetest_all, None))
       else if lx_lexeme l2 = lex_string then xnext l2 (parse_name_test axis (lx_contents l2))
       else xthrow ''Unrecognized node test'' l2)"
    by (simp add: parses_throw l2(2))
qed (use assms(5) in \<open>simp add: no_lexeme_def\<close>)

lemma parse_node_test_ok:
  assumes "lexer_ok q l" and "known_axis pre axis specified"
  shows "parses q (takes l (\<lambda>us. tested (pre @ us))) (parse_node_test axis specified l)"
proof (cases "lx_lexeme l = lex_string")
  case False
  have "lx_lexeme l = lex_multiply \<Longrightarrow> parses q (takes l (\<lambda>us. tested (pre @ us))) (xnext l (xreturn (axis, nodetest_all, None)))"
    using all_tested [OF known_axis_specifier [OF assms(2)]]
    by (intro one_lexeme [OF assms(1)]) (simp_all add: token_of_def no_lexeme_def)
  with False show ?thesis by (cases "lx_lexeme l = lex_multiply") (simp_all add: parse_node_test_def parses_throw assms(1))
next
  case True
  show ?thesis
    unfolding parse_node_test_def if_P [OF True]
  proof (rule parses_next [OF assms(1)])
    fix l1 assume "lexes l [token_of l] l1" and l1: "lexer_ok q l1" "left_over l1 < left_over l"
    then have name: "lexes l [(lex_string, lx_contents l)] l1" using True by (simp add: token_of_def)
    have "parses q (takes l (\<lambda>us. tested (pre @ us))) (parse_name_test axis (lx_contents l) l1)"
      by (rule name_tested [OF known_axis_specifier [OF assms(2)], of l "[]"]) (use name l1 in simp_all)
    moreover have "\<not> specified \<Longrightarrow> pre = []" using assms(2) by (simp add: known_axis_def)
    ultimately show "parses q (takes l (\<lambda>us. tested (pre @ us)))
      (if lx_lexeme l1 = lex_double_colon then
         if specified then xthrow ''Two axis specifiers in one step'' l1
         else (case parse_axis_name (lx_contents l) of
             None \<Rightarrow> xthrow ''Unknown axis'' l1
           | Some named \<Rightarrow>
               xnext l1 (\<lambda>l2.
                 if lx_lexeme l2 = lex_multiply then xnext l2 (xreturn (named, nodetest_all, None))
                 else if lx_lexeme l2 = lex_string then xnext l2 (parse_name_test named (lx_contents l2))
                 else xthrow ''Unrecognized node test'' l2))
       else parse_name_test axis (lx_contents l) l1)"
      using named_axis_ok [OF _ name l1(2,1)] by (auto simp: parses_throw l1(1) split: option.split)
  qed (use True in \<open>simp add: no_lexeme_def\<close>)
qed

section \<open>What is expected of the calls\<close>

definition op_precedence :: "xpath_lexer \<Rightarrow> nat" where
  "op_precedence l = (case binary_op_parse l of Some (_, _, p) \<Rightarrow> p | None \<Rightarrow> 0)"

text \<open>An operand may stand on either side of an operator of precedence \<open>p\<close> or less; the operand of the
  union, precedence 7, may be a unary expression here, which the check of its type refuses later.\<close>

definition fits :: "xpath_variables option \<Rightarrow> nat \<Rightarrow> token list \<Rightarrow> ast_node \<Rightarrow> bool" where
  "fits vs p ts e \<longleftrightarrow> (if p = 7 then expr vs 8 ts e \<or> (expr vs 7 ts e \<and> \<not> node_set e) else expr vs p ts e)"

definition right_fits :: "xpath_variables option \<Rightarrow> nat \<Rightarrow> token list \<Rightarrow> ast_node \<Rightarrow> bool" where
  "right_fits vs p ts e \<longleftrightarrow> (if p = 7 then expr vs 9 ts e \<or> \<not> node_set e else expr vs (Suc p) ts e)"

definition operand :: "xpath_variables option \<Rightarrow> token list \<Rightarrow> ast_node \<Rightarrow> bool" where
  "operand vs ts e \<longleftrightarrow> expr vs 9 ts e \<or> (expr vs 7 ts e \<and> \<not> node_set e)"

lemma fits_lower: "fits vs m ts e \<Longrightarrow> 1 \<le> p \<Longrightarrow> p \<le> m \<Longrightarrow> m \<le> 7 \<Longrightarrow> fits vs p ts e"
  using expr_lower [of vs 8 ts e p] expr_lower [of vs 7 ts e p] expr_lower [of vs m ts e p]
  by (auto simp: fits_def split: if_splits)

lemma operand_fits: "operand vs ts e \<Longrightarrow> 1 \<le> p \<Longrightarrow> p \<le> 7 \<Longrightarrow> fits vs p ts e"
  using expr_lower [of vs 9 ts e 8] expr_lower [of vs 9 ts e p] expr_lower [of vs 7 ts e p]
  by (auto simp: operand_def fits_def)

lemma operand_right: "operand vs ts e \<Longrightarrow> 1 \<le> p \<Longrightarrow> p \<le> 7 \<Longrightarrow> right_fits vs p ts e"
  using expr_lower [of vs 9 ts e "Suc p"] expr_lower [of vs 7 ts e "Suc p"]
  by (auto simp: operand_def right_fits_def)

lemma fits_right: "fits vs m ts e \<Longrightarrow> p < m \<Longrightarrow> m \<le> 7 \<Longrightarrow> right_fits vs p ts e"
  using fits_lower [of vs m ts e "Suc p"] expr_lower [of vs 8 ts e 7]
  by (auto simp: fits_def right_fits_def split: if_splits)

lemma binary_op_operator:
  assumes "binary_op_parse l = Some (a, r, p)"
  shows "(if p = 7 then 8 else p, token_of l, a, r) \<in> set operators" "1 \<le> p" "p \<le> 7" "\<not> no_lexeme (lx_lexeme l)"
    "a = ast_op_union \<longleftrightarrow> p = 7"
  using assms unfolding binary_op_parse_def
  by (cases "lx_lexeme l"; auto simp: operators_def token_of_def no_lexeme_def split: if_splits)+

lemma fits_binary:
  assumes "binary_op_parse l = Some (a, r, p)" and "fits vs p ts lhs" and "right_fits vs p us rhs"
    and "a = ast_op_union \<longrightarrow> node_set lhs \<and> node_set rhs"
  shows "fits vs p (ts @ token_of l # us) (ast_op a r (Some lhs) (Some rhs))"
proof -
  note op = binary_op_operator [OF assms(1)]
  have "expr vs (if p = 7 then 8 else p) (ts @ token_of l # us) (ast_op a r (Some lhs) (Some rhs))"
    by (rule expr_binary [OF _ op(1)]) (use assms(2-4) op(5) in \<open>auto simp: fits_def right_fits_def split: if_splits\<close>)
  then show ?thesis by (auto simp: fits_def)
qed

definition depth_for :: "nat \<Rightarrow> xpath_lexer \<Rightarrow> nat \<Rightarrow> bool" where
  "depth_for k l c \<longleftrightarrow> 2 * left_over l + c < k"

definition goes_on :: "xpath_variables option \<Rightarrow> nat \<Rightarrow> token list \<Rightarrow> xpath_lexer \<Rightarrow> ast_node \<Rightarrow> xpath_lexer \<Rightarrow> bool" where
  "goes_on vs limit ts l x l' \<longleftrightarrow> may_take l (\<lambda>us. fits vs (max 1 limit) (ts @ us)) x l'
     \<and> op_precedence l' < max 1 limit
     \<and> (max 1 limit \<le> op_precedence l \<longrightarrow> left_over l' < left_over l)"

definition tightens :: "xpath_variables option \<Rightarrow> nat \<Rightarrow> token list \<Rightarrow> xpath_lexer \<Rightarrow> ast_node \<Rightarrow> xpath_lexer \<Rightarrow> bool" where
  "tightens vs p ts l x l' \<longleftrightarrow> may_take l (\<lambda>us. right_fits vs p (ts @ us)) x l' \<and> op_precedence l' \<le> p"


locale xpath_calls_ok =
  fixes q :: string and vs :: "xpath_variables option" and k :: nat and P :: xpath_calls
  assumes expression:
      "lexer_ok q l \<Longrightarrow> depth_for k l 1 \<Longrightarrow> parses q (takes l (expr vs 1)) (call_expression P l)"
    and expression_rec:
      "lexer_ok q l \<Longrightarrow> depth_for k l 0 \<Longrightarrow> fits vs m ts e \<Longrightarrow> max 1 limit \<le> m \<Longrightarrow> m \<le> 7 \<Longrightarrow> op_precedence l \<le> m \<Longrightarrow>
       parses q (goes_on vs limit ts l) (call_expression_rec P e limit l)"
    and tighter:
      "lexer_ok q l \<Longrightarrow> depth_for k l 1 \<Longrightarrow> 1 \<le> p \<Longrightarrow> p \<le> 7 \<Longrightarrow> right_fits vs p ts e \<Longrightarrow>
       p < 7 \<longrightarrow> (\<exists>m. p < m \<and> m \<le> 7 \<and> fits vs m ts e \<and> op_precedence l \<le> m) \<Longrightarrow>
       parses q (tightens vs p ts l) (call_tighter P e p l)"
    and path_or_unary:
      "lexer_ok q l \<Longrightarrow> depth_for k l 0 \<Longrightarrow> parses q (takes l (operand vs)) (call_path_or_unary P l)"
    and filter_predicates:
      "lexer_ok q l \<Longrightarrow> depth_for k l 0 \<Longrightarrow> filter_expr vs ts e \<Longrightarrow>
       parses q (may_take l (\<lambda>us. filter_expr vs (ts @ us))) (call_filter_predicates P e l)"
    and arguments:
      "lexer_ok q l \<Longrightarrow> depth_for k l 0 \<Longrightarrow> arguments vs ts es \<Longrightarrow> es = [] \<longrightarrow> lx_lexeme l = lex_close_brace \<Longrightarrow>
       parses q (\<lambda>x l'. may_take l (\<lambda>us. arguments vs (ts @ us)) x l' \<and> lx_lexeme l' = lex_close_brace) (call_arguments P es l)"
    and step_predicates:
      "lexer_ok q l \<Longrightarrow> depth_for k l 0 \<Longrightarrow> predicates vs ts ps \<Longrightarrow>
       parses q (may_take l (\<lambda>us. predicates vs (ts @ us))) (call_step_predicates P ps l)"
    and steps:
      "lexer_ok q l \<Longrightarrow> depth_for k l 0 \<Longrightarrow> relative_path vs left ts e \<Longrightarrow>
       parses q (may_take l (\<lambda>us. relative_path vs left (ts @ us))) (call_steps P e l)"
begin

lemma depth_less:
  "depth_for (Suc k) l c \<Longrightarrow> left_over l1 < left_over l \<Longrightarrow> c' \<le> 1 \<Longrightarrow> depth_for k l1 c'"
  by (simp add: depth_for_def)

lemma depth_same: "depth_for (Suc k) l c \<Longrightarrow> c' < c \<Longrightarrow> depth_for k l c'"
  by (simp add: depth_for_def)

text \<open>An expression behind the lexemes \<open>ts\<close>, and the lexeme that has to follow it.\<close>

lemma expression_then:
  assumes "lexes l ts l1" and "left_over l1 < left_over l" and "lexer_ok q l1" and "depth_for (Suc k) l c"
    and "\<And>us x l2. lexes l (ts @ us) l2 \<Longrightarrow> expr vs 1 us x \<Longrightarrow> left_over l2 < left_over l \<Longrightarrow> lexer_ok q l2 \<Longrightarrow>
      parses q Q (f x l2)"
  shows "parses q Q (xbind (call_expression P l1) f)"
proof (rule parses_bind [OF expression [OF assms(3)]])
  show "depth_for k l1 1" using depth_less [OF assms(4,2)] by simp
  fix x l2 assume "takes l1 (expr vs 1) x l2" "lexer_ok q l2"
  then show "parses q Q (f x l2)"
    using assms(2) by (auto simp: takes_def intro: assms(5) lexes_append [OF assms(1)])
qed

lemma expect_then:
  assumes "lexes l ts l1" and "left_over l1 < left_over l" and "lexer_ok q l1"
    and "\<not> no_lexeme x" and "x \<notin> {lex_var_ref, lex_quoted_string, lex_number, lex_string}"
    and "\<And>l2. lexes l (ts @ [(x, [])]) l2 \<Longrightarrow> left_over l2 < left_over l \<Longrightarrow> lexer_ok q l2 \<Longrightarrow> parses q Q (f l2)"
  shows "parses q Q (xexpect x message l1 f)"
proof (rule parses_expect [OF assms(3,4)])
  fix l2 assume "lx_lexeme l1 = x" "lexes l1 [token_of l1] l2" "lexer_ok q l2" "left_over l2 < left_over l1"
  then show "parses q Q (f l2)"
    using lexes_append [OF assms(1), of "[token_of l1]" l2] token_of_bare(1) [OF _ assms(5), of l1] assms(2,6) by simp
qed

lemma parse_expression_ok:
  assumes "lexer_ok q l" and "depth_for (Suc k) l 1"
  shows "parses q (takes l (expr vs 1)) (parse_expression P l)"
  unfolding parse_expression_def
proof (rule parses_bind [OF path_or_unary])
  fix n l1 assume n: "takes l (operand vs) n l1" and l1: "lexer_ok q l1"
  then obtain ts where ts: "lexes l ts l1" "operand vs ts n" "left_over l1 < left_over l" by (auto simp: takes_def)
  have "op_precedence l1 \<le> 7"
    using binary_op_operator(3) [of l1] by (auto simp: op_precedence_def split: option.split)
  then have "parses q (goes_on vs 0 ts l1) (call_expression_rec P n 0 l1)"
    using operand_fits [OF ts(2), of 7] by (intro expression_rec [OF l1 depth_less [OF assms(2) ts(3)], of 7]) auto
  then show "parses q (takes l (expr vs 1)) (call_expression_rec P n 0 l1)"
    by (rule parses_mono) (auto simp: goes_on_def fits_def elim: takes_after [OF _ ts(1,3)])
qed (use assms depth_same in auto)

lemma parse_arguments_ok:
  assumes "lexer_ok q l" and "depth_for (Suc k) l 0" and "arguments vs ts es" and "es = [] \<longrightarrow> lx_lexeme l = lex_close_brace"
  shows "parses q (\<lambda>x l'. may_take l (\<lambda>us. arguments vs (ts @ us)) x l' \<and> lx_lexeme l' = lex_close_brace) (parse_arguments P es l)"
proof (cases "lx_lexeme l = lex_close_brace")
  case True
  then show ?thesis using assms by (auto simp: parse_arguments_def intro!: parses_return may_take_none)
next
  case False
  let ?Q = "\<lambda>x l'. may_take l (\<lambda>us. arguments vs (ts @ us)) x l' \<and> lx_lexeme l' = lex_close_brace"
  have "parses q ?Q (xexpect lex_comma ''No comma between function arguments'' l (\<lambda>l1.
        xbind (call_expression P l1) (\<lambda>n. call_arguments P (es @ [n]))))"
  proof (rule parses_expect [OF assms(1)])
    fix l1 assume l1: "lx_lexeme l = lex_comma" "lexes l [token_of l] l1" "lexer_ok q l1" "left_over l1 < left_over l"
    show "parses q ?Q (xbind (call_expression P l1) (\<lambda>n. call_arguments P (es @ [n])))"
    proof (rule expression_then [OF l1(2,4,3) assms(2)])
      fix us x l2
      assume us: "lexes l ([token_of l] @ us) l2" "expr vs 1 us x" "left_over l2 < left_over l" "lexer_ok q l2"
      have "arguments vs (ts @ (lex_comma, []) # us) (es @ [x])"
        using assms(3,4) False us(2) by (intro more_arguments) auto
      from arguments [OF us(4) depth_less [OF assms(2) us(3)] this]
      show "parses q ?Q (call_arguments P (es @ [x]) l2)"
        using us(1,3) l1(1)
        by (auto simp: token_of_def elim!: parses_mono may_take_after [OF _ us(1)])
    qed
  qed (simp add: no_lexeme_def)
  with False show ?thesis by (simp add: parse_arguments_def)
qed

subsection \<open>Primary expressions and filters\<close>

lemma parse_variable_ok:
  assumes "lexer_ok q l" and "lx_lexeme l = lex_var_ref"
  shows "parses q (takes l (primary_expr vs)) (parse_variable vs l)"
  using assms one_lexeme [OF assms(1), of "primary_expr vs"] parses_throw [OF assms(1)]
  by (auto simp: parse_variable_def no_lexeme_def token_of_def intro: primary_variable split: option.split)

lemma first_argument_ok:
  assumes "lexes l ts l2" and "left_over l2 < left_over l" and "lexer_ok q l2" and "depth_for (Suc k) l 0"
  shows "parses q (\<lambda>es l3. \<exists>us. lexes l (ts @ us) l3 \<and> arguments vs us es \<and> left_over l3 < left_over l
      \<and> (es = [] \<longrightarrow> lx_lexeme l3 = lex_close_brace))
    (if lx_lexeme l2 = lex_close_brace then xreturn [] l2 else xbind (call_expression P l2) (\<lambda>n. xreturn [n]))"
  (is "parses q ?Q _")
proof (cases "lx_lexeme l2 = lex_close_brace")
  case True
  then show ?thesis using assms no_arguments by (auto intro!: parses_return exI [of _ "[]"])
next
  case False
  have "parses q ?Q (xbind (call_expression P l2) (\<lambda>n. xreturn [n]))"
    by (rule expression_then [OF assms]) (auto intro!: parses_return intro: one_argument simp del: One_nat_def)
  with False show ?thesis by simp
qed

text \<open>The rest of a call, when all arguments have been read.\<close>

lemma call_ends:
  assumes "lexes l ([(lex_string, name), (lex_open_brace, [])] @ ts) l4" and "arguments vs ts args"
    and "left_over l4 < left_over l" and "lx_lexeme l4 = lex_close_brace" and "lexer_ok q l4"
  shows "parses q (takes l (primary_expr vs)) (xnext l4 (\<lambda>l5.
      case parse_function name args of Inl message \<Rightarrow> xthrow message l5 | Inr n \<Rightarrow> xreturn n l5))"
proof (rule parses_next [OF assms(5)])
  fix l5 assume l5: "lexes l4 [token_of l4] l5" "lexer_ok q l5" "left_over l5 < left_over l4"
  have "lexes l ((lex_string, name) # (lex_open_brace, []) # ts @ [(lex_close_brace, [])]) l5"
    using lexes_append [OF assms(1) l5(1)] assms(4) by (simp add: token_of_def)
  then show "parses q (takes l (primary_expr vs))
      (case parse_function name args of Inl message \<Rightarrow> xthrow message l5 | Inr n \<Rightarrow> xreturn n l5)"
    using primary_call [OF assms(2), of name] assms(3) l5(2,3)
    by (auto simp: takes_def intro!: parses_throw parses_return split: sum.split)
qed (use assms(4) in \<open>simp add: no_lexeme_def\<close>)

lemma parse_function_call_ok:
  assumes "lexer_ok q l" and "lx_lexeme l = lex_string" and "depth_for (Suc k) l 0"
  shows "parses q (takes l (primary_expr vs)) (parse_function_call P l)"
  unfolding parse_function_call_def
proof (rule parses_next [OF assms(1)])
  let ?name = "lx_contents l"
  let ?rest = "\<lambda>args l3. xbind (call_arguments P args l3) (\<lambda>args l4. xnext l4 (\<lambda>l5.
      case parse_function ?name args of Inl message \<Rightarrow> xthrow message l5 | Inr n \<Rightarrow> xreturn n l5))"
  fix l1 assume l1: "lexes l [token_of l] l1" "lexer_ok q l1" "left_over l1 < left_over l"
  then have name: "lexes l [(lex_string, ?name)] l1" using assms(2) by (simp add: token_of_def)
  show "parses q (takes l (primary_expr vs)) (xexpect lex_open_brace ''Unrecognized function call'' l1 (\<lambda>l2.
       xbind (if lx_lexeme l2 = lex_close_brace then xreturn [] l2
              else xbind (call_expression P l2) (\<lambda>n. xreturn [n])) ?rest))"
  proof (rule expect_then [OF name l1(3,2)])
    fix l2 assume l2: "lexes l ([(lex_string, ?name)] @ [(lex_open_brace, [])]) l2" "left_over l2 < left_over l" "lexer_ok q l2"
    show "parses q (takes l (primary_expr vs))
       (xbind (if lx_lexeme l2 = lex_close_brace then xreturn [] l2 else xbind (call_expression P l2) (\<lambda>n. xreturn [n])) ?rest)"
    proof (rule parses_bind [OF first_argument_ok [OF l2 assms(3)]])
      fix es l3
      assume "\<exists>us. lexes l (([(lex_string, ?name)] @ [(lex_open_brace, [])]) @ us) l3 \<and> arguments vs us es
          \<and> left_over l3 < left_over l \<and> (es = [] \<longrightarrow> lx_lexeme l3 = lex_close_brace)" and ok3: "lexer_ok q l3"
      then obtain us where l3: "lexes l ([(lex_string, ?name), (lex_open_brace, [])] @ us) l3" "arguments vs us es"
        "left_over l3 < left_over l" "es = [] \<longrightarrow> lx_lexeme l3 = lex_close_brace" by auto
      show "parses q (takes l (primary_expr vs)) (?rest es l3)"
      proof (rule parses_bind [OF arguments [OF ok3 depth_less [OF assms(3) l3(3)] l3(2,4)]])
        fix args l4 assume "may_take l3 (\<lambda>ws. arguments vs (us @ ws)) args l4 \<and> lx_lexeme l4 = lex_close_brace"
          and ok4: "lexer_ok q l4"
        then obtain ws where "lexes l3 ws l4" "arguments vs (us @ ws) args" "left_over l4 \<le> left_over l3"
          "lx_lexeme l4 = lex_close_brace" by (auto simp: may_take_def)
        then show "parses q (takes l (primary_expr vs)) (xnext l4 (\<lambda>l5.
            case parse_function ?name args of Inl message \<Rightarrow> xthrow message l5 | Inr n \<Rightarrow> xreturn n l5))"
          using lexes_append [OF l3(1)] l3(3) ok4 by (intro call_ends [where ts = "us @ ws"]) auto
      qed simp
    qed
  qed (simp_all add: no_lexeme_def)
qed (use assms(2) in \<open>simp add: no_lexeme_def\<close>)

lemma parse_braces_ok:
  assumes "lexer_ok q l" and "lx_lexeme l = lex_open_brace" and "depth_for (Suc k) l 0"
  shows "parses q (takes l (primary_expr vs)) (xnext l (\<lambda>l1. xbind (call_expression P l1) (\<lambda>n l2.
            xexpect lex_close_brace ''Unmatched braces'' l2 (xreturn n))))"
proof (rule parses_next [OF assms(1)])
  fix l1 assume l1: "lexes l [token_of l] l1" "lexer_ok q l1" "left_over l1 < left_over l"
  then have open_brace: "lexes l [(lex_open_brace, [])] l1" using assms(2) by (simp add: token_of_def)
  show "parses q (takes l (primary_expr vs)) (xbind (call_expression P l1) (\<lambda>n l2.
            xexpect lex_close_brace ''Unmatched braces'' l2 (xreturn n)))"
  proof (rule expression_then [OF open_brace l1(3,2) assms(3)])
    fix us x l2
    assume l2: "lexes l ([(lex_open_brace, [])] @ us) l2" "expr vs 1 us x" "left_over l2 < left_over l" "lexer_ok q l2"
    show "parses q (takes l (primary_expr vs)) (xexpect lex_close_brace ''Unmatched braces'' l2 (xreturn x))"
      by (rule expect_then [OF l2(1,3,4)])
        (use primary_braces [OF l2(2)] in \<open>auto simp: takes_def no_lexeme_def intro!: parses_return\<close>)
  qed
qed (use assms(2) in \<open>simp add: no_lexeme_def\<close>)

lemma parse_primary_expression_ok:
  assumes "lexer_ok q l" and "depth_for (Suc k) l 0"
  shows "parses q (takes l (primary_expr vs)) (parse_primary_expression vs P l)"
  using parse_variable_ok [OF assms(1)] parse_braces_ok [OF assms(1) _ assms(2)] parse_function_call_ok [OF assms(1) _ assms(2)]
    one_lexeme [OF assms(1), of "primary_expr vs" "ast_string (lx_contents l)"]
    one_lexeme [OF assms(1), of "primary_expr vs" "ast_number (convert_string_to_number (lx_contents l))"]
    parses_throw [OF assms(1)] primary_literal primary_number
  by (cases "lx_lexeme l") (simp_all add: parse_primary_expression_def no_lexeme_def token_of_def)

text \<open>A predicate: an expression in square brackets.\<close>

lemma predicate_then:
  assumes "lexer_ok q l" and "lx_lexeme l = lex_open_square_brace" and "depth_for (Suc k) l 0"
    and "\<And>us x l3. \<not> refuse \<Longrightarrow> lexes l ((lex_open_square_brace, []) # us @ [(lex_close_square_brace, [])]) l3 \<Longrightarrow>
      expr vs 1 us x \<Longrightarrow> left_over l3 < left_over l \<Longrightarrow> lexer_ok q l3 \<Longrightarrow> parses q Q (f x l3)"
  shows "parses q Q (xnext l (\<lambda>l1. xbind (call_expression P l1) (\<lambda>e l2.
           if refuse then xthrow other l2 else xexpect lex_close_square_brace message l2 (f e))))"
proof (rule parses_next [OF assms(1)])
  fix l1 assume l1: "lexes l [token_of l] l1" "lexer_ok q l1" "left_over l1 < left_over l"
  then have open_brace: "lexes l [(lex_open_square_brace, [])] l1" using assms(2) by (simp add: token_of_def)
  show "parses q Q (xbind (call_expression P l1) (\<lambda>e l2.
           if refuse then xthrow other l2 else xexpect lex_close_square_brace message l2 (f e)))"
  proof (rule expression_then [OF open_brace l1(3,2) assms(3)])
    fix us x l2
    assume l2: "lexes l ([(lex_open_square_brace, [])] @ us) l2" "expr vs 1 us x" "left_over l2 < left_over l" "lexer_ok q l2"
    have "\<not> refuse \<Longrightarrow> parses q Q (xexpect lex_close_square_brace message l2 (f x))"
      by (rule expect_then [OF l2(1,3,4)]) (use assms(4) l2(2) in \<open>auto simp: no_lexeme_def\<close>)
    then show "parses q Q (if refuse then xthrow other l2 else xexpect lex_close_square_brace message l2 (f x))"
      by (cases refuse) (simp_all add: parses_throw l2(4))
  qed
qed (use assms(2) in \<open>simp add: no_lexeme_def\<close>)

lemma parse_filter_predicates_ok:
  assumes "lexer_ok q l" and "depth_for (Suc k) l 0" and "filter_expr vs ts e"
  shows "parses q (may_take l (\<lambda>us. filter_expr vs (ts @ us))) (parse_filter_predicates P e l)"
proof (cases "lx_lexeme l = lex_open_square_brace")
  case True
  have "parses q (may_take l (\<lambda>us. filter_expr vs (ts @ us)))
    (xnext l (\<lambda>l1. xbind (call_expression P l1) (\<lambda>p l2.
       if \<not> node_set e then xthrow ''Predicate has to be applied to node set'' l2
       else xexpect lex_close_square_brace ''Unmatched square brace'' l2
               (call_filter_predicates P (ast_predicate_node ast_filter (Some e) p)))))"
  proof (rule predicate_then [OF assms(1) True assms(2)])
    fix us x l3 assume set: "\<not> \<not> node_set e" and l3: "lexes l ((lex_open_square_brace, []) # us @ [(lex_close_square_brace, [])]) l3"
      "expr vs 1 us x" "left_over l3 < left_over l" "lexer_ok q l3"
    have "filter_expr vs (ts @ (lex_open_square_brace, []) # us @ [(lex_close_square_brace, [])])
        (ast_predicate_node ast_filter (Some e) x)"
      using set by (intro filter_predicate [OF assms(3) _ l3(2)]) simp
    from filter_predicates [OF l3(4) depth_less [OF assms(2) l3(3)] this]
    show "parses q (may_take l (\<lambda>us. filter_expr vs (ts @ us)))
        (call_filter_predicates P (ast_predicate_node ast_filter (Some e) x) l3)"
      using l3(3) by (auto elim!: parses_mono may_take_after [OF _ l3(1)])
  qed
  with True show ?thesis by (simp add: parse_filter_predicates_def)
next
  case False
  then show ?thesis using assms by (auto simp: parse_filter_predicates_def intro!: parses_return may_take_none)
qed

lemma parse_filter_expression_ok:
  assumes "lexer_ok q l" and "depth_for (Suc k) l 0"
  shows "parses q (takes l (filter_expr vs)) (parse_filter_expression vs P l)"
  unfolding parse_filter_expression_def
proof (rule parses_bind [OF parse_primary_expression_ok [OF assms]])
  fix n l1 assume "takes l (primary_expr vs) n l1" and ok: "lexer_ok q l1"
  then obtain ts where ts: "lexes l ts l1" "primary_expr vs ts n" "left_over l1 < left_over l" by (auto simp: takes_def)
  show "parses q (takes l (filter_expr vs)) (call_filter_predicates P n l1)"
    by (rule parses_mono [OF filter_predicates [OF ok depth_less [OF assms(2) ts(3)] filter_primary [OF ts(2)]]])
      (auto elim!: takes_after [OF _ ts(1,3)])
qed

subsection \<open>Steps and paths\<close>

lemma parse_step_predicates_ok:
  assumes "lexer_ok q l" and "depth_for (Suc k) l 0" and "predicates vs ts ps"
  shows "parses q (may_take l (\<lambda>us. predicates vs (ts @ us))) (parse_step_predicates P ps l)"
proof (cases "lx_lexeme l = lex_open_square_brace")
  case True
  have "parses q (may_take l (\<lambda>us. predicates vs (ts @ us)))
    (xnext l (\<lambda>l1. xbind (call_expression P l1) (\<lambda>e l2. if False then xthrow [] l2
       else xexpect lex_close_square_brace ''Unmatched square brace'' l2
               (call_step_predicates P (ps @ [ast_predicate_node ast_predicate None e])))))"
  proof (rule predicate_then [OF assms(1) True assms(2)])
    fix us x l3 assume l3: "lexes l ((lex_open_square_brace, []) # us @ [(lex_close_square_brace, [])]) l3"
      "expr vs 1 us x" "left_over l3 < left_over l" "lexer_ok q l3"
    from step_predicates [OF l3(4) depth_less [OF assms(2) l3(3)] more_predicates [OF assms(3) l3(2)]]
    show "parses q (may_take l (\<lambda>us. predicates vs (ts @ us)))
        (call_step_predicates P (ps @ [ast_predicate_node ast_predicate None x]) l3)"
      using l3(3) by (auto elim!: parses_mono may_take_after [OF _ l3(1)])
  qed
  with True show ?thesis by (simp add: parse_step_predicates_def)
next
  case False
  then show ?thesis using assms by (auto simp: parse_step_predicates_def intro!: parses_return may_take_none)
qed

text \<open>A step that is not abbreviated, behind its axis specifier if that is \<open>@\<close>.\<close>

lemma step_then:
  assumes "lexes l pre l1" and "left_over l1 \<le> left_over l" and "lexer_ok q l1" and "known_axis pre axis specified"
    and "may_step left" and "depth_for (Suc k) l 0"
  shows "parses q (takes l (path_step vs left)) (xbind (parse_node_test axis specified l1) (\<lambda>(axis, nt_type, nt_name) l2.
        xbind (call_step_predicates P [] l2) (\<lambda>preds.
          xreturn (set_right (chain preds) (ast_step_node left axis nt_type nt_name)))))"
proof (rule parses_bind [OF parse_node_test_ok [OF assms(3,4)]])
  fix x l2 assume "takes l1 (\<lambda>us. tested (pre @ us)) x l2" and ok2: "lexer_ok q l2"
  moreover obtain ax test name where x: "x = (ax, test, name)" by (cases x) auto
  ultimately obtain ts as ns where l2: "lexes l1 ts l2" "left_over l2 < left_over l1" "pre @ ts = as @ ns"
    "axis_specifier as ax" "node_test ns test name" by (auto simp: takes_def tested_def)
  have two: "lexes l (as @ ns) l2" "left_over l2 < left_over l"
    using lexes_append [OF assms(1) l2(1)] l2(2,3) assms(2) by auto
  have "parses q (takes l (path_step vs left)) (xbind (call_step_predicates P [] l2) (\<lambda>preds.
          xreturn (set_right (chain preds) (ast_step_node left ax test name))))"
  proof (rule parses_bind [OF step_predicates [OF ok2 depth_less [OF assms(6) two(2)] no_predicates]])
    fix ps l3 assume "may_take l2 (\<lambda>us. predicates vs ([] @ us)) ps l3" and ok3: "lexer_ok q l3"
    then obtain ws where "lexes l2 ws l3" "predicates vs ws ps" "left_over l3 \<le> left_over l2" by (auto simp: may_take_def)
    then show "parses q (takes l (path_step vs left)) (xreturn (set_right (chain ps) (ast_step_node left ax test name)) l3)"
      using lexes_append [OF two(1)] two(2) step_full [OF assms(5) l2(4,5)] ok3
      by (fastforce simp: takes_def intro!: parses_return)
  qed simp
  then show "parses q (takes l (path_step vs left)) ((case x of (axis, nt_type, nt_name) \<Rightarrow> \<lambda>l2.
        xbind (call_step_predicates P [] l2) (\<lambda>preds.
          xreturn (set_right (chain preds) (ast_step_node left axis nt_type nt_name)))) l2)"
    by (simp add: x)
qed

lemma parse_step_ok:
  assumes "lexer_ok q l" and "depth_for (Suc k) l 0"
  shows "parses q (takes l (path_step vs left)) (parse_step P left l)"
proof (cases "may_step left")
  case False
  then show ?thesis using parses_throw [OF assms(1)] by (auto simp: may_step_def parse_step_def split: option.splits)
next
  case True
  then have ok: "\<not> (left \<noteq> None \<and> \<not> node_set (the left))" by (auto simp: may_step_def split: option.splits)
  let ?f = "\<lambda>axis specified l1. xbind (parse_node_test axis specified l1) (\<lambda>(axis, nt_type, nt_name) l2.
        xbind (call_step_predicates P [] l2) (\<lambda>preds.
          xreturn (set_right (chain preds) (ast_step_node left axis nt_type nt_name))))"
  have "parses q (takes l (path_step vs left)) (?f axis_child False l)"
    by (rule step_then [OF lexes_none _ assms(1) _ True assms(2)]) (simp_all add: known_axis_def)
  moreover have "parses q (takes l (path_step vs left)) (xnext l (?f axis_attribute True))" if "lx_lexeme l = lex_axis_attribute"
  proof (rule parses_next [OF assms(1)])
    fix l1 assume l1: "lexes l [token_of l] l1" "lexer_ok q l1" "left_over l1 < left_over l"
    then show "parses q (takes l (path_step vs left)) (?f axis_attribute True l1)"
      by (intro step_then [OF l1(1) _ l1(2) _ True assms(2)]) (simp_all add: known_axis_def token_of_def that)
  qed (simp add: that no_lexeme_def)
  moreover have "lx_lexeme l = lex_dot \<Longrightarrow> parses q (takes l (path_step vs left))
      (xnext l (xreturn (ast_step_node left axis_self nodetest_type_node None)))"
    by (rule one_lexeme [OF assms(1)]) (simp_all add: no_lexeme_def token_of_def step_self True)
  moreover have "lx_lexeme l = lex_double_dot \<Longrightarrow> parses q (takes l (path_step vs left))
      (xnext l (xreturn (ast_step_node left axis_parent nodetest_type_node None)))"
    by (rule one_lexeme [OF assms(1)]) (simp_all add: no_lexeme_def token_of_def step_parent True)
  ultimately show ?thesis unfolding parse_step_def take_axis_def if_not_P [OF ok] by simp
qed

text \<open>A separator of steps, and what follows it.\<close>

lemma separator_then:
  assumes "lexer_ok q l" and "lx_lexeme l = x" and "x \<in> {lex_slash, lex_double_slash, lex_minus}"
    and "\<And>l1. lexes l [(x, [])] l1 \<Longrightarrow> left_over l1 < left_over l \<Longrightarrow> lexer_ok q l1 \<Longrightarrow> parses q Q (f l1)"
  shows "parses q Q (xnext l f)"
proof (rule parses_next [OF assms(1)])
  fix l1 assume "lexes l [token_of l] l1" "lexer_ok q l1" "left_over l1 < left_over l"
  moreover have "token_of l = (x, [])" by (rule token_of_bare(1) [OF assms(2)]) (use assms(3) in auto)
  ultimately show "parses q Q (f l1)" by (intro assms(4)) simp_all
qed (use assms(2,3) in \<open>auto simp: no_lexeme_def\<close>)

lemma next_step_ok:
  assumes "lexer_ok q l" and "depth_for (Suc k) l 0" and "lx_lexeme l = x" and "x \<in> {lex_slash, lex_double_slash, lex_minus}"
    and "\<And>us n. path_step vs (Some m) us n \<Longrightarrow> relative_path vs left (ts @ (x, []) # us) n"
  shows "parses q (may_take l (\<lambda>us. relative_path vs left (ts @ us)))
    (xnext l (\<lambda>l1. xbind (parse_step P (Some m) l1) (call_steps P)))"
proof (rule separator_then [OF assms(1,3,4)])
  fix l1 assume l1: "lexes l [(x, [])] l1" "left_over l1 < left_over l" "lexer_ok q l1"
  then have "depth_for (Suc k) l1 0" using assms(2) by (simp add: depth_for_def)
  from parse_step_ok [OF l1(3) this]
  show "parses q (may_take l (\<lambda>us. relative_path vs left (ts @ us))) (xbind (parse_step P (Some m) l1) (call_steps P))"
  proof (rule parses_bind)
    fix n l2 assume "takes l1 (path_step vs (Some m)) n l2" and ok2: "lexer_ok q l2"
    then obtain us where l2: "lexes l1 us l2" "path_step vs (Some m) us n" "left_over l2 < left_over l1"
      by (auto simp: takes_def)
    have two: "lexes l ((x, []) # us) l2" "left_over l2 < left_over l"
      using lexes_append [OF l1(1) l2(1)] l1(2) l2(3) by auto
    from steps [OF ok2 depth_less [OF assms(2) two(2)] assms(5) [OF l2(2)]]
    show "parses q (may_take l (\<lambda>us. relative_path vs left (ts @ us))) (call_steps P n l2)"
      using two(2) by (auto elim!: parses_mono may_take_after [OF _ two(1)])
  qed
qed

lemma parse_steps_ok:
  assumes "lexer_ok q l" and "depth_for (Suc k) l 0" and "relative_path vs left ts e"
  shows "parses q (may_take l (\<lambda>us. relative_path vs left (ts @ us))) (parse_steps P e l)"
  using next_step_ok [OF assms(1,2), of lex_slash e left ts] next_step_ok [OF assms(1,2), of lex_double_slash "all_nodes_step e" left ts]
    relative_more [OF assms(3)] relative_all [OF assms(3)] assms(1,3)
  by (auto simp: parse_steps_def intro!: parses_return may_take_none)

lemma parse_relative_location_path_ok:
  assumes "lexer_ok q l" and "depth_for (Suc k) l 0"
  shows "parses q (takes l (relative_path vs left)) (parse_relative_location_path P left l)"
  unfolding parse_relative_location_path_def
proof (rule parses_bind [OF parse_step_ok [OF assms]])
  fix n l1 assume "takes l (path_step vs left) n l1" and ok: "lexer_ok q l1"
  then obtain ts where ts: "lexes l ts l1" "path_step vs left ts n" "left_over l1 < left_over l" by (auto simp: takes_def)
  show "parses q (takes l (relative_path vs left)) (call_steps P n l1)"
    by (rule parses_mono [OF steps [OF ok depth_less [OF assms(2) ts(3)] relative_step [OF ts(2)]]])
      (auto elim!: takes_after [OF _ ts(1,3)])
qed

text \<open>A relative path behind a separator.\<close>

lemma relative_then:
  assumes "lexes l ts l1" and "left_over l1 < left_over l" and "lexer_ok q l1" and "depth_for (Suc k) l c"
    and "\<And>us n. relative_path vs left us n \<Longrightarrow> G (ts @ us) n"
  shows "parses q (takes l G) (parse_relative_location_path P left l1)"
proof -
  have "depth_for (Suc k) l1 0" using assms(2,4) by (simp add: depth_for_def)
  from parse_relative_location_path_ok [OF assms(3) this] show ?thesis
    by (rule parses_mono) (auto intro: takes_after [OF takes_may assms(1,2)] assms(5))
qed

lemma parse_location_path_ok:
  assumes "lexer_ok q l" and "depth_for (Suc k) l 0"
  shows "parses q (takes l (location_path vs)) (parse_location_path P l)"
proof -
  have "parses q (takes l (location_path vs))
      (xnext l (\<lambda>l1. if starts_location (lx_lexeme l1) then parse_relative_location_path P (Some root_node) l1
                      else xreturn root_node l1))" if "lx_lexeme l = lex_slash"
  proof (rule separator_then [OF assms(1) that])
    fix l1 assume l1: "lexes l [(lex_slash, [])] l1" "left_over l1 < left_over l" "lexer_ok q l1"
    show "parses q (takes l (location_path vs)) (if starts_location (lx_lexeme l1) then parse_relative_location_path P (Some root_node) l1
                      else xreturn root_node l1)"
      using relative_then [OF l1 assms(2), of "Some root_node" "location_path vs"] location_absolute l1
      by (auto simp: takes_def intro!: parses_return exI [of _ "[(lex_slash, [])]"] intro: location_root)
  qed simp
  moreover have "parses q (takes l (location_path vs))
      (xnext l (parse_relative_location_path P (Some (all_nodes_step root_node))))" if "lx_lexeme l = lex_double_slash"
  proof (rule separator_then [OF assms(1) that])
    fix l1 assume l1: "lexes l [(lex_double_slash, [])] l1" "left_over l1 < left_over l" "lexer_ok q l1"
    show "parses q (takes l (location_path vs)) (parse_relative_location_path P (Some (all_nodes_step root_node)) l1)"
      by (rule relative_then [OF l1 assms(2)]) (simp add: location_all)
  qed simp
  moreover have "parses q (takes l (location_path vs)) (parse_relative_location_path P None l)"
    by (rule parses_mono [OF parse_relative_location_path_ok [OF assms]]) (auto simp: takes_def intro: location_relative)
  ultimately show ?thesis unfolding parse_location_path_def by simp
qed

subsection \<open>Operators\<close>

lemma at_function_call_ok:
  assumes "lexer_ok q l"
  shows "\<exists>b. at_function_call l = Inr b"
proof -
  obtain s where s: "scan_while ct_space (lx_cur l) = Inr s" "in_query q s"
    using scan_while_query assms unfolding lexer_ok_def by blast
  obtain c r where "s = c # r" using s(2) by (rule in_query_cases)
  with s(1) show ?thesis
    by (cases "lx_lexeme l = lex_string") (simp_all add: at_function_call_def at_char_def exI [of _ True])
qed

lemma filter_path_ok:
  assumes "lexer_ok q l" and "depth_for (Suc k) l 0"
  shows "parses q (takes l (expr vs 9)) (xbind (parse_filter_expression vs P l) (\<lambda>n l1.
            if lx_lexeme l1 = lex_slash then xnext l1 (parse_relative_location_path P (Some n))
            else if lx_lexeme l1 = lex_double_slash then
              xnext l1 (\<lambda>l2. if \<not> node_set n then xthrow ''Step has to be applied to node set'' l2
                             else parse_relative_location_path P (Some (all_nodes_step n)) l2)
            else xreturn n l1))"
proof (rule parses_bind [OF parse_filter_expression_ok [OF assms]])
  fix n l1 assume "takes l (filter_expr vs) n l1" and ok: "lexer_ok q l1"
  then obtain ts where ts: "lexes l ts l1" "filter_expr vs ts n" "left_over l1 < left_over l" by (auto simp: takes_def)
  have slash: "parses q (takes l (expr vs 9)) (xnext l1 (parse_relative_location_path P (Some n)))"
    if "lx_lexeme l1 = lex_slash"
  proof (rule separator_then [OF ok that])
    fix l2 assume "lexes l1 [(lex_slash, [])] l2" "left_over l2 < left_over l1" "lexer_ok q l2"
    then show "parses q (takes l (expr vs 9)) (parse_relative_location_path P (Some n) l2)"
      using expr_filter_path [OF ts(2)] ts(3)
      by (intro relative_then [OF lexes_append [OF ts(1)] _ _ assms(2)]) auto
  qed simp
  have double: "parses q (takes l (expr vs 9)) (xnext l1 (\<lambda>l2.
      if \<not> node_set n then xthrow ''Step has to be applied to node set'' l2
      else parse_relative_location_path P (Some (all_nodes_step n)) l2))" if "lx_lexeme l1 = lex_double_slash"
  proof (rule separator_then [OF ok that])
    fix l2 assume l2: "lexes l1 [(lex_double_slash, [])] l2" "left_over l2 < left_over l1" "lexer_ok q l2"
    have "node_set n \<Longrightarrow> parses q (takes l (expr vs 9)) (parse_relative_location_path P (Some (all_nodes_step n)) l2)"
      using expr_filter_all [OF ts(2)] ts(3) l2
      by (intro relative_then [OF lexes_append [OF ts(1)] _ _ assms(2)]) auto
    then show "parses q (takes l (expr vs 9)) (if \<not> node_set n then xthrow ''Step has to be applied to node set'' l2
      else parse_relative_location_path P (Some (all_nodes_step n)) l2)"
      by (cases "node_set n") (simp_all add: parses_throw l2(3))
  qed simp
  have plain: "parses q (takes l (expr vs 9)) (xreturn n l1)"
    using ts ok expr_filter [OF ts(2)] by (auto simp: takes_def intro!: parses_return)
  show "parses q (takes l (expr vs 9)) (if lx_lexeme l1 = lex_slash then xnext l1 (parse_relative_location_path P (Some n))
            else if lx_lexeme l1 = lex_double_slash then
              xnext l1 (\<lambda>l2. if \<not> node_set n then xthrow ''Step has to be applied to node set'' l2
                             else parse_relative_location_path P (Some (all_nodes_step n)) l2)
            else xreturn n l1)"
    using slash double plain by simp
qed

lemma negation_ok:
  assumes "lexer_ok q l" and "depth_for (Suc k) l 0" and "lx_lexeme l = lex_minus"
  shows "parses q (takes l (operand vs)) (xnext l (\<lambda>l1. xbind (call_path_or_unary P l1) (\<lambda>n l2.
          xbind (call_expression_rec P n 7 l2) (\<lambda>e.
            xreturn (ast_op ast_op_negate xpath_type_number (Some e) None)))))"
proof (rule separator_then [OF assms(1,3)])
  fix l1 assume l1: "lexes l [(lex_minus, [])] l1" "left_over l1 < left_over l" "lexer_ok q l1"
  show "parses q (takes l (operand vs)) (xbind (call_path_or_unary P l1) (\<lambda>n l2.
          xbind (call_expression_rec P n 7 l2) (\<lambda>e.
            xreturn (ast_op ast_op_negate xpath_type_number (Some e) None))))"
  proof (rule parses_bind [OF path_or_unary [OF l1(3) depth_less [OF assms(2) l1(2)]]])
    fix n l2 assume "takes l1 (operand vs) n l2" and ok2: "lexer_ok q l2"
    then obtain us where l2: "lexes l1 us l2" "operand vs us n" "left_over l2 < left_over l1" by (auto simp: takes_def)
    have two: "lexes l ((lex_minus, []) # us) l2" "left_over l2 < left_over l"
      using lexes_append [OF l1(1) l2(1)] l1(2) l2(3) by auto
    have "op_precedence l2 \<le> 7"
      using binary_op_operator(3) [of l2] by (auto simp: op_precedence_def split: option.split)
    then have "parses q (goes_on vs 7 us l2) (call_expression_rec P n 7 l2)"
      using operand_fits [OF l2(2), of 7] by (intro expression_rec [OF ok2 depth_less [OF assms(2) two(2)], of 7]) auto
    then show "parses q (takes l (operand vs)) (xbind (call_expression_rec P n 7 l2) (\<lambda>e.
            xreturn (ast_op ast_op_negate xpath_type_number (Some e) None)))"
    proof (rule parses_bind)
      fix e l3 assume "goes_on vs 7 us l2 e l3" and ok3: "lexer_ok q l3"
      then obtain ws where l3: "lexes l2 ws l3" "fits vs 7 (us @ ws) e" "left_over l3 \<le> left_over l2"
        by (auto simp: goes_on_def may_take_def)
      have "expr vs 7 (us @ ws) e" using l3(2) expr_lower [of vs 8 "us @ ws" e 7] by (auto simp: fits_def)
      from expr_unary [OF this] have "operand vs ((lex_minus, []) # us @ ws) (ast_op ast_op_negate xpath_type_number (Some e) None)"
        by (simp add: operand_def node_set_def ast_op_def)
      then show "parses q (takes l (operand vs)) (xreturn (ast_op ast_op_negate xpath_type_number (Some e) None) l3)"
        using lexes_append [OF two(1) l3(1)] two(2) l3(3) ok3 by (fastforce simp: takes_def intro!: parses_return)
    qed
  qed simp
qed simp

lemma parse_path_or_unary_expression_ok:
  assumes "lexer_ok q l" and "depth_for (Suc k) l 0"
  shows "parses q (takes l (operand vs)) (parse_path_or_unary_expression vs P l)"
proof -
  have nine: "parses q (takes l (expr vs 9)) m \<Longrightarrow> parses q (takes l (operand vs)) m" for m
    by (erule parses_mono) (auto simp: takes_def operand_def)
  have "parses q (takes l (expr vs 9)) (parse_location_path P l)"
    by (rule parses_mono [OF parse_location_path_ok [OF assms]]) (auto simp: takes_def intro: expr_location)
  note cases = nine [OF this] nine [OF filter_path_ok [OF assms]] negation_ok [OF assms]
  obtain call where "at_function_call l = Inr call" using at_function_call_ok [OF assms(1)] by blast
  with cases show ?thesis unfolding parse_path_or_unary_expression_def by simp
qed

lemma parse_tighter_ok:
  assumes "lexer_ok q l" and "depth_for (Suc k) l 1" and "1 \<le> p" and "p \<le> 7" and "right_fits vs p ts e"
    and "p < 7 \<longrightarrow> (\<exists>m. p < m \<and> m \<le> 7 \<and> fits vs m ts e \<and> op_precedence l \<le> m)"
  shows "parses q (tightens vs p ts l) (parse_tighter P e p l)"
proof (cases "p < op_precedence l")
  case False
  have "tightens vs p ts l e l" using False assms(5) by (auto simp: tightens_def intro!: may_take_none)
  then show ?thesis
    using False assms(1) by (auto simp: parse_tighter_def op_precedence_def intro!: parses_return split: option.split)
next
  case True
  then obtain a r n where op: "binary_op_parse l = Some (a, r, n)" "op_precedence l = n" "p < n"
    by (auto simp: op_precedence_def split: option.splits)
  note n = binary_op_operator [OF op(1)]
  from assms(6) op(3) n(3) obtain m where m: "m \<le> 7" "fits vs m ts e" "op_precedence l \<le> m" by auto
  have "parses q (goes_on vs n ts l) (call_expression_rec P e n l)"
    using m op(2) n(2) by (intro expression_rec [OF assms(1) depth_same [OF assms(2)] m(2)]) auto
  then have "parses q (tightens vs p ts l) (xbind (call_expression_rec P e n l) (\<lambda>rhs. call_tighter P rhs p))"
  proof (rule parses_bind)
    fix x l1 assume "goes_on vs n ts l x l1" and ok: "lexer_ok q l1"
    then obtain us where l1: "lexes l us l1" "fits vs n (ts @ us) x" "left_over l1 < left_over l" "op_precedence l1 < n"
      using op(2) n(2) by (auto simp: goes_on_def may_take_def max_def split: if_splits)
    have "parses q (tightens vs p (ts @ us) l1) (call_tighter P x p l1)"
      using assms(3,4) op(3) n(3) l1(4) l1(2)
      by (intro tighter [OF ok depth_less [OF assms(2) l1(3)]] fits_right [OF l1(2)]) auto
    then show "parses q (tightens vs p ts l) (call_tighter P x p l1)"
      using l1(3) by (auto simp: tightens_def elim!: parses_mono may_take_after [OF _ l1(1)])
  qed
  with op show ?thesis by (simp add: parse_tighter_def)
qed

text \<open>The loop of \<open>parse_expression_rec\<close> behind the right operand of an operator.\<close>

lemma join_ok:
  assumes "lexes l (token_of l # us) l3" and "left_over l3 < left_over l" and "lexer_ok q l3" and "depth_for (Suc k) l 0"
    and "binary_op_parse l = Some (a, r, p)" and "max 1 limit \<le> p" and "fits vs p ts e" and "right_fits vs p us rhs"
    and "op_precedence l3 \<le> p"
  shows "parses q (goes_on vs limit ts l)
    (if a = ast_op_union \<and> (\<not> node_set e \<or> \<not> node_set rhs) then
       xthrow ''Union operator has to be applied to node sets'' l3
     else call_expression_rec P (ast_op a r (Some e) (Some rhs)) limit l3)"
proof (cases "a = ast_op_union \<longrightarrow> node_set e \<and> node_set rhs")
  case True
  from fits_binary [OF assms(5,7,8) True]
  have "parses q (goes_on vs limit (ts @ token_of l # us) l3)
      (call_expression_rec P (ast_op a r (Some e) (Some rhs)) limit l3)"
    using assms(6,9) binary_op_operator(3) [OF assms(5)]
    by (intro expression_rec [OF assms(3) depth_less [OF assms(4,2)]]) auto
  then have "parses q (goes_on vs limit ts l) (call_expression_rec P (ast_op a r (Some e) (Some rhs)) limit l3)"
    by (rule parses_mono)
      (use assms(2) in \<open>auto simp: goes_on_def intro: may_take_after [OF _ assms(1)] dest: may_take_left\<close>)
  with True show ?thesis by auto
next
  case False
  then show ?thesis using parses_throw [OF assms(3)] by auto
qed

lemma parse_expression_rec_ok:
  assumes "lexer_ok q l" and "depth_for (Suc k) l 0" and "fits vs m ts e" and "max 1 limit \<le> m" and "m \<le> 7"
    and "op_precedence l \<le> m"
  shows "parses q (goes_on vs limit ts l) (parse_expression_rec P e limit l)"
proof (cases "max 1 limit \<le> op_precedence l")
  case False
  have "fits vs (max 1 limit) ts e" using assms(3-5) by (intro fits_lower [OF assms(3)]) auto
  then have "goes_on vs limit ts l e l" using False by (auto simp: goes_on_def intro!: may_take_none)
  then show ?thesis
    using False assms(1) binary_op_operator(2) [of l]
    by (auto simp: parse_expression_rec_def op_precedence_def intro!: parses_return split: option.splits)
next
  case True
  then obtain a r p where op: "binary_op_parse l = Some (a, r, p)" "op_precedence l = p" "max 1 limit \<le> p"
    by (auto simp: op_precedence_def split: option.splits)
  note p = binary_op_operator [OF op(1)]
  have lhs: "fits vs p ts e" using op(2) assms(5,6) p(2) by (intro fits_lower [OF assms(3)]) auto
  let ?join = "\<lambda>rhs l3. if a = ast_op_union \<and> (\<not> node_set e \<or> \<not> node_set rhs) then
                  xthrow ''Union operator has to be applied to node sets'' l3
                else call_expression_rec P (ast_op a r (Some e) (Some rhs)) limit l3"
  have "parses q (goes_on vs limit ts l) (xnext l (\<lambda>l1. xbind (call_path_or_unary P l1) (\<lambda>rhs l2.
      xbind (call_tighter P rhs p l2) ?join)))"
  proof (rule parses_next [OF assms(1) p(4)])
    fix l1 assume l1: "lexes l [token_of l] l1" "lexer_ok q l1" "left_over l1 < left_over l"
    show "parses q (goes_on vs limit ts l) (xbind (call_path_or_unary P l1) (\<lambda>rhs l2. xbind (call_tighter P rhs p l2) ?join))"
    proof (rule parses_bind [OF path_or_unary [OF l1(2) depth_less [OF assms(2) l1(3)]]])
      fix n l2 assume "takes l1 (operand vs) n l2" and ok2: "lexer_ok q l2"
      then obtain us where l2: "lexes l (token_of l # us) l2" "operand vs us n" "left_over l2 < left_over l"
        using lexes_append [OF l1(1)] l1(3) by (fastforce simp: takes_def)
      have "op_precedence l2 \<le> 7"
        using binary_op_operator(3) [of l2] by (auto simp: op_precedence_def split: option.split)
      then have "p < 7 \<longrightarrow> (\<exists>m. p < m \<and> m \<le> 7 \<and> fits vs m us n \<and> op_precedence l2 \<le> m)"
        using operand_fits [OF l2(2), of 7] by auto
      from tighter [OF ok2 depth_less [OF assms(2) l2(3)] p(2,3) operand_right [OF l2(2) p(2,3)] this]
      show "parses q (goes_on vs limit ts l) (xbind (call_tighter P n p l2) ?join)"
      proof (rule parses_bind)
        fix rhs l3 assume "tightens vs p us l2 rhs l3" and ok3: "lexer_ok q l3"
        then obtain ws where "lexes l2 ws l3" "right_fits vs p (us @ ws) rhs" "left_over l3 \<le> left_over l2"
          "op_precedence l3 \<le> p" by (auto simp: tightens_def may_take_def)
        with lexes_append [OF l2(1)] l2(3) show "parses q (goes_on vs limit ts l) (?join rhs l3)"
          by (intro join_ok [OF _ _ ok3 assms(2) op(1,3) lhs]) auto
      qed simp
    qed simp
  qed
  with op show ?thesis by (simp add: parse_expression_rec_def)
qed

end

section \<open>The whole parser\<close>

lemma xpath_parsers_ok: "xpath_calls_ok q vs k (xpath_parsers vs k)"
proof (induction k)
  case 0
  show ?case by unfold_locales (simp_all add: depth_for_def)
next
  case (Suc k)
  note laws = xpath_calls_ok.parse_expression_ok [OF Suc] xpath_calls_ok.parse_expression_rec_ok [OF Suc]
    xpath_calls_ok.parse_tighter_ok [OF Suc] xpath_calls_ok.parse_path_or_unary_expression_ok [OF Suc]
    xpath_calls_ok.parse_filter_predicates_ok [OF Suc] xpath_calls_ok.parse_arguments_ok [OF Suc]
    xpath_calls_ok.parse_step_predicates_ok [OF Suc] xpath_calls_ok.parse_steps_ok [OF Suc]
  show ?case by unfold_locales (simp_all add: Let_def laws del: One_nat_def)
qed

interpretation parsers: xpath_calls_ok q vs k "xpath_parsers vs k" for q vs k
  by (rule xpath_parsers_ok)

text \<open>
  The parser on a query: it returns, without an undefined read and within the depth given, and either
  throws at a place in the query or makes a tree that the grammar gives to all the lexemes of the query.
\<close>

theorem xpath_parse_keeps_grammar:
  "\<exists>r. xpath_parse vs query = Inr r
     \<and> (case r of Compiled n \<Rightarrow> \<exists>ts. query_tokens query ts \<and> expr vs 1 ts n
              | Xpath_error message offset \<Rightarrow> offset \<le> length query)"
proof -
  let ?q = "query @ [NUL]" and ?k = "2 * length query + 3"
  let ?start = "\<lparr>lx_cur = ?q, lx_lexeme_pos = [], lx_contents = [], lx_lexeme = lex_none\<rparr>"
  let ?stop = "\<lambda>n l1. if lx_lexeme l1 \<noteq> lex_eof then xthrow ''Incorrect query'' l1 else xreturn n l1"
  have "in_query ?q (lx_cur ?start)" by (simp add: in_query_def)
  from lexer_next_ok [OF this] obtain l where l: "xpath_lexer_init ?q = Inr l" "lexer_ok ?q l" "left_over l \<le> Suc (length query)"
    by (auto simp: xpath_lexer_init_def)
  have "parses ?q (takes l (expr vs 1)) (parse_expression (xpath_parsers vs (Suc ?k)) l)"
    by (rule parsers.parse_expression_ok [OF l(2)]) (use l(3) in \<open>simp add: depth_for_def\<close>)
  then have "parses ?q (\<lambda>n l1. \<exists>ts. query_tokens query ts \<and> expr vs 1 ts n) (xbind (parse_expression (xpath_parsers vs (Suc ?k)) l) ?stop)"
  proof (rule parses_bind)
    fix n l1 assume "takes l (expr vs 1) n l1" and ok: "lexer_ok ?q l1"
    then show "parses ?q (\<lambda>n l1. \<exists>ts. query_tokens query ts \<and> expr vs 1 ts n) (?stop n l1)"
      using l(1) by (auto simp: takes_def query_tokens_def intro!: parses_throw parses_return)
  qed
  then show ?thesis
    unfolding xpath_parse_def Let_def parses_def
    by (auto simp: l(1) eval_nat_numeral in_query_def dest!: suffix_length_le)
qed

end
