(* ===== verification/Spec2Isabelle.thy ===== *)
theory Spec2Isabelle
  imports Json_Text Json_Compare Random_Vent Xml Charfreq_Run Machine Tuner Http_Server Build Graph Utils Launch Pugi_Encodings Pugi_Grammar
begin

text \<open>
  skweltch runs machines: processes that pass messages over ZeroMQ pipes.  A vent produces numbered
  messages, workers transform them, and a sink gathers the answers of a batch and reports.  A machine is
  described by a JSON configuration; a server starts it, tells its vent to send and stops it, and other
  programs time it, tune it, watch a source tree to rebuild it, and show it in a browser.  This
  development models the program's own C++ code under \<open>src/\<close> as functions and step relations and proves
  what makes each part correct.

  \<^bold>\<open>How the code is modelled.\<close>  A C++ function is a HOL function of the same name (with its class as a
  prefix).  Exceptions, thrown pointers, exits from a loop and undefined behaviour (an overflow of
  \<open>int\<close>, an access out of range, a division by zero, a null pointer) are values of \<open>exn\<close> on the left of
  a sum (\<open>'a res\<close>), so every error path is a branch.  Integers are \<open>int\<close> with the width of each C++
  operation written out (\<open>add_int32\<close>, \<open>to_int32\<close>, \<open>to_int64\<close>); doubles are \<open>Fin m e\<close> for
  \<open>m * 2 ^ e\<close>, rounded to 53 bits.  Code that changes objects takes the object's record and returns
  the new one; code that changes several things and can throw is a \<open>prog\<close>, which returns the state
  also where it throws.  A loop over what the outside world does (messages, signals, timeouts,
  completions) is a step function over events, driven by \<open>run\<close> over any finite list of them; every
  statement about such a loop holds for every list, so there is no fuel, and every other recursion
  terminates by structure or by a measure.

  \<^bold>\<open>The theories\<close>, from the bottom.

  \<^item> \<open>Prelude\<close>: results, programs, fixed-width integers, strings, \<open>run\<close>, and the locale \<open>stepper\<close> (a
    loop with an invariant).  \<open>Doubles\<close>: the arithmetic of \<open>double\<close>, with error bounds.
  \<^item> JSON.  json_spirit, as far as the program uses it: \<open>Json_Value\<close> and \<open>Json_Compare\<close> (values),
    \<open>Json_Writer\<close> (the generator), \<open>Json_Strings\<close> (escapes), \<open>Json_Reader\<close> (the grammar and its semantic
    actions, refined to a recursive descent in the locale \<open>compound\<close>) and \<open>Json_Text\<close> (reading ends;
    what is written is read back).  \<open>Json_Object\<close> and \<open>Json_Path\<close> model \<open>config/\<close>: updates and look-ups
    (locales \<open>keyed_store\<close>, \<open>growing_store\<close>), the pointer walk against looking names up, and what
    \<open>setPathInt\<close> changes.
  \<^item> Messages and loops (\<open>core/\<close>, \<open>msg/\<close>).  \<open>Messages\<close>, with msgpack as a parameter (\<open>codec\<close>);
    \<open>Msg_Tracker\<close>, refined to a set of ids (locale \<open>batch_tracker\<close>); \<open>Sink_Loop\<close>, \<open>Work_Loop\<close> and
    \<open>Vent_Loop\<close> for \<open>Sink.cpp\<close>, \<open>Work.cpp\<close>, \<open>Vent.cpp\<close>, \<open>Poll.cpp\<close> (locale \<open>throttled_sender\<close>);
    \<open>Mains\<close> for what the \<open>main\<close> functions share.
  \<^item> The blocks of machines.  Vents: \<open>Words\<close>, \<open>Xml\<close>, \<open>Random_Vent\<close>; workers: \<open>Workers\<close> (locale
    \<open>answering_worker\<close>); sinks: \<open>Sinks\<close>.  \<open>Charfreq\<close> joins worker, tracker, loop and sink of one machine:
    whatever the order of the answers, each batch is reported once and right.  \<open>Charfreq_Run\<close> runs the
    vent, the workers and the sink together: \<open>net_step\<close> delivers one message to one of them, the
    announcement of the first id before any answer, which the sockets do not ensure.
  \<^item> pugixml, which \<open>work/workxpath.cpp\<close> reads its documents with.  \<open>Pugi_Text\<close>: the encodings of a
    buffer and the seven loops that convert a text in place, moving a gap along, refined to functions
    of the text (locale \<open>converter\<close>).  \<open>Pugi_Parser\<close>: \<open>xml_parser\<close> and \<open>load_buffer\<close>; its recursions
    take the length of the buffer as fuel.  \<open>Pugi_Safe\<close>: that this is enough, and that nothing is read
    past the buffer (locale \<open>readable\<close>; \<open>uncommented\<close> for buffers with a document type).
    \<open>Pugi_Writer\<close>: \<open>node_output\<close> and \<open>xml_document::save\<close>, as the text they write; \<open>Pugi_Output\<close>: the same
    as the calls they make of \<open>xml_buffered_writer\<close>, which cuts and converts (\<open>Pugi_Utf8\<close>) what it is given.
    \<open>Pugi_Roundtrip\<close> and \<open>Pugi_Encodings\<close>: what is saved, in whatever encoding, is read back.
    \<open>Pugi_Lexer\<close> and \<open>Pugi_Xpath\<close>: the lexer and the parser of its queries, with the depth of its calls as
    fuel; \<open>Pugi_Grammar\<close>: it ends, within that depth and the query, and what it builds is what the grammar of
    its comments gives to the lexemes (locale \<open>xpath_calls_ok\<close>, lemma \<open>xpath_parse_keeps_grammar\<close>); not
    that it accepts every text of the grammar.
  \<^item> Running machines (\<open>machine/\<close>).  \<open>Pipes\<close> (\<open>PipeBuilder.cpp\<close> and \<open>Ports.cpp\<close>, which must agree),
    \<open>Task_Monitor\<close> (processes), \<open>Launch\<close> (what a started program reads), \<open>Machine\<close> (the server and its command), \<open>Runner\<close> (\<open>run\<close>, \<open>soak\<close>),
    \<open>Tuner\<close> (\<open>tune\<close>).  Lemmas: no process is lost, whichever way starting ends; what is started
    is what the text of the configuration asks for (\<open>block_runs\<close>); what a run reports.
  \<^item> The user interface (\<open>ui/\<close>).  \<open>Http_Parser\<close>, \<open>Http_Reply\<close>, \<open>Rest\<close>, and \<open>Http_Server\<close>, whose
    connections are the inductive relations \<open>server_step\<close> and \<open>reachable\<close> over the completions of
    Boost.Asio.  Lemmas: the parser reads what is printed, requests cannot leave the document root, and
    invariants of all reachable servers.
  \<^item> The build machine (\<open>build/\<close>): \<open>Build\<close>.  The picture of a machine (\<open>graph/\<close>): \<open>Graph\<close>.  The tools
    (\<open>pipe/\<close>, \<open>util/\<close>): \<open>Utils\<close>.  Lemmas: a pipe between two blocks changes nothing for them (locale
    \<open>forwarder\<close>), and \<open>killall\<close> ends what a run leaves.

  \<^bold>\<open>Parameters.\<close>  Code that is not under \<open>src/\<close>, and code there that only drives a library, is an
  argument: msgpack (\<open>codec\<close>), the sockets of ZeroMQ and the clock (the events of a turn), \<open>fork\<close> and
  \<open>execve\<close>, the shell and Boost's parser of options, the file system, the ready-made parsers of Boost.Spirit (the record \<open>spirit\<close>), the answers of pugixml
  to XPath queries, the layouts and generators of Boost, libgit2.  What only reads a configuration takes any
  reader of JSON as an argument (\<open>json_reader\<close>), of which \<open>json_spirit\<close> is the one of the program.  What a theorem assumes of them is
  in its statement (such as \<open>codec_ok\<close>: unpacking gives what was packed).

  \<^bold>\<open>Not modelled.\<close>  Log output; the evaluation of XPath, the editing of trees, the memory and the files of
  pugixml; cppzmq and turtle; the wide-string and map-based
  variants of json_spirit and the reading of numbers by Boost.Spirit; \<open>Git::nativePull\<close>, which nothing
  calls; the parsing of command lines.
\<close>

end
